(* ===== verification/VP_Prelude.thy ===== *)
theory VP_Prelude
  imports Main "HOL-Library.Word" "HOL-Library.Monad_Syntax"
begin

text \<open>
  Shared vocabulary of the development: the machine-integer types of the sources, the
  response codes of a TLM transaction, the model of a C assertion, and the generic lemmas
  on words, lists and options that the component theories rest on.

  Two collections carry the automation: \<open>wsimps\<close> holds the facts that move a question
  about words to one about natural numbers, \<open>osimps\<close> the facts that take apart a
  computation in the option monad.
\<close>

named_theorems wsimps \<open>moving word facts to natural numbers\<close>
named_theorems osimps \<open>taking option-valued computations apart\<close>

unbundle bit_operations_syntax

type_synonym u8 = "8 word"
type_synonym u16 = "16 word"
type_synonym u32 = "32 word"
type_synonym u64 = "64 word"

text \<open>
  The response codes of a TLM-2.0 generic payload, as the sources read and write them.
\<close>

datatype tlm_response_status =
  TLM_OK_RESPONSE | TLM_INCOMPLETE_RESPONSE | TLM_GENERIC_ERROR_RESPONSE
  | TLM_ADDRESS_ERROR_RESPONSE | TLM_COMMAND_ERROR_RESPONSE
  | TLM_BURST_ERROR_RESPONSE | TLM_BYTE_ENABLE_ERROR_RESPONSE

datatype tlm_command = TLM_READ_COMMAND | TLM_WRITE_COMMAND | TLM_IGNORE_COMMAND

text \<open>
  A C \<open>assert\<close>: the computation goes on when the condition holds and aborts
  (\<open>None\<close>) when it does not.
\<close>

definition cassert :: "bool \<Rightarrow> unit option" where
  "cassert b = (if b then Some () else None)"

lemma cassert_True [simp]: "cassert True = Some ()"
  by (simp add: cassert_def)

lemma cassert_False [simp]: "cassert False = None"
  by (simp add: cassert_def)

lemma cassert_eq_Some [simp, osimps]: "cassert b = Some u \<longleftrightarrow> b"
  by (simp add: cassert_def)

lemma cassert_eq_None [simp]: "cassert b = None \<longleftrightarrow> \<not> b"
  by (simp add: cassert_def)

lemma cassert_bind [simp]: "Option.bind (cassert b) f = (if b then f () else None)"
  by (simp add: cassert_def)

lemma if_None_eq_Some [osimps]: "(if b then x else None) = Some y \<longleftrightarrow> b \<and> x = Some y"
  by simp

declare Option.bind_eq_Some_conv [osimps]

section \<open>Words\<close>

lemma word_le_unat [wsimps]: "a \<le> b \<longleftrightarrow> unat a \<le> unat b" for a b :: "'a::len word"
  by (rule word_le_nat_alt)

lemma word_less_unat [wsimps]: "a < b \<longleftrightarrow> unat a < unat b" for a b :: "'a::len word"
  by (rule word_less_nat_alt)

lemma unat_add_nowrap:
  "unat a + unat b < 2 ^ LENGTH('a) \<Longrightarrow> unat (a + b) = unat a + unat b" for a b :: "'a::len word"
  by (simp add: unat_word_ariths)

lemma unat_sub_le: "b \<le> a \<Longrightarrow> unat (a - b) = unat a - unat b" for a b :: "'a::len word"
  by (simp add: unat_sub word_le_nat_alt)

lemma unat_minus_one_word: "a \<noteq> 0 \<Longrightarrow> unat (a - 1) = unat a - 1" for a :: "'a::len word"
  by (rule unat_minus_one)

lemma unat_plus_one_word: "a + 1 \<noteq> 0 \<Longrightarrow> unat (a + 1) = unat a + 1" for a :: "'a::len word"
  by (metis Suc_eq_plus1 add.commute unatSuc)

lemma word_le_pred_iff: "a < b \<Longrightarrow> x \<le> b - 1 \<longleftrightarrow> x < b" for a b x :: "'a::len word"
proof -
  assume "a < b"
  then have "b \<noteq> 0" by auto
  from unat_minus_one_word [OF this] \<open>a < b\<close> show ?thesis
    by (auto simp: word_le_nat_alt word_less_nat_alt)
qed

lemma unat_bound: "unat a < 2 ^ LENGTH('a)" for a :: "'a::len word"
  by (rule unsigned_less)

lemma unat_succ_less: "a < b \<Longrightarrow> unat (a + 1) = unat a + 1" for a b :: "'a::len word"
proof -
  assume "a < b"
  then have "Suc (unat a) \<le> unat b" by (simp add: word_less_nat_alt)
  also note unat_bound [of b]
  finally show ?thesis by (simp add: unat_word_ariths)
qed

lemma word_succ_le_iff: "a < b \<Longrightarrow> a + 1 \<le> x \<longleftrightarrow> a < x" for a b x :: "'a::len word"
  by (auto simp: word_le_nat_alt word_less_nat_alt unat_succ_less)

lemma unat_image_interval: "unat ` {a .. b} = {unat a .. unat b}" for a b :: "'a::len word"
proof
  show "{unat a .. unat b} \<subseteq> unat ` {a .. b}"
  proof
    fix n assume n: "n \<in> {unat a .. unat b}"
    then have "n \<le> unat b" by simp
    also note unat_bound [of b]
    finally have "n < 2 ^ LENGTH('a)" .
    then have eq: "unat (of_nat n :: 'a word) = n"
      by (simp add: unat_of_nat)
    with n have "(of_nat n :: 'a word) \<in> {a .. b}" by (simp add: word_le_nat_alt)
    then show "n \<in> unat ` {a .. b}" using eq by force
  qed
qed (auto simp: word_le_nat_alt)

lemma card_word_interval: "card {a .. b} = Suc (unat b) - unat a" for a b :: "'a::len word"
proof -
  have "inj_on unat {a .. b}" by (simp add: inj_on_def word_unat_eq_iff)
  then have "card {a .. b} = card (unat ` {a .. b})" by (simp add: card_image)
  then show ?thesis by (simp add: unat_image_interval)
qed

lemma unat_two_power: "n < LENGTH('a) \<Longrightarrow> unat (2 ^ n :: 'a::len word) = 2 ^ n"
proof -
  assume n: "n < LENGTH('a)"
  have "(2 ^ n :: 'a word) = of_nat (2 ^ n)" by simp
  moreover have "(2::nat) ^ n < 2 ^ LENGTH('a)" using n by simp
  ultimately show ?thesis by (simp only: unat_of_nat mod_less)
qed

section \<open>Lists\<close>

lemma upt_split: "i \<le> j \<Longrightarrow> j \<le> n \<Longrightarrow> [i..<n] = [i..<j] @ [j..<n]"
  by (metis le_add_diff_inverse upt_add_eq_append)

lemma map_remove1_inj:
  "inj_on f (insert x (set xs)) \<Longrightarrow> map f (remove1 x xs) = remove1 (f x) (map f xs)"
  by (induction xs) (auto simp: inj_on_def)

lemma remove1_upt: "k < n \<Longrightarrow> remove1 k [0..<n] = [0..<k] @ [Suc k..<n]"
proof -
  assume "k < n"
  then have "[0..<n] = [0..<k] @ k # [Suc k..<n]"
    using upt_split [of 0 k n] by (simp add: upt_conv_Cons)
  then show ?thesis by (simp add: remove1_append)
qed

text \<open>A loop that keeps the last index satisfying a condition.\<close>

lemma fold_pick_last:
  fixes n :: nat
  assumes "i < n" "P i" "\<And>j. i < j \<Longrightarrow> j < n \<Longrightarrow> \<not> P j"
  shows "fold (\<lambda>i v. if P i then i else v) [0..<n] v = i"
  using assms
proof (induction n)
  case (Suc n)
  then show ?case by (cases "P n") (auto simp: less_Suc_eq)
qed simp

lemma fold_pick_less:
  fixes n :: nat
  assumes "v < m" "n \<le> m"
  shows "fold (\<lambda>i v. if P i then i else v) [0..<n] v < m"
  using assms(2) by (induction n) (use assms(1) in auto)

end
