(* ===== verification/AddrSpace.thy ===== *)
theory AddrSpace
  imports VP_Prelude
begin

text \<open>
  Address ranges (\<open>core/AddrSpace.cpp\<close>): an inclusive interval of 64-bit addresses, with
  the observers, the setters and the interval algebra the TLM interfaces and the parameter
  sets are built on. The abstract view of a range is the set of the addresses it covers
  (\<open>covers\<close>); the lemmas relate every operation to a set operation.
\<close>

record AddrSpace =
  mBaseAddress :: u64
  mEndAddress :: u64

datatype addr_error = Overflow_error

section \<open>Constructors, setters, observers\<close>

definition AddrSpace_of_size :: "u64 \<Rightarrow> AddrSpace" where
  "AddrSpace_of_size Size = \<lparr>mBaseAddress = 0, mEndAddress = Size\<rparr>"

definition AddrSpace_of :: "u64 \<Rightarrow> u64 \<Rightarrow> AddrSpace" where
  "AddrSpace_of base end_addr = \<lparr>mBaseAddress = base, mEndAddress = end_addr\<rparr>"

definition maxRange :: AddrSpace where
  "maxRange = AddrSpace_of 0 (- 1)"

text \<open>
  \<open>setSize\<close> assigns before it tests, so the range is changed even when it throws.
\<close>

definition setSize :: "u64 \<Rightarrow> AddrSpace \<Rightarrow> addr_error option \<times> AddrSpace" where
  "setSize Size a =
     (let a' = a\<lparr>mEndAddress := mBaseAddress a + Size - 1\<rparr>
      in (if mBaseAddress a' + Size < mEndAddress a' then Some Overflow_error else None, a'))"

definition setBaseAddress :: "u64 \<Rightarrow> AddrSpace \<Rightarrow> AddrSpace" where
  "setBaseAddress BaseAddress a =
     (let shift = BaseAddress - mBaseAddress a
      in a\<lparr>mBaseAddress := BaseAddress, mEndAddress := mEndAddress a + shift\<rparr>)"

definition setEndAddress :: "u64 \<Rightarrow> AddrSpace \<Rightarrow> AddrSpace" where
  "setEndAddress endAddress a = a\<lparr>mEndAddress := endAddress\<rparr>"

definition getSize :: "AddrSpace \<Rightarrow> addr_error + u64" where
  "getSize a =
     (if mBaseAddress a = 0 \<and> mEndAddress a = 0xffffffffffffffff then Inl Overflow_error
      else Inr (mEndAddress a - mBaseAddress a + 1))"

section \<open>The interval algebra\<close>

definition addr_less :: "AddrSpace \<Rightarrow> AddrSpace \<Rightarrow> bool" where
  "addr_less this that \<longleftrightarrow>
     mBaseAddress this < mBaseAddress that \<or>
     (mBaseAddress this = mBaseAddress that \<and> mEndAddress this < mEndAddress that)"

definition contains :: "AddrSpace \<Rightarrow> AddrSpace \<Rightarrow> bool" where
  "contains this that \<longleftrightarrow>
     mBaseAddress this \<le> mBaseAddress that \<and> mEndAddress that \<le> mEndAddress this"

definition intersect :: "AddrSpace \<Rightarrow> AddrSpace \<Rightarrow> bool" where
  "intersect this that \<longleftrightarrow>
     mBaseAddress this \<le> mEndAddress that \<and> mBaseAddress that \<le> mEndAddress this"

definition intersection :: "AddrSpace \<Rightarrow> AddrSpace \<Rightarrow> AddrSpace" where
  "intersection this that =
     (if \<not> intersect this that then AddrSpace_of_size 0
      else AddrSpace_of (max (mBaseAddress this) (mBaseAddress that))
                        (min (mEndAddress this) (mEndAddress that)))"

definition relativeComplement :: "AddrSpace \<Rightarrow> AddrSpace \<Rightarrow> AddrSpace list" where
  "relativeComplement this that =
     (if mBaseAddress this < mBaseAddress that
      then [AddrSpace_of (mBaseAddress this) (mBaseAddress that - 1)] else []) @
     (if mEndAddress that < mEndAddress this
      then [AddrSpace_of (mEndAddress that + 1) (mEndAddress this)] else [])"

section \<open>The abstract view\<close>

definition covers :: "AddrSpace \<Rightarrow> u64 set" where
  "covers a = {mBaseAddress a .. mEndAddress a}"

definition wf_space :: "AddrSpace \<Rightarrow> bool" where
  "wf_space a \<longleftrightarrow> mBaseAddress a \<le> mEndAddress a"

lemmas space_defs = AddrSpace_of_def AddrSpace_of_size_def covers_def wf_space_def

lemma covers_of [simp]: "covers (AddrSpace_of b e) = {b .. e}"
  by (simp add: space_defs)

lemma covers_nonempty: "wf_space a \<longleftrightarrow> covers a \<noteq> {}"
  by (simp add: space_defs)

lemma contains_iff_subset: "wf_space that \<Longrightarrow> contains this that \<longleftrightarrow> covers that \<subseteq> covers this"
  by (auto simp: contains_def space_defs)

lemma intersect_iff_overlap:
  "wf_space this \<Longrightarrow> wf_space that \<Longrightarrow> intersect this that \<longleftrightarrow> covers this \<inter> covers that \<noteq> {}"
  by (force simp: intersect_def space_defs Int_atLeastAtMost)

lemma intersection_covers:
  "intersect this that \<Longrightarrow> covers (intersection this that) = covers this \<inter> covers that"
  by (simp add: intersection_def covers_def AddrSpace_of_def Int_atLeastAtMost)

lemma covers_below:
  "b < b' \<Longrightarrow> covers (AddrSpace_of b (b' - 1)) = {b ..< b'}"
  by (auto simp: word_le_pred_iff)

lemma covers_above:
  "e' < e \<Longrightarrow> covers (AddrSpace_of (e' + 1) e) = {e' <.. e}"
  by (auto simp: word_succ_le_iff)

lemma relativeComplement_covers:
  assumes "wf_space this" "wf_space that" "intersect this that"
  shows "(\<Union>r \<in> set (relativeComplement this that). covers r) = covers this - covers that"
proof -
  have "(\<Union>r \<in> set (relativeComplement this that). covers r) =
      {mBaseAddress this ..< mBaseAddress that} \<union> {mEndAddress that <.. mEndAddress this}"
    by (auto simp: relativeComplement_def covers_below covers_above simp del: covers_of)
  with assms show ?thesis by (auto simp: intersect_def covers_def wf_space_def)
qed

lemma unat_full_interval:
  fixes b e :: u64
  assumes "b \<le> e" "\<not> (b = 0 \<and> e = 0xffffffffffffffff)"
  shows "unat (e - b + 1) = Suc (unat e) - unat b"
proof -
  have le: "unat b \<le> unat e" using assms(1) by (simp add: word_le_nat_alt)
  have ub: "unat e \<le> 0xffffffffffffffff" using unat_bound [of e] by simp
  have "unat b \<noteq> 0 \<or> unat e \<noteq> 0xffffffffffffffff"
    using assms(2) by (auto simp: word_unat_eq_iff)
  with le ub have "Suc (unat e - unat b) < 2 ^ 64" by auto
  then show ?thesis using le
    by (simp add: unat_word_ariths(1) unat_sub_le [OF assms(1)])
qed

lemma getSize_card:
  assumes "wf_space a" "getSize a = Inr n"
  shows "unat n = card (covers a)"
  using assms unat_full_interval [of "mBaseAddress a" "mEndAddress a"]
  by (auto simp: getSize_def covers_def wf_space_def card_word_interval split: if_splits)

text \<open>Ranges are ordered as the code orders them: by base, then by end.\<close>

lemma addr_less_linear: "addr_less a b \<or> a = b \<or> addr_less b a"
  by (cases a; cases b) (auto simp: addr_less_def)

lemma addr_less_trans: "addr_less a b \<Longrightarrow> addr_less b c \<Longrightarrow> addr_less a c"
  by (auto simp: addr_less_def)

lemma addr_less_irrefl: "\<not> addr_less a a"
  by (simp add: addr_less_def)

section \<open>Properties\<close>

text \<open>
  C11: For two non-empty ranges that overlap, the relative complement is the difference of the two
  sets of addresses: the ranges it returns cover the addresses of the first that the second
  does not cover, are themselves non-empty and do not overlap.
\<close>
theorem relativeComplement_difference:
  assumes "wf_space this" "wf_space that" "intersect this that"
  shows "(\<Union>r \<in> set (relativeComplement this that). covers r) = covers this - covers that \<and>
    list_all wf_space (relativeComplement this that) \<and>
    sorted_wrt (\<lambda>r s. covers r \<inter> covers s = {}) (relativeComplement this that)"
proof (intro conjI)
  show "(\<Union>r \<in> set (relativeComplement this that). covers r) = covers this - covers that"
    by (rule relativeComplement_covers [OF assms])
  show "list_all wf_space (relativeComplement this that)"
    unfolding relativeComplement_def covers_nonempty
    by (auto simp: covers_below covers_above simp del: covers_of)
  show "sorted_wrt (\<lambda>r s. covers r \<inter> covers s = {}) (relativeComplement this that)"
    using assms unfolding relativeComplement_def
    by (auto simp: covers_below covers_above wf_space_def simp del: covers_of)
qed

theorem relativeComplement_difference_witness:
  "(\<Union>r \<in> set (relativeComplement (AddrSpace_of 0 100) (AddrSpace_of 10 20)). covers r) =
     covers (AddrSpace_of 0 100) - covers (AddrSpace_of 10 20)"
  using relativeComplement_difference [of "AddrSpace_of 0 100" "AddrSpace_of 10 20"]
  by (simp add: wf_space_def AddrSpace_of_def intersect_def)

text \<open>
  \<open>setSize\<close> and \<open>getSize\<close>. Setting a non-zero size is accepted exactly when the first address
  after the range is representable. When it is accepted and the range does not wrap around, the
  size read back is the size set and the range covers that many addresses; but a range that
  wraps around is accepted as well, and it covers no address at all.
\<close>
theorem setSize_getSize:
  assumes "Size \<noteq> 0" and "setSize Size a = (err, a')"
  shows "(err = None \<longleftrightarrow> mBaseAddress a + Size \<noteq> 0) \<and>
    (unat (mBaseAddress a) + unat Size < 2 ^ 64 \<longrightarrow> getSize a' = Inr Size \<and> card (covers a') = unat Size) \<and>
    (2 ^ 64 < unat (mBaseAddress a) + unat Size \<longrightarrow> err = None \<and> covers a' = {})"
proof -
  let ?b = "mBaseAddress a"
  have a': "mBaseAddress a' = ?b" "mEndAddress a' = ?b + Size - 1" and err: "err = (if ?b + Size < ?b + Size - 1 then Some Overflow_error else None)"
    using assms(2) by (auto simp: setSize_def Let_def)
  have wrap: "?b + Size < ?b + Size - 1 \<longleftrightarrow> ?b + Size = 0"
    by (cases "?b + Size = 0") (auto simp: word_less_nat_alt unat_minus_one_word unat_gt_0)
  have pos: "0 < unat Size" "unat Size < 2 ^ 64" "unat ?b < 2 ^ 64"
    using assms(1) unat_bound [of Size] unat_bound [of ?b] by (auto simp: unat_gt_0)
  have fit: "getSize a' = Inr Size \<and> card (covers a') = unat Size" if n: "unat ?b + unat Size < 2 ^ 64"
  proof -
    have s: "unat (?b + Size) = unat ?b + unat Size" using n by (simp add: unat_add_nowrap)
    then have nz: "?b + Size \<noteq> 0" using pos by auto
    have e: "unat (?b + Size - 1) = unat ?b + unat Size - 1" using unat_minus_one_word [OF nz] s by simp
    have w: "wf_space a'" using e pos a' by (simp add: wf_space_def word_le_nat_alt)
    have "getSize a' = Inr Size"
    proof -
      have max: "(0xffffffffffffffff :: u64) = - 1" by simp
      have "?b + Size - 1 \<noteq> 0xffffffffffffffff" unfolding max using nz by (metis diff_add_cancel add.left_inverse)
      then show ?thesis using a' by (auto simp: getSize_def)
    qed
    then show ?thesis using getSize_card [OF w] by simp
  qed
  have over: "covers a' = {}" "?b + Size \<noteq> 0" if n: "2 ^ 64 < unat ?b + unat Size"
  proof -
    have s: "unat (?b + Size) = unat ?b + unat Size - 2 ^ 64"
      using n pos by (simp add: unat_word_ariths mod_if)
    then show nz: "?b + Size \<noteq> 0" using n by auto
    have "unat (?b + Size - 1) < unat ?b" using unat_minus_one_word [OF nz] s n pos by simp
    then show "covers a' = {}" using a' by (simp add: covers_def word_less_nat_alt)
  qed
  show ?thesis using err wrap fit over by auto
qed

theorem setSize_getSize_witness:
  "getSize (snd (setSize 16 (AddrSpace_of 4096 0))) = Inr 16 \<and>
   fst (setSize 32 (AddrSpace_of 0xfffffffffffffff0 0)) = None \<and>
   covers (snd (setSize 32 (AddrSpace_of 0xfffffffffffffff0 0))) = {}"
  using setSize_getSize [of 16 "AddrSpace_of 4096 0" "fst (setSize 16 (AddrSpace_of 4096 0))"
      "snd (setSize 16 (AddrSpace_of 4096 0))"]
    setSize_getSize [of 32 "AddrSpace_of 0xfffffffffffffff0 0" "fst (setSize 32 (AddrSpace_of 0xfffffffffffffff0 0))"
      "snd (setSize 32 (AddrSpace_of 0xfffffffffffffff0 0))"]
  by (simp add: AddrSpace_of_def)

end
