(* ===== verification/CacheLine.thy ===== *)
theory CacheLine
  imports VP_Prelude
begin

text \<open>
  A cache line and the coherence vocabulary
  (\<open>components/memory/include/memory/CacheLine.hpp\<close>, \<open>CoherenceExtension.hpp\<close>).

  The address type is the 64-bit one every cache of the simulator is instantiated with. The
  tag is the C++ \<open>unsigned\<close>, 32 bits wide. The data pointer of a line is never allocated
  (the allocation is commented out in the sources), so a line carries its status only.
  \<open>handle\<close> is the opaque pointer passed back on an eviction, \<open>None\<close> for a null one.
\<close>

datatype CoherenceState = Modified | Shared | Invalid

type_synonym idx_t = u32

definition NULL_IDX :: idx_t where
  "NULL_IDX = 0xffffffff"

datatype CoherenceCommand =
  GetS | GetM | FwdGetS | FwdGetM | PutS | PutM | PutI | Read | Write | Evict | Invalidate
  | InvS | InvM | ReadBack

record cache_line =
  Address :: u64
  LineSize :: u32
  Tag :: u32
  State :: CoherenceState
  HigherState :: CoherenceState
  handle :: "nat option"

definition CacheLine_new :: "u32 \<Rightarrow> cache_line" where
  "CacheLine_new lineSize =
     \<lparr>Address = 0, LineSize = lineSize, Tag = 0, State = Invalid, HigherState = Invalid,
      handle = None\<rparr>"

definition setState :: "CoherenceState \<Rightarrow> cache_line \<Rightarrow> cache_line" where
  "setState st l = l\<lparr>State := st\<rparr>"

definition setNewLine :: "u64 \<Rightarrow> u32 \<Rightarrow> cache_line \<Rightarrow> cache_line" where
  "setNewLine address tag l = l\<lparr>Address := address, Tag := tag, State := Invalid\<rparr>"

definition setHandle :: "nat option \<Rightarrow> cache_line \<Rightarrow> cache_line" where
  "setHandle h l = l\<lparr>handle := h\<rparr>"

lemma setState_simps [simp]:
  "State (setState st l) = st" "Address (setState st l) = Address l" "Tag (setState st l) = Tag l"
  "handle (setState st l) = handle l"
  by (simp_all add: setState_def)

lemma setNewLine_simps [simp]:
  "State (setNewLine a t l) = Invalid" "Address (setNewLine a t l) = a" "Tag (setNewLine a t l) = t"
  "handle (setNewLine a t l) = handle l"
  by (simp_all add: setNewLine_def)

lemma setHandle_simps [simp]:
  "State (setHandle h l) = State l" "Address (setHandle h l) = Address l" "Tag (setHandle h l) = Tag l"
  "handle (setHandle h l) = h"
  by (simp_all add: setHandle_def)

lemma CacheLine_new_simps [simp]:
  "State (CacheLine_new n) = Invalid" "Tag (CacheLine_new n) = 0" "Address (CacheLine_new n) = 0"
  by (simp_all add: CacheLine_new_def)

text \<open>The permission order of the protocol: a line in a greater state allows more.\<close>

instantiation CoherenceState :: linorder
begin

definition less_eq_CoherenceState :: "CoherenceState \<Rightarrow> CoherenceState \<Rightarrow> bool" where
  "less_eq_CoherenceState a b \<longleftrightarrow> a = Invalid \<or> b = Modified \<or> (a = Shared \<and> b = Shared)"

definition less_CoherenceState :: "CoherenceState \<Rightarrow> CoherenceState \<Rightarrow> bool" where
  "less_CoherenceState a b \<longleftrightarrow> a \<le> b \<and> \<not> b \<le> (a :: CoherenceState)"

instance
proof
  fix x y z :: CoherenceState
  show "x \<le> x" by (cases x) (simp_all add: less_eq_CoherenceState_def)
  show "x \<le> y \<Longrightarrow> y \<le> z \<Longrightarrow> x \<le> z"
    by (cases x; cases y; cases z) (simp_all add: less_eq_CoherenceState_def)
  show "x \<le> y \<Longrightarrow> y \<le> x \<Longrightarrow> x = y"
    by (cases x; cases y) (simp_all add: less_eq_CoherenceState_def)
  show "x \<le> y \<or> y \<le> x"
    by (cases x; cases y) (simp_all add: less_eq_CoherenceState_def)
qed (simp add: less_CoherenceState_def)

end

end
