(* ===== verification/CacheSet.thy ===== *)
theory CacheSet
  imports CacheLine
begin

text \<open>
  One set of a cache and its replacement policy
  (\<open>components/memory/include/memory/CacheSet.hpp\<close>).

  The model keeps the \<open>Associativity\<close> line wrappers the code uses. Replacement ranks and
  the associativity are natural numbers: a rank is only ever incremented while it is below
  another one, and decremented while it is above another one, so the C++ \<open>unsigned\<close> never
  wraps. The constructor allocates \<open>lineSize\<close> wrappers and then initialises
  \<open>Associativity\<close> of them; a set with more ways than bytes per line is written out of
  bounds, which the model reports as \<open>None\<close>. \<open>accessSet\<close> with the FIFO policy leaves
  the caller's line pointer unset, also \<open>None\<close>.
\<close>

datatype CacheReplacementPolicy = FIFO | LRU | MRU

record line_wrapper =
  line :: cache_line
  repl_data :: nat

record cache_set =
  Associativity :: nat
  Policy :: CacheReplacementPolicy
  Lines :: "line_wrapper list"
  NextVictim :: nat
  CountUntilRepl :: nat

section \<open>Construction\<close>

definition initSet :: "nat \<Rightarrow> cache_set \<Rightarrow> cache_set option" where
  "initSet lineSize s =
     (if Associativity s \<le> lineSize
      then Some (s\<lparr>Lines := map (\<lambda>i. \<lparr>line = CacheLine_new (of_nat lineSize),
                        repl_data = (case Policy s of LRU \<Rightarrow> Associativity s - i - 1
                                     | MRU \<Rightarrow> Associativity s - i - 1
                                     | FIFO \<Rightarrow> 0)\<rparr>) [0..<Associativity s]\<rparr>)
      else None)"

definition CacheSet_new :: "nat \<Rightarrow> nat \<Rightarrow> CacheReplacementPolicy \<Rightarrow> cache_set option" where
  "CacheSet_new lineSize assoc pol =
     initSet lineSize \<lparr>Associativity = assoc, Policy = pol, Lines = [], NextVictim = 0,
       CountUntilRepl = 0\<rparr>"

section \<open>Lookup\<close>

definition rank :: "cache_set \<Rightarrow> nat \<Rightarrow> nat" where
  "rank s i = repl_data (Lines s ! i)"

definition locateLineInSet :: "u32 \<Rightarrow> cache_set \<Rightarrow> nat option" where
  "locateLineInSet tag s =
     find (\<lambda>i. Tag (line (Lines s ! i)) = tag \<and> State (line (Lines s ! i)) \<noteq> Invalid)
       [0..<Associativity s]"

section \<open>Replacement data\<close>

definition set_rank :: "nat \<Rightarrow> nat \<Rightarrow> cache_set \<Rightarrow> cache_set" where
  "set_rank i r s = s\<lparr>Lines := (Lines s)[i := (Lines s ! i)\<lparr>repl_data := r\<rparr>]\<rparr>"

text \<open>One iteration of the LRU loop of \<open>updateReplacementData\<close> at way \<open>i\<close>.\<close>

definition lru_body :: "nat \<Rightarrow> nat \<Rightarrow> cache_set \<Rightarrow> cache_set" where
  "lru_body line_id i s =
     (let s = (if rank s i < rank s line_id then set_rank i (Suc (rank s i)) s else s)
      in if rank s i = Associativity s - 1 then s\<lparr>NextVictim := i\<rparr> else s)"

definition mru_body :: "nat \<Rightarrow> nat \<Rightarrow> cache_set \<Rightarrow> cache_set" where
  "mru_body line_id i s =
     (let s = (if rank s line_id < rank s i then set_rank i (rank s i - 1) s else s)
      in if rank s i = Associativity s - 1 \<and> Associativity s - 1 \<le> CountUntilRepl s
         then s\<lparr>NextVictim := i\<rparr> else s)"

definition updateReplacementData :: "nat \<Rightarrow> cache_set \<Rightarrow> cache_set option" where
  "updateReplacementData line_id s =
     (case Policy s of
        LRU \<Rightarrow> Some (set_rank line_id 0 (fold (lru_body line_id) [0..<Associativity s] s))
      | MRU \<Rightarrow> do {
          _ \<leftarrow> cassert (CountUntilRepl s < Associativity s);
          let s = fold (mru_body line_id) [0..<Associativity s] s;
          let s = (if CountUntilRepl s < Associativity s - 1
                   then s\<lparr>NextVictim := Suc (NextVictim s), CountUntilRepl := Suc (CountUntilRepl s)\<rparr>
                   else s);
          Some (set_rank line_id (Associativity s - 1) s)
        }
      | FIFO \<Rightarrow> Some (s\<lparr>NextVictim := Suc (NextVictim s) mod Associativity s\<rparr>))"

text \<open>The unmerged variant of the victim choice, which the class keeps beside it.\<close>

definition electNextVictim :: "cache_set \<Rightarrow> cache_set option" where
  "electNextVictim s =
     (let pick = fold (\<lambda>i t. if rank t i = Associativity t - 1 then t\<lparr>NextVictim := i\<rparr> else t)
                   [0..<Associativity s]
      in case Policy s of
        LRU \<Rightarrow> Some (pick s)
      | MRU \<Rightarrow> do {
          _ \<leftarrow> cassert (CountUntilRepl s < Associativity s);
          Some (if CountUntilRepl s < Associativity s - 1
                then s\<lparr>NextVictim := Suc (NextVictim s), CountUntilRepl := Suc (CountUntilRepl s)\<rparr>
                else pick s)
        }
      | FIFO \<Rightarrow> Some (s\<lparr>NextVictim := Suc (NextVictim s) mod Associativity s\<rparr>))"

definition incrementCountUntilRepl :: "cache_set \<Rightarrow> cache_set" where
  "incrementCountUntilRepl s =
     (if CountUntilRepl s < Associativity s \<and>
         list_ex (\<lambda>i. Tag (line (Lines s ! i)) = 0) [0..<Associativity s]
      then s\<lparr>CountUntilRepl := Suc (CountUntilRepl s)\<rparr> else s)"

text \<open>
  The access proper: whether the tag hits, the way the caller's pointer is set to, and the
  set with its replacement data updated.
\<close>

definition accessSet :: "u32 \<Rightarrow> cache_set \<Rightarrow> (bool \<times> nat \<times> cache_set) option" where
  "accessSet line_tag s =
     (let lineIndex = locateLineInSet line_tag s;
          lineInCache = (lineIndex \<noteq> None);
          way = (case lineIndex of Some i \<Rightarrow> i | None \<Rightarrow> NextVictim s)
      in case Policy s of
           FIFO \<Rightarrow> None
         | _ \<Rightarrow> do { s' \<leftarrow> updateReplacementData way s; Some (lineInCache, way, s') })"

section \<open>Well-formed sets and the recency order\<close>

text \<open>
  The ranks of a well-formed set are a permutation of the ways; \<open>recency\<close> lists the ways
  from the most to the least recently used one, the abstract state of an LRU policy.
\<close>

definition wf_set :: "cache_set \<Rightarrow> bool" where
  "wf_set s \<longleftrightarrow> 0 < Associativity s \<and> length (Lines s) = Associativity s \<and>
     NextVictim s < Associativity s \<and>
     bij_betw (rank s) {..<Associativity s} {..<Associativity s} \<and>
     (Policy s = MRU \<longrightarrow> NextVictim s = CountUntilRepl s \<or> CountUntilRepl s = Associativity s - 1)"

definition recency :: "cache_set \<Rightarrow> nat list" where
  "recency s = sort_key (rank s) [0..<Associativity s]"

lemma wf_setD:
  assumes "wf_set s"
  shows "0 < Associativity s" "length (Lines s) = Associativity s" "NextVictim s < Associativity s"
    and "inj_on (rank s) {..<Associativity s}" "rank s ` {..<Associativity s} = {..<Associativity s}"
  using assms by (simp_all add: wf_set_def bij_betw_def)

lemma rank_less: "wf_set s \<Longrightarrow> i < Associativity s \<Longrightarrow> rank s i < Associativity s"
  using wf_setD(5) by blast

lemma map_rank_recency: "wf_set s \<Longrightarrow> map (rank s) (recency s) = [0..<Associativity s]"
proof -
  assume wf: "wf_set s"
  let ?n = "Associativity s"
  have "inj_on (rank s) (set (recency s))"
    using wf_setD(4) [OF wf] by (simp add: recency_def lessThan_atLeast0)
  then have "distinct (map (rank s) (recency s))"
    by (simp add: distinct_map recency_def)
  moreover have "set (map (rank s) (recency s)) = set [0..<?n]"
    using wf_setD(5) [OF wf] by (simp add: recency_def lessThan_atLeast0)
  moreover have "sorted (map (rank s) (recency s))"
    by (simp add: recency_def)
  ultimately show ?thesis
    using sorted_distinct_set_unique by (metis distinct_upt sorted_upt)
qed

lemma recency_unique:
  assumes "wf_set s" "set ys \<subseteq> {..<Associativity s}" "map (rank s) ys = [0..<Associativity s]"
  shows "ys = recency s"
proof (rule map_inj_on)
  show "map (rank s) ys = map (rank s) (recency s)" using assms map_rank_recency by simp
  show "inj_on (rank s) (set ys \<union> set (recency s))"
    using wf_setD(4) [OF assms(1)] assms(2)
    by (auto simp: recency_def lessThan_atLeast0 intro: inj_on_subset)
qed

lemma set_recency [simp]: "set (recency s) = {..<Associativity s}"
  by (auto simp: recency_def)

lemma length_recency [simp]: "length (recency s) = Associativity s"
  by (simp add: recency_def)

lemma recency_nth:
  assumes "wf_set s" "i < Associativity s"
  shows "recency s ! rank s i = i"
proof (rule inj_onD [OF wf_setD(4) [OF assms(1)]])
  let ?r = "rank s i"
  have r: "?r < Associativity s" using rank_less assms by simp
  have "rank s (recency s ! ?r) = map (rank s) (recency s) ! ?r" using r by simp
  then show "rank s (recency s ! ?r) = rank s i" using r assms by (simp add: map_rank_recency)
  show "recency s ! ?r \<in> {..<Associativity s}"
    using r set_recency nth_mem [of ?r "recency s"] by simp
qed (use assms in simp)

lemma last_recency:
  assumes "wf_set s" "i < Associativity s"
  shows "last (recency s) = i \<longleftrightarrow> rank s i = Associativity s - 1"
proof -
  have ne: "recency s \<noteq> []" using assms by (metis length_recency list.size(3) not_less_zero)
  have "rank s (last (recency s)) = last [0..<Associativity s]"
    using ne assms by (simp add: last_map [symmetric] map_rank_recency)
  moreover have "last (recency s) < Associativity s"
    using ne last_in_set [of "recency s"] by simp
  ultimately show ?thesis
    using assms wf_setD(4) [OF assms(1)] by (auto simp: inj_on_def)
qed

section \<open>The replacement loops\<close>

lemma set_rank_simps [simp]:
  "Associativity (set_rank i r s) = Associativity s" "Policy (set_rank i r s) = Policy s"
  "NextVictim (set_rank i r s) = NextVictim s" "CountUntilRepl (set_rank i r s) = CountUntilRepl s"
  "length (Lines (set_rank i r s)) = length (Lines s)"
  "map line (Lines (set_rank i r s)) = map line (Lines s)"
  by (auto simp: set_rank_def map_update intro: nth_equalityI) (metis list_update_id map_update)

lemma rank_set_rank: "i < length (Lines s) \<Longrightarrow> rank (set_rank i r s) j = (if i = j then r else rank s j)"
  by (simp add: rank_def set_rank_def)

lemma rank_victim [simp]:
  "rank (s\<lparr>NextVictim := v\<rparr>) i = rank s i" "rank (s\<lparr>CountUntilRepl := k\<rparr>) i = rank s i"
  by (simp_all add: rank_def)

definition same_frame :: "cache_set \<Rightarrow> cache_set \<Rightarrow> bool" where
  "same_frame s t \<longleftrightarrow> Associativity t = Associativity s \<and> Policy t = Policy s \<and>
     map line (Lines t) = map line (Lines s)"

lemma same_frame_lines:
  assumes "same_frame s t"
  shows "length (Lines t) = length (Lines s)"
    and "i < length (Lines s) \<Longrightarrow> line (Lines t ! i) = line (Lines s ! i)"
  using assms map_eq_imp_length_eq nth_map unfolding same_frame_def by metis+

lemma same_frame_trans: "same_frame s t \<Longrightarrow> same_frame t u \<Longrightarrow> same_frame s u"
  by (simp add: same_frame_def)

lemma same_frame_set_rank [simp]: "same_frame s (set_rank i r s)"
  by (simp add: same_frame_def)

definition bump :: "nat \<Rightarrow> nat \<Rightarrow> nat" where
  "bump k r = (if r < k then Suc r else r)"

lemma same_frame_victim [simp]:
  "same_frame s (t\<lparr>NextVictim := v\<rparr>) = same_frame s t"
  "same_frame s (t\<lparr>CountUntilRepl := k\<rparr>) = same_frame s t"
  by (simp_all add: same_frame_def)

lemma same_frame_refl [simp]: "same_frame s s"
  by (simp add: same_frame_def)

lemma lru_body_frame [simp]:
  "same_frame s (lru_body l i s)" "CountUntilRepl (lru_body l i s) = CountUntilRepl s"
  by (auto simp: lru_body_def Let_def)

lemma lru_body_rank:
  "i < length (Lines s) \<Longrightarrow>
     rank (lru_body l i s) j = (if j = i then bump (rank s l) (rank s i) else rank s j)"
  by (auto simp: lru_body_def Let_def rank_set_rank bump_def)

lemma lru_body_victim:
  "i < length (Lines s) \<Longrightarrow> NextVictim (lru_body l i s) =
     (if bump (rank s l) (rank s i) = Associativity s - 1 then i else NextVictim s)"
  by (auto simp: lru_body_def Let_def rank_set_rank bump_def)

lemma lru_loop:
  assumes "m \<le> length (Lines s)" "l < length (Lines s)"
  defines "t \<equiv> fold (lru_body l) [0..<m] s"
  shows "same_frame s t \<and> CountUntilRepl t = CountUntilRepl s \<and>
     (\<forall>i. rank t i = (if i < m then bump (rank s l) (rank s i) else rank s i)) \<and>
     NextVictim t = fold (\<lambda>i v. if bump (rank s l) (rank s i) = Associativity s - 1 then i else v)
                      [0..<m] (NextVictim s)"
  using assms(1) unfolding t_def
proof (induction m)
  case 0
  then show ?case by (simp add: same_frame_def)
next
  case (Suc m)
  let ?u = "fold (lru_body l) [0..<m] s"
  have IH: "same_frame s ?u" "CountUntilRepl ?u = CountUntilRepl s"
    "\<And>i. rank ?u i = (if i < m then bump (rank s l) (rank s i) else rank s i)"
    "NextVictim ?u = fold (\<lambda>i v. if bump (rank s l) (rank s i) = Associativity s - 1 then i else v)
        [0..<m] (NextVictim s)"
    using Suc by auto
  have len: "length (Lines ?u) = length (Lines s)" using same_frame_lines(1) [OF IH(1)] .
  have l: "rank ?u l = rank s l" using IH(3) by (simp add: bump_def)
  have as: "Associativity ?u = Associativity s" using IH(1) by (simp add: same_frame_def)
  have m: "m < length (Lines ?u)" using Suc.prems len by simp
  show ?case
    using IH as l m same_frame_trans [OF IH(1) lru_body_frame(1)]
    by (simp add: lru_body_rank lru_body_victim less_Suc_eq)
qed

lemma lru_update:
  assumes "Policy s = LRU" "length (Lines s) = Associativity s" "l < Associativity s"
  obtains t where "updateReplacementData l s = Some t" "same_frame s t"
    "CountUntilRepl t = CountUntilRepl s"
    "\<And>i. i < Associativity s \<Longrightarrow> rank t i = (if i = l then 0 else bump (rank s l) (rank s i))"
    "NextVictim t = fold (\<lambda>i v. if bump (rank s l) (rank s i) = Associativity s - 1 then i else v)
       [0..<Associativity s] (NextVictim s)"
proof
  let ?u = "fold (lru_body l) [0..<Associativity s] s"
  have loop: "same_frame s ?u" "CountUntilRepl ?u = CountUntilRepl s"
    "\<And>i. rank ?u i = (if i < Associativity s then bump (rank s l) (rank s i) else rank s i)"
    "NextVictim ?u = fold (\<lambda>i v. if bump (rank s l) (rank s i) = Associativity s - 1 then i else v)
        [0..<Associativity s] (NextVictim s)"
    using lru_loop [of "Associativity s" s l] assms by auto
  show "updateReplacementData l s = Some (set_rank l 0 ?u)"
    using assms by (simp add: updateReplacementData_def)
  show "same_frame s (set_rank l 0 ?u)"
    using loop(1) same_frame_set_rank same_frame_trans by blast
  show "CountUntilRepl (set_rank l 0 ?u) = CountUntilRepl s" using loop(2) by simp
  show "NextVictim (set_rank l 0 ?u) = fold (\<lambda>i v. if bump (rank s l) (rank s i) = Associativity s - 1
      then i else v) [0..<Associativity s] (NextVictim s)"
    using loop(4) by simp
  show "rank (set_rank l 0 ?u) i = (if i = l then 0 else bump (rank s l) (rank s i))"
    if "i < Associativity s" for i
    using loop that same_frame_lines(1) [OF loop(1)] assms by (simp add: rank_set_rank)
qed

lemma map_bump_upt: "k < n \<Longrightarrow> 0 # map (bump k) (remove1 k [0..<n]) = [0..<n]"
proof -
  assume k: "k < n"
  have "map (bump k) [0..<k] = map Suc [0..<k]" "map (bump k) [Suc k..<n] = [Suc k..<n]"
    by (auto simp: bump_def intro: map_idI)
  then have "map (bump k) (remove1 k [0..<n]) = [Suc 0..<Suc k] @ [Suc k..<n]"
    using k by (simp add: remove1_upt map_Suc_upt)
  also have "\<dots> = [Suc 0..<n]" using k upt_split [of "Suc 0" "Suc k" n] by simp
  finally show ?thesis using k by (simp add: upt_conv_Cons)
qed

lemma lru_ranks:
  assumes wf: "wf_set s" and l: "l < Associativity s" and fr: "same_frame s t"
    and rk: "\<And>i. i < Associativity s \<Longrightarrow> rank t i = (if i = l then 0 else bump (rank s l) (rank s i))"
  shows "map (rank t) (l # remove1 l (recency s)) = [0..<Associativity s]"
proof -
  have dist: "distinct (recency s)" by (simp add: recency_def)
  have mem: "x < Associativity s \<and> x \<noteq> l" if "x \<in> set (remove1 l (recency s))" for x
    using that dist by (simp add: set_remove1_eq)
  have "map (rank s) (remove1 l (recency s)) = remove1 (rank s l) (map (rank s) (recency s))"
    using wf_setD(4) [OF wf] l by (intro map_remove1_inj) (simp add: insert_absorb)
  then have ranks: "map (rank s) (remove1 l (recency s)) = remove1 (rank s l) [0..<Associativity s]"
    using wf by (simp add: map_rank_recency)
  have "map (rank t) (remove1 l (recency s)) = map (bump (rank s l)) (map (rank s) (remove1 l (recency s)))"
    unfolding map_map
  proof (rule map_cong [OF refl])
    fix x assume x: "x \<in> set (remove1 l (recency s))"
    show "rank t x = (bump (rank s l) \<circ> rank s) x" using mem [OF x] rk [of x] by simp
  qed
  then show ?thesis
    using ranks rk [OF l] map_bump_upt [OF rank_less [OF wf l]] by simp
qed

lemma perm_of_map:
  assumes "set ys \<subseteq> {..<n}" "map f ys = [0..<n]"
  shows "bij_betw f {..<n} {..<n}"
proof -
  have len: "length ys = n" using assms(2) by (metis length_map length_upt minus_nat.diff_0)
  have "distinct ys" using assms(2) by (metis distinct_map distinct_upt)
  then have "card (set ys) = n" using len by (simp add: distinct_card)
  then have ys: "set ys = {..<n}" using assms(1) by (simp add: card_subset_eq)
  have "f ` {..<n} = {..<n}" using arg_cong [OF assms(2), of set] ys by (simp add: lessThan_atLeast0)
  then show ?thesis by (simp add: bij_betw_def eq_card_imp_inj_on)
qed

lemma lru_wf:
  assumes wf: "wf_set s" and pol: "Policy s = LRU" and l: "l < Associativity s"
  obtains t where "updateReplacementData l s = Some t" "wf_set t" "same_frame s t"
    "recency t = l # remove1 l (recency s)"
    "NextVictim t = fold (\<lambda>i v. if bump (rank s l) (rank s i) = Associativity s - 1 then i else v)
       [0..<Associativity s] (NextVictim s)"
proof (rule lru_update [OF pol wf_setD(2) [OF wf] l])
  fix t
  assume t: "updateReplacementData l s = Some t" "same_frame s t"
    "CountUntilRepl t = CountUntilRepl s"
    "\<And>i. i < Associativity s \<Longrightarrow> rank t i = (if i = l then 0 else bump (rank s l) (rank s i))"
    "NextVictim t = fold (\<lambda>i v. if bump (rank s l) (rank s i) = Associativity s - 1 then i else v)
       [0..<Associativity s] (NextVictim s)"
  have n: "Associativity t = Associativity s" "Policy t = LRU" using t(2) pol by (auto simp: same_frame_def)
  have ranks: "map (rank t) (l # remove1 l (recency s)) = [0..<Associativity s]"
    using lru_ranks [OF wf l t(2,4)] .
  have sub: "set (l # remove1 l (recency s)) \<subseteq> {..<Associativity s}"
    using l notin_set_remove1 [of _ "recency s"] by (auto dest: set_remove1_subset [THEN subsetD])
  have "NextVictim t < Associativity s"
    unfolding t(5) by (rule fold_pick_less) (simp_all add: wf_setD(3) [OF wf])
  moreover have "bij_betw (rank t) {..<Associativity s} {..<Associativity s}"
    using perm_of_map [OF sub ranks] .
  ultimately have wft: "wf_set t"
    using wf_setD(1,2) [OF wf] n same_frame_lines(1) [OF t(2)] by (simp add: wf_set_def)
  moreover have "recency t = l # remove1 l (recency s)"
    using recency_unique [OF wft] sub ranks n by metis
  ultimately show thesis using t that by blast
qed

lemma lru_victim_hit:
  assumes wf: "wf_set s" and l: "l < Associativity s" and nl: "l \<noteq> last (recency s)"
  shows "fold (\<lambda>i v. if bump (rank s l) (rank s i) = Associativity s - 1 then i else v)
     [0..<Associativity s] v = last (recency s)"
proof (rule fold_pick_last)
  let ?o = "last (recency s)"
  have o: "?o < Associativity s"
    using last_in_set [of "recency s"] wf_setD(1) [OF wf]
    by (metis length_greater_0_conv length_recency lessThan_iff set_recency)
  have ro: "rank s ?o = Associativity s - 1" using last_recency [OF wf o] by simp
  have rl: "rank s l < Associativity s - 1"
    using rank_less [OF wf l] last_recency [OF wf l] nl by auto
  show "?o < Associativity s" by (rule o)
  show "bump (rank s l) (rank s ?o) = Associativity s - 1"
    using ro rl by (simp add: bump_def)
  show "bump (rank s l) (rank s j) \<noteq> Associativity s - 1" if "?o < j" "j < Associativity s" for j
  proof -
    have "rank s j \<noteq> Associativity s - 1" using last_recency [OF wf that(2)] that(1) by auto
    then show ?thesis using rl by (auto simp: bump_def)
  qed
qed

lemma last_recency_less: "wf_set s \<Longrightarrow> last (recency s) < Associativity s"
  using last_in_set [of "recency s"] wf_setD(1)
  by (metis length_greater_0_conv length_recency lessThan_iff set_recency)

lemma lru_victim_miss:
  assumes wf: "wf_set s" and n: "1 < Associativity s"
  defines "l \<equiv> last (recency s)"
  shows "fold (\<lambda>i v. if bump (rank s l) (rank s i) = Associativity s - 1 then i else v)
     [0..<Associativity s] v = max l (last (remove1 l (recency s)))"
proof -
  let ?n = "Associativity s" and ?p = "recency s ! (Associativity s - 2)"
  have l: "l < ?n" and rl: "rank s l = ?n - 1"
    using last_recency_less [OF wf] last_recency [OF wf last_recency_less [OF wf]]
    by (simp_all add: l_def)
  have p: "?p < ?n" using nth_mem [of "?n - 2" "recency s"] n by simp
  have rp: "rank s ?p = ?n - 2"
  proof -
    have "rank s ?p = map (rank s) (recency s) ! (?n - 2)" using n by simp
    then show ?thesis using n by (simp add: map_rank_recency [OF wf])
  qed
  have char: "bump (rank s l) (rank s i) = ?n - 1 \<longleftrightarrow> i = l \<or> i = ?p" if i: "i < ?n" for i
  proof -
    have "rank s i = ?n - 1 \<longleftrightarrow> i = l" "rank s i = ?n - 2 \<longleftrightarrow> i = ?p"
      using i l p rl rp wf_setD(4) [OF wf] by (auto simp: inj_on_def)
    then show ?thesis using rank_less [OF wf i] rl n by (auto simp: bump_def)
  qed
  have "recency s = butlast (recency s) @ [l]"
    using n by (metis append_butlast_last_id l_def length_recency list.size(3) not_one_less_zero)
  moreover have "distinct (recency s)" by (simp add: recency_def)
  ultimately have "remove1 l (recency s) = butlast (recency s)"
    by (metis distinct_butlast not_distinct_conv_prefix remove1_append remove1_idem distinct_append
        IntI append_Nil2 empty_iff list.set_intros(1) remove1.simps(2))
  moreover have "butlast (recency s) \<noteq> []"
    using n by (metis length_butlast length_recency list.size(3) not_one_less_zero zero_less_diff
        less_numeral_extra(3))
  then have "last (butlast (recency s)) = ?p"
    using n by (simp add: last_conv_nth nth_butlast numeral_2_eq_2)
  moreover have "fold (\<lambda>i v. if bump (rank s l) (rank s i) = ?n - 1 then i else v) [0..<?n] v = max l ?p"
    by (rule fold_pick_last) (use l p char in \<open>auto simp: max_def split: if_splits\<close>)
  ultimately show ?thesis by simp
qed

section \<open>The MRU loop\<close>

definition drop_rank :: "nat \<Rightarrow> nat \<Rightarrow> nat" where
  "drop_rank k r = (if k < r then r - 1 else r)"

lemma mru_body_frame [simp]:
  "same_frame s (mru_body l i s)" "CountUntilRepl (mru_body l i s) = CountUntilRepl s"
  by (auto simp: mru_body_def Let_def)

lemma mru_body_rank:
  "i < length (Lines s) \<Longrightarrow>
     rank (mru_body l i s) j = (if j = i then drop_rank (rank s l) (rank s i) else rank s j)"
  by (auto simp: mru_body_def Let_def rank_set_rank drop_rank_def)

lemma mru_body_victim:
  "i < length (Lines s) \<Longrightarrow> NextVictim (mru_body l i s) =
     (if drop_rank (rank s l) (rank s i) = Associativity s - 1 \<and> Associativity s - 1 \<le> CountUntilRepl s
      then i else NextVictim s)"
  by (auto simp: mru_body_def Let_def rank_set_rank drop_rank_def)

lemma mru_loop:
  assumes "m \<le> length (Lines s)" "l < length (Lines s)"
  defines "t \<equiv> fold (mru_body l) [0..<m] s"
  shows "same_frame s t \<and> CountUntilRepl t = CountUntilRepl s \<and>
     (\<forall>i. rank t i = (if i < m then drop_rank (rank s l) (rank s i) else rank s i)) \<and>
     NextVictim t = fold (\<lambda>i v. if drop_rank (rank s l) (rank s i) = Associativity s - 1 \<and>
       Associativity s - 1 \<le> CountUntilRepl s then i else v) [0..<m] (NextVictim s)"
  using assms(1) unfolding t_def
proof (induction m)
  case 0
  then show ?case by simp
next
  case (Suc m)
  let ?u = "fold (mru_body l) [0..<m] s"
  have IH: "same_frame s ?u" "CountUntilRepl ?u = CountUntilRepl s"
    "\<And>i. rank ?u i = (if i < m then drop_rank (rank s l) (rank s i) else rank s i)"
    "NextVictim ?u = fold (\<lambda>i v. if drop_rank (rank s l) (rank s i) = Associativity s - 1 \<and>
       Associativity s - 1 \<le> CountUntilRepl s then i else v) [0..<m] (NextVictim s)"
    using Suc by auto
  have len: "length (Lines ?u) = length (Lines s)" using same_frame_lines(1) [OF IH(1)] .
  have l: "rank ?u l = rank s l" using IH(3) by (simp add: drop_rank_def)
  have as: "Associativity ?u = Associativity s" using IH(1) by (simp add: same_frame_def)
  have m: "m < length (Lines ?u)" using Suc.prems len by simp
  show ?case
    using IH as l m same_frame_trans [OF IH(1) mru_body_frame(1)]
    by (simp add: mru_body_rank mru_body_victim less_Suc_eq)
qed

lemma map_drop_upt: "k < n \<Longrightarrow> map (drop_rank k) (remove1 k [0..<n]) @ [n - 1] = [0..<n]"
proof -
  assume k: "k < n"
  have "map (drop_rank k) [0..<k] = [0..<k]" by (auto simp: drop_rank_def intro: map_idI)
  moreover have "map (drop_rank k) [Suc k..<n] = [k..<n - 1]"
    using k by (auto simp: drop_rank_def intro!: nth_equalityI)
  ultimately have "map (drop_rank k) (remove1 k [0..<n]) = [0..<n - 1]"
    using k upt_split [of 0 k "n - 1"] by (simp add: remove1_upt)
  then show ?thesis using k by (metis Suc_pred' gr_implies_not_zero not_gr_zero upt_Suc_append zero_le)
qed

lemma mru_ranks:
  assumes wf: "wf_set s" and l: "l < Associativity s"
    and rk: "\<And>i. i < Associativity s \<Longrightarrow>
      rank t i = (if i = l then Associativity s - 1 else drop_rank (rank s l) (rank s i))"
  shows "map (rank t) (remove1 l (recency s) @ [l]) = [0..<Associativity s]"
proof -
  have dist: "distinct (recency s)" by (simp add: recency_def)
  have "map (rank t) (remove1 l (recency s)) = map (drop_rank (rank s l)) (map (rank s) (remove1 l (recency s)))"
    unfolding map_map
  proof (rule map_cong [OF refl])
    fix x assume "x \<in> set (remove1 l (recency s))"
    then have "x < Associativity s" "x \<noteq> l" using dist by auto
    then show "rank t x = (drop_rank (rank s l) \<circ> rank s) x" using rk by simp
  qed
  also have "map (rank s) (remove1 l (recency s)) = remove1 (rank s l) [0..<Associativity s]"
    using wf_setD(4) [OF wf] l map_rank_recency [OF wf]
    by (subst map_remove1_inj) (simp_all add: insert_absorb)
  finally show ?thesis using rk [OF l] map_drop_upt [OF rank_less [OF wf l]] by simp
qed

text \<open>The victim the MRU loop leaves behind.\<close>

definition mru_victim :: "nat \<Rightarrow> cache_set \<Rightarrow> nat" where
  "mru_victim l s = fold (\<lambda>i v. if drop_rank (rank s l) (rank s i) = Associativity s - 1 \<and>
       Associativity s - 1 \<le> CountUntilRepl s then i else v) [0..<Associativity s] (NextVictim s)"

lemma mru_victim_less: "wf_set s \<Longrightarrow> mru_victim l s < Associativity s"
  unfolding mru_victim_def by (rule fold_pick_less) (simp_all add: wf_setD(3))

lemma mru_victim_same:
  assumes "wf_set s" "l < Associativity s"
    "CountUntilRepl s < Associativity s - 1 \<or> l \<noteq> last (recency s)"
  shows "mru_victim l s = NextVictim s"
proof -
  have "\<not> (drop_rank (rank s l) (rank s i) = Associativity s - 1 \<and>
      Associativity s - 1 \<le> CountUntilRepl s)" if "i < Associativity s" for i
    using rank_less [OF assms(1) that] rank_less [OF assms(1,2)] last_recency [OF assms(1,2)] assms(3)
    by (auto simp: drop_rank_def)
  then show ?thesis
    unfolding mru_victim_def
    by (intro fold_invariant [where P = "\<lambda>v. v = NextVictim s" and Q = "\<lambda>i. i < Associativity s"]) auto
qed

lemma mru_step:
  assumes "wf_set s" "Policy s = MRU" "l < Associativity s"
  obtains t where "updateReplacementData l s = Some t" "same_frame s t"
    "NextVictim t = (if CountUntilRepl s < Associativity s - 1 then Suc (mru_victim l s) else mru_victim l s)"
    "CountUntilRepl t = (if CountUntilRepl s < Associativity s - 1 then Suc (CountUntilRepl s) else CountUntilRepl s)"
    "\<And>i. i < Associativity s \<Longrightarrow>
      rank t i = (if i = l then Associativity s - 1 else drop_rank (rank s l) (rank s i))"
proof -
  let ?n = "Associativity s" and ?u = "fold (mru_body l) [0..<Associativity s] s"
  note len = wf_setD(2) [OF assms(1)]
  have loop: "same_frame s ?u" "CountUntilRepl ?u = CountUntilRepl s"
    "\<And>i. rank ?u i = (if i < ?n then drop_rank (rank s l) (rank s i) else rank s i)"
    "NextVictim ?u = mru_victim l s"
    using mru_loop [of ?n s l] len assms(3) unfolding mru_victim_def by auto
  have as: "Associativity ?u = ?n" using loop(1) by (simp add: same_frame_def)
  define w where "w = (if CountUntilRepl ?u < ?n - 1
      then ?u\<lparr>NextVictim := Suc (NextVictim ?u), CountUntilRepl := Suc (CountUntilRepl ?u)\<rparr> else ?u)"
  have cnt: "CountUntilRepl s < ?n" using assms(1,2) by (auto simp: wf_set_def)
  have "updateReplacementData l s = Some (set_rank l (?n - 1) w)"
    using assms(2) cnt as by (simp add: updateReplacementData_def Let_def w_def)
  moreover have "same_frame s (set_rank l (?n - 1) w)"
    by (rule same_frame_trans [OF _ same_frame_set_rank]) (simp add: w_def loop(1))
  moreover have "l < length (Lines w)" using assms(3) len same_frame_lines(1) [OF loop(1)] by (simp add: w_def)
  ultimately show thesis
    using that [of "set_rank l (?n - 1) w"] loop by (auto simp: w_def rank_set_rank)
qed

lemma mru_wf:
  assumes wf: "wf_set s" and pol: "Policy s = MRU" and l: "l < Associativity s"
  obtains t where "updateReplacementData l s = Some t" "wf_set t" "same_frame s t"
    "recency t = remove1 l (recency s) @ [l]"
    "NextVictim t = (if CountUntilRepl s < Associativity s - 1 then Suc (mru_victim l s) else mru_victim l s)"
proof (rule mru_step [OF assms])
  fix t
  assume t: "updateReplacementData l s = Some t" "same_frame s t"
    "NextVictim t = (if CountUntilRepl s < Associativity s - 1 then Suc (mru_victim l s) else mru_victim l s)"
    "CountUntilRepl t = (if CountUntilRepl s < Associativity s - 1 then Suc (CountUntilRepl s) else CountUntilRepl s)"
    "\<And>i. i < Associativity s \<Longrightarrow>
      rank t i = (if i = l then Associativity s - 1 else drop_rank (rank s l) (rank s i))"
  have n: "Associativity t = Associativity s" "Policy t = MRU" using t(2) pol by (auto simp: same_frame_def)
  note ranks = mru_ranks [OF wf l t(5)]
  have sub: "set (remove1 l (recency s) @ [l]) \<subseteq> {..<Associativity s}"
    using l by (auto dest: set_remove1_subset [THEN subsetD])
  have cnt: "CountUntilRepl s = Associativity s - 1 \<or>
      (NextVictim s = CountUntilRepl s \<and> CountUntilRepl s < Associativity s - 1)"
    using wf pol by (auto simp: wf_set_def)
  have "NextVictim t < Associativity s \<and>
      (NextVictim t = CountUntilRepl t \<or> CountUntilRepl t = Associativity s - 1)"
    using cnt t(3,4) mru_victim_less [OF wf, of l] mru_victim_same [OF wf l] by auto
  then have "wf_set t"
    using n wf_setD(1,2) [OF wf] same_frame_lines(1) [OF t(2)] perm_of_map [OF sub ranks]
    by (simp add: wf_set_def)
  moreover from this have "recency t = remove1 l (recency s) @ [l]"
    using recency_unique sub ranks n by metis
  ultimately show thesis using t that by blast
qed

section \<open>The interface of a replacement policy\<close>

text \<open>
  What \<open>accessSet\<close> relies on: a policy never aborts on a well-formed set, keeps it
  well-formed and leaves every line alone. The lookup part of \<open>accessSet\<close> is proved
  once from that contract; the LRU and MRU loops are its two instances.
\<close>

locale repl_policy =
  fixes pol :: CacheReplacementPolicy
  assumes not_fifo: "pol \<noteq> FIFO"
    and update_ok: "wf_set s \<Longrightarrow> Policy s = pol \<Longrightarrow> l < Associativity s \<Longrightarrow>
      \<exists>t. updateReplacementData l s = Some t \<and> wf_set t \<and> same_frame s t"
begin

lemma access_way:
  assumes "wf_set s"
  shows "(case locateLineInSet tag s of Some i \<Rightarrow> i | None \<Rightarrow> NextVictim s) < Associativity s"
  using assms wf_setD(3) by (auto simp: locateLineInSet_def find_Some_iff split: option.splits)

lemma access_ok:
  assumes wf: "wf_set s" and "Policy s = pol"
  shows "\<exists>way t. accessSet tag s = Some (locateLineInSet tag s \<noteq> None, way, t) \<and> wf_set t \<and>
     same_frame s t \<and> way < Associativity s \<and>
     (case locateLineInSet tag s of Some i \<Rightarrow> way = i | None \<Rightarrow> way = NextVictim s)"
proof -
  let ?w = "case locateLineInSet tag s of Some i \<Rightarrow> i | None \<Rightarrow> NextVictim s"
  from access_way [OF wf] obtain t
    where "updateReplacementData ?w s = Some t" "wf_set t" "same_frame s t"
    using update_ok [OF assms] by blast
  then show ?thesis
    using access_way [OF wf, of tag] assms(2) not_fifo
    by (auto simp: accessSet_def Let_def split: CacheReplacementPolicy.splits option.splits)
qed

end

interpretation lru: repl_policy LRU
  by unfold_locales (simp, metis lru_wf)

interpretation mru: repl_policy MRU
  by unfold_locales (simp, metis mru_wf)

lemma accessSet_ok:
  assumes "wf_set s" "Policy s \<noteq> FIFO"
  obtains way t where "accessSet tag s = Some (locateLineInSet tag s \<noteq> None, way, t)" "wf_set t"
    "same_frame s t" "way < Associativity s"
    "\<And>i. locateLineInSet tag s = Some i \<Longrightarrow> way = i"
    "locateLineInSet tag s = None \<Longrightarrow> way = NextVictim s"
  using assms lru.access_ok [of s tag] mru.access_ok [of s tag]
  by (cases "Policy s"; cases "locateLineInSet tag s") auto

lemma locate_SomeD:
  "locateLineInSet tag s = Some i \<Longrightarrow>
     i < Associativity s \<and> Tag (line (Lines s ! i)) = tag \<and> State (line (Lines s ! i)) \<noteq> Invalid"
  by (auto simp: locateLineInSet_def find_Some_iff)

lemma locate_NoneD:
  "locateLineInSet tag s = None \<Longrightarrow> i < Associativity s \<Longrightarrow> Tag (line (Lines s ! i)) = tag \<Longrightarrow>
     State (line (Lines s ! i)) = Invalid"
  by (auto simp: locateLineInSet_def find_None_iff)

lemma CacheSet_new_wf:
  assumes "CacheSet_new lineSize assoc pol = Some s" "0 < assoc" "pol \<noteq> FIFO"
  shows "wf_set s" "Associativity s = assoc" "Policy s = pol"
    "i < assoc \<Longrightarrow> line (Lines s ! i) = CacheLine_new (of_nat lineSize)"
proof -
  have s: "s = \<lparr>Associativity = assoc, Policy = pol,
      Lines = map (\<lambda>i. \<lparr>line = CacheLine_new (of_nat lineSize), repl_data = assoc - i - 1\<rparr>) [0..<assoc],
      NextVictim = 0, CountUntilRepl = 0\<rparr>"
    using assms
    by (auto simp: CacheSet_new_def initSet_def split: if_splits CacheReplacementPolicy.splits)
  have rk: "rank s i = assoc - i - 1" if "i < assoc" for i
    using that by (simp add: s rank_def)
  have "bij_betw (rank s) {..<assoc} {..<assoc}"
    by (rule bij_betw_byWitness [where f' = "\<lambda>i. assoc - i - 1"]) (auto simp: rk)
  then show "wf_set s" using assms(2) by (simp add: wf_set_def s)
  show "Associativity s = assoc" "Policy s = pol"
    "i < assoc \<Longrightarrow> line (Lines s ! i) = CacheLine_new (of_nat lineSize)"
    by (simp_all add: s)
qed

section \<open>Properties of a cache set\<close>



text \<open>
  The way the LRU policy names as the next victim after an access. If the accessed way was
  not the least recently used one, the victim is the least recently used way, as intended. If
  it was (every replacement does that), the victim is the greater of the accessed way and the
  new least recently used way, so the way that has just been filled is named again whenever
  its index is the greater one.
\<close>
theorem lru_next_victim:
  assumes "wf_set s" "Policy s = LRU" "l < Associativity s" "1 < Associativity s"
    "updateReplacementData l s = Some t"
  shows "NextVictim t = (if l = last (recency s) then max l (last (recency t)) else last (recency t))"
proof (rule lru_wf [OF assms(1-3)])
  fix t'
  assume t': "updateReplacementData l s = Some t'" "recency t' = l # remove1 l (recency s)"
    "NextVictim t' = fold (\<lambda>i v. if bump (rank s l) (rank s i) = Associativity s - 1 then i else v)
       [0..<Associativity s] (NextVictim s)"
  then have eq: "t' = t" using assms(5) by simp
  have ne: "remove1 l (recency s) \<noteq> []"
    using assms(3,4) by (metis One_nat_def length_recency length_remove1 less_numeral_extra(3)
        lessThan_iff list.size(3) set_recency zero_less_diff)
  have "last (remove1 l (recency s)) = last (recency s)" if nl: "l \<noteq> last (recency s)"
  proof -
    have "recency s = butlast (recency s) @ [last (recency s)]"
      using ne by (metis append_butlast_last_id remove1.simps(1))
    then have "remove1 l (recency s) = remove1 l (butlast (recency s)) @ [last (recency s)]"
      using nl by (metis append_Nil2 remove1.simps remove1_append remove1_idem)
    then show ?thesis by simp
  qed
  then show ?thesis
    using t'(2,3) ne eq lru_victim_hit [OF assms(1,3)] lru_victim_miss [OF assms(1,4)] by auto
qed

theorem lru_next_victim_witness:
  "\<exists>t u. updateReplacementData 0 (the (CacheSet_new 64 2 LRU)) = Some t \<and>
     updateReplacementData 1 t = Some u \<and> recency u = [1, 0] \<and> NextVictim u = 1"
proof -
  let ?s = "the (CacheSet_new 64 2 LRU)"
  have s: "CacheSet_new 64 2 LRU = Some ?s" by (simp add: CacheSet_new_def initSet_def)
  note wf = CacheSet_new_wf [OF s]
  have r: "recency ?s = [1, 0]" by code_simp
  obtain t where t: "updateReplacementData 0 ?s = Some t" "wf_set t" "same_frame ?s t" "recency t = [0, 1]"
    by (rule lru_wf [of ?s 0]) (use wf r in auto)
  have at: "Associativity t = 2" "Policy t = LRU" using t(3) wf by (auto simp: same_frame_def)
  obtain u where u: "updateReplacementData 1 t = Some u" "recency u = [1, 0]"
    by (rule lru_wf [of t 1]) (use t at in auto)
  have "NextVictim u = 1" using lru_next_victim [of t 1 u] t at u by simp
  then show ?thesis using t u by blast
qed

text \<open>
  The MRU policy keeps the set well-formed and moves the accessed way to the last position
  of the rank order, but once the set is full an access to any way other than the one ranked
  last leaves the next victim where it was, although the most recently used way has changed.
\<close>
theorem mru_victim_stuck:
  assumes "wf_set s" "Policy s = MRU" "l < Associativity s"
    "CountUntilRepl s = Associativity s - 1" "l \<noteq> last (recency s)"
  shows "\<exists>t. updateReplacementData l s = Some t \<and> wf_set t \<and> last (recency t) = l \<and>
     NextVictim t = NextVictim s"
  by (rule mru_wf [OF assms(1-3)]) (use assms mru_victim_same [OF assms(1,3)] in auto)

theorem mru_victim_stuck_witness:
  "\<exists>t u. updateReplacementData 0 (the (CacheSet_new 64 2 MRU)) = Some t \<and> NextVictim t = 1 \<and>
     updateReplacementData 1 t = Some u \<and> last (recency u) = 1 \<and> NextVictim u = 1"
proof -
  let ?s = "the (CacheSet_new 64 2 MRU)"
  have s: "CacheSet_new 64 2 MRU = Some ?s" by (simp add: CacheSet_new_def initSet_def)
  note wf = CacheSet_new_wf [OF s]
  have r: "recency ?s = [1, 0]" by code_simp
  obtain t where t: "updateReplacementData 0 ?s = Some t" "wf_set t" "same_frame ?s t" "recency t = [1, 0]"
    by (rule mru_wf [of ?s 0]) (use wf r in auto)
  have c: "map_option CountUntilRepl (updateReplacementData 0 ?s) = Some 1"
    "map_option NextVictim (updateReplacementData 0 ?s) = Some 1" by code_simp+
  have at: "Associativity t = 2" "Policy t = MRU" using t(3) wf by (auto simp: same_frame_def)
  show ?thesis using mru_victim_stuck [of t 1] t at c by auto
qed

text \<open>
  The constructor is defined exactly when the set has no more ways than the line has bytes:
  it allocates as many line wrappers as the line has bytes, not as many as the set has ways.
\<close>
theorem CacheSet_new_defined_iff:
  "(\<exists>s. CacheSet_new lineSize assoc pol = Some s) \<longleftrightarrow> assoc \<le> lineSize"
  by (simp add: CacheSet_new_def initSet_def)

text \<open>
  C9: An access to a well-formed LRU or MRU set never aborts. It reports a hit exactly when some
  way holds the tag in a valid state; on a hit it hands out such a way, on a miss the next
  victim; it keeps the set well-formed and changes no line.
\<close>
theorem accessSet_correct:
  assumes "wf_set s" "Policy s \<noteq> FIFO"
  shows "\<exists>hit way t. accessSet tag s = Some (hit, way, t) \<and> wf_set t \<and> way < Associativity s \<and>
     map line (Lines t) = map line (Lines s) \<and>
     (hit \<longleftrightarrow> (\<exists>i < Associativity s. Tag (line (Lines s ! i)) = tag \<and> State (line (Lines s ! i)) \<noteq> Invalid)) \<and>
     (hit \<longrightarrow> Tag (line (Lines s ! way)) = tag \<and> State (line (Lines s ! way)) \<noteq> Invalid) \<and>
     (\<not> hit \<longrightarrow> way = NextVictim s)"
proof (rule accessSet_ok [OF assms, of tag])
  fix way t
  assume a: "accessSet tag s = Some (locateLineInSet tag s \<noteq> None, way, t)" "wf_set t"
    "same_frame s t" "way < Associativity s"
    "\<And>i. locateLineInSet tag s = Some i \<Longrightarrow> way = i" "locateLineInSet tag s = None \<Longrightarrow> way = NextVictim s"
  have "(locateLineInSet tag s \<noteq> None) \<longleftrightarrow>
      (\<exists>i < Associativity s. Tag (line (Lines s ! i)) = tag \<and> State (line (Lines s ! i)) \<noteq> Invalid)"
    using locate_NoneD locate_SomeD by (metis not_None_eq)
  then show ?thesis using a locate_SomeD [of tag s] by (auto simp: same_frame_def)
qed

theorem accessSet_correct_witness:
  "\<exists>hit way t. accessSet 7 (the (CacheSet_new 64 2 LRU)) = Some (hit, way, t) \<and> \<not> hit \<and> way = 0"
proof -
  let ?s = "the (CacheSet_new 64 2 LRU)"
  have s: "CacheSet_new 64 2 LRU = Some ?s" by (simp add: CacheSet_new_def initSet_def)
  note wf = CacheSet_new_wf [OF s]
  have "NextVictim ?s = 0" by code_simp
  moreover have "State (line (Lines ?s ! i)) = Invalid" if "i < 2" for i using wf(4) [of i] that by simp
  ultimately show ?thesis using accessSet_correct [of ?s 7] wf by fastforce
qed

end
