(* ===== verification/CacheBase.thy ===== *)
theory CacheBase
  imports CacheSet
begin

text \<open>
  The state of a cache and the parts its four access routines share
  (\<open>components/memory/include/memory/CacheBase.hpp\<close>): the geometry computed by the
  constructor, the lookup of the line an address maps to, the directory and the sharer map,
  the counters, and the messages a cache sends to its neighbours.

  The virtual methods \<open>ForwardReadData\<close>, \<open>SendGetS\<close>, \<open>SendPutI\<close> and so on are
  overridden by the class \<open>Cache\<close> with a synchronous transaction, in the course of which
  other caches, and even this one, may be accessed. They are one parameter \<open>send\<close> of every
  access routine: it receives the message, the state of this cache and the state \<open>'e\<close> of
  everything else, and returns the response status and both states; \<open>None\<close> means that an
  assertion failed on the way. Simulated time is accumulated by the transactions only, so it is
  part of \<open>'e\<close>.

  Data is not modelled: no line has a buffer, and \<open>cacheMemcpy\<close> is a no-op whenever
  \<open>DataSupport\<close> is false, which is the only setting the missing buffers allow.

  Counters are natural numbers. The number of sets, the line size and so on are the 64-bit
  values of the code where they meet addresses.
\<close>

datatype CacheWritePolicy = WThrough | WBack

datatype CacheAllocPolicy = WAllocate | WAround

datatype CacheInclusionPolicy = NINE | Inclusive | Exclusive

datatype cache_counter =
  MissCount | HitCount | NReads | NWrites | NInvals | NTotalInvals | NBackInvals | NEvicts
  | WriteBacks | EvictBacks | NPutS | NPutM | NPutI | NGetS | NGetM | NFwdGetS | NFwdGetM
  | ReadBacks

record DirectoryEntry =
  dState :: CoherenceState
  Owner :: idx_t
  dSharers :: "idx_t set"

record cache =
  OffsetBits :: nat
  InterleaveBits :: nat
  IndexBits :: nat
  TagBits :: nat
  OffsetMask :: u64
  IndexMask :: u64
  TagMask :: u64
  IndexShift :: nat
  TagShift :: nat
  CacheLineSize :: u64
  IsCoherent :: bool
  NotifyEvictions :: bool
  CacheLines :: "cache_set list"
  Level :: nat
  IsHome :: bool
  WritePolicy :: CacheWritePolicy
  AllocPolicy :: CacheAllocPolicy
  InclusionOfHigher :: CacheInclusionPolicy
  InclusionOfLower :: CacheInclusionPolicy
  Id :: idx_t
  Directory :: "u64 \<rightharpoonup> DirectoryEntry"
  Sharers :: "u64 \<Rightarrow> idx_t set"
  Count :: "cache_counter \<Rightarrow> nat"

datatype cache_msg =
  ForwardReadData u64 u64 idx_t
  | BackwardRead u64 u64 idx_t "idx_t set"
  | ForwardWriteData u64 u64 idx_t
  | ForwardEvict u64 u64 idx_t
  | BackInvalidate u64 "idx_t set"
  | SendGetS u64 u64 idx_t
  | SendGetM u64 u64 idx_t
  | SendPutS u64 u64 idx_t
  | SendPutM u64 u64 idx_t
  | SendFwdGetS u64 u64 idx_t "idx_t set"
  | SendFwdGetM u64 u64 idx_t "idx_t set"
  | SendPutI u64 u64 idx_t "idx_t set"
  | NotifyEviction "nat option"

type_synonym 'e cache_result = "(tlm_response_status \<times> cache \<times> 'e) option"
type_synonym 'e send_hook = "cache_msg \<Rightarrow> cache \<Rightarrow> 'e \<Rightarrow> 'e cache_result"

section \<open>Geometry\<close>

fun log2 :: "nat \<Rightarrow> nat" where
  "log2 n = (if n < 2 then 0 else Suc (log2 (n div 2)))"

declare log2.simps [simp del]

definition low_mask :: "nat \<Rightarrow> u64" where
  "low_mask n = push_bit n 1 - 1"

text \<open>
  The constructor. \<open>None\<close> stands for its failed assertion, a division by zero or a set
  constructor that writes out of bounds.
\<close>

definition CacheBase_new ::
  "nat \<Rightarrow> nat \<Rightarrow> nat \<Rightarrow> nat \<Rightarrow> CacheReplacementPolicy \<Rightarrow> CacheWritePolicy \<Rightarrow> CacheAllocPolicy \<Rightarrow>
   nat \<Rightarrow> CacheInclusionPolicy \<Rightarrow> CacheInclusionPolicy \<Rightarrow> bool \<Rightarrow> bool \<Rightarrow> idx_t \<Rightarrow> cache option" where
  "CacheBase_new cacheSize cacheLineSize associativity nbInterleavedCaches replPolicy writePolicy
     allocPolicy level inclusionOfHigher inclusionOfLower isHome isCoherent ident =
     do {
       _ \<leftarrow> cassert (cacheLineSize \<noteq> 0 \<and> associativity \<noteq> 0);
       let nbLines = cacheSize div cacheLineSize;
       let nbSets = nbLines div associativity;
       _ \<leftarrow> cassert (associativity \<le> nbLines);
       let offsetBits = log2 cacheLineSize;
       let interleaveBits = (if 0 < nbInterleavedCaches then log2 nbInterleavedCaches else 0);
       let indexBits = log2 nbSets;
       let tagBits = 64 - indexBits - interleaveBits - offsetBits;
       s \<leftarrow> CacheSet_new cacheLineSize associativity replPolicy;
       Some \<lparr>OffsetBits = offsetBits, InterleaveBits = interleaveBits, IndexBits = indexBits,
         TagBits = tagBits, OffsetMask = low_mask offsetBits, IndexMask = low_mask indexBits,
         TagMask = low_mask tagBits, IndexShift = offsetBits + interleaveBits,
         TagShift = indexBits + offsetBits + interleaveBits, CacheLineSize = of_nat cacheLineSize,
         IsCoherent = isCoherent, NotifyEvictions = False, CacheLines = replicate nbSets s,
         Level = level, IsHome = isHome, WritePolicy = writePolicy, AllocPolicy = allocPolicy,
         InclusionOfHigher = inclusionOfHigher, InclusionOfLower = inclusionOfLower, Id = ident,
         Directory = Map.empty, Sharers = (\<lambda>_. {}), Count = (\<lambda>_. 0)\<rparr>
     }"

definition SetEvictionNotifier :: "cache \<Rightarrow> cache" where
  "SetEvictionNotifier c = c\<lparr>NotifyEvictions := True\<rparr>"

definition addr_offset :: "cache \<Rightarrow> u64 \<Rightarrow> u64" where
  "addr_offset c addr = addr AND OffsetMask c"

definition addr_index :: "cache \<Rightarrow> u64 \<Rightarrow> nat" where
  "addr_index c addr = unat (drop_bit (IndexShift c) addr AND IndexMask c)"

text \<open>The tag is computed in 64 bits and passed as a 32-bit \<open>unsigned\<close>.\<close>

definition addr_tag :: "cache \<Rightarrow> u64 \<Rightarrow> u32" where
  "addr_tag c addr = ucast (drop_bit (TagShift c) addr AND TagMask c)"

section \<open>Lines, counters, directory\<close>

definition the_line :: "cache \<Rightarrow> nat \<Rightarrow> nat \<Rightarrow> cache_line" where
  "the_line c index way = line (Lines (CacheLines c ! index) ! way)"

definition upd_line :: "(cache_line \<Rightarrow> cache_line) \<Rightarrow> nat \<Rightarrow> nat \<Rightarrow> cache \<Rightarrow> cache" where
  "upd_line f index way c =
     (let s = CacheLines c ! index;
          w = Lines s ! way
      in c\<lparr>CacheLines := (CacheLines c)[index := s\<lparr>Lines := (Lines s)[way := w\<lparr>line := f (line w)\<rparr>]\<rparr>]\<rparr>)"

definition inc :: "cache_counter \<Rightarrow> cache \<Rightarrow> cache" where
  "inc k c = c\<lparr>Count := (Count c)(k := Suc (Count c k))\<rparr>"

text \<open>
  \<open>Directory[a]\<close> of a \<open>std::map\<close>: a missing entry is created value-initialised, which
  for the state means the enumerator 0, \<open>Modified\<close>, and for the owner cache 0.
\<close>

definition dir_default :: DirectoryEntry where
  "dir_default = \<lparr>dState = Modified, Owner = 0, dSharers = {}\<rparr>"

definition dir_at :: "cache \<Rightarrow> u64 \<Rightarrow> DirectoryEntry" where
  "dir_at c a = (case Directory c a of Some d \<Rightarrow> d | None \<Rightarrow> dir_default)"

definition set_dir :: "u64 \<Rightarrow> CoherenceState \<Rightarrow> idx_t \<Rightarrow> idx_t set \<Rightarrow> cache \<Rightarrow> cache" where
  "set_dir a st ow sh c =
     c\<lparr>Directory := (Directory c)(a \<mapsto> \<lparr>dState = st, Owner = ow, dSharers = sh\<rparr>)\<rparr>"

definition set_sharers :: "u64 \<Rightarrow> idx_t set \<Rightarrow> cache \<Rightarrow> cache" where
  "set_sharers a sh c = c\<lparr>Sharers := (Sharers c)(a := sh)\<rparr>"

text \<open>
  The prologue every access routine starts with: decompose the address and access the set.
\<close>

definition lookup_line :: "u64 \<Rightarrow> cache \<Rightarrow> (bool \<times> nat \<times> nat \<times> cache) option" where
  "lookup_line addr c =
     do {
       let index = addr_index c addr;
       (isHit, way, s) \<leftarrow> accessSet (addr_tag c addr) (CacheLines c ! index);
       Some (isHit, index, way, c\<lparr>CacheLines := (CacheLines c)[index := s]\<rparr>)
     }"

text \<open>The eviction callback: fired for the line about to be replaced when it is shared.\<close>

definition notify_shared_victim ::
  "'e send_hook \<Rightarrow> bool \<Rightarrow> nat \<Rightarrow> nat \<Rightarrow> cache \<Rightarrow> 'e \<Rightarrow> (cache \<times> 'e) option" where
  "notify_shared_victim send isHit ix wy c e =
     (if \<not> isHit \<and> State (the_line c ix wy) = Shared \<and> NotifyEvictions c
      then do { (_, c, e) \<leftarrow> send (NotifyEviction (handle (the_line c ix wy))) c e; Some (c, e) }
      else Some (c, e))"

text \<open>Allocation of the requested line in the place of the victim.\<close>

definition prepare_line ::
  "bool \<Rightarrow> u64 \<Rightarrow> u32 \<Rightarrow> nat option \<Rightarrow> nat \<Rightarrow> nat \<Rightarrow> cache \<Rightarrow> cache" where
  "prepare_line isHit base tag hdl ix wy c =
     (if \<not> isHit \<and> AllocPolicy c = WAllocate
      then upd_line (setHandle hdl \<circ> setNewLine base tag) ix wy c else c)"

text \<open>The element a bracket access leaves in the map.\<close>

definition dir_touch :: "u64 \<Rightarrow> cache \<Rightarrow> cache" where
  "dir_touch a c = c\<lparr>Directory := (Directory c)(a \<mapsto> dir_at c a)\<rparr>"

text \<open>The virtual methods of \<open>CacheBase\<close> itself: every one answers OK and does nothing.\<close>

definition base_send :: "(cache_msg list) send_hook" where
  "base_send m c e = Some (TLM_OK_RESPONSE, c, e @ [m])"

section \<open>The address decomposition\<close>

lemma low_mask_eq: "low_mask n = mask n"
  by (simp add: low_mask_def mask_eq_exp_minus_1)

lemma bit_low_mask: "bit (low_mask n) k \<longleftrightarrow> k < n \<and> k < 64"
  by (auto simp: low_mask_eq bit_mask_iff)

definition geometry :: "cache \<Rightarrow> bool" where
  "geometry c \<longleftrightarrow> OffsetMask c = low_mask (OffsetBits c) \<and> IndexMask c = low_mask (IndexBits c) \<and>
     TagMask c = low_mask (TagBits c) \<and> IndexShift c = OffsetBits c + InterleaveBits c \<and>
     TagShift c = IndexBits c + OffsetBits c + InterleaveBits c \<and>
     TagShift c + TagBits c = 64 \<and> 0 < TagBits c \<and>
     CacheLineSize c = push_bit (OffsetBits c) 1 \<and> 2 ^ IndexBits c \<le> length (CacheLines c)"

definition line_base :: "cache \<Rightarrow> u64 \<Rightarrow> u64" where
  "line_base c a = a - addr_offset c a"

text \<open>
  The addresses a cache can tell apart: those whose tag survives the truncation to 32 bits
  and, in one of several interleaved caches, those of its own slice \<open>k\<close>.
\<close>

definition cacheable :: "u64 \<Rightarrow> cache \<Rightarrow> u64 \<Rightarrow> bool" where
  "cacheable k c a \<longleftrightarrow> unat (drop_bit (TagShift c) a) < 2 ^ 32 \<and>
     take_bit (InterleaveBits c) (drop_bit (OffsetBits c) a) = k"

lemma line_base_and: "geometry c \<Longrightarrow> line_base c a = a AND NOT (low_mask (OffsetBits c))"
proof -
  assume "geometry c"
  have "(a AND m) + (a AND NOT m) = a" for m
  proof -
    have "(a AND m) + (a AND NOT m) = (a AND m) OR (a AND NOT m)"
      by (rule disjunctive_add) (auto simp: bit_simps)
    also have "\<dots> = a" by (rule bit_eqI) (auto simp: bit_simps)
    finally show ?thesis .
  qed
  then show ?thesis
    using \<open>geometry c\<close> by (simp add: line_base_def addr_offset_def geometry_def algebra_simps eq_diff_eq)
qed

lemma bit_line_base:
  "geometry c \<Longrightarrow> bit (line_base c a) n \<longleftrightarrow> bit a n \<and> OffsetBits c \<le> n"
  by (auto simp: line_base_and bit_simps bit_low_mask dest: bit_imp_le_length)

lemma offset_zero_bits:
  assumes "geometry c" "addr_offset c a = 0" "n < OffsetBits c"
  shows "\<not> bit a n"
proof -
  have "bit (addr_offset c a) n \<longleftrightarrow> bit a n \<and> n < 64"
    using assms(1,3) by (auto simp: addr_offset_def geometry_def bit_simps bit_low_mask)
  then show ?thesis using assms(2) by (auto dest: bit_imp_le_length)
qed

lemma offset_line_base [simp]: "geometry c \<Longrightarrow> addr_offset c (line_base c a) = 0"
  by (rule bit_eqI)
    (auto simp: addr_offset_def bit_simps bit_line_base bit_low_mask geometry_def)

lemma line_base_aligned: "addr_offset c a = 0 \<Longrightarrow> line_base c a = a"
  by (simp add: line_base_def)

lemma index_line_base [simp]: "geometry c \<Longrightarrow> addr_index c (line_base c a) = addr_index c a"
proof -
  assume g: "geometry c"
  have "drop_bit (IndexShift c) (line_base c a) = drop_bit (IndexShift c) a"
    using g by (intro bit_eqI) (auto simp: bit_simps bit_line_base geometry_def)
  then show ?thesis by (simp add: addr_index_def)
qed

lemma tag_line_base [simp]: "geometry c \<Longrightarrow> addr_tag c (line_base c a) = addr_tag c a"
proof -
  assume g: "geometry c"
  have "drop_bit (TagShift c) (line_base c a) = drop_bit (TagShift c) a"
    using g by (intro bit_eqI) (auto simp: bit_simps bit_line_base geometry_def)
  then show ?thesis by (simp add: addr_tag_def)
qed

lemma cacheable_line_base: "geometry c \<Longrightarrow> cacheable k c a \<Longrightarrow> cacheable k c (line_base c a)"
proof -
  assume g: "geometry c" and k: "cacheable k c a"
  have "drop_bit (TagShift c) (line_base c a) = drop_bit (TagShift c) a"
    "drop_bit (OffsetBits c) (line_base c a) = drop_bit (OffsetBits c) a"
    using g by (auto intro!: bit_eqI simp: bit_simps bit_line_base geometry_def)
  then show ?thesis using k by (simp add: cacheable_def)
qed

lemma index_bound: "geometry c \<Longrightarrow> addr_index c a < length (CacheLines c)"
proof -
  assume g: "geometry c"
  have "drop_bit (IndexShift c) a AND IndexMask c = take_bit (IndexBits c) (drop_bit (IndexShift c) a)"
    using g by (simp add: geometry_def low_mask_eq take_bit_eq_mask)
  then have "addr_index c a < 2 ^ IndexBits c"
    by (simp add: addr_index_def unsigned_take_bit_eq)
  then show ?thesis using g by (simp add: geometry_def)
qed

lemma tag_unmasked: "geometry c \<Longrightarrow> drop_bit (TagShift c) a AND TagMask c = drop_bit (TagShift c) a"
  by (rule bit_eqI) (auto simp: bit_simps bit_low_mask geometry_def dest: bit_imp_le_length)

lemma tag_injective:
  assumes "geometry c" "cacheable k c a" "cacheable k c b" "addr_tag c a = addr_tag c b"
  shows "drop_bit (TagShift c) a = drop_bit (TagShift c) b"
proof -
  have "unat (addr_tag c x) = unat (drop_bit (TagShift c) x)" if "cacheable k c x" for x
    using that by (simp add: addr_tag_def tag_unmasked [OF assms(1)] unsigned_ucast_eq
        cacheable_def take_bit_nat_eq_self)
  then show ?thesis using assms by (metis unsigned_word_eqI)
qed

text \<open>Two line addresses of the slice with the same set and the same tag are equal.\<close>

lemma same_line:
  assumes g: "geometry c" and k: "cacheable k c a" "cacheable k c b"
    and o: "addr_offset c a = 0" "addr_offset c b = 0"
    and i: "addr_index c a = addr_index c b" and t: "addr_tag c a = addr_tag c b"
  shows "a = b"
proof (rule bit_eqI)
  fix n
  have sh: "IndexShift c = OffsetBits c + InterleaveBits c" "TagShift c = IndexShift c + IndexBits c"
    using g by (simp_all add: geometry_def)
  have drop: "bit x n \<longleftrightarrow> bit (drop_bit m x) (n - m)" if "m \<le> n" for x :: u64 and m
    using that by (simp add: bit_drop_bit_eq)
  consider "n < OffsetBits c" | "OffsetBits c \<le> n" "n < IndexShift c"
    | "IndexShift c \<le> n" "n < TagShift c" | "TagShift c \<le> n" by linarith
  then show "bit a n \<longleftrightarrow> bit b n"
  proof cases
    case 1
    then show ?thesis using offset_zero_bits [OF g] o by blast
  next
    case 2
    have "bit (take_bit (InterleaveBits c) (drop_bit (OffsetBits c) x)) (n - OffsetBits c) \<longleftrightarrow> bit x n" for x
      using 2 sh by (auto simp: bit_simps)
    then show ?thesis using k by (metis cacheable_def)
  next
    case 3
    have "drop_bit (IndexShift c) a AND IndexMask c = drop_bit (IndexShift c) b AND IndexMask c"
      using i by (simp add: addr_index_def word_unat_eq_iff)
    moreover have "bit (drop_bit (IndexShift c) x AND IndexMask c) (n - IndexShift c) \<longleftrightarrow> bit x n" for x
      using 3 sh g by (auto simp: bit_simps bit_low_mask geometry_def)
    ultimately show ?thesis by metis
  next
    case 4
    then show ?thesis using tag_injective [OF g k t] drop by metis
  qed
qed

lemma offset_less: "geometry c \<Longrightarrow> addr_offset c a < CacheLineSize c"
proof -
  assume g: "geometry c"
  then have off: "addr_offset c a = take_bit (OffsetBits c) a"
    by (simp add: addr_offset_def geometry_def low_mask_eq take_bit_eq_mask)
  have "OffsetBits c < 64" using g by (simp add: geometry_def)
  then have "unat (CacheLineSize c) = 2 ^ OffsetBits c"
    using g unat_two_power [where 'a = 64, of "OffsetBits c"] by (simp add: geometry_def)
  then show ?thesis by (simp add: off word_less_nat_alt unsigned_take_bit_eq)
qed

lemma line_base_le: "geometry c \<Longrightarrow> line_base c a \<le> a \<and> a - line_base c a < CacheLineSize c"
proof -
  assume g: "geometry c"
  have "addr_offset c a \<le> a" by (simp add: addr_offset_def word_and_le2)
  then have "line_base c a \<le> a" unfolding line_base_def by (simp add: word_sub_le)
  then show ?thesis using offset_less [OF g, of a] by (simp add: line_base_def)
qed

section \<open>Well-formed caches\<close>

text \<open>
  A valid line sits in the set its address maps to, under the tag of its address; two valid
  lines of a set have different tags. \<open>line_state\<close> is the abstract view of a cache: the
  coherence state in which it holds each line address.
\<close>

definition ways :: "cache \<Rightarrow> nat \<Rightarrow> nat" where
  "ways c ix = Associativity (CacheLines c ! ix)"

definition placed :: "u64 \<Rightarrow> cache \<Rightarrow> nat \<Rightarrow> cache_line \<Rightarrow> bool" where
  "placed k c ix l \<longleftrightarrow> State l = Invalid \<or>
     addr_offset c (Address l) = 0 \<and> addr_index c (Address l) = ix \<and>
     addr_tag c (Address l) = Tag l \<and> cacheable k c (Address l)"

definition wf_cache :: "u64 \<Rightarrow> cache \<Rightarrow> bool" where
  "wf_cache k c \<longleftrightarrow> geometry c \<and> (\<forall>s \<in> set (CacheLines c). wf_set s \<and> Policy s \<noteq> FIFO) \<and>
     (\<forall>ix < length (CacheLines c). \<forall>wy < ways c ix. placed k c ix (the_line c ix wy)) \<and>
     (\<forall>ix < length (CacheLines c). \<forall>wy < ways c ix. \<forall>wy' < ways c ix.
        State (the_line c ix wy) \<noteq> Invalid \<longrightarrow> State (the_line c ix wy') \<noteq> Invalid \<longrightarrow>
        Tag (the_line c ix wy) = Tag (the_line c ix wy') \<longrightarrow> wy = wy')"

definition line_state :: "cache \<Rightarrow> u64 \<Rightarrow> CoherenceState" where
  "line_state c a =
     (case find (\<lambda>wy. Address (the_line c (addr_index c a) wy) = a \<and>
                     State (the_line c (addr_index c a) wy) \<noteq> Invalid) [0..<ways c (addr_index c a)]
      of Some wy \<Rightarrow> State (the_line c (addr_index c a) wy) | None \<Rightarrow> Invalid)"

lemma wf_cacheD:
  assumes "wf_cache k c"
  shows "geometry c" "ix < length (CacheLines c) \<Longrightarrow> wf_set (CacheLines c ! ix)"
    "ix < length (CacheLines c) \<Longrightarrow> Policy (CacheLines c ! ix) \<noteq> FIFO"
    "ix < length (CacheLines c) \<Longrightarrow> wy < ways c ix \<Longrightarrow> placed k c ix (the_line c ix wy)"
    "ix < length (CacheLines c) \<Longrightarrow> wy < ways c ix \<Longrightarrow> wy' < ways c ix \<Longrightarrow>
       State (the_line c ix wy) \<noteq> Invalid \<Longrightarrow> State (the_line c ix wy') \<noteq> Invalid \<Longrightarrow>
       Tag (the_line c ix wy) = Tag (the_line c ix wy') \<Longrightarrow> wy = wy'"
  using assms by (auto simp: wf_cache_def)

lemma valid_lineD:
  assumes "wf_cache k c" "ix < length (CacheLines c)" "wy < ways c ix" "State (the_line c ix wy) \<noteq> Invalid"
  shows "addr_offset c (Address (the_line c ix wy)) = 0" "addr_index c (Address (the_line c ix wy)) = ix"
    "addr_tag c (Address (the_line c ix wy)) = Tag (the_line c ix wy)"
    "cacheable k c (Address (the_line c ix wy))"
  using wf_cacheD(4) [OF assms(1-3)] assms(4) by (auto simp: placed_def)

lemma line_state_cases:
  assumes "wf_cache k c"
  shows "line_state c a = st \<and> st \<noteq> Invalid \<longleftrightarrow>
    (\<exists>ix wy. ix < length (CacheLines c) \<and> wy < ways c ix \<and> Address (the_line c ix wy) = a \<and>
       State (the_line c ix wy) = st \<and> st \<noteq> Invalid)"
proof -
  let ?ix = "addr_index c a"
  let ?P = "\<lambda>wy. Address (the_line c ?ix wy) = a \<and> State (the_line c ?ix wy) \<noteq> Invalid"
  have ix: "?ix < length (CacheLines c)" using index_bound wf_cacheD(1) [OF assms] by simp
  have uniq: "wy = wy'" if "wy < ways c ?ix" "wy' < ways c ?ix" "?P wy" "?P wy'" for wy wy'
    using wf_cacheD(5) [OF assms ix that(1,2)] valid_lineD(3) [OF assms ix] that by metis
  have found: "line_state c a = State (the_line c ?ix wy)" if wy: "wy < ways c ?ix" "?P wy" for wy
  proof (cases "find ?P [0..<ways c ?ix]")
    case None
    then have "\<not> ?P wy" using wy(1) unfolding find_None_iff by simp
    then show ?thesis using wy(2) by blast
  next
    case (Some w)
    then have "w < ways c ?ix" "?P w" by (auto simp: find_Some_iff)
    then have "w = wy" using uniq wy by blast
    then show ?thesis using Some by (simp add: line_state_def)
  qed
  have "\<exists>wy < ways c ?ix. ?P wy" if "line_state c a \<noteq> Invalid"
    using that by (auto simp: line_state_def find_Some_iff split: option.splits)
  then show ?thesis using found valid_lineD(2) [OF assms] ix by metis
qed

section \<open>Effect of the elementary updates\<close>

lemmas view_defs = geometry_def addr_offset_def addr_index_def addr_tag_def line_base_def cacheable_def
  placed_def ways_def the_line_def

lemma ways_upd [simp]: "ways (upd_line f ix wy c) ix' = ways c ix'"
  by (cases "ix < length (CacheLines c)")
    (auto simp: ways_def upd_line_def Let_def nth_list_update list_update_beyond)

lemma upd_line_view [simp]:
  "geometry (upd_line f ix wy c) = geometry c"
  "addr_offset (upd_line f ix wy c) = addr_offset c" "addr_index (upd_line f ix wy c) = addr_index c"
  "addr_tag (upd_line f ix wy c) = addr_tag c" "cacheable k (upd_line f ix wy c) = cacheable k c"
  "line_base (upd_line f ix wy c) = line_base c"
  "placed k (upd_line f ix wy c) = placed k c"
  "length (CacheLines (upd_line f ix wy c)) = length (CacheLines c)"
  by (auto simp: view_defs upd_line_def Let_def fun_eq_iff)

lemma upd_line_fields [simp]:
  "Directory (upd_line f ix wy c) = Directory c" "Sharers (upd_line f ix wy c) = Sharers c"
  "Count (upd_line f ix wy c) = Count c" "CacheLineSize (upd_line f ix wy c) = CacheLineSize c"
  "AllocPolicy (upd_line f ix wy c) = AllocPolicy c" "WritePolicy (upd_line f ix wy c) = WritePolicy c"
  "InclusionOfHigher (upd_line f ix wy c) = InclusionOfHigher c"
  "InclusionOfLower (upd_line f ix wy c) = InclusionOfLower c"
  "NotifyEvictions (upd_line f ix wy c) = NotifyEvictions c" "Id (upd_line f ix wy c) = Id c"
  "Level (upd_line f ix wy c) = Level c" "IsHome (upd_line f ix wy c) = IsHome c"
  "IsCoherent (upd_line f ix wy c) = IsCoherent c"
  by (simp_all add: upd_line_def Let_def)

lemma inc_view [simp]:
  "geometry (inc n c) = geometry c" "addr_offset (inc n c) = addr_offset c"
  "addr_index (inc n c) = addr_index c" "addr_tag (inc n c) = addr_tag c"
  "cacheable k (inc n c) = cacheable k c" "line_base (inc n c) = line_base c"
  "the_line (inc n c) = the_line c" "ways (inc n c) = ways c" "CacheLines (inc n c) = CacheLines c"
  "placed k (inc n c) = placed k c"
  by (auto simp: view_defs inc_def fun_eq_iff)

lemma inc_fields [simp]:
  "Directory (inc n c) = Directory c" "Sharers (inc n c) = Sharers c"
  "CacheLineSize (inc n c) = CacheLineSize c" "AllocPolicy (inc n c) = AllocPolicy c"
  "WritePolicy (inc n c) = WritePolicy c" "InclusionOfHigher (inc n c) = InclusionOfHigher c"
  "InclusionOfLower (inc n c) = InclusionOfLower c" "NotifyEvictions (inc n c) = NotifyEvictions c"
  "Id (inc n c) = Id c" "Level (inc n c) = Level c" "IsHome (inc n c) = IsHome c"
  "IsCoherent (inc n c) = IsCoherent c"
  by (simp_all add: inc_def)

lemma set_dir_view [simp]:
  "geometry (set_dir a st ow sh c) = geometry c" "addr_offset (set_dir a st ow sh c) = addr_offset c"
  "addr_index (set_dir a st ow sh c) = addr_index c" "addr_tag (set_dir a st ow sh c) = addr_tag c"
  "cacheable k (set_dir a st ow sh c) = cacheable k c" "line_base (set_dir a st ow sh c) = line_base c"
  "the_line (set_dir a st ow sh c) = the_line c" "ways (set_dir a st ow sh c) = ways c"
  "CacheLines (set_dir a st ow sh c) = CacheLines c" "placed k (set_dir a st ow sh c) = placed k c"
  by (auto simp: view_defs set_dir_def fun_eq_iff)

lemma set_dir_fields [simp]:
  "Directory (set_dir a st ow sh c) = (Directory c)(a \<mapsto> \<lparr>dState = st, Owner = ow, dSharers = sh\<rparr>)"
  "Sharers (set_dir a st ow sh c) = Sharers c" "Count (set_dir a st ow sh c) = Count c"
  "CacheLineSize (set_dir a st ow sh c) = CacheLineSize c" "AllocPolicy (set_dir a st ow sh c) = AllocPolicy c"
  "WritePolicy (set_dir a st ow sh c) = WritePolicy c"
  "InclusionOfHigher (set_dir a st ow sh c) = InclusionOfHigher c"
  "InclusionOfLower (set_dir a st ow sh c) = InclusionOfLower c"
  "NotifyEvictions (set_dir a st ow sh c) = NotifyEvictions c" "Id (set_dir a st ow sh c) = Id c"
  "Level (set_dir a st ow sh c) = Level c" "IsHome (set_dir a st ow sh c) = IsHome c"
  "IsCoherent (set_dir a st ow sh c) = IsCoherent c"
  by (simp_all add: set_dir_def)

lemma wf_cache_inc [simp]: "wf_cache k (inc n c) = wf_cache k c"
  by (simp add: wf_cache_def)

lemma wf_cache_set_dir [simp]: "wf_cache k (set_dir a st ow sh c) = wf_cache k c"
  by (simp add: wf_cache_def)

lemma line_state_inc [simp]: "line_state (inc n c) = line_state c"
  by (simp add: line_state_def fun_eq_iff cong: option.case_cong)

lemma line_state_set_dir [simp]: "line_state (set_dir a st ow sh c) = line_state c"
  by (simp add: line_state_def fun_eq_iff cong: option.case_cong)

lemma the_line_upd:
  assumes "wf_cache k c" "ix < length (CacheLines c)" "wy < ways c ix"
  shows "the_line (upd_line f ix wy c) ix' wy' =
    (if ix' = ix \<and> wy' = wy then f (the_line c ix wy) else the_line c ix' wy')"
  using assms wf_setD(2) [OF wf_cacheD(2) [OF assms(1,2)]]
  by (auto simp: the_line_def upd_line_def Let_def ways_def nth_list_update)

lemma wf_set_line: "wf_set s \<Longrightarrow> wf_set (s\<lparr>Lines := (Lines s)[wy := (Lines s ! wy)\<lparr>line := l\<rparr>]\<rparr>)"
proof -
  assume wf: "wf_set s"
  have "rank (s\<lparr>Lines := (Lines s)[wy := (Lines s ! wy)\<lparr>line := l\<rparr>]\<rparr>) i = rank s i" for i
    by (cases "wy < length (Lines s)") (auto simp: rank_def nth_list_update list_update_beyond)
  then have "rank (s\<lparr>Lines := (Lines s)[wy := (Lines s ! wy)\<lparr>line := l\<rparr>]\<rparr>) = rank s" by blast
  then show ?thesis using wf by (simp add: wf_set_def)
qed

text \<open>The valid lines of a set other than the one at \<open>wy\<close> do not carry tag \<open>t\<close>.\<close>

definition tag_free :: "cache \<Rightarrow> nat \<Rightarrow> nat \<Rightarrow> u32 \<Rightarrow> bool" where
  "tag_free c ix wy t \<longleftrightarrow> (\<forall>wy' < ways c ix. wy' \<noteq> wy \<longrightarrow>
     State (the_line c ix wy') \<noteq> Invalid \<longrightarrow> Tag (the_line c ix wy') \<noteq> t)"

lemma wf_upd_line:
  assumes wf: "wf_cache k c" and r: "ix < length (CacheLines c)" "wy < ways c ix"
    and p: "placed k c ix (f (the_line c ix wy))"
    and u: "State (f (the_line c ix wy)) \<noteq> Invalid \<Longrightarrow> tag_free c ix wy (Tag (f (the_line c ix wy)))"
  shows "wf_cache k (upd_line f ix wy c)"
proof -
  have sets: "wf_set s \<and> Policy s \<noteq> FIFO" if s: "s \<in> set (CacheLines (upd_line f ix wy c))" for s
  proof -
    consider "s \<in> set (CacheLines c)" | "s = (CacheLines c ! ix)\<lparr>Lines := (Lines (CacheLines c ! ix))
        [wy := (Lines (CacheLines c ! ix) ! wy)\<lparr>line := f (line (Lines (CacheLines c ! ix) ! wy))\<rparr>]\<rparr>"
      using s by (auto simp: upd_line_def Let_def dest!: set_update_subset_insert [THEN subsetD])
    then show ?thesis
      using wf r by cases (auto simp: wf_cache_def intro!: wf_set_line)
  qed
  show ?thesis
    unfolding wf_cache_def upd_line_view ways_upd
    using sets wf_cacheD [OF wf] p u the_line_upd [OF wf r] r
    by (auto simp: tag_free_def)
qed

lemma line_state_eqI: "(\<And>st. st \<noteq> Invalid \<Longrightarrow> x = st \<longleftrightarrow> y = st) \<Longrightarrow> x = y" for x y :: CoherenceState
  by metis

lemma address_elsewhere:
  assumes "wf_cache k c" "i < length (CacheLines c)" "w < ways c i" "\<not> (i = ix \<and> w = wy)"
    "State l \<noteq> Invalid" "placed k c ix l" "tag_free c ix wy (Tag l)" "State (the_line c i w) \<noteq> Invalid"
  shows "Address (the_line c i w) \<noteq> Address l"
proof
  assume "Address (the_line c i w) = Address l"
  then have "i = ix" "Tag (the_line c i w) = Tag l"
    using assms valid_lineD [OF assms(1-3,8)] by (auto simp: placed_def)
  then show False using assms by (auto simp: tag_free_def)
qed

lemma tag_free_valid:
  assumes "wf_cache k c" "ix < length (CacheLines c)" "wy < ways c ix" "State (the_line c ix wy) \<noteq> Invalid"
  shows "tag_free c ix wy (Tag (the_line c ix wy))"
  using wf_cacheD(5) [OF assms(1,2) _ assms(3)] assms(4) by (auto simp: tag_free_def)

lemma line_state_upd:
  assumes wf: "wf_cache k c" and r: "ix < length (CacheLines c)" "wy < ways c ix"
    and p: "placed k c ix (f (the_line c ix wy))"
    and u: "State (f (the_line c ix wy)) \<noteq> Invalid \<Longrightarrow> tag_free c ix wy (Tag (f (the_line c ix wy)))"
  shows "line_state (upd_line f ix wy c) a =
    (let l = the_line c ix wy in
     if State (f l) \<noteq> Invalid \<and> a = Address (f l) then State (f l)
     else if State l \<noteq> Invalid \<and> a = Address l then Invalid else line_state c a)"
  unfolding Let_def
proof (rule line_state_eqI)
  let ?l = "the_line c ix wy" and ?c = "upd_line f ix wy c"
  fix st assume st: "st \<noteq> Invalid"
  have wf': "wf_cache k ?c" by (rule wf_upd_line) (use wf r p u in auto)
  have L: "line_state ?c a = st \<longleftrightarrow> (\<exists>i w. i < length (CacheLines c) \<and> w < ways c i \<and>
      (if i = ix \<and> w = wy then Address (f ?l) = a \<and> State (f ?l) = st
       else Address (the_line c i w) = a \<and> State (the_line c i w) = st))"
    using line_state_cases [OF wf', of a st] st by (auto simp: the_line_upd [OF wf r])
  have R: "line_state c a = st \<longleftrightarrow> (\<exists>i w. i < length (CacheLines c) \<and> w < ways c i \<and>
      Address (the_line c i w) = a \<and> State (the_line c i w) = st)"
    using line_state_cases [OF wf, of a st] st by auto
  have other: "Address (the_line c i w) \<noteq> a"
    if "i < length (CacheLines c)" "w < ways c i" "\<not> (i = ix \<and> w = wy)" "State (the_line c i w) = st"
      "State (f ?l) \<noteq> Invalid \<and> a = Address (f ?l) \<or> State ?l \<noteq> Invalid \<and> a = Address ?l" for i w
    using address_elsewhere [OF wf that(1-3)] that(4,5) st p u wf_cacheD(4) [OF wf r]
      tag_free_valid [OF wf r] by metis
  show "line_state ?c a = st \<longleftrightarrow> (if State (f ?l) \<noteq> Invalid \<and> a = Address (f ?l) then State (f ?l)
      else if State ?l \<noteq> Invalid \<and> a = Address ?l then Invalid else line_state c a) = st"
  proof (cases "State (f ?l) \<noteq> Invalid \<and> a = Address (f ?l) \<or> State ?l \<noteq> Invalid \<and> a = Address ?l")
    case True
    then show ?thesis using L other r st by (metis (no_types, lifting))
  next
    case False
    then show ?thesis using L R r st by (metis (no_types, lifting))
  qed
qed

section \<open>Looking a line up\<close>

text \<open>Replacing one set by one with the same lines changes nothing but the replacement data.\<close>

definition relined :: "cache \<Rightarrow> cache \<Rightarrow> bool" where
  "relined c c' \<longleftrightarrow> (\<exists>xs. c' = c\<lparr>CacheLines := xs\<rparr> \<and> length xs = length (CacheLines c) \<and>
     (\<forall>ix < length xs. same_frame (CacheLines c ! ix) (xs ! ix) \<and> (wf_set (CacheLines c ! ix) \<longrightarrow> wf_set (xs ! ix))))"

lemma relinedE:
  assumes "relined c c'"
  obtains xs where "c' = c\<lparr>CacheLines := xs\<rparr>" "length xs = length (CacheLines c)"
  using assms by (auto simp: relined_def)

lemma relined_view:
  assumes "relined c c'"
  shows "geometry c' = geometry c" "addr_offset c' = addr_offset c" "addr_index c' = addr_index c"
    "addr_tag c' = addr_tag c" "cacheable k c' = cacheable k c" "line_base c' = line_base c"
    "placed k c' = placed k c" "length (CacheLines c') = length (CacheLines c)"
    "CacheLineSize c' = CacheLineSize c" "Directory c' = Directory c" "Sharers c' = Sharers c"
    "Count c' = Count c" "AllocPolicy c' = AllocPolicy c" "WritePolicy c' = WritePolicy c"
    "InclusionOfHigher c' = InclusionOfHigher c" "InclusionOfLower c' = InclusionOfLower c"
    "NotifyEvictions c' = NotifyEvictions c" "Id c' = Id c" "Level c' = Level c" "IsHome c' = IsHome c"
    "IsCoherent c' = IsCoherent c"
  using assms by (auto simp: relined_def view_defs fun_eq_iff)

lemma relined_lines:
  assumes "relined c c'" "ix < length (CacheLines c)"
  shows "ways c' ix = ways c ix"
    and "wf_set (CacheLines c ! ix) \<Longrightarrow> wy < ways c ix \<Longrightarrow> the_line c' ix wy = the_line c ix wy"
proof -
  obtain xs where xs: "c' = c\<lparr>CacheLines := xs\<rparr>" "length xs = length (CacheLines c)"
    "same_frame (CacheLines c ! ix) (xs ! ix)"
    using assms by (auto simp: relined_def)
  show "ways c' ix = ways c ix" using xs by (simp add: ways_def same_frame_def)
  show "the_line c' ix wy = the_line c ix wy" if "wf_set (CacheLines c ! ix)" "wy < ways c ix"
    using xs same_frame_lines(2) [OF xs(3)] that wf_setD(2) by (simp add: ways_def the_line_def)
qed

lemma relined_wf:
  assumes r: "relined c c'" and wf: "wf_cache k c"
  shows "wf_cache k c'" "line_state c' = line_state c"
proof -
  have pol: "wf_set s \<and> Policy s \<noteq> FIFO" if s: "s \<in> set (CacheLines c')" for s
  proof -
    obtain ix where "ix < length (CacheLines c')" "s = CacheLines c' ! ix"
      using s by (metis in_set_conv_nth)
    then show ?thesis
      using r wf_cacheD(2,3) [OF wf, of ix] by (auto simp: relined_def same_frame_def)
  qed
  note vw = relined_view [OF r]
  have lines: "ways c' ix = ways c ix" "\<And>wy. wy < ways c ix \<Longrightarrow> the_line c' ix wy = the_line c ix wy"
    if "ix < length (CacheLines c)" for ix
    using relined_lines [OF r that] wf_cacheD(2) [OF wf that] by simp_all
  show wf': "wf_cache k c'"
    unfolding wf_cache_def vw
  proof (intro conjI ballI allI impI)
    fix ix wy wy'
    assume *: "ix < length (CacheLines c)" "wy < ways c' ix" "wy' < ways c' ix"
      "State (the_line c' ix wy) \<noteq> Invalid" "State (the_line c' ix wy') \<noteq> Invalid"
      "Tag (the_line c' ix wy) = Tag (the_line c' ix wy')"
    show "wy = wy'" by (rule wf_cacheD(5) [OF wf *(1)]) (use * lines [OF *(1)] in auto)
  next
    fix ix wy assume *: "ix < length (CacheLines c)" "wy < ways c' ix"
    then show "placed k c ix (the_line c' ix wy)" using lines [OF *(1)] wf_cacheD(4) [OF wf *(1)] by simp
  qed (use pol wf_cacheD(1) [OF wf] in auto)
  show "line_state c' = line_state c"
  proof (rule ext, rule line_state_eqI)
    fix a st assume "st \<noteq> Invalid"
    then show "line_state c' a = st \<longleftrightarrow> line_state c a = st"
      using line_state_cases [OF wf, of a st] line_state_cases [OF wf', of a st] lines
      unfolding vw by metis
  qed
qed

lemma lookup_hit_iff:
  assumes wf: "wf_cache k c" and a: "cacheable k c addr"
  shows "locateLineInSet (addr_tag c addr) (CacheLines c ! addr_index c addr) = Some wy \<Longrightarrow>
      Address (the_line c (addr_index c addr) wy) = line_base c addr"
    and "locateLineInSet (addr_tag c addr) (CacheLines c ! addr_index c addr) \<noteq> None \<longleftrightarrow>
      line_state c (line_base c addr) \<noteq> Invalid"
proof -
  note g = wf_cacheD(1) [OF wf] and ix = index_bound [OF wf_cacheD(1) [OF wf], of addr]
  let ?ix = "addr_index c addr"
  let ?loc = "locateLineInSet (addr_tag c addr) (CacheLines c ! ?ix)"
  show addr: "Address (the_line c ?ix wy) = line_base c addr" if "?loc = Some wy" for wy
  proof -
    have w: "wy < ways c ?ix" "Tag (the_line c ?ix wy) = addr_tag c addr" "State (the_line c ?ix wy) \<noteq> Invalid"
      using locate_SomeD [OF that] by (simp_all add: ways_def the_line_def)
    show ?thesis
      by (rule same_line [OF g valid_lineD(4) [OF wf ix w(1,3)] cacheable_line_base [OF g a]])
        (use valid_lineD [OF wf ix w(1,3)] w g in simp_all)
  qed
  show "?loc \<noteq> None \<longleftrightarrow> line_state c (line_base c addr) \<noteq> Invalid"
  proof
    assume "?loc \<noteq> None"
    then obtain wy where wy: "?loc = Some wy" by blast
    then show "line_state c (line_base c addr) \<noteq> Invalid"
      using locate_SomeD [OF wy] addr [OF wy] line_state_cases [OF wf] ix
      by (metis the_line_def ways_def)
  next
    assume "line_state c (line_base c addr) \<noteq> Invalid"
    then obtain i w where iw: "i < length (CacheLines c)" "w < ways c i"
      "Address (the_line c i w) = line_base c addr" "State (the_line c i w) \<noteq> Invalid"
      using line_state_cases [OF wf] by metis
    have "i = ?ix" "Tag (the_line c i w) = addr_tag c addr"
      using valid_lineD [OF wf iw(1,2,4)] iw(3) g by simp_all
    then show "?loc \<noteq> None" using locate_NoneD iw(2,4) by (metis the_line_def ways_def)
  qed
qed

lemma lookup_line_ok:
  assumes wf: "wf_cache k c" and a: "cacheable k c addr"
  obtains wy c' where
    "lookup_line addr c = Some (line_state c (line_base c addr) \<noteq> Invalid, addr_index c addr, wy, c')"
    "relined c c'" "wy < ways c (addr_index c addr)"
    "line_state c (line_base c addr) \<noteq> Invalid \<Longrightarrow>
       Address (the_line c (addr_index c addr) wy) = line_base c addr \<and>
       State (the_line c (addr_index c addr) wy) = line_state c (line_base c addr)"
    "line_state c (line_base c addr) = Invalid \<Longrightarrow> tag_free c (addr_index c addr) wy (addr_tag c addr)"
proof -
  let ?ix = "addr_index c addr"
  let ?loc = "locateLineInSet (addr_tag c addr) (CacheLines c ! ?ix)"
  have ix: "?ix < length (CacheLines c)" using index_bound wf_cacheD(1) [OF wf] by simp
  obtain wy t where w: "accessSet (addr_tag c addr) (CacheLines c ! ?ix) = Some (?loc \<noteq> None, wy, t)"
    "wf_set t" "same_frame (CacheLines c ! ?ix) t" "wy < ways c ?ix"
    "\<And>i. ?loc = Some i \<Longrightarrow> wy = i"
    by (rule accessSet_ok [OF wf_cacheD(2,3) [OF wf ix]]) (auto simp: ways_def)
  let ?c = "c\<lparr>CacheLines := (CacheLines c)[?ix := t]\<rparr>"
  show thesis
  proof
    show "lookup_line addr c = Some (line_state c (line_base c addr) \<noteq> Invalid, ?ix, wy, ?c)"
      using w(1) lookup_hit_iff(2) [OF assms] by (simp add: lookup_line_def Let_def)
    show "relined c ?c"
      unfolding relined_def using w(2,3) ix by (auto simp: nth_list_update intro!: exI [of _ "(CacheLines c)[?ix := t]"])
    show "wy < ways c ?ix" by fact
    show "Address (the_line c ?ix wy) = line_base c addr \<and>
        State (the_line c ?ix wy) = line_state c (line_base c addr)"
      if hit: "line_state c (line_base c addr) \<noteq> Invalid"
    proof -
      have loc: "?loc = Some wy" using lookup_hit_iff(2) [OF assms] hit w(5) by fastforce
      have "State (the_line c ?ix wy) \<noteq> Invalid" using locate_SomeD [OF loc] by (simp add: the_line_def)
      then show ?thesis
        using lookup_hit_iff(1) [OF assms loc] line_state_cases [OF wf] ix w(4) by metis
    qed
    show "tag_free c ?ix wy (addr_tag c addr)" if "line_state c (line_base c addr) = Invalid"
    proof -
      have "?loc = None" using lookup_hit_iff(2) [OF assms] that by blast
      then show ?thesis using locate_NoneD by (auto simp: tag_free_def ways_def the_line_def)
    qed
  qed
qed

section \<open>Environments\<close>

text \<open>
  \<open>runs send ms e e'\<close>: sending the messages \<open>ms\<close> one after the other takes the
  surroundings from \<open>e\<close> to \<open>e'\<close>.
\<close>

definition sends :: "'e send_hook \<Rightarrow> cache_msg \<Rightarrow> 'e \<Rightarrow> 'e \<Rightarrow> bool" where
  "sends send m e e' \<longleftrightarrow> (\<exists>c st. send m c e = Some (st, c, e'))"

fun runs :: "'e send_hook \<Rightarrow> cache_msg list \<Rightarrow> 'e \<Rightarrow> 'e \<Rightarrow> bool" where
  "runs send [] e e' \<longleftrightarrow> e' = e"
| "runs send (m # ms) e e' \<longleftrightarrow> (\<exists>e1. sends send m e e1 \<and> runs send ms e1 e')"

lemma runs_append: "runs send (ms @ ns) e e' \<longleftrightarrow> (\<exists>e1. runs send ms e e1 \<and> runs send ns e1 e')"
  by (induction ms arbitrary: e) auto

lemma runs_base: "runs base_send ms e e' \<longleftrightarrow> e' = e @ ms"
  by (induction ms arbitrary: e) (auto simp: base_send_def sends_def)

text \<open>
  The two contracts a cache can rely on. In a \<open>quiet\<close> environment no message comes back
  to the cache before its own message has been answered; in a \<open>responsive\<close> one, besides,
  every message is answered.
\<close>

locale quiet =
  fixes send :: "'e send_hook"
  assumes keeps: "send m c e = Some (st, c', e') \<Longrightarrow> c' = c"
begin

lemma sent: "send m c e = Some (st, c', e') \<Longrightarrow> c' = c \<and> sends send m e e'"
  using keeps sends_def by metis

lemma notify_quiet:
  assumes "notify_shared_victim send isHit ix wy c e = Some (c', e')"
  shows "c' = c" and "runs send (if \<not> isHit \<and> State (the_line c ix wy) = Shared \<and> NotifyEvictions c
    then [NotifyEviction (handle (the_line c ix wy))] else []) e e'"
  using assms by (auto simp: notify_shared_victim_def osimps dest!: sent split: if_splits)

end

locale responsive = quiet +
  assumes answers: "\<exists>st e'. send m c e = Some (st, c, e')"
begin

lemma send_total: obtains st e' where "send m c e = Some (st, c, e')"
  using answers by blast

lemma notify_total: "\<exists>e'. notify_shared_victim send isHit ix wy c e = Some (c, e')"
  using answers by (auto simp: notify_shared_victim_def osimps) (metis)

end

interpretation base_env: responsive base_send
  by unfold_locales (auto simp: base_send_def)

lemma relined_wf_iff: "relined c c' \<Longrightarrow> wf_cache k c \<Longrightarrow> wf_cache k c'"
  by (rule relined_wf)

section \<open>The frame of a line\<close>

text \<open>
  \<open>at_line k c ix wy a\<close>: way \<open>wy\<close> of set \<open>ix\<close> is the frame of the line address \<open>a\<close>,
  whether it is valid or has just been allocated. This is what the local line pointer of the
  access routines points to once the request is being served.
\<close>

definition at_line :: "u64 \<Rightarrow> cache \<Rightarrow> nat \<Rightarrow> nat \<Rightarrow> u64 \<Rightarrow> bool" where
  "at_line k c ix wy a \<longleftrightarrow> ix = addr_index c a \<and> ix < length (CacheLines c) \<and> wy < ways c ix \<and>
     addr_offset c a = 0 \<and> cacheable k c a \<and> Address (the_line c ix wy) = a \<and>
     Tag (the_line c ix wy) = addr_tag c a \<and> tag_free c ix wy (addr_tag c a)"

lemma tag_free_simps [simp]:
  "tag_free (inc n c) ix wy t = tag_free c ix wy t"
  "tag_free (set_dir a st ow sh c) ix wy t = tag_free c ix wy t"
  by (simp_all add: tag_free_def)

lemma at_line_simps [simp]:
  "at_line k (inc n c) ix wy a = at_line k c ix wy a"
  "at_line k (set_dir b st ow sh c) ix wy a = at_line k c ix wy a"
  by (simp_all add: at_line_def)

lemma at_line_range: "at_line k c ix wy a \<Longrightarrow> ix < length (CacheLines c) \<and> wy < ways c ix"
  by (auto simp: at_line_def)

lemma at_line_address: "at_line k c ix wy a \<Longrightarrow> Address (the_line c ix wy) = a"
  by (auto simp: at_line_def)

lemma tag_free_upd:
  assumes "wf_cache k c" "ix < length (CacheLines c)" "wy < ways c ix"
  shows "tag_free (upd_line f ix wy c) ix wy t = tag_free c ix wy t"
  by (simp add: tag_free_def the_line_upd [OF assms])

lemma at_line_state:
  assumes wf: "wf_cache k c" and a: "at_line k c ix wy a"
  shows "State (the_line c ix wy) = line_state c a"
proof (rule line_state_eqI)
  fix st assume st: "st \<noteq> Invalid"
  have "\<exists>l. State l \<noteq> Invalid \<and> placed k c ix l \<and> Address l = a \<and> tag_free c ix wy (Tag l)"
    using a by (intro exI [of _ "setState Shared (the_line c ix wy)"]) (auto simp: at_line_def placed_def)
  then have "Address (the_line c i w) \<noteq> a"
    if "i < length (CacheLines c)" "w < ways c i" "\<not> (i = ix \<and> w = wy)" "State (the_line c i w) \<noteq> Invalid" for i w
    using address_elsewhere [OF wf that(1-3)] that(4) by metis
  then show "State (the_line c ix wy) = st \<longleftrightarrow> line_state c a = st"
    using line_state_cases [OF wf, of a st] st a unfolding at_line_def by metis
qed

lemma set_state_at:
  assumes wf: "wf_cache k c" and a: "at_line k c ix wy a"
  shows "wf_cache k (upd_line (setState st) ix wy c)"
    and "at_line k (upd_line (setState st) ix wy c) ix wy a"
    and "line_state (upd_line (setState st) ix wy c) = (line_state c)(a := st)"
proof -
  let ?l = "the_line c ix wy"
  note r = at_line_range [OF a]
  have p: "placed k c ix (setState st ?l)" and u: "State (setState st ?l) \<noteq> Invalid \<Longrightarrow>
      tag_free c ix wy (Tag (setState st ?l))"
    using a by (auto simp: placed_def at_line_def)
  show "wf_cache k (upd_line (setState st) ix wy c)"
    by (rule wf_upd_line) (use wf r p u in auto)
  show "at_line k (upd_line (setState st) ix wy c) ix wy a"
    using a r by (auto simp: at_line_def the_line_upd [OF wf] tag_free_upd [OF wf])
  show "line_state (upd_line (setState st) ix wy c) = (line_state c)(a := st)"
  proof (rule ext)
    fix b
    show "line_state (upd_line (setState st) ix wy c) b = ((line_state c)(a := st)) b"
      by (subst line_state_upd [where k = k])
        (use wf r p u at_line_address [OF a] at_line_state [OF wf a] in \<open>auto simp: Let_def\<close>)
  qed
qed

lemma at_line_hit:
  assumes "wf_cache k c" "ix < length (CacheLines c)" "wy < ways c ix"
    "State (the_line c ix wy) \<noteq> Invalid" "Address (the_line c ix wy) = a"
  shows "at_line k c ix wy a"
  using valid_lineD [OF assms(1-4)] tag_free_valid [OF assms(1-4)] assms by (simp add: at_line_def)

lemma prepare_miss:
  fixes h :: "nat option"
  assumes wf: "wf_cache k c" and al: "AllocPolicy c = WAllocate"
    and r: "wy < ways c (addr_index c a)"
    and a: "addr_offset c a = 0" "cacheable k c a" "tag_free c (addr_index c a) wy (addr_tag c a)"
  defines "ix \<equiv> addr_index c a"
  defines "c1 \<equiv> prepare_line False a (addr_tag c a) h ix wy c"
  shows "wf_cache k c1" "at_line k c1 ix wy a"
    and "line_state c1 = (if State (the_line c ix wy) = Invalid then line_state c
           else (line_state c)(Address (the_line c ix wy) := Invalid))"
proof -
  have ix: "ix < length (CacheLines c)" using index_bound wf_cacheD(1) [OF wf] by (simp add: ix_def)
  let ?f = "setHandle h \<circ> setNewLine a (addr_tag c a)"
  have c1: "c1 = upd_line ?f ix wy c" using al by (simp add: c1_def prepare_line_def)
  have p: "placed k c ix (?f (the_line c ix wy))" and u: "State (?f (the_line c ix wy)) = Invalid"
    by (simp_all add: placed_def)
  show "wf_cache k c1"
    unfolding c1 by (rule wf_upd_line) (use wf ix r p u in \<open>auto simp: ix_def\<close>)
  show "at_line k c1 ix wy a"
    using a r ix wf by (simp add: c1 at_line_def the_line_upd [OF wf] tag_free_upd [OF wf] ix_def)
  show "line_state c1 = (if State (the_line c ix wy) = Invalid then line_state c
           else (line_state c)(Address (the_line c ix wy) := Invalid))"
  proof (rule ext)
    fix b
    show "line_state c1 b = (if State (the_line c ix wy) = Invalid then line_state c
           else (line_state c)(Address (the_line c ix wy) := Invalid)) b"
      unfolding c1 by (subst line_state_upd [where k = k])
        (use wf ix r p u in \<open>auto simp: Let_def ix_def\<close>)
  qed
qed

lemma prepare_fields [simp]:
  "Directory (prepare_line h b t hdl ix wy c) = Directory c" "Sharers (prepare_line h b t hdl ix wy c) = Sharers c"
  "CacheLineSize (prepare_line h b t hdl ix wy c) = CacheLineSize c"
  "InclusionOfHigher (prepare_line h b t hdl ix wy c) = InclusionOfHigher c"
  "InclusionOfLower (prepare_line h b t hdl ix wy c) = InclusionOfLower c"
  "WritePolicy (prepare_line h b t hdl ix wy c) = WritePolicy c"
  "AllocPolicy (prepare_line h b t hdl ix wy c) = AllocPolicy c"
  "Id (prepare_line h b t hdl ix wy c) = Id c"
  by (simp_all add: prepare_line_def)

lemma prepare_hit [simp]: "prepare_line True b t hdl ix wy c = c"
  by (simp add: prepare_line_def)

section \<open>What never changes\<close>

text \<open>The part of a cache the constructor fixes.\<close>

definition config :: "cache \<Rightarrow> cache" where
  "config c = c\<lparr>CacheLines := [], Directory := Map.empty, Sharers := (\<lambda>_. {}), Count := (\<lambda>_. 0)\<rparr>"

lemma config_simps [simp]:
  "config (upd_line f ix wy c) = config c" "config (inc n c) = config c"
  "config (set_dir a st ow sh c) = config c" "config (set_sharers a sh c) = config c"
  "config (dir_touch a c) = config c" "config (prepare_line h b t hdl ix wy c) = config c"
  by (simp_all add: config_def upd_line_def inc_def set_dir_def set_sharers_def dir_touch_def
      prepare_line_def Let_def)

lemma relined_config: "relined c c' \<Longrightarrow> config c' = config c"
  by (auto simp: relined_def config_def)

lemma config_proj:
  "addr_offset (config c) = addr_offset c" "addr_index (config c) = addr_index c"
  "addr_tag (config c) = addr_tag c" "cacheable k (config c) = cacheable k c"
  "line_base (config c) = line_base c" "CacheLineSize (config c) = CacheLineSize c"
  "AllocPolicy (config c) = AllocPolicy c" "WritePolicy (config c) = WritePolicy c"
  "InclusionOfHigher (config c) = InclusionOfHigher c" "InclusionOfLower (config c) = InclusionOfLower c"
  "NotifyEvictions (config c) = NotifyEvictions c" "Id (config c) = Id c" "Level (config c) = Level c"
  "IsHome (config c) = IsHome c" "IsCoherent (config c) = IsCoherent c"
  by (auto simp: config_def view_defs fun_eq_iff)

lemma configD:
  assumes "config c' = config c"
  shows "addr_offset c' = addr_offset c" "addr_index c' = addr_index c" "addr_tag c' = addr_tag c"
    "cacheable k c' = cacheable k c" "line_base c' = line_base c" "CacheLineSize c' = CacheLineSize c"
    "AllocPolicy c' = AllocPolicy c" "WritePolicy c' = WritePolicy c"
    "InclusionOfHigher c' = InclusionOfHigher c" "InclusionOfLower c' = InclusionOfLower c"
    "NotifyEvictions c' = NotifyEvictions c" "Id c' = Id c" "Level c' = Level c"
    "IsHome c' = IsHome c" "IsCoherent c' = IsCoherent c"
  using assms by (metis config_proj)+

lemma address_upd_state [simp]:
  "Address (the_line (upd_line (setState st) ix wy c) i w) = Address (the_line c i w)"
  by (cases "ix < length (CacheLines c)"; cases "wy < length (Lines (CacheLines c ! ix))")
    (auto simp: the_line_def upd_line_def Let_def nth_list_update list_update_beyond)

text \<open>The updates of a cache in a normal form: lines first, then directory, then counters.\<close>

lemma update_order [simp]:
  "upd_line f ix wy (set_dir a st ow sh c) = set_dir a st ow sh (upd_line f ix wy c)"
  "upd_line f ix wy (inc n c) = inc n (upd_line f ix wy c)"
  "set_dir a st ow sh (inc n c) = inc n (set_dir a st ow sh c)"
  "set_dir a st ow sh (set_dir a st' ow' sh' c) = set_dir a st ow sh c"
  by (simp_all add: upd_line_def set_dir_def inc_def Let_def)

lemma dir_at_simps [simp]:
  "dir_at (upd_line f ix wy c) = dir_at c" "dir_at (inc n c) = dir_at c"
  "dir_at (set_dir a st ow sh c) = (dir_at c)(a := \<lparr>dState = st, Owner = ow, dSharers = sh\<rparr>)"
  by (auto simp: dir_at_def fun_eq_iff)

lemma dir_at_Some: "Directory c a = Some d \<Longrightarrow> dir_at c a = d"
  by (simp add: dir_at_def)

lemma dir_touch_present [simp]: "Directory c a = Some d \<Longrightarrow> dir_touch a c = c"
  by (simp add: dir_touch_def dir_at_def fun_upd_idem)

lemma upd_line_twice: "upd_line f ix wy (upd_line g ix wy c) = upd_line (f \<circ> g) ix wy c"
proof (cases "ix < length (CacheLines c)")
  case True
  then show ?thesis
    by (cases "wy < length (Lines (CacheLines c ! ix))")
      (auto simp: upd_line_def Let_def list_update_beyond)
qed (simp add: upd_line_def Let_def list_update_beyond)

lemma prepare_inc [simp]: "prepare_line h a t hdl ix wy (inc n c) = inc n (prepare_line h a t hdl ix wy c)"
  by (simp add: prepare_line_def)

lemma prepare_invalidated:
  assumes "AllocPolicy c = WAllocate"
  shows "prepare_line False a t hdl ix wy (upd_line (setState Invalid) ix wy c) = prepare_line False a t hdl ix wy c"
  using assms by (simp add: prepare_line_def upd_line_twice comp_def setNewLine_def setState_def)

text \<open>Everything a client needs to know of the lookup.\<close>

lemma lookup_frame:
  assumes wf: "wf_cache k c" and a: "cacheable k c addr"
    and run: "lookup_line addr c = Some (isHit, ix, wy, c')"
  shows "isHit \<longleftrightarrow> line_state c (line_base c addr) \<noteq> Invalid"
    and "wf_cache k c'" "line_state c' = line_state c" "config c' = config c"
    and "Directory c' = Directory c" "Sharers c' = Sharers c" "Count c' = Count c"
    and "ix = addr_index c addr" "ix < length (CacheLines c')" "wy < ways c' ix"
    and "isHit \<Longrightarrow> at_line k c' ix wy (line_base c addr)"
    and "\<not> isHit \<Longrightarrow> tag_free c' ix wy (addr_tag c addr)"
proof -
  have g: "geometry c" by (rule wf_cacheD(1) [OF wf])
  obtain wy0 c0 where l:
    "lookup_line addr c = Some (line_state c (line_base c addr) \<noteq> Invalid, addr_index c addr, wy0, c0)"
    "relined c c0" "wy0 < ways c (addr_index c addr)"
    "line_state c (line_base c addr) \<noteq> Invalid \<Longrightarrow>
       Address (the_line c (addr_index c addr) wy0) = line_base c addr \<and>
       State (the_line c (addr_index c addr) wy0) = line_state c (line_base c addr)"
    "line_state c (line_base c addr) = Invalid \<Longrightarrow> tag_free c (addr_index c addr) wy0 (addr_tag c addr)"
    using lookup_line_ok [OF wf a] by metis
  have eq: "isHit \<longleftrightarrow> line_state c (line_base c addr) \<noteq> Invalid" "ix = addr_index c addr" "wy = wy0" "c' = c0"
    using run l(1) by auto
  have r: "relined c c'" and wy: "wy < ways c ix" using l(2,3) eq by simp_all
  show "isHit \<longleftrightarrow> line_state c (line_base c addr) \<noteq> Invalid" "ix = addr_index c addr" by fact+
  show wf': "wf_cache k c'" "line_state c' = line_state c" using relined_wf [OF r wf] .
  show "config c' = config c" "Directory c' = Directory c" "Sharers c' = Sharers c" "Count c' = Count c"
    using relined_config [OF r] relined_view [OF r] by simp_all
  have ix: "ix < length (CacheLines c)" using index_bound [OF g] eq by simp
  then show ix': "ix < length (CacheLines c')" using relined_view(8) [OF r] by simp
  note ln = relined_lines(1) [OF r ix] relined_lines(2) [OF r ix wf_cacheD(2) [OF wf ix]]
  show "wy < ways c' ix" using wy ln by simp
  show "at_line k c' ix wy (line_base c addr)" if isHit
    by (rule at_line_hit [OF wf'(1) ix']) (use that l(4) eq wy ln in auto)
  show "tag_free c' ix wy (addr_tag c addr)" if "\<not> isHit"
    using l(5) that eq ln wy by (auto simp: tag_free_def)
qed

text \<open>Updates of the sharer map touch nothing else.\<close>

lemma set_sharers_view [simp]:
  "geometry (set_sharers a sh c) = geometry c" "addr_offset (set_sharers a sh c) = addr_offset c"
  "addr_index (set_sharers a sh c) = addr_index c" "addr_tag (set_sharers a sh c) = addr_tag c"
  "cacheable k (set_sharers a sh c) = cacheable k c" "line_base (set_sharers a sh c) = line_base c"
  "the_line (set_sharers a sh c) = the_line c" "ways (set_sharers a sh c) = ways c"
  "CacheLines (set_sharers a sh c) = CacheLines c" "placed k (set_sharers a sh c) = placed k c"
  by (auto simp: view_defs set_sharers_def fun_eq_iff)

lemma set_sharers_fields [simp]:
  "Directory (set_sharers a sh c) = Directory c" "Sharers (set_sharers a sh c) = (Sharers c)(a := sh)"
  "CacheLineSize (set_sharers a sh c) = CacheLineSize c" "AllocPolicy (set_sharers a sh c) = AllocPolicy c"
  "WritePolicy (set_sharers a sh c) = WritePolicy c"
  "InclusionOfHigher (set_sharers a sh c) = InclusionOfHigher c"
  "InclusionOfLower (set_sharers a sh c) = InclusionOfLower c"
  "NotifyEvictions (set_sharers a sh c) = NotifyEvictions c" "Id (set_sharers a sh c) = Id c"
  "Level (set_sharers a sh c) = Level c" "IsHome (set_sharers a sh c) = IsHome c"
  "IsCoherent (set_sharers a sh c) = IsCoherent c"
  by (simp_all add: set_sharers_def)

lemma wf_cache_set_sharers [simp]: "wf_cache k (set_sharers a sh c) = wf_cache k c"
  by (simp add: wf_cache_def)

lemma line_state_set_sharers [simp]: "line_state (set_sharers a sh c) = line_state c"
  by (simp add: line_state_def fun_eq_iff cong: option.case_cong)

lemma at_line_set_sharers [simp]: "at_line k (set_sharers b sh c) ix wy a = at_line k c ix wy a"
  by (simp add: at_line_def tag_free_def)

lemma set_sharers_order [simp]:
  "upd_line f ix wy (set_sharers a sh c) = set_sharers a sh (upd_line f ix wy c)"
  "set_sharers a sh (inc n c) = inc n (set_sharers a sh c)"
  "prepare_line h b t hdl ix wy (set_sharers a sh c) = set_sharers a sh (prepare_line h b t hdl ix wy c)"
  by (simp_all add: upd_line_def set_sharers_def inc_def prepare_line_def Let_def)

section \<open>The constructor\<close>

lemma log2_power [simp]: "log2 (2 ^ n) = n"
proof (induction n)
  case 0
  show ?case by (simp add: log2.simps [of "Suc 0"])
next
  case (Suc n)
  have "\<not> (2::nat) ^ Suc n < 2" using one_le_power [of "2::nat" n] by simp
  then show ?case using Suc by (subst log2.simps) simp
qed

lemma of_nat_two_power: "of_nat (2 ^ n) = (push_bit n 1 :: u64)"
  by (simp add: push_bit_eq_mult)

lemma CacheBase_new_wf:
  assumes new: "CacheBase_new (2 ^ b * assoc * 2 ^ i) (2 ^ b) assoc n repl wr al lev inh inl home coh ident = Some c"
    and n: "n = 0 \<or> n = 2 ^ j" "b + i + j < 64" and pol: "repl \<noteq> FIFO"
  shows "wf_cache k c" and "line_state c = (\<lambda>_. Invalid)" and "Directory c = Map.empty"
    and "Sharers c = (\<lambda>_. {})" and "Count c = (\<lambda>_. 0)" and "Id c = ident"
    and "InclusionOfHigher c = inh" "InclusionOfLower c = inl" "AllocPolicy c = al" "WritePolicy c = wr"
    and "CacheLineSize c = push_bit b 1" "OffsetBits c = b"
proof -
  let ?q = "if 0 < n then log2 n else 0"
  have q: "b + i + ?q < 64" using n by auto
  have sets: "2 ^ b * assoc * 2 ^ i div 2 ^ b div assoc = 2 ^ i" if "assoc \<noteq> 0"
    using that by (simp add: mult.assoc)
  obtain s where a: "assoc \<noteq> 0" and s: "CacheSet_new (2 ^ b) assoc repl = Some s"
    and c: "c = \<lparr>OffsetBits = b, InterleaveBits = ?q, IndexBits = i,
         TagBits = 64 - i - ?q - b, OffsetMask = low_mask b, IndexMask = low_mask i,
         TagMask = low_mask (64 - i - ?q - b), IndexShift = b + ?q,
         TagShift = i + b + ?q, CacheLineSize = of_nat (2 ^ b),
         IsCoherent = coh, NotifyEvictions = False, CacheLines = replicate (2 ^ i) s,
         Level = lev, IsHome = home, WritePolicy = wr, AllocPolicy = al,
         InclusionOfHigher = inh, InclusionOfLower = inl, Id = ident,
         Directory = Map.empty, Sharers = (\<lambda>_. {}), Count = (\<lambda>_. 0)\<rparr>"
    using new sets by (auto simp: CacheBase_new_def Let_def osimps)
  have g: "geometry c" using q unfolding geometry_def c by (auto simp: of_nat_two_power)
  note new_set = CacheSet_new_wf [OF s _ pol]
  have inv: "State (the_line c ix wy) = Invalid" if "ix < 2 ^ i" "wy < ways c ix" for ix wy
    using that new_set(2,4) a by (simp add: the_line_def ways_def c)
  show wf: "wf_cache k c"
    unfolding wf_cache_def using g new_set(1,3) a inv pol by (auto simp: c placed_def)
  show "line_state c = (\<lambda>_. Invalid)"
  proof (rule ext, rule line_state_eqI)
    fix x st assume "st \<noteq> Invalid"
    then show "line_state c x = st \<longleftrightarrow> Invalid = st"
      using line_state_cases [OF wf, of x st] inv by (auto simp: c)
  qed
  show "Directory c = Map.empty" "Sharers c = (\<lambda>_. {})" "Count c = (\<lambda>_. 0)" "Id c = ident"
    "InclusionOfHigher c = inh" "InclusionOfLower c = inl" "AllocPolicy c = al" "WritePolicy c = wr"
    "CacheLineSize c = push_bit b 1" "OffsetBits c = b"
    unfolding c by (simp_all add: of_nat_two_power)
qed

lemma CacheBase_new_defined:
  assumes "0 < assoc" "assoc \<le> 2 ^ b"
  shows "\<exists>c. CacheBase_new (2 ^ b * assoc * 2 ^ i) (2 ^ b) assoc n repl wr al lev inh inl home coh ident = Some c"
proof -
  have "assoc \<le> assoc * 2 ^ i" by simp
  then show ?thesis
    using assms by (simp add: CacheBase_new_def CacheSet_new_def initSet_def Let_def mult.assoc)
qed

text \<open>A small configuration: two sets of two lines of eight bytes.\<close>

lemma fresh_cache:
  obtains c where "wf_cache 0 c" "line_state c = (\<lambda>_. Invalid)" "Directory c = Map.empty"
    "AllocPolicy c = WAllocate" "WritePolicy c = WBack" "InclusionOfHigher c = inh" "InclusionOfLower c = inl"
    "Id c = ident" "cacheable 0 c 0" "addr_offset c 0 = 0" "CacheLineSize c = 8"
proof -
  obtain c where c: "CacheBase_new (2 ^ 3 * 2 * 2 ^ 1) (2 ^ 3) 2 0 LRU WBack WAllocate 1 inh inl True True ident = Some c"
    using CacheBase_new_defined [of 2 3 1 0 LRU WBack WAllocate 1 inh inl True True ident] by auto
  note wf = CacheBase_new_wf [OF c, of 0]
  show thesis
    by (rule that [of c]) (use wf in \<open>auto simp: cacheable_def addr_offset_def\<close>)
qed

lemma small_cacheable:
  assumes "InterleaveBits c = 0" "unat x < 2 ^ 32"
  shows "cacheable 0 c x"
proof -
  have "unat (drop_bit (TagShift c) x) \<le> unat x" by (simp add: drop_bit_eq_div unat_div_distrib)
  then show ?thesis using assms by (simp add: cacheable_def)
qed

end
