(* ===== verification/CacheCpu.thy ===== *)
theory CacheCpu
  imports CacheBase
begin

text \<open>
  The access routine of a coherent first-level cache
  (\<open>CacheBase::accessCpuCache\<close>): reads and writes of the CPU allocate lines and emit
  \<open>GetS\<close>, \<open>GetM\<close>, \<open>PutS\<close> and \<open>PutM\<close> requests; \<open>FwdGetS\<close>, \<open>FwdGetM\<close> and \<open>PutI\<close>
  arrive from the directory and only change the state of a line that is present.

  \<open>cpu_line\<close> handles the part of a request that lies in one cache line; it returns the
  number of bytes handled when the request goes on in the next line. \<open>accessCpuCache\<close> is
  the recursion over the lines. It is a \<open>partial_function\<close>: the call with a request that
  never ends has the value \<open>None\<close>.
\<close>

text \<open>Counting a hit or a miss: a write only hits a line held in \<open>Modified\<close>.\<close>

definition cpu_count :: "CoherenceCommand \<Rightarrow> bool \<Rightarrow> nat \<Rightarrow> nat \<Rightarrow> cache \<Rightarrow> cache" where
  "cpu_count mode isHit ix wy c =
     (if mode = Read then inc (if isHit then HitCount else MissCount) c
      else if mode = Write
        then inc (if isHit \<and> State (the_line c ix wy) = Modified then HitCount else MissCount) c
      else c)"

text \<open>Write-back of the victim line, clean or dirty, to make room for an allocating request.\<close>

definition cpu_writeback ::
  "'e send_hook \<Rightarrow> bool \<Rightarrow> idx_t \<Rightarrow> nat \<Rightarrow> nat \<Rightarrow> cache \<Rightarrow> 'e \<Rightarrow> 'e cache_result" where
  "cpu_writeback send isHit requesterId ix wy c e =
     (let l = the_line c ix wy in
      if \<not> isHit \<and> State l \<noteq> Invalid \<and> WritePolicy c = WBack
      then do {
        (stat, c, e) \<leftarrow> send (if State l = Modified then SendPutM (Address l) (CacheLineSize c) requesterId
                            else SendPutS (Address l) (CacheLineSize c) requesterId) (inc WriteBacks c) e;
        Some (stat, upd_line (setState Invalid) ix wy c, e)
      }
      else Some (TLM_OK_RESPONSE, c, e))"

text \<open>The read or write proper, on the line that is now present or allocated.\<close>

definition cpu_allocating ::
  "'e send_hook \<Rightarrow> CoherenceCommand \<Rightarrow> bool \<Rightarrow> u64 \<Rightarrow> idx_t \<Rightarrow> nat \<Rightarrow> nat \<Rightarrow> tlm_response_status \<Rightarrow>
   cache \<Rightarrow> 'e \<Rightarrow> 'e cache_result" where
  "cpu_allocating send mode isHit base requesterId ix wy stat c e =
     (case mode of
        Read \<Rightarrow>
          if \<not> isHit then do {
            (stat, c, e) \<leftarrow> send (SendGetS base (CacheLineSize c) requesterId) c e;
            Some (stat, inc NReads (upd_line (setState Shared) ix wy c), e)
          } else Some (stat, inc NReads c, e)
      | Write \<Rightarrow>
          if State (the_line c ix wy) \<noteq> Modified then do {
            (stat, c, e) \<leftarrow> send (SendGetM (Address (the_line c ix wy)) (CacheLineSize c) requesterId) c e;
            Some (stat, inc NWrites (upd_line (setState Modified) ix wy c), e)
          } else Some (stat, inc NWrites c, e)
      | _ \<Rightarrow> None)"

text \<open>An allocating request, for the part of the range that lies in one line.\<close>

definition cpu_serve ::
  "'e send_hook \<Rightarrow> CoherenceCommand \<Rightarrow> bool \<Rightarrow> u64 \<Rightarrow> u64 \<Rightarrow> u64 \<Rightarrow> u32 \<Rightarrow> idx_t \<Rightarrow> nat option \<Rightarrow> nat \<Rightarrow> nat \<Rightarrow>
   cache \<Rightarrow> 'e \<Rightarrow> (u64 option \<times> tlm_response_status \<times> cache \<times> 'e) option" where
  "cpu_serve send mode isHit len addr base tag requesterId hdl ix wy c e =
     do {
       (stat, c, e) \<leftarrow> cpu_writeback send isHit requesterId ix wy c e;
       _ \<leftarrow> cassert (\<not> (\<not> isHit \<and> State (the_line c ix wy) = Shared \<and> InclusionOfLower c = Exclusive));
       let c = prepare_line isHit base tag hdl ix wy c;
       _ \<leftarrow> cassert (base = Address (the_line c ix wy));
       let gap = addr - Address (the_line c ix wy);
       let alignment = (gap + len > CacheLineSize c);
       let accessSize = CacheLineSize c - gap;
       (stat, c, e) \<leftarrow> cpu_allocating send mode isHit base requesterId ix wy stat c e;
       Some (if alignment then Some accessSize else None, stat, c, e)
     }"

text \<open>The requests of the directory are answered at once, the others allocate.\<close>

definition cpu_handle ::
  "'e send_hook \<Rightarrow> CoherenceCommand \<Rightarrow> bool \<Rightarrow> u64 \<Rightarrow> u64 \<Rightarrow> u64 \<Rightarrow> u32 \<Rightarrow> idx_t \<Rightarrow> idx_t \<Rightarrow> nat option \<Rightarrow> nat \<Rightarrow> nat \<Rightarrow>
   cache \<Rightarrow> 'e \<Rightarrow> (u64 option \<times> tlm_response_status \<times> cache \<times> 'e) option" where
  "cpu_handle send mode isHit len addr base tag requesterId initiatorId hdl ix wy c e =
     (case mode of
        ReadBack \<Rightarrow> None
      | FwdGetS \<Rightarrow> do {
          _ \<leftarrow> cassert (initiatorId \<noteq> NULL_IDX);
          _ \<leftarrow> cassert isHit;
          Some (None, TLM_OK_RESPONSE, inc NFwdGetS (upd_line (setState Shared) ix wy c), e)
        }
      | FwdGetM \<Rightarrow> do {
          _ \<leftarrow> cassert (initiatorId \<noteq> NULL_IDX);
          _ \<leftarrow> cassert isHit;
          Some (None, TLM_OK_RESPONSE, inc NFwdGetM (upd_line (setState Invalid) ix wy c), e)
        }
      | PutI \<Rightarrow> do {
          _ \<leftarrow> cassert isHit;
          _ \<leftarrow> cassert (State (the_line c ix wy) = Shared);
          Some (None, TLM_OK_RESPONSE, inc NPutI (upd_line (setState Invalid) ix wy c), e)
        }
      | _ \<Rightarrow> cpu_serve send mode isHit len addr base tag requesterId hdl ix wy c e)"

definition cpu_line ::
  "'e send_hook \<Rightarrow> CoherenceCommand \<Rightarrow> u64 \<Rightarrow> u64 \<Rightarrow> idx_t \<Rightarrow> idx_t \<Rightarrow> nat option \<Rightarrow> cache \<Rightarrow> 'e \<Rightarrow>
   (u64 option \<times> tlm_response_status \<times> cache \<times> 'e) option" where
  "cpu_line send mode len addr requesterId initiatorId hdl c e =
     do {
       let base = addr - addr_offset c addr;
       let tag = addr_tag c addr;
       (isHit, ix, wy, c) \<leftarrow> lookup_line addr c;
       let c = cpu_count mode isHit ix wy c;
       (c, e) \<leftarrow> notify_shared_victim send isHit ix wy c e;
       _ \<leftarrow> cassert (\<not> isHit \<or> Address (the_line c ix wy) \<le> addr \<and>
              addr - Address (the_line c ix wy) < CacheLineSize c);
       cpu_handle send mode isHit len addr base tag requesterId initiatorId hdl ix wy c e
     }"

partial_function (option) accessCpuCache ::
  "'e send_hook \<Rightarrow> CoherenceCommand \<Rightarrow> u64 \<Rightarrow> u64 \<Rightarrow> idx_t \<Rightarrow> idx_t \<Rightarrow> nat option \<Rightarrow> cache \<Rightarrow> 'e \<Rightarrow>
   'e cache_result" where
  "accessCpuCache send mode len addr requesterId initiatorId hdl c e =
     do {
       (more, stat, c, e) \<leftarrow> cpu_line send mode len addr requesterId initiatorId hdl c e;
       case more of
         None \<Rightarrow> Some (stat, c, e)
       | Some n \<Rightarrow> accessCpuCache send mode (len - n) (addr + n) requesterId initiatorId hdl c e
     }"

end
