(* ===== verification/CacheHome.thy ===== *)
theory CacheHome
  imports CacheBase
begin

text \<open>
  The access routine of a coherent home cache
  (\<open>CacheBase::accessCoherentHome\<close>): the last-level cache that keeps the directory of the
  lines held above it and serves \<open>GetS\<close>, \<open>GetM\<close>, \<open>PutS\<close> and \<open>PutM\<close> requests. One definition
  per branch of the routine, in its order: the non-allocating requests of an exclusive home,
  the write-back of the victim, then the four allocating requests. Every assertion of the code
  is a \<open>cassert\<close>. \<open>la\<close> is the address of the line the local pointer designates, read again
  after every message, as the code does.
\<close>

definition ins_sharer :: "u64 \<Rightarrow> idx_t \<Rightarrow> cache \<Rightarrow> cache" where
  "ins_sharer a i c = set_dir a (dState (dir_at c a)) (Owner (dir_at c a)) (insert i (dSharers (dir_at c a))) c"

definition del_sharer :: "u64 \<Rightarrow> idx_t \<Rightarrow> cache \<Rightarrow> cache" where
  "del_sharer a i c = set_dir a (dState (dir_at c a)) (Owner (dir_at c a)) (dSharers (dir_at c a) - {i}) c"

definition set_owner :: "u64 \<Rightarrow> idx_t \<Rightarrow> cache \<Rightarrow> cache" where
  "set_owner a i c = set_dir a (dState (dir_at c a)) i (dSharers (dir_at c a)) c"

definition home_count :: "CoherenceCommand \<Rightarrow> bool \<Rightarrow> nat \<Rightarrow> nat \<Rightarrow> cache \<Rightarrow> cache" where
  "home_count mode isHit ix wy c =
     (if mode = GetS then inc (if isHit then HitCount else MissCount) c
      else if mode = GetM
        then inc (if isHit \<and> State (the_line c ix wy) = Modified then HitCount else MissCount) c
      else c)"

section \<open>An exclusive home that misses\<close>

definition home_excl_GetS_body ::
  "'e send_hook \<Rightarrow> u64 \<Rightarrow> idx_t \<Rightarrow> idx_t \<Rightarrow> cache \<Rightarrow> 'e \<Rightarrow> 'e cache_result" where
  "home_excl_GetS_body send addr req ini c e =
     (case Directory c addr of
        None \<Rightarrow> do {
          (stat, c, e) \<leftarrow> send (ForwardReadData addr (CacheLineSize c) req) c e;
          Some (stat, set_dir addr Shared NULL_IDX {ini} c, e)
        }
      | Some d \<Rightarrow>
          (case dState d of
             Invalid \<Rightarrow> do {
               (stat, c, e) \<leftarrow> send (ForwardReadData addr (CacheLineSize c) req) c e;
               Some (stat, set_dir addr Shared NULL_IDX {ini} c, e)
             }
           | Shared \<Rightarrow> do {
               (stat, c, e) \<leftarrow> send (SendFwdGetS addr (CacheLineSize c) req (dSharers d)) c e;
               Some (stat, ins_sharer addr ini c, e)
             }
           | Modified \<Rightarrow> do {
               (stat, c, e) \<leftarrow>
                 (if Owner d \<noteq> ini then send (SendFwdGetS addr (CacheLineSize c) req {Owner d}) c e
                  else Some (TLM_OK_RESPONSE, c, e));
               Some (stat, set_dir addr Shared NULL_IDX {ini, Owner (dir_at c addr)} c, e)
             }))"

definition home_excl_GetS ::
  "'e send_hook \<Rightarrow> u64 \<Rightarrow> idx_t \<Rightarrow> idx_t \<Rightarrow> cache \<Rightarrow> 'e \<Rightarrow> 'e cache_result" where
  "home_excl_GetS send addr req ini c e =
     do {
       (stat, c, e) \<leftarrow> home_excl_GetS_body send addr req ini c e;
       let d = dir_at c addr;
       _ \<leftarrow> cassert (dState d = Shared);
       _ \<leftarrow> cassert (Owner d = NULL_IDX);
       _ \<leftarrow> cassert (dSharers d \<noteq> {});
       Some (stat, inc NGetS c, e)
     }"

definition home_excl_GetM_body ::
  "'e send_hook \<Rightarrow> u64 \<Rightarrow> idx_t \<Rightarrow> idx_t \<Rightarrow> cache \<Rightarrow> 'e \<Rightarrow> 'e cache_result" where
  "home_excl_GetM_body send addr req ini c e =
     (case Directory c addr of
        None \<Rightarrow> do {
          (stat, c, e) \<leftarrow> send (ForwardReadData addr (CacheLineSize c) req) c e;
          Some (stat, set_dir addr Modified ini {} c, e)
        }
      | Some d \<Rightarrow>
          (case dState d of
             Invalid \<Rightarrow> do {
               (stat, c, e) \<leftarrow> send (ForwardReadData addr (CacheLineSize c) req) c e;
               Some (stat, set_dir addr Modified ini {} c, e)
             }
           | Shared \<Rightarrow> do {
               _ \<leftarrow> cassert (dSharers d \<noteq> {});
               let c = del_sharer addr ini c;
               (stat, c, e) \<leftarrow>
                 (if dSharers (dir_at c addr) \<noteq> {}
                  then send (SendPutI addr (CacheLineSize c) req (dSharers (dir_at c addr))) c e
                  else Some (TLM_OK_RESPONSE, c, e));
               Some (stat, set_dir addr Modified ini {} c, e)
             }
           | Modified \<Rightarrow> do {
               _ \<leftarrow> cassert (Owner d \<noteq> NULL_IDX);
               _ \<leftarrow> cassert (Owner d \<noteq> ini);
               (stat, c, e) \<leftarrow> send (SendFwdGetM addr (CacheLineSize c) req {Owner d}) c e;
               Some (stat, set_owner addr ini c, e)
             }))"

definition home_excl_GetM ::
  "'e send_hook \<Rightarrow> u64 \<Rightarrow> idx_t \<Rightarrow> idx_t \<Rightarrow> cache \<Rightarrow> 'e \<Rightarrow> 'e cache_result" where
  "home_excl_GetM send addr req ini c e =
     do {
       (stat, c, e) \<leftarrow> home_excl_GetM_body send addr req ini c e;
       let d = dir_at c addr;
       _ \<leftarrow> cassert (dState d = Modified);
       _ \<leftarrow> cassert (Owner d = ini);
       _ \<leftarrow> cassert (dSharers d = {});
       Some (stat, inc NGetM c, e)
     }"

section \<open>Allocating requests\<close>

definition home_writeback ::
  "'e send_hook \<Rightarrow> bool \<Rightarrow> idx_t \<Rightarrow> nat \<Rightarrow> nat \<Rightarrow> cache \<Rightarrow> 'e \<Rightarrow> 'e cache_result" where
  "home_writeback send isHit req ix wy c e =
     (if \<not> isHit \<and> State (the_line c ix wy) = Modified \<and> WritePolicy c = WBack
      then send (ForwardWriteData (Address (the_line c ix wy)) (CacheLineSize c) req) (inc WriteBacks c) e
      else Some (TLM_OK_RESPONSE, c, e))"

definition home_PutS ::
  "bool \<Rightarrow> idx_t \<Rightarrow> nat \<Rightarrow> nat \<Rightarrow> tlm_response_status \<Rightarrow> cache \<Rightarrow> 'e \<Rightarrow> 'e cache_result" where
  "home_PutS isHit ini ix wy stat c e =
     do {
       let a = Address (the_line c ix wy);
       _ \<leftarrow> cassert (Directory c a \<noteq> None);
       _ \<leftarrow> cassert (dState (dir_at c a) = Shared);
       _ \<leftarrow> cassert (dSharers (dir_at c a) \<noteq> {});
       _ \<leftarrow> cassert (Owner (dir_at c a) = NULL_IDX);
       _ \<leftarrow> cassert (InclusionOfHigher c \<noteq> Exclusive \<or> \<not> isHit);
       let c = del_sharer a ini c;
       let c = (if dSharers (dir_at c a) = {}
                then (let c = set_dir a Invalid NULL_IDX {} c
                      in if InclusionOfHigher c = Exclusive then upd_line (setState Shared) ix wy c else c)
                else c);
       _ \<leftarrow> cassert (dState (dir_at c a) \<noteq> Modified);
       _ \<leftarrow> cassert (Owner (dir_at c a) = NULL_IDX);
       Some (stat, inc NPutS c, e)
     }"

definition home_PutM ::
  "idx_t \<Rightarrow> nat \<Rightarrow> nat \<Rightarrow> tlm_response_status \<Rightarrow> cache \<Rightarrow> 'e \<Rightarrow> 'e cache_result" where
  "home_PutM ini ix wy stat c e =
     do {
       let c = upd_line (setState Modified) ix wy c;
       let a = Address (the_line c ix wy);
       _ \<leftarrow> cassert (Directory c a \<noteq> None);
       _ \<leftarrow> cassert (dState (dir_at c a) = Modified);
       _ \<leftarrow> cassert (Owner (dir_at c a) \<noteq> NULL_IDX);
       _ \<leftarrow> cassert (dSharers (dir_at c a) = {});
       _ \<leftarrow> cassert (ini = Owner (dir_at c a));
       Some (stat, inc NPutM (set_dir a Invalid NULL_IDX {} c), e)
     }"

text \<open>
  What \<open>GetS\<close> does with a line that is present in an exclusive home: clean it, then give it up.
\<close>

definition home_give_up ::
  "'e send_hook \<Rightarrow> idx_t \<Rightarrow> nat \<Rightarrow> nat \<Rightarrow> tlm_response_status \<Rightarrow> cache \<Rightarrow> 'e \<Rightarrow> 'e cache_result" where
  "home_give_up send req ix wy stat c e =
     do {
       (stat, c, e) \<leftarrow>
         (if State (the_line c ix wy) = Modified
          then send (ForwardWriteData (Address (the_line c ix wy)) (CacheLineSize c) req) c e
          else Some (stat, c, e));
       Some (stat, upd_line (setState Invalid) ix wy c, e)
     }"

definition home_GetS_body ::
  "'e send_hook \<Rightarrow> bool \<Rightarrow> idx_t \<Rightarrow> idx_t \<Rightarrow> nat \<Rightarrow> nat \<Rightarrow> tlm_response_status \<Rightarrow> cache \<Rightarrow> 'e \<Rightarrow> 'e cache_result" where
  "home_GetS_body send isHit req ini ix wy stat c e =
     do {
       let la = (\<lambda>c. Address (the_line c ix wy));
       case Directory c (la c) of
          None \<Rightarrow> do {
            _ \<leftarrow> cassert (\<not> isHit);
            _ \<leftarrow> cassert (InclusionOfHigher c \<noteq> Exclusive);
            (stat, c, e) \<leftarrow> send (ForwardReadData (la c) (CacheLineSize c) req) c e;
            let c = upd_line (setState Shared) ix wy c;
            Some (stat, set_dir (la c) Shared NULL_IDX {ini} c, e)
          }
        | Some d \<Rightarrow>
            (case dState d of
               Invalid \<Rightarrow> do {
                 _ \<leftarrow> cassert (dSharers d = {});
                 _ \<leftarrow> cassert (Owner d = NULL_IDX);
                 (stat, c, e) \<leftarrow>
                   (if \<not> isHit then do {
                      _ \<leftarrow> cassert (InclusionOfHigher c \<noteq> Exclusive);
                      (stat, c, e) \<leftarrow> send (ForwardReadData (la c) (CacheLineSize c) req) c e;
                      Some (stat, upd_line (setState Shared) ix wy c, e)
                    }
                    else if InclusionOfHigher c = Exclusive then home_give_up send req ix wy stat c e
                    else Some (stat, c, e));
                 Some (stat, set_dir (la c) Shared NULL_IDX {ini} c, e)
               }
             | Shared \<Rightarrow> do {
                 _ \<leftarrow> cassert (Owner d = NULL_IDX);
                 _ \<leftarrow> cassert (dSharers d \<noteq> {});
                 (stat, c, e) \<leftarrow>
                   (if \<not> isHit then do {
                      _ \<leftarrow> cassert (InclusionOfHigher c \<noteq> Exclusive);
                      (stat, c, e) \<leftarrow> send (SendFwdGetS (la c) (CacheLineSize c) req (dSharers d)) c e;
                      Some (stat, upd_line (setState Shared) ix wy c, e)
                    }
                    else if InclusionOfHigher c = Exclusive then home_give_up send req ix wy stat c e
                    else Some (stat, c, e));
                 Some (stat, ins_sharer (la c) ini c, e)
               }
             | Modified \<Rightarrow> do {
                 _ \<leftarrow> cassert (dSharers d = {});
                 _ \<leftarrow> cassert (Owner d \<noteq> NULL_IDX);
                 (stat, c, e) \<leftarrow>
                   (if Owner d \<noteq> ini then send (SendFwdGetS (la c) (CacheLineSize c) req {Owner d}) c e
                    else Some (stat, c, e));
                 let c = set_dir (la c) Shared NULL_IDX {ini, Owner (dir_at c (la c))} c;
                 if InclusionOfHigher c = Exclusive then do {
                   _ \<leftarrow> cassert isHit;
                   (stat, c, e) \<leftarrow> send (ForwardWriteData (la c) (CacheLineSize c) req) c e;
                   Some (stat, upd_line (setState Invalid) ix wy c, e)
                 }
                 else Some (stat, upd_line (setState Modified) ix wy c, e)
               })
     }"

definition home_GetS ::
  "'e send_hook \<Rightarrow> bool \<Rightarrow> idx_t \<Rightarrow> idx_t \<Rightarrow> nat \<Rightarrow> nat \<Rightarrow> tlm_response_status \<Rightarrow> cache \<Rightarrow> 'e \<Rightarrow> 'e cache_result" where
  "home_GetS send isHit req ini ix wy stat c e =
     do {
       (stat, c, e) \<leftarrow> home_GetS_body send isHit req ini ix wy stat c e;
       let c = inc NGetS c;
       let d = dir_at c (Address (the_line c ix wy));
       _ \<leftarrow> cassert (dState d = Shared);
       _ \<leftarrow> cassert (Owner d = NULL_IDX);
       _ \<leftarrow> cassert (dSharers d \<noteq> {});
       Some (stat, c, e)
     }"

text \<open>What \<open>GetM\<close> does with a dirty line that is present in an exclusive home.\<close>

definition home_clean ::
  "'e send_hook \<Rightarrow> idx_t \<Rightarrow> nat \<Rightarrow> nat \<Rightarrow> tlm_response_status \<Rightarrow> cache \<Rightarrow> 'e \<Rightarrow> 'e cache_result" where
  "home_clean send req ix wy stat c e =
     (if InclusionOfHigher c = Exclusive \<and> State (the_line c ix wy) = Modified then do {
        (stat, c, e) \<leftarrow> send (ForwardWriteData (Address (the_line c ix wy)) (CacheLineSize c) req) c e;
        Some (stat, upd_line (setState Invalid) ix wy c, e)
      } else Some (stat, c, e))"

text \<open>The invalidation of the other sharers, after which the requester owns the line.\<close>

definition home_invalidate ::
  "'e send_hook \<Rightarrow> u64 \<Rightarrow> idx_t \<Rightarrow> idx_t \<Rightarrow> nat \<Rightarrow> nat \<Rightarrow> tlm_response_status \<Rightarrow> cache \<Rightarrow> 'e \<Rightarrow> 'e cache_result" where
  "home_invalidate send addr req ini ix wy stat c e =
     do {
       let la = (\<lambda>c. Address (the_line c ix wy));
       let c = del_sharer (la c) ini c;
       (stat, c, e) \<leftarrow>
         (if dSharers (dir_at c (la c)) \<noteq> {}
          then send (SendPutI addr (CacheLineSize c) req (dSharers (dir_at c (la c)))) c e
          else Some (stat, c, e));
       Some (stat, set_dir (la c) Modified ini {} c, e)
     }"

definition home_GetM_body ::
  "'e send_hook \<Rightarrow> bool \<Rightarrow> u64 \<Rightarrow> idx_t \<Rightarrow> idx_t \<Rightarrow> nat \<Rightarrow> nat \<Rightarrow> tlm_response_status \<Rightarrow> cache \<Rightarrow> 'e \<Rightarrow>
   'e cache_result" where
  "home_GetM_body send isHit addr req ini ix wy stat c e =
     do {
       let la = (\<lambda>c. Address (the_line c ix wy));
       case Directory c (la c) of
          None \<Rightarrow> do {
            _ \<leftarrow> cassert (\<not> isHit);
            _ \<leftarrow> cassert (InclusionOfHigher c \<noteq> Exclusive);
            (stat, c, e) \<leftarrow> send (ForwardReadData (la c) (CacheLineSize c) req) c e;
            let c = upd_line (setState Shared) ix wy c;
            Some (stat, set_dir (la c) Modified ini {} c, e)
          }
        | Some d \<Rightarrow>
            (case dState d of
               Invalid \<Rightarrow> do {
                 _ \<leftarrow> cassert (dSharers d = {});
                 _ \<leftarrow> cassert (Owner d = NULL_IDX);
                 (stat, c, e) \<leftarrow>
                   (if \<not> isHit then do {
                      _ \<leftarrow> cassert (InclusionOfHigher c \<noteq> Exclusive);
                      (stat, c, e) \<leftarrow> send (ForwardReadData (la c) (CacheLineSize c) req) c e;
                      Some (stat, upd_line (setState Shared) ix wy c, e)
                    } else home_clean send req ix wy stat c e);
                 Some (stat, set_dir (la c) Modified ini {} c, e)
               }
             | Shared \<Rightarrow> do {
                 _ \<leftarrow> cassert (Owner d = NULL_IDX);
                 _ \<leftarrow> cassert (dSharers d \<noteq> {});
                 (stat, c, e) \<leftarrow>
                   (if \<not> isHit then do {
                      _ \<leftarrow> cassert (InclusionOfHigher c \<noteq> Exclusive);
                      (stat, c, e) \<leftarrow> send (SendFwdGetS (la c) (CacheLineSize c) req (dSharers d)) c e;
                      Some (stat, upd_line (setState Shared) ix wy c, e)
                    } else home_clean send req ix wy stat c e);
                 home_invalidate send addr req ini ix wy stat c e
               }
             | Modified \<Rightarrow> do {
                 _ \<leftarrow> cassert (Owner d \<noteq> NULL_IDX);
                 _ \<leftarrow> cassert (Owner d \<noteq> ini);
                 _ \<leftarrow> cassert (dSharers d = {});
                 (stat, c, e) \<leftarrow> send (SendFwdGetM (la c) (CacheLineSize c) req {Owner d}) c e;
                 let c = set_owner (la c) ini c;
                 Some (stat, (if InclusionOfHigher c = Exclusive then upd_line (setState Invalid) ix wy c else c), e)
               })
     }"

definition home_GetM ::
  "'e send_hook \<Rightarrow> bool \<Rightarrow> u64 \<Rightarrow> idx_t \<Rightarrow> idx_t \<Rightarrow> nat \<Rightarrow> nat \<Rightarrow> tlm_response_status \<Rightarrow> cache \<Rightarrow> 'e \<Rightarrow>
   'e cache_result" where
  "home_GetM send isHit addr req ini ix wy stat c e =
     do {
       (stat, c, e) \<leftarrow> home_GetM_body send isHit addr req ini ix wy stat c e;
       let c = inc NGetM c;
       let d = dir_at c (Address (the_line c ix wy));
       _ \<leftarrow> cassert (dState d = Modified);
       _ \<leftarrow> cassert (Owner d = ini);
       _ \<leftarrow> cassert (dSharers d = {});
       Some (stat, c, e)
     }"

section \<open>The routine\<close>

text \<open>The consistency of a directory entry that the code asserts on its way out.\<close>

definition entry_ok :: "DirectoryEntry \<Rightarrow> bool" where
  "entry_ok d \<longleftrightarrow>
     (dState d = Invalid \<and> Owner d = NULL_IDX \<and> dSharers d = {}) \<or>
     (dState d = Shared \<and> Owner d = NULL_IDX \<and> dSharers d \<noteq> {}) \<or>
     (dState d = Modified \<and> Owner d \<noteq> NULL_IDX \<and> dSharers d = {})"

definition check_directory :: "u64 \<Rightarrow> u64 \<Rightarrow> cache \<Rightarrow> cache option" where
  "check_directory la addr c =
     (if Directory c la = None then Some c
      else do { let c = dir_touch addr c; _ \<leftarrow> cassert (entry_ok (dir_at c addr)); Some c })"

text \<open>The service of a request, once the line has been looked up.\<close>

definition home_dispatch ::
  "'e send_hook \<Rightarrow> CoherenceCommand \<Rightarrow> bool \<Rightarrow> u64 \<Rightarrow> idx_t \<Rightarrow> idx_t \<Rightarrow> nat \<Rightarrow> nat \<Rightarrow> tlm_response_status \<Rightarrow>
   cache \<Rightarrow> 'e \<Rightarrow> 'e cache_result" where
  "home_dispatch send mode isHit addr req ini ix wy stat c e =
     (case mode of
        PutS \<Rightarrow> home_PutS isHit ini ix wy stat c e
      | PutM \<Rightarrow> home_PutM ini ix wy stat c e
      | GetS \<Rightarrow> home_GetS send isHit req ini ix wy stat c e
      | GetM \<Rightarrow> home_GetM send isHit addr req ini ix wy stat c e
      | _ \<Rightarrow> None)"

definition home_serve ::
  "'e send_hook \<Rightarrow> CoherenceCommand \<Rightarrow> bool \<Rightarrow> u64 \<Rightarrow> u32 \<Rightarrow> idx_t \<Rightarrow> idx_t \<Rightarrow> nat option \<Rightarrow> nat \<Rightarrow> nat \<Rightarrow>
   cache \<Rightarrow> 'e \<Rightarrow> 'e cache_result" where
  "home_serve send mode isHit addr tag req ini hdl ix wy c e =
     (if InclusionOfHigher c = Exclusive \<and> \<not> isHit \<and> mode = GetS then home_excl_GetS send addr req ini c e
      else if InclusionOfHigher c = Exclusive \<and> \<not> isHit \<and> mode = GetM then home_excl_GetM send addr req ini c e
      else do {
        (stat, c, e) \<leftarrow> home_writeback send isHit req ix wy c e;
        let c = prepare_line isHit addr tag hdl ix wy c;
        _ \<leftarrow> cassert (addr = Address (the_line c ix wy));
        (stat, c, e) \<leftarrow> home_dispatch send mode isHit addr req ini ix wy stat c e;
        c \<leftarrow> check_directory (Address (the_line c ix wy)) addr c;
        Some (stat, c, e)
      })"

definition accessCoherentHome ::
  "'e send_hook \<Rightarrow> CoherenceCommand \<Rightarrow> u64 \<Rightarrow> u64 \<Rightarrow> idx_t \<Rightarrow> idx_t \<Rightarrow> nat option \<Rightarrow> cache \<Rightarrow> 'e \<Rightarrow>
   'e cache_result" where
  "accessCoherentHome send mode len addr req ini hdl c e =
     do {
       let tag = addr_tag c addr;
       (isHit, ix, wy, c) \<leftarrow> lookup_line addr c;
       _ \<leftarrow> cassert (ini \<noteq> NULL_IDX);
       _ \<leftarrow> cassert (addr_offset c addr = 0);
       _ \<leftarrow> cassert (len = CacheLineSize c);
       _ \<leftarrow> cassert (\<not> isHit \<or> Address (the_line c ix wy) \<le> addr \<and>
              addr - Address (the_line c ix wy) < CacheLineSize c);
       _ \<leftarrow> cassert (\<not> isHit \<or> addr = Address (the_line c ix wy));
       _ \<leftarrow> cassert (\<not> (isHit \<and> State (the_line c ix wy) = Modified \<and> dState (dir_at c addr) = Modified));
       let c = home_count mode isHit ix wy c;
       (c, e) \<leftarrow> notify_shared_victim send isHit ix wy c e;
       home_serve send mode isHit addr tag req ini hdl ix wy c e
     }"

end
