(* ===== verification/HomeProtocol.thy ===== *)
theory HomeProtocol
  imports CacheHome
begin

text \<open>
  The directory protocol that a home cache implements, and the proof that
  \<open>accessCoherentHome\<close> follows it. The protocol is a table: for each request, from the
  state in which the home holds the line and from the directory entry, it gives the messages to
  send, the state in which the home then holds the line and the new directory entry.
  The environment is an arbitrary one that leaves the home alone while it is being called
  (the locale \<open>quiet\<close>).
\<close>

section \<open>The protocol\<close>

definition entry :: "CoherenceState \<Rightarrow> idx_t \<Rightarrow> idx_t set \<Rightarrow> DirectoryEntry" where
  "entry st ow sh = \<lparr>dState = st, Owner = ow, dSharers = sh\<rparr>"

text \<open>The caches that hold a line according to its directory entry.\<close>

definition holders :: "DirectoryEntry option \<Rightarrow> idx_t set" where
  "holders d =
     (case d of None \<Rightarrow> {}
      | Some d \<Rightarrow> (case dState d of Invalid \<Rightarrow> {} | Shared \<Rightarrow> dSharers d | Modified \<Rightarrow> {Owner d}))"

fun dir_next :: "CoherenceCommand \<Rightarrow> idx_t \<Rightarrow> DirectoryEntry option \<Rightarrow> DirectoryEntry" where
  "dir_next GetS ini d = entry Shared NULL_IDX (insert ini (holders d))"
| "dir_next GetM ini d = entry Modified ini {}"
| "dir_next PutS ini d =
     (if holders d - {ini} = {} then entry Invalid NULL_IDX {} else entry Shared NULL_IDX (holders d - {ini}))"
| "dir_next _ ini d = entry Invalid NULL_IDX {}"

definition owned :: "DirectoryEntry option \<Rightarrow> bool" where
  "owned d \<longleftrightarrow> (case d of None \<Rightarrow> False | Some d \<Rightarrow> dState d = Modified)"

definition shared :: "DirectoryEntry option \<Rightarrow> bool" where
  "shared d \<longleftrightarrow> (case d of None \<Rightarrow> False | Some d \<Rightarrow> dState d = Shared)"

fun home_line :: "bool \<Rightarrow> CoherenceCommand \<Rightarrow> idx_t \<Rightarrow> CoherenceState \<Rightarrow> DirectoryEntry option \<Rightarrow> CoherenceState" where
  "home_line ex GetS ini st d =
     (if ex then Invalid else if owned d then Modified else if st = Invalid then Shared else st)"
| "home_line ex GetM ini st d =
     (if ex then (if \<not> owned d \<and> st = Shared then Shared else Invalid)
      else if owned d then st else if st = Invalid then Shared else st)"
| "home_line ex PutS ini st d = (if ex \<and> holders d - {ini} = {} then Shared else st)"
| "home_line ex _ ini st d = Modified"

definition clean_msgs :: "bool \<Rightarrow> CoherenceState \<Rightarrow> u64 \<Rightarrow> u64 \<Rightarrow> idx_t \<Rightarrow> cache_msg list" where
  "clean_msgs ex st a n req = (if ex \<and> st = Modified then [ForwardWriteData a n req] else [])"

definition others_msgs :: "(idx_t set \<Rightarrow> cache_msg) \<Rightarrow> idx_t set \<Rightarrow> cache_msg list" where
  "others_msgs f t = (if t = {} then [] else [f t])"

fun home_msgs ::
  "bool \<Rightarrow> CoherenceCommand \<Rightarrow> u64 \<Rightarrow> u64 \<Rightarrow> idx_t \<Rightarrow> idx_t \<Rightarrow> CoherenceState \<Rightarrow> DirectoryEntry option \<Rightarrow>
   cache_msg list" where
  "home_msgs ex GetS a n req ini st d =
     (if owned d then others_msgs (SendFwdGetS a n req) (holders d - {ini}) @
        (if ex \<and> st \<noteq> Invalid then [ForwardWriteData a n req] else [])
      else if st \<noteq> Invalid then clean_msgs ex st a n req
      else if shared d then [SendFwdGetS a n req (holders d)] else [ForwardReadData a n req])"
| "home_msgs ex GetM a n req ini st d =
     (if owned d then [SendFwdGetM a n req (holders d)]
      else (if st \<noteq> Invalid then clean_msgs ex st a n req
            else if \<not> shared d then [ForwardReadData a n req]
            else if ex then [] else [SendFwdGetS a n req (holders d)]) @
           (if shared d then others_msgs (SendPutI a n req) (holders d - {ini}) else []))"
| "home_msgs ex _ a n req ini st d = []"

text \<open>
  The outcome of serving a request for the line \<open>a\<close>, without the eviction that may precede it.
\<close>

definition home_post ::
  "u64 \<Rightarrow> CoherenceCommand \<Rightarrow> u64 \<Rightarrow> idx_t \<Rightarrow> cache \<Rightarrow> cache \<Rightarrow> bool" where
  "home_post k mode a ini c c' \<longleftrightarrow> wf_cache k c' \<and> config c' = config c \<and> Sharers c' = Sharers c \<and>
     line_state c' =
       (line_state c)(a := home_line (InclusionOfHigher c = Exclusive) mode ini (line_state c a) (Directory c a)) \<and>
     Directory c' = (Directory c)(a \<mapsto> dir_next mode ini (Directory c a))"

definition the_msgs :: "CoherenceCommand \<Rightarrow> u64 \<Rightarrow> idx_t \<Rightarrow> idx_t \<Rightarrow> cache \<Rightarrow> cache_msg list" where
  "the_msgs mode a req ini c =
     home_msgs (InclusionOfHigher c = Exclusive) mode a (CacheLineSize c) req ini (line_state c a) (Directory c a)"

lemmas home_spec_defs = home_post_def the_msgs_def entry_def holders_def owned_def shared_def
  clean_msgs_def others_msgs_def

section \<open>The handlers follow the protocol\<close>

lemmas home_updates = ins_sharer_def del_sharer_def set_owner_def

lemma home_PutS_spec:
  assumes wf: "wf_cache k c" and a: "at_line k c ix wy a" and hit: "isHit \<longleftrightarrow> line_state c a \<noteq> Invalid"
    and run: "home_PutS isHit ini ix wy stat c e = Some (st, c', e')"
  shows "home_post k PutS a ini c c'" and "e' = e"
proof -
  note [simp] = at_line_address [OF a] set_state_at [OF wf a]
  obtain d where d: "Directory c a = Some d" using run by (auto simp: home_PutS_def Let_def osimps split: if_splits)
  note [simp] = dir_at_Some [OF d] d
  show "home_post k PutS a ini c c'" "e' = e"
    using run wf hit
    by (auto simp: home_PutS_def home_spec_defs home_updates Let_def osimps split: if_splits)
qed

lemma home_PutM_spec:
  assumes wf: "wf_cache k c" and a: "at_line k c ix wy a"
    and run: "home_PutM ini ix wy stat c e = Some (st, c', e')"
  shows "home_post k PutM a ini c c'" and "e' = e"
  using run wf set_state_at [OF wf a, of Modified] at_line_address [OF a]
  by (auto simp: home_PutM_def home_spec_defs Let_def osimps split: if_splits)

lemma home_post_inc [simp]: "home_post k m a ini c (inc n c') = home_post k m a ini c c'"
  by (simp add: home_post_def)

context quiet
begin

lemma give_up_spec:
  assumes wf: "wf_cache k c" and a: "at_line k c ix wy a"
    and run: "home_give_up send req ix wy stat c e = Some (st, c', e')"
  shows "c' = upd_line (setState Invalid) ix wy c \<and>
    runs send (clean_msgs True (line_state c a) a (CacheLineSize c) req) e e'"
  using run at_line_state [OF wf a] at_line_address [OF a]
  by (auto simp: home_give_up_def clean_msgs_def osimps split: if_splits dest!: sent)

lemma clean_spec:
  assumes wf: "wf_cache k c" and a: "at_line k c ix wy a"
    and run: "home_clean send req ix wy stat c e = Some (st, c', e')"
  shows "c' = (if InclusionOfHigher c = Exclusive \<and> line_state c a = Modified
      then upd_line (setState Invalid) ix wy c else c) \<and>
    runs send (clean_msgs (InclusionOfHigher c = Exclusive) (line_state c a) a (CacheLineSize c) req) e e'"
  using run at_line_state [OF wf a] at_line_address [OF a]
  by (auto simp: home_clean_def clean_msgs_def osimps split: if_splits dest!: sent)

lemma home_GetS_spec:
  assumes wf: "wf_cache k c" and a: "at_line k c ix wy a" and hit: "isHit \<longleftrightarrow> line_state c a \<noteq> Invalid"
    and ex: "isHit \<or> InclusionOfHigher c \<noteq> Exclusive"
    and run: "home_GetS_body send isHit req ini ix wy stat c e = Some (st, c', e')"
  shows "home_post k GetS a ini c c' \<and> runs send (the_msgs GetS a req ini c) e e'"
proof -
  note [simp] = at_line_address [OF a] set_state_at [OF wf a]
  note defs = home_GetS_body_def home_spec_defs home_updates
  show ?thesis
  proof (cases "Directory c a")
    case None
    then show ?thesis using run hit ex wf
      by (auto simp: defs Let_def osimps dest!: sent)
  next
    case (Some d)
    note [simp] = dir_at_Some [OF Some] Some
    show ?thesis
    proof (cases "dState d")
      case Modified
      then show ?thesis using run hit ex wf
        by (cases "InclusionOfHigher c = Exclusive"; cases "Owner d = ini")
          (auto simp: defs Let_def osimps dest!: sent)
    next
      case Shared
      then show ?thesis using run hit ex wf
        by (cases isHit; cases "InclusionOfHigher c = Exclusive"; cases "line_state c a")
          (auto simp: defs Let_def osimps fun_upd_idem dest!: sent give_up_spec [OF wf a])
    next
      case Invalid
      then show ?thesis using run hit ex wf
        by (cases isHit; cases "InclusionOfHigher c = Exclusive")
          (auto simp: defs Let_def osimps dest!: sent give_up_spec [OF wf a])
    qed
  qed
qed

lemma invalidate_spec:
  assumes "home_invalidate send a req ini ix wy stat c e = Some (st, c', e')"
    and "Address (the_line c ix wy) = a" "Directory c a = Some d"
  shows "c' = set_dir a Modified ini {} c \<and>
    runs send (others_msgs (SendPutI a (CacheLineSize c) req) (dSharers d - {ini})) e e'"
  using assms dir_at_Some [OF assms(3)]
  by (cases "dSharers d - {ini} = {}")
    (auto simp: home_invalidate_def others_msgs_def home_updates Let_def osimps dest!: sent)

lemma home_GetM_spec:
  assumes wf: "wf_cache k c" and a: "at_line k c ix wy a" and hit: "isHit \<longleftrightarrow> line_state c a \<noteq> Invalid"
    and ex: "isHit \<or> InclusionOfHigher c \<noteq> Exclusive"
    and run: "home_GetM_body send isHit a req ini ix wy stat c e = Some (st, c', e')"
  shows "home_post k GetM a ini c c' \<and> runs send (the_msgs GetM a req ini c) e e'"
proof -
  note [simp] = at_line_address [OF a] set_state_at [OF wf a]
  note defs = home_GetM_body_def home_post_def the_msgs_def entry_def holders_def owned_def
    shared_def clean_msgs_def home_updates
  show ?thesis
  proof (cases "Directory c a")
    case None
    then show ?thesis using run hit ex wf
      by (auto simp: defs Let_def osimps dest!: sent)
  next
    case (Some d)
    note [simp] = dir_at_Some [OF Some] Some
    show ?thesis
    proof (cases "dState d")
      case Modified
      then show ?thesis using run hit ex wf
        by (cases "InclusionOfHigher c = Exclusive") (auto simp: defs Let_def osimps dest!: sent)
    next
      case Shared
      then show ?thesis using run hit ex wf
        by (cases isHit; cases "InclusionOfHigher c = Exclusive"; cases "line_state c a")
          (auto simp: defs Let_def osimps runs_append fun_upd_idem
            dest!: sent clean_spec [OF wf a] invalidate_spec [where a = a and d = d])
    next
      case Invalid
      then show ?thesis using run hit ex wf
        by (cases isHit; cases "line_state c a")
          (auto simp: defs Let_def osimps fun_upd_idem dest!: sent clean_spec [OF wf a])
    qed
  qed
qed

lemma excl_GetS_spec:
  assumes wf: "wf_cache k c" and ex: "InclusionOfHigher c = Exclusive" and miss: "line_state c a = Invalid"
    and run: "home_excl_GetS_body send a req ini c e = Some (st, c', e')"
    and ok: "dState (dir_at c' a) = Shared" "Owner (dir_at c' a) = NULL_IDX"
  shows "home_post k GetS a ini c c' \<and> runs send (the_msgs GetS a req ini c) e e'"
proof -
  note defs = home_excl_GetS_body_def home_spec_defs home_updates
  show ?thesis
  proof (cases "Directory c a")
    case None
    then show ?thesis using run ex miss wf
      by (auto simp: defs osimps fun_upd_idem dest!: sent)
  next
    case (Some d)
    note [simp] = dir_at_Some [OF Some] Some
    show ?thesis using run ex miss wf ok
      by (cases "dState d"; cases "Owner d = ini")
        (auto simp: defs osimps fun_upd_idem split: if_splits dest!: sent)
  qed
qed

lemma excl_GetM_spec:
  assumes wf: "wf_cache k c" and ex: "InclusionOfHigher c = Exclusive" and miss: "line_state c a = Invalid"
    and run: "home_excl_GetM_body send a req ini c e = Some (st, c', e')"
    and ok: "dSharers (dir_at c' a) = {}"
  shows "home_post k GetM a ini c c' \<and> runs send (the_msgs GetM a req ini c) e e'"
proof -
  note defs = home_excl_GetM_body_def home_spec_defs home_updates
  show ?thesis
  proof (cases "Directory c a")
    case None
    then show ?thesis using run ex miss wf
      by (auto simp: defs osimps fun_upd_idem dest!: sent)
  next
    case (Some d)
    note [simp] = dir_at_Some [OF Some] Some
    show ?thesis using run ex miss wf ok
      by (cases "dState d"; cases "dSharers d - {ini} = {}")
        (auto simp: defs osimps Let_def fun_upd_idem split: if_splits dest!: sent)
  qed
qed

lemma dispatch_spec:
  assumes wf: "wf_cache k c" and a: "at_line k c ix wy a" and hit: "isHit \<longleftrightarrow> line_state c a \<noteq> Invalid"
    and ex: "\<not> (InclusionOfHigher c = Exclusive \<and> \<not> isHit \<and> (mode = GetS \<or> mode = GetM))"
    and run: "home_dispatch send mode isHit a req ini ix wy stat c e = Some (st, c', e')"
  shows "home_post k mode a ini c c' \<and> runs send (the_msgs mode a req ini c) e e'"
proof -
  note run_ = run [unfolded home_dispatch_def]
  show ?thesis
  proof (cases mode)
    case PutS
    then show ?thesis using run_ home_PutS_spec [OF wf a hit, of ini stat e st c' e'] by (simp add: the_msgs_def)
  next
    case PutM
    then show ?thesis using run_ home_PutM_spec [OF wf a, of ini stat e st c' e'] by (simp add: the_msgs_def)
  next
    case GetS
    then show ?thesis using run_ ex home_GetS_spec [OF wf a hit]
      by (auto simp: home_GetS_def Let_def osimps)
  next
    case GetM
    then show ?thesis using run_ ex home_GetM_spec [OF wf a hit]
      by (auto simp: home_GetM_def Let_def osimps)
  qed (use run_ in auto)
qed

end

section \<open>Evictions\<close>

text \<open>
  A request that misses takes the frame of a victim \<open>v\<close>. The callback is told of a shared
  victim, a modified one is written back by a write-back cache.
\<close>

definition victim_ok :: "cache \<Rightarrow> u64 \<Rightarrow> u64 option \<Rightarrow> bool" where
  "victim_ok c a v \<longleftrightarrow>
     (case v of None \<Rightarrow> True | Some x \<Rightarrow> x \<noteq> a \<and> line_state c a = Invalid \<and> line_state c x \<noteq> Invalid)"

definition notify_msgs :: "cache \<Rightarrow> u64 option \<Rightarrow> nat option \<Rightarrow> cache_msg list" where
  "notify_msgs c v h =
     (case v of None \<Rightarrow> []
      | Some x \<Rightarrow> if line_state c x = Shared \<and> NotifyEvictions c then [NotifyEviction h] else [])"

definition writeback_msgs :: "cache \<Rightarrow> idx_t \<Rightarrow> u64 option \<Rightarrow> cache_msg list" where
  "writeback_msgs c req v =
     (case v of None \<Rightarrow> []
      | Some x \<Rightarrow> if line_state c x = Modified \<and> WritePolicy c = WBack
                 then [ForwardWriteData x (CacheLineSize c) req] else [])"

definition drop_victim :: "u64 option \<Rightarrow> (u64 \<Rightarrow> CoherenceState) \<Rightarrow> u64 \<Rightarrow> CoherenceState" where
  "drop_victim v ls = (case v of None \<Rightarrow> ls | Some x \<Rightarrow> ls(x := Invalid))"

text \<open>An exclusive home does not keep the lines that \<open>GetS\<close> and \<open>GetM\<close> fetch for the caches above.\<close>

definition home_allocates :: "cache \<Rightarrow> CoherenceCommand \<Rightarrow> u64 \<Rightarrow> bool" where
  "home_allocates c mode a \<longleftrightarrow>
     \<not> (InclusionOfHigher c = Exclusive \<and> line_state c a = Invalid \<and> (mode = GetS \<or> mode = GetM))"

text \<open>The complete effect of one request on the home and the messages it sends meanwhile.\<close>

definition home_step ::
  "u64 \<Rightarrow> CoherenceCommand \<Rightarrow> u64 \<Rightarrow> idx_t \<Rightarrow> u64 option \<Rightarrow> cache \<Rightarrow> cache \<Rightarrow> bool" where
  "home_step k mode a ini v c c' \<longleftrightarrow> wf_cache k c' \<and> config c' = config c \<and> victim_ok c a v \<and>
     line_state c' =
       (drop_victim (if home_allocates c mode a then v else None) (line_state c))
         (a := home_line (InclusionOfHigher c = Exclusive) mode ini (line_state c a) (Directory c a)) \<and>
     Directory c' = (Directory c)(a \<mapsto> dir_next mode ini (Directory c a))"

definition home_trace ::
  "CoherenceCommand \<Rightarrow> u64 \<Rightarrow> idx_t \<Rightarrow> idx_t \<Rightarrow> u64 option \<Rightarrow> nat option \<Rightarrow> cache \<Rightarrow> cache_msg list" where
  "home_trace mode a req ini v h c =
     notify_msgs c v h @ (if home_allocates c mode a then writeback_msgs c req v else []) @
     the_msgs mode a req ini c"

lemma home_count_simps [simp]:
  "wf_cache k (home_count m h ix wy c) = wf_cache k c" "config (home_count m h ix wy c) = config c"
  "line_state (home_count m h ix wy c) = line_state c" "the_line (home_count m h ix wy c) = the_line c"
  "Directory (home_count m h ix wy c) = Directory c" "Sharers (home_count m h ix wy c) = Sharers c"
  "at_line k (home_count m h ix wy c) i w a = at_line k c i w a" "ways (home_count m h ix wy c) = ways c"
  "tag_free (home_count m h ix wy c) i w t = tag_free c i w t"
  by (simp_all add: home_count_def)

definition frame_victim :: "bool \<Rightarrow> nat \<Rightarrow> nat \<Rightarrow> cache \<Rightarrow> u64 option" where
  "frame_victim isHit ix wy c =
     (if isHit \<or> State (the_line c ix wy) = Invalid then None else Some (Address (the_line c ix wy)))"

lemma frame_victim_ok:
  assumes wf: "wf_cache k c" and "ix < length (CacheLines c)" "wy < ways c ix"
    and "isHit \<longleftrightarrow> line_state c a \<noteq> Invalid"
  shows "victim_ok c a (frame_victim isHit ix wy c)"
    and "frame_victim isHit ix wy c = Some x \<Longrightarrow> line_state c x = State (the_line c ix wy)"
proof -
  have st: "line_state c (Address (the_line c ix wy)) = State (the_line c ix wy)"
    if "State (the_line c ix wy) \<noteq> Invalid"
    using line_state_cases [OF wf] that assms(2,3) by metis
  then show "victim_ok c a (frame_victim isHit ix wy c)"
    using assms(4) by (auto simp: victim_ok_def frame_victim_def)
  show "line_state c x = State (the_line c ix wy)" if "frame_victim isHit ix wy c = Some x"
    using that st by (auto simp: frame_victim_def split: if_splits)
qed

context quiet
begin

lemma home_notify:
  assumes wf: "wf_cache k c" and r: "ix < length (CacheLines c)" "wy < ways c ix"
    and hit: "isHit \<longleftrightarrow> line_state c a \<noteq> Invalid"
    and run: "notify_shared_victim send isHit ix wy c e = Some (c', e')"
  shows "c' = c" "runs send (notify_msgs c (frame_victim isHit ix wy c) (handle (the_line c ix wy))) e e'"
proof -
  show "c' = c" using notify_quiet(1) [OF run] .
  show "runs send (notify_msgs c (frame_victim isHit ix wy c) (handle (the_line c ix wy))) e e'"
    using notify_quiet(2) [OF run] frame_victim_ok(2) [OF wf r hit]
    by (auto simp: notify_msgs_def frame_victim_def split: if_splits option.splits)
qed

lemma home_writeback_spec:
  assumes wf: "wf_cache k c" and r: "ix < length (CacheLines c)" "wy < ways c ix"
    and hit: "isHit \<longleftrightarrow> line_state c a \<noteq> Invalid"
    and run: "home_writeback send isHit req ix wy c e = Some (st, c', e')"
  shows "c' = c \<or> c' = inc WriteBacks c"
    and "runs send (writeback_msgs c req (frame_victim isHit ix wy c)) e e'"
  using run frame_victim_ok(2) [OF wf r hit]
  by (auto simp: home_writeback_def writeback_msgs_def frame_victim_def
      split: if_splits option.splits dest!: sent)

end

text \<open>The frame as the lookup leaves it, before the requested line is allocated.\<close>

definition framed :: "u64 \<Rightarrow> cache \<Rightarrow> nat \<Rightarrow> nat \<Rightarrow> u64 \<Rightarrow> bool \<Rightarrow> bool" where
  "framed k c ix wy a isHit \<longleftrightarrow> wf_cache k c \<and> ix = addr_index c a \<and> ix < length (CacheLines c) \<and>
     wy < ways c ix \<and> addr_offset c a = 0 \<and> cacheable k c a \<and> (isHit \<longleftrightarrow> line_state c a \<noteq> Invalid) \<and>
     (isHit \<longrightarrow> at_line k c ix wy a) \<and> (\<not> isHit \<longrightarrow> tag_free c ix wy (addr_tag c a))"

lemma framed_inc [simp]: "framed k (inc n c) ix wy a h = framed k c ix wy a h"
  by (simp add: framed_def)

lemma framed_count [simp]: "framed k (home_count m b i w c) ix wy a h = framed k c ix wy a h"
  by (simp add: home_count_def)

lemma lookup_framed:
  assumes "wf_cache k c" "cacheable k c addr" "lookup_line addr c = Some (isHit, ix, wy, c')"
    and "addr_offset c addr = 0"
  shows "framed k c' ix wy addr isHit"
  using lookup_frame [OF assms(1-3)] line_base_aligned [OF assms(4)] assms
    configD [OF lookup_frame(4) [OF assms(1-3)]] by (auto simp: framed_def)

lemma prepare_framed:
  assumes f: "framed k c ix wy a isHit" and al: "AllocPolicy c = WAllocate"
  shows "wf_cache k (prepare_line isHit a (addr_tag c a) hdl ix wy c)"
    and "at_line k (prepare_line isHit a (addr_tag c a) hdl ix wy c) ix wy a"
    and "line_state (prepare_line isHit a (addr_tag c a) hdl ix wy c) =
      drop_victim (frame_victim isHit ix wy c) (line_state c)"
proof -
  have fs: "wf_cache k c" "ix = addr_index c a" "wy < ways c (addr_index c a)" "addr_offset c a = 0"
    "cacheable k c a" "isHit \<Longrightarrow> at_line k c ix wy a" "\<not> isHit \<Longrightarrow> tag_free c (addr_index c a) wy (addr_tag c a)"
    using f by (auto simp: framed_def)
  note pm = prepare_miss [OF fs(1) al fs(3-5) fs(7), where h = hdl]
  show "wf_cache k (prepare_line isHit a (addr_tag c a) hdl ix wy c)"
    "at_line k (prepare_line isHit a (addr_tag c a) hdl ix wy c) ix wy a"
    "line_state (prepare_line isHit a (addr_tag c a) hdl ix wy c) =
      drop_victim (frame_victim isHit ix wy c) (line_state c)"
    using fs(1,6) pm unfolding fs(2) by (cases isHit; auto simp: frame_victim_def drop_victim_def)+
qed

lemma check_directory_id:
  "check_directory la a c = Some c' \<Longrightarrow> Directory c a = Some d \<Longrightarrow> c' = c \<and> (Directory c la \<noteq> None \<longrightarrow> entry_ok d)"
  by (auto simp: check_directory_def dir_at_def Let_def osimps split: if_splits)

context quiet
begin

lemma serve_spec:
  fixes isHit ix wy and c :: cache
  defines "v \<equiv> frame_victim isHit ix wy c"
  assumes f: "framed k c ix wy a isHit" and al: "AllocPolicy c = WAllocate"
    and run: "home_serve send mode isHit a (addr_tag c a) req ini hdl ix wy c e = Some (st, c', e')"
  shows "home_step k mode a ini v c c' \<and>
    runs send ((if home_allocates c mode a then writeback_msgs c req v else []) @ the_msgs mode a req ini c) e e'"
proof -
  have fr: "wf_cache k c" "ix < length (CacheLines c)" "wy < ways c ix" "isHit \<longleftrightarrow> line_state c a \<noteq> Invalid"
    using f by (auto simp: framed_def)
  note vok = frame_victim_ok(1) [OF fr, folded v_def]
  show ?thesis
  proof (cases "home_allocates c mode a")
    case False
    then have ex: "InclusionOfHigher c = Exclusive" "line_state c a = Invalid" "\<not> isHit" "mode = GetS \<or> mode = GetM"
      using fr(4) by (auto simp: home_allocates_def)
    have "home_post k mode a ini c c' \<and> runs send (the_msgs mode a req ini c) e e'"
      using run ex excl_GetS_spec [OF fr(1) ex(1,2)] excl_GetM_spec [OF fr(1) ex(1,2)]
      by (auto simp: home_serve_def home_excl_GetS_def home_excl_GetM_def Let_def osimps)
    then show ?thesis using False vok by (simp add: home_post_def home_step_def drop_victim_def)
  next
    case True
    then have nx: "\<not> (InclusionOfHigher c = Exclusive \<and> \<not> isHit \<and> (mode = GetS \<or> mode = GetM))"
      using fr(4) by (auto simp: home_allocates_def)
    then obtain s1 c1 e1 s2 c2 where wb: "home_writeback send isHit req ix wy c e = Some (s1, c1, e1)"
      and d: "home_dispatch send mode isHit a req ini ix wy s1 (prepare_line isHit a (addr_tag c a) hdl ix wy c1) e1
        = Some (s2, c2, e')"
      and ck: "check_directory (Address (the_line c2 ix wy)) a c2 = Some c'"
      using run by (auto simp: home_serve_def Let_def osimps)
    have c1: "c1 = c \<or> c1 = inc WriteBacks c" and r1: "runs send (writeback_msgs c req v) e e1"
      using home_writeback_spec [OF fr wb] by (simp_all add: v_def)
    define c0 where "c0 = prepare_line isHit a (addr_tag c a) hdl ix wy c1"
    have f1: "framed k c1 ix wy a isHit" "AllocPolicy c1 = WAllocate" "addr_tag c1 a = addr_tag c a"
      "frame_victim isHit ix wy c1 = v" "line_state c1 = line_state c" "config c1 = config c" "Directory c1 = Directory c"
      using c1 f al by (auto simp: frame_victim_def v_def)
    note p = prepare_framed [OF f1(1,2), of hdl, unfolded f1(3-5), folded c0_def]
    have c0: "config c0 = config c" "Directory c0 = Directory c" "line_state c0 a = line_state c a"
      using f1(6,7) p(3) vok by (auto simp: c0_def drop_victim_def victim_ok_def split: option.splits)
    have "home_post k mode a ini c0 c2 \<and> runs send (the_msgs mode a req ini c0) e1 e'"
      by (rule dispatch_spec [OF p(1,2)]) (use nx d c0 fr(4) configD [OF c0(1)] in \<open>auto simp: c0_def\<close>)
    moreover have "the_msgs mode a req ini c0 = the_msgs mode a req ini c"
      using c0 configD [OF c0(1)] by (simp add: the_msgs_def)
    ultimately show ?thesis
      using True vok check_directory_id [OF ck] r1 p(3) c0 configD [OF c0(1)]
      by (auto simp: home_post_def home_step_def runs_append)
  qed
qed

lemma home_run:
  assumes wf: "wf_cache k c" and a: "cacheable k c addr" and al: "AllocPolicy c = WAllocate"
    and run: "accessCoherentHome send mode len addr req ini hdl c e = Some (st, c', e')"
  obtains v h where "home_step k mode addr ini v c c'" "runs send (home_trace mode addr req ini v h c) e e'"
proof -
  from run obtain isHit ix wy c1 where lk: "lookup_line addr c = Some (isHit, ix, wy, c1)"
    by (auto simp: accessCoherentHome_def Let_def osimps)
  have cf1: "config c1 = config c" using lookup_frame(4) [OF wf a lk] .
  define c2 where "c2 = home_count mode isHit ix wy c1"
  from run lk obtain e1 c3 where off: "addr_offset c1 addr = 0"
    and nt: "notify_shared_victim send isHit ix wy c2 e = Some (c3, e1)"
    and rest: "home_serve send mode isHit addr (addr_tag c1 addr) req ini hdl ix wy c3 e1 = Some (st, c', e')"
    unfolding c2_def configD(3) [OF cf1] by (auto simp: accessCoherentHome_def Let_def osimps)
  have f: "framed k c2 ix wy addr isHit"
    using lookup_framed [OF wf a lk] off configD(1) [OF cf1] by (simp add: c2_def)
  have same: "line_state c2 = line_state c" "Directory c2 = Directory c" "config c2 = config c"
    "addr_tag c2 = addr_tag c1" "AllocPolicy c2 = WAllocate"
    using lookup_frame [OF wf a lk] configD [OF cf1] configD [of c2 c1] al by (simp_all add: c2_def)
  define v where "v = frame_victim isHit ix wy c2"
  define h where "h = handle (the_line c2 ix wy)"
  have fr: "wf_cache k c2" "ix < length (CacheLines c2)" "wy < ways c2 ix" "isHit \<longleftrightarrow> line_state c2 addr \<noteq> Invalid"
    using f by (auto simp: framed_def)
  have [simp]: "c3 = c2" and tr1: "runs send (notify_msgs c2 v h) e e1"
    using home_notify [OF fr nt] by (simp_all add: v_def h_def)
  have step: "home_step k mode addr ini v c2 c'"
    and tr2: "runs send ((if home_allocates c2 mode addr then writeback_msgs c2 req v else []) @
      the_msgs mode addr req ini c2) e1 e'"
    using serve_spec [OF f same(5)] rest unfolding v_def same(4) by simp_all
  note eqs = same(1,2) configD [OF same(3)]
  show thesis
  proof
    show "home_step k mode addr ini v c c'"
      using step same(3) by (simp add: home_step_def victim_ok_def home_allocates_def eqs cong: option.case_cong)
    show "runs send (home_trace mode addr req ini v h c) e e'"
      using tr1 tr2 by (cases v) (auto simp: home_trace_def home_allocates_def notify_msgs_def
          writeback_msgs_def the_msgs_def runs_append eqs)
  qed
qed

end

section \<open>Requests that are served\<close>

text \<open>
  The assertions of the code, collected as a condition on the home and the request: the entry
  is consistent, a line that is present has an entry, the line is not dirty at home while a cache
  above owns it; an owner does not ask for ownership again, only a sharer gives up a
  shared copy and only the owner an owned one.
\<close>

definition home_ready :: "CoherenceCommand \<Rightarrow> idx_t \<Rightarrow> u64 \<Rightarrow> cache \<Rightarrow> bool" where
  "home_ready mode ini a c \<longleftrightarrow>
     (case Directory c a of None \<Rightarrow> line_state c a = Invalid \<and> (mode = GetS \<or> mode = GetM)
      | Some d \<Rightarrow> entry_ok d \<and> \<not> (line_state c a = Modified \<and> dState d = Modified) \<and>
          (case mode of GetS \<Rightarrow> True
           | GetM \<Rightarrow> \<not> (dState d = Modified \<and> Owner d = ini)
           | PutS \<Rightarrow> dState d = Shared \<and> (InclusionOfHigher c = Exclusive \<longrightarrow> line_state c a = Invalid)
           | PutM \<Rightarrow> dState d = Modified \<and> Owner d = ini
           | _ \<Rightarrow> False))"

lemma home_ready_cong:
  assumes "Directory c' a = Directory c a" "line_state c' a = line_state c a"
    "InclusionOfHigher c' = InclusionOfHigher c"
  shows "home_ready mode ini a c' = home_ready mode ini a c"
  unfolding home_ready_def assms ..

lemma dir_next_ok: "ini \<noteq> NULL_IDX \<Longrightarrow> entry_ok (dir_next mode ini d)"
  by (cases mode) (auto simp: entry_ok_def entry_def)

context responsive
begin

lemma send_function: obtains f g where "\<And>m c e. send m c e = Some (f m c e, c, g m c e)"
proof -
  have "\<forall>x. \<exists>y. send (fst x) (fst (snd x)) (snd (snd x)) = Some (fst y, fst (snd x), snd y)"
    using answers by auto
  then obtain h where "\<And>x. send (fst x) (fst (snd x)) (snd (snd x)) = Some (fst (h x), fst (snd x), snd (h x))"
    by metis
  from this [of "(m, c, e)" for m c e] show thesis
    by (intro that [of "\<lambda>m c e. fst (h (m, c, e))" "\<lambda>m c e. snd (h (m, c, e))"]) simp
qed

lemma dispatch_total:
  assumes a: "Address (the_line c ix wy) = a" and hit: "isHit \<longleftrightarrow> line_state c a \<noteq> Invalid"
    and ready: "home_ready mode ini a c" and ini: "ini \<noteq> NULL_IDX"
    and ex: "\<not> (InclusionOfHigher c = Exclusive \<and> \<not> isHit \<and> (mode = GetS \<or> mode = GetM))"
  shows "\<exists>r. home_dispatch send mode isHit a req ini ix wy stat c e = Some r"
proof -
  obtain f g where [simp]: "\<And>m c e. send m c e = Some (f m c e, c, g m c e)" using send_function by blast
  note [simp] = a
  show ?thesis
  proof (cases "Directory c a")
    case None
    then have m: "line_state c a = Invalid" "mode = GetS \<or> mode = GetM" using ready by (auto simp: home_ready_def)
    then show ?thesis using None hit ex ini
      by (auto simp: home_dispatch_def home_GetS_def home_GetS_body_def home_GetM_def home_GetM_body_def Let_def)
  next
    case (Some d)
    note [simp] = Some dir_at_Some [OF Some]
    note defs = home_dispatch_def home_ready_def entry_ok_def home_updates Let_def
    show ?thesis
    proof (cases mode)
      case GetS
      then show ?thesis using ready hit ex ini
        by (cases "dState d")
          (auto simp: defs home_GetS_def home_GetS_body_def home_give_up_def)
    next
      case GetM
      then show ?thesis using ready hit ex ini
        by (cases "dState d")
          (auto simp: defs home_GetM_def home_GetM_body_def home_clean_def home_invalidate_def)
    next
      case PutS
      then show ?thesis using ready hit ini by (auto simp: defs home_PutS_def)
    next
      case PutM
      then show ?thesis using ready hit ini by (auto simp: defs home_PutM_def)
    qed (use ready in \<open>auto simp: home_ready_def\<close>)
  qed
qed

lemma serve_total:
  assumes f: "framed k c ix wy a isHit" and al: "AllocPolicy c = WAllocate"
    and ready: "home_ready mode ini a c" and ini: "ini \<noteq> NULL_IDX"
  shows "\<exists>r. home_serve send mode isHit a (addr_tag c a) req ini hdl ix wy c e = Some r"
proof -
  obtain f g where send [simp]: "\<And>m c e. send m c e = Some (f m c e, c, g m c e)" using send_function by blast
  have fr: "wf_cache k c" "ix < length (CacheLines c)" "wy < ways c ix" and hit: "isHit \<longleftrightarrow> line_state c a \<noteq> Invalid"
    using f by (auto simp: framed_def)
  show ?thesis
  proof (cases "InclusionOfHigher c = Exclusive \<and> \<not> isHit \<and> (mode = GetS \<or> mode = GetM)")
    case True
    then show ?thesis using ready hit ini
      by (cases "Directory c a"; cases "dState (dir_at c a)")
        (auto simp: home_serve_def home_excl_GetS_def home_excl_GetS_body_def home_excl_GetM_def
          home_excl_GetM_body_def home_ready_def entry_ok_def home_updates Let_def dir_at_def)
  next
    case False
    have "\<exists>r. home_writeback send isHit req ix wy c e = Some r" by (simp add: home_writeback_def)
    then obtain s1 c1 e1 where wb: "home_writeback send isHit req ix wy c e = Some (s1, c1, e1)"
      by (metis prod_cases3)
    have c1: "c1 = c \<or> c1 = inc WriteBacks c" using home_writeback_spec(1) [OF fr hit wb] .
    define c0 where "c0 = prepare_line isHit a (addr_tag c a) hdl ix wy c1"
    have f1: "framed k c1 ix wy a isHit" "AllocPolicy c1 = WAllocate" "addr_tag c1 a = addr_tag c a"
      "frame_victim isHit ix wy c1 = frame_victim isHit ix wy c" "line_state c1 = line_state c"
      "config c1 = config c" "Directory c1 = Directory c"
      using c1 f al by (auto simp: frame_victim_def)
    note p = prepare_framed [OF f1(1,2), of hdl, unfolded f1(3-5), folded c0_def]
    have c0: "config c0 = config c" "Directory c0 = Directory c" "line_state c0 a = line_state c a"
      using f1(6,7) p(3) frame_victim_ok(1) [OF fr hit]
      by (auto simp: c0_def drop_victim_def victim_ok_def split: option.splits)
    have h0: "isHit \<longleftrightarrow> line_state c0 a \<noteq> Invalid" "home_ready mode ini a c0"
      "\<not> (InclusionOfHigher c0 = Exclusive \<and> \<not> isHit \<and> (mode = GetS \<or> mode = GetM))"
      using hit c0 ready False configD [OF c0(1)] home_ready_cong [of c0 a c] by simp_all
    obtain s2 c2 e2 where d: "home_dispatch send mode isHit a req ini ix wy s1 c0 e1 = Some (s2, c2, e2)"
      using dispatch_total [OF at_line_address [OF p(2)] h0(1,2) ini h0(3)] by (metis prod_cases3)
    have "Directory c2 a = Some (dir_next mode ini (Directory c0 a))"
      using dispatch_spec [OF p(1,2) h0(1,3) d] by (simp add: home_post_def)
    then have "check_directory x a c2 = Some c2" for x
      using dir_next_ok [OF ini] by (simp add: check_directory_def dir_at_def Let_def)
    then show ?thesis
      using False wb d at_line_address [OF p(2)] by (auto simp: home_serve_def c0_def)
  qed
qed

lemma home_total:
  assumes wf: "wf_cache k c" and a: "cacheable k c addr" "addr_offset c addr = 0"
    and al: "AllocPolicy c = WAllocate" and ini: "ini \<noteq> NULL_IDX" and ready: "home_ready mode ini addr c"
  shows "\<exists>st c' e'. accessCoherentHome send mode (CacheLineSize c) addr req ini hdl c e = Some (st, c', e')"
proof -
  obtain isHit ix wy c1 where lk: "lookup_line addr c = Some (isHit, ix, wy, c1)"
    using lookup_line_ok [OF wf a(1)] by metis
  note l = lookup_frame [OF wf a(1) lk, unfolded line_base_aligned [OF a(2)]]
  note cf = configD [OF l(4)]
  have f: "framed k (home_count mode isHit ix wy c1) ix wy addr isHit"
    using lookup_framed [OF wf a(1) lk a(2)] by simp
  have r: "home_ready mode ini addr (home_count mode isHit ix wy c1)"
    using ready l(3-5) configD(9) [of "home_count mode isHit ix wy c1" c]
      home_ready_cong [of "home_count mode isHit ix wy c1" addr c] by simp
  have hit: "Address (the_line c1 ix wy) = addr \<and> State (the_line c1 ix wy) = line_state c addr" if isHit
    using l(11) [OF that] at_line_state [OF l(2)] l(3) at_line_address by metis
  have clash: "\<not> (isHit \<and> line_state c addr = Modified \<and> dState (dir_at c1 addr) = Modified)"
    using ready l(1,5) by (auto simp: home_ready_def dir_at_def split: option.splits)
  obtain e1 where n: "notify_shared_victim send isHit ix wy (home_count mode isHit ix wy c1) e =
      Some (home_count mode isHit ix wy c1, e1)"
    using notify_total by blast
  have "AllocPolicy (home_count mode isHit ix wy c1) = WAllocate" "addr_tag (home_count mode isHit ix wy c1) = addr_tag c"
    using al cf by (simp_all add: home_count_def)
  then obtain st c' e' where "home_serve send mode isHit addr (addr_tag c addr) req ini hdl ix wy
      (home_count mode isHit ix wy c1) e1 = Some (st, c', e')"
    using serve_total [OF f _ r ini] by (metis prod_cases3)
  moreover have "0 < CacheLineSize c" using offset_less [OF wf_cacheD(1) [OF wf], of 0] by (rule le_less_trans [rotated]) simp
  ultimately show ?thesis
    using lk n ini a(2) hit clash cf by (auto simp: accessCoherentHome_def Let_def)
qed

end

section \<open>Consistency of the directory\<close>

text \<open>Every entry is consistent, and a line that is present has an entry.\<close>

definition home_inv :: "cache \<Rightarrow> bool" where
  "home_inv c \<longleftrightarrow> (\<forall>a d. Directory c a = Some d \<longrightarrow> entry_ok d) \<and>
     (\<forall>a. line_state c a \<noteq> Invalid \<longrightarrow> Directory c a \<noteq> None)"


lemma home_clash:
  assumes wf: "wf_cache k c" and a: "cacheable k c addr"
    and m: "line_state c addr = Modified" "dState (dir_at c addr) = Modified"
  shows "accessCoherentHome send mode len addr req ini hdl c e = None"
proof (cases "lookup_line addr c")
  case None
  then show ?thesis by (simp add: accessCoherentHome_def Let_def)
next
  case (Some r)
  then obtain isHit ix wy c1 where lk: "lookup_line addr c = Some (isHit, ix, wy, c1)" by (metis prod_cases4)
  note l = lookup_frame [OF wf a lk] and o = configD(1) [OF lookup_frame(4) [OF wf a lk]]
  show ?thesis
  proof (cases "addr_offset c addr = 0")
    case False
    then show ?thesis using lk o by (simp add: accessCoherentHome_def Let_def)
  next
    case True
    then have b: "line_base c addr = addr" by (rule line_base_aligned)
    have isHit using l(1) m(1) b by simp
    then have "State (the_line c1 ix wy) = Modified" "Address (the_line c1 ix wy) = addr"
      using at_line_address [OF l(11)] at_line_state [OF l(2,11)] l(3) m(1) b by simp_all
    moreover have "dState (dir_at c1 addr) = Modified" using m(2) l(5) by (simp add: dir_at_def)
    ultimately show ?thesis using \<open>isHit\<close> lk by (simp add: accessCoherentHome_def Let_def)
  qed
qed


lemma one_not_NULL: "(1 :: idx_t) \<noteq> NULL_IDX" and two_not_NULL: "(2 :: idx_t) \<noteq> NULL_IDX"
  by (simp_all add: NULL_IDX_def)

lemma fresh_home:
  obtains c where "wf_cache 0 c" "cacheable 0 c 0" "addr_offset c 0 = 0" "AllocPolicy c = WAllocate"
    "home_inv c" "InclusionOfHigher c = NINE" "CacheLineSize c = 8" "line_state c 0 = Invalid" "Directory c 0 = None"
    "\<And>mode. mode = GetS \<or> mode = GetM \<Longrightarrow> home_ready mode 1 0 c"
proof -
  obtain c where c: "wf_cache 0 c" "line_state c = (\<lambda>_. Invalid)" "Directory c = Map.empty"
    "AllocPolicy c = WAllocate" "InclusionOfHigher c = NINE" "cacheable 0 c 0" "addr_offset c 0 = 0" "CacheLineSize c = 8"
    using fresh_cache [where ident = 9 and inh = NINE and inl = NINE] by metis
  show thesis by (rule that [of c]) (use c in \<open>auto simp: home_inv_def home_ready_def\<close>)
qed

lemma fresh_home_run:
  assumes "mode = GetS \<or> mode = GetM"
  obtains c st c' e' where "wf_cache 0 c" "cacheable 0 c 0" "AllocPolicy c = WAllocate" "home_inv c"
    "accessCoherentHome base_send mode 8 0 1 1 None c [] = Some (st, c', e')"
proof -
  obtain c where c: "wf_cache 0 c" "cacheable 0 c 0" "addr_offset c 0 = 0" "AllocPolicy c = WAllocate"
    "home_inv c" "CacheLineSize c = 8" "home_ready mode 1 0 c"
    by (rule fresh_home) (use assms in blast)
  then show thesis
    using that base_env.home_total [OF c(1-4) one_not_NULL c(7), of 1 None "[]"] by auto
qed

section \<open>Properties\<close>

text \<open>
  C1: A home cache follows the directory protocol. Whatever the surroundings do, as long as
  they do not call the home back while it waits for them, a request that is served updates the
  directory entry, the state of the requested line and at most one victim line exactly as the
  protocol table says, sends exactly the messages of the table, in their order, and keeps the
  cache well-formed.
\<close>
theorem home_follows_protocol:
  assumes "quiet send" "wf_cache k c" "cacheable k c addr" "AllocPolicy c = WAllocate"
    and "accessCoherentHome send mode len addr req ini hdl c e = Some (st, c', e')"
  shows "\<exists>v h. home_step k mode addr ini v c c' \<and> runs send (home_trace mode addr req ini v h c) e e'"
  using quiet.home_run [OF assms] by metis

theorem home_follows_protocol_witness:
  "\<exists>c st c' e' v h. accessCoherentHome base_send GetM 8 0 1 1 None c [] = Some (st, c', e') \<and>
     home_step 0 GetM 0 1 v c c' \<and> e' = home_trace GetM 0 1 1 v h c"
proof -
  obtain c st c' e' where c: "wf_cache 0 c" "cacheable 0 c 0" "AllocPolicy c = WAllocate"
    and r: "accessCoherentHome base_send GetM 8 0 1 1 None c [] = Some (st, c', e')"
    using fresh_home_run [of GetM] by metis
  then show ?thesis
    using home_follows_protocol [OF base_env.quiet_axioms c r] unfolding runs_base append_Nil by blast
qed



text \<open>
  C3: No assertion of the home fails on a legal request: with a consistent entry, an aligned
  full-line request of a known initiator is answered, provided the line is not dirty at home
  while a cache above owns it.
\<close>
theorem home_answers:
  assumes "responsive send" "wf_cache k c" "cacheable k c addr" "addr_offset c addr = 0"
    and "AllocPolicy c = WAllocate" "ini \<noteq> NULL_IDX" "home_ready mode ini addr c"
  shows "\<exists>st c' e'. accessCoherentHome send mode (CacheLineSize c) addr req ini hdl c e = Some (st, c', e')"
  by (rule responsive.home_total [OF assms])

theorem home_answers_witness:
  "\<exists>c st c' e'. accessCoherentHome base_send GetS (CacheLineSize c) 0 1 1 None c [] = Some (st, c', e')"
proof -
  obtain c where c: "wf_cache 0 c" "cacheable 0 c 0" "addr_offset c 0 = 0" "AllocPolicy c = WAllocate"
    and r: "\<And>mode. mode = GetS \<or> mode = GetM \<Longrightarrow> home_ready mode 1 0 c"
    by (rule fresh_home) blast
  show ?thesis
    using home_answers [OF base_env.responsive_axioms c one_not_NULL r, of GetS 1 None "[]"] by blast
qed

text \<open>
  A line that is dirty in a non-exclusive home and then requested for writing is lost:
  the request is served but leaves the line modified both at home and in the directory, and from
  then on every request for that line fails the assertion at the entry of the routine.
\<close>
theorem home_dirty_GetM_blocks:
  assumes "quiet send" "wf_cache k c" "cacheable k c addr" "AllocPolicy c = WAllocate"
    and "InclusionOfHigher c \<noteq> Exclusive" "line_state c addr = Modified"
    and run: "accessCoherentHome send GetM len addr req ini hdl c e = Some (st, c', e')"
  shows "accessCoherentHome send' mode len' addr req' ini' hdl' c' e'' = None"
proof -
  obtain v h where s: "home_step k GetM addr ini v c c'" using quiet.home_run [OF assms(1-4) run] by metis
  have "cacheable k c' addr" using s configD(4) [of c' c k] assms(3) by (simp add: home_step_def)
  then show ?thesis
    by (intro home_clash) (use s assms(5,6) in \<open>auto simp: home_step_def dir_at_def entry_def\<close>)
qed

text \<open>The situation arises from an empty home: cache 1 acquires the line, writes it back, cache 2 acquires it.\<close>

lemma home_base_step:
  assumes c: "wf_cache k c" "cacheable k c a" "addr_offset c a = 0" "AllocPolicy c = WAllocate"
    and r: "ini \<noteq> NULL_IDX" "home_ready mode ini a c"
  obtains st c' e' v where "accessCoherentHome base_send mode (CacheLineSize c) a ini ini None c e = Some (st, c', e')"
    "home_step k mode a ini v c c'" "wf_cache k c'" "cacheable k c' a" "addr_offset c' a = 0"
    "AllocPolicy c' = WAllocate" "InclusionOfHigher c' = InclusionOfHigher c" "CacheLineSize c' = CacheLineSize c"
proof -
  obtain st c' e' where run: "accessCoherentHome base_send mode (CacheLineSize c) a ini ini None c e = Some (st, c', e')"
    using base_env.home_total [OF c r] by blast
  obtain v h where s: "home_step k mode a ini v c c'"
    using base_env.home_run [OF c(1,2,4) run] by metis
  have "config c' = config c" "wf_cache k c'" using s by (simp_all add: home_step_def)
  then show thesis using that run s c configD [of c' c] by auto
qed

theorem home_dirty_GetM_blocks_witness:
  "\<exists>c st c' e'. line_state c 0 = Modified \<and>
     accessCoherentHome base_send GetM 8 0 2 2 None c [] = Some (st, c', e') \<and>
     (\<forall>mode len req ini hdl e. accessCoherentHome base_send mode len 0 req ini hdl c' e = None)"
proof -
  obtain c0 where c0: "wf_cache 0 c0" "cacheable 0 c0 0" "addr_offset c0 0 = 0" "AllocPolicy c0 = WAllocate"
    and i0: "InclusionOfHigher c0 = NINE" "CacheLineSize c0 = 8" "line_state c0 0 = Invalid" "Directory c0 0 = None"
    and r0: "home_ready GetM 1 0 c0" by (rule fresh_home) blast
  obtain st e v c1 where c1: "home_step 0 GetM 0 1 v c0 c1" "wf_cache 0 c1" "cacheable 0 c1 0"
    "addr_offset c1 0 = 0" "AllocPolicy c1 = WAllocate"
    "InclusionOfHigher c1 = InclusionOfHigher c0" "CacheLineSize c1 = CacheLineSize c0"
    by (rule home_base_step [OF c0 one_not_NULL r0]) blast
  have s1: "line_state c1 0 = Shared" "Directory c1 0 = Some (entry Modified 1 {})"
    using c1(1) i0 by (auto simp: home_step_def owned_def)
  then have r1: "home_ready PutM 1 0 c1" by (simp add: home_ready_def entry_def entry_ok_def one_not_NULL)
  obtain v' c2 where c2: "home_step 0 PutM 0 1 v' c1 c2" "wf_cache 0 c2" "cacheable 0 c2 0"
    "addr_offset c2 0 = 0" "AllocPolicy c2 = WAllocate"
    "InclusionOfHigher c2 = InclusionOfHigher c1" "CacheLineSize c2 = CacheLineSize c1"
    by (rule home_base_step [OF c1(2-5) one_not_NULL r1]) blast
  have s2: "line_state c2 0 = Modified" "Directory c2 0 = Some (entry Invalid NULL_IDX {})"
    using c2(1) by (auto simp: home_step_def)
  then have r2: "home_ready GetM 2 0 c2" by (simp add: home_ready_def entry_def entry_ok_def)
  obtain st c3 e where c3: "accessCoherentHome base_send GetM 8 0 2 2 None c2 [] = Some (st, c3, e)"
    using base_env.home_total [OF c2(2-5) two_not_NULL r2, of 2 None "[]"] c2(7) c1(7) i0(2) by auto
  show ?thesis
    using home_dirty_GetM_blocks [OF base_env.quiet_axioms c2(2,3,5) _ s2(1) c3] c3 s2 c2(6) c1(6) i0(1)
    by (metis CacheInclusionPolicy.distinct(3))
qed

end
