(* ===== verification/CpuProtocol.thy ===== *)
theory CpuProtocol
  imports CacheCpu HomeProtocol
begin

text \<open>
  What a coherent first-level cache does with a request, as a table, and the proof that
  \<open>accessCpuCache\<close> follows it: the state in which the cache then holds the line, the
  requests it sends to the home cache, and the eviction before. Requests that span several lines
  are served one line after the other and end.
\<close>

section \<open>The protocol\<close>

fun cpu_next :: "CoherenceCommand \<Rightarrow> CoherenceState \<Rightarrow> CoherenceState" where
  "cpu_next Read st = (if st = Invalid then Shared else st)"
| "cpu_next Write st = Modified"
| "cpu_next FwdGetS st = Shared"
| "cpu_next _ st = Invalid"

fun cpu_request :: "CoherenceCommand \<Rightarrow> u64 \<Rightarrow> u64 \<Rightarrow> idx_t \<Rightarrow> CoherenceState \<Rightarrow> cache_msg list" where
  "cpu_request Read a n req st = (if st = Invalid then [SendGetS a n req] else [])"
| "cpu_request Write a n req st = (if st \<noteq> Modified then [SendGetM a n req] else [])"
| "cpu_request _ a n req st = []"

definition allocating :: "CoherenceCommand \<Rightarrow> bool" where
  "allocating mode \<longleftrightarrow> mode = Read \<or> mode = Write"

definition give_back_msgs :: "cache \<Rightarrow> idx_t \<Rightarrow> u64 option \<Rightarrow> cache_msg list" where
  "give_back_msgs c req v =
     (case v of None \<Rightarrow> []
      | Some x \<Rightarrow> if WritePolicy c \<noteq> WBack then []
                 else if line_state c x = Modified then [SendPutM x (CacheLineSize c) req]
                 else [SendPutS x (CacheLineSize c) req])"

definition cpu_step :: "u64 \<Rightarrow> CoherenceCommand \<Rightarrow> u64 \<Rightarrow> u64 option \<Rightarrow> cache \<Rightarrow> cache \<Rightarrow> bool" where
  "cpu_step k mode a v c c' \<longleftrightarrow> wf_cache k c' \<and> config c' = config c \<and> victim_ok c a v \<and>
     Directory c' = Directory c \<and>
     line_state c' = (drop_victim (if allocating mode then v else None) (line_state c))
       (a := cpu_next mode (line_state c a))"

definition cpu_trace :: "CoherenceCommand \<Rightarrow> u64 \<Rightarrow> idx_t \<Rightarrow> u64 option \<Rightarrow> nat option \<Rightarrow> cache \<Rightarrow> cache_msg list" where
  "cpu_trace mode a req v h c =
     notify_msgs c v h @
     (if allocating mode then give_back_msgs c req v @ cpu_request mode a (CacheLineSize c) req (line_state c a)
      else [])"

text \<open>What is left of a request after its first line.\<close>

definition remaining :: "cache \<Rightarrow> CoherenceCommand \<Rightarrow> u64 \<Rightarrow> u64 \<Rightarrow> u64 option" where
  "remaining c mode len addr =
     (if allocating mode \<and> addr_offset c addr + len > CacheLineSize c
      then Some (CacheLineSize c - addr_offset c addr) else None)"

section \<open>One line\<close>

lemma cpu_count_simps [simp]:
  "config (cpu_count m h ix wy c) = config c" "line_state (cpu_count m h ix wy c) = line_state c"
  "the_line (cpu_count m h ix wy c) = the_line c" "Directory (cpu_count m h ix wy c) = Directory c"
  "framed k (cpu_count m h ix wy c) i w a b = framed k c i w a b"
  by (simp_all add: cpu_count_def)

lemma lookup_framed_base:
  assumes wf: "wf_cache k c" and a: "cacheable k c addr" and lk: "lookup_line addr c = Some (isHit, ix, wy, c')"
  shows "framed k c' ix wy (line_base c addr) isHit"
proof -
  have g: "geometry c" by (rule wf_cacheD(1) [OF wf])
  note l = lookup_frame [OF assms] and cf = configD [OF lookup_frame(4) [OF assms]]
  show ?thesis
    using l cf g cacheable_line_base [OF g a] by (auto simp: framed_def)
qed

context quiet
begin

lemma cpu_writeback_spec:
  assumes f: "framed k c ix wy a isHit" and al: "AllocPolicy c = WAllocate"
    and run: "cpu_writeback send isHit req ix wy c e = Some (st, c', e')"
  obtains c1 where "c1 = c \<or> c1 = inc WriteBacks c"
    "prepare_line isHit a t hdl ix wy c' = prepare_line isHit a t hdl ix wy c1"
    "runs send (give_back_msgs c req (frame_victim isHit ix wy c)) e e'"
proof -
  have fr: "wf_cache k c" "ix < length (CacheLines c)" "wy < ways c ix" "isHit \<longleftrightarrow> line_state c a \<noteq> Invalid"
    using f by (auto simp: framed_def)
  note v = frame_victim_ok(2) [OF fr]
  show thesis
  proof (cases "\<not> isHit \<and> State (the_line c ix wy) \<noteq> Invalid \<and> WritePolicy c = WBack")
    case True
    then have "c' = upd_line (setState Invalid) ix wy (inc WriteBacks c) \<and>
        runs send (give_back_msgs c req (frame_victim isHit ix wy c)) e e'"
      using run v [of "Address (the_line c ix wy)"]
      by (cases "State (the_line c ix wy) = Modified")
        (auto simp: cpu_writeback_def Let_def osimps give_back_msgs_def frame_victim_def dest!: sent)
    then show thesis using True al that [of "inc WriteBacks c"] by (simp add: prepare_invalidated)
  next
    case False
    then show thesis
      using run that [of c] by (auto simp: cpu_writeback_def Let_def give_back_msgs_def frame_victim_def)
  qed
qed

text \<open>The line that is present or allocated, and the request proper.\<close>

lemma cpu_allocating_spec:
  assumes wf: "wf_cache k c" and a: "at_line k c ix wy a" and hit: "isHit \<longleftrightarrow> line_state c a \<noteq> Invalid"
    and run: "cpu_allocating send mode isHit a req ix wy stat c e = Some (st, c', e')"
  shows "allocating mode" "wf_cache k c'" "config c' = config c" "Directory c' = Directory c"
    and "line_state c' = (line_state c)(a := cpu_next mode (line_state c a))"
    and "runs send (cpu_request mode a (CacheLineSize c) req (line_state c a)) e e'"
proof -
  note [simp] = at_line_address [OF a] set_state_at [OF wf a] at_line_state [OF wf a]
  have "allocating mode \<and> wf_cache k c' \<and> config c' = config c \<and> Directory c' = Directory c \<and>
      line_state c' = (line_state c)(a := cpu_next mode (line_state c a)) \<and>
      runs send (cpu_request mode a (CacheLineSize c) req (line_state c a)) e e'"
    using run hit wf
    by (cases mode; cases "line_state c a")
      (auto simp: cpu_allocating_def allocating_def osimps fun_upd_idem dest!: sent)
  then show "allocating mode" "wf_cache k c'" "config c' = config c" "Directory c' = Directory c"
    "line_state c' = (line_state c)(a := cpu_next mode (line_state c a))"
    "runs send (cpu_request mode a (CacheLineSize c) req (line_state c a)) e e'" by simp_all
qed

lemma cpu_serve_spec:
  fixes c :: cache and isHit ix wy
  assumes f: "framed k c ix wy (line_base c addr) isHit" and al: "AllocPolicy c = WAllocate"
    and run: "cpu_serve send mode isHit len addr (line_base c addr) (addr_tag c (line_base c addr)) req hdl ix wy c e
      = Some (rst, st, c', e')"
  defines "v \<equiv> frame_victim isHit ix wy c" and "a \<equiv> line_base c addr"
  shows "cpu_step k mode a v c c' \<and> rst = remaining c mode len addr \<and> allocating mode \<and>
    runs send (give_back_msgs c req v @ cpu_request mode a (CacheLineSize c) req (line_state c a)) e e'"
proof -
  have fr: "wf_cache k c" "ix < length (CacheLines c)" "wy < ways c ix" "isHit \<longleftrightarrow> line_state c a \<noteq> Invalid"
    using f by (auto simp: framed_def a_def)
  note vok = frame_victim_ok(1) [OF fr, folded v_def]
  obtain s0 c0 e0 s1 where wb: "cpu_writeback send isHit req ix wy c e = Some (s0, c0, e0)"
    and al1: "cpu_allocating send mode isHit a req ix wy s0
      (prepare_line isHit a (addr_tag c a) hdl ix wy c0) e0 = Some (s1, c', e')"
    and rst: "rst = (let d = prepare_line isHit a (addr_tag c a) hdl ix wy c0; gap = addr - Address (the_line d ix wy)
      in if gap + len > CacheLineSize d then Some (CacheLineSize d - gap) else None)"
    using run by (auto simp: cpu_serve_def Let_def osimps a_def)
  obtain c1 where c1: "c1 = c \<or> c1 = inc WriteBacks c"
    "prepare_line isHit a (addr_tag c a) hdl ix wy c0 = prepare_line isHit a (addr_tag c a) hdl ix wy c1"
    and r0: "runs send (give_back_msgs c req v) e e0"
    by (rule cpu_writeback_spec [OF f al wb, folded a_def v_def]) blast
  define d where "d = prepare_line isHit a (addr_tag c a) hdl ix wy c1"
  have f1: "framed k c1 ix wy a isHit" "AllocPolicy c1 = WAllocate" "addr_tag c1 a = addr_tag c a"
    "frame_victim isHit ix wy c1 = v" "line_state c1 = line_state c" "config c1 = config c" "Directory c1 = Directory c"
    using c1(1) f al by (auto simp: frame_victim_def v_def a_def)
  note p = prepare_framed [OF f1(1,2), of hdl, unfolded f1(3-5), folded d_def]
  have d: "config d = config c" "Directory d = Directory c" "line_state d a = line_state c a"
    using f1(6,7) p(3) vok by (auto simp: d_def drop_victim_def victim_ok_def split: option.splits)
  have hit: "isHit \<longleftrightarrow> line_state d a \<noteq> Invalid" using fr(4) d(3) by simp
  note alc = cpu_allocating_spec [OF p(1,2) hit al1 [unfolded c1(2), folded d_def]]
  have "addr - a = addr_offset c addr" by (simp add: a_def line_base_def)
  then have "rst = remaining c mode len addr"
    using rst at_line_address [OF p(2)] alc(1) configD(6) [OF d(1)]
    by (simp add: c1(2) remaining_def Let_def flip: d_def)
  then show ?thesis
    using alc r0 d p(3) vok configD(6) [OF d(1)] by (auto simp: cpu_step_def runs_append)
qed

lemma cpu_handle_spec:
  fixes c :: cache and isHit ix wy
  assumes f: "framed k c ix wy (line_base c addr) isHit" and al: "AllocPolicy c = WAllocate"
    and run: "cpu_handle send mode isHit len addr (line_base c addr) (addr_tag c (line_base c addr)) req ini hdl ix wy c e
      = Some (rst, st, c', e')"
  defines "v \<equiv> frame_victim isHit ix wy c" and "a \<equiv> line_base c addr"
  shows "cpu_step k mode a v c c' \<and> rst = remaining c mode len addr \<and>
    runs send (if allocating mode
      then give_back_msgs c req v @ cpu_request mode a (CacheLineSize c) req (line_state c a) else []) e e'"
proof -
  have fr: "wf_cache k c" "ix < length (CacheLines c)" "wy < ways c ix" "isHit \<longleftrightarrow> line_state c a \<noteq> Invalid"
    and at: "isHit \<Longrightarrow> at_line k c ix wy a"
    using f by (auto simp: framed_def a_def)
  consider "mode \<in> {ReadBack, FwdGetS, FwdGetM, PutI}"
    | "cpu_serve send mode isHit len addr (line_base c addr) (addr_tag c (line_base c addr)) req hdl ix wy c e
      = Some (rst, st, c', e')"
    using run by (cases mode) (auto simp: cpu_handle_def)
  then show ?thesis
  proof cases
    case 1
    then have h: isHit using run by (auto simp: cpu_handle_def osimps)
    note [simp] = set_state_at [OF fr(1) at [OF h]]
    note vok = frame_victim_ok(1) [OF fr, folded v_def]
    from 1 have m: "mode = FwdGetS \<or> mode = FwdGetM \<or> mode = PutI" using run by (auto simp: cpu_handle_def)
    then obtain n where "rst = None" "e' = e" "c' = inc n (upd_line (setState (cpu_next mode (line_state c a))) ix wy c)"
      using run by (elim disjE) (auto simp: cpu_handle_def osimps)
    moreover have "\<not> allocating mode" using m by (auto simp: allocating_def)
    ultimately show ?thesis
      using vok by (simp add: cpu_step_def remaining_def drop_victim_def)
  next
    case 2
    then show ?thesis using cpu_serve_spec [OF f al 2] unfolding v_def a_def by simp
  qed
qed

lemma cpu_line_run:
  assumes wf: "wf_cache k c" and a: "cacheable k c addr" and al: "AllocPolicy c = WAllocate"
    and run: "cpu_line send mode len addr req ini hdl c e = Some (rst, st, c', e')"
  obtains v h where "cpu_step k mode (line_base c addr) v c c'" "rst = remaining c mode len addr"
    "runs send (cpu_trace mode (line_base c addr) req v h c) e e'"
proof -
  let ?a = "line_base c addr"
  from run obtain isHit ix wy c1 where lk: "lookup_line addr c = Some (isHit, ix, wy, c1)"
    by (auto simp: cpu_line_def Let_def osimps)
  have g: "geometry c" by (rule wf_cacheD(1) [OF wf])
  have cf: "config c1 = config c" using lookup_frame(4) [OF wf a lk] .
  define c2 where "c2 = cpu_count mode isHit ix wy c1"
  have f: "framed k c2 ix wy ?a isHit" using lookup_framed_base [OF wf a lk] by (simp add: c2_def)
  then have fr: "wf_cache k c2" "ix < length (CacheLines c2)" "wy < ways c2 ix" "isHit \<longleftrightarrow> line_state c2 ?a \<noteq> Invalid"
    by (auto simp: framed_def)
  have same: "line_state c2 = line_state c" "Directory c2 = Directory c" and cf2: "config c2 = config c"
    using lookup_frame [OF wf a lk] by (simp_all add: c2_def)
  note eqs = same configD [OF cf2]
  define v where "v = frame_victim isHit ix wy c2"
  define h where "h = handle (the_line c2 ix wy)"
  from run lk obtain c3 e1 where nt: "notify_shared_victim send isHit ix wy c2 e = Some (c3, e1)"
    and hd: "cpu_handle send mode isHit len addr ?a (addr_tag c ?a) req ini hdl ix wy c3 e1 = Some (rst, st, c', e')"
    unfolding c2_def using g by (auto simp: cpu_line_def Let_def osimps line_base_def [symmetric])
  have [simp]: "c3 = c2" and tr: "runs send (notify_msgs c2 v h) e e1"
    using home_notify [OF fr nt] by (simp_all add: v_def h_def)
  have "cpu_step k mode ?a v c2 c' \<and> rst = remaining c2 mode len addr \<and>
    runs send (if allocating mode then give_back_msgs c2 req v @
      cpu_request mode ?a (CacheLineSize c2) req (line_state c2 ?a) else []) e1 e'"
    using cpu_handle_spec [of k c2 ix wy addr isHit] f al hd unfolding v_def eqs by auto
  then show thesis
    using tr by (intro that [of v h])
      (cases v; auto simp: cpu_step_def cpu_trace_def remaining_def victim_ok_def notify_msgs_def
        give_back_msgs_def runs_append eqs cf2)+
qed

end

section \<open>Termination\<close>

lemma offset_unat: "geometry c \<Longrightarrow> unat (addr_offset c a) = unat a mod 2 ^ OffsetBits c"
proof -
  assume "geometry c"
  then have "addr_offset c a = take_bit (OffsetBits c) a"
    by (simp add: addr_offset_def geometry_def low_mask_eq take_bit_eq_mask)
  then show ?thesis by (simp only: unsigned_take_bit_eq take_bit_eq_mod [where 'a = nat])
qed

lemma line_size_unat: "geometry c \<Longrightarrow> unat (CacheLineSize c) = 2 ^ OffsetBits c"
  using unat_two_power [where 'a = 64, of "OffsetBits c"] by (simp add: geometry_def)

lemma line_base_unat:
  assumes g: "geometry c"
  shows "unat (line_base c a) = unat a div 2 ^ OffsetBits c * 2 ^ OffsetBits c"
proof -
  have "addr_offset c a \<le> a" by (simp add: addr_offset_def word_and_le2)
  then have "unat (line_base c a) = unat a - unat a mod 2 ^ OffsetBits c"
    by (simp add: line_base_def unat_sub offset_unat [OF g])
  then show ?thesis by (simp add: minus_mod_eq_div_mult)
qed

lemma same_line_base:
  assumes g: "geometry c" and n: "unat a + unat d < 2 ^ 64"
    and in_line: "unat (addr_offset c a) + unat d < unat (CacheLineSize c)"
  shows "line_base c (a + d) = line_base c a"
proof -
  have "unat (a + d) = unat a + unat d" using n by (simp add: unat_add_nowrap)
  moreover have "(unat a + unat d) div 2 ^ OffsetBits c = unat a div 2 ^ OffsetBits c"
    using in_line unfolding offset_unat [OF g] line_size_unat [OF g]
    by (simp add: div_add1_eq [of "unat a"] less_mult_imp_div_less div_less_iff_less_mult
        mod_less_eq_dividend [THEN le_less_trans])
  ultimately show ?thesis
    by (intro word_unat_eq_iff [THEN iffD2]) (simp add: line_base_unat [OF g])
qed

context responsive
begin

lemma cpu_serve_total:
  assumes f: "framed k c ix wy a isHit" and al: "AllocPolicy c = WAllocate"
    and m: "allocating mode" and wp: "WritePolicy c = WBack \<or> InclusionOfLower c \<noteq> Exclusive"
  shows "\<exists>r. cpu_serve send mode isHit len addr a (addr_tag c a) req hdl ix wy c e = Some r"
proof -
  obtain s g where send: "\<And>m c e. send m c e = Some (s m c e, c, g m c e)" using send_function by blast
  have fr: "wf_cache k c" "ix < length (CacheLines c)" "wy < ways c ix" using f by (auto simp: framed_def)
  have "\<exists>r. cpu_writeback send isHit req ix wy c e = Some r" by (simp add: cpu_writeback_def Let_def send)
  then obtain s0 c0 e0 where wb: "cpu_writeback send isHit req ix wy c e = Some (s0, c0, e0)"
    by (metis prod_cases3)
  have c0: "\<not> (\<not> isHit \<and> State (the_line c0 ix wy) = Shared \<and> InclusionOfLower c0 = Exclusive)"
    using wb wp fr by (auto simp: cpu_writeback_def Let_def send the_line_upd [OF fr] split: if_splits)
  obtain c1 where c1: "c1 = c \<or> c1 = inc WriteBacks c"
    "prepare_line isHit a (addr_tag c a) hdl ix wy c0 = prepare_line isHit a (addr_tag c a) hdl ix wy c1"
    by (rule cpu_writeback_spec [OF f al wb]) blast
  have f1: "framed k c1 ix wy a isHit" "AllocPolicy c1 = WAllocate" "addr_tag c1 a = addr_tag c a"
    using c1(1) f al by auto
  have "Address (the_line (prepare_line isHit a (addr_tag c a) hdl ix wy c0) ix wy) = a"
    using at_line_address [OF prepare_framed(2) [OF f1(1,2), of hdl, unfolded f1(3)]] c1(2) by simp
  then show ?thesis
    using wb c0 m by (auto simp: cpu_serve_def Let_def allocating_def cpu_allocating_def send)
qed

lemma cpu_line_total:
  assumes wf: "wf_cache k c" and a: "cacheable k c addr" and al: "AllocPolicy c = WAllocate"
    and m: "allocating mode" and wp: "WritePolicy c = WBack \<or> InclusionOfLower c \<noteq> Exclusive"
  shows "\<exists>r. cpu_line send mode len addr req ini hdl c e = Some r"
proof -
  obtain isHit ix wy c1 where lk: "lookup_line addr c = Some (isHit, ix, wy, c1)"
    using lookup_line_ok [OF wf a] by metis
  have g: "geometry c" by (rule wf_cacheD(1) [OF wf])
  note l = lookup_frame [OF wf a lk] and cf = configD [OF lookup_frame(4) [OF wf a lk]]
  let ?c = "cpu_count mode isHit ix wy c1"
  have cf2: "config ?c = config c" using l(4) by simp
  note eqs = configD [OF cf2]
  have f: "framed k ?c ix wy (line_base c addr) isHit" using lookup_framed_base [OF wf a lk] by simp
  have hit: "Address (the_line ?c ix wy) = line_base c addr" if isHit
    using at_line_address [OF l(11)] that by simp
  have "\<exists>r. cpu_serve send mode isHit len addr (line_base c addr) (addr_tag ?c (line_base c addr)) req hdl ix wy ?c e1 = Some r"
    for e1
    by (rule cpu_serve_total [OF f]) (use al m wp eqs in auto)
  moreover obtain e1 where "notify_shared_victim send isHit ix wy ?c e = Some (?c, e1)"
    using notify_total by blast
  moreover have "CacheLineSize ?c = CacheLineSize c" "addr_tag ?c = addr_tag c" by (rule eqs)+
  ultimately show ?thesis
    using lk hit m g line_base_le [OF g, of addr]
    by (auto simp: cpu_line_def Let_def cpu_handle_def allocating_def line_base_def [symmetric])
qed

lemma cpu_access_total:
  assumes "wf_cache k c" and "unat addr + unat len < 2 ^ 64" "0 < len" and "AllocPolicy c = WAllocate"
    and "\<And>x. addr \<le> x \<Longrightarrow> x \<le> addr + len \<Longrightarrow> cacheable k c x"
    and "allocating mode" "WritePolicy c = WBack \<or> InclusionOfLower c \<noteq> Exclusive"
  shows "\<exists>st c' e'. accessCpuCache send mode len addr req ini hdl c e = Some (st, c', e') \<and>
    wf_cache k c' \<and> config c' = config c \<and>
    line_state c' (line_base c (addr + (len - 1))) \<noteq> Invalid \<and>
    (mode = Write \<longrightarrow> line_state c' (line_base c (addr + (len - 1))) = Modified)"
  using assms
proof (induction "unat len" arbitrary: len addr c e rule: less_induct)
  case less
  note wf = less.prems(1) and nowrap = less.prems(2) and pos = less.prems(3) and al = less.prems(4)
    and cb = less.prems(5) and m = less.prems(6) and wp = less.prems(7)
  have g: "geometry c" by (rule wf_cacheD(1) [OF wf])
  have pl: "unat (addr + x) = unat addr + unat x" if "x \<le> len" for x
    by (rule unat_add_nowrap) (use nowrap that in \<open>simp add: word_le_nat_alt\<close>)
  have a: "cacheable k c addr" by (rule cb) (simp_all add: word_le_nat_alt pl)
  obtain rst st c1 e1 where line: "cpu_line send mode len addr req ini hdl c e = Some (rst, st, c1, e1)"
    using cpu_line_total [OF wf a al m wp] by (metis prod_cases4)
  obtain v h where step: "cpu_step k mode (line_base c addr) v c c1" and rst: "rst = remaining c mode len addr"
    by (rule cpu_line_run [OF wf a al line])
  have c1: "wf_cache k c1" "config c1 = config c" using step by (simp_all add: cpu_step_def)
  let ?o = "addr_offset c addr" and ?n = "CacheLineSize c - addr_offset c addr"
  have o: "unat ?o < unat (CacheLineSize c)" "?o \<le> addr"
    using offset_less [OF g, of addr] by (simp_all add: word_less_nat_alt addr_offset_def word_and_le2)
  have ol: "unat (?o + len) = unat ?o + unat len"
    by (rule unat_add_nowrap) (use o(2) nowrap in \<open>simp add: word_le_nat_alt\<close>)
  show ?case
  proof (cases "?o + len > CacheLineSize c")
    case False
    then have "rst = None" using rst by (simp add: remaining_def)
    moreover have "unat (len - 1) = unat len - 1" "0 < unat len"
      using pos unat_sub [of 1 len] by (simp_all add: word_less_nat_alt word_le_nat_alt)
    then have "line_base c (addr + (len - 1)) = line_base c addr"
      by (intro same_line_base [OF g]) (use False ol nowrap in \<open>auto simp: word_less_nat_alt\<close>)
    ultimately show ?thesis
      using line step m
      by (auto simp: accessCpuCache.simps [of send mode len] cpu_step_def allocating_def split: if_splits)
  next
    case True
    then have more: "rst = Some ?n" using rst m by (simp add: remaining_def)
    have n: "unat ?n = unat (CacheLineSize c) - unat ?o" using o(1) by (simp add: unat_sub word_le_nat_alt)
    then have lt: "unat ?n < unat len" "0 < unat ?n" using True ol o(1) by (simp_all add: word_less_nat_alt)
    then have ln: "unat (len - ?n) = unat len - unat ?n" by (simp add: unat_sub word_le_nat_alt)
    have an: "unat (addr + ?n) = unat addr + unat ?n" using pl [of ?n] lt by (simp add: word_le_nat_alt)
    have end_eq: "addr + ?n + (len - ?n) = addr + len" "addr + ?n + (len - ?n - 1) = addr + (len - 1)"
      by simp_all
    have "\<exists>st c' e'. accessCpuCache send mode (len - ?n) (addr + ?n) req ini hdl c1 e1 = Some (st, c', e') \<and>
      wf_cache k c' \<and> config c' = config c1 \<and>
      line_state c' (line_base c1 (addr + ?n + (len - ?n - 1))) \<noteq> Invalid \<and>
      (mode = Write \<longrightarrow> line_state c' (line_base c1 (addr + ?n + (len - ?n - 1))) = Modified)"
    proof (rule less.hyps)
      show "cacheable k c1 x" if "addr + ?n \<le> x" "x \<le> addr + ?n + (len - ?n)" for x
        using cb [of x] that an configD(4) [OF c1(2)] unfolding end_eq by (simp add: word_le_nat_alt)
    qed (use lt ln an nowrap c1 al m wp configD [OF c1(2)] in \<open>auto simp: word_less_nat_alt\<close>)
    then show ?thesis
      using line more c1(2) configD(5) [OF c1(2)] unfolding end_eq
      by (auto simp: accessCpuCache.simps [of send mode len])
  qed
qed

end

section \<open>Properties\<close>

lemma fresh_cpu:
  obtains c where "wf_cache 0 c" "cacheable 0 c 0" "AllocPolicy c = WAllocate" "WritePolicy c = WBack"
    "line_state c = (\<lambda>_. Invalid)" "CacheLineSize c = 8" "addr_offset c 0 = 0"
    "\<And>x. x \<le> 20 \<Longrightarrow> cacheable 0 c x"
proof -
  obtain c where c: "CacheBase_new (2 ^ 3 * 2 * 2 ^ 1) (2 ^ 3) 2 0 LRU WBack WAllocate 1 NINE NINE False True 1 = Some c"
    using CacheBase_new_defined [of 2 3 1 0 LRU WBack WAllocate 1 NINE NINE False True 1] by auto
  note wf = CacheBase_new_wf [OF c, of 0]
  have z: "InterleaveBits c = 0" using c by (auto simp: CacheBase_new_def Let_def osimps)
  have "cacheable 0 c x" if "x \<le> 20" for x
    by (rule small_cacheable [OF z]) (use that in \<open>simp add: word_le_nat_alt\<close>)
  then show thesis
    by (intro that [of c]) (use wf in \<open>auto simp: addr_offset_def\<close>)
qed

text \<open>
  C4: A first-level cache follows the protocol of its level on every line of a request: reads
  keep or obtain the line in a shared state, writes obtain it modified, the requests of the
  directory demote it; at most one other line is dropped, and it is handed back to the home
  first by a write-back cache; the messages sent are exactly the ones of the table.
\<close>
theorem cpu_follows_protocol:
  assumes "quiet send" "wf_cache k c" "cacheable k c addr" "AllocPolicy c = WAllocate"
    and "cpu_line send mode len addr req ini hdl c e = Some (rst, st, c', e')"
  shows "\<exists>v h. cpu_step k mode (line_base c addr) v c c' \<and> rst = remaining c mode len addr \<and>
    runs send (cpu_trace mode (line_base c addr) req v h c) e e'"
  using quiet.cpu_line_run [OF assms] by metis

theorem cpu_follows_protocol_witness:
  "\<exists>c rst st c' e' v h. cpu_line base_send Write 4 0 1 1 None c [] = Some (rst, st, c', e') \<and>
     cpu_step 0 Write (line_base c 0) v c c' \<and> e' = cpu_trace Write (line_base c 0) 1 v h c"
proof -
  obtain c where c: "wf_cache 0 c" "cacheable 0 c 0" "AllocPolicy c = WAllocate" "WritePolicy c = WBack"
    by (rule fresh_cpu) blast
  obtain rst st c' e' where r: "cpu_line base_send Write 4 0 1 1 None c [] = Some (rst, st, c', e')"
    using base_env.cpu_line_total [OF c(1-3), of Write 4 1 1 None "[]"] c(4)
    by (auto simp: allocating_def)
  then show ?thesis
    using cpu_follows_protocol [OF base_env.quiet_axioms c(1-3) r] unfolding runs_base append_Nil by blast
qed

text \<open>
  C5: Reads and writes of any length end. If the range does not wrap around the address space,
  and all of it is cacheable, the routine returns after finitely many lines, keeps the cache
  well-formed, and the last line of the range is present, modified after a write.
\<close>
theorem cpu_access_ends:
  assumes "responsive send" "wf_cache k c" "unat addr + unat len < 2 ^ 64" "0 < len" "AllocPolicy c = WAllocate"
    and "\<And>x. addr \<le> x \<Longrightarrow> x \<le> addr + len \<Longrightarrow> cacheable k c x"
    and "allocating mode" "WritePolicy c = WBack \<or> InclusionOfLower c \<noteq> Exclusive"
  shows "\<exists>st c' e'. accessCpuCache send mode len addr req ini hdl c e = Some (st, c', e') \<and>
    wf_cache k c' \<and> config c' = config c \<and>
    line_state c' (line_base c (addr + (len - 1))) \<noteq> Invalid \<and>
    (mode = Write \<longrightarrow> line_state c' (line_base c (addr + (len - 1))) = Modified)"
  by (rule responsive.cpu_access_total [OF assms])

theorem cpu_access_ends_witness:
  "\<exists>c st c' e'. accessCpuCache base_send Write 20 0 1 1 None c [] = Some (st, c', e') \<and>
     line_state c' (line_base c 19) = Modified"
proof -
  obtain c where c: "wf_cache 0 c" "AllocPolicy c = WAllocate" "WritePolicy c = WBack"
    "\<And>x. x \<le> 20 \<Longrightarrow> cacheable 0 c x"
    by (rule fresh_cpu) blast
  have "\<exists>st c' e'. accessCpuCache base_send Write 20 0 1 1 None c [] = Some (st, c', e') \<and>
    wf_cache 0 c' \<and> config c' = config c \<and>
    line_state c' (line_base c (0 + (20 - 1))) \<noteq> Invalid \<and>
    (Write = Write \<longrightarrow> line_state c' (line_base c (0 + (20 - 1))) = Modified)"
    by (rule cpu_access_ends [OF base_env.responsive_axioms c(1)]) (use c in \<open>auto simp: allocating_def\<close>)
  then show ?thesis by auto
qed

end
