(* ===== verification/CacheNonCoherent.thy ===== *)
theory CacheNonCoherent
  imports CpuProtocol
begin

text \<open>
  The access routine of a cache without coherence
  (\<open>CacheBase::accessNonCoherentCache\<close>), of any level. Reads, writes and evictions from the
  level above allocate; the victim is written back, evicted to an exclusive lower level and
  invalidated in an inclusive upper level first. \<open>Invalidate\<close> and \<open>ReadBack\<close> do not allocate,
  neither does a read that misses in an exclusive cache.

  The map of sharers is total: \<open>Sharers[a]\<close> creates an empty set, and the only use of
  \<open>find\<close> is to test that the set is there and not empty.
\<close>

section \<open>The routine\<close>

definition nc_count :: "CoherenceCommand \<Rightarrow> bool \<Rightarrow> cache \<Rightarrow> cache" where
  "nc_count mode isHit c =
     (if Level c = 1 \<and> (mode = Read \<or> mode = Write) \<or> Level c \<noteq> 1 \<and> mode = Read
      then inc (if isHit then HitCount else MissCount) c else c)"

definition nc_invalidate ::
  "'e send_hook \<Rightarrow> bool \<Rightarrow> idx_t \<Rightarrow> nat \<Rightarrow> nat \<Rightarrow> cache \<Rightarrow> 'e \<Rightarrow> 'e cache_result" where
  "nc_invalidate send isHit req ix wy c e =
     do {
       let c = inc NTotalInvals c;
       if isHit then do {
         (stat, c, e) \<leftarrow>
           (if State (the_line c ix wy) = Modified
            then send (ForwardWriteData (Address (the_line c ix wy)) (CacheLineSize c) req) c e
            else Some (TLM_OK_RESPONSE, c, e));
         Some (stat, inc NInvals (upd_line (setState Invalid) ix wy c), e)
       }
       else Some (TLM_OK_RESPONSE, c, e)
     }"

definition nc_bypass ::
  "'e send_hook \<Rightarrow> u64 \<Rightarrow> idx_t \<Rightarrow> idx_t \<Rightarrow> cache \<Rightarrow> 'e \<Rightarrow> 'e cache_result" where
  "nc_bypass send addr req ini c e =
     do {
       _ \<leftarrow> cassert (Level c \<noteq> 1);
       let c = inc NReads c;
       (stat, c, e) \<leftarrow>
         (if Sharers c addr \<noteq> {} then send (BackwardRead addr (CacheLineSize c) req (Sharers c addr)) c e
          else send (ForwardReadData addr (CacheLineSize c) req) c e);
       Some (stat, set_sharers addr (insert ini (Sharers c addr)) c, e)
     }"

text \<open>Making room: write-back, eviction to the level below, invalidation in the levels above.\<close>

definition nc_writeback ::
  "'e send_hook \<Rightarrow> bool \<Rightarrow> idx_t \<Rightarrow> nat \<Rightarrow> nat \<Rightarrow> cache \<Rightarrow> 'e \<Rightarrow> 'e cache_result" where
  "nc_writeback send isHit req ix wy c e =
     (if \<not> isHit \<and> State (the_line c ix wy) = Modified \<and> WritePolicy c = WBack
      then do {
        (stat, c, e) \<leftarrow> send (ForwardWriteData (Address (the_line c ix wy)) (CacheLineSize c) req) (inc WriteBacks c) e;
        Some (stat, upd_line (setState Invalid) ix wy c, e)
      }
      else Some (TLM_OK_RESPONSE, c, e))"

definition nc_evict_lower ::
  "'e send_hook \<Rightarrow> bool \<Rightarrow> idx_t \<Rightarrow> nat \<Rightarrow> nat \<Rightarrow> tlm_response_status \<Rightarrow> cache \<Rightarrow> 'e \<Rightarrow> 'e cache_result" where
  "nc_evict_lower send isHit req ix wy stat c e =
     (if \<not> isHit \<and> State (the_line c ix wy) = Shared \<and> InclusionOfLower c = Exclusive
      then do {
        (stat, c, e) \<leftarrow> send (ForwardEvict (Address (the_line c ix wy)) (CacheLineSize c) req) c e;
        Some (stat, inc EvictBacks c, e)
      }
      else Some (stat, c, e))"

definition nc_back_invalidate ::
  "'e send_hook \<Rightarrow> bool \<Rightarrow> nat \<Rightarrow> nat \<Rightarrow> tlm_response_status \<Rightarrow> cache \<Rightarrow> 'e \<Rightarrow> 'e cache_result" where
  "nc_back_invalidate send isHit ix wy stat c e =
     (let la = (\<lambda>c. Address (the_line c ix wy)) in
      if InclusionOfHigher c = Inclusive \<and> \<not> isHit \<and> Sharers c (la c) \<noteq> {}
      then do {
        (stat, c, e) \<leftarrow> send (BackInvalidate (la c) (Sharers c (la c))) c e;
        Some (stat, inc NBackInvals (set_sharers (la c) {} c), e)
      }
      else Some (stat, c, e))"

section \<open>Allocating requests\<close>

definition nc_read ::
  "'e send_hook \<Rightarrow> bool \<Rightarrow> idx_t \<Rightarrow> idx_t \<Rightarrow> nat \<Rightarrow> nat \<Rightarrow> tlm_response_status \<Rightarrow> cache \<Rightarrow> 'e \<Rightarrow> 'e cache_result" where
  "nc_read send isHit req ini ix wy stat c e =
     do {
       let la = (\<lambda>c. Address (the_line c ix wy));
       _ \<leftarrow> cassert (InclusionOfHigher c \<noteq> Exclusive \<or> isHit);
       let c = set_sharers (la c) (insert ini (Sharers c (la c))) c;
       (stat, c, e) \<leftarrow>
         (if \<not> isHit then do {
            (stat, c, e) \<leftarrow> send (ForwardReadData (la c) (CacheLineSize c) req) c e;
            Some (stat, upd_line (setState Shared) ix wy c, e)
          }
          else if InclusionOfHigher c = Exclusive then Some (stat, upd_line (setState Invalid) ix wy c, e)
          else Some (stat, c, e));
       Some (stat, inc NReads c, e)
     }"

definition nc_write_line ::
  "'e send_hook \<Rightarrow> bool \<Rightarrow> u64 \<Rightarrow> u64 \<Rightarrow> idx_t \<Rightarrow> nat \<Rightarrow> nat \<Rightarrow> tlm_response_status \<Rightarrow> cache \<Rightarrow> 'e \<Rightarrow> 'e cache_result" where
  "nc_write_line send isHit addr accessSize req ix wy stat c e =
     (let la = (\<lambda>c. Address (the_line c ix wy)) in
      if InclusionOfHigher c = Exclusive \<and> \<not> isHit then
        (if Sharers c (la c) \<noteq> {} then Some (stat, upd_line (setState Invalid) ix wy c, e)
         else do {
           (stat, c, e) \<leftarrow> send (ForwardReadData (la c) (CacheLineSize c) req) c e;
           Some (stat, upd_line (setState Modified) ix wy c, e)
         })
      else if WritePolicy c = WThrough then send (ForwardWriteData addr accessSize req) c e
      else do {
        (stat, c, e) \<leftarrow>
          (if \<not> isHit then send (ForwardReadData (la c) (CacheLineSize c) req) c e else Some (stat, c, e));
        Some (stat, upd_line (setState Modified) ix wy c, e)
      })"

definition nc_write ::
  "'e send_hook \<Rightarrow> bool \<Rightarrow> u64 \<Rightarrow> u64 \<Rightarrow> idx_t \<Rightarrow> idx_t \<Rightarrow> nat \<Rightarrow> nat \<Rightarrow> tlm_response_status \<Rightarrow> cache \<Rightarrow> 'e \<Rightarrow> 'e cache_result" where
  "nc_write send isHit addr accessSize req ini ix wy stat c e =
     do {
       let la = (\<lambda>c. Address (the_line c ix wy));
       let c = set_sharers (la c) (Sharers c (la c) - {ini}) c;
       (stat, c, e) \<leftarrow> nc_write_line send isHit addr accessSize req ix wy stat c e;
       (stat, c, e) \<leftarrow>
         (if InclusionOfLower c = Inclusive then send (ForwardWriteData (la c) (CacheLineSize c) req) c e
          else Some (stat, c, e));
       Some (stat, inc NWrites c, e)
     }"

definition nc_evict ::
  "bool \<Rightarrow> idx_t \<Rightarrow> nat \<Rightarrow> nat \<Rightarrow> tlm_response_status \<Rightarrow> cache \<Rightarrow> 'e \<Rightarrow> 'e cache_result" where
  "nc_evict isHit ini ix wy stat c e =
     do {
       let la = (\<lambda>c. Address (the_line c ix wy));
       _ \<leftarrow> cassert (InclusionOfHigher c = Exclusive);
       let c = set_sharers (la c) (Sharers c (la c) - {ini}) c;
       _ \<leftarrow> cassert (\<not> isHit \<or> State (the_line c ix wy) = Modified);
       let c = upd_line (setState (if Sharers c (la c) \<noteq> {} then Invalid else Shared)) ix wy c;
       Some (stat, inc NEvicts c, e)
     }"

definition nc_serve ::
  "'e send_hook \<Rightarrow> CoherenceCommand \<Rightarrow> bool \<Rightarrow> u64 \<Rightarrow> u64 \<Rightarrow> u64 \<Rightarrow> u32 \<Rightarrow> idx_t \<Rightarrow> idx_t \<Rightarrow> nat option \<Rightarrow> nat \<Rightarrow> nat \<Rightarrow>
   cache \<Rightarrow> 'e \<Rightarrow> (u64 option \<times> tlm_response_status \<times> cache \<times> 'e) option" where
  "nc_serve send mode isHit len addr base tag req ini hdl ix wy c e =
     do {
       _ \<leftarrow> cassert (\<not> isHit \<or> Address (the_line c ix wy) \<le> addr \<and>
              addr - Address (the_line c ix wy) < CacheLineSize c);
       (stat, c, e) \<leftarrow> nc_writeback send isHit req ix wy c e;
       (stat, c, e) \<leftarrow> nc_evict_lower send isHit req ix wy stat c e;
       (stat, c, e) \<leftarrow> nc_back_invalidate send isHit ix wy stat c e;
       let c = prepare_line isHit base tag hdl ix wy c;
       let gap = addr - Address (the_line c ix wy);
       let alignment = (gap + len > CacheLineSize c);
       let accessSize = (if alignment then CacheLineSize c - gap else len);
       _ \<leftarrow> cassert (accessSize \<le> CacheLineSize c);
       (stat, c, e) \<leftarrow>
         (case mode of
            Read \<Rightarrow> nc_read send isHit req ini ix wy stat c e
          | Write \<Rightarrow> nc_write send isHit addr accessSize req ini ix wy stat c e
          | Evict \<Rightarrow> nc_evict isHit ini ix wy stat c e
          | _ \<Rightarrow> None);
       Some (if alignment then Some accessSize else None, stat, c, e)
     }"

definition nc_line ::
  "'e send_hook \<Rightarrow> CoherenceCommand \<Rightarrow> u64 \<Rightarrow> u64 \<Rightarrow> idx_t \<Rightarrow> idx_t \<Rightarrow> nat option \<Rightarrow> cache \<Rightarrow> 'e \<Rightarrow>
   (u64 option \<times> tlm_response_status \<times> cache \<times> 'e) option" where
  "nc_line send mode len addr req ini hdl c e =
     do {
       let base = addr - addr_offset c addr;
       let tag = addr_tag c addr;
       (isHit, ix, wy, c) \<leftarrow> lookup_line addr c;
       _ \<leftarrow> cassert (\<not> isHit \<or> State (the_line c ix wy) \<noteq> Invalid);
       let c = nc_count mode isHit c;
       (c, e) \<leftarrow> notify_shared_victim send isHit ix wy c e;
       if mode = Invalidate then do { r \<leftarrow> nc_invalidate send isHit req ix wy c e; Some (None, r) }
       else if mode = ReadBack then do { _ \<leftarrow> cassert isHit; Some (None, TLM_OK_RESPONSE, inc ReadBacks c, e) }
       else if \<not> isHit \<and> InclusionOfHigher c = Exclusive \<and> mode = Read
         then do { r \<leftarrow> nc_bypass send addr req ini c e; Some (None, r) }
       else nc_serve send mode isHit len addr base tag req ini hdl ix wy c e
     }"

partial_function (option) accessNonCoherentCache ::
  "'e send_hook \<Rightarrow> CoherenceCommand \<Rightarrow> u64 \<Rightarrow> u64 \<Rightarrow> idx_t \<Rightarrow> idx_t \<Rightarrow> nat option \<Rightarrow> cache \<Rightarrow> 'e \<Rightarrow>
   'e cache_result" where
  "accessNonCoherentCache send mode len addr req ini hdl c e =
     do {
       (left, stat, c, e) \<leftarrow> nc_line send mode len addr req ini hdl c e;
       case left of
         None \<Rightarrow> Some (stat, c, e)
       | Some n \<Rightarrow> accessNonCoherentCache send mode (len - n) (addr + n) req ini hdl c e
     }"

section \<open>The effect of reads and writes\<close>

text \<open>
  The effect on the lines, for a cache that is not exclusive of the level above. \<open>x\<close> is
  the address the frame last had, which the code consults even when the frame holds no valid line.
\<close>

definition nc_next :: "cache \<Rightarrow> CoherenceCommand \<Rightarrow> CoherenceState \<Rightarrow> CoherenceState" where
  "nc_next c mode st =
     (if mode = Read then (if st = Invalid then Shared else st)
      else if WritePolicy c = WThrough then st else Modified)"

definition nc_request :: "cache \<Rightarrow> CoherenceCommand \<Rightarrow> u64 \<Rightarrow> u64 \<Rightarrow> u64 \<Rightarrow> idx_t \<Rightarrow> CoherenceState \<Rightarrow> cache_msg list" where
  "nc_request c mode a addr n req st =
     (if mode = Read \<or> WritePolicy c \<noteq> WThrough
      then (if st = Invalid then [ForwardReadData a (CacheLineSize c) req] else [])
      else [ForwardWriteData addr n req]) @
     (if mode = Write \<and> InclusionOfLower c = Inclusive then [ForwardWriteData a (CacheLineSize c) req] else [])"

definition nc_lower_msgs :: "cache \<Rightarrow> idx_t \<Rightarrow> u64 option \<Rightarrow> cache_msg list" where
  "nc_lower_msgs c req v =
     (case v of None \<Rightarrow> []
      | Some x \<Rightarrow> if line_state c x = Shared \<and> InclusionOfLower c = Exclusive
                 then [ForwardEvict x (CacheLineSize c) req] else [])"

definition nc_upper_msgs :: "cache \<Rightarrow> bool \<Rightarrow> u64 \<Rightarrow> cache_msg list" where
  "nc_upper_msgs c isHit x =
     (if InclusionOfHigher c = Inclusive \<and> \<not> isHit \<and> Sharers c x \<noteq> {} then [BackInvalidate x (Sharers c x)] else [])"

definition nc_step :: "u64 \<Rightarrow> CoherenceCommand \<Rightarrow> u64 \<Rightarrow> u64 option \<Rightarrow> cache \<Rightarrow> cache \<Rightarrow> bool" where
  "nc_step k mode a v c c' \<longleftrightarrow> wf_cache k c' \<and> config c' = config c \<and> Directory c' = Directory c \<and>
     victim_ok c a v \<and> line_state c' = (drop_victim v (line_state c))(a := nc_next c mode (line_state c a))"

lemma nc_count_simps [simp]:
  "config (nc_count m h c) = config c" "line_state (nc_count m h c) = line_state c"
  "the_line (nc_count m h c) = the_line c" "Directory (nc_count m h c) = Directory c"
  "Sharers (nc_count m h c) = Sharers c" "wf_cache k (nc_count m h c) = wf_cache k c"
  "framed k (nc_count m h c) i w a b = framed k c i w a b"
  by (simp_all add: nc_count_def)

context quiet
begin

text \<open>Making room, up to the allocation of the line.\<close>

lemma nc_room:
  fixes hdl :: "nat option"
  assumes f: "framed k c ix wy a isHit" and al: "AllocPolicy c = WAllocate"
    and wb: "nc_writeback send isHit req ix wy c e = Some (s1, c1, e1)"
    and ev: "nc_evict_lower send isHit req ix wy s1 c1 e1 = Some (s2, c2, e2)"
    and bi: "nc_back_invalidate send isHit ix wy s2 c2 e2 = Some (s3, c3, e3)"
  defines "v \<equiv> frame_victim isHit ix wy c" and "x \<equiv> Address (the_line c ix wy)"
    and "b \<equiv> prepare_line isHit a (addr_tag c a) hdl ix wy c3"
  shows "wf_cache k b \<and> at_line k b ix wy a \<and> line_state b = drop_victim v (line_state c) \<and>
    config b = config c \<and> Directory b = Directory c \<and>
    runs send (writeback_msgs c req v @ nc_lower_msgs c req v @ nc_upper_msgs c isHit x) e e3"
proof -
  have fr: "wf_cache k c" "ix < length (CacheLines c)" "wy < ways c ix" "isHit \<longleftrightarrow> line_state c a \<noteq> Invalid"
    using f by (auto simp: framed_def)
  note p = prepare_framed [OF f al, of hdl, folded v_def]
  have vs: "line_state c y = State (the_line c ix wy)" if "v = Some y" for y
    using frame_victim_ok(2) [OF fr] that by (simp add: v_def)
  define P where "P d \<longleftrightarrow> (let q = prepare_line isHit a (addr_tag c a) hdl ix wy d in
      wf_cache k q \<and> at_line k q ix wy a \<and> line_state q = drop_victim v (line_state c) \<and>
      config q = config c \<and> Directory q = Directory c)" for d
  have P: "P c" "P (inc n d) = P d" "P (set_sharers y sh d) = P d" for n d y sh
    using p by (auto simp: P_def Let_def)
  have P': "P (upd_line (setState Invalid) ix wy (inc n c))" if "\<not> isHit" for n
    using P(1) al that by (auto simp: P_def Let_def prepare_invalidated)
  have r1: "runs send (writeback_msgs c req v) e e1" and q1: "P c1"
    and c1: "Sharers c1 = Sharers c" "Address (the_line c1 ix wy) = x" "config c1 = config c"
      "\<not> isHit \<Longrightarrow> State (the_line c1 ix wy) = Shared \<longleftrightarrow> State (the_line c ix wy) = Shared"
    using wb vs P P' by (auto simp: nc_writeback_def writeback_msgs_def v_def frame_victim_def osimps x_def
        the_line_upd [OF fr(1-3)] split: if_splits dest!: sent)
  have r2: "runs send (nc_lower_msgs c req v) e1 e2" and q2: "P c2"
    and c2: "Sharers c2 = Sharers c" "Address (the_line c2 ix wy) = x" "config c2 = config c"
    using ev vs P q1 c1 configD(6,10) [OF c1(3)]
    by (auto simp: nc_evict_lower_def nc_lower_msgs_def v_def frame_victim_def osimps x_def
        split: if_splits dest!: sent)
  have r3: "runs send (nc_upper_msgs c isHit x) e2 e3" and q3: "P c3"
    using bi P q2 c2 configD(9) [OF c2(3)]
    by (auto simp: nc_back_invalidate_def nc_upper_msgs_def Let_def osimps split: if_splits dest!: sent)
  show ?thesis using q3 r1 r2 r3 by (auto simp: P_def Let_def b_def runs_append)
qed

lemma nc_read_spec:
  assumes wf: "wf_cache k c" and a: "at_line k c ix wy a" and hit: "isHit \<longleftrightarrow> line_state c a \<noteq> Invalid"
    and nx: "InclusionOfHigher c \<noteq> Exclusive"
    and run: "nc_read send isHit req ini ix wy stat c e = Some (st, c', e')"
  shows "wf_cache k c' \<and> config c' = config c \<and> Directory c' = Directory c \<and>
    line_state c' = (line_state c)(a := nc_next c Read (line_state c a)) \<and>
    runs send (nc_request c Read a addr n req (line_state c a)) e e'"
proof -
  note [simp] = at_line_address [OF a] set_state_at [OF wf a]
  show ?thesis using run hit nx wf
    by (cases isHit) (auto simp: nc_read_def nc_next_def nc_request_def Let_def osimps fun_upd_idem dest!: sent)
qed

lemma nc_write_spec:
  assumes wf: "wf_cache k c" and a: "at_line k c ix wy a" and hit: "isHit \<longleftrightarrow> line_state c a \<noteq> Invalid"
    and nx: "InclusionOfHigher c \<noteq> Exclusive"
    and run: "nc_write send isHit addr n req ini ix wy stat c e = Some (st, c', e')"
  shows "wf_cache k c' \<and> config c' = config c \<and> Directory c' = Directory c \<and>
    line_state c' = (line_state c)(a := nc_next c Write (line_state c a)) \<and>
    runs send (nc_request c Write a addr n req (line_state c a)) e e'"
proof -
  note [simp] = at_line_address [OF a] set_state_at [OF wf a]
  show ?thesis using run hit nx wf
    by (cases isHit; cases "WritePolicy c = WThrough"; cases "InclusionOfLower c = Inclusive")
      (auto simp: nc_write_def nc_write_line_def nc_next_def nc_request_def Let_def osimps fun_upd_idem runs_append
        dest!: sent)
qed

lemma nc_serve_spec:
  fixes c :: cache and isHit ix wy
  assumes f: "framed k c ix wy (line_base c addr) isHit" and al: "AllocPolicy c = WAllocate"
    and nx: "InclusionOfHigher c \<noteq> Exclusive" and m: "mode = Read \<or> mode = Write"
    and run: "nc_serve send mode isHit len addr (line_base c addr) (addr_tag c (line_base c addr)) req ini hdl ix wy c e
      = Some (rst, st, c', e')"
  defines "v \<equiv> frame_victim isHit ix wy c" and "a \<equiv> line_base c addr"
  shows "nc_step k mode a v c c' \<and> (\<exists>n x. runs send (writeback_msgs c req v @ nc_lower_msgs c req v @
      nc_upper_msgs c isHit x @ nc_request c mode a addr n req (line_state c a)) e e')"
proof -
  have fr: "wf_cache k c" "ix < length (CacheLines c)" "wy < ways c ix" "isHit \<longleftrightarrow> line_state c a \<noteq> Invalid"
    using f by (auto simp: framed_def a_def)
  note vok = frame_victim_ok(1) [OF fr, folded v_def]
  obtain s1 c1 e1 s2 c2 e2 s3 c3 e3 n where
    wb: "nc_writeback send isHit req ix wy c e = Some (s1, c1, e1)"
    and ev: "nc_evict_lower send isHit req ix wy s1 c1 e1 = Some (s2, c2, e2)"
    and bi: "nc_back_invalidate send isHit ix wy s2 c2 e2 = Some (s3, c3, e3)"
    and d: "(if mode = Read then nc_read send isHit req ini ix wy s3 (prepare_line isHit a (addr_tag c a) hdl ix wy c3) e3
      else nc_write send isHit addr n req ini ix wy s3 (prepare_line isHit a (addr_tag c a) hdl ix wy c3) e3)
      = Some (st, c', e')"
    using run m by (auto simp: nc_serve_def Let_def osimps a_def)
  define b where "b = prepare_line isHit a (addr_tag c a) hdl ix wy c3"
  have p: "wf_cache k b" "at_line k b ix wy a" "line_state b = drop_victim v (line_state c)"
    "config b = config c" "Directory b = Directory c"
    and r: "runs send (writeback_msgs c req v @ nc_lower_msgs c req v @ nc_upper_msgs c isHit (Address (the_line c ix wy))) e e3"
    using nc_room [OF f al wb ev bi, of hdl] by (auto simp: b_def v_def a_def)
  have same: "line_state b a = line_state c a"
    using p(3) vok by (auto simp: drop_victim_def victim_ok_def split: option.splits)
  have hit: "isHit \<longleftrightarrow> line_state b a \<noteq> Invalid" using fr(4) same by simp
  have nx': "InclusionOfHigher b \<noteq> Exclusive" using nx configD [OF p(4)] by simp
  have "wf_cache k c' \<and> config c' = config b \<and> Directory c' = Directory b \<and>
    line_state c' = (line_state b)(a := nc_next b mode (line_state b a)) \<and>
    runs send (nc_request b mode a addr n req (line_state b a)) e3 e'"
    using d m nc_read_spec [OF p(1,2) hit nx'] nc_write_spec [OF p(1,2) hit nx']
    by (auto simp flip: b_def split: if_splits)
  moreover have "nc_next b = nc_next c" "nc_request b = nc_request c"
    using configD [OF p(4)] by (simp_all add: nc_next_def nc_request_def fun_eq_iff)
  ultimately have "nc_step k mode a v c c' \<and> runs send (writeback_msgs c req v @ nc_lower_msgs c req v @
      nc_upper_msgs c isHit (Address (the_line c ix wy)) @ nc_request c mode a addr n req (line_state c a)) e e'"
    using r p vok same by (auto simp: nc_step_def runs_append)
  then show ?thesis by blast
qed

lemma nc_line_run:
  assumes wf: "wf_cache k c" and a: "cacheable k c addr" and al: "AllocPolicy c = WAllocate"
    and nx: "InclusionOfHigher c \<noteq> Exclusive" and m: "mode = Read \<or> mode = Write"
    and run: "nc_line send mode len addr req ini hdl c e = Some (rst, st, c', e')"
  obtains v h n x where "nc_step k mode (line_base c addr) v c c'"
    "runs send (notify_msgs c v h @ writeback_msgs c req v @ nc_lower_msgs c req v @
      nc_upper_msgs c (line_state c (line_base c addr) \<noteq> Invalid) x @
      nc_request c mode (line_base c addr) addr n req (line_state c (line_base c addr))) e e'"
proof -
  let ?a = "line_base c addr"
  from run obtain isHit ix wy c1 where lk: "lookup_line addr c = Some (isHit, ix, wy, c1)"
    by (auto simp: nc_line_def Let_def osimps)
  have g: "geometry c" by (rule wf_cacheD(1) [OF wf])
  define c2 where "c2 = nc_count mode isHit c1"
  have f: "framed k c2 ix wy ?a isHit" using lookup_framed_base [OF wf a lk] by (simp add: c2_def)
  then have fr: "wf_cache k c2" "ix < length (CacheLines c2)" "wy < ways c2 ix" "isHit \<longleftrightarrow> line_state c2 ?a \<noteq> Invalid"
    by (auto simp: framed_def)
  have same: "line_state c2 = line_state c" "Directory c2 = Directory c" "Sharers c2 = Sharers c" and cf2: "config c2 = config c"
    using lookup_frame [OF wf a lk] by (simp_all add: c2_def)
  note eqs = same configD [OF cf2]
  define v where "v = frame_victim isHit ix wy c2"
  define h where "h = handle (the_line c2 ix wy)"
  from run lk obtain c3 e1 where nt: "notify_shared_victim send isHit ix wy c2 e = Some (c3, e1)"
    and rest: "\<not> isHit \<and> InclusionOfHigher c3 = Exclusive \<and> mode = Read \<or>
      nc_serve send mode isHit len addr ?a (addr_tag c ?a) req ini hdl ix wy c3 e1 = Some (rst, st, c', e')"
    using m g unfolding c2_def by (auto simp: nc_line_def Let_def osimps line_base_def [symmetric] split: if_splits)
  have [simp]: "c3 = c2" and tr: "runs send (notify_msgs c2 v h) e e1"
    using home_notify [OF fr nt] by (simp_all add: v_def h_def)
  have "nc_serve send mode isHit len addr ?a (addr_tag c ?a) req ini hdl ix wy c2 e1 = Some (rst, st, c', e')"
    using rest nx eqs by simp
  then have s: "nc_step k mode ?a v c2 c'" and "\<exists>n x. runs send (writeback_msgs c2 req v @ nc_lower_msgs c2 req v @
      nc_upper_msgs c2 isHit x @ nc_request c2 mode ?a addr n req (line_state c2 ?a)) e1 e'"
    using nc_serve_spec [of k c2 ix wy addr isHit] f al nx m unfolding v_def eqs by auto
  then obtain n x where tr2: "runs send (writeback_msgs c2 req v @ nc_lower_msgs c2 req v @
      nc_upper_msgs c2 isHit x @ nc_request c2 mode ?a addr n req (line_state c2 ?a)) e1 e'" by blast
  show thesis
  proof
    show "nc_step k mode ?a v c c'"
      using s cf2 by (simp add: nc_step_def nc_next_def victim_ok_def eqs cong: option.case_cong)
    show "runs send (notify_msgs c v h @ writeback_msgs c req v @ nc_lower_msgs c req v @
        nc_upper_msgs c (line_state c ?a \<noteq> Invalid) x @ nc_request c mode ?a addr n req (line_state c ?a)) e e'"
      using tr tr2 unfolding notify_msgs_def writeback_msgs_def nc_lower_msgs_def nc_upper_msgs_def nc_request_def
        runs_append fr(4) eqs by blast
  qed
qed

end

section \<open>Properties\<close>

lemma nc_step_keeps_dirty:
  assumes "nc_step k mode a v c c'" "WritePolicy c = WBack" "mode = Read \<or> mode = Write"
    and "line_state c b = Modified" "line_state c' b \<noteq> Modified"
  shows "v = Some b"
  using assms by (auto simp: nc_step_def nc_next_def drop_victim_def split: option.splits if_splits)

text \<open>
  C7: No write is lost. When a read or a write of a write-back cache that is not exclusive of the
  level above takes the modified state away from a line, that line is the victim, and it has been
  written back to the next level in the course of the access.
\<close>
theorem nc_no_lost_write:
  assumes "quiet send" "wf_cache k c" "cacheable k c addr" "AllocPolicy c = WAllocate"
    and "InclusionOfHigher c \<noteq> Exclusive" "WritePolicy c = WBack" "mode = Read \<or> mode = Write"
    and run: "nc_line send mode len addr req ini hdl c e = Some (rst, st, c', e')"
    and dirty: "line_state c b = Modified" "line_state c' b \<noteq> Modified"
  shows "b \<noteq> line_base c addr \<and>
    (\<exists>ms ns. runs send (ms @ [ForwardWriteData b (CacheLineSize c) req] @ ns) e e')"
proof -
  obtain v h n x where s: "nc_step k mode (line_base c addr) v c c'"
    and r: "runs send (notify_msgs c v h @ writeback_msgs c req v @ nc_lower_msgs c req v @
      nc_upper_msgs c (line_state c (line_base c addr) \<noteq> Invalid) x @
      nc_request c mode (line_base c addr) addr n req (line_state c (line_base c addr))) e e'"
    using quiet.nc_line_run [OF assms(1-5,7) run] by metis
  have v: "v = Some b" by (rule nc_step_keeps_dirty [OF s assms(6,7) dirty])
  have "b \<noteq> line_base c addr" using s v by (simp add: nc_step_def victim_ok_def)
  moreover have "writeback_msgs c req v = [ForwardWriteData b (CacheLineSize c) req]"
    using v assms(6) dirty(1) by (simp add: writeback_msgs_def)
  ultimately show ?thesis using r by metis
qed

text \<open>Two sets of two lines of eight bytes, the addresses 0, 16 and 32 share a set.\<close>

definition nc_demo :: "CacheInclusionPolicy \<Rightarrow> cache option" where
  "nc_demo inh = CacheBase_new (2 ^ 3 * 2 * 2 ^ 1) (2 ^ 3) 2 0 LRU WBack WAllocate 2 inh NINE False False 5"

definition nc_demo_run :: "CacheInclusionPolicy \<Rightarrow> (CoherenceCommand \<times> u64) list \<Rightarrow> (cache \<times> cache_msg list) option" where
  "nc_demo_run inh rs = foldl (\<lambda>s (m, a). do { (c, e) \<leftarrow> s;
       (rst, st, c, e) \<leftarrow> nc_line base_send m 8 a 1 1 None c e; Some (c, e) })
     (do { c \<leftarrow> nc_demo inh; Some (c, []) }) rs"

lemma nc_demo_wf:
  assumes "nc_demo inh = Some c"
  shows "wf_cache 0 c" "AllocPolicy c = WAllocate" "WritePolicy c = WBack" "InclusionOfHigher c = inh"
    "CacheLineSize c = 8" "cacheable 0 c 0"
  using CacheBase_new_wf [OF assms [unfolded nc_demo_def], of 0] by (simp_all add: cacheable_def)

lemma nc_demo_run_wf:
  assumes "nc_demo_run inh rs = Some (c, e)" "inh \<noteq> Exclusive"
    and "\<forall>(m, a) \<in> set rs. (m = Read \<or> m = Write) \<and> unat a < 2 ^ 32"
  shows "\<exists>c0. nc_demo inh = Some c0 \<and> config c = config c0 \<and> wf_cache 0 c"
  using assms(1,3)
proof (induction rs arbitrary: c e rule: rev_induct)
  case Nil
  then show ?case using nc_demo_wf by (auto simp: nc_demo_run_def osimps)
next
  case (snoc r rs)
  obtain m a where r: "r = (m, a)" by (cases r)
  obtain d e1 rst st where d: "nc_demo_run inh rs = Some (d, e1)"
    and l: "nc_line base_send m 8 a 1 1 None d e1 = Some (rst, st, c, e)"
    using snoc.prems(1) r by (auto simp: nc_demo_run_def osimps)
  obtain c0 where c0: "nc_demo inh = Some c0" "config d = config c0" "wf_cache 0 d"
    using snoc.IH [OF d] snoc.prems(2) by auto
  have "InterleaveBits c0 = 0" using c0(1) by (auto simp: nc_demo_def CacheBase_new_def Let_def osimps)
  then have "cacheable 0 d a"
    using small_cacheable [of c0 a] snoc.prems(2) configD(4) [OF c0(2)] r by simp
  moreover have "AllocPolicy d = WAllocate" "InclusionOfHigher d \<noteq> Exclusive" "m = Read \<or> m = Write"
    using nc_demo_wf [OF c0(1)] configD [OF c0(2)] assms(2) snoc.prems(2) r by auto
  ultimately obtain v h n x where "nc_step 0 m (line_base d a) v d c"
    using base_env.nc_line_run [OF c0(3) _ _ _ _ l] by metis
  then show ?case using c0 by (auto simp: nc_step_def)
qed

theorem nc_no_lost_write_witness:
  "\<exists>c rst st c' e'. line_state c 0 = Modified \<and>
     nc_line base_send Read 8 32 1 1 None c [] = Some (rst, st, c', e') \<and>
     (\<exists>ms ns. e' = ms @ [ForwardWriteData 0 8 1] @ ns)"
proof -
  have ev: "map_option (\<lambda>(c, e). (line_state c 0, map_option (\<lambda>(rst, st, c', e'). line_state c' 0)
      (nc_line base_send Read 8 32 1 1 None c []))) (nc_demo_run NINE [(Read, 16), (Write, 0)]) = Some (Modified, Some Invalid)"
    by code_simp
  then obtain c e where c: "nc_demo_run NINE [(Read, 16), (Write, 0)] = Some (c, e)" by auto
  then obtain rst st c' e' where r: "nc_line base_send Read 8 32 1 1 None c [] = Some (rst, st, c', e')"
    and st: "line_state c 0 = Modified" "line_state c' 0 = Invalid" using ev by auto
  obtain c0 where c0: "nc_demo NINE = Some c0" "config c = config c0" "wf_cache 0 c"
    using nc_demo_run_wf [OF c] by auto
  have "InterleaveBits c0 = 0" using c0(1) by (auto simp: nc_demo_def CacheBase_new_def Let_def osimps)
  then have cb: "cacheable 0 c 32" using small_cacheable [of c0 32] configD(4) [OF c0(2)] by simp
  have "\<exists>ms ns. runs base_send (ms @ [ForwardWriteData 0 (CacheLineSize c) 1] @ ns) [] e'"
    using nc_no_lost_write [OF base_env.quiet_axioms c0(3) cb _ _ _ _ r st(1)] st(2)
      nc_demo_wf [OF c0(1)] configD [OF c0(2)] by simp
  moreover have "CacheLineSize c = 8" using nc_demo_wf(5) [OF c0(1)] configD(6) [OF c0(2)] by simp
  ultimately show ?thesis using r st(1) unfolding runs_base append_Nil by metis
qed

text \<open>
  An inclusive cache can invalidate lines it still holds. After a read of line 0 by cache 1,
  a read of line 8, which goes into a fresh frame of another set, sends an invalidation of line 0
  to cache 1, because the frame is asked for the address of its line although it has none.
\<close>
theorem nc_spurious_back_invalidation:
  "map_option (\<lambda>(c, e). (e, line_state c 0)) (nc_demo_run Inclusive [(Read, 0), (Read, 8)]) =
     Some ([ForwardReadData 0 8 1, BackInvalidate 0 {1}, ForwardReadData 8 8 1], Shared)"
  by code_simp

text \<open>
  An exclusive cache drops dirty lines. A line written into it and then read again by the
  level above is invalidated without having been written back, and nobody else holds it modified.
\<close>
theorem nc_exclusive_read_drops_dirty:
  "map_option (\<lambda>(c, e). (e, line_state c 0)) (nc_demo_run Exclusive [(Write, 0)]) =
     Some ([ForwardReadData 0 8 1], Modified) \<and>
   map_option (\<lambda>(c, e). (e, line_state c 0)) (nc_demo_run Exclusive [(Write, 0), (Read, 0)]) =
     Some ([ForwardReadData 0 8 1], Invalid)"
  by code_simp

end
