(* ===== verification/CacheL2.thy ===== *)
theory CacheL2
  imports HomeProtocol
begin

text \<open>
  The access routine of a coherent second-level cache
  (\<open>CacheBase::accessL2Cache\<close>): it keeps a directory of the first-level caches above it
  and is itself a client of the home. The requests of the home (\<open>FwdGetS\<close>, \<open>FwdGetM\<close>, \<open>PutI\<close>) and
  \<open>PutS\<close> of an upper cache do not allocate; \<open>PutM\<close>, \<open>GetS\<close> and \<open>GetM\<close> do. The second
  branch for \<open>PutI\<close> of the code, after the allocation, cannot be reached and is left out.
\<close>

section \<open>Requests that do not allocate\<close>

definition l2_FwdGetS ::
  "'e send_hook \<Rightarrow> bool \<Rightarrow> u64 \<Rightarrow> idx_t \<Rightarrow> idx_t \<Rightarrow> nat \<Rightarrow> nat \<Rightarrow> cache \<Rightarrow> 'e \<Rightarrow> 'e cache_result" where
  "l2_FwdGetS send isHit addr req ini ix wy c e =
     do {
       _ \<leftarrow> cassert (ini \<noteq> NULL_IDX);
       _ \<leftarrow> cassert (Directory c addr \<noteq> None);
       _ \<leftarrow> cassert (isHit \<or> dState (dir_at c addr) \<noteq> Invalid);
       _ \<leftarrow> cassert (InclusionOfLower c = Exclusive \<or> isHit \<and> State (the_line c ix wy) = Modified \<or>
              dState (dir_at c addr) = Modified);
       let c = (if isHit \<and> State (the_line c ix wy) = Modified then upd_line (setState Shared) ix wy c else c);
       (stat, c, e) \<leftarrow>
         (if \<not> isHit \<and> dState (dir_at c addr) = Shared
          then send (SendFwdGetS addr (CacheLineSize c) req (dSharers (dir_at c addr))) c e
          else Some (TLM_OK_RESPONSE, c, e));
       (stat, c, e) \<leftarrow>
         (if dState (dir_at c addr) = Modified
          then do {
            (stat, c, e) \<leftarrow> send (SendFwdGetS addr (CacheLineSize c) req {Owner (dir_at c addr)}) c e;
            Some (stat, set_dir addr Shared NULL_IDX {Owner (dir_at c addr)} c, e)
          }
          else Some (stat, c, e));
       _ \<leftarrow> cassert (dState (dir_at c addr) \<noteq> Modified);
       _ \<leftarrow> cassert (Owner (dir_at c addr) = NULL_IDX);
       _ \<leftarrow> cassert (\<not> isHit \<or> State (the_line c ix wy) = Shared);
       Some (stat, inc NFwdGetS c, e)
     }"

definition l2_FwdGetM ::
  "'e send_hook \<Rightarrow> bool \<Rightarrow> u64 \<Rightarrow> idx_t \<Rightarrow> idx_t \<Rightarrow> nat \<Rightarrow> nat \<Rightarrow> cache \<Rightarrow> 'e \<Rightarrow> 'e cache_result" where
  "l2_FwdGetM send isHit addr req ini ix wy c e =
     do {
       _ \<leftarrow> cassert (ini \<noteq> NULL_IDX);
       _ \<leftarrow> cassert (Directory c addr \<noteq> None);
       _ \<leftarrow> cassert (isHit \<and> State (the_line c ix wy) = Modified \<or> dState (dir_at c addr) = Modified);
       let c = (if isHit then upd_line (setState Invalid) ix wy c else c);
       (stat, c, e) \<leftarrow>
         (case dState (dir_at c addr) of
            Shared \<Rightarrow> do {
              (stat, c, e) \<leftarrow> send (SendFwdGetM addr (CacheLineSize c) req (dSharers (dir_at c addr))) c e;
              Some (stat, set_dir addr Invalid NULL_IDX {} c, e)
            }
          | Modified \<Rightarrow> do {
              (stat, c, e) \<leftarrow> send (SendFwdGetM addr (CacheLineSize c) req {Owner (dir_at c addr)}) c e;
              Some (stat, set_dir addr Invalid NULL_IDX {} c, e)
            }
          | Invalid \<Rightarrow> Some (TLM_OK_RESPONSE, c, e));
       let c = inc NFwdGetM c;
       _ \<leftarrow> cassert (dState (dir_at c addr) = Invalid);
       _ \<leftarrow> cassert (Owner (dir_at c addr) = NULL_IDX);
       _ \<leftarrow> cassert (dSharers (dir_at c addr) = {});
       _ \<leftarrow> cassert (\<not> isHit \<or> State (the_line c ix wy) = Invalid);
       Some (stat, c, e)
     }"

definition l2_PutS ::
  "'e send_hook \<Rightarrow> bool \<Rightarrow> u64 \<Rightarrow> idx_t \<Rightarrow> cache \<Rightarrow> 'e \<Rightarrow> 'e cache_result" where
  "l2_PutS send isHit addr ini c e =
     do {
       _ \<leftarrow> cassert (Directory c addr \<noteq> None);
       _ \<leftarrow> cassert (dState (dir_at c addr) = Shared);
       let c = del_sharer addr ini c;
       (stat, c, e) \<leftarrow>
         (if dSharers (dir_at c addr) = {}
          then do {
            let c = set_dir addr Invalid NULL_IDX {} c;
            if \<not> isHit then send (SendPutS addr (CacheLineSize c) (Id c)) c e else Some (TLM_OK_RESPONSE, c, e)
          }
          else Some (TLM_OK_RESPONSE, c, e));
       _ \<leftarrow> cassert (dState (dir_at c addr) \<noteq> Modified);
       _ \<leftarrow> cassert (Owner (dir_at c addr) = NULL_IDX);
       Some (stat, inc NPutS c, e)
     }"

definition l2_PutI ::
  "'e send_hook \<Rightarrow> bool \<Rightarrow> u64 \<Rightarrow> idx_t \<Rightarrow> nat \<Rightarrow> nat \<Rightarrow> cache \<Rightarrow> 'e \<Rightarrow> 'e cache_result" where
  "l2_PutI send isHit addr req ix wy c e =
     do {
       _ \<leftarrow> cassert (Directory c addr \<noteq> None);
       _ \<leftarrow> cassert (isHit \<and> State (the_line c ix wy) = Shared \<or> dState (dir_at c addr) = Shared);
       _ \<leftarrow> cassert (\<not> isHit \<or> State (the_line c ix wy) \<noteq> Modified \<and> dState (dir_at c addr) \<noteq> Modified);
       let c = (if isHit then upd_line (setState Invalid) ix wy c else c);
       (stat, c, e) \<leftarrow>
         (if dState (dir_at c addr) = Shared
          then do {
            (stat, c, e) \<leftarrow> send (SendPutI addr (CacheLineSize c) req (dSharers (dir_at c addr))) c e;
            Some (stat, set_dir addr Invalid NULL_IDX {} c, e)
          }
          else Some (TLM_OK_RESPONSE, c, e));
       let c = inc NPutI c;
       _ \<leftarrow> cassert (dState (dir_at c addr) = Invalid);
       _ \<leftarrow> cassert (Owner (dir_at c addr) = NULL_IDX);
       _ \<leftarrow> cassert (dSharers (dir_at c addr) = {});
       _ \<leftarrow> cassert (\<not> isHit \<or> State (the_line c ix wy) = Invalid);
       Some (stat, c, e)
     }"

section \<open>Allocating requests\<close>

definition l2_writeback ::
  "'e send_hook \<Rightarrow> bool \<Rightarrow> nat \<Rightarrow> nat \<Rightarrow> cache \<Rightarrow> 'e \<Rightarrow> 'e cache_result" where
  "l2_writeback send isHit ix wy c e =
     (let la = (\<lambda>c. Address (the_line c ix wy)) in
      if \<not> isHit \<and> State (the_line c ix wy) \<noteq> Invalid \<and> WritePolicy c = WBack
      then do {
        _ \<leftarrow> cassert (Directory c (la c) \<noteq> None);
        let c = inc WriteBacks c;
        (stat, c, e) \<leftarrow>
          (case dState (dir_at c (la c)) of
             Invalid \<Rightarrow>
               if State (the_line c ix wy) = Shared then send (SendPutS (la c) (CacheLineSize c) (Id c)) c e
               else send (SendPutM (la c) (CacheLineSize c) (Id c)) c e
           | Shared \<Rightarrow>
               if State (the_line c ix wy) = Modified then send (SendGetS (la c) (CacheLineSize c) (Id c)) c e
               else Some (TLM_OK_RESPONSE, c, e)
           | Modified \<Rightarrow> Some (TLM_OK_RESPONSE, c, e));
        Some (stat, upd_line (setState Invalid) ix wy c, e)
      }
      else Some (TLM_OK_RESPONSE, c, e))"

definition l2_PutM ::
  "idx_t \<Rightarrow> nat \<Rightarrow> nat \<Rightarrow> tlm_response_status \<Rightarrow> cache \<Rightarrow> 'e \<Rightarrow> 'e cache_result" where
  "l2_PutM ini ix wy stat c e =
     do {
       let la = Address (the_line c ix wy);
       _ \<leftarrow> cassert (Directory c la \<noteq> None);
       _ \<leftarrow> cassert (dState (dir_at c la) = Modified);
       _ \<leftarrow> cassert (ini = Owner (dir_at c la));
       let c = upd_line (setState Modified) ix wy c;
       Some (stat, inc NPutM (set_dir la Invalid NULL_IDX {} c), e)
     }"

definition l2_GetS_body ::
  "'e send_hook \<Rightarrow> bool \<Rightarrow> u64 \<Rightarrow> idx_t \<Rightarrow> idx_t \<Rightarrow> nat \<Rightarrow> nat \<Rightarrow> tlm_response_status \<Rightarrow> cache \<Rightarrow> 'e \<Rightarrow> 'e cache_result" where
  "l2_GetS_body send isHit addr req ini ix wy stat c e =
     do {
       let la = (\<lambda>c. Address (the_line c ix wy));
       case Directory c (la c) of
         None \<Rightarrow> do {
           _ \<leftarrow> cassert (\<not> isHit);
           (stat, c, e) \<leftarrow> send (SendGetS addr (CacheLineSize c) (Id c)) c e;
           let c = upd_line (setState Shared) ix wy c;
           Some (stat, set_dir (la c) Shared NULL_IDX {ini} c, e)
         }
       | Some d \<Rightarrow>
           (case dState d of
              Invalid \<Rightarrow> do {
                (stat, c, e) \<leftarrow>
                  (if \<not> isHit then do {
                     (stat, c, e) \<leftarrow> send (SendGetS addr (CacheLineSize c) (Id c)) c e;
                     Some (stat, upd_line (setState Shared) ix wy c, e)
                   } else Some (stat, c, e));
                Some (stat, set_dir (la c) Shared NULL_IDX {ini} c, e)
              }
            | Shared \<Rightarrow> do {
                _ \<leftarrow> cassert (ini \<notin> dSharers d);
                (stat, c, e) \<leftarrow>
                  (if \<not> isHit then do {
                     (stat, c, e) \<leftarrow> send (SendFwdGetS (la c) (CacheLineSize c) req (dSharers d)) c e;
                     Some (stat, upd_line (setState Shared) ix wy c, e)
                   } else Some (stat, c, e));
                Some (stat, ins_sharer (la c) ini c, e)
              }
            | Modified \<Rightarrow> do {
                _ \<leftarrow> cassert (ini \<noteq> Owner d);
                (stat, c, e) \<leftarrow> send (SendFwdGetS (la c) (CacheLineSize c) req {Owner d}) c e;
                let c = set_dir (la c) Shared NULL_IDX {ini, Owner (dir_at c (la c))} c;
                Some (stat, upd_line (setState Modified) ix wy c, e)
              })
     }"

definition l2_GetS ::
  "'e send_hook \<Rightarrow> bool \<Rightarrow> u64 \<Rightarrow> idx_t \<Rightarrow> idx_t \<Rightarrow> nat \<Rightarrow> nat \<Rightarrow> tlm_response_status \<Rightarrow> cache \<Rightarrow> 'e \<Rightarrow> 'e cache_result" where
  "l2_GetS send isHit addr req ini ix wy stat c e =
     do {
       (stat, c, e) \<leftarrow> l2_GetS_body send isHit addr req ini ix wy stat c e;
       let d = dir_at c (Address (the_line c ix wy));
       _ \<leftarrow> cassert (dState d = Shared);
       _ \<leftarrow> cassert (Owner d = NULL_IDX);
       _ \<leftarrow> cassert (dSharers d \<noteq> {});
       Some (stat, inc NGetS c, e)
     }"

definition l2_GetM_body ::
  "'e send_hook \<Rightarrow> bool \<Rightarrow> u64 \<Rightarrow> idx_t \<Rightarrow> idx_t \<Rightarrow> nat \<Rightarrow> nat \<Rightarrow> tlm_response_status \<Rightarrow> cache \<Rightarrow> 'e \<Rightarrow> 'e cache_result" where
  "l2_GetM_body send isHit addr req ini ix wy stat c e =
     do {
       let la = (\<lambda>c. Address (the_line c ix wy));
       case Directory c (la c) of
         None \<Rightarrow> do {
           _ \<leftarrow> cassert (\<not> isHit);
           (stat, c, e) \<leftarrow> send (SendGetM addr (CacheLineSize c) (Id c)) c e;
           Some (stat, set_dir (la c) Modified ini {} c, e)
         }
       | Some d \<Rightarrow>
           (case dState d of
              Invalid \<Rightarrow> do {
                (stat, c, e) \<leftarrow>
                  (if State (the_line c ix wy) \<noteq> Modified then send (SendGetM addr (CacheLineSize c) (Id c)) c e
                   else Some (stat, c, e));
                Some (stat, set_dir (la c) Modified ini {} c, e)
              }
            | Shared \<Rightarrow> do {
                (stat, c, e) \<leftarrow>
                  (if State (the_line c ix wy) \<noteq> Modified then send (SendGetM addr (CacheLineSize c) (Id c)) c e
                   else Some (stat, c, e));
                home_invalidate send addr req ini ix wy stat c e
              }
            | Modified \<Rightarrow> do {
                _ \<leftarrow> cassert (ini \<noteq> Owner d);
                (stat, c, e) \<leftarrow> send (SendFwdGetM (la c) (CacheLineSize c) req {Owner d}) c e;
                Some (stat, set_owner (la c) ini c, e)
              })
     }"

definition l2_GetM ::
  "'e send_hook \<Rightarrow> bool \<Rightarrow> u64 \<Rightarrow> idx_t \<Rightarrow> idx_t \<Rightarrow> nat \<Rightarrow> nat \<Rightarrow> tlm_response_status \<Rightarrow> cache \<Rightarrow> 'e \<Rightarrow> 'e cache_result" where
  "l2_GetM send isHit addr req ini ix wy stat c e =
     do {
       (stat, c, e) \<leftarrow> l2_GetM_body send isHit addr req ini ix wy stat c e;
       let c = upd_line (setState Shared) ix wy c;
       let d = dir_at c (Address (the_line c ix wy));
       _ \<leftarrow> cassert (dState d = Modified);
       _ \<leftarrow> cassert (Owner d = ini);
       _ \<leftarrow> cassert (dSharers d = {});
       Some (stat, inc NGetM c, e)
     }"

definition l2_dispatch ::
  "'e send_hook \<Rightarrow> CoherenceCommand \<Rightarrow> bool \<Rightarrow> u64 \<Rightarrow> idx_t \<Rightarrow> idx_t \<Rightarrow> nat \<Rightarrow> nat \<Rightarrow> tlm_response_status \<Rightarrow>
   cache \<Rightarrow> 'e \<Rightarrow> 'e cache_result" where
  "l2_dispatch send mode isHit addr req ini ix wy stat c e =
     (case mode of
        PutM \<Rightarrow> l2_PutM ini ix wy stat c e
      | GetS \<Rightarrow> l2_GetS send isHit addr req ini ix wy stat c e
      | GetM \<Rightarrow> l2_GetM send isHit addr req ini ix wy stat c e
      | _ \<Rightarrow> None)"

definition l2_serve ::
  "'e send_hook \<Rightarrow> CoherenceCommand \<Rightarrow> bool \<Rightarrow> u64 \<Rightarrow> u32 \<Rightarrow> idx_t \<Rightarrow> idx_t \<Rightarrow> nat option \<Rightarrow> nat \<Rightarrow> nat \<Rightarrow>
   cache \<Rightarrow> 'e \<Rightarrow> 'e cache_result" where
  "l2_serve send mode isHit addr tag req ini hdl ix wy c e =
     do {
       (stat, c, e) \<leftarrow> l2_writeback send isHit ix wy c e;
       let c = prepare_line isHit addr tag hdl ix wy c;
       (stat, c, e) \<leftarrow> l2_dispatch send mode isHit addr req ini ix wy stat c e;
       c \<leftarrow> check_directory (Address (the_line c ix wy)) addr c;
       Some (stat, c, e)
     }"

definition accessL2Cache ::
  "'e send_hook \<Rightarrow> CoherenceCommand \<Rightarrow> u64 \<Rightarrow> u64 \<Rightarrow> idx_t \<Rightarrow> idx_t \<Rightarrow> nat option \<Rightarrow> cache \<Rightarrow> 'e \<Rightarrow>
   'e cache_result" where
  "accessL2Cache send mode len addr req ini hdl c e =
     do {
       let tag = addr_tag c addr;
       (isHit, ix, wy, c) \<leftarrow> lookup_line addr c;
       _ \<leftarrow> cassert (addr_offset c addr = 0);
       _ \<leftarrow> cassert (len = CacheLineSize c);
       _ \<leftarrow> cassert (\<not> isHit \<or> Address (the_line c ix wy) \<le> addr \<and>
              addr - Address (the_line c ix wy) < CacheLineSize c);
       _ \<leftarrow> cassert (\<not> isHit \<or> addr = Address (the_line c ix wy));
       _ \<leftarrow> cassert (\<not> (isHit \<and> State (the_line c ix wy) = Modified \<and> dState (dir_at c addr) = Modified));
       let c = home_count mode isHit ix wy c;
       (c, e) \<leftarrow> notify_shared_victim send isHit ix wy c e;
       case mode of
         FwdGetS \<Rightarrow> l2_FwdGetS send isHit addr req ini ix wy c e
       | FwdGetM \<Rightarrow> l2_FwdGetM send isHit addr req ini ix wy c e
       | PutS \<Rightarrow> l2_PutS send isHit addr ini c e
       | PutI \<Rightarrow> l2_PutI send isHit addr req ix wy c e
       | _ \<Rightarrow> l2_serve send mode isHit addr tag req ini hdl ix wy c e
     }"

section \<open>The protocol of the second level\<close>

fun l2_dir :: "CoherenceCommand \<Rightarrow> idx_t \<Rightarrow> DirectoryEntry option \<Rightarrow> DirectoryEntry" where
  "l2_dir FwdGetS ini d = (if owned d then entry Shared NULL_IDX (holders d) else the d)"
| "l2_dir FwdGetM ini d = entry Invalid NULL_IDX {}"
| "l2_dir PutI ini d = entry Invalid NULL_IDX {}"
| "l2_dir mode ini d = dir_next mode ini d"

fun l2_state :: "CoherenceCommand \<Rightarrow> CoherenceState \<Rightarrow> DirectoryEntry option \<Rightarrow> CoherenceState" where
  "l2_state FwdGetS st d = (if st = Modified then Shared else st)"
| "l2_state FwdGetM st d = Invalid"
| "l2_state PutI st d = Invalid"
| "l2_state PutM st d = Modified"
| "l2_state GetM st d = Shared"
| "l2_state GetS st d = (if owned d then Modified else if st = Invalid then Shared else st)"
| "l2_state _ st d = st"

fun l2_msgs ::
  "CoherenceCommand \<Rightarrow> u64 \<Rightarrow> u64 \<Rightarrow> idx_t \<Rightarrow> idx_t \<Rightarrow> idx_t \<Rightarrow> CoherenceState \<Rightarrow> DirectoryEntry option \<Rightarrow> cache_msg list" where
  "l2_msgs FwdGetS a n me req ini st d =
     (if st = Invalid \<and> shared d \<or> owned d then [SendFwdGetS a n req (holders d)] else [])"
| "l2_msgs FwdGetM a n me req ini st d =
     (if shared d \<or> owned d then [SendFwdGetM a n req (holders d)] else [])"
| "l2_msgs PutI a n me req ini st d = (if shared d then [SendPutI a n req (holders d)] else [])"
| "l2_msgs PutS a n me req ini st d =
     (if holders d - {ini} = {} \<and> st = Invalid then [SendPutS a n me] else [])"
| "l2_msgs GetS a n me req ini st d =
     (if owned d then [SendFwdGetS a n req (holders d)]
      else if st \<noteq> Invalid then []
      else if shared d then [SendFwdGetS a n req (holders d)] else [SendGetS a n me])"
| "l2_msgs GetM a n me req ini st d =
     (if owned d then [SendFwdGetM a n req (holders d)]
      else (if st \<noteq> Modified then [SendGetM a n me] else []) @
           (if shared d then others_msgs (SendPutI a n req) (holders d - {ini}) else []))"
| "l2_msgs _ a n me req ini st d = []"

definition l2_post :: "u64 \<Rightarrow> CoherenceCommand \<Rightarrow> u64 \<Rightarrow> idx_t \<Rightarrow> cache \<Rightarrow> cache \<Rightarrow> bool" where
  "l2_post k mode a ini c c' \<longleftrightarrow> wf_cache k c' \<and> config c' = config c \<and>
     line_state c' = (line_state c)(a := l2_state mode (line_state c a) (Directory c a)) \<and>
     Directory c' = (Directory c)(a \<mapsto> l2_dir mode ini (Directory c a))"

definition l2_trace :: "CoherenceCommand \<Rightarrow> u64 \<Rightarrow> idx_t \<Rightarrow> idx_t \<Rightarrow> cache \<Rightarrow> cache_msg list" where
  "l2_trace mode a req ini c = l2_msgs mode a (CacheLineSize c) (Id c) req ini (line_state c a) (Directory c a)"

lemmas l2_spec_defs = l2_post_def l2_trace_def entry_def holders_def owned_def shared_def

lemma l2_post_inc [simp]: "l2_post k m a ini c (inc n c') = l2_post k m a ini c c'"
  by (simp add: l2_post_def)

lemma entry_eq: "dState d = st \<Longrightarrow> Owner d = ow \<Longrightarrow> dSharers d = sh \<Longrightarrow> d = entry st ow sh"
  by (simp add: entry_def)

context quiet
begin

lemma l2_GetS_spec:
  assumes wf: "wf_cache k c" and a: "at_line k c ix wy a" and hit: "isHit \<longleftrightarrow> line_state c a \<noteq> Invalid"
    and run: "l2_GetS_body send isHit a req ini ix wy stat c e = Some (st, c', e')"
    and own: "Owner (dir_at c' (Address (the_line c' ix wy))) = NULL_IDX"
  shows "l2_post k GetS a ini c c' \<and> runs send (l2_trace GetS a req ini c) e e'"
proof -
  note [simp] = at_line_address [OF a] set_state_at [OF wf a]
  note defs = l2_GetS_body_def l2_spec_defs home_updates
  show ?thesis
  proof (cases "Directory c a")
    case None
    then show ?thesis using run hit wf by (auto simp: defs Let_def osimps dest!: sent)
  next
    case (Some d)
    note [simp] = dir_at_Some [OF Some] Some
    show ?thesis using run hit wf own
      by (cases "dState d"; cases isHit)
        (auto simp: defs Let_def osimps fun_upd_idem dest!: sent)
  qed
qed

lemma l2_GetM_spec:
  assumes wf: "wf_cache k c" and a: "at_line k c ix wy a" and hit: "isHit \<longleftrightarrow> line_state c a \<noteq> Invalid"
    and run: "l2_GetM_body send isHit a req ini ix wy stat c e = Some (st, c', e')"
    and sh: "dSharers (dir_at c' (Address (the_line c' ix wy))) = {}"
  shows "l2_post k GetM a ini c (upd_line (setState Shared) ix wy c') \<and> runs send (l2_trace GetM a req ini c) e e'"
proof -
  note [simp] = at_line_address [OF a] set_state_at [OF wf a] at_line_state [OF wf a]
  note defs = l2_GetM_body_def l2_spec_defs home_updates
  show ?thesis
  proof (cases "Directory c a")
    case None
    then show ?thesis using run hit wf by (auto simp: defs Let_def osimps dest!: sent)
  next
    case (Some d)
    note [simp] = dir_at_Some [OF Some] Some
    show ?thesis using run hit wf sh
      by (cases "dState d"; cases "line_state c a = Modified")
        (auto simp: defs Let_def osimps runs_append dest!: sent invalidate_spec [where a = a and d = d])
  qed
qed

lemma l2_PutM_spec:
  assumes wf: "wf_cache k c" and a: "at_line k c ix wy a"
    and run: "l2_PutM ini ix wy stat c e = Some (st, c', e')"
  shows "l2_post k PutM a ini c c' \<and> runs send (l2_trace PutM a req ini c) e e'"
  using run wf set_state_at [OF wf a, of Modified] at_line_address [OF a]
  by (auto simp: l2_PutM_def l2_spec_defs Let_def osimps)

lemma l2_FwdGetS_spec:
  assumes f: "framed k c ix wy a isHit"
    and run: "l2_FwdGetS send isHit a req ini ix wy c e = Some (st, c', e')"
  shows "l2_post k FwdGetS a ini c c' \<and> runs send (l2_trace FwdGetS a req ini c) e e'"
proof -
  have wf: "wf_cache k c" and hit: "isHit \<longleftrightarrow> line_state c a \<noteq> Invalid" and at: "isHit \<Longrightarrow> at_line k c ix wy a"
    using f by (auto simp: framed_def)
  obtain d where d: "Directory c a = Some d" using run by (auto simp: l2_FwdGetS_def Let_def osimps)
  note [simp] = d dir_at_Some [OF d]
  note defs = l2_FwdGetS_def l2_spec_defs
  show ?thesis
  proof (cases isHit)
    case True
    note [simp] = set_state_at [OF wf at [OF True]] at_line_state [OF wf at [OF True]] at_line_address [OF at [OF True]]
    show ?thesis using run True hit wf
      by (cases "line_state c a"; cases "dState d") (auto simp: defs Let_def osimps fun_upd_idem dest!: sent)
  next
    case False
    then show ?thesis using run hit wf
      by (cases "dState d") (auto simp: defs Let_def osimps fun_upd_idem dest!: sent)
  qed
qed

lemma l2_FwdGetM_spec:
  assumes f: "framed k c ix wy a isHit"
    and run: "l2_FwdGetM send isHit a req ini ix wy c e = Some (st, c', e')"
  shows "l2_post k FwdGetM a ini c c' \<and> runs send (l2_trace FwdGetM a req ini c) e e'"
proof -
  have wf: "wf_cache k c" and hit: "isHit \<longleftrightarrow> line_state c a \<noteq> Invalid" and at: "isHit \<Longrightarrow> at_line k c ix wy a"
    using f by (auto simp: framed_def)
  obtain d where d: "Directory c a = Some d" using run by (auto simp: l2_FwdGetM_def Let_def osimps)
  note [simp] = d dir_at_Some [OF d]
  note defs = l2_FwdGetM_def l2_spec_defs
  show ?thesis
  proof (cases isHit)
    case True
    note [simp] = set_state_at [OF wf at [OF True]] at_line_state [OF wf at [OF True]] at_line_address [OF at [OF True]]
    show ?thesis using run True hit wf
      by (cases "dState d") (auto simp: defs Let_def osimps fun_upd_idem dest!: sent)
  next
    case False
    then show ?thesis using run hit wf
      by (cases "dState d") (auto simp: defs Let_def osimps fun_upd_idem dest!: sent)
  qed
qed

lemma l2_PutS_spec:
  assumes wf: "wf_cache k c" and hit: "isHit \<longleftrightarrow> line_state c a \<noteq> Invalid"
    and run: "l2_PutS send isHit a ini c e = Some (st, c', e')"
  shows "l2_post k PutS a ini c c' \<and> runs send (l2_trace PutS a req ini c) e e'"
proof -
  obtain d where d: "Directory c a = Some d" using run by (auto simp: l2_PutS_def Let_def osimps)
  note [simp] = d dir_at_Some [OF d]
  show ?thesis using run hit wf
    by (cases isHit; cases "dSharers d - {ini} = {}")
      (auto simp: l2_PutS_def l2_spec_defs home_updates Let_def osimps fun_upd_idem dest!: sent)
qed

lemma l2_PutI_spec:
  assumes f: "framed k c ix wy a isHit"
    and run: "l2_PutI send isHit a req ix wy c e = Some (st, c', e')"
  shows "l2_post k PutI a ini c c' \<and> runs send (l2_trace PutI a req ini c) e e'"
proof -
  have wf: "wf_cache k c" and hit: "isHit \<longleftrightarrow> line_state c a \<noteq> Invalid" and at: "isHit \<Longrightarrow> at_line k c ix wy a"
    using f by (auto simp: framed_def)
  obtain d where d: "Directory c a = Some d" using run by (auto simp: l2_PutI_def Let_def osimps)
  note [simp] = d dir_at_Some [OF d]
  note defs = l2_PutI_def l2_spec_defs
  show ?thesis
  proof (cases isHit)
    case True
    note [simp] = set_state_at [OF wf at [OF True]] at_line_state [OF wf at [OF True]] at_line_address [OF at [OF True]]
    show ?thesis using run True hit wf
      by (cases "dState d") (auto simp: defs Let_def osimps fun_upd_idem dest!: sent)
  next
    case False
    then show ?thesis using run hit wf
      by (cases "dState d") (auto simp: defs Let_def osimps fun_upd_idem dest!: sent)
  qed
qed

end

definition l2_victim_msgs :: "cache \<Rightarrow> u64 option \<Rightarrow> cache_msg list" where
  "l2_victim_msgs c v =
     (case v of None \<Rightarrow> []
      | Some x \<Rightarrow>
          if WritePolicy c \<noteq> WBack then []
          else (case dState (dir_at c x) of
                  Invalid \<Rightarrow> if line_state c x = Shared then [SendPutS x (CacheLineSize c) (Id c)]
                             else [SendPutM x (CacheLineSize c) (Id c)]
                | Shared \<Rightarrow> if line_state c x = Modified then [SendGetS x (CacheLineSize c) (Id c)] else []
                | Modified \<Rightarrow> []))"

definition l2_allocates :: "CoherenceCommand \<Rightarrow> bool" where
  "l2_allocates mode \<longleftrightarrow> mode = PutM \<or> mode = GetS \<or> mode = GetM"

definition l2_step :: "u64 \<Rightarrow> CoherenceCommand \<Rightarrow> u64 \<Rightarrow> idx_t \<Rightarrow> u64 option \<Rightarrow> cache \<Rightarrow> cache \<Rightarrow> bool" where
  "l2_step k mode a ini v c c' \<longleftrightarrow> wf_cache k c' \<and> config c' = config c \<and> victim_ok c a v \<and>
     line_state c' = (drop_victim (if l2_allocates mode then v else None) (line_state c))
       (a := l2_state mode (line_state c a) (Directory c a)) \<and>
     Directory c' = (Directory c)(a \<mapsto> l2_dir mode ini (Directory c a))"

context quiet
begin

lemma l2_writeback_spec:
  assumes f: "framed k c ix wy a isHit" and al: "AllocPolicy c = WAllocate"
    and run: "l2_writeback send isHit ix wy c e = Some (st, c', e')"
  obtains c1 where "c1 = c \<or> c1 = inc WriteBacks c"
    "\<And>t hdl. prepare_line isHit a t hdl ix wy c' = prepare_line isHit a t hdl ix wy c1"
    "runs send (l2_victim_msgs c (frame_victim isHit ix wy c)) e e'"
proof -
  have fr: "wf_cache k c" "ix < length (CacheLines c)" "wy < ways c ix" "isHit \<longleftrightarrow> line_state c a \<noteq> Invalid"
    using f by (auto simp: framed_def)
  note v = frame_victim_ok(2) [OF fr]
  show thesis
  proof (cases "\<not> isHit \<and> State (the_line c ix wy) \<noteq> Invalid \<and> WritePolicy c = WBack")
    case True
    let ?x = "Address (the_line c ix wy)"
    have "c' = upd_line (setState Invalid) ix wy (inc WriteBacks c) \<and>
        runs send (l2_victim_msgs c (frame_victim isHit ix wy c)) e e'"
      using run v [of ?x] True
      by (cases "dState (dir_at c ?x)"; cases "State (the_line c ix wy)")
        (auto simp: l2_writeback_def Let_def osimps l2_victim_msgs_def frame_victim_def dest!: sent)
    then show thesis using True al that [of "inc WriteBacks c"] by (simp add: prepare_invalidated)
  next
    case False
    then show thesis
      using run that [of c] by (auto simp: l2_writeback_def Let_def l2_victim_msgs_def frame_victim_def)
  qed
qed

lemma l2_dispatch_spec:
  assumes wf: "wf_cache k c" and a: "at_line k c ix wy a" and hit: "isHit \<longleftrightarrow> line_state c a \<noteq> Invalid"
    and run: "l2_dispatch send mode isHit a req ini ix wy stat c e = Some (st, c', e')"
  shows "l2_post k mode a ini c c' \<and> l2_allocates mode \<and> runs send (l2_trace mode a req ini c) e e'"
proof (cases mode)
  case PutM
  then show ?thesis using run l2_PutM_spec [OF wf a] by (simp add: l2_dispatch_def l2_allocates_def)
next
  case GetS
  then show ?thesis using run l2_GetS_spec [OF wf a hit]
    by (auto simp: l2_dispatch_def l2_allocates_def l2_GetS_def Let_def osimps)
next
  case GetM
  then show ?thesis using run l2_GetM_spec [OF wf a hit]
    by (auto simp: l2_dispatch_def l2_allocates_def l2_GetM_def Let_def osimps)
qed (use run in \<open>auto simp: l2_dispatch_def\<close>)

lemma l2_serve_spec:
  fixes c :: cache and isHit ix wy
  assumes f: "framed k c ix wy a isHit" and al: "AllocPolicy c = WAllocate"
    and run: "l2_serve send mode isHit a (addr_tag c a) req ini hdl ix wy c e = Some (st, c', e')"
  defines "v \<equiv> frame_victim isHit ix wy c"
  shows "l2_step k mode a ini v c c' \<and> l2_allocates mode \<and>
    runs send (l2_victim_msgs c v @ l2_trace mode a req ini c) e e'"
proof -
  have fr: "wf_cache k c" "ix < length (CacheLines c)" "wy < ways c ix" "isHit \<longleftrightarrow> line_state c a \<noteq> Invalid"
    using f by (auto simp: framed_def)
  note vok = frame_victim_ok(1) [OF fr, folded v_def]
  obtain s0 c0 e0 c2 where wb: "l2_writeback send isHit ix wy c e = Some (s0, c0, e0)"
    and d: "l2_dispatch send mode isHit a req ini ix wy s0 (prepare_line isHit a (addr_tag c a) hdl ix wy c0) e0
      = Some (st, c2, e')"
    and ck: "check_directory (Address (the_line c2 ix wy)) a c2 = Some c'"
    using run by (auto simp: l2_serve_def Let_def osimps)
  obtain c1 where c1: "c1 = c \<or> c1 = inc WriteBacks c"
    "\<And>t hdl. prepare_line isHit a t hdl ix wy c0 = prepare_line isHit a t hdl ix wy c1"
    and r0: "runs send (l2_victim_msgs c v) e e0"
    using l2_writeback_spec [OF f al wb, folded v_def] by metis
  define b where "b = prepare_line isHit a (addr_tag c a) hdl ix wy c1"
  have f1: "framed k c1 ix wy a isHit" "AllocPolicy c1 = WAllocate" "addr_tag c1 a = addr_tag c a"
    "frame_victim isHit ix wy c1 = v" "line_state c1 = line_state c" "config c1 = config c" "Directory c1 = Directory c"
    using c1(1) f al by (auto simp: frame_victim_def v_def)
  note p = prepare_framed [OF f1(1,2), of hdl, unfolded f1(3-5), folded b_def]
  have b: "config b = config c" "Directory b = Directory c" "line_state b a = line_state c a"
    using f1(6,7) p(3) vok by (auto simp: b_def drop_victim_def victim_ok_def split: option.splits)
  have hit: "isHit \<longleftrightarrow> line_state b a \<noteq> Invalid" using fr(4) b(3) by simp
  have tr: "l2_trace mode a req ini b = l2_trace mode a req ini c"
    using b configD [OF b(1)] by (simp add: l2_trace_def)
  have "l2_post k mode a ini b c2 \<and> l2_allocates mode \<and> runs send (l2_trace mode a req ini b) e0 e'"
    using l2_dispatch_spec [OF p(1,2) hit] d by (simp add: c1(2) flip: b_def)
  then show ?thesis
    using vok check_directory_id [OF ck] r0 p(3) b tr
    by (auto simp: l2_post_def l2_step_def runs_append)
qed

lemma l2_run:
  assumes wf: "wf_cache k c" and a: "cacheable k c addr" and al: "AllocPolicy c = WAllocate"
    and run: "accessL2Cache send mode len addr req ini hdl c e = Some (st, c', e')"
  obtains v h where "l2_step k mode addr ini v c c'"
    "runs send (notify_msgs c v h @ (if l2_allocates mode then l2_victim_msgs c v else []) @ l2_trace mode addr req ini c) e e'"
proof -
  from run obtain isHit ix wy c1 where lk: "lookup_line addr c = Some (isHit, ix, wy, c1)"
    by (auto simp: accessL2Cache_def Let_def osimps)
  have cf1: "config c1 = config c" using lookup_frame(4) [OF wf a lk] .
  define c2 where "c2 = home_count mode isHit ix wy c1"
  from run lk obtain e1 c3 where off: "addr_offset c1 addr = 0"
    and nt: "notify_shared_victim send isHit ix wy c2 e = Some (c3, e1)"
    and rest: "(case mode of FwdGetS \<Rightarrow> l2_FwdGetS send isHit addr req ini ix wy c3 e1
       | FwdGetM \<Rightarrow> l2_FwdGetM send isHit addr req ini ix wy c3 e1
       | PutS \<Rightarrow> l2_PutS send isHit addr ini c3 e1
       | PutI \<Rightarrow> l2_PutI send isHit addr req ix wy c3 e1
       | _ \<Rightarrow> l2_serve send mode isHit addr (addr_tag c1 addr) req ini hdl ix wy c3 e1) = Some (st, c', e')"
    unfolding c2_def configD(3) [OF cf1] by (auto simp: accessL2Cache_def Let_def osimps)
  have f: "framed k c2 ix wy addr isHit"
    using lookup_framed [OF wf a lk] off configD(1) [OF cf1] by (simp add: c2_def)
  have same: "line_state c2 = line_state c" "Directory c2 = Directory c" "config c2 = config c"
    "addr_tag c2 = addr_tag c1" "AllocPolicy c2 = WAllocate"
    using lookup_frame [OF wf a lk] configD [OF cf1] configD [of c2 c1] al by (simp_all add: c2_def)
  define v where "v = frame_victim isHit ix wy c2"
  define h where "h = handle (the_line c2 ix wy)"
  have fr: "wf_cache k c2" "ix < length (CacheLines c2)" "wy < ways c2 ix" "isHit \<longleftrightarrow> line_state c2 addr \<noteq> Invalid"
    using f by (auto simp: framed_def)
  have [simp]: "c3 = c2" and tr1: "runs send (notify_msgs c2 v h) e e1"
    using home_notify [OF fr nt] by (simp_all add: v_def h_def)
  note vok = frame_victim_ok(1) [OF fr, folded v_def]
  have step: "l2_step k mode addr ini v c2 c' \<and>
      runs send ((if l2_allocates mode then l2_victim_msgs c2 v else []) @ l2_trace mode addr req ini c2) e1 e'"
  proof (cases "mode = FwdGetS \<or> mode = FwdGetM \<or> mode = PutS \<or> mode = PutI")
    case True
    then have "l2_post k mode addr ini c2 c' \<and> runs send (l2_trace mode addr req ini c2) e1 e'"
      using rest l2_FwdGetS_spec [OF f] l2_FwdGetM_spec [OF f] l2_PutS_spec [OF fr(1,4)] l2_PutI_spec [OF f]
      by (elim disjE) simp_all
    moreover have "\<not> l2_allocates mode" using True by (auto simp: l2_allocates_def)
    ultimately show ?thesis using vok by (simp add: l2_post_def l2_step_def drop_victim_def)
  next
    case False
    then have "l2_serve send mode isHit addr (addr_tag c2 addr) req ini hdl ix wy c2 e1 = Some (st, c', e')"
      using rest same(4) by (cases mode) simp_all
    then show ?thesis using l2_serve_spec [OF f same(5)] unfolding v_def by simp
  qed
  note eqs = same(1,2) configD [OF same(3)]
  have dir: "dir_at c2 = dir_at c" using same(2) by (simp add: dir_at_def fun_eq_iff)
  show thesis
  proof
    show "l2_step k mode addr ini v c c'"
      using step same(3) by (simp add: l2_step_def victim_ok_def eqs cong: option.case_cong)
    show "runs send (notify_msgs c v h @ (if l2_allocates mode then l2_victim_msgs c v else []) @
        l2_trace mode addr req ini c) e e'"
      using tr1 step unfolding notify_msgs_def l2_victim_msgs_def l2_trace_def runs_append eqs dir by blast
  qed
qed

end

section \<open>Properties\<close>

text \<open>
  C6: A second-level cache follows its protocol table: whichever request it serves, the
  directory entry of the line, the state of the line and the messages to the caches above and to
  the home below are those of the table, at most one victim is dropped, and only after the
  home has been told as the victim's entry demands.
\<close>
theorem l2_follows_protocol:
  assumes "quiet send" "wf_cache k c" "cacheable k c addr" "AllocPolicy c = WAllocate"
    and "accessL2Cache send mode len addr req ini hdl c e = Some (st, c', e')"
  shows "\<exists>v h. l2_step k mode addr ini v c c' \<and>
    runs send (notify_msgs c v h @ (if l2_allocates mode then l2_victim_msgs c v else []) @
      l2_trace mode addr req ini c) e e'"
  using quiet.l2_run [OF assms] by metis

theorem l2_follows_protocol_witness:
  "\<exists>c st c' e' v h. accessL2Cache base_send GetM 8 0 1 1 None c [] = Some (st, c', e') \<and>
     l2_step 0 GetM 0 1 v c c' \<and> e' = notify_msgs c v h @ l2_victim_msgs c v @ l2_trace GetM 0 1 1 c"
proof -
  let ?c = "CacheBase_new (2 ^ 3 * 2 * 2 ^ 1) (2 ^ 3) 2 0 LRU WBack WAllocate 2 NINE NINE False True 5"
  have some: "\<not> Option.is_none (do { c \<leftarrow> ?c; accessL2Cache base_send GetM 8 0 1 1 None c [] })" by code_simp
  then obtain c where c: "?c = Some c" by (cases ?c) simp_all
  then obtain st c' e' where r: "accessL2Cache base_send GetM 8 0 1 1 None c [] = Some (st, c', e')"
    using some by (cases "accessL2Cache base_send GetM 8 0 1 1 None c []") auto
  note wf = CacheBase_new_wf [OF c, of 0]
  have "cacheable 0 c 0" by (simp add: cacheable_def)
  then show ?thesis
    using l2_follows_protocol [OF base_env.quiet_axioms, of 0 c 0 GetM 8 1 1 None "[]"] wf r
    unfolding runs_base append_Nil by (simp add: l2_allocates_def) blast
qed

end
