(* ===== verification/CacheTlm.thy ===== *)
theory CacheTlm
  imports CpuProtocol CacheNonCoherent CacheL2
begin

text \<open>
  The cache as a TLM module (\<open>components/memory/include/memory/Cache.hpp\<close> and the end of
  \<open>CacheBase.hpp\<close>): the dispatch of an access to the four routines, the named entry points,
  the transactions that carry the messages of a cache to its neighbours, and the
  \<open>b_transport\<close> that receives them.

  A transaction is a record with the fields the code sets and reads; the data pointer is left
  out, as is the byte-enable mask, which is always empty. Delays are natural numbers in units of
  the simulator's time resolution; the environment of a cache carries the delay of the current
  transaction as its first component.
\<close>

section \<open>Dispatch\<close>

definition accessCache ::
  "'e send_hook \<Rightarrow> CoherenceCommand \<Rightarrow> u64 \<Rightarrow> u64 \<Rightarrow> idx_t \<Rightarrow> idx_t \<Rightarrow> nat option \<Rightarrow> cache \<Rightarrow> 'e \<Rightarrow>
   'e cache_result" where
  "accessCache send mode len addr req ini hdl c e =
     (if \<not> IsCoherent c then accessNonCoherentCache send mode len addr req ini hdl c e
      else if IsHome c then accessCoherentHome send mode len addr req ini hdl c e
      else if Level c = 1 then accessCpuCache send mode len addr req ini hdl c e
      else if Level c = 2 then accessL2Cache send mode len addr req ini hdl c e
      else None)"

definition ReadData :: "'e send_hook \<Rightarrow> u64 \<Rightarrow> u64 \<Rightarrow> idx_t \<Rightarrow> idx_t \<Rightarrow> nat option \<Rightarrow> cache \<Rightarrow> 'e \<Rightarrow> 'e cache_result" where
  "ReadData send addr len req ini hdl c e = accessCache send Read len addr req ini hdl c e"

definition WriteData :: "'e send_hook \<Rightarrow> u64 \<Rightarrow> u64 \<Rightarrow> idx_t \<Rightarrow> idx_t \<Rightarrow> nat option \<Rightarrow> cache \<Rightarrow> 'e \<Rightarrow> 'e cache_result" where
  "WriteData send addr len req ini hdl c e = accessCache send Write len addr req ini hdl c e"

definition InvalidateLine :: "'e send_hook \<Rightarrow> u64 \<Rightarrow> cache \<Rightarrow> 'e \<Rightarrow> 'e cache_result" where
  "InvalidateLine send addr c e = accessCache send Invalidate (CacheLineSize c) addr NULL_IDX NULL_IDX None c e"

text \<open>
  The entry points \<open>EvictLine\<close>, \<open>AccessGetM\<close>, \<open>AccessGetS\<close>, \<open>AccessFwdGetM\<close>, \<open>AccessFwdGetS\<close>, \<open>AccessPutS\<close>,
  \<open>AccessPutM\<close>, \<open>AccessPutI\<close>, \<open>AccessInvS\<close>, \<open>AccessInvM\<close>, \<open>AccessReadBack\<close> differ in the command only.
\<close>

definition AccessCommand ::
  "CoherenceCommand \<Rightarrow> 'e send_hook \<Rightarrow> u64 \<Rightarrow> u64 \<Rightarrow> idx_t \<Rightarrow> idx_t \<Rightarrow> cache \<Rightarrow> 'e \<Rightarrow> 'e cache_result" where
  "AccessCommand cmd send addr len req ini c e = accessCache send cmd len addr req ini None c e"

section \<open>Transactions\<close>

record CoherencePayloadExtension =
  initiatorId :: idx_t
  requesterId :: idx_t
  targetIds :: "idx_t set"
  Command :: "CoherenceCommand option"
  ToHome :: bool

record payload =
  pCommand :: tlm_command
  pAddress :: u64
  pLength :: u64
  pCoherence :: "CoherencePayloadExtension option"
  pCpu :: "idx_t option"

definition send_transaction :: "u64 \<Rightarrow> u64 \<Rightarrow> idx_t \<Rightarrow> tlm_command \<Rightarrow> cache \<Rightarrow> (nat \<times> payload) option" where
  "send_transaction addr len req command c =
     do {
       _ \<leftarrow> cassert (command \<noteq> TLM_IGNORE_COMMAND);
       Some (0, \<lparr>pCommand = command, pAddress = addr, pLength = len,
         pCoherence = Some \<lparr>initiatorId = Id c, requesterId = req, targetIds = {}, Command = None,
           ToHome = \<not> IsHome c\<rparr>, pCpu = Some (Id c)\<rparr>)
     }"

definition send_coherence_transaction ::
  "u64 \<Rightarrow> u64 \<Rightarrow> idx_t \<Rightarrow> idx_t set \<Rightarrow> CoherenceCommand \<Rightarrow> cache \<Rightarrow> (nat \<times> payload) option" where
  "send_coherence_transaction addr len req targets command c =
     do {
       let upstream = (command \<in> {FwdGetS, FwdGetM, PutI, InvS, InvM});
       _ \<leftarrow> cassert (\<not> (upstream \<and> IsHome c) \<or> targets \<noteq> {});
       let tr = \<lparr>pCommand = TLM_IGNORE_COMMAND, pAddress = addr, pLength = len,
         pCoherence = Some \<lparr>initiatorId = Id c, requesterId = req,
           targetIds = (if upstream then targets else {}), Command = Some command, ToHome = \<not> IsHome c\<rparr>,
         pCpu = Some (Id c)\<rparr>;
       let sock = (if command \<in> {Read, Write, GetS, GetM, PutS, PutM, Evict} then 0
                   else if upstream then (if IsHome c then 0 else 1)
                   else 1);
       Some (sock, tr)
     }"

definition send_invalidate_transaction :: "u64 \<Rightarrow> idx_t set \<Rightarrow> cache \<Rightarrow> (nat \<times> payload) option" where
  "send_invalidate_transaction addr targets c =
     do {
       _ \<leftarrow> cassert (\<not> IsHome c \<or> targets \<noteq> {});
       Some (if IsHome c then 0 else 1, \<lparr>pCommand = TLM_IGNORE_COMMAND, pAddress = addr, pLength = 0,
         pCoherence = Some \<lparr>initiatorId = Id c, requesterId = NULL_IDX, targetIds = targets,
           Command = Some Invalidate, ToHome = \<not> IsHome c\<rparr>, pCpu = Some (Id c)\<rparr>)
     }"

definition send_evict_transaction :: "u64 \<Rightarrow> u64 \<Rightarrow> cache \<Rightarrow> nat \<times> payload" where
  "send_evict_transaction addr len c =
     (0, \<lparr>pCommand = TLM_IGNORE_COMMAND, pAddress = addr, pLength = len,
        pCoherence = Some \<lparr>initiatorId = Id c, requesterId = NULL_IDX, targetIds = {},
          Command = Some Evict, ToHome = \<not> IsHome c\<rparr>, pCpu = Some (Id c)\<rparr>)"

definition send_readback_transaction :: "u64 \<Rightarrow> u64 \<Rightarrow> idx_t set \<Rightarrow> cache \<Rightarrow> (nat \<times> payload) option" where
  "send_readback_transaction addr len targets c =
     do {
       _ \<leftarrow> cassert (\<not> IsHome c \<or> targets \<noteq> {});
       Some (if IsHome c then 0 else 1, \<lparr>pCommand = TLM_IGNORE_COMMAND, pAddress = addr, pLength = len,
         pCoherence = Some \<lparr>initiatorId = Id c, requesterId = NULL_IDX, targetIds = targets,
           Command = Some ReadBack, ToHome = \<not> IsHome c\<rparr>, pCpu = Some (Id c)\<rparr>)
     }"

text \<open>The overridden virtual methods: which transaction carries which message, on which socket.\<close>

fun transaction_of :: "cache \<Rightarrow> cache_msg \<Rightarrow> (nat \<times> payload) option" where
  "transaction_of c (ForwardReadData a n req) = send_transaction a n req TLM_READ_COMMAND c"
| "transaction_of c (BackwardRead a n req ts) = send_readback_transaction a n ts c"
| "transaction_of c (ForwardWriteData a n req) = send_transaction a n req TLM_WRITE_COMMAND c"
| "transaction_of c (ForwardEvict a n req) = Some (send_evict_transaction a n c)"
| "transaction_of c (BackInvalidate a ts) = send_invalidate_transaction a ts c"
| "transaction_of c (SendGetS a n req) = send_coherence_transaction a n req {} GetS c"
| "transaction_of c (SendGetM a n req) = send_coherence_transaction a n req {} GetM c"
| "transaction_of c (SendPutS a n req) = send_coherence_transaction a n req {} PutS c"
| "transaction_of c (SendPutM a n req) = send_coherence_transaction a n req {} PutM c"
| "transaction_of c (SendFwdGetS a n req ts) = send_coherence_transaction a n req ts FwdGetS c"
| "transaction_of c (SendFwdGetM a n req ts) = send_coherence_transaction a n req ts FwdGetM c"
| "transaction_of c (SendPutI a n req ts) =
     do { _ \<leftarrow> cassert (ts \<noteq> {}); send_coherence_transaction a n req ts PutI c }"
| "transaction_of c (NotifyEviction h) = None"

text \<open>
  The hook of a cache whose sockets are bound to \<open>out\<close>: the transaction goes out and its
  response comes back; the cache itself may be called meanwhile, so \<open>out\<close> returns its state.
  The eviction callback is not a transaction: \<open>note\<close> stands for the function registered for it.
\<close>

definition tlm_send ::
  "(nat \<Rightarrow> payload \<Rightarrow> cache \<Rightarrow> 'e \<Rightarrow> 'e cache_result) \<Rightarrow> (nat option \<Rightarrow> 'e \<Rightarrow> 'e) \<Rightarrow> 'e send_hook" where
  "tlm_send out note m c e =
     (case m of
        NotifyEviction h \<Rightarrow> Some (TLM_OK_RESPONSE, c, note h e)
      | _ \<Rightarrow> do { (sock, tr) \<leftarrow> transaction_of c m; out sock tr c e })"

section \<open>Receiving a transaction\<close>

definition adds_latency :: "nat \<Rightarrow> payload \<Rightarrow> CoherencePayloadExtension option \<Rightarrow> bool" where
  "adds_latency level tr ext =
     (case pCommand tr of
        TLM_WRITE_COMMAND \<Rightarrow> level = 1
      | TLM_READ_COMMAND \<Rightarrow> True
      | TLM_IGNORE_COMMAND \<Rightarrow>
          (case ext of None \<Rightarrow> False
           | Some x \<Rightarrow> Command x \<in> Some ` {GetS, GetM, FwdGetS, FwdGetM, ReadBack}))"

definition b_transport_access ::
  "'e send_hook \<Rightarrow> payload \<Rightarrow> idx_t \<Rightarrow> idx_t \<Rightarrow> cache \<Rightarrow> 'e \<Rightarrow> 'e cache_result" where
  "b_transport_access send tr srcId req c e =
     (case pCommand tr of
        TLM_WRITE_COMMAND \<Rightarrow> WriteData send (pAddress tr) (pLength tr) req srcId None c e
      | TLM_READ_COMMAND \<Rightarrow> ReadData send (pAddress tr) (pLength tr) req srcId None c e
      | TLM_IGNORE_COMMAND \<Rightarrow>
          (case pCoherence tr of None \<Rightarrow> None
           | Some x \<Rightarrow>
               (case Command x of None \<Rightarrow> None
                | Some Read \<Rightarrow> None
                | Some Write \<Rightarrow> None
                | Some Invalidate \<Rightarrow> InvalidateLine send (pAddress tr) c e
                | Some cmd \<Rightarrow> AccessCommand cmd send (pAddress tr) (pLength tr) req srcId c e)))"

definition b_transport ::
  "nat \<Rightarrow> (nat \<times> 'x) send_hook \<Rightarrow> payload \<Rightarrow> cache \<Rightarrow> (nat \<times> 'x) \<Rightarrow> (nat \<times> 'x) cache_result" where
  "b_transport Latency send tr c e =
     do {
       cpu \<leftarrow> pCpu tr;
       (srcId, req) \<leftarrow>
         (if Level c = 1 \<and> pCommand tr \<noteq> TLM_IGNORE_COMMAND then Some (cpu, NULL_IDX)
          else do { x \<leftarrow> pCoherence tr; Some (initiatorId x, requesterId x) });
       (rsp, c', d, x) \<leftarrow> b_transport_access send tr srcId req c e;
       Some (rsp, c', if adds_latency (Level c) tr (pCoherence tr) then d + Latency else d, x)
     }"

section \<open>Properties\<close>

text \<open>The request that a message of cache \<open>i\<close> makes to the cache that receives it.\<close>

fun request_of :: "cache_msg \<Rightarrow> (CoherenceCommand \<times> u64 \<times> u64 \<times> idx_t) option" where
  "request_of (SendGetS a n req) = Some (GetS, a, n, req)"
| "request_of (SendGetM a n req) = Some (GetM, a, n, req)"
| "request_of (SendPutS a n req) = Some (PutS, a, n, req)"
| "request_of (SendPutM a n req) = Some (PutM, a, n, req)"
| "request_of (SendFwdGetS a n req ts) = Some (FwdGetS, a, n, req)"
| "request_of (SendFwdGetM a n req ts) = Some (FwdGetM, a, n, req)"
| "request_of (SendPutI a n req ts) = Some (PutI, a, n, req)"
| "request_of _ = None"

definition late :: "nat \<Rightarrow> CoherenceCommand \<Rightarrow> nat" where
  "late Latency cmd = (if cmd \<in> {GetS, GetM, FwdGetS, FwdGetM} then Latency else 0)"

text \<open>
  C8: Messages survive the transport. The transaction a cache builds for a coherence message,
  received by the \<open>b_transport\<close> of another cache, is the access the message stands for, with the
  sender as initiator, and the latency of the receiving cache is added exactly for the four commands that wait
  for data. Requests to the home and everything a home sends leave on the first socket, what a
  private cache sends upwards on the second.
\<close>
theorem transaction_roundtrip:
  assumes "request_of m = Some (cmd, a, n, req)" and "transaction_of c m = Some (sock, tr)"
  shows "b_transport Latency send tr t (d, x) =
      do { (rsp, t', d', x') \<leftarrow> accessCache send cmd n a req (Id c) None t (d, x); Some (rsp, t', d' + late Latency cmd, x') } \<and>
    (sock = 0 \<longleftrightarrow> IsHome c \<or> cmd \<in> {GetS, GetM, PutS, PutM})"
  using assms
  by (cases m) (auto simp: send_coherence_transaction_def Let_def b_transport_def b_transport_access_def
      AccessCommand_def adds_latency_def late_def osimps split: if_splits prod.splits intro!: Option.bind_cong)

definition timed_send :: "(nat \<times> cache_msg list) send_hook" where
  "timed_send m c e = Some (TLM_OK_RESPONSE, c, fst e, snd e @ [m])"

theorem transaction_roundtrip_witness:
  "\<exists>c tr. transaction_of c (SendGetS 64 8 3) = Some (0, tr) \<and>
     b_transport 5 timed_send tr c (7, []) =
       do { (rsp, t, d, x) \<leftarrow> accessCache timed_send GetS 8 64 3 (Id c) None c (7, []); Some (rsp, t, d + 5, x) }"
proof -
  obtain c :: cache where "Id c = 1" using fresh_cache [where ident = 1] by metis
  obtain sock tr where tr: "transaction_of c (SendGetS 64 8 3) = Some (sock, tr)"
    by (auto simp: send_coherence_transaction_def Let_def)
  then show ?thesis
    using transaction_roundtrip [OF _ tr, of GetS 64 8 3 5 timed_send c 7 "[]"]
    by (simp add: late_def) blast
qed

interpretation timed_env: responsive timed_send
  by unfold_locales (auto simp: timed_send_def)

end
