(* ===== verification/MeshNoC.thy ===== *)
theory MeshNoC
  imports CacheTlm
begin

text \<open>
  The coherent interconnect (\<open>components/connect/CoherenceInterconnect.cpp\<close>): its
  configuration, the address and identifier maps, and the model of the mesh: positions,
  distances, XY routes, the registration of flits in the routers they cross and the waiting
  times of the contention mode. The transport of transactions is in theory \<open>MeshTransport\<close>.

  Times are natural numbers in units of the simulator's time resolution. The code computes the
  waiting time of a queue in double precision and rounds it to the resolution; here it is computed
  exactly and rounded in the same way. A runtime error the code throws, a failed assertion and
  an access outside a vector or a map are all \<open>None\<close>.
\<close>

section \<open>State\<close>

record id_struct =
  i_name :: string
  i_id :: idx_t
  i_port :: u32
  i_position :: idx_t

record addr_struct =
  a_base :: u64
  a_end :: u64
  a_offset :: u64
  a_port :: u32

record id_addr_struct =
  h_id :: idx_t
  h_base :: u64
  h_end :: u64
  h_offset :: u64
  h_port :: u32

record mesh_pos =
  x_id :: idx_t
  y_id :: idx_t

type_synonym route = "(idx_t \<times> idx_t \<times> char) list"
type_synonym outputBuffer = "(u64 \<times> nat) list"

record interconnect =
  CacheOutputs :: "id_struct list"
  MMappedOutputs :: "addr_struct list"
  HomeOutputs :: "id_addr_struct list"
  ACCESS_LATENCY :: nat
  CacheCount :: nat
  HomeCount :: nat
  MMappedCount :: nat
  FlitSize :: u32
  MWordLengthInByte :: u32
  icCoherent :: bool
  MemoryInterleaveLength :: u32
  SLCInterleaveLength :: u32
  RamBaseAddr :: u64
  RamLastAddr :: u64
  IndexFirstMemoryController :: u32
  mAddressIDs :: "(u64 \<times> u64 \<times> mesh_pos) list"
  mReadCount :: "u64 list"
  mWriteCount :: "u64 list"
  mCpuIDs :: "(u64 \<times> mesh_pos) list"
  mDeviceIDs :: "(u64 \<times> mesh_pos) list"
  mHomeIDs :: "(u64 \<times> u64 \<times> mesh_pos) list"
  mIsMesh :: bool
  mStatsPerInitiator :: bool
  mX :: idx_t
  mY :: idx_t
  mRouterLatency :: nat
  mLinkLatency :: nat
  mContentionInterval :: nat
  mWithContention :: bool
  mBufferSize :: u32
  mVirtualChannels :: u32
  interval_start :: nat
  interval_end :: nat
  AverageLatency :: nat
  totalFlits :: u64
  packet_latency :: nat
  TotalDistance :: u64
  TotalLatency :: nat
  PacketsCount :: u64
  initTotalStats :: "idx_t \<rightharpoonup> (mesh_pos \<times> u64 \<times> u64 \<times> nat)"
  noc :: "idx_t \<times> idx_t \<times> char \<Rightarrow> outputBuffer"
  packetBuffer :: "(u64 \<times> route \<times> nat) list"
  RouterTotalLatency :: "nat list"
  RouterPacketsCount :: "u64 list"

section \<open>Configuration\<close>

definition CoherenceInterconnect_new ::
  "nat \<Rightarrow> nat \<Rightarrow> nat \<Rightarrow> u32 \<Rightarrow> u32 \<Rightarrow> bool \<Rightarrow> u32 \<Rightarrow> u32 \<Rightarrow> interconnect" where
  "CoherenceInterconnect_new num_cache_out num_home_out num_mmapped flitSize wordLength isCoherent memIL slcIL =
     \<lparr>CacheOutputs = replicate num_cache_out \<lparr>i_name = [], i_id = 0, i_port = 0, i_position = 0\<rparr>,
      MMappedOutputs = replicate num_mmapped \<lparr>a_base = 0, a_end = 0, a_offset = 0, a_port = 0\<rparr>,
      HomeOutputs = replicate num_home_out \<lparr>h_id = 0, h_base = 0, h_end = 0, h_offset = 0, h_port = 0\<rparr>,
      ACCESS_LATENCY = 0, CacheCount = 0, HomeCount = 0, MMappedCount = 0, FlitSize = flitSize,
      MWordLengthInByte = wordLength, icCoherent = isCoherent, MemoryInterleaveLength = memIL,
      SLCInterleaveLength = slcIL, RamBaseAddr = - 1, RamLastAddr = 0, IndexFirstMemoryController = - 1,
      mAddressIDs = [], mReadCount = [], mWriteCount = [], mCpuIDs = [], mDeviceIDs = [], mHomeIDs = [],
      mIsMesh = False, mStatsPerInitiator = False, mX = 0, mY = 0, mRouterLatency = 0, mLinkLatency = 0,
      mContentionInterval = 0, mWithContention = False, mBufferSize = 0, mVirtualChannels = 0,
      interval_start = 0, interval_end = 0, AverageLatency = 0, totalFlits = 0, packet_latency = 0, TotalDistance = 0, TotalLatency = 0,
      PacketsCount = 0, initTotalStats = Map.empty, noc = (\<lambda>_. []), packetBuffer = [],
      RouterTotalLatency = [], RouterPacketsCount = []\<rparr>"

definition set_cache_output :: "u32 \<Rightarrow> idx_t \<Rightarrow> interconnect \<Rightarrow> interconnect option" where
  "set_cache_output num_port ident ic =
     do {
       _ \<leftarrow> cassert (CacheCount ic < length (CacheOutputs ic));
       _ \<leftarrow> cassert (CacheCount ic = unat num_port);
       _ \<leftarrow> cassert (ident \<noteq> NULL_IDX);
       Some (ic\<lparr>CacheOutputs := (CacheOutputs ic)[unat num_port :=
                  \<lparr>i_name = [], i_id = ident, i_port = num_port, i_position = 0\<rparr>],
               CacheCount := CacheCount ic + 1\<rparr>)
     }"

definition set_mmapped_output :: "u32 \<Rightarrow> u64 \<Rightarrow> u64 \<Rightarrow> interconnect \<Rightarrow> interconnect option" where
  "set_mmapped_output num_port base_addr offset ic =
     do {
       _ \<leftarrow> cassert (MMappedCount ic < length (MMappedOutputs ic));
       Some (ic\<lparr>MMappedOutputs := (MMappedOutputs ic)[MMappedCount ic :=
                  \<lparr>a_base = base_addr, a_end = base_addr + offset - 1, a_offset = offset, a_port = num_port\<rparr>],
               MMappedCount := MMappedCount ic + 1\<rparr>)
     }"

definition set_home_output :: "u32 \<Rightarrow> idx_t \<Rightarrow> u64 \<Rightarrow> u64 \<Rightarrow> interconnect \<Rightarrow> interconnect option" where
  "set_home_output num_port ident base_addr offset ic =
     do {
       _ \<leftarrow> cassert (HomeCount ic < length (HomeOutputs ic));
       _ \<leftarrow> cassert (ident \<noteq> NULL_IDX);
       Some (ic\<lparr>HomeOutputs := (HomeOutputs ic)[HomeCount ic :=
                  \<lparr>h_id = ident, h_base = base_addr, h_end = base_addr + offset - 1, h_offset = offset,
                   h_port = num_port\<rparr>],
               HomeCount := HomeCount ic + 1\<rparr>)
     }"

fun assign_cache_id :: "u32 \<Rightarrow> idx_t \<Rightarrow> string \<Rightarrow> id_struct list \<Rightarrow> id_struct list" where
  "assign_cache_id num_port ident nm [] = []"
| "assign_cache_id num_port ident nm (o1 # os) =
     (if i_name o1 = nm then o1\<lparr>i_id := ident, i_port := num_port\<rparr> # os
      else o1 # assign_cache_id num_port ident nm os)"

definition set_cache_id :: "u32 \<Rightarrow> idx_t \<Rightarrow> string \<Rightarrow> interconnect \<Rightarrow> interconnect option" where
  "set_cache_id num_port ident nm ic =
     do {
       _ \<leftarrow> cassert (ident \<noteq> NULL_IDX);
       Some (ic\<lparr>CacheOutputs := assign_cache_id num_port ident nm (CacheOutputs ic)\<rparr>)
     }"

text \<open>An index outside the vector is undefined behaviour, here \<open>None\<close>; the id and the port stay uninitialised, here 0.\<close>

definition set_cache_pos :: "string \<Rightarrow> idx_t \<Rightarrow> interconnect \<Rightarrow> interconnect option" where
  "set_cache_pos nm pos ic =
     do {
       _ \<leftarrow> cassert (unat pos < length (CacheOutputs ic));
       Some (ic\<lparr>CacheOutputs := (CacheOutputs ic)[unat pos :=
                  \<lparr>i_name = nm, i_id = 0, i_port = 0, i_position = pos\<rparr>]\<rparr>)
     }"

definition set_mesh_coord :: "idx_t \<Rightarrow> idx_t \<Rightarrow> interconnect \<Rightarrow> interconnect" where
  "set_mesh_coord x y ic =
     (let n = unat (x * y); lat = RouterTotalLatency ic; old = RouterPacketsCount ic
      in ic\<lparr>mX := x, mY := y, RouterTotalLatency := take n lat @ replicate (n - length lat) 0,
           RouterPacketsCount := take n old @ replicate (n - length old) 0\<rparr>)"

definition register_mem_ctrl :: "u64 \<Rightarrow> u64 \<Rightarrow> idx_t \<Rightarrow> idx_t \<Rightarrow> interconnect \<Rightarrow> interconnect option" where
  "register_mem_ctrl base len x y ic =
     do {
       _ \<leftarrow> cassert (x \<noteq> NULL_IDX \<and> y \<noteq> NULL_IDX);
       _ \<leftarrow> cassert (\<not> (x > mX ic \<or> y > mY ic));
       Some (ic\<lparr>mAddressIDs := mAddressIDs ic @ [(base, len, \<lparr>x_id = x, y_id = y\<rparr>)],
               mReadCount := mReadCount ic @ [0], mWriteCount := mWriteCount ic @ [0]\<rparr>)
     }"

definition register_cpu_ctrl :: "idx_t \<Rightarrow> idx_t \<Rightarrow> idx_t \<Rightarrow> interconnect \<Rightarrow> interconnect option" where
  "register_cpu_ctrl ident x y ic =
     do {
       _ \<leftarrow> cassert (\<not> icCoherent ic \<or> ident \<noteq> NULL_IDX);
       _ \<leftarrow> cassert (\<not> (x > mX ic \<or> y > mY ic));
       Some (ic\<lparr>mCpuIDs := mCpuIDs ic @ [(ucast ident, \<lparr>x_id = x, y_id = y\<rparr>)]\<rparr>)
     }"

definition register_device_ctrl :: "idx_t \<Rightarrow> idx_t \<Rightarrow> idx_t \<Rightarrow> interconnect \<Rightarrow> interconnect option" where
  "register_device_ctrl ident x y ic =
     do {
       _ \<leftarrow> cassert (\<not> icCoherent ic \<or> ident \<noteq> NULL_IDX);
       _ \<leftarrow> cassert (\<not> (x > mX ic \<or> y > mY ic));
       Some (ic\<lparr>mDeviceIDs := mDeviceIDs ic @ [(ucast ident, \<lparr>x_id = x, y_id = y\<rparr>)]\<rparr>)
     }"

definition register_home_ctrl :: "u64 \<Rightarrow> u64 \<Rightarrow> idx_t \<Rightarrow> idx_t \<Rightarrow> interconnect \<Rightarrow> interconnect option" where
  "register_home_ctrl base len x y ic =
     do {
       _ \<leftarrow> cassert (x \<noteq> NULL_IDX \<and> y \<noteq> NULL_IDX);
       _ \<leftarrow> cassert (\<not> (x > mX ic \<or> y > mY ic));
       Some (ic\<lparr>mHomeIDs := mHomeIDs ic @ [(base, len, \<lparr>x_id = x, y_id = y\<rparr>)]\<rparr>)
     }"

definition set_first_memory_controller :: "interconnect \<Rightarrow> interconnect" where
  "set_first_memory_controller ic =
     (if IndexFirstMemoryController ic = - 1
      then ic\<lparr>IndexFirstMemoryController := of_nat (length (mAddressIDs ic))\<rparr> else ic)"

definition set_virtual_channels :: "u32 \<Rightarrow> interconnect \<Rightarrow> interconnect option" where
  "set_virtual_channels n ic = do { _ \<leftarrow> cassert (\<not> n \<le> 0); Some (ic\<lparr>mVirtualChannels := n\<rparr>) }"

definition set_buffer_size :: "u32 \<Rightarrow> interconnect \<Rightarrow> interconnect option" where
  "set_buffer_size n ic = do { _ \<leftarrow> cassert (\<not> n \<le> 0); Some (ic\<lparr>mBufferSize := n\<rparr>) }"

text \<open>The plain setters; the latencies and the interval are given in nanoseconds, here in units of the resolution.\<close>

definition set_latency :: "nat \<Rightarrow> interconnect \<Rightarrow> interconnect" where
  "set_latency v ic = ic\<lparr>ACCESS_LATENCY := v\<rparr>"

definition set_router_latency :: "nat \<Rightarrow> interconnect \<Rightarrow> interconnect" where
  "set_router_latency v ic = ic\<lparr>mRouterLatency := v\<rparr>"

definition set_link_latency :: "nat \<Rightarrow> interconnect \<Rightarrow> interconnect" where
  "set_link_latency v ic = ic\<lparr>mLinkLatency := v\<rparr>"

definition set_noc_stats_per_initiator :: "bool \<Rightarrow> interconnect \<Rightarrow> interconnect" where
  "set_noc_stats_per_initiator on ic = ic\<lparr>mStatsPerInitiator := on\<rparr>"

definition set_is_mesh :: "bool \<Rightarrow> interconnect \<Rightarrow> interconnect" where
  "set_is_mesh b ic = ic\<lparr>mIsMesh := b\<rparr>"

definition set_ram_base_addr :: "u64 \<Rightarrow> interconnect \<Rightarrow> interconnect" where
  "set_ram_base_addr a ic = ic\<lparr>RamBaseAddr := a\<rparr>"

definition set_ram_last_addr :: "u64 \<Rightarrow> interconnect \<Rightarrow> interconnect" where
  "set_ram_last_addr a ic = ic\<lparr>RamLastAddr := a\<rparr>"

definition set_memory_word_length :: "u32 \<Rightarrow> interconnect \<Rightarrow> interconnect" where
  "set_memory_word_length n ic = ic\<lparr>MWordLengthInByte := n\<rparr>"

definition set_contention :: "bool \<Rightarrow> interconnect \<Rightarrow> interconnect" where
  "set_contention b ic = ic\<lparr>mWithContention := b\<rparr>"

definition set_contention_interval :: "nat \<Rightarrow> interconnect \<Rightarrow> interconnect" where
  "set_contention_interval v ic = ic\<lparr>mContentionInterval := v\<rparr>"

section \<open>Positions in the mesh\<close>

definition in_region :: "u64 \<Rightarrow> u64 \<times> u64 \<times> mesh_pos \<Rightarrow> bool" where
  "in_region addr r = (case r of (base, len, pos) \<Rightarrow> base \<le> addr \<and> addr < len + base)"

definition first_index :: "('a \<Rightarrow> bool) \<Rightarrow> 'a list \<Rightarrow> nat option" where
  "first_index P xs = find (\<lambda>i. P (xs ! i)) [0..<length xs]"

definition get_noc_pos_by_address_without_interleave :: "u64 \<Rightarrow> interconnect \<Rightarrow> (mesh_pos \<times> nat) option" where
  "get_noc_pos_by_address_without_interleave addr ic =
     do { i \<leftarrow> first_index (in_region addr) (mAddressIDs ic); Some (snd (snd (mAddressIDs ic ! i)), i) }"

definition in_ram :: "u64 \<Rightarrow> interconnect \<Rightarrow> bool" where
  "in_ram addr ic \<longleftrightarrow> RamBaseAddr ic \<le> addr \<and> addr < RamLastAddr ic"

text \<open>The slice an address belongs to among \<open>n\<close> interleaved components; \<open>None\<close> for a division by zero.\<close>

definition slice :: "u32 \<Rightarrow> nat \<Rightarrow> u64 \<Rightarrow> interconnect \<Rightarrow> nat option" where
  "slice il n addr ic =
     do { _ \<leftarrow> cassert (il \<noteq> 0 \<and> n \<noteq> 0); Some (unat ((addr - RamBaseAddr ic) div ucast il) mod n) }"

definition get_noc_pos_by_address_with_interleave ::
  "u64 \<Rightarrow> nat \<Rightarrow> interconnect \<Rightarrow> (mesh_pos \<times> nat) option" where
  "get_noc_pos_by_address_with_interleave addr index ic =
     (if in_ram addr ic
      then do {
        k \<leftarrow> slice (MemoryInterleaveLength ic) (length (mAddressIDs ic)) addr ic;
        _ \<leftarrow> cassert (index + k < length (mAddressIDs ic));
        Some (snd (snd (mAddressIDs ic ! (index + k))), index + k)
      }
      else get_noc_pos_by_address_without_interleave addr ic)"

definition get_noc_pos_by_address :: "u64 \<Rightarrow> nat \<Rightarrow> interconnect \<Rightarrow> (mesh_pos \<times> nat) option" where
  "get_noc_pos_by_address addr index ic =
     (if MemoryInterleaveLength ic = 0 then get_noc_pos_by_address_without_interleave addr ic
      else get_noc_pos_by_address_with_interleave addr index ic)"

definition get_noc_pos_by_id :: "idx_t \<Rightarrow> interconnect \<Rightarrow> mesh_pos option" where
  "get_noc_pos_by_id ident ic =
     do { _ \<leftarrow> cassert (ident \<noteq> NULL_IDX); map_option snd (find (\<lambda>m. ucast ident = fst m) (mCpuIDs ic)) }"

definition get_device_noc_pos_by_id :: "idx_t \<Rightarrow> interconnect \<Rightarrow> mesh_pos option" where
  "get_device_noc_pos_by_id ident ic =
     do { _ \<leftarrow> cassert (ident \<noteq> NULL_IDX); map_option snd (find (\<lambda>m. ucast ident = fst m) (mDeviceIDs ic)) }"

definition get_home_pos_by_address_without_interleave :: "u64 \<Rightarrow> interconnect \<Rightarrow> mesh_pos option" where
  "get_home_pos_by_address_without_interleave addr ic =
     map_option (snd \<circ> snd) (find (in_region addr) (mHomeIDs ic))"

definition get_home_pos_by_address_with_interleave :: "u64 \<Rightarrow> interconnect \<Rightarrow> mesh_pos option" where
  "get_home_pos_by_address_with_interleave addr ic =
     do {
       _ \<leftarrow> cassert (in_ram addr ic);
       k \<leftarrow> slice (SLCInterleaveLength ic) (length (mHomeIDs ic)) addr ic;
       Some (snd (snd (mHomeIDs ic ! k)))
     }"

definition get_home_pos_by_address :: "u64 \<Rightarrow> interconnect \<Rightarrow> mesh_pos option" where
  "get_home_pos_by_address addr ic =
     (if SLCInterleaveLength ic = 0 then get_home_pos_by_address_without_interleave addr ic
      else get_home_pos_by_address_with_interleave addr ic)"

section \<open>Distances\<close>

definition hops :: "mesh_pos \<Rightarrow> mesh_pos \<Rightarrow> u64" where
  "hops s d = of_int (\<bar>uint (x_id s) - uint (x_id d)\<bar> + \<bar>uint (y_id s) - uint (y_id d)\<bar> + 1)"

fun farthest :: "interconnect \<Rightarrow> mesh_pos \<Rightarrow> idx_t list \<Rightarrow> u64 \<Rightarrow> u64 option" where
  "farthest ic s [] dist = Some dist"
| "farthest ic s (i # is) dist =
     do { p \<leftarrow> get_noc_pos_by_id i ic; farthest ic s is (max dist (hops s p)) }"

definition computeNoCLatency ::
  "bool \<Rightarrow> bool \<Rightarrow> u64 \<Rightarrow> idx_t \<Rightarrow> idx_t set \<Rightarrow> interconnect \<Rightarrow> u64 option" where
  "computeNoCLatency isHome isIdMapped addr src_id dst_ids ic =
     do {
       s \<leftarrow> get_noc_pos_by_id src_id ic;
       if \<not> isIdMapped then
         (if \<not> isHome then do { (p, _) \<leftarrow> get_noc_pos_by_address addr 0 ic; Some (hops s p) }
          else do { p \<leftarrow> get_home_pos_by_address addr ic; Some (hops s p) })
       else if icCoherent ic then farthest ic s (sorted_list_of_set dst_ids) 0
       else farthest ic s (map i_id (CacheOutputs ic)) 0
     }"

definition computeNoCPerformance :: "u64 \<Rightarrow> nat \<Rightarrow> interconnect \<Rightarrow> interconnect" where
  "computeNoCPerformance distance latency ic =
     ic\<lparr>TotalDistance := TotalDistance ic + distance, TotalLatency := TotalLatency ic + latency,
        PacketsCount := PacketsCount ic + 1\<rparr>"

definition FillInitTotalStats :: "idx_t \<Rightarrow> mesh_pos \<Rightarrow> u64 \<Rightarrow> nat \<Rightarrow> interconnect \<Rightarrow> interconnect" where
  "FillInitTotalStats ident src_pos dist lat ic =
     (let (_, n, d, l) = (case initTotalStats ic ident of Some t \<Rightarrow> t | None \<Rightarrow> (src_pos, 0, 0, 0))
      in ic\<lparr>initTotalStats := (initTotalStats ic)(ident \<mapsto> (src_pos, n + 1, d + dist, l + lat))\<rparr>)"

section \<open>Routes\<close>

text \<open>The coordinates the two kinds of loops visit.\<close>

definition down_to :: "idx_t \<Rightarrow> idx_t \<Rightarrow> idx_t list" where
  "down_to s d = map of_nat (rev [Suc (unat d)..<Suc (unat s)])"

definition up_to :: "idx_t \<Rightarrow> idx_t \<Rightarrow> idx_t list" where
  "up_to s d = map of_nat [unat s..<unat d]"

definition compute_path :: "mesh_pos \<Rightarrow> mesh_pos \<Rightarrow> route" where
  "compute_path s d =
     (if x_id d = x_id s \<and> y_id d = y_id s then [(x_id d, y_id d, CHR ''L'')]
      else
        (if x_id d < x_id s then map (\<lambda>i. (i, y_id s, CHR ''W'')) (down_to (x_id s) (x_id d))
         else if x_id d > x_id s then map (\<lambda>i. (i, y_id s, CHR ''E'')) (up_to (x_id s) (x_id d))
         else []) @
        (if y_id d < y_id s then map (\<lambda>j. (x_id d, j, CHR ''N'')) (down_to (y_id s) (y_id d)) else []) @
        (if y_id d > y_id s then map (\<lambda>j. (x_id d, j, CHR ''S'')) (up_to (y_id s) (y_id d)) else []) @
        [(x_id d, y_id d, CHR ''L'')])"

text \<open>
  An output buffer is a map from packet identifiers to waiting times: here the list of its
  entries in increasing order of the identifiers, which is the order of its iterators.
  \<open>buf_insert\<close> is the map's \<open>insert\<close>, which does not overwrite an entry.
\<close>

fun buf_insert :: "u64 \<Rightarrow> nat \<Rightarrow> outputBuffer \<Rightarrow> outputBuffer" where
  "buf_insert k v [] = [(k, v)]"
| "buf_insert k v ((k', v') # b) =
     (if k < k' then (k, v) # (k', v') # b else if k = k' then (k', v') # b else (k', v') # buf_insert k v b)"

fun insert_flits :: "u32 \<Rightarrow> nat \<Rightarrow> outputBuffer \<Rightarrow> outputBuffer" where
  "insert_flits ident 0 b = b"
| "insert_flits ident (Suc n) b = insert_flits (ident + 1) n (buf_insert (ucast ident) 0 b)"

definition visit_router :: "u32 \<Rightarrow> u32 \<Rightarrow> idx_t \<times> idx_t \<times> char \<Rightarrow> interconnect \<Rightarrow> interconnect option" where
  "visit_router ident nbFlits r ic =
     (case r of (x, y, p) \<Rightarrow> do {
        let k = unat (x + y * mX ic);
        _ \<leftarrow> cassert (k < length (RouterPacketsCount ic));
        Some (ic\<lparr>noc := (noc ic)(r := insert_flits ident (unat nbFlits) (noc ic r)),
                RouterPacketsCount := (RouterPacketsCount ic)[k := RouterPacketsCount ic ! k + ucast nbFlits]\<rparr>)
      })"

fun visit_all :: "u32 \<Rightarrow> u32 \<Rightarrow> route \<Rightarrow> interconnect \<Rightarrow> interconnect option" where
  "visit_all ident nbFlits [] ic = Some ic"
| "visit_all ident nbFlits (r # rs) ic = do { ic \<leftarrow> visit_router ident nbFlits r ic; visit_all ident nbFlits rs ic }"

definition ComputeRouteAndUpdateRouters ::
  "mesh_pos \<Rightarrow> mesh_pos \<Rightarrow> u32 \<Rightarrow> u32 \<Rightarrow> interconnect \<Rightarrow> (route \<times> interconnect) option" where
  "ComputeRouteAndUpdateRouters s d ident nbFlits ic =
     do { let path = compute_path s d; ic \<leftarrow> visit_all ident nbFlits path ic; Some (path, ic) }"

definition SavePacket :: "idx_t \<Rightarrow> route \<Rightarrow> u32 \<Rightarrow> interconnect \<Rightarrow> interconnect" where
  "SavePacket ident path nbFlits ic =
     ic\<lparr>packetBuffer := packetBuffer ic @
        map (\<lambda>k. (ucast (ident + of_nat k), path, 0)) [0..<unat nbFlits]\<rparr>"

definition PacketLatency :: "nat \<Rightarrow> nat \<Rightarrow> nat \<Rightarrow> u64 \<Rightarrow> nat" where
  "PacketLatency total_wait router_latency link_latency nbr_hops =
     unat nbr_hops * router_latency + unat (nbr_hops + 1) * link_latency + total_wait"

text \<open>The mesh positions a transaction goes to, and the counters of the memory controllers.\<close>

definition count_memory :: "payload \<Rightarrow> nat \<Rightarrow> interconnect \<Rightarrow> interconnect option" where
  "count_memory tr index ic =
     (case pCommand tr of
        TLM_READ_COMMAND \<Rightarrow> do {
          _ \<leftarrow> cassert (index < length (mReadCount ic));
          Some (ic\<lparr>mReadCount := (mReadCount ic)[index := mReadCount ic ! index + pLength tr]\<rparr>)
        }
      | TLM_WRITE_COMMAND \<Rightarrow> do {
          _ \<leftarrow> cassert (index < length (mWriteCount ic));
          Some (ic\<lparr>mWriteCount := (mWriteCount ic)[index := mWriteCount ic ! index + pLength tr]\<rparr>)
        }
      | TLM_IGNORE_COMMAND \<Rightarrow> Some ic)"

fun positions :: "interconnect \<Rightarrow> idx_t list \<Rightarrow> mesh_pos list option" where
  "positions ic [] = Some []"
| "positions ic (i # is) = do { p \<leftarrow> get_noc_pos_by_id i ic; ps \<leftarrow> positions ic is; Some (p # ps) }"

definition GetDestinations ::
  "payload \<Rightarrow> bool \<Rightarrow> bool \<Rightarrow> idx_t set \<Rightarrow> interconnect \<Rightarrow> (mesh_pos list \<times> interconnect) option" where
  "GetDestinations tr isHome isIdMapped dst_ids ic =
     (if \<not> isIdMapped then
        (if \<not> isHome then do {
           (p, index) \<leftarrow> get_noc_pos_by_address (pAddress tr) (unat (IndexFirstMemoryController ic)) ic;
           ic \<leftarrow> count_memory tr index ic;
           Some ([p], ic)
         }
         else do { p \<leftarrow> get_home_pos_by_address (pAddress tr) ic; Some ([p], ic) })
      else if icCoherent ic then do { ps \<leftarrow> positions ic (sorted_list_of_set dst_ids); Some (ps, ic) }
      else do { ps \<leftarrow> positions ic (map i_id (CacheOutputs ic)); Some (ps, ic) })"

section \<open>Routes are shortest XY routes\<close>

text \<open>
  A route leads from a router to another if every hop starts where the previous one ended, the
  output port names the neighbour, and the last hop is the local port of the destination.
\<close>

definition neighbour :: "char \<Rightarrow> mesh_pos \<Rightarrow> mesh_pos option" where
  "neighbour p s =
     (if p = CHR ''W'' \<and> x_id s \<noteq> 0 then Some (s\<lparr>x_id := x_id s - 1\<rparr>)
      else if p = CHR ''E'' \<and> x_id s \<noteq> - 1 then Some (s\<lparr>x_id := x_id s + 1\<rparr>)
      else if p = CHR ''N'' \<and> y_id s \<noteq> 0 then Some (s\<lparr>y_id := y_id s - 1\<rparr>)
      else if p = CHR ''S'' \<and> y_id s \<noteq> - 1 then Some (s\<lparr>y_id := y_id s + 1\<rparr>)
      else None)"

fun leads :: "mesh_pos \<Rightarrow> route \<Rightarrow> mesh_pos \<Rightarrow> bool" where
  "leads s [] d = False"
| "leads s ((x, y, p) # rs) d =
     (x = x_id s \<and> y = y_id s \<and>
      (if p = CHR ''L'' then rs = [] \<and> s = d
       else case neighbour p s of None \<Rightarrow> False | Some s' \<Rightarrow> leads s' rs d))"

text \<open>The Manhattan distance in the integers, plus the router itself.\<close>

definition manhattan :: "mesh_pos \<Rightarrow> mesh_pos \<Rightarrow> int" where
  "manhattan s d = \<bar>uint (x_id s) - uint (x_id d)\<bar> + \<bar>uint (y_id s) - uint (y_id d)\<bar> + 1"

lemma unat_dec: "(x :: 'a::len word) \<noteq> 0 \<Longrightarrow> unat x = Suc (unat (x - 1))"
  by (simp add: unat_minus_one unat_gt_0)

lemma unat_inc: "(x :: 'a::len word) \<noteq> - 1 \<Longrightarrow> unat (x + 1) = Suc (unat x)"
  by (metis add.commute add_eq_0_iff2 unatSuc)

lemma down_to_Nil [simp]: "s \<le> d \<Longrightarrow> down_to s d = []"
  by (simp add: down_to_def word_le_nat_alt)

lemma up_to_Nil [simp]: "d \<le> s \<Longrightarrow> up_to s d = []"
  by (simp add: up_to_def word_le_nat_alt)

lemma down_to_rec:
  assumes "d < s"
  shows "down_to s d = s # down_to (s - 1) d" and "d \<le> s - 1" and "unat s = Suc (unat (s - 1))"
proof -
  have "s \<noteq> 0" using assms by auto
  then show u: "unat s = Suc (unat (s - 1))" by (rule unat_dec)
  moreover have "unat d < unat s" using assms by (simp add: word_less_nat_alt)
  moreover have "s = of_nat (Suc (unat (s - 1)))" by (simp flip: u)
  ultimately show "down_to s d = s # down_to (s - 1) d" "d \<le> s - 1"
    by (auto simp: down_to_def word_le_nat_alt)
qed

lemma up_to_rec:
  assumes "s < d"
  shows "up_to s d = s # up_to (s + 1) d" and "s + 1 \<le> d" and "unat (s + 1) = Suc (unat s)" and "s \<noteq> - 1"
proof -
  show "s \<noteq> - 1" using assms word_order.extremum_strict by blast
  then show u: "unat (s + 1) = Suc (unat s)" by (rule unat_inc)
  moreover have "unat s < unat d" using assms by (simp add: word_less_nat_alt)
  ultimately show "up_to s d = s # up_to (s + 1) d" "s + 1 \<le> d"
    by (simp_all add: up_to_def upt_conv_Cons word_le_nat_alt)
qed

lemma length_down_to [simp]: "length (down_to s d) = unat s - unat d"
  by (auto simp: down_to_def)

lemma length_up_to [simp]: "length (up_to s d) = unat d - unat s"
  by (simp add: up_to_def)

text \<open>Each of the four loops leads from where it starts to where it ends.\<close>

lemma leads_W:
  assumes "d \<le> s" and "leads \<lparr>x_id = d, y_id = y\<rparr> rs t"
  shows "leads \<lparr>x_id = s, y_id = y\<rparr> (map (\<lambda>i. (i, y, CHR ''W'')) (down_to s d) @ rs) t"
  using assms(1)
proof (induction "unat s" arbitrary: s rule: less_induct)
  case less
  show ?case
  proof (cases "s = d")
    case False
    then have "d < s" using less.prems by simp
    then show ?thesis using less.hyps [of "s - 1"] by (auto simp: down_to_rec neighbour_def)
  qed (use assms(2) in simp)
qed

lemma leads_N:
  assumes "d \<le> s" and "leads \<lparr>x_id = x, y_id = d\<rparr> rs t"
  shows "leads \<lparr>x_id = x, y_id = s\<rparr> (map (\<lambda>j. (x, j, CHR ''N'')) (down_to s d) @ rs) t"
  using assms(1)
proof (induction "unat s" arbitrary: s rule: less_induct)
  case less
  show ?case
  proof (cases "s = d")
    case False
    then have "d < s" using less.prems by simp
    then show ?thesis using less.hyps [of "s - 1"] by (auto simp: down_to_rec neighbour_def)
  qed (use assms(2) in simp)
qed

lemma leads_E:
  assumes "s \<le> d" and "leads \<lparr>x_id = d, y_id = y\<rparr> rs t"
  shows "leads \<lparr>x_id = s, y_id = y\<rparr> (map (\<lambda>i. (i, y, CHR ''E'')) (up_to s d) @ rs) t"
  using assms(1)
proof (induction "unat d - unat s" arbitrary: s rule: less_induct)
  case less
  show ?case
  proof (cases "s = d")
    case False
    then have "s < d" using less.prems by simp
    moreover from this have "unat s < unat d" by (simp add: word_less_nat_alt)
    ultimately show ?thesis using less.hyps [of "s + 1"] by (simp add: up_to_rec neighbour_def)
  qed (use assms(2) in simp)
qed

lemma leads_S:
  assumes "s \<le> d" and "leads \<lparr>x_id = x, y_id = d\<rparr> rs t"
  shows "leads \<lparr>x_id = x, y_id = s\<rparr> (map (\<lambda>j. (x, j, CHR ''S'')) (up_to s d) @ rs) t"
  using assms(1)
proof (induction "unat d - unat s" arbitrary: s rule: less_induct)
  case less
  show ?case
  proof (cases "s = d")
    case False
    then have "s < d" using less.prems by simp
    moreover from this have "unat s < unat d" by (simp add: word_less_nat_alt)
    ultimately show ?thesis using less.hyps [of "s + 1"] by (simp add: up_to_rec neighbour_def)
  qed (use assms(2) in simp)
qed

lemma leads_here: "leads \<lparr>x_id = x, y_id = y\<rparr> [(x, y, CHR ''L'')] \<lparr>x_id = x, y_id = y\<rparr>"
  by simp

lemma compute_path_alt:
  "compute_path \<lparr>x_id = sx, y_id = sy\<rparr> \<lparr>x_id = dx, y_id = dy\<rparr> =
     map (\<lambda>i. (i, sy, CHR ''W'')) (down_to sx dx) @ map (\<lambda>i. (i, sy, CHR ''E'')) (up_to sx dx) @
     map (\<lambda>j. (dx, j, CHR ''N'')) (down_to sy dy) @ map (\<lambda>j. (dx, j, CHR ''S'')) (up_to sy dy) @
     [(dx, dy, CHR ''L'')]"
  by (auto simp: compute_path_def)

lemma leads_compute_path: "leads s (compute_path s d) d"
proof -
  obtain sx sy dx dy where s: "s = \<lparr>x_id = sx, y_id = sy\<rparr>" and d: "d = \<lparr>x_id = dx, y_id = dy\<rparr>"
    by (metis mesh_pos.cases)
  have y: "leads \<lparr>x_id = dx, y_id = sy\<rparr> (map (\<lambda>j. (dx, j, CHR ''N'')) (down_to sy dy) @
      map (\<lambda>j. (dx, j, CHR ''S'')) (up_to sy dy) @ [(dx, dy, CHR ''L'')]) d"
    unfolding d by (cases "dy \<le> sy") (simp_all add: leads_N [OF _ leads_here] leads_S [OF _ leads_here])
  then show ?thesis
    unfolding s d compute_path_alt using leads_W [OF _ y] leads_E [OF _ y] by (cases "dx \<le> sx") (simp_all add: d)
qed

lemma manhattan_nat:
  "manhattan s d = int ((unat (x_id s) - unat (x_id d)) + (unat (x_id d) - unat (x_id s)) +
     (unat (y_id s) - unat (y_id d)) + (unat (y_id d) - unat (y_id s)) + 1)"
  unfolding manhattan_def uint_nat by arith

lemma length_compute_path: "int (length (compute_path s d)) = manhattan s d"
proof -
  obtain sx sy dx dy where s: "s = \<lparr>x_id = sx, y_id = sy\<rparr>" and d: "d = \<lparr>x_id = dx, y_id = dy\<rparr>"
    by (metis mesh_pos.cases)
  show ?thesis unfolding s d compute_path_alt manhattan_nat by simp
qed

lemma uint_dec: "(x :: 'a::len word) \<noteq> 0 \<Longrightarrow> uint (x - 1) = uint x - 1"
  unfolding uint_nat using unat_dec [of x] by arith

lemma uint_inc: "(x :: 'a::len word) \<noteq> - 1 \<Longrightarrow> uint (x + 1) = uint x + 1"
  unfolding uint_nat using unat_inc [of x] by arith

lemma neighbour_manhattan:
  assumes "neighbour p s = Some s'"
  shows "\<bar>manhattan s d - manhattan s' d\<bar> \<le> 1"
proof -
  consider "x_id s \<noteq> 0" "s' = s\<lparr>x_id := x_id s - 1\<rparr>" | "x_id s \<noteq> - 1" "s' = s\<lparr>x_id := x_id s + 1\<rparr>" |
    "y_id s \<noteq> 0" "s' = s\<lparr>y_id := y_id s - 1\<rparr>" | "y_id s \<noteq> - 1" "s' = s\<lparr>y_id := y_id s + 1\<rparr>"
    using assms by (auto simp: neighbour_def split: if_splits)
  then show ?thesis by cases (simp_all add: manhattan_def uint_dec uint_inc)
qed

lemma leads_manhattan: "leads s rs d \<Longrightarrow> manhattan s d \<le> int (length rs)"
proof (induction s rs d rule: leads.induct)
  case (2 s x y p rs d)
  show ?case
  proof (cases "p = CHR ''L''")
    case True then show ?thesis using "2.prems" by (simp add: manhattan_def)
  next
    case False
    then obtain s' where "neighbour p s = Some s'" "leads s' rs d" using "2.prems" by (auto split: option.splits)
    then show ?thesis using "2.IH" [OF False] neighbour_manhattan [of p s s' d] by fastforce
  qed
qed simp

lemma uint_dist_less: "\<bar>uint (x :: u32) - uint (y :: u32)\<bar> < 4294967296"
proof -
  have b: "uint z < 4294967296" "0 \<le> uint z" for z :: u32 using uint_lt2p [of z] by simp_all
  show ?thesis using b [of x] b [of y] by arith
qed

lemma unat_hops: "int (unat (hops s d)) = manhattan s d"
proof -
  have "0 \<le> manhattan s d" by (simp add: manhattan_def)
  moreover have "manhattan s d < 2 ^ 64"
    using uint_dist_less [of "x_id s" "x_id d"] uint_dist_less [of "y_id s" "y_id d"]
    unfolding manhattan_def by simp
  ultimately show ?thesis by (simp add: hops_def uint_word_of_int_eq take_bit_int_eq_self flip: manhattan_def)
qed

text \<open>
  C12: Routes are shortest XY routes. The route the interconnect computes is connected: it starts at the
  source router, every output port leads to the next router of the route, and it ends at the local port of
  the destination. It has exactly as many routers as the distance used for the latency says,
  and no connected route between the two routers has fewer.
\<close>
theorem xy_route_shortest:
  "leads s (compute_path s d) d \<and> length (compute_path s d) = unat (hops s d) \<and>
   (\<forall>rs. \<not> (leads s rs d \<and> length rs < unat (hops s d)))"
proof -
  have "length (compute_path s d) = unat (hops s d)"
    using length_compute_path [of s d] unat_hops [of s d] by (metis of_nat_eq_iff)
  moreover have "\<not> (leads s rs d \<and> length rs < unat (hops s d))" for rs
    using leads_manhattan [of s rs d] unfolding unat_hops [symmetric] by fastforce
  ultimately show ?thesis using leads_compute_path by blast
qed


subsection \<open>Which routers a packet counts in\<close>

definition pos_of :: "idx_t \<times> idx_t \<times> char \<Rightarrow> mesh_pos" where
  "pos_of r = (case r of (x, y, p) \<Rightarrow> \<lparr>x_id = x, y_id = y\<rparr>)"

definition inside :: "interconnect \<Rightarrow> mesh_pos \<Rightarrow> bool" where
  "inside ic p \<longleftrightarrow> x_id p < mX ic \<and> y_id p < mY ic"

definition mesh_ok :: "interconnect \<Rightarrow> bool" where
  "mesh_ok ic \<longleftrightarrow> unat (mX ic) * unat (mY ic) < 2 ^ 32 \<and>
     length (RouterPacketsCount ic) = unat (mX ic) * unat (mY ic) \<and>
     length (RouterTotalLatency ic) = unat (mX ic) * unat (mY ic)"

definition router_slot :: "interconnect \<Rightarrow> mesh_pos \<Rightarrow> nat" where
  "router_slot ic p = unat (x_id p) + unat (y_id p) * unat (mX ic)"

definition packets_at :: "interconnect \<Rightarrow> mesh_pos \<Rightarrow> u64" where
  "packets_at ic p = RouterPacketsCount ic ! router_slot ic p"

lemma set_mesh_coord_ok:
  "unat x * unat y < 2 ^ 32 \<Longrightarrow> mesh_ok (set_mesh_coord x y ic)"
  by (simp add: mesh_ok_def set_mesh_coord_def Let_def unat_word_ariths min_def)

lemma slot_less:
  assumes "inside ic p" shows "router_slot ic p < unat (mX ic) * unat (mY ic)"
proof -
  have "unat (x_id p) < unat (mX ic)" "Suc (unat (y_id p)) \<le> unat (mY ic)"
    using assms by (auto simp: inside_def word_less_nat_alt)
  then have "unat (mX ic) * Suc (unat (y_id p)) \<le> unat (mX ic) * unat (mY ic)" by (intro mult_le_mono) auto
  then show ?thesis using \<open>unat (x_id p) < unat (mX ic)\<close> by (simp add: router_slot_def mult.commute)
qed

lemma slot_inj:
  assumes "inside ic p" and "inside ic q" and "router_slot ic p = router_slot ic q"
  shows "p = q"
proof -
  have x: "unat (x_id p) < unat (mX ic)" "unat (x_id q) < unat (mX ic)"
    using assms by (auto simp: inside_def word_less_nat_alt)
  have "router_slot ic p mod unat (mX ic) = unat (x_id p)" "router_slot ic q mod unat (mX ic) = unat (x_id q)"
    "router_slot ic p div unat (mX ic) = unat (y_id p)" "router_slot ic q div unat (mX ic) = unat (y_id q)"
    using x by (simp_all add: router_slot_def)
  then show ?thesis using assms(3) by (metis mesh_pos.equality old.unit.exhaust word_unat_eq_iff)
qed

lemma slot_word:
  assumes "mesh_ok ic" and "inside ic p"
  shows "unat (x_id p + y_id p * mX ic) = router_slot ic p"
proof -
  have "router_slot ic p < 2 ^ 32" using slot_less [OF assms(2)] assms(1) by (simp add: mesh_ok_def)
  then show ?thesis by (simp add: router_slot_def unat_word_ariths mod_add_right_eq)
qed

lemma visit_router_ok:
  assumes "mesh_ok ic" and "inside ic (pos_of r)"
  shows "visit_router ident n r ic =
    Some (ic\<lparr>noc := (noc ic)(r := insert_flits ident (unat n) (noc ic r)),
             RouterPacketsCount := (RouterPacketsCount ic)[router_slot ic (pos_of r) :=
               packets_at ic (pos_of r) + ucast n]\<rparr>)"
  using slot_word [OF assms] slot_less [OF assms(2)] assms(1)
  by (cases r) (simp add: visit_router_def pos_of_def packets_at_def mesh_ok_def Let_def osimps)

text \<open>What visiting routers leaves alone.\<close>

definition same_mesh :: "interconnect \<Rightarrow> interconnect \<Rightarrow> bool" where
  "same_mesh ic ic' \<longleftrightarrow>
     (\<exists>f c. ic' = ic\<lparr>noc := f, RouterPacketsCount := c\<rparr> \<and> length c = length (RouterPacketsCount ic))"

lemma same_meshD:
  assumes "same_mesh ic ic'"
  shows "mX ic' = mX ic" and "mY ic' = mY ic" and "packetBuffer ic' = packetBuffer ic"
    and "totalFlits ic' = totalFlits ic" and "RouterTotalLatency ic' = RouterTotalLatency ic"
  using assms by (auto simp: same_mesh_def)

lemma same_meshI:
  "length c = length (RouterPacketsCount ic) \<Longrightarrow> same_mesh ic (ic\<lparr>noc := f, RouterPacketsCount := c\<rparr>)"
  unfolding same_mesh_def by blast

lemma same_mesh_refl [simp]: "same_mesh ic ic"
proof -
  have "ic = ic\<lparr>noc := noc ic, RouterPacketsCount := RouterPacketsCount ic\<rparr>" by simp
  then show ?thesis unfolding same_mesh_def by blast
qed

lemma same_mesh_trans: "same_mesh a b \<Longrightarrow> same_mesh b c \<Longrightarrow> same_mesh a c"
  by (force simp: same_mesh_def)

lemma same_mesh_ok: "same_mesh ic ic' \<Longrightarrow> mesh_ok ic' = mesh_ok ic"
  using same_meshD [of ic ic'] by (auto simp: mesh_ok_def same_mesh_def)

lemma same_mesh_inside: "same_mesh ic ic' \<Longrightarrow> inside ic' p = inside ic p"
  using same_meshD [of ic ic'] by (auto simp: inside_def)

lemma visit_all_ok:
  assumes "mesh_ok ic" and "\<forall>r \<in> set rs. inside ic (pos_of r)" and "distinct (map pos_of rs)"
  shows "\<exists>ic'. visit_all ident n rs ic = Some ic' \<and> same_mesh ic ic' \<and>
    (\<forall>p. inside ic p \<longrightarrow> packets_at ic' p = packets_at ic p + (if p \<in> pos_of ` set rs then ucast n else 0)) \<and>
    (\<forall>r. noc ic' r = (if r \<in> set rs then insert_flits ident (unat n) (noc ic r) else noc ic r))"
  using assms
proof (induction rs arbitrary: ic)
  case (Cons r rs)
  define ic1 where "ic1 = ic\<lparr>noc := (noc ic)(r := insert_flits ident (unat n) (noc ic r)),
             RouterPacketsCount := (RouterPacketsCount ic)[router_slot ic (pos_of r) :=
               packets_at ic (pos_of r) + ucast n]\<rparr>"
  have v: "visit_router ident n r ic = Some ic1" unfolding ic1_def using Cons.prems by (intro visit_router_ok) auto
  have same: "same_mesh ic ic1" unfolding ic1_def by (rule same_meshI) simp
  have step: "packets_at ic1 p = packets_at ic p + (if p = pos_of r then ucast n else 0)" if "inside ic p" for p
    using that slot_inj [of ic p "pos_of r"] slot_less [of ic "pos_of r"] Cons.prems(1,2)
    by (auto simp: packets_at_def ic1_def router_slot_def nth_list_update mesh_ok_def)
  obtain ic' where ic': "visit_all ident n rs ic1 = Some ic'" "same_mesh ic1 ic'"
    "\<forall>p. inside ic p \<longrightarrow> packets_at ic' p = packets_at ic1 p + (if p \<in> pos_of ` set rs then ucast n else 0)"
    "\<forall>r. noc ic' r = (if r \<in> set rs then insert_flits ident (unat n) (noc ic1 r) else noc ic1 r)"
    using Cons.IH [of ic1] Cons.prems same_mesh_ok [OF same] same_mesh_inside [OF same] by auto
  have "r \<notin> set rs" using Cons.prems(3) by auto
  then show ?case
    using v ic' step Cons.prems(3) same_mesh_trans [OF same ic'(2)] by (auto simp: ic1_def)
qed simp

text \<open>
  On a shortest route the distance to the destination decreases by one at every hop: no router is
  crossed twice.
\<close>

lemma shortest_distances:
  "leads s rs d \<Longrightarrow> int (length rs) = manhattan s d \<Longrightarrow>
   map (\<lambda>r. manhattan (pos_of r) d) rs = map int (rev [1..<Suc (length rs)])"
proof (induction s rs d rule: leads.induct)
  case (2 s x y p rs d)
  have here: "pos_of (x, y, p) = s" using "2.prems"(1) by (simp add: pos_of_def)
  show ?case
  proof (cases "p = CHR ''L''")
    case True then show ?thesis using "2.prems" here by simp
  next
    case False
    then obtain s' where s': "neighbour p s = Some s'" "leads s' rs d" using "2.prems" by (auto split: option.splits)
    then have "int (length rs) = manhattan s' d"
      using leads_manhattan [OF s'(2)] neighbour_manhattan [OF s'(1), of d] "2.prems"(2) by simp
    then show ?thesis using "2.IH" [OF False s'] here "2.prems"(2) by simp
  qed
qed simp

lemma compute_path_distinct: "distinct (map pos_of (compute_path s d))"
proof -
  have "map (\<lambda>p. manhattan p d) (map pos_of (compute_path s d)) =
      map int (rev [1..<Suc (length (compute_path s d))])"
    using shortest_distances [OF leads_compute_path length_compute_path, of d s] unfolding map_map comp_def .
  then have "distinct (map (\<lambda>p. manhattan p d) (map pos_of (compute_path s d)))" by (simp add: distinct_map)
  then show ?thesis by (simp only: distinct_map)
qed

lemma set_down_to: "i \<in> set (down_to s d) \<Longrightarrow> i \<le> s"
proof -
  assume "i \<in> set (down_to s d)"
  then obtain k where "i = of_nat k" "k \<le> unat s" by (auto simp: down_to_def)
  then show ?thesis by (auto simp: word_le_nat_alt unat_of_nat intro: le_trans [OF mod_less_eq_dividend])
qed

lemma set_up_to: "i \<in> set (up_to s d) \<Longrightarrow> i < d"
  by (auto simp: up_to_def word_less_nat_alt unat_of_nat intro: le_less_trans [OF mod_less_eq_dividend])

lemma compute_path_inside:
  assumes "inside ic s" and "inside ic d" and "r \<in> set (compute_path s d)"
  shows "inside ic (pos_of r)"
proof -
  obtain sx sy dx dy where s: "s = \<lparr>x_id = sx, y_id = sy\<rparr>" and d: "d = \<lparr>x_id = dx, y_id = dy\<rparr>"
    by (metis mesh_pos.cases)
  show ?thesis
    using assms unfolding s d compute_path_alt
    by (auto simp: inside_def pos_of_def dest: set_down_to set_up_to)
qed

text \<open>
  Routing a packet between two routers of the mesh always succeeds. It adds the
  number of flits to the counter of every router of the route, once each, and to no other
  counter, and it enters the flits into exactly the output buffers the route names.
\<close>
theorem route_counts_once:
  assumes "mesh_ok ic" and "inside ic s" and "inside ic d"
  shows "\<exists>ic'. ComputeRouteAndUpdateRouters s d ident n ic = Some (compute_path s d, ic') \<and>
    (\<forall>p. inside ic p \<longrightarrow>
       packets_at ic' p = packets_at ic p + (if p \<in> pos_of ` set (compute_path s d) then ucast n else 0)) \<and>
    (\<forall>r. noc ic' r = (if r \<in> set (compute_path s d) then insert_flits ident (unat n) (noc ic r) else noc ic r))"
  using visit_all_ok [OF assms(1) _ compute_path_distinct, of s d ident n] compute_path_inside [OF assms(2,3)]
  by (auto simp: ComputeRouteAndUpdateRouters_def Let_def)

theorem route_counts_once_witness:
  "\<exists>ic ic'. ComputeRouteAndUpdateRouters \<lparr>x_id = 0, y_id = 0\<rparr> \<lparr>x_id = 1, y_id = 1\<rparr> 7 2 ic =
      Some ([(0, 0, CHR ''E''), (1, 0, CHR ''S''), (1, 1, CHR ''L'')], ic') \<and>
     packets_at ic' \<lparr>x_id = 1, y_id = 0\<rparr> = 2 \<and> packets_at ic' \<lparr>x_id = 0, y_id = 1\<rparr> = 0"
proof -
  let ?ic = "set_mesh_coord 2 2 (CoherenceInterconnect_new 0 0 0 1 1 True 0 0)"
  have path: "compute_path \<lparr>x_id = 0, y_id = 0\<rparr> \<lparr>x_id = 1, y_id = 1\<rparr> =
      [(0, 0, CHR ''E''), (1, 0, CHR ''S''), (1, 1, CHR ''L'')]"
    by code_simp
  have "mesh_ok ?ic" by (rule set_mesh_coord_ok) simp
  moreover have inside: "inside ?ic \<lparr>x_id = a, y_id = b\<rparr>" if "a < 2" "b < 2" for a b
    using that by (simp add: inside_def set_mesh_coord_def Let_def)
  ultimately obtain ic' where ic': "ComputeRouteAndUpdateRouters \<lparr>x_id = 0, y_id = 0\<rparr> \<lparr>x_id = 1, y_id = 1\<rparr> 7 2 ?ic =
      Some ([(0, 0, CHR ''E''), (1, 0, CHR ''S''), (1, 1, CHR ''L'')], ic')"
    and count: "\<And>p. inside ?ic p \<Longrightarrow> packets_at ic' p = packets_at ?ic p +
      (if p \<in> pos_of ` {(0, 0, CHR ''E''), (1, 0, CHR ''S''), (1, 1, CHR ''L'')} then ucast (2 :: u32) else 0)"
    using route_counts_once [of ?ic "\<lparr>x_id = 0, y_id = 0\<rparr>" "\<lparr>x_id = 1, y_id = 1\<rparr>" 7 2]
    unfolding path by auto
  have "packets_at ?ic \<lparr>x_id = 1, y_id = 0\<rparr> = 0" "packets_at ?ic \<lparr>x_id = 0, y_id = 1\<rparr> = 0"
    by code_simp+
  then show ?thesis using ic' count [OF inside, of 1 0] count [OF inside, of 0 1] by (auto simp: pos_of_def)
qed

subsection \<open>Positions that are accepted and positions that exist\<close>

text \<open>
  The registration of a controller accepts a position one past the mesh in both directions.
  With the mesh set to \<open>x\<close> columns and \<open>y\<close> rows, a cpu registered at column \<open>x\<close> and row \<open>y\<close> is accepted
  and found again by its identifier; but it is not a router of the mesh, and routing
  its packet to itself indexes the counters out of their bounds.
\<close>
theorem register_accepts_outside:
  assumes "unat x + unat y * unat x < 2 ^ 32" and "ident \<noteq> NULL_IDX" and "mCpuIDs ic = []"
  shows "\<exists>ic'. register_cpu_ctrl ident x y (set_mesh_coord x y ic) = Some ic' \<and>
    get_noc_pos_by_id ident ic' = Some \<lparr>x_id = x, y_id = y\<rparr> \<and> \<not> inside ic' \<lparr>x_id = x, y_id = y\<rparr> \<and>
    ComputeRouteAndUpdateRouters \<lparr>x_id = x, y_id = y\<rparr> \<lparr>x_id = x, y_id = y\<rparr> ident n ic' = None"
proof -
  let ?c = "set_mesh_coord x y ic" and ?p = "\<lparr>x_id = x, y_id = y\<rparr>"
  let ?c' = "?c\<lparr>mCpuIDs := [(ucast ident, ?p)]\<rparr>"
  have reg: "register_cpu_ctrl ident x y ?c = Some ?c'"
    using assms by (simp add: register_cpu_ctrl_def set_mesh_coord_def Let_def osimps)
  have "length (RouterPacketsCount ?c') = unat x * unat y"
    using set_mesh_coord_ok [of x y ic] assms(1) by (simp add: mesh_ok_def set_mesh_coord_def Let_def mult.commute)
  then have "\<not> unat x + unat y * unat x < length (RouterPacketsCount ?c')" by (simp add: mult.commute)
  moreover have "unat (x + y * x) = unat x + unat y * unat x"
    using assms(1) by (simp add: unat_word_ariths mod_add_right_eq)
  moreover have "mX ?c' = x" "mY ?c' = y" by (simp_all add: set_mesh_coord_def Let_def)
  ultimately show ?thesis
    using assms(2) reg
    by (simp add: get_noc_pos_by_id_def inside_def ComputeRouteAndUpdateRouters_def compute_path_def
        visit_router_def Let_def cassert_def)
qed

theorem register_accepts_outside_witness:
  "\<exists>ic'. register_cpu_ctrl 3 2 2 (set_mesh_coord 2 2 (CoherenceInterconnect_new 0 0 0 1 1 True 0 0)) = Some ic' \<and>
    ComputeRouteAndUpdateRouters \<lparr>x_id = 2, y_id = 2\<rparr> \<lparr>x_id = 2, y_id = 2\<rparr> 3 1 ic' = None"
  using register_accepts_outside [of 2 2 3 "CoherenceInterconnect_new 0 0 0 1 1 True 0 0" 1]
  by (auto simp: NULL_IDX_def CoherenceInterconnect_new_def)

end
