(* ===== verification/MeshContention.thy ===== *)
theory MeshContention
  imports MeshNoC
begin

text \<open>
  The contention mode of the mesh (\<open>QueueWaitingTime\<close>, \<open>ComputePacketLatency\<close> and
  \<open>NetworkTimingModel\<close> of \<open>components/connect/CoherenceInterconnect.cpp\<close>). The flits that
  arrive during an interval are collected; when the interval is over, the waiting time of each
  of them in the output buffers of its route is computed and the buffers are cleared. An access
  of the code outside a container (the begin of an empty buffer, the successor of the last
  element, the predecessor of the first) is \<open>None\<close>.
\<close>

section \<open>Waiting times\<close>

definition QueueWaitingTime :: "nat \<Rightarrow> nat \<Rightarrow> nat \<Rightarrow> nat \<Rightarrow> nat \<Rightarrow> interconnect \<Rightarrow> nat option" where
  "QueueWaitingTime wt router_latency link_latency time_interval queue_nbr_packets ic =
     do {
       _ \<leftarrow> cassert (mVirtualChannels ic \<noteq> 0);
       let q = queue_nbr_packets div unat (mVirtualChannels ic);
       let num = (wt + router_latency + link_latency) * q;
       Some (if q = 0 \<or> num < time_interval then 0 else (2 * (num - time_interval) + q) div (2 * q))
     }"

text \<open>\<open>operator[]\<close> of the buffer: \<open>buf_put\<close> assigns through it, \<open>buf_get\<close> reads through it.\<close>

fun buf_put :: "u64 \<Rightarrow> nat \<Rightarrow> outputBuffer \<Rightarrow> outputBuffer" where
  "buf_put k v [] = [(k, v)]"
| "buf_put k v ((k', v') # b) =
     (if k < k' then (k, v) # (k', v') # b else if k = k' then (k', v) # b else (k', v') # buf_put k v b)"

definition buf_get :: "u64 \<Rightarrow> outputBuffer \<Rightarrow> nat" where
  "buf_get k b = (case map_of b k of Some v \<Rightarrow> v | None \<Rightarrow> 0)"

definition buf_index :: "u64 \<Rightarrow> outputBuffer \<Rightarrow> nat" where
  "buf_index k b = (case first_index (\<lambda>e. fst e = k) b of Some i \<Rightarrow> i | None \<Rightarrow> length b)"

text \<open>The waiting time \<open>w\<close> of packet \<open>pkt\<close> in the buffer \<open>r\<close>, assigned or added.\<close>

definition set_wait :: "idx_t \<times> idx_t \<times> char \<Rightarrow> u64 \<Rightarrow> nat \<Rightarrow> nat \<Rightarrow> interconnect \<Rightarrow> interconnect option" where
  "set_wait r pkt new w ic =
     (case r of (x, y, p) \<Rightarrow> do {
        let k = unat (x + y * mX ic);
        _ \<leftarrow> cassert (k < length (RouterTotalLatency ic));
        Some (ic\<lparr>noc := (noc ic)(r := buf_put pkt new (noc ic r)),
                RouterTotalLatency := (RouterTotalLatency ic)[k := RouterTotalLatency ic ! k + w]\<rparr>)
      })"

text \<open>
  Head-of-line blocking: if the packet in front leaves the next router by another way and is
  queued there beyond the capacity of the buffer, the packet also waits for the one that
  stands at the end of that capacity.
\<close>

definition head_of_line ::
  "u64 \<Rightarrow> route \<Rightarrow> nat \<Rightarrow> u64 \<Rightarrow> nat \<Rightarrow> interconnect \<Rightarrow> (nat \<times> interconnect) option" where
  "head_of_line pkt path i front wsum ic =
     do {
       let r = path ! i;
       _ \<leftarrow> cassert (i + 1 < length path);
       _ \<leftarrow> cassert (unat (front - 1) < length (packetBuffer ic));
       let other = fst (snd (packetBuffer ic ! unat (front - 1)));
       j \<leftarrow> first_index (\<lambda>h. h = r) other;
       _ \<leftarrow> cassert (j + 1 < length other);
       let rt3 = other ! (j + 1);
       let capacity = mBufferSize ic * mVirtualChannels ic;
       if path ! (i + 1) \<noteq> rt3 \<and> unat capacity \<le> buf_index front (noc ic rt3) then do {
         let pos = buf_index front (noc ic r);
         let back = (if mBufferSize ic > 1 then unat (capacity - 1) else 0);
         _ \<leftarrow> cassert (back \<le> pos \<and> pos < length (noc ic r));
         let blocker = fst (noc ic r ! (pos - back));
         let w = buf_get blocker (noc ic rt3);
         let ic = ic\<lparr>noc := (noc ic)(rt3 := buf_insert blocker 0 (noc ic rt3))\<rparr>;
         ic \<leftarrow> set_wait r pkt (buf_get pkt (noc ic r) + w) w ic;
         Some (wsum + w, ic)
       }
       else Some (wsum, ic)
     }"

definition NULL_PACKET :: u64 where
  "NULL_PACKET = - 1"

text \<open>
  The waiting time of a packet that is not the first of the buffer \<open>b\<close>: none if it already
  waited behind the packet in front of it (\<open>prev_pkt\<close>, \<open>prev_wait\<close>), unless that one waits anew.
  The result is the waiting time, the packet in front and the new \<open>prev_pkt\<close> and \<open>prev_wait\<close>.
\<close>

definition queue_step ::
  "u64 \<Rightarrow> outputBuffer \<Rightarrow> u64 \<Rightarrow> nat \<Rightarrow> interconnect \<Rightarrow> (nat \<times> u64 \<times> u64 \<times> nat) option" where
  "queue_step pkt b prev_pkt prev_wait ic =
     (case b ! (buf_index pkt b - 1) of (front, front_wait) \<Rightarrow>
        if front = prev_pkt then Some (if front_wait = prev_wait then 0 else front_wait, front, prev_pkt, prev_wait)
        else do {
          w \<leftarrow> QueueWaitingTime front_wait (mRouterLatency ic) (mLinkLatency ic) (mContentionInterval ic) (length b) ic;
          Some (w, front, front, front_wait)
        })"

text \<open>One router of a packet's route, with the waiting time so far and the last packet contention was accounted for.\<close>

definition cross_router ::
  "u64 \<Rightarrow> route \<Rightarrow> nat \<Rightarrow> nat \<times> u64 \<times> nat \<Rightarrow> interconnect \<Rightarrow> ((nat \<times> u64 \<times> nat) \<times> interconnect) option" where
  "cross_router pkt path i st ic =
     (case st of (wsum, prev_pkt, prev_wait) \<Rightarrow>
      let r = path ! i; b = noc ic r in
      do {
        _ \<leftarrow> cassert (b \<noteq> []);
        if pkt = fst (b ! 0) then do { ic \<leftarrow> set_wait r pkt 0 0 ic; Some (st, ic) }
        else do {
          (w, front, prev_pkt, prev_wait) \<leftarrow> queue_step pkt b prev_pkt prev_wait ic;
          ic \<leftarrow> set_wait r pkt w w ic;
          (wsum, ic) \<leftarrow>
            (if snd (snd r) \<noteq> CHR ''L'' then head_of_line pkt path i front (wsum + w) ic else Some (wsum + w, ic));
          Some ((wsum, prev_pkt, prev_wait), ic)
        }
      })"

fun cross_all ::
  "u64 \<Rightarrow> route \<Rightarrow> nat list \<Rightarrow> nat \<times> u64 \<times> nat \<Rightarrow> interconnect \<Rightarrow> ((nat \<times> u64 \<times> nat) \<times> interconnect) option" where
  "cross_all pkt path [] st ic = Some (st, ic)"
| "cross_all pkt path (i # is) st ic =
     do { (st, ic) \<leftarrow> cross_router pkt path i st ic; cross_all pkt path is st ic }"

definition packet_step :: "nat \<Rightarrow> interconnect \<Rightarrow> (nat \<times> interconnect) option" where
  "packet_step n ic =
     (case packetBuffer ic ! n of (pkt, path, _) \<Rightarrow> do {
        ((wsum, _), ic) \<leftarrow> cross_all pkt path [0..<length path] (0, NULL_PACKET, 0) ic;
        let l = PacketLatency wsum (mRouterLatency ic) (mLinkLatency ic) (of_nat (length path));
        Some (l, ic\<lparr>packet_latency := l, packetBuffer := (packetBuffer ic)[n := (pkt, path, l)]\<rparr>)
      })"

fun packet_steps :: "nat list \<Rightarrow> nat \<Rightarrow> interconnect \<Rightarrow> (nat \<times> interconnect) option" where
  "packet_steps [] avg ic = Some (avg, ic)"
| "packet_steps (n # ns) avg ic = do { (l, ic) \<leftarrow> packet_step n ic; packet_steps ns (avg + l) ic }"

definition ComputePacketLatency :: "interconnect \<Rightarrow> (nat \<times> interconnect) option" where
  "ComputePacketLatency ic = packet_steps [0..<length (packetBuffer ic)] 0 ic"

section \<open>The intervals\<close>

text \<open>The flits of one transaction enter the network, one copy for every destination.\<close>

fun enter_network :: "mesh_pos \<Rightarrow> mesh_pos list \<Rightarrow> u32 \<Rightarrow> interconnect \<Rightarrow> interconnect option" where
  "enter_network src [] nbFlits ic = Some ic"
| "enter_network src (d # ds) nbFlits ic =
     do {
       let ident = ucast (totalFlits ic + 1);
       (path, ic) \<leftarrow> ComputeRouteAndUpdateRouters src d ident nbFlits ic;
       let ic = ic\<lparr>TotalDistance := TotalDistance ic + ucast nbFlits * of_nat (length path)\<rparr>;
       let ic = SavePacket ident path nbFlits ic;
       enter_network src ds nbFlits (ic\<lparr>totalFlits := totalFlits ic + ucast nbFlits\<rparr>)
     }"

text \<open>Where the flits come from and go to: memory to device for the read of a device.\<close>

definition network_ends ::
  "payload \<Rightarrow> bool \<Rightarrow> bool \<Rightarrow> mesh_pos \<Rightarrow> idx_t set \<Rightarrow> bool \<Rightarrow> interconnect \<Rightarrow> (mesh_pos \<times> mesh_pos list \<times> interconnect) option" where
  "network_ends tr isHome isIdMapped src_pos dst_ids device ic =
     (if device \<and> pCommand tr = TLM_READ_COMMAND then do {
        (p, _) \<leftarrow> get_noc_pos_by_address (pAddress tr) (unat (IndexFirstMemoryController ic)) ic;
        Some (p, [src_pos], ic)
      }
      else do { (ds, ic) \<leftarrow> GetDestinations tr isHome isIdMapped dst_ids ic; Some (src_pos, ds, ic) })"

text \<open>The first flit of an interval starts it; one that arrives outside the interval closes it and starts the next.\<close>

definition advance_interval :: "nat \<Rightarrow> nat \<Rightarrow> interconnect \<Rightarrow> interconnect option" where
  "advance_interval ts time_interval ic =
     (if totalFlits ic = 0 then Some (ic\<lparr>interval_start := ts, interval_end := ts + time_interval\<rparr>)
      else if interval_start ic \<le> ts \<and> ts \<le> interval_end ic then Some ic
      else do {
        (l, ic) \<leftarrow> ComputePacketLatency ic;
        Some (ic\<lparr>AverageLatency := AverageLatency ic + l, PacketsCount := PacketsCount ic + of_nat (length (packetBuffer ic)),
                packetBuffer := [], noc := (\<lambda>_. []), totalFlits := 0, interval_start := ts,
                interval_end := ts + time_interval\<rparr>)
      })"

definition NetworkTimingModel ::
  "payload \<Rightarrow> nat \<Rightarrow> nat \<Rightarrow> bool \<Rightarrow> bool \<Rightarrow> u32 \<Rightarrow> mesh_pos \<Rightarrow> idx_t set \<Rightarrow> bool \<Rightarrow> interconnect \<Rightarrow> interconnect option" where
  "NetworkTimingModel tr ts time_interval isHome isIdMapped nbFlits src_pos dst_ids device ic =
     do {
       (src, dest, ic) \<leftarrow> network_ends tr isHome isIdMapped src_pos dst_ids device ic;
       ic \<leftarrow> advance_interval ts time_interval ic;
       enter_network src dest nbFlits ic
     }"

section \<open>The collected flits\<close>

text \<open>
  Flits are numbered from one in the order of their arrival (this is why the code finds the
  packet with identifier \<open>k\<close> at position \<open>k - 1\<close>), and an output buffer holds, in
  increasing order, exactly the identifiers of the flits whose route leaves a router through it.
\<close>

definition flits_ok :: "interconnect \<Rightarrow> bool" where
  "flits_ok ic \<longleftrightarrow>
     length (packetBuffer ic) = unat (totalFlits ic) \<and>
     (\<forall>i < length (packetBuffer ic). fst (packetBuffer ic ! i) = of_nat (i + 1)) \<and>
     (\<forall>r. sorted_wrt (<) (map fst (noc ic r)) \<and>
       fst ` set (noc ic r) = fst ` {p \<in> set (packetBuffer ic). r \<in> set (fst (snd p))})"

lemma flits_okD:
  assumes "flits_ok ic"
  shows "sorted_wrt (<) (map fst (noc ic r))"
    and "fst ` set (noc ic r) = fst ` {p \<in> set (packetBuffer ic). r \<in> set (fst (snd p))}"
  using assms unfolding flits_ok_def by blast+

lemma keys_buf_insert: "fst ` set (buf_insert k v b) = insert k (fst ` set b)"
  by (induction k v b rule: buf_insert.induct) auto

lemma sorted_buf_insert: "sorted_wrt (<) (map fst b) \<Longrightarrow> sorted_wrt (<) (map fst (buf_insert k v b))"
proof (induction k v b rule: buf_insert.induct)
  case (2 k v k' v' b)
  then show ?case using keys_buf_insert [of k v b] by (auto simp flip: set_map)
qed simp

lemma keys_insert_flits:
  "fst ` set (insert_flits ident n b) = fst ` set b \<union> (\<lambda>k. ucast (ident + of_nat k)) ` {..<n}"
proof (induction ident n b rule: insert_flits.induct)
  case (2 ident n b)
  have "(\<lambda>k. ucast (ident + of_nat k) :: u64) ` {..<Suc n} =
      insert (ucast ident) ((\<lambda>k. ucast (ident + 1 + of_nat k)) ` {..<n}) "
    by (simp add: lessThan_Suc_eq_insert_0 image_image ac_simps)
  then show ?case using 2 by (simp add: keys_buf_insert)
qed simp

lemma sorted_insert_flits: "sorted_wrt (<) (map fst b) \<Longrightarrow> sorted_wrt (<) (map fst (insert_flits ident n b))"
  by (induction ident n b rule: insert_flits.induct) (simp_all add: sorted_buf_insert)

lemma visit_all_noc:
  "visit_all ident n rs ic = Some ic' \<Longrightarrow> distinct rs \<Longrightarrow>
   same_mesh ic ic' \<and>
   noc ic' = (\<lambda>r. if r \<in> set rs then insert_flits ident (unat n) (noc ic r) else noc ic r)"
proof (induction rs arbitrary: ic)
  case (Cons r rs)
  then obtain ic1 where v: "visit_router ident n r ic = Some ic1" and "visit_all ident n rs ic1 = Some ic'"
    by (auto simp: osimps)
  then have ic': "same_mesh ic1 ic'"
      "noc ic' = (\<lambda>q. if q \<in> set rs then insert_flits ident (unat n) (noc ic1 q) else noc ic1 q)"
    using Cons.IH Cons.prems(2) by auto
  have "same_mesh ic ic1" "noc ic1 = (noc ic)(r := insert_flits ident (unat n) (noc ic r))"
    using v by (auto simp: visit_router_def Let_def osimps split: prod.splits intro: same_meshI)
  then show ?case using ic' same_mesh_trans [of ic ic1 ic'] Cons.prems(2) by auto
qed auto

lemma flit_number:
  assumes "unat (t :: u64) + k + 1 < 2 ^ 32"
  shows "ucast (ucast (t + 1) + of_nat k :: u32) = (of_nat (unat t + k + 1) :: u64)"
  using assms by (simp add: word_unat_eq_iff unsigned_ucast_eq unat_word_ariths unat_of_nat mod_simps take_bit_eq_mod)

lemma nth_numbered:
  assumes "flits_ok ic" and "unat (totalFlits ic) + unat n < 2 ^ 32"
    and "pb = packetBuffer ic @ map (\<lambda>k. (ucast (ucast (totalFlits ic + 1) + of_nat k :: u32), path, 0)) [0..<unat (n :: u32)]"
    and "i < length pb"
  shows "fst (pb ! i) = of_nat (i + 1)"
proof (cases "i < length (packetBuffer ic)")
  case True then show ?thesis using assms by (simp add: flits_ok_def nth_append)
next
  case False
  define k where "k = i - length (packetBuffer ic)"
  have k: "k < unat n" "i = unat (totalFlits ic) + k" using False assms by (auto simp: k_def flits_ok_def)
  then have "fst (pb ! i) = ucast (ucast (totalFlits ic + 1) + of_nat k :: u32)"
    using assms by (simp add: flits_ok_def nth_append)
  also have "\<dots> = of_nat (i + 1)" using flit_number [of "totalFlits ic" k] k assms(2) by simp
  finally show ?thesis .
qed

text \<open>One destination of a transaction.\<close>

definition one_entry :: "mesh_pos \<Rightarrow> mesh_pos \<Rightarrow> u32 \<Rightarrow> interconnect \<Rightarrow> interconnect \<Rightarrow> bool" where
  "one_entry src d n ic ic2 \<longleftrightarrow>
     packetBuffer ic2 = packetBuffer ic @
       map (\<lambda>k. (ucast (ucast (totalFlits ic + 1) + of_nat k :: u32), compute_path src d, 0)) [0..<unat n] \<and>
     totalFlits ic2 = totalFlits ic + ucast n \<and>
     noc ic2 = (\<lambda>r. if r \<in> set (compute_path src d)
       then insert_flits (ucast (totalFlits ic + 1)) (unat n) (noc ic r) else noc ic r)"

lemma enter_network_Cons:
  assumes "enter_network src (d # ds) n ic = Some ic'"
  obtains ic2 where "one_entry src d n ic ic2" and "enter_network src ds n ic2 = Some ic'"
proof -
  let ?id = "ucast (totalFlits ic + 1) :: u32" and ?path = "compute_path src d"
  from assms obtain ic1 where v: "visit_all ?id n ?path ic = Some ic1"
    and rest: "enter_network src ds n
      (SavePacket ?id ?path n (ic1\<lparr>TotalDistance := TotalDistance ic1 + ucast n * of_nat (length ?path)\<rparr>)
        \<lparr>totalFlits := totalFlits ic1 + ucast n\<rparr>) = Some ic'"
    by (auto simp: ComputeRouteAndUpdateRouters_def Let_def osimps SavePacket_def)
  have "distinct ?path" using compute_path_distinct by (auto simp: distinct_map)
  note visit_all_noc [OF v this]
  then have "one_entry src d n ic
      (SavePacket ?id ?path n (ic1\<lparr>TotalDistance := TotalDistance ic1 + ucast n * of_nat (length ?path)\<rparr>)
        \<lparr>totalFlits := totalFlits ic1 + ucast n\<rparr>)"
    using same_meshD [of ic ic1] by (simp add: one_entry_def SavePacket_def)
  then show thesis using rest that by blast
qed

lemma one_entry_ok:
  assumes "one_entry src d n ic ic2" and ok: "flits_ok ic" and len: "length (packetBuffer ic2) < 2 ^ 32"
  shows "flits_ok ic2"
proof -
  let ?new = "map (\<lambda>k. (ucast (ucast (totalFlits ic + 1) + of_nat k :: u32) :: u64, compute_path src d, 0 :: nat)) [0..<unat n]"
  have pb: "packetBuffer ic2 = packetBuffer ic @ ?new" and tot: "totalFlits ic2 = totalFlits ic + ucast n"
    and noc: "noc ic2 = (\<lambda>r. if r \<in> set (compute_path src d)
       then insert_flits (ucast (totalFlits ic + 1)) (unat n) (noc ic r) else noc ic r)"
    using assms(1) by (auto simp: one_entry_def)
  have sum: "unat (totalFlits ic) + unat n < 2 ^ 32" using pb len ok by (simp add: flits_ok_def)
  have "length (packetBuffer ic2) = unat (totalFlits ic2)"
    using sum pb tot ok by (simp add: flits_ok_def unat_word_ariths unsigned_ucast_eq take_bit_eq_mod)
  moreover have "fst (packetBuffer ic2 ! i) = of_nat (i + 1)" if "i < length (packetBuffer ic2)" for i
    using nth_numbered [OF ok sum pb that] .
  moreover have "sorted_wrt (<) (map fst (noc ic2 r))" for r
  proof -
    have "sorted_wrt (<) (map fst (noc ic r))" using ok by (rule flits_okD)
    then show ?thesis by (simp add: noc sorted_insert_flits)
  qed
  moreover have "fst ` set (noc ic2 r) = fst ` {p \<in> set (packetBuffer ic2). r \<in> set (fst (snd p))}" for r
  proof -
    have "fst ` set (noc ic r) = fst ` {p \<in> set (packetBuffer ic). r \<in> set (fst (snd p))}"
      using ok by (rule flits_okD)
    moreover have "{p \<in> set (packetBuffer ic2). r \<in> set (fst (snd p))} =
        {p \<in> set (packetBuffer ic). r \<in> set (fst (snd p))} \<union> (if r \<in> set (compute_path src d) then set ?new else {})"
      by (auto simp: pb)
    ultimately show ?thesis
      by (auto simp add: noc keys_insert_flits image_Un image_image atLeast0LessThan)
  qed
  ultimately show ?thesis by (auto simp: flits_ok_def)
qed

lemma enter_network_grows: "enter_network src ds n ic = Some ic' \<Longrightarrow> length (packetBuffer ic) \<le> length (packetBuffer ic')"
proof (induction ds arbitrary: ic)
  case (Cons d ds)
  then show ?case by (elim enter_network_Cons) (fastforce simp: one_entry_def)
qed simp

lemma enter_network_ok:
  "enter_network src ds n ic = Some ic' \<Longrightarrow> flits_ok ic \<Longrightarrow> length (packetBuffer ic') < 2 ^ 32 \<Longrightarrow> flits_ok ic'"
proof (induction ds arbitrary: ic)
  case (Cons d ds)
  from Cons.prems(1) obtain ic2 where e: "one_entry src d n ic ic2" "enter_network src ds n ic2 = Some ic'"
    by (rule enter_network_Cons)
  then have "length (packetBuffer ic2) < 2 ^ 32" using enter_network_grows Cons.prems(3) by fastforce
  then show ?case using Cons.IH [OF e(2) one_entry_ok [OF e(1) Cons.prems(2)]] Cons.prems(3) by blast
qed simp

lemma flits_ok_empty: "packetBuffer ic = [] \<Longrightarrow> noc ic = (\<lambda>_. []) \<Longrightarrow> totalFlits ic = 0 \<Longrightarrow> flits_ok ic"
  by (simp add: flits_ok_def)

lemma flits_ok_cong:
  "packetBuffer ic' = packetBuffer ic \<Longrightarrow> noc ic' = noc ic \<Longrightarrow> totalFlits ic' = totalFlits ic \<Longrightarrow>
   flits_ok ic' = flits_ok ic"
  by (simp add: flits_ok_def)

definition same_flits :: "interconnect \<Rightarrow> interconnect \<Rightarrow> bool" where
  "same_flits ic ic' \<longleftrightarrow> packetBuffer ic' = packetBuffer ic \<and> noc ic' = noc ic \<and> totalFlits ic' = totalFlits ic"

lemma same_flits_refl [simp]: "same_flits ic ic"
  by (simp add: same_flits_def)

lemma count_memory_frame: "count_memory tr i ic = Some ic' \<Longrightarrow> same_flits ic ic'"
  by (auto simp: count_memory_def same_flits_def osimps split: tlm_command.splits)

lemma GetDestinations_frame: "GetDestinations tr h m ids ic = Some (ds, ic') \<Longrightarrow> same_flits ic ic'"
  unfolding GetDestinations_def
  by (cases m; cases h; cases "icCoherent ic") (auto simp: osimps dest: count_memory_frame)

lemma network_ends_ok:
  assumes "network_ends tr h m src ids dev ic = Some (s, ds, ic')"
  shows "flits_ok ic' = flits_ok ic"
proof -
  have "same_flits ic ic'"
    using assms by (auto simp: network_ends_def osimps dest: GetDestinations_frame split: if_splits)
  then show ?thesis using flits_ok_cong [of ic' ic] by (simp add: same_flits_def)
qed

lemma advance_interval_ok:
  assumes "advance_interval ts iv ic = Some ic'" and "flits_ok ic"
  shows "flits_ok ic'"
proof -
  consider "packetBuffer ic' = packetBuffer ic" "noc ic' = noc ic" "totalFlits ic' = totalFlits ic" |
    "packetBuffer ic' = []" "noc ic' = (\<lambda>_. [])" "totalFlits ic' = 0"
    using assms(1) by (auto simp: advance_interval_def osimps split: if_splits)
  then show ?thesis using assms(2) flits_ok_cong [of ic' ic] flits_ok_empty [of ic'] by cases auto
qed

text \<open>
  C13: The collection of flits is an invariant. Whatever transaction enters the network, in the
  first, the running or a new interval, the collected flits stay numbered from one in the order of
  arrival and every output buffer holds exactly the flits routed through it, as long as fewer
  than \<open>2^32\<close> flits are collected in one interval.
\<close>
theorem network_keeps_flits:
  assumes "NetworkTimingModel tr ts interval isHome isIdMapped nbFlits src dst_ids device ic = Some ic'"
    and "flits_ok ic" and "length (packetBuffer ic') < 2 ^ 32"
  shows "flits_ok ic'"
proof -
  obtain s ds ic0 ic1 where "network_ends tr isHome isIdMapped src dst_ids device ic = Some (s, ds, ic0)"
    and "advance_interval ts interval ic0 = Some ic1" and "enter_network s ds nbFlits ic1 = Some ic'"
    using assms(1) by (auto simp: NetworkTimingModel_def osimps)
  then show ?thesis using assms network_ends_ok advance_interval_ok enter_network_ok by metis
qed

text \<open>A two by two mesh with one cpu at its first router, one memory at its last and no traffic yet.\<close>

definition small_mesh :: interconnect where
  "small_mesh = (the (do {
     ic \<leftarrow> register_cpu_ctrl 1 0 0 (set_mesh_coord 2 2 (CoherenceInterconnect_new 0 0 0 8 8 True 0 0));
     ic \<leftarrow> register_mem_ctrl 0 4096 1 1 (set_first_memory_controller ic);
     ic \<leftarrow> set_virtual_channels 1 ic;
     set_buffer_size 1 ic }))\<lparr>mRouterLatency := 3, mLinkLatency := 1, mContentionInterval := 100\<rparr>"

definition small_read :: payload where
  "small_read = \<lparr>pCommand = TLM_READ_COMMAND, pAddress = 64, pLength = 8, pCoherence = None, pCpu = Some 1\<rparr>"

lemma small_mesh_ok: "flits_ok small_mesh"
proof -
  have "noc small_mesh = (\<lambda>_. [])"
    by (simp add: small_mesh_def register_cpu_ctrl_def register_mem_ctrl_def set_mesh_coord_def set_first_memory_controller_def
        set_virtual_channels_def set_buffer_size_def CoherenceInterconnect_new_def NULL_IDX_def Let_def)
  moreover have "packetBuffer small_mesh = []" "totalFlits small_mesh = 0" by code_simp+
  ultimately show ?thesis using flits_ok_empty by blast
qed

theorem network_keeps_flits_witness:
  "\<exists>ic'. NetworkTimingModel small_read 5 100 False False 2 \<lparr>x_id = 0, y_id = 0\<rparr> {} False small_mesh = Some ic' \<and>
     length (packetBuffer ic') = 2 \<and> flits_ok ic'"
proof -
  have run: "map_option (length \<circ> packetBuffer)
      (NetworkTimingModel small_read 5 100 False False 2 \<lparr>x_id = 0, y_id = 0\<rparr> {} False small_mesh) = Some 2"
    by code_simp
  then obtain ic' where ic': "NetworkTimingModel small_read 5 100 False False 2 \<lparr>x_id = 0, y_id = 0\<rparr> {} False small_mesh = Some ic'"
    and len: "length (packetBuffer ic') = 2"
    by auto
  show ?thesis using network_keeps_flits [OF ic' small_mesh_ok] ic' len by simp
qed

section \<open>The latency of the collected flits\<close>

text \<open>What the computation of waiting times leaves alone: the packets and the latencies of the mesh.\<close>

definition keeps :: "interconnect \<Rightarrow> interconnect \<Rightarrow> bool" where
  "keeps ic ic' \<longleftrightarrow> packetBuffer ic' = packetBuffer ic \<and> mRouterLatency ic' = mRouterLatency ic \<and>
     mLinkLatency ic' = mLinkLatency ic"

lemma keeps_refl [simp]: "keeps ic ic"
  by (simp add: keeps_def)






text \<open>The latency of a packet that never waits.\<close>

definition zero_load :: "interconnect \<Rightarrow> route \<Rightarrow> nat" where
  "zero_load ic path = PacketLatency 0 (mRouterLatency ic) (mLinkLatency ic) (of_nat (length path))"






subsection \<open>Routes that share no buffer\<close>

definition front :: "interconnect \<Rightarrow> idx_t \<times> idx_t \<times> char \<Rightarrow> u64 option" where
  "front ic r = (case noc ic r of [] \<Rightarrow> None | e # _ \<Rightarrow> Some (fst e))"

definition calm :: "interconnect \<Rightarrow> interconnect \<Rightarrow> bool" where
  "calm ic ic' \<longleftrightarrow> front ic' = front ic \<and> mX ic' = mX ic \<and> mY ic' = mY ic \<and>
     length (RouterTotalLatency ic') = length (RouterTotalLatency ic) \<and>
     length (RouterPacketsCount ic') = length (RouterPacketsCount ic) \<and>
     mRouterLatency ic' = mRouterLatency ic \<and> mLinkLatency ic' = mLinkLatency ic \<and>
     map (\<lambda>p. (fst p, fst (snd p))) (packetBuffer ic') = map (\<lambda>p. (fst p, fst (snd p))) (packetBuffer ic)"

lemma calm_refl [simp]: "calm ic ic"
  by (simp add: calm_def)

lemma calm_trans: "calm a b \<Longrightarrow> calm b c \<Longrightarrow> calm a c"
  by (simp add: calm_def)

lemma calmD:
  assumes "calm ic ic'"
  shows "mesh_ok ic' = mesh_ok ic" and "inside ic' p = inside ic p" and "front ic' r = front ic r"
    and "zero_load ic' path = zero_load ic path" and "length (packetBuffer ic') = length (packetBuffer ic)"
proof -
  show "length (packetBuffer ic') = length (packetBuffer ic)"
    using assms unfolding calm_def by (metis (lifting) length_map)
qed (use assms in \<open>simp_all add: calm_def mesh_ok_def inside_def zero_load_def\<close>)

lemma front_buf_put:
  assumes "front ic r = Some k" shows "front (ic\<lparr>noc := (noc ic)(r := buf_put k v (noc ic r))\<rparr>) = front ic"
proof
  fix q
  obtain u b where "noc ic r = (k, u) # b" using assms by (cases "noc ic r") (auto simp: front_def)
  then show "front (ic\<lparr>noc := (noc ic)(r := buf_put k v (noc ic r))\<rparr>) q = front ic q"
    by (cases "q = r") (simp_all add: front_def)
qed

lemma cross_router_calm:
  assumes "mesh_ok ic" and "inside ic (pos_of (path ! i))" and "front ic (path ! i) = Some pkt"
  shows "\<exists>ic'. cross_router pkt path i st ic = Some (st, ic') \<and> calm ic ic'"
proof -
  let ?r = "path ! i"
  obtain x y p where r: "?r = (x, y, p)" by (cases ?r)
  have "unat (x + y * mX ic) < length (RouterTotalLatency ic)"
    using slot_word [OF assms(1,2)] slot_less [OF assms(2)] assms(1) by (simp add: r pos_of_def mesh_ok_def)
  then have w: "set_wait ?r pkt 0 0 ic = Some (ic\<lparr>noc := (noc ic)(?r := buf_put pkt 0 (noc ic ?r)),
      RouterTotalLatency := RouterTotalLatency ic\<rparr>)"
    by (simp add: set_wait_def r Let_def osimps)
  have "noc ic ?r \<noteq> []" "fst (noc ic ?r ! 0) = pkt" using assms(3) by (auto simp: front_def split: list.splits)
  then have "cross_router pkt path i st ic = Some (st, ic\<lparr>noc := (noc ic)(?r := buf_put pkt 0 (noc ic ?r)),
      RouterTotalLatency := RouterTotalLatency ic\<rparr>)"
    by (cases st) (simp add: cross_router_def Let_def w)
  then show ?thesis using front_buf_put [OF assms(3)] by (simp add: calm_def)
qed

lemma cross_all_calm:
  assumes "mesh_ok ic" and "\<forall>i \<in> set is. inside ic (pos_of (path ! i)) \<and> front ic (path ! i) = Some pkt"
  shows "\<exists>ic'. cross_all pkt path is st ic = Some (st, ic') \<and> calm ic ic'"
  using assms
proof (induction "is" arbitrary: ic)
  case (Cons i "is")
  then obtain ic1 where c: "cross_router pkt path i st ic = Some (st, ic1)" "calm ic ic1"
    using cross_router_calm [of ic path i pkt st] by auto
  have "mesh_ok ic1" "\<forall>i \<in> set is. inside ic1 (pos_of (path ! i)) \<and> front ic1 (path ! i) = Some pkt"
    using Cons.prems calmD [OF c(2)] by auto
  then obtain ic' where "cross_all pkt path is st ic1 = Some (st, ic')" "calm ic1 ic'" using Cons.IH [of ic1] by blast
  then show ?case using c calm_trans by auto
qed simp

text \<open>A packet is alone if it is the first in every buffer of its route.\<close>

definition alone :: "interconnect \<Rightarrow> u64 \<times> route \<Rightarrow> bool" where
  "alone ic p \<longleftrightarrow> (\<forall>r \<in> set (snd p). inside ic (pos_of r) \<and> front ic r = Some (fst p))"

lemma calm_alone: "calm ic ic' \<Longrightarrow> alone ic' p = alone ic p"
  by (simp add: alone_def calmD)

lemma packet_step_calm:
  assumes "mesh_ok ic" and "n < length (packetBuffer ic)"
    and "alone ic (fst (packetBuffer ic ! n), fst (snd (packetBuffer ic ! n)))"
  shows "\<exists>ic'. packet_step n ic = Some (zero_load ic (fst (snd (packetBuffer ic ! n))), ic') \<and> calm ic ic'"
proof -
  obtain pkt path l0 where p: "packetBuffer ic ! n = (pkt, path, l0)" by (cases "packetBuffer ic ! n") auto
  have "\<forall>i \<in> set [0..<length path]. inside ic (pos_of (path ! i)) \<and> front ic (path ! i) = Some pkt"
    using assms(3) by (simp add: alone_def p)
  then obtain ic1 where c: "cross_all pkt path [0..<length path] (0, NULL_PACKET, 0) ic = Some ((0, NULL_PACKET, 0), ic1)"
    and calm: "calm ic ic1" using cross_all_calm [OF assms(1)] by blast
  let ?l = "zero_load ic path"
  have "packet_step n ic = Some (?l, ic1\<lparr>packet_latency := ?l, packetBuffer := (packetBuffer ic1)[n := (pkt, path, ?l)]\<rparr>)"
    using calm by (simp add: packet_step_def p c Let_def zero_load_def calm_def)
  moreover have "map (\<lambda>p. (fst p, fst (snd p))) ((packetBuffer ic1)[n := (pkt, path, ?l)]) =
      map (\<lambda>p. (fst p, fst (snd p))) (packetBuffer ic1)"
  proof -
    have "map (\<lambda>p. (fst p, fst (snd p))) (packetBuffer ic1) ! n = (pkt, path)"
      using calm assms(2) by (simp add: calm_def p)
    then show ?thesis by (metis (no_types, lifting) fst_conv list_update_id map_update snd_conv)
  qed
  ultimately show ?thesis using calm by (simp add: p calm_def front_def fun_eq_iff)
qed

lemma packet_steps_calm:
  assumes "mesh_ok ic" and "\<forall>p \<in> set (packetBuffer ic). alone ic (fst p, fst (snd p))"
    and "\<forall>n \<in> set ns. n < length (packetBuffer ic)"
  shows "\<exists>ic'. packet_steps ns avg ic = Some (avg + (\<Sum>n\<leftarrow>ns. zero_load ic (fst (snd (packetBuffer ic ! n)))), ic')"
  using assms
proof (induction ns arbitrary: avg ic)
  case (Cons n ns)
  then obtain ic1 where s: "packet_step n ic = Some (zero_load ic (fst (snd (packetBuffer ic ! n))), ic1)" and calm: "calm ic ic1"
    using packet_step_calm [of ic n] by (metis list.set_intros(1) nth_mem)
  have len: "length (packetBuffer ic1) = length (packetBuffer ic)" using calmD(5) [OF calm] .
  have same: "fst (packetBuffer ic1 ! i) = fst (packetBuffer ic ! i)" "fst (snd (packetBuffer ic1 ! i)) = fst (snd (packetBuffer ic ! i))"
    if "i < length (packetBuffer ic)" for i
    using calm that len by (auto simp: calm_def list_eq_iff_nth_eq)
  have "\<forall>p \<in> set (packetBuffer ic1). alone ic1 (fst p, fst (snd p))"
    using Cons.prems(2) calm_alone [OF calm] by (metis in_set_conv_nth len same)
  then obtain ic' where "packet_steps ns (avg + zero_load ic (fst (snd (packetBuffer ic ! n)))) ic1 =
      Some (avg + zero_load ic (fst (snd (packetBuffer ic ! n))) + (\<Sum>n\<leftarrow>ns. zero_load ic1 (fst (snd (packetBuffer ic1 ! n)))), ic')"
    using Cons.IH [of ic1] Cons.prems calmD [OF calm] len by fastforce
  moreover have "(\<Sum>n\<leftarrow>ns. zero_load ic1 (fst (snd (packetBuffer ic1 ! n)))) = (\<Sum>n\<leftarrow>ns. zero_load ic (fst (snd (packetBuffer ic ! n))))"
    using Cons.prems(3) same calmD(4) [OF calm] by (intro arg_cong [where f = sum_list] map_cong) auto
  ultimately show ?case using s by (simp add: add.assoc)
qed simp

text \<open>
  Without shared buffers there is no contention. If the collected flits are as the collection
  leaves them, their routes stay inside the mesh and no two flits leave a router through the
  same port, then the latencies can be computed, and their sum is the sum of the latencies of an
  empty network.
\<close>
theorem no_sharing_no_contention:
  assumes "flits_ok ic" and "mesh_ok ic"
    and "\<forall>p \<in> set (packetBuffer ic). \<forall>r \<in> set (fst (snd p)). inside ic (pos_of r)"
    and "\<forall>p \<in> set (packetBuffer ic). \<forall>q \<in> set (packetBuffer ic). p \<noteq> q \<longrightarrow> set (fst (snd p)) \<inter> set (fst (snd q)) = {}"
  shows "\<exists>ic'. ComputePacketLatency ic = Some (\<Sum>p\<leftarrow>packetBuffer ic. zero_load ic (fst (snd p)), ic')"
proof -
  have "alone ic (fst p, fst (snd p))" if p: "p \<in> set (packetBuffer ic)" for p
    unfolding alone_def
  proof (intro ballI conjI)
    fix r assume "r \<in> set (snd (fst p, fst (snd p)))"
    then have r: "r \<in> set (fst (snd p))" by simp
    show "inside ic (pos_of r)" using assms(3) p r by blast
    have "{q \<in> set (packetBuffer ic). r \<in> set (fst (snd q))} = {p}" using assms(4) p r by blast
    then have "fst ` set (noc ic r) = {fst p}" using flits_okD(2) [OF assms(1), of r] by simp
    then show "front ic r = Some (fst (fst p, fst (snd p)))" by (cases "noc ic r") (auto simp: front_def)
  qed
  then have al: "\<forall>p \<in> set (packetBuffer ic). alone ic (fst p, fst (snd p))" by blast
  obtain ic' where "packet_steps [0..<length (packetBuffer ic)] 0 ic =
      Some (0 + (\<Sum>n\<leftarrow>[0..<length (packetBuffer ic)]. zero_load ic (fst (snd (packetBuffer ic ! n)))), ic')"
    using packet_steps_calm [OF assms(2) al, of "[0..<length (packetBuffer ic)]" 0] by (metis atLeastLessThan_iff set_upt)
  moreover have "map (\<lambda>n. zero_load ic (fst (snd (packetBuffer ic ! n)))) [0..<length (packetBuffer ic)] =
      map (\<lambda>p. zero_load ic (fst (snd p))) (packetBuffer ic)"
    by (rule nth_equalityI) simp_all
  ultimately show ?thesis by (simp add: ComputePacketLatency_def)
qed

theorem no_sharing_no_contention_witness:
  "\<exists>ic ic'. ComputePacketLatency ic = Some (\<Sum>p\<leftarrow>packetBuffer ic. zero_load ic (fst (snd p)), ic') \<and>
     length (packetBuffer ic) = 1"
proof -
  let ?s = "\<lparr>x_id = 0, y_id = 0\<rparr>" and ?d = "\<lparr>x_id = 1, y_id = 1\<rparr>"
  let ?run = "enter_network ?s [?d] 1 small_mesh"
  have "map_option (\<lambda>ic. (map (fst \<circ> snd) (packetBuffer ic), mX ic, mY ic,
      length (RouterPacketsCount ic), length (RouterTotalLatency ic))) ?run = Some ([compute_path ?s ?d], 2, 2, 4, 4)"
    by code_simp
  then obtain ic where run: "?run = Some ic" and pb: "map (fst \<circ> snd) (packetBuffer ic) = [compute_path ?s ?d]"
    and m: "mX ic = 2" "mY ic = 2" "length (RouterPacketsCount ic) = 4" "length (RouterTotalLatency ic) = 4"
    by auto
  obtain p where p: "packetBuffer ic = [p]" "fst (snd p) = compute_path ?s ?d"
    using pb by (auto simp: map_eq_Cons_conv)
  have mesh: "mesh_ok ic" by (simp add: mesh_ok_def m)
  have "inside ic ?s" "inside ic ?d" by (simp_all add: inside_def m)
  then have "\<forall>p \<in> set (packetBuffer ic). \<forall>r \<in> set (fst (snd p)). inside ic (pos_of r)"
    using compute_path_inside by (simp add: p)
  moreover have "flits_ok ic" using enter_network_ok [OF run small_mesh_ok] p by simp
  moreover have "\<forall>a \<in> set (packetBuffer ic). \<forall>b \<in> set (packetBuffer ic). a \<noteq> b \<longrightarrow> set (fst (snd a)) \<inter> set (fst (snd b)) = {}"
    by (simp add: p(1))
  ultimately obtain ic' where "ComputePacketLatency ic = Some (\<Sum>p\<leftarrow>packetBuffer ic. zero_load ic (fst (snd p)), ic')"
    using no_sharing_no_contention [of ic] mesh by blast
  moreover have "length (packetBuffer ic) = 1" by (simp add: p(1))
  ultimately show ?thesis by blast
qed

end
