(* ===== verification/MeshTransport.thy ===== *)
theory MeshTransport
  imports MeshContention
begin

text \<open>
  The transport of transactions through the coherent interconnect
  (\<open>components/connect/CoherenceInterconnect.cpp\<close>): the selection of the home, the caches or the
  memory-mapped component a transaction goes to, the delay of the mesh, and the entry points
  for caches (\<open>b_transport\<close>) and for devices (\<open>b_transport_device\<close>).

  The components bound to the output sockets are the parameter \<open>out\<close>: given the socket, the
  transaction and the delay so far, it returns the delay after the call and the new state of the surroundings.
  A failed assertion and a runtime error are \<open>None\<close>.
\<close>

section \<open>Output sockets\<close>

datatype out_socket = HomeSocket nat | CacheSocket nat | MMappedSocket nat

type_synonym 'e out_hook = "out_socket \<Rightarrow> payload \<Rightarrow> nat \<Rightarrow> 'e \<Rightarrow> (nat \<times> 'e) option"

text \<open>A range contains a transaction if it contains its first and its last byte.\<close>

definition holds :: "u64 \<Rightarrow> u64 \<Rightarrow> payload \<Rightarrow> bool" where
  "holds base bound tr \<longleftrightarrow> base \<le> pAddress tr \<and> pAddress tr + pLength tr - 1 \<le> bound"

definition home_socket :: "payload \<Rightarrow> interconnect \<Rightarrow> nat option" where
  "home_socket tr ic =
     (if length (HomeOutputs ic) = 1 then Some 0
      else if SLCInterleaveLength ic \<noteq> 0 then
        (if in_ram (pAddress tr) ic then slice (SLCInterleaveLength ic) (length (mHomeIDs ic)) (pAddress tr) ic
         else None)
      else map_option (\<lambda>h. unat (h_port h)) (find (\<lambda>h. holds (h_base h) (h_end h) tr) (HomeOutputs ic)))"


fun send_each :: "'e out_hook \<Rightarrow> payload \<Rightarrow> nat list \<Rightarrow> nat \<Rightarrow> nat \<Rightarrow> 'e \<Rightarrow> (nat \<times> 'e) option" where
  "send_each out tr [] n delay e = Some (delay, e)"
| "send_each out tr (k # ks) n delay e =
     do { _ \<leftarrow> cassert (k < n); (delay, e) \<leftarrow> out (CacheSocket k) tr delay e; send_each out tr ks n delay e }"

text \<open>
  A cache output is addressed once for every target identifier equal to its own: once, as the
  targets are a set. Without targets the transaction goes to all caches.
\<close>

definition cache_sockets :: "idx_t set \<Rightarrow> interconnect \<Rightarrow> nat list" where
  "cache_sockets targets ic =
     map (\<lambda>o1. unat (i_position o1)) (filter (\<lambda>o1. targets = {} \<or> i_id o1 \<in> targets) (CacheOutputs ic))"

definition sendTransactionToCache :: "'e out_hook \<Rightarrow> payload \<Rightarrow> idx_t set \<Rightarrow> interconnect \<Rightarrow> nat \<Rightarrow> 'e \<Rightarrow> (nat \<times> 'e) option" where
  "sendTransactionToCache out tr targets ic delay e =
     send_each out tr (cache_sockets targets ic) (length (CacheOutputs ic)) delay e"

definition mmapped_socket :: "payload \<Rightarrow> interconnect \<Rightarrow> nat option" where
  "mmapped_socket tr ic =
     map_option (\<lambda>a. unat (a_port a)) (find (\<lambda>a. holds (a_base a) (a_end a) tr) (MMappedOutputs ic))"

definition sendTransactionToMMapped :: "'e out_hook \<Rightarrow> payload \<Rightarrow> interconnect \<Rightarrow> nat \<Rightarrow> 'e \<Rightarrow> (nat \<times> 'e) option" where
  "sendTransactionToMMapped out tr ic delay e =
     do {
       _ \<leftarrow> cassert (pCommand tr \<noteq> TLM_IGNORE_COMMAND);
       k \<leftarrow> mmapped_socket tr ic;
       _ \<leftarrow> cassert (k < length (MMappedOutputs ic));
       out (MMappedSocket k) tr delay e
     }"

section \<open>Transactions of caches\<close>









section \<open>Transactions of devices\<close>

text \<open>
  The access of a device is split into flits (and, for a read, into memory words first). The
  flits of one access all leave at the same time; the delay of the access is that of its slowest part.
\<close>

definition chunks :: "u64 \<Rightarrow> u32 \<Rightarrow> nat option" where
  "chunks len part =
     do {
       _ \<leftarrow> cassert (part \<noteq> 0);
       Some (unat len div unat part + (if unat len mod unat part \<noteq> 0 then 1 else 0))
     }"

fun read_flits :: "payload \<Rightarrow> nat \<Rightarrow> mesh_pos \<Rightarrow> nat \<Rightarrow> nat \<Rightarrow> nat \<Rightarrow> interconnect \<Rightarrow> (nat \<times> interconnect) option" where
  "read_flits tr time_stamp src memDelay 0 maxDelay ic = Some (maxDelay, ic)"
| "read_flits tr time_stamp src memDelay (Suc n) maxDelay ic =
     do {
       ic \<leftarrow> NetworkTimingModel tr (time_stamp + memDelay) (mContentionInterval ic) False False 1 src {} True ic;
       read_flits tr time_stamp src memDelay n (max maxDelay (memDelay + packet_latency ic)) ic
     }"

fun read_words ::
  "'e out_hook \<Rightarrow> payload \<Rightarrow> nat \<Rightarrow> mesh_pos \<Rightarrow> nat \<Rightarrow> nat \<Rightarrow> nat \<Rightarrow> nat \<Rightarrow> interconnect \<Rightarrow> 'e \<Rightarrow> (nat \<times> interconnect \<times> 'e) option" where
  "read_words out tr time_stamp src flits 0 memDelay maxDelay ic e = Some (maxDelay, ic, e)"
| "read_words out tr time_stamp src flits (Suc n) memDelay maxDelay ic e =
     do {
       (memDelay, e) \<leftarrow> sendTransactionToMMapped out (tr\<lparr>pLength := ucast (MWordLengthInByte ic)\<rparr>) ic memDelay e;
       (maxDelay, ic) \<leftarrow> read_flits (tr\<lparr>pLength := ucast (FlitSize ic)\<rparr>) time_stamp src memDelay flits maxDelay ic;
       read_words out (tr\<lparr>pAddress := pAddress tr + ucast (MWordLengthInByte ic)\<rparr>) time_stamp src flits n memDelay maxDelay ic e
     }"

fun write_flits ::
  "'e out_hook \<Rightarrow> payload \<Rightarrow> nat \<Rightarrow> mesh_pos \<Rightarrow> nat \<Rightarrow> nat \<Rightarrow> nat \<Rightarrow> interconnect \<Rightarrow> 'e \<Rightarrow> (nat \<times> interconnect \<times> 'e) option" where
  "write_flits out tr time_stamp src arrivalDelay 0 maxDelay ic e = Some (maxDelay, ic, e)"
| "write_flits out tr time_stamp src arrivalDelay (Suc n) maxDelay ic e =
     do {
       ic \<leftarrow> NetworkTimingModel tr (time_stamp + arrivalDelay) (mContentionInterval ic) False False 1 src {} False ic;
       (memDelay, e) \<leftarrow> sendTransactionToMMapped out tr ic (arrivalDelay + packet_latency ic) e;
       write_flits out (tr\<lparr>pAddress := pAddress tr + ucast (FlitSize ic)\<rparr>) time_stamp src arrivalDelay n (max maxDelay memDelay) ic e
     }"

definition b_transport_device ::
  "'e out_hook \<Rightarrow> payload \<Rightarrow> idx_t \<Rightarrow> nat \<Rightarrow> interconnect \<Rightarrow> nat \<Rightarrow> 'e \<Rightarrow> (nat \<times> interconnect \<times> 'e) option" where
  "b_transport_device out tr device_id time_stamp ic delay e =
     do {
       src \<leftarrow> get_device_noc_pos_by_id device_id ic;
       if pCommand tr = TLM_READ_COMMAND then
         (if \<not> mIsMesh ic then do {
            (delay, e) \<leftarrow> sendTransactionToMMapped out tr ic delay e;
            Some (delay + ACCESS_LATENCY ic, ic, e)
          }
          else do {
            nbrWords \<leftarrow> chunks (pLength tr) (MWordLengthInByte ic);
            nbrFlitsPerWord \<leftarrow> chunks (ucast (MWordLengthInByte ic)) (FlitSize ic);
            read_words out tr time_stamp src nbrFlitsPerWord nbrWords delay 0 ic e
          })
       else
         (if \<not> mIsMesh ic then do {
            (delay, e) \<leftarrow> sendTransactionToMMapped out tr ic (delay + ACCESS_LATENCY ic) e;
            Some (delay, ic, e)
          }
          else do {
            nbrFlits \<leftarrow> chunks (pLength tr) (FlitSize ic);
            write_flits out (tr\<lparr>pLength := ucast (FlitSize ic)\<rparr>) time_stamp src delay nbrFlits 0 ic e
          })
     }"

section \<open>Delivery\<close>

text \<open>An environment that records what it receives.\<close>

definition logged :: "(out_socket \<times> payload) list out_hook" where
  "logged k tr delay e = Some (delay, e @ [(k, tr)])"

lemma send_each_logged:
  "\<forall>k \<in> set ks. k < n \<Longrightarrow> send_each logged tr ks n delay e = Some (delay, e @ map (\<lambda>k. (CacheSocket k, tr)) ks)"
  by (induction ks arbitrary: e) (simp_all add: logged_def)






text \<open>
  A request of a home is delivered exactly to the caches it names. If the cache outputs
  are at their own positions, the transaction is sent once to every output whose identifier is among the targets, in the order of the outputs, and to no other.
\<close>
theorem targets_and_only_targets:
  assumes "\<forall>k < length (CacheOutputs ic). unat (i_position (CacheOutputs ic ! k)) = k"
    and "targets \<noteq> {}"
  shows "\<exists>ks. sendTransactionToCache logged tr targets ic delay [] = Some (delay, map (\<lambda>k. (CacheSocket k, tr)) ks) \<and>
    sorted ks \<and> distinct ks \<and> set ks = {k. k < length (CacheOutputs ic) \<and> i_id (CacheOutputs ic ! k) \<in> targets}"
proof -
  let ?os = "CacheOutputs ic"
  let ?ks = "filter (\<lambda>k. i_id (?os ! k) \<in> targets) [0..<length ?os]"
  have "filter (\<lambda>o1. i_id o1 \<in> targets) ?os = map ((!) ?os) ?ks"
    using filter_map [of "\<lambda>o1. i_id o1 \<in> targets" "(!) ?os" "[0..<length ?os]"] by (simp add: map_nth comp_def)
  then have ks: "cache_sockets targets ic = ?ks"
    using assms by (simp add: cache_sockets_def cong: map_cong) (auto intro: map_idI)
  then have "sendTransactionToCache logged tr targets ic delay [] = Some (delay, map (\<lambda>k. (CacheSocket k, tr)) ?ks)"
    by (simp add: sendTransactionToCache_def send_each_logged)
  then show ?thesis by (intro exI [of _ ?ks]) (auto simp: sorted_wrt_filter)
qed

text \<open>
  Address decoding. If the ranges of the memory-mapped outputs are pairwise disjoint, a read or
  write whose bytes all lie in the range of one output, without wrapping around the address
  space, goes to the port of that output.
\<close>
theorem decode_disjoint:
  assumes "i < length (MMappedOutputs ic)" and "holds (a_base (MMappedOutputs ic ! i)) (a_end (MMappedOutputs ic ! i)) tr"
    and "pAddress tr \<le> pAddress tr + pLength tr - 1"
    and "\<forall>j < length (MMappedOutputs ic). j \<noteq> i \<longrightarrow>
      {a_base (MMappedOutputs ic ! j)..a_end (MMappedOutputs ic ! j)} \<inter>
      {a_base (MMappedOutputs ic ! i)..a_end (MMappedOutputs ic ! i)} = {}"
  shows "mmapped_socket tr ic = Some (unat (a_port (MMappedOutputs ic ! i)))"
proof -
  let ?os = "MMappedOutputs ic" and ?P = "\<lambda>a. holds (a_base a) (a_end a) tr"
  have only: "j = i" if "j < length ?os" "?P (?os ! j)" for j
  proof (rule ccontr)
    assume "j \<noteq> i"
    moreover have "pAddress tr \<in> {a_base (?os ! j)..a_end (?os ! j)}" using that(2) assms(3) by (auto simp: holds_def)
    moreover have "pAddress tr \<in> {a_base (?os ! i)..a_end (?os ! i)}" using assms(2,3) by (auto simp: holds_def)
    ultimately show False using assms(4) that(1) by blast
  qed
  have "find ?P ?os = Some (?os ! i)"
    unfolding find_Some_iff using assms(1,2) only by (metis less_irrefl less_trans)
  then show ?thesis by (simp add: mmapped_socket_def)
qed

text \<open>A non-mesh interconnect with two caches, two homes interleaved every 64 bytes and two memories.\<close>

definition small_noc :: interconnect where
  "small_noc = the (do {
     let ic = CoherenceInterconnect_new 2 2 2 8 8 True 0 64;
     ic \<leftarrow> set_cache_pos ''l2a'' 0 ic;
     ic \<leftarrow> set_cache_pos ''l2b'' 1 ic;
     ic \<leftarrow> set_cache_id 0 10 ''l2a'' ic;
     ic \<leftarrow> set_cache_id 1 11 ''l2b'' ic;
     ic \<leftarrow> set_home_output 0 20 0 4096 ic;
     ic \<leftarrow> set_home_output 1 21 4096 4096 ic;
     ic \<leftarrow> set_mmapped_output 0 0 4096 ic;
     ic \<leftarrow> set_mmapped_output 1 4096 4096 ic;
     let ic = set_ram_last_addr 8192 (set_ram_base_addr 0 (set_mesh_coord 2 2 ic));
     ic \<leftarrow> register_home_ctrl 0 4096 0 1 ic;
     register_home_ctrl 4096 4096 1 1 ic })"

theorem targets_and_only_targets_witness:
  "sendTransactionToCache logged small_read {11, 12} small_noc 3 [] = Some (3, [(CacheSocket 1, small_read)])"
proof -
  have ids: "map (\<lambda>o1. (unat (i_position o1), i_id o1)) (CacheOutputs small_noc) = [(0, 10), (1, 11)]" by code_simp
  have len: "length (CacheOutputs small_noc) = 2" by code_simp
  have nth: "unat (i_position (CacheOutputs small_noc ! k)) = k" "i_id (CacheOutputs small_noc ! k) = (if k = 0 then 10 else 11)"
    if "k < 2" for k
    using ids that len nth_map [of k "CacheOutputs small_noc" "\<lambda>o1. (unat (i_position o1), i_id o1)"]
    by (cases k; simp)+
  then obtain ks where ks: "sendTransactionToCache logged small_read {11, 12} small_noc 3 [] =
      Some (3, map (\<lambda>k. (CacheSocket k, small_read)) ks)" "distinct ks" "set ks = {k. k < 2 \<and> i_id (CacheOutputs small_noc ! k) \<in> {11, 12}}"
    using targets_and_only_targets [of small_noc "{11, 12}" small_read 3] len by auto
  have "set ks = {1}" unfolding ks(3) using nth(2) by (auto simp: less_2_cases_iff)
  then have "ks = [1]" using ks(2) by (cases ks; cases "tl ks") auto
  then show ?thesis using ks(1) by simp
qed

theorem decode_disjoint_witness: "mmapped_socket (small_read\<lparr>pAddress := 5000\<rparr>) small_noc = Some 1"
proof -
  have os: "MMappedOutputs small_noc =
      [\<lparr>a_base = 0, a_end = 4095, a_offset = 4096, a_port = 0\<rparr>, \<lparr>a_base = 4096, a_end = 8191, a_offset = 4096, a_port = 1\<rparr>]"
    by code_simp
  have "{0..4095} \<inter> {4096..8191 :: u64} = {}" by (auto dest: order_trans)
  then have "mmapped_socket (small_read\<lparr>pAddress := 5000\<rparr>) small_noc = Some (unat (a_port (MMappedOutputs small_noc ! 1)))"
    by (intro decode_disjoint) (simp_all add: os holds_def small_read_def less_Suc_eq_0_disj)
  then show ?thesis by (simp add: os)
qed

text \<open>
  The latency model and the delivery agree on interleaved homes: with several homes and
  interleaving, the mesh position used for the distance is that of the home whose socket gets the
  transaction, and an address outside the memory has neither.
\<close>
theorem home_position_agrees:
  assumes "SLCInterleaveLength ic \<noteq> 0" and "length (HomeOutputs ic) \<noteq> 1"
  shows "get_home_pos_by_address (pAddress tr) ic = map_option (\<lambda>k. snd (snd (mHomeIDs ic ! k))) (home_socket tr ic) \<and>
    (\<forall>k. home_socket tr ic = Some k \<longrightarrow> k < length (mHomeIDs ic))"
  using assms
  by (auto simp: get_home_pos_by_address_def get_home_pos_by_address_with_interleave_def home_socket_def slice_def cassert_def)

theorem home_position_agrees_witness:
  "home_socket (small_read\<lparr>pAddress := 64\<rparr>) small_noc = Some 1 \<and> get_home_pos_by_address 64 small_noc = Some \<lparr>x_id = 1, y_id = 1\<rparr>"
proof -
  have "SLCInterleaveLength small_noc \<noteq> 0" "length (HomeOutputs small_noc) \<noteq> 1"
    and k: "home_socket (small_read\<lparr>pAddress := 64\<rparr>) small_noc = Some 1"
    and p: "snd (snd (mHomeIDs small_noc ! 1)) = \<lparr>x_id = 1, y_id = 1\<rparr>"
    by code_simp+
  then show ?thesis using home_position_agrees [of small_noc "small_read\<lparr>pAddress := 64\<rparr>"] by (simp add: small_read_def)
qed

text \<open>
  The interleaved memory map runs past its end. The index of a memory controller is the index
  of the first one plus the slice of the address taken over the number of all registered components.
  As soon as some component was registered before the first controller, there is an address in the memory,
  at the start of the last slice, for which the position is looked up beyond the registered ones.
\<close>
theorem interleaved_memory_overruns:
  assumes "MemoryInterleaveLength ic \<noteq> 0" and "0 < unat (IndexFirstMemoryController ic)" and "mAddressIDs ic \<noteq> []"
    and "unat (RamBaseAddr ic) + length (mAddressIDs ic) * unat (MemoryInterleaveLength ic) \<le> unat (RamLastAddr ic)"
    and "a = RamBaseAddr ic + of_nat (length (mAddressIDs ic) - 1) * ucast (MemoryInterleaveLength ic)"
  shows "in_ram a ic \<and> get_noc_pos_by_address a (unat (IndexFirstMemoryController ic)) ic = None"
proof -
  let ?n = "length (mAddressIDs ic)" and ?il = "MemoryInterleaveLength ic" and ?b = "RamBaseAddr ic"
  have il: "0 < unat ?il" using assms(1) by (simp add: unat_gt_0)
  have n: "0 < ?n" using assms(3) by simp
  have "(?n - 1) * unat ?il + unat ?il = ?n * unat ?il" using n by (cases ?n) simp_all
  then have sum: "unat ?b + (?n - 1) * unat ?il < unat (RamLastAddr ic)" using assms(4) il by linarith
  have "unat (RamLastAddr ic) < 2 ^ LENGTH(64)" by (rule unsigned_less)
  then have bound: "unat ?b + (?n - 1) * unat ?il < 2 ^ 64" using sum by simp
  have off: "unat (of_nat (?n - 1) * ucast ?il :: u64) = (?n - 1) * unat ?il"
    using bound by (simp add: unat_word_ariths unat_of_nat unsigned_ucast_eq take_bit_eq_mod mod_mult_eq)
  then have a: "unat a = unat ?b + (?n - 1) * unat ?il" using bound by (simp add: assms(5) unat_word_ariths)
  have ram: "in_ram a ic" using a sum by (simp add: in_ram_def word_le_nat_alt word_less_nat_alt)
  have "a - ?b = of_nat (?n - 1) * ucast ?il" by (simp add: assms(5))
  moreover have "unat ?il < 2 ^ LENGTH(32)" by (rule unsigned_less)
  ultimately have "unat ((a - ?b) div ucast ?il) = ?n - 1"
    using off il by (simp add: unat_div unsigned_ucast_eq take_bit_eq_mod)
  then have "slice ?il ?n a ic = Some (?n - 1)" using assms(1) n by (simp add: slice_def)
  then show ?thesis
    using ram assms(1,2) n
    by (simp add: get_noc_pos_by_address_def get_noc_pos_by_address_with_interleave_def cassert_def)
qed

theorem interleaved_memory_overruns_witness:
  "\<exists>ic. in_ram 64 ic \<and> get_noc_pos_by_address 64 1 ic = None"
proof -
  let ?p = "\<lparr>x_id = 0, y_id = 0\<rparr>"
  let ?ic = "(CoherenceInterconnect_new 0 0 0 8 8 True 64 0)\<lparr>mAddressIDs := [(0, 16, ?p), (0, 128, ?p)],
    IndexFirstMemoryController := 1, RamBaseAddr := 0, RamLastAddr := 128\<rparr>"
  have "in_ram 64 ?ic \<and> get_noc_pos_by_address 64 (unat (IndexFirstMemoryController ?ic)) ?ic = None"
    by (rule interleaved_memory_overruns) (simp_all add: CoherenceInterconnect_new_def)
  then show ?thesis by (intro exI [of _ ?ic]) simp
qed

text \<open>
  A device access to the mesh without bytes loses the delay accumulated so far: the delay of the access
  is the maximum over its flits, which starts from zero and not from the delay at entry.
\<close>
lemma empty_device_access_resets_delay:
  assumes "mIsMesh ic" and "pLength tr = 0" and "get_device_noc_pos_by_id dev ic = Some p"
    and "FlitSize ic \<noteq> 0" and "MWordLengthInByte ic \<noteq> 0"
  shows "b_transport_device out tr dev ts ic delay e = Some (0, ic, e)"
  using assms by (simp add: b_transport_device_def chunks_def)

end
