(* ===== verification/Gic.thy ===== *)
theory Gic
  imports VP_Prelude
begin

text \<open>
  The interrupt controller (\<open>components/peripherals/gic.cpp\<close>): the distributor, the interfaces
  of the processors, the virtual interfaces, and the combinational logic that queues interrupts
  and drives the interrupt lines.

  The registers are the bytes of the local memory, little endian, as the code accesses
  it through pointers of different types; an address outside the memory, an index outside a
  vector, the front of an empty queue and an exception are all \<open>None\<close>. The mutex is left out: the
  model runs one operation at a time. A shift by at least the width of its operand gives zero. The calls of \<open>update_irq\<close> on the processors are recorded in
  \<open>gLines\<close>, the fields \<open>mAck\<close>, \<open>mAlreadyNotified\<close> and \<open>mTouched\<close>, which nothing reads, are left out.
\<close>

section \<open>State\<close>

record VIntEntry =
  VirtualID :: u32
  PhysicalID :: u32
  Priority :: u32
  State :: u32
  Grp1 :: u32
  HW :: u32

record gic =
  gBase :: u64
  mDistBase :: u64
  mDistSize :: u64
  mCpuBase :: u64
  mCpuSize :: u64
  mVDistBase :: u64
  mVDistSize :: u64
  mVCPUBase :: u64
  mVCPUSize :: u64
  mMaintIrq :: u32
  localMem :: "u64 \<Rightarrow> u8"
  mPendingCpuIds :: "u32 list"
  mCpuQueue :: "u32 list list"
  mVCpuQueue :: "u32 list list"
  mCpus :: "u32 list"
  mInterruptOrigins :: "(u32 \<Rightarrow> u32) list"
  mPendingInterrupts :: "u32 list list"
  mRoundRobin :: nat
  mEnableStatus :: "(u32 \<times> bool) list list"
  gLines :: "(u32 \<times> bool \<times> u32) list"

definition N_GIC_INTERRUPTS :: nat where
  "N_GIC_INTERRUPTS = 512"

section \<open>Local memory\<close>

text \<open>The local memory has \<open>0x100001\<close> words: the address space built from the size \<open>0x100000\<close> is one longer.\<close>

definition mem_bytes :: u64 where
  "mem_bytes = 0x400004"

definition rd8 :: "u64 \<Rightarrow> gic \<Rightarrow> u8 option" where
  "rd8 a g = (if a < mem_bytes then Some (localMem g a) else None)"

definition wr8 :: "u64 \<Rightarrow> u8 \<Rightarrow> gic \<Rightarrow> gic option" where
  "wr8 a v g = (if a < mem_bytes then Some (g\<lparr>localMem := (localMem g)(a := v)\<rparr>) else None)"

definition rd32 :: "u64 \<Rightarrow> gic \<Rightarrow> u32 option" where
  "rd32 a g =
     do {
       b0 \<leftarrow> rd8 a g; b1 \<leftarrow> rd8 (a + 1) g; b2 \<leftarrow> rd8 (a + 2) g; b3 \<leftarrow> rd8 (a + 3) g;
       Some (ucast b0 OR push_bit 8 (ucast b1) OR push_bit 16 (ucast b2) OR push_bit 24 (ucast b3))
     }"

text \<open>\<open>memcpy\<close> of the first \<open>n\<close> bytes of a 32-bit value.\<close>

fun wr_bytes :: "u64 \<Rightarrow> u32 \<Rightarrow> nat \<Rightarrow> gic \<Rightarrow> gic option" where
  "wr_bytes a v 0 g = Some g"
| "wr_bytes a v (Suc n) g = do { g \<leftarrow> wr8 a (ucast v) g; wr_bytes (a + 1) (drop_bit 8 v) n g }"

definition copy_value :: "u64 \<Rightarrow> u32 \<Rightarrow> u64 \<Rightarrow> gic \<Rightarrow> gic option" where
  "copy_value a v len g = do { _ \<leftarrow> cassert (len \<le> 4); wr_bytes a v (unat len) g }"

definition wr32 :: "u64 \<Rightarrow> u32 \<Rightarrow> gic \<Rightarrow> gic option" where
  "wr32 a v g = wr_bytes a v 4 g"

text \<open>The local memory indexed as an array of words.\<close>

definition word_at :: "u64 \<Rightarrow> u64" where
  "word_at i = 4 * i"

text \<open>Per-processor vectors.\<close>

definition at :: "'a list \<Rightarrow> u32 \<Rightarrow> 'a option" where
  "at xs i = (if unat i < length xs then Some (xs ! unat i) else None)"

section \<open>Registers\<close>

definition setInterruptTarget :: "u32 \<Rightarrow> u8 \<Rightarrow> gic \<Rightarrow> gic option" where
  "setInterruptTarget interrupt targetlist g = wr8 (mDistBase g + 0x800 + ucast interrupt) targetlist g"

definition cpuInTarget :: "u32 \<Rightarrow> u32 \<Rightarrow> gic \<Rightarrow> bool option" where
  "cpuInTarget interrupt cpu g =
     do { b \<leftarrow> rd8 (mDistBase g + 0x800 + ucast interrupt) g; Some (bit b (unat cpu)) }"

definition setInterruptPending :: "u32 \<Rightarrow> u32 \<Rightarrow> bool \<Rightarrow> gic \<Rightarrow> gic option" where
  "setInterruptPending cpu interrupt value g =
     do {
       let index = unat interrupt div 32;
       p \<leftarrow> at (mPendingInterrupts g) cpu;
       _ \<leftarrow> cassert (index < length p);
       let w = (if value then set_bit (unat interrupt mod 32) (p ! index) else unset_bit (unat interrupt mod 32) (p ! index));
       Some (g\<lparr>mPendingInterrupts := (mPendingInterrupts g)[unat cpu := p[index := w]]\<rparr>)
     }"

definition isEnabled :: "gic \<Rightarrow> bool option" where
  "isEnabled g = do { w \<leftarrow> rd32 (word_at (mDistBase g div 4)) g; Some (bit w 0) }"

definition cpuTakesInterrupts :: "u32 \<Rightarrow> gic \<Rightarrow> bool option" where
  "cpuTakesInterrupts cpu g = do { w \<leftarrow> rd32 (word_at ((mCpuBase g + ucast (0x100 * cpu)) div 4)) g; Some (bit w 0) }"

definition setCurrentInterruptId :: "u32 \<Rightarrow> u32 \<Rightarrow> gic \<Rightarrow> gic option" where
  "setCurrentInterruptId cpu value g = wr32 (word_at ((mCpuBase g + ucast (0x100 * cpu) + 0xC) div 4)) value g"

definition setCurrentVirtualInterruptId :: "u32 \<Rightarrow> u32 \<Rightarrow> gic \<Rightarrow> gic option" where
  "setCurrentVirtualInterruptId cpu value g = wr32 (word_at ((mVCPUBase g + ucast (0x100 * cpu) + 0xC) div 4)) value g"

definition getInterruptEnableDist :: "u32 \<Rightarrow> gic \<Rightarrow> u32 option" where
  "getInterruptEnableDist i g = rd32 (word_at ((mDistBase g + 0x100 + ucast (i * 4)) div 4)) g"

definition getInterruptPriority :: "u32 \<Rightarrow> gic \<Rightarrow> u8 option" where
  "getInterruptPriority interrupt g = rd8 (mDistBase g + 0x400 + ucast interrupt) g"

definition getCpuPriorityMask :: "u32 \<Rightarrow> gic \<Rightarrow> u8 option" where
  "getCpuPriorityMask cpu g = rd8 (mCpuBase g + ucast (cpu * 0x100) + 4) g"

definition getVCpuPriorityMask :: "u32 \<Rightarrow> gic \<Rightarrow> u8 option" where
  "getVCpuPriorityMask cpu g = rd8 (mVCPUBase g + ucast (cpu * 0x100) + 4) g"

text \<open>The list registers: the bit fields of a word, the first field in the lowest bits.\<close>

definition field :: "nat \<Rightarrow> nat \<Rightarrow> u32 \<Rightarrow> u32" where
  "field pos width w = take_bit width (drop_bit pos w)"

definition VIntEntry_of :: "u32 \<Rightarrow> VIntEntry" where
  "VIntEntry_of w =
     \<lparr>VirtualID = field 0 10 w, PhysicalID = field 10 10 w, Priority = field 23 5 w, State = field 28 2 w,
      Grp1 = field 30 1 w, HW = field 31 1 w\<rparr>"

definition getVIntEntry :: "u32 \<Rightarrow> gic \<Rightarrow> VIntEntry option" where
  "getVIntEntry index g =
     do { w \<leftarrow> rd32 (mVDistBase g + ucast (0x100 + 4 * index)) g; Some (VIntEntry_of w) }"

section \<open>Construction\<close>

definition gic_new :: "(u64 \<Rightarrow> u8) \<Rightarrow> gic" where
  "gic_new mem =
     \<lparr>gBase = 0, mDistBase = 0, mDistSize = 0, mCpuBase = 0, mCpuSize = 0, mVDistBase = 0, mVDistSize = 0,
      mVCPUBase = 0, mVCPUSize = 0, mMaintIrq = 0, localMem = mem, mPendingCpuIds = replicate 16 0,
      mCpuQueue = [], mVCpuQueue = [], mCpus = [], mInterruptOrigins = [], mPendingInterrupts = [],
      mRoundRobin = 0, mEnableStatus = [], gLines = []\<rparr>"

definition setDistBase :: "u64 \<Rightarrow> gic \<Rightarrow> gic" where
  "setDistBase dist_base g = g\<lparr>mDistBase := dist_base\<rparr>"

definition setCPUBase :: "u64 \<Rightarrow> gic \<Rightarrow> gic" where
  "setCPUBase cpu_base g = g\<lparr>mCpuBase := cpu_base\<rparr>"

definition setDistSize :: "u64 \<Rightarrow> gic \<Rightarrow> gic" where
  "setDistSize dist_size g = g\<lparr>mDistSize := dist_size\<rparr>"

definition setCPUSize :: "u64 \<Rightarrow> gic \<Rightarrow> gic" where
  "setCPUSize cpu_size g = g\<lparr>mCpuSize := cpu_size\<rparr>"

definition setVDistBase :: "u64 \<Rightarrow> gic \<Rightarrow> gic" where
  "setVDistBase vdist_base g = g\<lparr>mVDistBase := vdist_base\<rparr>"

definition setVDistSize :: "u64 \<Rightarrow> gic \<Rightarrow> gic" where
  "setVDistSize vdist_size g = g\<lparr>mVDistSize := vdist_size\<rparr>"

definition setVCPUBase :: "u64 \<Rightarrow> gic \<Rightarrow> gic" where
  "setVCPUBase vcpu_base g = g\<lparr>mVCPUBase := vcpu_base\<rparr>"

definition setVCPUSize :: "u64 \<Rightarrow> gic \<Rightarrow> gic" where
  "setVCPUSize vcpu_size g = g\<lparr>mVCPUSize := vcpu_size\<rparr>"

definition setMaintenanceInterrupt :: "u32 \<Rightarrow> gic \<Rightarrow> gic" where
  "setMaintenanceInterrupt irq g = g\<lparr>mMaintIrq := irq\<rparr>"

definition connectCpu :: "u32 \<Rightarrow> gic \<Rightarrow> gic option" where
  "connectCpu cpu g =
     do {
       let g = g\<lparr>mCpus := mCpus g @ [cpu], mCpuQueue := mCpuQueue g @ [[]], mVCpuQueue := mVCpuQueue g @ [[]]\<rparr>;
       g \<leftarrow> wr32 (word_at (mDistBase g div 4 + 1)) (3 OR push_bit 5 (of_nat (length (mCpus g)))) g;
       let g = g\<lparr>mInterruptOrigins := mInterruptOrigins g @ [\<lambda>_. 0],
                mPendingInterrupts := mPendingInterrupts g @ [replicate (N_GIC_INTERRUPTS div 32) 0],
                mEnableStatus := mEnableStatus g @ [[]]\<rparr>;
       g \<leftarrow> wr32 (word_at (mVDistBase g + ucast (0x1000 * cpu) + 0x30)) 0xffffffff g;
       wr32 (word_at (mVDistBase g + ucast (0x1000 * cpu) + 0x30 + 4)) 0xffffffff g
     }"

section \<open>Combinational logic\<close>

definition ackValue :: "u32 \<Rightarrow> u32 \<Rightarrow> gic \<Rightarrow> u32 option" where
  "ackValue cpu irq g =
     do {
       o1 \<leftarrow> at (mInterruptOrigins g) cpu;
       Some (if irq < 16 then irq OR push_bit 10 (o1 irq) else irq)
     }"

text \<open>One entry of the enable map of a processor: whether the interrupt may be taken, and its acknowledge value.\<close>

definition takes_interrupt :: "u32 \<Rightarrow> u32 \<times> bool \<Rightarrow> gic \<Rightarrow> (bool \<times> u32) option" where
  "takes_interrupt cpu entry g =
     (case entry of (irq, enabled) \<Rightarrow> do {
        p \<leftarrow> at (mPendingInterrupts g) cpu;
        _ \<leftarrow> cassert (unat irq div 32 < length p);
        let masked = p ! (unat irq div 32);
        ack \<leftarrow> ackValue cpu irq g;
        prio \<leftarrow> getInterruptPriority irq g;
        mask \<leftarrow> getCpuPriorityMask cpu g;
        if prio > mask then Some (False, ack)
        else do {
          target \<leftarrow> (if bit masked (unat irq mod 32) then cpuInTarget irq cpu g else Some False);
          Some (target \<and> enabled, ack)
        }
      })"

definition enqueue :: "u32 \<Rightarrow> u32 \<Rightarrow> gic \<Rightarrow> gic option" where
  "enqueue cpu ack g =
     do {
       q \<leftarrow> at (mCpuQueue g) cpu;
       Some (if ack \<in> set q then g else g\<lparr>mCpuQueue := (mCpuQueue g)[unat cpu := q @ [ack]]\<rparr>)
     }"

definition consider_interrupt :: "u32 \<Rightarrow> u32 \<times> bool \<Rightarrow> gic \<Rightarrow> gic option" where
  "consider_interrupt cpu entry g =
     do {
       (takes, ack) \<leftarrow> takes_interrupt cpu entry g;
       if takes then enqueue cpu ack g else Some g
     }"

fun consider_all :: "u32 \<Rightarrow> (u32 \<times> bool) list \<Rightarrow> gic \<Rightarrow> gic option" where
  "consider_all cpu [] g = Some g"
| "consider_all cpu (e # es) g = do { g \<leftarrow> consider_interrupt cpu e g; consider_all cpu es g }"

definition drive :: "u32 \<Rightarrow> bool \<Rightarrow> u32 \<Rightarrow> gic \<Rightarrow> gic" where
  "drive cpu level line g = g\<lparr>gLines := gLines g @ [(cpu, level, line OR push_bit 16 cpu)]\<rparr>"

definition virtual_ack :: "VIntEntry \<Rightarrow> u32" where
  "virtual_ack v = (if HW v = 0 then VirtualID v OR push_bit 10 (PhysicalID v) else VirtualID v)"

text \<open>The acknowledge registers hold the fronts of the queues.\<close>

definition present :: "u32 \<Rightarrow> u32 list \<Rightarrow> gic \<Rightarrow> gic option" where
  "present cpu q g = (case q of [] \<Rightarrow> Some g | irq # _ \<Rightarrow> setCurrentInterruptId cpu irq g)"

definition present_virtual :: "u32 \<Rightarrow> u32 list \<Rightarrow> gic \<Rightarrow> gic option" where
  "present_virtual cpu vq g =
     (case vq of [] \<Rightarrow> Some g
      | k # _ \<Rightarrow> do {
          v \<leftarrow> getVIntEntry k g;
          let n = virtual_ack v;
          let n = (if n < 16 then n OR push_bit 10 (PhysicalID v AND 7) else n);
          setCurrentVirtualInterruptId cpu n g
        })"

definition update_cpu :: "u32 \<Rightarrow> gic \<Rightarrow> gic option" where
  "update_cpu cpu g =
     do {
       enabled \<leftarrow> isEnabled g;
       takes \<leftarrow> (if enabled then cpuTakesInterrupts cpu g else Some False);
       if \<not> enabled \<or> \<not> takes then Some (drive cpu False 0 g)
       else do {
         es \<leftarrow> at (mEnableStatus g) cpu;
         _ \<leftarrow> at (mCpuQueue g) cpu;
         g \<leftarrow> consider_all cpu es g;
         q \<leftarrow> at (mCpuQueue g) cpu;
         g \<leftarrow> present cpu q g;
         let g = drive cpu (q \<noteq> []) 0 g;
         vq \<leftarrow> at (mVCpuQueue g) cpu;
         g \<leftarrow> present_virtual cpu vq g;
         Some (drive cpu (vq \<noteq> []) 2 g)
       }
     }"

fun update_cpus :: "u32 list \<Rightarrow> gic \<Rightarrow> gic option" where
  "update_cpus [] g = Some g"
| "update_cpus (c # cs) g = do { g \<leftarrow> update_cpu c g; update_cpus cs g }"

text \<open>The processors are visited once each, starting after the one the round robin points to.\<close>

definition visit_order :: "gic \<Rightarrow> u32 list" where
  "visit_order g = map (\<lambda>k. mCpus g ! ((mRoundRobin g + k + 1) mod length (mCpus g))) [0..<length (mCpus g)]"

definition comb_logic :: "gic \<Rightarrow> gic option" where
  "comb_logic g = update_cpus (visit_order g) g"

section \<open>Interfaces of the processors\<close>

definition genMaint :: "u32 \<Rightarrow> gic \<Rightarrow> gic option" where
  "genMaint cpu g =
     do { g \<leftarrow> enqueue cpu (mMaintIrq g) g; comb_logic g }"

text \<open>The end of an interrupt: it must be the one at the front of the queue. The next one takes its place.\<close>

definition next_interrupt :: "u32 \<Rightarrow> u32 list \<Rightarrow> gic \<Rightarrow> gic option" where
  "next_interrupt cpu q g =
     (case q of
        irq # _ \<Rightarrow> do {
          g \<leftarrow> setInterruptPending cpu (irq AND 0x3FF) True g;
          setCurrentInterruptId cpu irq g
        }
      | [] \<Rightarrow> do {
          g \<leftarrow> setCurrentInterruptId cpu 1023 g;
          _ \<leftarrow> cassert (mCpus g \<noteq> []);
          Some (g\<lparr>mRoundRobin := (mRoundRobin g + 1) mod length (mCpus g)\<rparr>)
        })"

definition end_interrupt :: "u32 \<Rightarrow> u32 \<Rightarrow> gic \<Rightarrow> gic option" where
  "end_interrupt cpu value g =
     do {
       q \<leftarrow> at (mCpuQueue g) cpu;
       _ \<leftarrow> cassert (q \<noteq> []);
       let interrupt = value AND 0x3FF;
       g \<leftarrow> setInterruptPending cpu interrupt False g;
       _ \<leftarrow> cassert (interrupt = hd q AND 0x3FF);
       next_interrupt cpu (tl q) (g\<lparr>mCpuQueue := (mCpuQueue g)[unat cpu := tl q]\<rparr>)
     }"

definition is_end_of_interrupt :: "u64 \<Rightarrow> u64 \<Rightarrow> u32 \<Rightarrow> gic \<Rightarrow> bool option" where
  "is_end_of_interrupt base offset cpu g =
     do { mode \<leftarrow> rd8 (base + ucast (cpu * 0x100) + 1) g; Some (\<not> bit mode 1 \<or> offset = 0x1000) }"

definition writeCpu :: "u64 \<Rightarrow> u32 \<Rightarrow> u64 \<Rightarrow> u32 \<Rightarrow> gic \<Rightarrow> gic option" where
  "writeCpu offset value len cpu g =
     (if offset \<in> {0x10, 0x24, 0x1000} then do {
        eoi \<leftarrow> is_end_of_interrupt (mCpuBase g) offset cpu g;
        if eoi then end_interrupt cpu value g else Some g
      }
      else copy_value (mCpuBase g + offset + ucast (cpu * 0x100)) value len g)"

definition readCpu :: "u64 \<Rightarrow> u64 \<Rightarrow> u32 \<Rightarrow> gic \<Rightarrow> u32 option" where
  "readCpu offset len cpu g = rd32 (mCpuBase g + ucast (cpu * 0x100) + offset) g"

definition readVCpu :: "u64 \<Rightarrow> u64 \<Rightarrow> u32 \<Rightarrow> gic \<Rightarrow> u32 option" where
  "readVCpu offset len cpu g = rd32 (mVCPUBase g + ucast (cpu * 0x100) + offset) g"

definition vdist :: "u32 \<Rightarrow> gic \<Rightarrow> u64" where
  "vdist cpu g = mVDistBase g + ucast (0x1000 * cpu)"

definition or8 :: "u64 \<Rightarrow> u32 \<Rightarrow> gic \<Rightarrow> gic option" where
  "or8 a v g = do { b \<leftarrow> rd8 a g; wr8 a (ucast (ucast b OR v)) g }"

definition and8 :: "u64 \<Rightarrow> u32 \<Rightarrow> gic \<Rightarrow> gic option" where
  "and8 a v g = do { b \<leftarrow> rd8 a g; wr8 a (ucast (ucast b AND v)) g }"

text \<open>The end of a virtual interrupt with a physical one behind it, or without one and with a request for maintenance.\<close>

definition end_physical :: "u32 \<Rightarrow> u32 \<Rightarrow> VIntEntry \<Rightarrow> gic \<Rightarrow> gic option" where
  "end_physical cpu interrupt v g =
     do {
       g \<leftarrow> setInterruptPending cpu interrupt False g;
       q \<leftarrow> at (mCpuQueue g) cpu;
       _ \<leftarrow> cassert (q \<noteq> []);
       _ \<leftarrow> cassert (PhysicalID v = hd q AND 0x3FF);
       Some (g\<lparr>mCpuQueue := (mCpuQueue g)[unat cpu := tl q]\<rparr>)
     }"

definition request_maintenance :: "u32 \<Rightarrow> u32 \<Rightarrow> gic \<Rightarrow> gic option" where
  "request_maintenance cpu k g =
     do {
       g \<leftarrow> or8 (vdist cpu g + 0x10) 1 g;
       g \<leftarrow> or8 (vdist cpu g + 0x20 + ucast (k div 32 * 4)) (push_bit (unat k mod 32) 1) g;
       genMaint cpu g
     }"

text \<open>When the last virtual interrupt ended and no list register is in use, the processor may ask to be told.\<close>

definition notify_no_pending :: "u32 \<Rightarrow> gic \<Rightarrow> gic option" where
  "notify_no_pending cpu g =
     do {
       a \<leftarrow> rd32 (word_at (vdist cpu g + 0x30)) g;
       b \<leftarrow> rd32 (word_at (vdist cpu g + 4 + 0x30)) g;
       c \<leftarrow> rd8 (vdist cpu g) g;
       if a = 0xffffffff \<and> b = 0xffffffff \<and> bit c 3 then do {
         g \<leftarrow> or8 (vdist cpu g + 0x10) 8 g;
         genMaint cpu g
       }
       else Some g
     }"

definition end_virtual :: "u32 \<Rightarrow> u32 \<Rightarrow> gic \<Rightarrow> gic option" where
  "end_virtual cpu value g =
     do {
       vq \<leftarrow> at (mVCpuQueue g) cpu;
       _ \<leftarrow> cassert (vq \<noteq> []);
       let k = hd vq;
       v \<leftarrow> getVIntEntry k g;
       let interrupt = value AND 0x3FF;
       _ \<leftarrow> cassert (interrupt = VirtualID v);
       g \<leftarrow> or8 (vdist cpu g + ucast (k div 32 * 4 + 0x30)) (push_bit (unat k mod 32) 1) g;
       w \<leftarrow> rd32 (vdist cpu g + ucast (0x100 + k * 4)) g;
       g \<leftarrow> wr32 (vdist cpu g + ucast (0x100 + k * 4)) (w AND NOT (push_bit 28 3)) g;
       g \<leftarrow> (if HW v = 1 then end_physical cpu interrupt v g
             else if bit (PhysicalID v) 9 then request_maintenance cpu k g
             else Some g);
       vq \<leftarrow> at (mVCpuQueue g) cpu;
       let g = g\<lparr>mVCpuQueue := (mVCpuQueue g)[unat cpu := tl vq]\<rparr>;
       case tl vq of
         k' # _ \<Rightarrow> do { v' \<leftarrow> getVIntEntry k' g; setCurrentVirtualInterruptId cpu (virtual_ack v') g }
       | [] \<Rightarrow> do { g \<leftarrow> setCurrentVirtualInterruptId cpu 1023 g; notify_no_pending cpu g }
     }"

definition writeVCpu :: "u64 \<Rightarrow> u32 \<Rightarrow> u64 \<Rightarrow> u32 \<Rightarrow> gic \<Rightarrow> gic option" where
  "writeVCpu offset value len cpu g =
     (if offset \<in> {0x10, 0x24, 0x1000} then do {
        eoi \<leftarrow> is_end_of_interrupt (mVCPUBase g) offset cpu g;
        if eoi then end_virtual cpu value g else Some g
      }
      else copy_value (mVCPUBase g + offset + ucast (cpu * 0x100)) value len g)"

section \<open>Distributor\<close>

text \<open>A map from interrupts to whether they are enabled, in increasing order.\<close>

fun status_put :: "u32 \<Rightarrow> bool \<Rightarrow> (u32 \<times> bool) list \<Rightarrow> (u32 \<times> bool) list" where
  "status_put k v [] = [(k, v)]"
| "status_put k v ((k', v') # es) =
     (if k < k' then (k, v) # (k', v') # es else if k = k' then (k', v) # es else (k', v') # status_put k v es)"

definition set_status :: "u32 \<Rightarrow> bool \<Rightarrow> u32 \<Rightarrow> gic \<Rightarrow> gic option" where
  "set_status irq v cpu g =
     do {
       es \<leftarrow> at (mEnableStatus g) cpu;
       Some (g\<lparr>mEnableStatus := (mEnableStatus g)[unat cpu := status_put irq v es]\<rparr>)
     }"

fun set_status_all :: "u32 \<Rightarrow> bool \<Rightarrow> u32 list \<Rightarrow> gic \<Rightarrow> gic option" where
  "set_status_all irq v [] g = Some g"
| "set_status_all irq v (c # cs) g = do { g \<leftarrow> set_status irq v c g; set_status_all irq v cs g }"

definition status_bit :: "u32 \<Rightarrow> bool \<Rightarrow> u32 \<Rightarrow> gic \<Rightarrow> gic option" where
  "status_bit irq v cpu g = (if irq > 31 then set_status_all irq v (mCpus g) g else set_status irq v cpu g)"

fun status_bits :: "u32 \<Rightarrow> u32 \<Rightarrow> bool \<Rightarrow> nat list \<Rightarrow> u32 \<Rightarrow> gic \<Rightarrow> gic option" where
  "status_bits idx value v [] cpu g = Some g"
| "status_bits idx value v (i # is) cpu g =
     do {
       g \<leftarrow> (if bit value i then status_bit (idx * 8 + of_nat i) v cpu g else Some g);
       status_bits idx value v is cpu g
     }"

definition sgi_targets :: "u32 \<Rightarrow> u32 \<Rightarrow> u8" where
  "sgi_targets value cpu =
     (let policy = take_bit 2 (drop_bit 24 value) in
      if policy = 0 then ucast (drop_bit 16 value)
      else if policy = 1 then ucast (NOT (push_bit (unat cpu) (1 :: u32)))
      else if policy = 2 then ucast (push_bit (unat cpu) (1 :: u32))
      else 0xFF)"

fun raise_sgi :: "u32 \<Rightarrow> u32 \<Rightarrow> u8 \<Rightarrow> nat list \<Rightarrow> gic \<Rightarrow> gic option" where
  "raise_sgi sgi cpu targets [] g = Some g"
| "raise_sgi sgi cpu targets (t # ts) g =
     do {
       g \<leftarrow> (if bit targets t then do {
               _ \<leftarrow> cassert (t < length (mInterruptOrigins g));
               setInterruptPending (of_nat t) sgi True
                 (g\<lparr>mInterruptOrigins := (mInterruptOrigins g)[t := (mInterruptOrigins g ! t)(sgi := cpu)]\<rparr>)
             }
             else Some g);
       raise_sgi sgi cpu targets ts g
     }"

definition enable_interrupts :: "u64 \<Rightarrow> u64 \<Rightarrow> u32 \<Rightarrow> u32 \<Rightarrow> gic \<Rightarrow> gic option" where
  "enable_interrupts base offset value cpu g =
     do {
       w \<leftarrow> rd32 (base + offset) g;
       g \<leftarrow> wr32 (base + offset) (w OR value) g;
       status_bits (ucast (offset - 0x100)) value True [0..<32] cpu g
     }"

definition disable_interrupts :: "u64 \<Rightarrow> u64 \<Rightarrow> u32 \<Rightarrow> u32 \<Rightarrow> gic \<Rightarrow> gic option" where
  "disable_interrupts base offset value cpu g =
     do {
       w \<leftarrow> rd32 (base + offset - 0x80) g;
       g \<leftarrow> wr32 (base + offset - 0x80) (w AND NOT value) g;
       w \<leftarrow> rd32 (base + offset) g;
       g \<leftarrow> wr32 (base + offset) (w OR value) g;
       status_bits (ucast (offset - 0x100)) value False [0..<32] cpu g
     }"

definition software_interrupt :: "u32 \<Rightarrow> u32 \<Rightarrow> gic \<Rightarrow> gic option" where
  "software_interrupt value cpu g =
     do {
       let sgi = value AND 0xF;
       let targets = sgi_targets value cpu;
       g \<leftarrow> setInterruptTarget sgi targets g;
       let g = g\<lparr>mPendingCpuIds := (mPendingCpuIds g)[unat sgi := cpu]\<rparr>;
       raise_sgi sgi cpu targets [0..<length (mCpus g)] g
     }"

definition writeDist :: "u64 \<Rightarrow> u32 \<Rightarrow> u64 \<Rightarrow> u32 \<Rightarrow> gic \<Rightarrow> gic option" where
  "writeDist offset value len cpu g =
     (if 0x100 \<le> offset \<and> offset \<le> 0x17C then enable_interrupts (mDistBase g) offset value cpu g
      else if 0x180 \<le> offset \<and> offset \<le> 0x1FC then disable_interrupts (mDistBase g) offset value cpu g
      else if offset = 0xF00 then software_interrupt value cpu g
      else copy_value (mDistBase g + offset) value len g)"

definition readDist :: "u64 \<Rightarrow> u64 \<Rightarrow> u32 \<Rightarrow> gic \<Rightarrow> u32 option" where
  "readDist offset len cpu g =
     (if 0x800 \<le> offset \<and> offset < 0x800 + 8 * 4
      then Some (push_bit (unat cpu) 1 OR push_bit (unat (cpu + 8)) 1 OR push_bit (unat (cpu + 16)) 1 OR push_bit (unat (cpu + 24)) 1)
      else rd32 (mDistBase g + offset) g)"

section \<open>Virtual distributor\<close>

fun same_entry_queued :: "VIntEntry \<Rightarrow> u32 list \<Rightarrow> gic \<Rightarrow> bool option" where
  "same_entry_queued v [] g = Some False"
| "same_entry_queued v (k # ks) g =
     do {
       e \<leftarrow> getVIntEntry k g;
       rest \<leftarrow> same_entry_queued v ks g;
       Some (VirtualID e = VirtualID v \<and> PhysicalID e = PhysicalID v \<or> rest)
     }"

definition write_list_register :: "u64 \<Rightarrow> u32 \<Rightarrow> u32 \<Rightarrow> gic \<Rightarrow> gic option" where
  "write_list_register offset value cpu g =
     do {
       let which = (offset - 0x100) div 4;
       let ellsr = vdist cpu g + 0x30 + ucast (ucast (which div 32) * 4 :: u32);
       let mark = push_bit (unat which mod 32) (1 :: u32);
       let v = VIntEntry_of value;
       vq \<leftarrow> at (mVCpuQueue g) cpu;
       g \<leftarrow> (if State v = 0 then or8 ellsr mark g
             else do {
               found \<leftarrow> same_entry_queued v vq g;
               if found then Some g
               else and8 ellsr (NOT mark) (g\<lparr>mVCpuQueue := (mVCpuQueue g)[unat cpu := vq @ [ucast which]]\<rparr>)
             });
       _ \<leftarrow> cassert (VirtualID v \<noteq> 0xb);
       vq \<leftarrow> at (mVCpuQueue g) cpu;
       np \<leftarrow> (if vq = [] then do { c \<leftarrow> rd8 (vdist cpu g) g; Some (bit c 3) } else Some False);
       if np then do { g \<leftarrow> or8 (vdist cpu g + 0x10) 8 g; genMaint cpu g } else Some g
     }"

definition write_vm_control :: "u32 \<Rightarrow> u32 \<Rightarrow> gic \<Rightarrow> gic option" where
  "write_vm_control value cpu g =
     do {
       ctrl \<leftarrow> readVCpu 0 4 cpu g;
       g \<leftarrow> writeVCpu 0 (ctrl AND NOT 0x1ff OR (value AND 0x1ff)) 4 cpu g;
       pmr \<leftarrow> readVCpu 4 4 cpu g;
       writeVCpu 4 (push_bit 3 (drop_bit 27 value) OR (pmr AND NOT (push_bit 3 0x1f))) 4 cpu g
     }"

definition writeVDist :: "u64 \<Rightarrow> u32 \<Rightarrow> u64 \<Rightarrow> u32 \<Rightarrow> gic \<Rightarrow> gic option" where
  "writeVDist offset value len cpu g =
     do {
       g \<leftarrow> (if 0x100 \<le> offset \<and> offset < 0x200 then write_list_register offset value cpu g else Some g);
       g \<leftarrow> wr32 (vdist cpu g + offset) value g;
       g \<leftarrow> (if offset = 8 then write_vm_control value cpu g else Some g);
       _ \<leftarrow> cassert (offset \<noteq> 0 \<or> value \<in> {0, 1});
       Some g
     }"

definition readVDist :: "u64 \<Rightarrow> u64 \<Rightarrow> u32 \<Rightarrow> gic \<Rightarrow> u32 option" where
  "readVDist offset len cpu g =
     (if offset = 4 then Some (0x3f OR push_bit 26 4 OR push_bit 29 4)
      else if offset = 8 then do {
        ctrl \<leftarrow> readVCpu 0 4 cpu g;
        pmr \<leftarrow> readVCpu 4 4 cpu g;
        bpr \<leftarrow> readVCpu 8 4 cpu g;
        abpr \<leftarrow> readVCpu 0x1c 4 cpu g;
        Some (ctrl AND 0x1ff OR push_bit 21 (bpr AND 7) OR push_bit 18 (abpr AND 7) OR push_bit 27 (drop_bit 3 pmr))
      }
      else rd32 (vdist cpu g + offset) g)"

section \<open>Bus accesses and input lines\<close>

definition in_area :: "u64 \<Rightarrow> u64 \<Rightarrow> u64 \<Rightarrow> bool" where
  "in_area base len offset \<longleftrightarrow> base \<le> offset \<and> offset < base + len"

definition banked :: "u64 \<Rightarrow> u64" where
  "banked off = (if 0xf000 \<le> off then off - 0xf000 else off)"

definition gic_read :: "u64 \<Rightarrow> u64 \<Rightarrow> u32 \<Rightarrow> gic \<Rightarrow> u32 option" where
  "gic_read addr len cpu g =
     (let offset = addr - gBase g in
      if in_area (mDistBase g) (mDistSize g) offset then readDist (banked (offset - mDistBase g)) len cpu g
      else if in_area (mCpuBase g) (mCpuSize g) offset then readCpu (banked (offset - mCpuBase g)) len cpu g
      else if in_area (mVCPUBase g) (mVCPUSize g) offset then readVCpu (banked (offset - mVCPUBase g)) len cpu g
      else if in_area (mVDistBase g) (mVDistSize g) offset then readVDist (banked (offset - mVDistBase g)) len cpu g
      else None)"

definition gic_write :: "u64 \<Rightarrow> u32 \<Rightarrow> u64 \<Rightarrow> u32 \<Rightarrow> gic \<Rightarrow> gic option" where
  "gic_write addr value len cpu g =
     do {
       let offset = addr - gBase g;
       g \<leftarrow> (if in_area (mDistBase g) (mDistSize g) offset then writeDist (banked (offset - mDistBase g)) value len cpu g
             else if in_area (mCpuBase g) (mCpuSize g) offset then writeCpu (banked (offset - mCpuBase g)) value len cpu g
             else if in_area (mVCPUBase g) (mVCPUSize g) offset then writeVCpu (banked (offset - mVCPUBase g)) value len cpu g
             else if in_area (mVDistBase g) (mVDistSize g) offset then writeVDist (banked (offset - mVDistBase g)) value len cpu g
             else None);
       comb_logic g
     }"

fun pend_spi :: "u32 \<Rightarrow> bool \<Rightarrow> nat list \<Rightarrow> gic \<Rightarrow> gic option" where
  "pend_spi irq v [] g = Some g"
| "pend_spi irq v (i # is) g = do { g \<leftarrow> setInterruptPending (of_nat i) irq v g; pend_spi irq v is g }"

fun pend_ppi :: "u32 \<Rightarrow> u32 \<Rightarrow> bool \<Rightarrow> u32 list \<Rightarrow> gic \<Rightarrow> gic option" where
  "pend_ppi irq targets v [] g = Some g"
| "pend_ppi irq targets v (c # cs) g =
     do {
       g \<leftarrow> (if bit targets (unat c) then do {
               g \<leftarrow> setInterruptTarget irq (ucast targets) g;
               setInterruptPending c irq v g
             }
             else Some g);
       pend_ppi irq targets v cs g
     }"

definition update_irq :: "u64 \<Rightarrow> u32 \<Rightarrow> gic \<Rightarrow> gic option" where
  "update_irq val irq_idx g =
     do {
       let irq = take_bit 16 irq_idx;
       let targets = drop_bit 16 irq_idx;
       let level = (ucast val \<noteq> (0 :: u32));
       g \<leftarrow> (if irq \<ge> 32 then pend_spi irq level [0..<length (mPendingInterrupts g)] g
             else if irq \<ge> 16 then pend_ppi irq targets level (mCpus g) g
             else None);
       comb_logic g
     }"

section \<open>Well-formed controllers\<close>

text \<open>
  All per-processor vectors have one entry for every processor, the pending registers cover all
  interrupts, the enable maps are ordered, and no interrupt is queued twice for a processor.
\<close>

definition gic_ok :: "gic \<Rightarrow> bool" where
  "gic_ok g \<longleftrightarrow>
     length (mCpuQueue g) = length (mCpus g) \<and> length (mVCpuQueue g) = length (mCpus g) \<and>
     length (mInterruptOrigins g) = length (mCpus g) \<and> length (mPendingInterrupts g) = length (mCpus g) \<and>
     length (mEnableStatus g) = length (mCpus g) \<and>
     (\<forall>p \<in> set (mPendingInterrupts g). length p = N_GIC_INTERRUPTS div 32) \<and>
     (\<forall>es \<in> set (mEnableStatus g). sorted_wrt (<) (map fst es)) \<and>
     (\<forall>q \<in> set (mCpuQueue g). distinct q)"

text \<open>Most operations on the registers change nothing but the memory.\<close>

definition mem_only :: "gic \<Rightarrow> gic \<Rightarrow> bool" where
  "mem_only g g' \<longleftrightarrow> (\<exists>m. g' = g\<lparr>localMem := m\<rparr>)"

named_theorems mem_rules

lemma mem_onlyI: "mem_only g (g\<lparr>localMem := m\<rparr>)"
  by (auto simp: mem_only_def)

lemma mem_only_refl [simp]: "mem_only g g"
  unfolding mem_only_def by (rule exI [of _ "localMem g"]) simp

lemma mem_only_trans: "mem_only a b \<Longrightarrow> mem_only b c \<Longrightarrow> mem_only a c"
  by (force simp: mem_only_def)

lemma wr8_mem [mem_rules]: "wr8 a v g = Some g' \<Longrightarrow> mem_only g g'"
  by (auto simp: wr8_def mem_onlyI split: if_splits)

lemma wr_bytes_mem [mem_rules]: "wr_bytes a v n g = Some g' \<Longrightarrow> mem_only g g'"
  by (induction n arbitrary: a v g) (auto simp: osimps dest: wr8_mem intro: mem_only_trans)

lemma wr32_mem [mem_rules]: "wr32 a v g = Some g' \<Longrightarrow> mem_only g g'"
  by (auto simp: wr32_def dest: wr_bytes_mem)

lemma copy_value_mem [mem_rules]: "copy_value a v n g = Some g' \<Longrightarrow> mem_only g g'"
  by (auto simp: copy_value_def osimps dest: wr_bytes_mem)

lemma or8_mem [mem_rules]: "or8 a v g = Some g' \<Longrightarrow> mem_only g g'"
  by (auto simp: or8_def osimps dest: wr8_mem)

lemma and8_mem [mem_rules]: "and8 a v g = Some g' \<Longrightarrow> mem_only g g'"
  by (auto simp: and8_def osimps dest: wr8_mem)

lemma set_registers_mem [mem_rules]:
  "setInterruptTarget irq t g = Some g' \<Longrightarrow> mem_only g g'"
  "setCurrentInterruptId cpu irq g = Some g' \<Longrightarrow> mem_only g g'"
  "setCurrentVirtualInterruptId cpu irq g = Some g' \<Longrightarrow> mem_only g g'"
  by (auto simp: setInterruptTarget_def setCurrentInterruptId_def setCurrentVirtualInterruptId_def dest: mem_rules)

lemma present_mem [mem_rules]:
  "present cpu q g = Some g' \<Longrightarrow> mem_only g g'" "present_virtual cpu vq g = Some g' \<Longrightarrow> mem_only g g'"
  by (auto simp: present_def present_virtual_def Let_def osimps split: list.splits dest: mem_rules)

lemma mem_onlyD:
  assumes "mem_only g g'"
  shows "gic_ok g' = gic_ok g" and "mCpus g' = mCpus g" and "mCpuQueue g' = mCpuQueue g" and "mVCpuQueue g' = mVCpuQueue g"
    and "mPendingInterrupts g' = mPendingInterrupts g" and "mInterruptOrigins g' = mInterruptOrigins g"
    and "mEnableStatus g' = mEnableStatus g" and "gLines g' = gLines g" and "mRoundRobin g' = mRoundRobin g"
    and "mCpuBase g' = mCpuBase g" and "mDistBase g' = mDistBase g" and "mMaintIrq g' = mMaintIrq g"
  using assms by (auto simp: mem_only_def gic_ok_def)

text \<open>An operation keeps the controller well-formed and the processors connected to it.\<close>

definition safe :: "(gic \<Rightarrow> gic option) \<Rightarrow> bool" where
  "safe f \<longleftrightarrow> (\<forall>g g'. gic_ok g \<and> f g = Some g' \<longrightarrow> gic_ok g' \<and> mCpus g' = mCpus g)"

lemma safeI: "(\<And>g g'. gic_ok g \<Longrightarrow> f g = Some g' \<Longrightarrow> gic_ok g' \<and> mCpus g' = mCpus g) \<Longrightarrow> safe f"
  by (auto simp: safe_def)

lemma safeD: "safe f \<Longrightarrow> f g = Some g' \<Longrightarrow> gic_ok g \<Longrightarrow> gic_ok g'"
  by (auto simp: safe_def)

named_theorems safe_rules

lemma safe_mem: "(\<And>g g'. f g = Some g' \<Longrightarrow> mem_only g g') \<Longrightarrow> safe f"
  by (rule safeI) (metis mem_onlyD(1,2))

lemma safe_Some [safe_rules]: "safe Some"
  by (simp add: safe_def)

lemma safe_None [safe_rules]: "safe (\<lambda>g. None)"
  by (simp add: safe_def)

lemma safe_seq [safe_rules]: "safe f \<Longrightarrow> safe h \<Longrightarrow> safe (\<lambda>g. Option.bind (f g) h)"
  unfolding safe_def bind_eq_Some_conv by metis

lemma safe_read: "(\<And>x. safe (h x)) \<Longrightarrow> safe (\<lambda>g. Option.bind (r g) (\<lambda>x. h x g))"
  unfolding safe_def bind_eq_Some_conv by metis

lemma safe_if [safe_rules]: "safe f \<Longrightarrow> safe h \<Longrightarrow> safe (\<lambda>g. if b g then f g else h g)"
  unfolding safe_def by metis

lemma safe_registers [safe_rules]:
  "safe (\<lambda>g. wr8 (a g) (v g) g)" "safe (\<lambda>g. wr32 (a g) (w g) g)" "safe (\<lambda>g. copy_value (a g) (w g) (n g) g)"
  "safe (\<lambda>g. or8 (a g) (w g) g)" "safe (\<lambda>g. and8 (a g) (w g) g)" "safe (\<lambda>g. setInterruptTarget (x g) (v g) g)"
  "safe (\<lambda>g. setCurrentInterruptId (x g) (w g) g)" "safe (\<lambda>g. setCurrentVirtualInterruptId (x g) (w g) g)"
  "safe (present cpu q)" "safe (present_virtual cpu q)"
  by (rule safe_mem, erule mem_rules)+

text \<open>Updating one entry of a per-processor vector.\<close>

lemma ball_update:
  assumes "\<forall>x \<in> set xs. P x" and "P y" shows "\<forall>x \<in> set (xs[i := y]). P x"
  using assms by (auto dest!: set_update_subset_insert [THEN subsetD])

lemma at_mem: "at xs i = Some x \<Longrightarrow> x \<in> set xs"
  by (auto simp: at_def split: if_splits)

lemma gic_ok_queue: "gic_ok g \<Longrightarrow> distinct q \<Longrightarrow> gic_ok (g\<lparr>mCpuQueue := (mCpuQueue g)[i := q]\<rparr>)"
  using ball_update [of "mCpuQueue g" distinct q i] by (simp add: gic_ok_def)

lemma gic_ok_distinct: "gic_ok g \<Longrightarrow> at (mCpuQueue g) cpu = Some q \<Longrightarrow> distinct q"
  using at_mem [of "mCpuQueue g" cpu q] by (simp add: gic_ok_def)

lemma gic_ok_frame [simp]:
  "gic_ok (g\<lparr>mVCpuQueue := (mVCpuQueue g)[i := vq]\<rparr>) = gic_ok g" "gic_ok (g\<lparr>gLines := l\<rparr>) = gic_ok g"
  "gic_ok (g\<lparr>mRoundRobin := n\<rparr>) = gic_ok g" "gic_ok (g\<lparr>mPendingCpuIds := ids\<rparr>) = gic_ok g"
  "gic_ok (g\<lparr>mInterruptOrigins := (mInterruptOrigins g)[i := h]\<rparr>) = gic_ok g"
  by (simp_all add: gic_ok_def)

lemma safe_pending [safe_rules]: "safe (\<lambda>g. setInterruptPending (c g) (x g) (v g) g)"
proof (rule safeI)
  fix g g' assume ok: "gic_ok g" and "setInterruptPending (c g) (x g) (v g) g = Some g'"
  then obtain p w where p: "at (mPendingInterrupts g) (c g) = Some p"
    and g': "g' = g\<lparr>mPendingInterrupts := (mPendingInterrupts g)[unat (c g) := p[unat (x g) div 32 := w]]\<rparr>"
    by (auto simp: setInterruptPending_def Let_def osimps)
  have "\<forall>q \<in> set ((mPendingInterrupts g)[unat (c g) := p[unat (x g) div 32 := w]]). length q = N_GIC_INTERRUPTS div 32"
    using ok at_mem [OF p] by (intro ball_update) (auto simp: gic_ok_def)
  then show "gic_ok g' \<and> mCpus g' = mCpus g" using ok by (simp add: gic_ok_def g')
qed

lemmas safe_reads [safe_rules] =
  safe_read [where ?'a = u8] safe_read [where ?'a = u32] safe_read [where ?'a = bool] safe_read [where ?'a = unit]
  safe_read [where ?'a = "u32 list"] safe_read [where ?'a = "(u32 \<times> bool) list"] safe_read [where ?'a = VIntEntry]

lemma safe_enqueue [safe_rules]: "safe (\<lambda>g. enqueue (c g) (a g) g)"
proof (rule safeI)
  fix g g' assume ok: "gic_ok g" and "enqueue (c g) (a g) g = Some g'"
  then obtain q where q: "at (mCpuQueue g) (c g) = Some q"
    and g': "g' = (if a g \<in> set q then g else g\<lparr>mCpuQueue := (mCpuQueue g)[unat (c g) := q @ [a g]]\<rparr>)"
    by (auto simp: enqueue_def osimps)
  have "distinct q" using ok q by (rule gic_ok_distinct)
  then show "gic_ok g' \<and> mCpus g' = mCpus g"
    using gic_ok_queue [OF ok, of "q @ [a g]"] ok by (simp add: g')
qed

lemma safe_consider [safe_rules]: "safe (consider_interrupt cpu e)"
proof (rule safeI)
  fix g g' assume "gic_ok g" "consider_interrupt cpu e g = Some g'"
  then show "gic_ok g' \<and> mCpus g' = mCpus g"
    using safe_enqueue [of "\<lambda>_. cpu"] by (auto simp: consider_interrupt_def osimps safe_def split: if_splits)
qed

lemma safe_consider_all [safe_rules]: "safe (consider_all cpu es)"
proof (induction es)
  case (Cons e es)
  then show ?case using safe_seq [OF safe_consider] by simp
qed (simp add: safe_rules)

text \<open>Operations that change one field of no concern to well-formedness, followed by a safe one.\<close>

lemma safe_frame:
  assumes "safe h" and "\<And>g. gic_ok g \<Longrightarrow> gic_ok (u g) \<and> mCpus (u g) = mCpus g"
  shows "safe (\<lambda>g. h (u g))"
proof (rule safeI)
  fix g g' assume "gic_ok g" "h (u g) = Some g'"
  with assms(2) [of g] have "gic_ok (u g)" "mCpus (u g) = mCpus g" "h (u g) = Some g'" by simp_all
  with assms(1) show "gic_ok g' \<and> mCpus g' = mCpus g" unfolding safe_def by metis
qed

lemma safe_drive [safe_rules]: "safe h \<Longrightarrow> safe (\<lambda>g. h (drive (c g) (l g) (n g) g))"
  by (erule safe_frame) (simp add: drive_def)

lemma safe_case_list [safe_rules]:
  "safe f \<Longrightarrow> (\<And>x xs. safe (h x xs)) \<Longrightarrow> safe (\<lambda>g. case q of [] \<Rightarrow> f g | x # xs \<Rightarrow> h x xs g)"
  by (cases q) simp_all

lemma safe_drive_end [safe_rules]: "safe (\<lambda>g. Some (drive (c g) (l g) (n g) g))"
  using safe_drive [OF safe_Some] .

lemma safe_update_cpu [safe_rules]: "safe (update_cpu cpu)"
  unfolding update_cpu_def Let_def by (intro safe_rules)

lemma safe_update_cpus [safe_rules]: "safe (update_cpus cs)"
  by (induction cs) (simp_all add: safe_rules)

lemma safe_comb_logic [safe_rules]: "safe comb_logic"
  using safe_update_cpus unfolding safe_def comb_logic_def by metis

lemma safe_genMaint [safe_rules]: "safe (\<lambda>g. genMaint cpu g)"
  unfolding genMaint_def by (intro safe_rules)

text \<open>Dropping the front of a queue.\<close>

lemma safe_pop: 
  assumes "safe h" shows "safe (\<lambda>g. Option.bind (at (mCpuQueue g) cpu) (\<lambda>q. if b q then h (g\<lparr>mCpuQueue := (mCpuQueue g)[unat cpu := tl q]\<rparr>) else None))"
proof (rule safeI)
  fix g g' assume ok: "gic_ok g"
    and "Option.bind (at (mCpuQueue g) cpu) (\<lambda>q. if b q then h (g\<lparr>mCpuQueue := (mCpuQueue g)[unat cpu := tl q]\<rparr>) else None) = Some g'"
  then obtain q where q: "at (mCpuQueue g) cpu = Some q" and h: "h (g\<lparr>mCpuQueue := (mCpuQueue g)[unat cpu := tl q]\<rparr>) = Some g'"
    by (auto simp: osimps)
  have "distinct (tl q)" using gic_ok_distinct [OF ok q] by (rule distinct_tl)
  then have "gic_ok (g\<lparr>mCpuQueue := (mCpuQueue g)[unat cpu := tl q]\<rparr>)" using ok by (simp add: gic_ok_queue)
  then show "gic_ok g' \<and> mCpus g' = mCpus g" using h assms by (force simp: safe_def)
qed

lemma if_nested: "(if a then if b then x else y else y) = (if a \<and> b then x else y)"
  by simp

lemma safe_end_physical [safe_rules]: "safe (end_physical cpu irq v)"
proof -
  have "end_physical cpu irq v = (\<lambda>g. Option.bind (setInterruptPending cpu irq False g)
          (\<lambda>g. Option.bind (at (mCpuQueue g) cpu)
            (\<lambda>q. if q \<noteq> [] \<and> PhysicalID v = hd q AND 0x3FF then Some (g\<lparr>mCpuQueue := (mCpuQueue g)[unat cpu := tl q]\<rparr>) else None)))"
    by (intro ext) (simp only: end_physical_def cassert_bind if_nested)
  then show ?thesis using safe_seq [OF safe_pending safe_pop [OF safe_Some]] by simp
qed

lemma safe_next_interrupt [safe_rules]: "safe (next_interrupt cpu q)"
proof -
  have "safe (\<lambda>g. Some (g\<lparr>mRoundRobin := (mRoundRobin g + 1) mod length (mCpus g)\<rparr>))"
    by (rule safeI) auto
  then show ?thesis unfolding next_interrupt_def by (intro safe_rules)
qed

lemma safe_end_interrupt [safe_rules]: "safe (end_interrupt cpu value)"
proof (rule safeI)
  fix g g' assume ok: "gic_ok g" and run: "end_interrupt cpu value g = Some g'"
  then obtain q g1 where q: "at (mCpuQueue g) cpu = Some q"
    and g1: "setInterruptPending cpu (value AND 0x3FF) False g = Some g1"
    and g': "next_interrupt cpu (tl q) (g1\<lparr>mCpuQueue := (mCpuQueue g1)[unat cpu := tl q]\<rparr>) = Some g'"
    by (auto simp: end_interrupt_def Let_def osimps)
  have ok1: "gic_ok g1" "mCpus g1 = mCpus g"
    using safe_pending [of "\<lambda>_. cpu" "\<lambda>_. value AND 0x3FF" "\<lambda>_. False"] ok g1 unfolding safe_def by blast+
  have "gic_ok (g1\<lparr>mCpuQueue := (mCpuQueue g1)[unat cpu := tl q]\<rparr>)"
    using gic_ok_queue [OF ok1(1)] gic_ok_distinct [OF ok q] distinct_tl by blast
  then show "gic_ok g' \<and> mCpus g' = mCpus g"
    using safe_next_interrupt [of cpu "tl q"] g' ok1(2) by (force simp: safe_def)
qed

lemma safe_writeCpu [safe_rules]: "safe (writeCpu offset value n cpu)"
  unfolding writeCpu_def Let_def by (intro safe_rules)

lemma safe_request_maintenance [safe_rules]: "safe (request_maintenance cpu k)"
  unfolding request_maintenance_def by (intro safe_rules)

lemma safe_notify_no_pending [safe_rules]: "safe (notify_no_pending cpu)"
  unfolding notify_no_pending_def by (intro safe_rules)

lemma safe_vqueue: "safe h \<Longrightarrow> safe (\<lambda>g. h (g\<lparr>mVCpuQueue := (mVCpuQueue g)[i := vq]\<rparr>))"
  by (erule safe_frame) simp

lemma safe_end_virtual [safe_rules]: "safe (end_virtual cpu value)"
  unfolding end_virtual_def Let_def by (intro safe_rules safe_vqueue)

lemma safe_writeVCpu [safe_rules]: "safe (writeVCpu offset value n cpu)"
  unfolding writeVCpu_def Let_def by (intro safe_rules)

text \<open>The ordered map of enabled interrupts.\<close>

lemma status_put_keys: "fst ` set (status_put k v es) = insert k (fst ` set es)"
  by (induction k v es rule: status_put.induct) auto

lemma status_put_sorted: "sorted_wrt (<) (map fst es) \<Longrightarrow> sorted_wrt (<) (map fst (status_put k v es))"
proof (induction k v es rule: status_put.induct)
  case (2 k v k' v' es)
  have "fst ` set (status_put k v es) = insert k (fst ` set es)" by (rule status_put_keys)
  with 2 show ?case by auto
qed simp

lemma map_of_status_put:
  "sorted_wrt (<) (map fst es) \<Longrightarrow> map_of (status_put k v es) = (map_of es)(k \<mapsto> v)"
  by (induction k v es rule: status_put.induct) (auto simp: fun_eq_iff)

lemma gic_ok_status: 
  assumes "gic_ok g" "sorted_wrt (<) (map fst es)" shows "gic_ok (g\<lparr>mEnableStatus := (mEnableStatus g)[i := es]\<rparr>)"
  using assms ball_update [of "mEnableStatus g" "\<lambda>es. sorted_wrt (<) (map fst es)" es i] by (simp add: gic_ok_def)

lemma gic_ok_sorted: "gic_ok g \<Longrightarrow> at (mEnableStatus g) cpu = Some es \<Longrightarrow> sorted_wrt (<) (map fst es)"
  using at_mem [of "mEnableStatus g" cpu es] by (simp add: gic_ok_def)

lemma safe_set_status [safe_rules]: "safe (set_status irq v cpu)"
proof (rule safeI)
  fix g g' assume ok: "gic_ok g" and "set_status irq v cpu g = Some g'"
  then obtain es where es: "at (mEnableStatus g) cpu = Some es"
    and g': "g' = g\<lparr>mEnableStatus := (mEnableStatus g)[unat cpu := status_put irq v es]\<rparr>"
    by (auto simp: set_status_def osimps)
  show "gic_ok g' \<and> mCpus g' = mCpus g"
    unfolding g' using gic_ok_status [OF ok status_put_sorted] gic_ok_sorted [OF ok es] by simp
qed

lemma safe_set_status_all [safe_rules]: "safe (set_status_all irq v cs)"
  by (induction cs) (simp_all add: safe_rules)

lemma safe_status_bit: "safe (status_bit irq v cpu)"
  unfolding safe_def status_bit_def
  using safe_set_status [of irq v cpu] safe_set_status_all [of irq v] unfolding safe_def by metis

lemma safe_status_bits [safe_rules]: "safe (status_bits idx value v is cpu)"
  by (induction "is") (simp_all add: safe_rules safe_status_bit)

lemma safe_origins: "safe h \<Longrightarrow> safe (\<lambda>g. h (g\<lparr>mInterruptOrigins := (mInterruptOrigins g)[i := f g]\<rparr>))"
  by (erule safe_frame) simp

lemma safe_raise_sgi: "safe (raise_sgi sgi cpu targets ts)"
proof (induction ts)
  case (Cons t ts)
  have "safe (\<lambda>g. setInterruptPending (of_nat t) sgi True (g\<lparr>mInterruptOrigins := (mInterruptOrigins g)[t := (mInterruptOrigins g ! t)(sgi := cpu)]\<rparr>))"
    by (rule safe_origins) (rule safe_pending)
  with Cons show ?case by (simp only: raise_sgi.simps) (intro safe_rules)
qed (simp add: safe_rules)

lemma safe_here: "(\<And>g0. safe (h g0)) \<Longrightarrow> safe (\<lambda>g. h g g)"
  unfolding safe_def by metis

lemma safe_pending_ids: "safe h \<Longrightarrow> safe (\<lambda>g. h (g\<lparr>mPendingCpuIds := (mPendingCpuIds g)[i := f g]\<rparr>))"
  by (erule safe_frame) simp

lemma safe_sgi: 
  "safe (\<lambda>g. raise_sgi sgi c t [0..<length (mCpus g)] (g\<lparr>mPendingCpuIds := (mPendingCpuIds g)[i := cpu]\<rparr>))"
  by (rule safe_here [of "\<lambda>g0 g. raise_sgi sgi c t [0..<length (mCpus g0)] (g\<lparr>mPendingCpuIds := (mPendingCpuIds g)[i := cpu]\<rparr>)"])
    (rule safe_pending_ids, rule safe_raise_sgi)

lemma safe_enable_interrupts: "safe (\<lambda>g. enable_interrupts (b g) offset value cpu g)"
  unfolding enable_interrupts_def by (intro safe_rules)

lemma safe_disable_interrupts: "safe (\<lambda>g. disable_interrupts (b g) offset value cpu g)"
  by (rule safe_here) (unfold disable_interrupts_def, intro safe_rules)

lemma safe_software_interrupt: "safe (software_interrupt value cpu)"
  unfolding software_interrupt_def Let_def by (intro safe_rules) (simp add: safe_sgi)

lemma safe_writeDist [safe_rules]: "safe (writeDist offset value n cpu)"
  unfolding writeDist_def
  by (intro safe_if safe_enable_interrupts safe_disable_interrupts safe_software_interrupt safe_registers)

lemma safe_write_list_register: "safe (write_list_register offset value cpu)"
proof -
  have "safe (\<lambda>g. and8 (a g) y (g\<lparr>mVCpuQueue := (mVCpuQueue g)[i := vq]\<rparr>))" for a y i vq
    by (rule safe_here [of "\<lambda>g0 g. and8 (a g0) y (g\<lparr>mVCpuQueue := (mVCpuQueue g)[i := vq]\<rparr>)"])
      (rule safe_vqueue, rule safe_registers)
  then show ?thesis
    unfolding write_list_register_def Let_def by (intro safe_rules)
qed

lemma safe_write_vm_control: "safe (write_vm_control value cpu)"
  unfolding write_vm_control_def by (intro safe_rules)

lemma safe_writeVDist [safe_rules]: "safe (writeVDist offset value n cpu)"
  unfolding writeVDist_def by (intro safe_rules safe_write_list_register safe_write_vm_control)

lemma safe_gic_write: "safe (gic_write addr value n cpu)"
proof -
  have "safe (\<lambda>g. if in_area (mDistBase g) (mDistSize g) (addr - gBase g) then writeDist (banked (addr - gBase g - mDistBase g)) value n cpu g
             else if in_area (mCpuBase g) (mCpuSize g) (addr - gBase g) then writeCpu (banked (addr - gBase g - mCpuBase g)) value n cpu g
             else if in_area (mVCPUBase g) (mVCPUSize g) (addr - gBase g) then writeVCpu (banked (addr - gBase g - mVCPUBase g)) value n cpu g
             else if in_area (mVDistBase g) (mVDistSize g) (addr - gBase g) then writeVDist (banked (addr - gBase g - mVDistBase g)) value n cpu g
             else None)"
    by (intro safe_if safe_None; rule safe_here; intro safe_rules)
  then show ?thesis unfolding gic_write_def Let_def by (intro safe_seq safe_comb_logic)
qed

lemma safe_pend_spi: "safe (pend_spi irq v is)"
  by (induction "is") (simp_all add: safe_rules)

lemma safe_pend_ppi: "safe (pend_ppi irq targets v cs)"
proof (induction cs)
  case (Cons c cs)
  then show ?case by (simp only: pend_ppi.simps) (intro safe_rules)
qed (simp add: safe_rules)

lemma safe_update_irq: "safe (update_irq val irq_idx)"
proof -
  have "safe (\<lambda>g. pend_spi irq v [0..<length (mPendingInterrupts g)] g)" "safe (\<lambda>g. pend_ppi irq t v (mCpus g) g)" for irq v t
    using safe_here [of "\<lambda>g0. pend_spi irq v [0..<length (mPendingInterrupts g0)]"] safe_pend_spi
      safe_here [of "\<lambda>g0. pend_ppi irq t v (mCpus g0)"] safe_pend_ppi by blast+
  then show ?thesis unfolding update_irq_def Let_def by (intro safe_seq safe_comb_logic safe_if safe_None)
qed

end
