(* ===== verification/GicProtocol.thy ===== *)
theory GicProtocol
  imports Gic
begin

text \<open>
  What the interrupt controller guarantees: the states it reaches are well-formed, which interrupts
  an enable, a disable and a software-interrupt register write concern, how the combinational logic
  fills the queue of a processor, and what the end of an interrupt does.
\<close>

section \<open>Reachable controllers\<close>

lemmas gic_setters =
  setDistBase_def setCPUBase_def setDistSize_def setCPUSize_def setVDistBase_def setVDistSize_def
  setVCPUBase_def setVCPUSize_def setMaintenanceInterrupt_def

inductive gic_step :: "gic \<Rightarrow> gic \<Rightarrow> bool" where
  configure: "s \<in> {setDistBase x, setCPUBase x, setDistSize x, setCPUSize x, setVDistBase x, setVDistSize x, setVCPUBase x, setVCPUSize x}
     \<Longrightarrow> gic_step g (s g)"
| maintenance: "gic_step g (setMaintenanceInterrupt irq g)"
| connect: "connectCpu cpu g = Some g' \<Longrightarrow> gic_step g g'"
| bus_write: "gic_write addr value n cpu g = Some g' \<Longrightarrow> gic_step g g'"
| input_line: "update_irq val irq g = Some g' \<Longrightarrow> gic_step g g'"

inductive gic_reachable :: "gic \<Rightarrow> bool" where
  fresh: "gic_reachable (gic_new mem)"
| later: "gic_reachable g \<Longrightarrow> gic_step g g' \<Longrightarrow> gic_reachable g'"

inductive_cases gic_stepE: "gic_step g g'"

lemma gic_ok_new: "gic_ok (gic_new mem)"
  by (simp add: gic_ok_def gic_new_def)

lemma gic_ok_connect:
  assumes ok: "gic_ok g" and run: "connectCpu cpu g = Some g'"
  shows "gic_ok g'"
proof -
  define g0 where "g0 = g\<lparr>mCpus := mCpus g @ [cpu], mCpuQueue := mCpuQueue g @ [[]], mVCpuQueue := mVCpuQueue g @ [[]]\<rparr>"
  obtain a v g1 where g1: "wr32 a v g0 = Some g1" and more: "\<exists>g2 b c. wr32 b 0xffffffff (g1\<lparr>mInterruptOrigins := mInterruptOrigins g1 @ [\<lambda>_. 0],
                mPendingInterrupts := mPendingInterrupts g1 @ [replicate (N_GIC_INTERRUPTS div 32) 0],
                mEnableStatus := mEnableStatus g1 @ [[]]\<rparr>) = Some g2 \<and> wr32 c 0xffffffff g2 = Some g'"
    using run unfolding connectCpu_def Let_def g0_def osimps by metis
  have "\<exists>m. g1 = g0\<lparr>localMem := m\<rparr>" using wr32_mem [OF g1] by (simp add: mem_only_def)
  then have "gic_ok (g1\<lparr>mInterruptOrigins := mInterruptOrigins g1 @ [\<lambda>_. 0],
                mPendingInterrupts := mPendingInterrupts g1 @ [replicate (N_GIC_INTERRUPTS div 32) 0],
                mEnableStatus := mEnableStatus g1 @ [[]]\<rparr>)"
    using ok by (auto simp: g0_def gic_ok_def)
  with more show ?thesis using wr32_mem mem_onlyD(1) by metis
qed

lemma gic_ok_step: "gic_step g g' \<Longrightarrow> gic_ok g \<Longrightarrow> gic_ok g'"
proof (induction rule: gic_step.induct)
  case (configure s x g)
  then show ?case by (elim insertE emptyE) (simp_all add: gic_ok_def gic_setters)
next
  case (maintenance g irq)
  then show ?case by (simp add: gic_ok_def gic_setters)
qed (blast intro: gic_ok_connect safeD [OF safe_gic_write] safeD [OF safe_update_irq])+

lemma gic_reachable_ok: "gic_reachable g \<Longrightarrow> gic_ok g"
  by (induction rule: gic_reachable.induct) (blast intro: gic_ok_new gic_ok_step)+

section \<open>The enable map\<close>

definition enabled_at :: "gic \<Rightarrow> u32 \<Rightarrow> u32 \<Rightarrow> bool option" where
  "enabled_at g c irq = map_of (mEnableStatus g ! unat c) irq"

text \<open>The processors are numbered by their positions, as the platform connects them.\<close>

definition numbered :: "gic \<Rightarrow> bool" where
  "numbered g \<longleftrightarrow> map unat (mCpus g) = [0..<length (mCpus g)]"

lemma numbered_iff: "numbered g \<Longrightarrow> c \<in> set (mCpus g) \<longleftrightarrow> unat c < length (mCpus g)"
proof -
  assume "numbered g"
  then have "set (map unat (mCpus g)) = set [0..<length (mCpus g)]" unfolding numbered_def by (rule arg_cong)
  then have "unat ` set (mCpus g) = {0..<length (mCpus g)}" by simp
  then have "unat c < length (mCpus g) \<longleftrightarrow> unat c \<in> unat ` set (mCpus g)" by simp
  also have "\<dots> \<longleftrightarrow> c \<in> set (mCpus g)" by (intro inj_image_mem_iff injI) (simp add: word_unat_eq_iff)
  finally show ?thesis by simp
qed

lemma enabled_at_put:
  assumes "gic_ok g" "at (mEnableStatus g) k = Some es"
  shows "enabled_at (g\<lparr>mEnableStatus := (mEnableStatus g)[unat k := status_put j v es]\<rparr>) c irq =
         (if c = k \<and> irq = j then Some v else enabled_at g c irq)"
  using map_of_status_put [OF gic_ok_sorted [OF assms]] assms(2)
  by (auto simp: enabled_at_def at_def nth_list_update word_unat_eq_iff split: if_splits)

lemma set_status_enabled:
  assumes "gic_ok g" "set_status j v k g = Some g'"
  shows "enabled_at g' c irq = (if c = k \<and> irq = j then Some v else enabled_at g c irq)"
  using assms enabled_at_put [OF assms(1)] by (auto simp: set_status_def osimps)

lemma set_status_all_enabled:
  assumes "gic_ok g" "set_status_all j v cs g = Some g'"
  shows "enabled_at g' c irq = (if c \<in> set cs \<and> irq = j then Some v else enabled_at g c irq)"
  using assms
proof (induction cs arbitrary: g)
  case (Cons k cs)
  then obtain h where h: "set_status j v k g = Some h" and rest: "set_status_all j v cs h = Some g'"
    by (auto simp: osimps)
  have "gic_ok h" using safeD [OF safe_set_status h Cons.prems(1)] .
  from Cons.IH [OF this rest] set_status_enabled [OF Cons.prems(1) h] show ?case by auto
qed simp

definition concerns :: "gic \<Rightarrow> u32 \<Rightarrow> u32 \<Rightarrow> u32 \<Rightarrow> bool" where
  "concerns g writer irq c \<longleftrightarrow> (if irq > 31 then c \<in> set (mCpus g) else c = writer)"

lemma status_bit_enabled:
  assumes "gic_ok g" "status_bit j v k g = Some g'"
  shows "enabled_at g' c irq = (if concerns g k j c \<and> irq = j then Some v else enabled_at g c irq)"
  using assms set_status_enabled [OF assms(1)] set_status_all_enabled [OF assms(1)]
  by (simp add: status_bit_def concerns_def split: if_splits)

lemma status_bits_enabled:
  assumes "gic_ok g" "status_bits idx value v is k g = Some g'"
  shows "enabled_at g' c irq =
         (if \<exists>i \<in> set is. bit value i \<and> irq = idx * 8 + of_nat i \<and> concerns g k irq c then Some v else enabled_at g c irq)"
  using assms
proof (induction "is" arbitrary: g)
  case (Cons i "is")
  then obtain h where h: "(if bit value i then status_bit (idx * 8 + of_nat i) v k g else Some g) = Some h"
    and rest: "status_bits idx value v is k h = Some g'" by (auto simp: osimps)
  have "safe (\<lambda>g. if bit value i then status_bit (idx * 8 + of_nat i) v k g else Some g)"
    by (intro safe_if safe_status_bit safe_Some)
  then have ok: "gic_ok h" and cpus: "mCpus h = mCpus g" using h Cons.prems(1) unfolding safe_def by blast+
  have "concerns h k irq c = concerns g k irq c" by (simp add: concerns_def cpus)
  with Cons.IH [OF ok rest] h status_bit_enabled [OF Cons.prems(1)] show ?case
    by (auto split: if_splits)
qed simp

text \<open>
  The interrupt numbers of one enable register: the register at \<open>offset\<close> holds the interrupts from
  \<open>8 * (offset - 0x100)\<close> on.
\<close>

definition names :: "u64 \<Rightarrow> u32 \<Rightarrow> u32 \<Rightarrow> bool" where
  "names offset value irq \<longleftrightarrow> (\<exists>i < 32. bit value i \<and> unat irq = 8 * (unat offset - 0x100) + i)"

lemma named_index:
  fixes offset :: u64
  assumes "0x100 \<le> offset" "offset \<le> 0x1FC" "i < 32"
  shows "unat ((ucast (offset - 0x100) :: u32) * 8 + of_nat i) = 8 * (unat offset - 0x100) + i"
proof -
  have off: "unat (offset - 0x100) = unat offset - 0x100" and small: "unat offset \<le> 0x1FC"
    using assms(1,2) by (simp_all add: unat_sub_le word_le_nat_alt)
  have "unat (ucast (offset - 0x100) :: u32) = unat offset - 0x100"
    using small by (simp add: unsigned_ucast_eq take_bit_eq_mod off)
  then show ?thesis using small assms(3) by (simp add: unat_word_ariths unat_of_nat)
qed

lemma names_iff:
  fixes offset :: u64
  assumes "0x100 \<le> offset" "offset \<le> 0x1FC"
  shows "(\<exists>i \<in> set [0..<32]. bit value i \<and> irq = ucast (offset - 0x100) * 8 + of_nat i) \<longleftrightarrow> names offset value irq"
  using named_index [OF assms] by (auto simp: names_def word_unat_eq_iff)

lemma status_bits_named:
  assumes "gic_ok g" "0x100 \<le> offset" "offset \<le> 0x1FC"
    and "status_bits (ucast (offset - 0x100)) value v [0..<32] k g = Some g'"
  shows "enabled_at g' c irq = (if names offset value irq \<and> concerns g k irq c then Some v else enabled_at g c irq)"
  unfolding status_bits_enabled [OF assms(1,4)] names_iff [OF assms(2,3), symmetric] by auto

lemma enabled_at_mem: "mem_only g g' \<Longrightarrow> enabled_at g' = enabled_at g"
  by (auto simp: mem_only_def enabled_at_def fun_eq_iff)

lemma concerns_mem: "mem_only g g' \<Longrightarrow> concerns g' = concerns g"
  by (auto simp: mem_only_def concerns_def fun_eq_iff)

text \<open>
  a write to an enable register enables exactly the interrupts its set bits name: the shared ones
  for every connected processor, the private ones for the writing processor only; every other
  entry of the enable maps stays.
\<close>
theorem enable_exactly_named:
  assumes "gic_ok g" and "0x100 \<le> offset" and "offset \<le> 0x17C"
    and "writeDist offset value n cpu g = Some g'"
  shows "enabled_at g' c irq =
         (if names offset value irq \<and> (if irq > 31 then c \<in> set (mCpus g) else c = cpu) then Some True else enabled_at g c irq)"
proof -
  from assms obtain w h where h: "wr32 (mDistBase g + offset) w g = Some h"
    and run: "status_bits (ucast (offset - 0x100)) value True [0..<32] cpu h = Some g'"
    by (auto simp: writeDist_def enable_interrupts_def osimps)
  note mem = wr32_mem [OF h]
  have "offset \<le> 0x1FC" using assms(3) by (simp add: word_le_nat_alt)
  moreover have "gic_ok h" using mem_onlyD(1) [OF mem] assms(1) by simp
  ultimately have "enabled_at g' c irq = (if names offset value irq \<and> concerns h cpu irq c then Some True else enabled_at h c irq)"
    using assms(2) run by (intro status_bits_named) simp_all
  then show ?thesis unfolding enabled_at_mem [OF mem] concerns_mem [OF mem] concerns_def .
qed

text \<open>
  a write to a disable register changes the status of no interrupt the controller has: it marks
  interrupts from 1024 on, because the index is computed from the base of the enable registers.
\<close>
theorem disable_disables_nothing:
  assumes "gic_ok g" and "0x180 \<le> offset" and "offset \<le> 0x1FC"
    and "writeDist offset value n cpu g = Some g'" and "irq < 1024"
  shows "enabled_at g' c irq = enabled_at g c irq"
proof -
  have off: "\<not> offset \<le> 0x17C" "0x100 \<le> offset" using assms(2) by (simp_all add: word_le_nat_alt)
  from assms(2-4) off obtain a b w w' h1 h2 where h: "wr32 a w g = Some h1" "wr32 b w' h1 = Some h2"
    and run: "status_bits (ucast (offset - 0x100)) value False [0..<32] cpu h2 = Some g'"
    by (auto simp: writeDist_def disable_interrupts_def osimps)
  note mem = mem_only_trans [OF wr32_mem [OF h(1)] wr32_mem [OF h(2)]]
  have "\<not> names offset value irq" using assms(2,5) by (auto simp: names_def word_le_nat_alt word_less_nat_alt)
  moreover have "gic_ok h2" using mem_onlyD(1) [OF mem] assms(1) by simp
  ultimately show ?thesis
    using status_bits_named [OF _ off(2) assms(3) run] enabled_at_mem [OF mem] by simp
qed

text \<open>An entry outside the pending registers stops the combinational logic.\<close>

lemma consider_all_outside:
  assumes "gic_ok g" and "(k, v) \<in> set es" and "1024 \<le> k"
  shows "consider_all cpu es g = None"
  using assms(1,2)
proof (induction es arbitrary: g)
  case (Cons e es)
  show ?case
  proof (cases "consider_interrupt cpu e g")
    case (Some h)
    have "e \<noteq> (k, v)"
    proof
      assume "e = (k, v)"
      with Some obtain p where p: "at (mPendingInterrupts g) cpu = Some p" "unat k div 32 < length p"
        by (auto simp: consider_interrupt_def takes_interrupt_def osimps)
      then have "length p = 16" using at_mem [OF p(1)] Cons.prems(1) by (simp add: gic_ok_def N_GIC_INTERRUPTS_def)
      with p(2) assms(3) show False by (simp add: word_le_nat_alt)
    qed
    moreover have "gic_ok h" using safeD [OF safe_consider Some Cons.prems(1)] .
    ultimately show ?thesis using Cons.IH [of h] Cons.prems(2) by (auto simp: Some)
  qed simp
qed simp

lemma enabled_at_mem_set: "at (mEnableStatus g) c = Some es \<Longrightarrow> enabled_at g c irq = Some v \<Longrightarrow> (irq, v) \<in> set es"
  by (auto simp: enabled_at_def at_def split: if_splits dest: map_of_SomeD)

lemma update_cpu_outside:
  assumes "gic_ok g" and "isEnabled g = Some True" and "cpuTakesInterrupts c g = Some True"
    and "enabled_at g c k = Some v" and "1024 \<le> k"
  shows "update_cpu c g = None"
proof (cases "at (mEnableStatus g) c")
  case (Some es)
  have "consider_all c es g = None"
    using consider_all_outside [OF assms(1) enabled_at_mem_set [OF Some assms(4)] assms(5)] .
  then show ?thesis by (simp add: update_cpu_def assms(2,3) Some bind_eq_None_conv)
qed (simp add: update_cpu_def assms(2,3))

lemma visit_order_set: "set (visit_order g) \<subseteq> set (mCpus g)"
  by (auto simp: visit_order_def intro!: nth_mem mod_less_divisor)

lemma visit_order_Nil: "visit_order g = [] \<longleftrightarrow> mCpus g = []"
  by (simp add: visit_order_def)

text \<open>
  C19: on a running controller whose processors take interrupts, a write to a disable register with
  any bit set ends in an access outside the pending registers as soon as the interrupt lines are recomputed.
\<close>
theorem disable_leaves_registers:
  assumes "gic_ok g" and "0x180 \<le> offset" and "offset \<le> 0x1FC" and "value \<noteq> 0"
    and "writeDist offset value n cpu g = Some g'"
    and "mCpus g \<noteq> []" and "isEnabled g' = Some True" and "\<forall>c \<in> set (mCpus g). cpuTakesInterrupts c g' = Some True"
  shows "comb_logic g' = None"
proof -
  have off: "\<not> offset \<le> 0x17C" "0x100 \<le> offset" using assms(2) by (simp_all add: word_le_nat_alt)
  from assms(2,3,5) off obtain a b w w' h1 h2 where h: "wr32 a w g = Some h1" "wr32 b w' h1 = Some h2"
    and run: "status_bits (ucast (offset - 0x100)) value False [0..<32] cpu h2 = Some g'"
    by (auto simp: writeDist_def disable_interrupts_def osimps)
  note mem = mem_only_trans [OF wr32_mem [OF h(1)] wr32_mem [OF h(2)]]
  have ok: "gic_ok h2" "mCpus h2 = mCpus g" using mem_onlyD [OF mem] assms(1) by simp_all
  have ok': "gic_ok g'" "mCpus g' = mCpus g"
    using safe_status_bits ok run unfolding safe_def by metis+
  obtain i where i: "bit value i" "i < 32"
    using assms(4) bit_imp_le_length [of "value"] by (auto simp: bit_eq_iff)
  define k :: u32 where "k = ucast (offset - 0x100) * 8 + of_nat i"
  have k_nat: "unat k = 8 * (unat offset - 0x100) + i" using named_index [OF off(2) assms(3) i(2)] by (simp add: k_def)
  from k_nat have big: "1024 \<le> k" "31 < k" using assms(2) by (simp_all add: word_le_nat_alt word_less_nat_alt)
  obtain c cs where c: "visit_order g' = c # cs" using assms(6) ok'(2) visit_order_Nil by (metis neq_Nil_conv)
  then have cin: "c \<in> set (mCpus g)" using visit_order_set [of g'] ok'(2) by auto
  have "names offset value k" using i k_nat by (auto simp: names_def)
  then have "enabled_at g' c k = Some False"
    using status_bits_named [OF ok(1) off(2) assms(3) run, of c k] cin big(2) ok(2) by (simp add: concerns_def)
  then have "update_cpu c g' = None"
    using update_cpu_outside [OF ok'(1) assms(7)] assms(8) cin big(1) by blast
  then show ?thesis by (simp add: comb_logic_def c)
qed

section \<open>Pending interrupts\<close>

definition pending_at :: "gic \<Rightarrow> u32 \<Rightarrow> u32 \<Rightarrow> bool" where
  "pending_at g c irq = bit (mPendingInterrupts g ! unat c ! (unat irq div 32)) (unat irq mod 32)"

lemma gic_ok_pending: "gic_ok g \<Longrightarrow> at (mPendingInterrupts g) c = Some p \<Longrightarrow> length p = 16"
  using at_mem [of "mPendingInterrupts g" c p] by (simp add: gic_ok_def N_GIC_INTERRUPTS_def)

lemma same_register_bit:
  fixes a b :: u32
  shows "unat a div 32 = unat b div 32 \<Longrightarrow> unat a mod 32 = unat b mod 32 \<Longrightarrow> a = b"
  by (metis div_mult_mod_eq word_unat_eq_iff)

lemma setInterruptPending_at:
  assumes "setInterruptPending k j v g = Some g'"
  shows "pending_at g' c irq = (if c = k \<and> irq = j then v else pending_at g c irq)"
proof -
  from assms obtain p where p: "at (mPendingInterrupts g) k = Some p" "unat j div 32 < length p"
    and g': "g' = g\<lparr>mPendingInterrupts := (mPendingInterrupts g)[unat k := p[unat j div 32 :=
        (if v then set_bit (unat j mod 32) (p ! (unat j div 32)) else unset_bit (unat j mod 32) (p ! (unat j div 32)))]]\<rparr>"
    by (auto simp: setInterruptPending_def Let_def osimps)
  have k: "unat k < length (mPendingInterrupts g)" "p = mPendingInterrupts g ! unat k"
    using p(1) by (auto simp: at_def split: if_splits)
  show ?thesis
  proof (cases "c = k \<and> unat irq div 32 = unat j div 32")
    case True
    then show ?thesis using p(2) k same_register_bit [of irq j]
      by (auto simp: pending_at_def g' bit_simps)
  next
    case False
    then show ?thesis using p(2) k by (auto simp: pending_at_def g' nth_list_update word_unat_eq_iff)
  qed
qed

lemma raise_sgi_pending:
  assumes "raise_sgi sgi cpu targets ts g = Some g'"
  shows "pending_at g' c irq \<longleftrightarrow> pending_at g c irq \<or> irq = sgi \<and> unat c \<in> set ts \<and> bit targets (unat c)"
  using assms
proof (induction ts arbitrary: g)
  case (Cons t ts)
  define h0 where "h0 = g\<lparr>mInterruptOrigins := (mInterruptOrigins g)[t := (mInterruptOrigins g ! t)(sgi := cpu)]\<rparr>"
  have same: "pending_at h0 = pending_at g" by (simp add: h0_def pending_at_def fun_eq_iff)
  obtain h where h: "bit targets t \<Longrightarrow> setInterruptPending (of_nat t) sgi True h0 = Some h" "\<not> bit targets t \<Longrightarrow> h = g"
    and rest: "raise_sgi sgi cpu targets ts h = Some g'"
    using Cons.prems by (cases "bit targets t") (auto simp: osimps h0_def)
  have t: "c = of_nat t \<longleftrightarrow> unat c = t" if "bit targets t"
  proof -
    have "t < 8" using bit_imp_le_length [OF that] by simp
    then have "unat (of_nat t :: u32) = t" by (simp add: unat_of_nat)
    then show ?thesis by (auto simp: word_unat_eq_iff)
  qed
  have "pending_at h c irq \<longleftrightarrow> pending_at g c irq \<or> irq = sgi \<and> unat c = t \<and> bit targets t"
    using setInterruptPending_at [OF h(1), of c irq] h(2) same t by (cases "bit targets t") auto
  with Cons.IH [OF rest] show ?case by auto
qed simp

text \<open>The targets of a software interrupt, as the register describes them.\<close>

definition sgi_reaches :: "u32 \<Rightarrow> u32 \<Rightarrow> u32 \<Rightarrow> bool" where
  "sgi_reaches value writer c \<longleftrightarrow>
     unat c < 8 \<and>
     (case (bit value 25, bit value 24) of
        (False, False) \<Rightarrow> bit value (16 + unat c)
      | (False, True) \<Rightarrow> c \<noteq> writer
      | (True, False) \<Rightarrow> c = writer
      | (True, True) \<Rightarrow> True)"

lemma two_bits: "take_bit 2 w = of_bool (bit w 0) + 2 * of_bool (bit w 1)" for w :: u32
  by (simp add: numeral_2_eq_2 take_bit_Suc bit_Suc mod2_eq_if bit_0)

lemma all_bits: "bit (0xFF :: nat) n \<longleftrightarrow> n < 8" "bit (0xFF :: int) n \<longleftrightarrow> n < 8"
proof -
  have "(0xFF :: nat) = mask 8" "(0xFF :: int) = mask 8" by (simp_all add: mask_eq_exp_minus_1)
  then show "bit (0xFF :: nat) n \<longleftrightarrow> n < 8" "bit (0xFF :: int) n \<longleftrightarrow> n < 8"
    by (simp_all only: bit_mask_iff) auto
qed

lemma sgi_targets_bit: "bit (sgi_targets value cpu) (unat c) \<longleftrightarrow> sgi_reaches value cpu c"
proof -
  have "(\<not> bit value 24 \<and> \<not> bit value 25) = (take_bit 2 (drop_bit 24 value) = 0)"
    "(bit value 24 \<and> \<not> bit value 25) = (take_bit 2 (drop_bit 24 value) = 1)"
    "(\<not> bit value 24 \<and> bit value 25) = (take_bit 2 (drop_bit 24 value) = 2)"
    using two_bits [of "drop_bit 24 value"] by (auto simp: bit_simps split: if_splits)
  then show ?thesis
    by (auto simp: sgi_targets_def sgi_reaches_def Let_def bit_simps all_bits word_unat_eq_iff split: bool.splits)
qed

lemma setInterruptPending_frame:
  "setInterruptPending k j v g = Some g' \<Longrightarrow> \<exists>p. g' = g\<lparr>mPendingInterrupts := p\<rparr>"
  by (auto simp: setInterruptPending_def Let_def osimps)

lemma raise_sgi_origins:
  assumes "raise_sgi sgi cpu targets ts g = Some g'" and "t < length (mInterruptOrigins g)"
  shows "t < length (mInterruptOrigins g') \<and>
     mInterruptOrigins g' ! t =
       (if t \<in> set ts \<and> bit targets t then (mInterruptOrigins g ! t)(sgi := cpu) else mInterruptOrigins g ! t)"
  using assms
proof (induction ts arbitrary: g)
  case (Cons s ts)
  show ?case
  proof (cases "bit targets s")
    case True
    define h0 where "h0 = g\<lparr>mInterruptOrigins := (mInterruptOrigins g)[s := (mInterruptOrigins g ! s)(sgi := cpu)]\<rparr>"
    obtain h where h: "setInterruptPending (of_nat s) sgi True h0 = Some h" and rest: "raise_sgi sgi cpu targets ts h = Some g'"
      using Cons.prems(1) True by (auto simp: osimps h0_def)
    have eq: "mInterruptOrigins h = mInterruptOrigins h0" using setInterruptPending_frame [OF h] by auto
    then have "t < length (mInterruptOrigins h)" using Cons.prems(2) by (simp add: h0_def)
    from Cons.IH [OF rest this] True Cons.prems(2) show ?thesis
      by (cases "s = t") (auto simp: eq h0_def nth_list_update)
  next
    case False
    then show ?thesis using Cons by auto
  qed
qed simp

text \<open>
  a write to the software-interrupt register makes that interrupt pending for exactly the processors
  its target filter selects, changes no other pending bit, and each selected processor acknowledges it
  with the number of the writer as its origin.
\<close>
theorem software_interrupt_targets:
  assumes "gic_ok g" and "writeDist 0xF00 value n cpu g = Some g'" and "unat c < length (mCpus g)"
  shows "(pending_at g' c irq \<longleftrightarrow> pending_at g c irq \<or> irq = value AND 0xF \<and> sgi_reaches value cpu c) \<and>
    (sgi_reaches value cpu c \<longrightarrow> ackValue c (value AND 0xF) g' = Some ((value AND 0xF) OR push_bit 10 cpu))"
proof (rule conjI)
  let ?sgi = "value AND 0xF" and ?ts = "[0..<length (mCpus g)]"
  from assms(2) obtain h where h: "setInterruptTarget ?sgi (sgi_targets value cpu) g = Some h"
    and run: "raise_sgi ?sgi cpu (sgi_targets value cpu) [0..<length (mCpus h)] (h\<lparr>mPendingCpuIds := (mPendingCpuIds h)[unat ?sgi := cpu]\<rparr>) = Some g'"
    by (auto simp: writeDist_def software_interrupt_def Let_def osimps)
  note mem = mem_onlyD [OF set_registers_mem(1) [OF h]]
  note run' = run [unfolded mem(2)]
  show "pending_at g' c irq \<longleftrightarrow> pending_at g c irq \<or> irq = ?sgi \<and> sgi_reaches value cpu c"
    using raise_sgi_pending [OF run', of c irq] assms(3) by (simp add: sgi_targets_bit pending_at_def mem(5))
  have "unat c < length (mInterruptOrigins g)" using assms(1,3) by (simp add: gic_ok_def)
  then have "unat c < length (mInterruptOrigins g') \<and>
      mInterruptOrigins g' ! unat c = (if sgi_reaches value cpu c then (mInterruptOrigins g ! unat c)(?sgi := cpu) else mInterruptOrigins g ! unat c)"
    using raise_sgi_origins [OF run', of "unat c"] assms(3) by (simp add: sgi_targets_bit mem(6))
  moreover have "?sgi < 16" by (rule le_less_trans [OF word_and_le1]) simp
  ultimately show "sgi_reaches value cpu c \<longrightarrow> ackValue c ?sgi g' = Some (?sgi OR push_bit 10 cpu)"
    by (simp add: ackValue_def at_def)
qed

section \<open>Queueing\<close>

text \<open>The interrupts a processor is to be given: enabled, pending, targeted at it and not masked by its priority.\<close>

definition eligible :: "gic \<Rightarrow> u32 \<Rightarrow> u32 \<times> bool \<Rightarrow> bool" where
  "eligible g cpu e \<longleftrightarrow>
     snd e \<and> pending_at g cpu (fst e) \<and> cpuInTarget (fst e) cpu g = Some True \<and>
     the (getInterruptPriority (fst e) g) \<le> the (getCpuPriorityMask cpu g)"

definition ack_of :: "gic \<Rightarrow> u32 \<Rightarrow> u32 \<times> bool \<Rightarrow> u32" where
  "ack_of g cpu e = the (ackValue cpu (fst e) g)"

definition put_new :: "'a list \<Rightarrow> 'a \<Rightarrow> 'a list" where
  "put_new q a = (if a \<in> set q then q else q @ [a])"

lemma foldl_put_new: "distinct as \<Longrightarrow> foldl put_new q as = q @ filter (\<lambda>a. a \<notin> set q) as"
proof (induction as arbitrary: q)
  case (Cons a as)
  then have "filter (\<lambda>x. x \<noteq> a \<and> x \<notin> set q) as = filter (\<lambda>x. x \<notin> set q) as" by (auto intro!: filter_cong)
  with Cons show ?case by (simp add: put_new_def)
qed simp

lemma takes_interrupt_eligible:
  assumes "takes_interrupt cpu e g = Some (t, a)"
  shows "t = eligible g cpu e \<and> a = ack_of g cpu e \<and> ackValue cpu (fst e) g = Some a \<and>
         (\<exists>p. at (mPendingInterrupts g) cpu = Some p \<and> unat (fst e) div 32 < length p)"
  using assms
  by (cases e) (auto simp: takes_interrupt_def eligible_def ack_of_def pending_at_def at_def osimps split: if_splits)

lemma consider_all_queue:
  assumes "consider_all cpu es g = Some g'" and "at (mCpuQueue g) cpu = Some q"
  shows "g' = g\<lparr>mCpuQueue := (mCpuQueue g)[unat cpu := foldl put_new q (map (ack_of g cpu) (filter (eligible g cpu) es))]\<rparr>"
  using assms
proof (induction es arbitrary: g q)
  case (Cons e es)
  obtain t a h where t: "takes_interrupt cpu e g = Some (t, a)" and h: "(if t then enqueue cpu a g else Some g) = Some h"
    and rest: "consider_all cpu es h = Some g'"
    using Cons.prems(1) by (auto simp: consider_interrupt_def osimps)
  note el = takes_interrupt_eligible [OF t]
  have i: "unat cpu < length (mCpuQueue g)" "q = mCpuQueue g ! unat cpu" using Cons.prems(2) by (auto simp: at_def split: if_splits)
  define q' where "q' = (if t then put_new q a else q)"
  have hq: "h = g\<lparr>mCpuQueue := (mCpuQueue g)[unat cpu := q']\<rparr>"
    using h Cons.prems(2) i by (auto simp: q'_def put_new_def enqueue_def split: if_splits)
  have "at (mCpuQueue h) cpu = Some q'" using i by (simp add: hq at_def)
  moreover have "eligible h cpu = eligible g cpu" "ack_of h cpu = ack_of g cpu"
    by (simp_all add: hq eligible_def ack_of_def fun_eq_iff pending_at_def ackValue_def cpuInTarget_def
        getInterruptPriority_def getCpuPriorityMask_def rd8_def)
  ultimately show ?case using Cons.IH [OF rest] el by (simp add: hq q'_def)
qed (auto simp: at_def split: if_splits)

lemma ack_low_bits:
  fixes irq :: u32
  assumes "irq < 1024" and "ackValue cpu irq g = Some a"
  shows "take_bit 10 a = irq"
proof -
  have self: "take_bit 10 irq = irq" using assms(1) by (simp add: take_bit_eq_mod word_less_nat_alt word_unat_eq_iff unat_mod)
  have "take_bit 10 (irq OR push_bit 10 x) = irq" for x :: u32
    unfolding take_bit_or self by (simp add: take_bit_push_bit)
  moreover obtain f where "a = (if irq < 16 then irq OR push_bit 10 (f irq) else irq)"
    using assms(2) by (auto simp: ackValue_def bind_eq_Some_conv)
  ultimately show ?thesis using self by (cases "irq < 16") simp_all
qed

lemma consider_frame: "consider_interrupt cpu e g = Some h \<Longrightarrow> \<exists>qs. h = g\<lparr>mCpuQueue := qs\<rparr>"
proof -
  have same: "\<exists>qs. g = g\<lparr>mCpuQueue := qs\<rparr>" by (rule exI [of _ "mCpuQueue g"]) simp
  assume "consider_interrupt cpu e g = Some h"
  then have "h = g \<or> (\<exists>qs. h = g\<lparr>mCpuQueue := qs\<rparr>)"
    by (auto simp: consider_interrupt_def enqueue_def osimps split: if_splits)
  with same show ?thesis by blast
qed

lemma consider_all_defined:
  assumes "gic_ok g" and "consider_all cpu es g = Some g'" and "e \<in> set es"
  shows "fst e < 1024 \<and> ackValue cpu (fst e) g = Some (ack_of g cpu e)"
  using assms
proof (induction es arbitrary: g)
  case (Cons d es)
  obtain h where h: "consider_interrupt cpu d g = Some h" and rest: "consider_all cpu es h = Some g'"
    using Cons.prems(2) by (auto simp: osimps)
  show ?case
  proof (cases "e = d")
    case True
    obtain t a where "takes_interrupt cpu d g = Some (t, a)" using h by (auto simp: consider_interrupt_def osimps)
    from takes_interrupt_eligible [OF this] obtain p where "a = ack_of g cpu d" "ackValue cpu (fst d) g = Some a"
      and p: "at (mPendingInterrupts g) cpu = Some p" "unat (fst d) div 32 < length p" by blast
    moreover have "length p = 16" using gic_ok_pending [OF Cons.prems(1) p(1)] .
    ultimately show ?thesis using True by (simp add: word_less_nat_alt)
  next
    case False
    have "gic_ok h" using safeD [OF safe_consider h Cons.prems(1)] .
    moreover obtain qs where "h = g\<lparr>mCpuQueue := qs\<rparr>" using consider_frame [OF h] by blast
    then have "ackValue cpu (fst e) h = ackValue cpu (fst e) g" "ack_of h cpu e = ack_of g cpu e"
      by (simp_all add: ackValue_def ack_of_def)
    ultimately show ?thesis using Cons.IH [OF _ rest] Cons.prems(3) False by simp
  qed
qed simp

lemma ack_of_distinct:
  assumes "gic_ok g" and "consider_all cpu es g = Some g'" and "sorted_wrt (<) (map fst es)"
  shows "distinct (map (ack_of g cpu) (filter (eligible g cpu) es))"
proof -
  have low: "take_bit 10 (ack_of g cpu e) = fst e" if "e \<in> set es" for e
    using consider_all_defined [OF assms(1,2) that] ack_low_bits by blast
  have "distinct (map fst es)" using assms(3) by (simp add: strict_sorted_iff)
  then have inj: "inj_on fst (set es)" and "distinct es" by (simp_all add: distinct_map)
  have "inj_on (ack_of g cpu) (set es)"
    by (rule inj_onI) (metis low inj inj_onD)
  then show ?thesis using \<open>distinct es\<close> by (auto simp: distinct_map intro: inj_on_subset)
qed

text \<open>
  C17: when the controller and the processor interface are enabled, recomputing the lines of a processor appends to its
  queue, in the order of their numbers, exactly the acknowledge values of the eligible interrupts that are not
  queued yet, and raises the interrupt line exactly when the queue is not empty and the virtual line exactly when
  the virtual queue is not empty.
\<close>
theorem update_cpu_queues_eligible:
  assumes "gic_ok g" and "isEnabled g = Some True" and "cpuTakesInterrupts cpu g = Some True"
    and "update_cpu cpu g = Some g'" and "q = mCpuQueue g ! unat cpu"
    and "new = filter (\<lambda>a. a \<notin> set q) (map (ack_of g cpu) (filter (eligible g cpu) (mEnableStatus g ! unat cpu)))"
  shows "mCpuQueue g' = (mCpuQueue g)[unat cpu := q @ new] \<and>
    gLines g' = gLines g @ [(cpu, q @ new \<noteq> [], push_bit 16 cpu), (cpu, mVCpuQueue g ! unat cpu \<noteq> [], 2 OR push_bit 16 cpu)]"
proof -
  obtain es q0 h q' h1 vq h2 where es: "at (mEnableStatus g) cpu = Some es" and q0: "at (mCpuQueue g) cpu = Some q0"
    and h: "consider_all cpu es g = Some h" and q': "at (mCpuQueue h) cpu = Some q'"
    and h1: "present cpu q' h = Some h1"
    and vq: "at (mVCpuQueue (drive cpu (q' \<noteq> []) 0 h1)) cpu = Some vq"
    and h2: "present_virtual cpu vq (drive cpu (q' \<noteq> []) 0 h1) = Some h2" and g': "g' = drive cpu (vq \<noteq> []) 2 h2"
    using assms(2,3,4) by (auto simp: update_cpu_def Let_def osimps)
  have q: "q0 = q" "es = mEnableStatus g ! unat cpu" "unat cpu < length (mCpuQueue g)"
    using es q0 assms(5) by (auto simp: at_def split: if_splits)
  have "h = g\<lparr>mCpuQueue := (mCpuQueue g)[unat cpu := q @ new]\<rparr>"
    using consider_all_queue [OF h q0] foldl_put_new [OF ack_of_distinct [OF assms(1) h gic_ok_sorted [OF assms(1) es]]]
    by (simp add: q assms(6))
  then have hq: "mCpuQueue h = (mCpuQueue g)[unat cpu := q @ new]" "gLines h = gLines g" "mVCpuQueue h = mVCpuQueue g" by simp_all
  then have q'new: "q' = q @ new" using q' q(3) by (simp add: at_def split: if_splits)
  from mem_onlyD [OF present_mem(1) [OF h1]] mem_onlyD [OF present_mem(2) [OF h2]] hq vq show ?thesis
    by (simp add: g' drive_def q'new at_def split: if_splits)
qed

section \<open>End of an interrupt\<close>

text \<open>A word written to the registers is read back.\<close>

lemma bytes_of_word:
  fixes v :: u32
  shows "ucast (ucast v :: u8) OR push_bit 8 (ucast (ucast (drop_bit 8 v) :: u8)) OR
     push_bit 16 (ucast (ucast (drop_bit 8 (drop_bit 8 v)) :: u8)) OR push_bit 24 (ucast (ucast (drop_bit 8 (drop_bit 8 (drop_bit 8 v))) :: u8)) = v"
proof (rule bit_word_eqI)
  fix n assume "n < LENGTH(32)"
  then consider "n < 8" | "8 \<le> n" "n < 16" | "16 \<le> n" "n < 24" | "24 \<le> n" "n < 32" by fastforce
  then show "bit (ucast (ucast v :: u8) OR push_bit 8 (ucast (ucast (drop_bit 8 v) :: u8)) OR
     push_bit 16 (ucast (ucast (drop_bit 8 (drop_bit 8 v)) :: u8)) OR push_bit 24 (ucast (ucast (drop_bit 8 (drop_bit 8 (drop_bit 8 v))) :: u8)) :: u32) n
     = bit v n"
    by cases (auto simp: bit_simps)
qed

lemma rd32_wr32:
  assumes "wr32 a v g = Some g'" shows "rd32 a g' = Some v"
proof -
  have w: "a < mem_bytes" "a + 1 < mem_bytes" "a + 1 + 1 < mem_bytes" "a + 1 + 1 + 1 < mem_bytes"
    and g': "localMem g' = (localMem g)(a := ucast v, a + 1 := ucast (drop_bit 8 v), a + 1 + 1 := ucast (drop_bit 8 (drop_bit 8 v)),
        a + 1 + 1 + 1 := ucast (drop_bit 8 (drop_bit 8 (drop_bit 8 v))))"
    using assms by (auto simp: wr32_def numeral_eq_Suc wr8_def osimps split: if_splits)
  have d: "a + 1 + 1 = a + 2" "a + 1 + 1 + 1 = a + 3" by simp_all
  have ne: "a \<noteq> a + 1" "a \<noteq> a + 2" "a \<noteq> a + 3" "a + 1 \<noteq> a + 2" "a + 1 \<noteq> a + 3" "a + 2 \<noteq> a + 3" by simp_all
  have "a + 3 < mem_bytes" using w(4) d(2) by metis
  then show ?thesis using w(1-3) d(1) ne bytes_of_word [of v] by (simp add: rd32_def rd8_def g' [unfolded d])
qed

lemma aligned_register:
  assumes "unat base mod 4 = 0"
  shows "word_at ((base + ucast (0x100 * (cpu :: u32)) + 0xC) div 4) = base + ucast (0x100 * cpu) + 0xC"
proof -
  let ?x = "base + ucast (0x100 * cpu) + 0xC :: u64"
  have "unat (ucast (0x100 * cpu) :: u64) = (256 * unat cpu) mod 2 ^ 32"
    by (simp add: unsigned_ucast_eq take_bit_eq_mod unat_word_ariths)
  then have "unat (ucast (0x100 * cpu) :: u64) mod 4 = 0"
    by (simp add: mod_mod_cancel)
  then have "(unat base + unat (ucast (0x100 * cpu) :: u64) + 12) mod 4 = 0" using assms by presburger
  moreover have "unat ?x = (unat base + unat (ucast (0x100 * cpu) :: u64) + 12) mod 2 ^ 64"
    by (simp add: unat_word_ariths mod_simps)
  ultimately have "unat ?x mod 4 = 0" by (simp add: mod_mod_cancel)
  then have "4 * (unat ?x div 4) = unat ?x" by presburger
  moreover have "unat (4 * (?x div 4)) = (4 * (unat ?x div 4)) mod 2 ^ 64"
    by (simp add: unat_word_ariths unat_div)
  moreover have "unat ?x < 2 ^ 64" using unat_bound [of ?x] by simp
  ultimately have "unat (4 * (?x div 4)) = unat ?x" by (simp only: mod_less)
  then show ?thesis by (simp only: word_at_def word_unat_eq_iff)
qed

definition end_offset :: "u64 \<Rightarrow> bool" where
  "end_offset offset \<longleftrightarrow> offset = 0x10 \<or> offset = 0x24 \<or> offset = 0x1000"

lemma writeCpu_end:
  "end_offset offset \<Longrightarrow> is_end_of_interrupt (mCpuBase g) offset cpu g = Some True \<Longrightarrow> writeCpu offset value n cpu g = end_interrupt cpu value g"
  by (auto simp: writeCpu_def end_offset_def)

lemma setCurrentInterruptId_read:
  assumes "setCurrentInterruptId cpu v g = Some g'" and "unat (mCpuBase g) mod 4 = 0"
  shows "readCpu 0xC 4 cpu g' = Some v"
proof -
  have w: "wr32 (mCpuBase g + ucast (0x100 * cpu) + 0xC) v g = Some g'"
    using assms aligned_register [OF assms(2)] by (simp only: setCurrentInterruptId_def)
  have base: "mCpuBase g' = mCpuBase g" using mem_onlyD(10) [OF wr32_mem [OF w]] .
  show ?thesis unfolding readCpu_def base mult.commute [of cpu] by (rule rd32_wr32 [OF w])
qed

lemma pending_at_mem: "mem_only g g' \<Longrightarrow> pending_at g' = pending_at g"
  by (auto simp: mem_only_def pending_at_def fun_eq_iff)

lemma pending_at_frame [simp]:
  "pending_at (g\<lparr>mCpuQueue := qs\<rparr>) = pending_at g" "pending_at (g\<lparr>mRoundRobin := r\<rparr>) = pending_at g"
  by (simp_all add: pending_at_def fun_eq_iff)

lemma readCpu_frame [simp]: "readCpu off n cpu (g\<lparr>mRoundRobin := r\<rparr>) = readCpu off n cpu g"
  by (simp add: readCpu_def rd32_def rd8_def cong: if_cong)

lemma next_interrupt_effect:
  assumes "next_interrupt cpu q g = Some g'"
  shows "mCpuQueue g' = mCpuQueue g"
    and "pending_at g' c i = (pending_at g c i \<or> c = cpu \<and> q \<noteq> [] \<and> i = hd q AND 0x3FF)"
    and "unat (mCpuBase g) mod 4 = 0 \<Longrightarrow> readCpu 0xC 4 cpu g' = Some (if q = [] then 1023 else hd q)"
proof -
  have all: "mCpuQueue g' = mCpuQueue g \<and> pending_at g' c i = (pending_at g c i \<or> c = cpu \<and> q \<noteq> [] \<and> i = hd q AND 0x3FF) \<and>
    (unat (mCpuBase g) mod 4 = 0 \<longrightarrow> readCpu 0xC 4 cpu g' = Some (if q = [] then 1023 else hd q))"
  proof (cases q)
    case Nil
    then obtain h where h: "setCurrentInterruptId cpu 1023 g = Some h" and g': "g' = h\<lparr>mRoundRobin := (mRoundRobin h + 1) mod length (mCpus h)\<rparr>"
      using assms by (auto simp: next_interrupt_def osimps)
    note mem = set_registers_mem(2) [OF h]
    show ?thesis using mem_onlyD(3) [OF mem] pending_at_mem [OF mem] setCurrentInterruptId_read [OF h] by (simp add: g' Nil)
  next
    case (Cons irq r)
    then obtain h where h: "setInterruptPending cpu (irq AND 0x3FF) True g = Some h" and g': "setCurrentInterruptId cpu irq h = Some g'"
      using assms by (auto simp: next_interrupt_def osimps)
    note mem = set_registers_mem(2) [OF g']
    have eq: "mCpuQueue h = mCpuQueue g" "mCpuBase h = mCpuBase g" using setInterruptPending_frame [OF h] by auto
    show ?thesis
      using mem_onlyD(3) [OF mem] pending_at_mem [OF mem] setCurrentInterruptId_read [OF g'] setInterruptPending_at [OF h, of c i]
      by (auto simp: eq Cons)
  qed
  from all show "mCpuQueue g' = mCpuQueue g" by blast
  from all show "pending_at g' c i = (pending_at g c i \<or> c = cpu \<and> q \<noteq> [] \<and> i = hd q AND 0x3FF)" by blast
  from all show "readCpu 0xC 4 cpu g' = Some (if q = [] then 1023 else hd q)" if "unat (mCpuBase g) mod 4 = 0" using that by simp
qed

text \<open>
  C18: a processor can only end the interrupt at the front of its queue: a write to the end-of-interrupt register that is
  accepted names it; the interrupt leaves the queue and is no longer pending, the next one in the queue is
  made pending again, and the acknowledge register shows the next one, or 1023 when there is none.
\<close>
theorem end_of_interrupt_pops_front:
  assumes "end_offset offset" and "is_end_of_interrupt (mCpuBase g) offset cpu g = Some True"
    and "unat (mCpuBase g) mod 4 = 0" and "writeCpu offset value n cpu g = Some g'"
  shows "\<exists>irq q. at (mCpuQueue g) cpu = Some (irq # q) \<and> value AND 0x3FF = irq AND 0x3FF \<and>
     mCpuQueue g' = (mCpuQueue g)[unat cpu := q] \<and>
     (\<forall>c i. pending_at g' c i \<longleftrightarrow> c = cpu \<and> q \<noteq> [] \<and> i = hd q AND 0x3FF \<or> pending_at g c i \<and> \<not> (c = cpu \<and> i = irq AND 0x3FF)) \<and>
     readCpu 0xC 4 cpu g' = Some (if q = [] then 1023 else hd q)"
proof -
  from assms(4) [unfolded writeCpu_end [OF assms(1,2)]]
  obtain irq q h where q: "at (mCpuQueue g) cpu = Some (irq # q)" and irq: "value AND 0x3FF = irq AND 0x3FF"
    and h: "setInterruptPending cpu (irq AND 0x3FF) False g = Some h"
    and g': "next_interrupt cpu q (h\<lparr>mCpuQueue := (mCpuQueue h)[unat cpu := q]\<rparr>) = Some g'"
    by (auto simp: end_interrupt_def Let_def osimps neq_Nil_conv)
  have eq: "mCpuQueue h = mCpuQueue g" "mCpuBase h = mCpuBase g" using setInterruptPending_frame [OF h] by auto
  have "readCpu 0xC 4 cpu g' = Some (if q = [] then 1023 else hd q)"
    using next_interrupt_effect(3) [OF g'] assms(3) eq(2) by simp
  moreover have "mCpuQueue g' = (mCpuQueue g)[unat cpu := q]" using next_interrupt_effect(1) [OF g'] by (simp add: eq)
  moreover have "pending_at g' c i \<longleftrightarrow> c = cpu \<and> q \<noteq> [] \<and> i = hd q AND 0x3FF \<or> pending_at g c i \<and> \<not> (c = cpu \<and> i = irq AND 0x3FF)" for c i
    using next_interrupt_effect(2) [OF g', of c i] setInterruptPending_at [OF h, of c i] by auto
  ultimately show ?thesis using q irq by blast
qed

section \<open>List registers\<close>

lemma and8_high: "8 \<le> k \<Longrightarrow> a < mem_bytes \<Longrightarrow> and8 a (NOT (push_bit k 1)) g = Some g"
proof -
  assume k: "8 \<le> k" and a: "a < mem_bytes"
  have "ucast (ucast b AND NOT (push_bit k 1) :: u32) = b" for b :: u8
    by (rule bit_word_eqI) (use k in \<open>auto simp: bit_simps\<close>)
  then show ?thesis using a by (simp add: and8_def rd8_def wr8_def del: push_bit_of_1)
qed

text \<open>
  filling one of the list registers from 8 to 31 queues the virtual interrupt but does not mark the register as
  used: the status word is updated as a byte, which has no bit for it.
\<close>
theorem list_register_stays_empty:
  assumes "0x120 \<le> offset" and "offset < 0x180" and "at (mVCpuQueue g) cpu = Some vq"
    and "State (VIntEntry_of value) \<noteq> 0" and "VirtualID (VIntEntry_of value) \<noteq> 0xb"
    and "same_entry_queued (VIntEntry_of value) vq g = Some False" and "vdist cpu g + 0x30 < mem_bytes"
  shows "write_list_register offset value cpu g =
     Some (g\<lparr>mVCpuQueue := (mVCpuQueue g)[unat cpu := vq @ [ucast ((offset - 0x100) div 4)]]\<rparr>)"
proof -
  let ?which = "(offset - 0x100) div 4" and ?g = "g\<lparr>mVCpuQueue := (mVCpuQueue g)[unat cpu := vq @ [ucast ((offset - 0x100) div 4)]]\<rparr>"
  have "unat (offset - 0x100) = unat offset - 0x100" using assms(1) by (simp add: unat_sub_le word_le_nat_alt)
  then have w: "unat ?which = (unat offset - 0x100) div 4" by (simp add: unat_div)
  have range: "8 \<le> unat ?which" "unat ?which < 32" using assms(1,2) unfolding w by (simp_all add: word_le_nat_alt word_less_nat_alt)
  then have "?which div 32 = 0" by (simp add: word_unat_eq_iff unat_div)
  moreover have "8 \<le> unat ?which mod 32" using range by simp
  moreover have "unat cpu < length (mVCpuQueue g)" using assms(3) by (simp add: at_def split: if_splits)
  ultimately show ?thesis
    using and8_high [of "unat ?which mod 32" "vdist cpu g + 0x30" ?g] assms(3-7)
    by (simp add: write_list_register_def Let_def at_def del: push_bit_of_1)
qed

section \<open>A controller with two processors\<close>

definition demo_config :: gic where
  "demo_config = setVCPUBase 0x6000 (setVDistBase 0x4000 (setCPUBase 0x2000 (setDistBase 0x1000 (gic_new (\<lambda>a. 1)))))"

definition demo_gic :: gic where
  "demo_gic = the (Option.bind (connectCpu 0 demo_config) (connectCpu 1))"

text \<open>The same controller after the shared interrupts 32 and 34 were enabled and raised, and with both queued for the first processor.\<close>

definition demo_queued :: gic where
  "demo_queued = the (Option.bind (Option.bind (writeDist 0x104 5 4 0 demo_gic) (pend_spi 32 True [0, 1])) (pend_spi 34 True [0, 1]))"

definition demo_served :: gic where
  "demo_served = demo_gic\<lparr>mCpuQueue := [[32, 34], []]\<rparr>"

lemma demo_reachable: "gic_reachable demo_gic"
proof -
  have "gic_reachable (gic_new (\<lambda>a. 1))" by (rule fresh)
  then have "gic_reachable (setDistBase 0x1000 (gic_new (\<lambda>a. 1)))" by (rule later) (rule configure, blast)
  then have "gic_reachable (setCPUBase 0x2000 (setDistBase 0x1000 (gic_new (\<lambda>a. 1))))" by (rule later) (rule configure, blast)
  then have "gic_reachable (setVDistBase 0x4000 (setCPUBase 0x2000 (setDistBase 0x1000 (gic_new (\<lambda>a. 1)))))"
    by (rule later) (rule configure, blast)
  then have config: "gic_reachable demo_config" unfolding demo_config_def by (rule later) (rule configure, blast)
  have "Option.bind (connectCpu 0 demo_config) (connectCpu 1) \<noteq> None" by code_simp
  then obtain g g' where g: "connectCpu 0 demo_config = Some g" "connectCpu 1 g = Some g'" by (auto simp: bind_eq_None_conv)
  then have "gic_reachable g'" using later [OF config connect] later [OF _ connect] by blast
  then show ?thesis by (simp add: demo_gic_def g)
qed

text \<open>
  C16: in every state the controller can reach all per-processor tables match the connected processors, the enable maps are
  ordered and no interrupt is queued twice for a processor.
\<close>
theorem reachable_controllers_ok: "gic_reachable g \<Longrightarrow> gic_ok g"
  by (rule gic_reachable_ok)

theorem reachable_controllers_ok_witness: "gic_reachable demo_gic \<and> gic_ok demo_gic"
  using demo_reachable reachable_controllers_ok [OF demo_reachable] by blast

lemma demo_ok: "gic_ok demo_gic" "gic_ok demo_queued" "gic_ok demo_served"
  by code_simp+

theorem enable_exactly_named_witness:
  "\<exists>g'. writeDist 0x104 5 4 0 demo_gic = Some g' \<and> enabled_at g' 1 34 = Some True \<and> enabled_at g' 1 33 = None"
proof -
  have "writeDist 0x104 5 4 0 demo_gic \<noteq> None" by code_simp
  then obtain g' where g': "writeDist 0x104 5 4 0 demo_gic = Some g'" by blast
  note law = enable_exactly_named [OF demo_ok(1) _ _ g', of 1]
  have "names 0x104 5 34" unfolding names_def by (rule exI [of _ 2]) code_simp
  moreover have "(1 :: u32) \<in> set (mCpus demo_gic)" by code_simp
  ultimately have "enabled_at g' 1 34 = Some True" using law [of 34] by simp
  moreover have "\<not> names 0x104 5 33"
  proof
    assume "names 0x104 5 33"
    then have "bit (5 :: u32) 1" unfolding names_def by auto
    then show False by code_simp
  qed
  then have "enabled_at g' 1 33 = enabled_at demo_gic 1 33" using law [of 33] by simp
  moreover have "enabled_at demo_gic 1 33 = None" by code_simp
  ultimately show ?thesis using g' by simp
qed

theorem disable_disables_nothing_witness:
  "\<exists>g'. writeDist 0x184 4 4 0 demo_queued = Some g' \<and> enabled_at g' 0 34 = Some True"
proof -
  have "writeDist 0x184 4 4 0 demo_queued \<noteq> None" by code_simp
  then obtain g' where g': "writeDist 0x184 4 4 0 demo_queued = Some g'" by blast
  moreover have "enabled_at demo_queued 0 34 = Some True" by code_simp
  ultimately show ?thesis using disable_disables_nothing [OF demo_ok(2) _ _ g', of 34 0] by simp
qed

theorem disable_leaves_registers_witness:
  "\<exists>g'. writeDist 0x184 4 4 0 demo_queued = Some g' \<and> comb_logic g' = None"
proof -
  have "(case writeDist 0x184 4 4 0 demo_queued of None \<Rightarrow> False
     | Some g \<Rightarrow> isEnabled g = Some True \<and> (\<forall>c \<in> set (mCpus demo_queued). cpuTakesInterrupts c g = Some True))" by code_simp
  then obtain g' where g': "writeDist 0x184 4 4 0 demo_queued = Some g'" "isEnabled g' = Some True"
      "\<forall>c \<in> set (mCpus demo_queued). cpuTakesInterrupts c g' = Some True" by (auto split: option.splits)
  moreover have "mCpus demo_queued \<noteq> []" by code_simp
  ultimately show ?thesis using disable_leaves_registers [OF demo_ok(2) _ _ _ g'(1)] by simp
qed

theorem software_interrupt_targets_witness:
  "\<exists>g'. writeDist 0xF00 0x20003 4 0 demo_gic = Some g' \<and> pending_at g' 1 3 \<and> \<not> pending_at g' 0 3 \<and> ackValue 1 3 g' = Some 3"
proof -
  have "writeDist 0xF00 0x20003 4 0 demo_gic \<noteq> None" by code_simp
  then obtain g' where g': "writeDist 0xF00 0x20003 4 0 demo_gic = Some g'" by blast
  have "sgi_reaches 0x20003 0 1" "\<not> sgi_reaches 0x20003 0 0" "\<not> pending_at demo_gic 0 3" "length (mCpus demo_gic) = 2"
    "(0x20003 :: u32) AND 0xF = 3"
    by code_simp+
  then show ?thesis
    using g' software_interrupt_targets [OF demo_ok(1) g', of 1 3] software_interrupt_targets [OF demo_ok(1) g', of 0 3] by simp
qed

theorem update_cpu_queues_eligible_witness:
  "\<exists>g'. update_cpu 0 demo_queued = Some g' \<and> mCpuQueue g' = [[32, 34], []] \<and> gLines g' = [(0, True, 0), (0, False, 2)]"
proof -
  have "update_cpu 0 demo_queued \<noteq> None" by code_simp
  then obtain g' where g': "update_cpu 0 demo_queued = Some g'" by blast
  have "isEnabled demo_queued = Some True" "cpuTakesInterrupts 0 demo_queued = Some True" by code_simp+
  note law = update_cpu_queues_eligible [OF demo_ok(2) this g' refl refl]
  have "filter (\<lambda>a. a \<notin> set (mCpuQueue demo_queued ! unat (0 :: u32)))
      (map (ack_of demo_queued 0) (filter (eligible demo_queued 0) (mEnableStatus demo_queued ! unat (0 :: u32)))) = [32, 34]"
    "mCpuQueue demo_queued = [[], []]" "mVCpuQueue demo_queued = [[], []]" "gLines demo_queued = []" by code_simp+
  then show ?thesis using g' law by simp
qed

theorem end_of_interrupt_pops_front_witness:
  "\<exists>g'. writeCpu 0x10 32 4 0 demo_served = Some g' \<and> mCpuQueue g' = [[34], []] \<and> readCpu 0xC 4 0 g' = Some 34"
proof -
  have "writeCpu 0x10 32 4 0 demo_served \<noteq> None" by code_simp
  then obtain g' where g': "writeCpu 0x10 32 4 0 demo_served = Some g'" by blast
  have ends: "end_offset 0x10" "is_end_of_interrupt (mCpuBase demo_served) 0x10 0 demo_served = Some True"
    and "mCpuBase demo_served = 0x2000" by code_simp+
  then have "unat (mCpuBase demo_served) mod 4 = 0" by simp
  from end_of_interrupt_pops_front [OF ends this g'] obtain irq q where "at (mCpuQueue demo_served) 0 = Some (irq # q)"
    "mCpuQueue g' = (mCpuQueue demo_served)[unat (0 :: u32) := q]" "readCpu 0xC 4 0 g' = Some (if q = [] then 1023 else hd q)"
    by (elim exE conjE) (rule that; assumption)
  moreover have "mCpuQueue demo_served = [[32, 34], []]" by code_simp
  ultimately show ?thesis using g' by (auto simp: at_def)
qed

theorem list_register_stays_empty_witness:
  "write_list_register 0x120 0x10000005 0 demo_gic = Some (demo_gic\<lparr>mVCpuQueue := [[8], []]\<rparr>)"
proof -
  have "at (mVCpuQueue demo_gic) 0 = Some []" "State (VIntEntry_of 0x10000005) \<noteq> 0" "VirtualID (VIntEntry_of 0x10000005) \<noteq> 0xb"
    "same_entry_queued (VIntEntry_of 0x10000005) [] demo_gic = Some False" "vdist 0 demo_gic + 0x30 < mem_bytes" by code_simp+
  moreover have "mVCpuQueue demo_gic = [[], []]" by code_simp
  ultimately show ?thesis using list_register_stays_empty [of "0x120" demo_gic 0 "[]" "0x10000005"] by simp
qed

end
