(* ===== verification/ParamSet.thy ===== *)
theory ParamSet
  imports AddrSpace "HOL-Library.Product_Lexorder"
begin

text \<open>
  Parameters of the modules of a platform (\<open>core/vpsimModule/moduleParameters.cpp\<close> and
  \<open>parameterSet.cpp\<close>): values attached to ranges of addresses, kept in ordered containers of
  ranges. A container stands for a partial function from addresses to values (\<open>value_at\<close>); the operations are shown to
  implement the corresponding operations on functions.

  The three kinds of parameters have containers of their own, so that the checked casts of the
  code, which compare or add parameters of one kind, always succeed and are left out. Delays are SystemC times, which are
  64-bit counts; a traversal rate is a value of a type \<open>'r\<close>, and what SystemC computes for a delay
  multiplied by a rate is a parameter of the model.
\<close>

section \<open>Parameter values\<close>

datatype BlockingTLMEnabled = BT_DISABLED | BT_ENABLED

definition bt_of_bool :: "bool \<Rightarrow> BlockingTLMEnabled" where
  "bt_of_bool b = (if b then BT_ENABLED else BT_DISABLED)"

definition bool_of_bt :: "BlockingTLMEnabled \<Rightarrow> bool" where
  "bool_of_bt v \<longleftrightarrow> v = BT_ENABLED"

definition bt_less :: "BlockingTLMEnabled \<Rightarrow> BlockingTLMEnabled \<Rightarrow> bool" where
  "bt_less this that \<longleftrightarrow> this = BT_DISABLED \<and> that = BT_ENABLED"

text \<open>\<open>std::max\<close>: the first argument unless it is smaller.\<close>

definition max_by :: "('v \<Rightarrow> 'v \<Rightarrow> bool) \<Rightarrow> 'v \<Rightarrow> 'v \<Rightarrow> 'v" where
  "max_by lt x y = (if lt x y then y else x)"

definition bt_plus :: "BlockingTLMEnabled \<Rightarrow> BlockingTLMEnabled \<Rightarrow> BlockingTLMEnabled" where
  "bt_plus this that = max_by bt_less this that"

definition delay_less :: "u64 \<Rightarrow> u64 \<Rightarrow> bool" where
  "delay_less this that \<longleftrightarrow> this > that"

definition delay_plus :: "u64 \<Rightarrow> u64 \<Rightarrow> u64" where
  "delay_plus this that = this + that"

section \<open>Containers\<close>

type_synonym 'v container = "(AddrSpace \<times> 'v) list"

record 'r ParameterSet =
  mBlockingTLMEnabledParameter :: "BlockingTLMEnabled container"
  mApproximateDelayParameter :: "u64 container"
  mApproximateTraversalRateParameter :: "'r container"

definition ParameterSet_new :: "'r ParameterSet" where
  "ParameterSet_new =
     \<lparr>mBlockingTLMEnabledParameter = [], mApproximateDelayParameter = [], mApproximateTraversalRateParameter = []\<rparr>"

text \<open>Entries are sorted by their ranges, by base and then by end.\<close>

definition range_key :: "AddrSpace \<times> 'v \<Rightarrow> u64 \<times> u64" where
  "range_key e = (mBaseAddress (fst e), mEndAddress (fst e))"

definition sort_container :: "'v container \<Rightarrow> 'v container" where
  "sort_container pc = sort_key range_key pc"

definition getParameterValue :: "'v \<Rightarrow> 'v container \<Rightarrow> u64 \<Rightarrow> 'v" where
  "getParameterValue dflt pc addr =
     (case find (\<lambda>p. mEndAddress (fst p) \<ge> addr \<and> mBaseAddress (fst p) \<le> addr) pc of
        Some p \<Rightarrow> snd p
      | None \<Rightarrow> dflt)"

text \<open>The first entry that overlaps a range, and the container without it.\<close>

fun take_conflict :: "AddrSpace \<Rightarrow> 'v container \<Rightarrow> ((AddrSpace \<times> 'v) \<times> 'v container) option" where
  "take_conflict as [] = None"
| "take_conflict as (p # pc) =
     (if intersect (fst p) as then Some (p, pc)
      else map_option (\<lambda>(q, r). (q, p # r)) (take_conflict as pc))"

text \<open>
  Setting parameters on a list of ranges, one after the other. A conflict is resolved by setting the
  pieces: the new value where only the new range reaches, the picked value on
  the intersection, the old value where only the old range reaches.
\<close>

partial_function (option) set_each :: "('v \<Rightarrow> 'v \<Rightarrow> 'v) \<Rightarrow> (AddrSpace \<times> 'v) list \<Rightarrow> 'v container \<Rightarrow> 'v container option" where
  "set_each pick es pc =
     (case es of
        [] \<Rightarrow> Some pc
      | (as, param) # es' \<Rightarrow> do {
          pc \<leftarrow> (case take_conflict as pc of
                  None \<Rightarrow> Some (sort_container (pc @ [(as, param)]))
                | Some ((curAs, curParam), pc) \<Rightarrow>
                    set_each pick
                      (map (\<lambda>nas. (nas, param)) (relativeComplement as curAs) @
                       [(intersection curAs as, pick curParam param)] @
                       map (\<lambda>oas. (oas, curParam)) (relativeComplement curAs as)) pc);
          set_each pick es' pc
        })"

declare set_each.simps [code]

definition setParameterHelper :: "'v container \<Rightarrow> AddrSpace \<Rightarrow> 'v \<Rightarrow> ('v \<Rightarrow> 'v \<Rightarrow> 'v) \<Rightarrow> 'v container option" where
  "setParameterHelper pc as param pick = set_each pick [(as, param)] pc"

text \<open>Defragmentation merges the first two adjacent entries with equal values and starts again.\<close>

fun merge_first :: "'v container \<Rightarrow> 'v container option" where
  "merge_first (e1 # e2 # pc) =
     (if mEndAddress (fst e1) + 1 = mBaseAddress (fst e2) \<and> snd e1 = snd e2
      then Some ((AddrSpace_of (mBaseAddress (fst e1)) (mEndAddress (fst e2)), snd e1) # pc)
      else map_option ((#) e1) (merge_first (e2 # pc)))"
| "merge_first _ = None"

lemma merge_first_length: "merge_first pc = Some pc' \<Longrightarrow> length pc' < length pc"
  by (induction pc arbitrary: pc' rule: merge_first.induct) (auto split: if_splits)

function defrag :: "'v container \<Rightarrow> 'v container" where
  "defrag pc = (case merge_first pc of None \<Rightarrow> pc | Some pc' \<Rightarrow> defrag pc')"
  by pat_completeness auto
termination
  by (relation "measure length") (auto dest: merge_first_length)

declare defrag.simps [simp del]

section \<open>The operations\<close>

datatype 'r ModuleParameter = Blocking BlockingTLMEnabled | ApproximateDelay u64 | ApproximateTraversalRate 'r

definition setParameter :: "AddrSpace \<Rightarrow> 'r ModuleParameter \<Rightarrow> 'r ParameterSet \<Rightarrow> 'r ParameterSet option" where
  "setParameter as param ps =
     (case param of
        Blocking v \<Rightarrow> do {
          pc \<leftarrow> setParameterHelper (mBlockingTLMEnabledParameter ps) as v (\<lambda>old new. new);
          Some (ps\<lparr>mBlockingTLMEnabledParameter := pc\<rparr>)
        }
      | ApproximateDelay v \<Rightarrow> do {
          pc \<leftarrow> setParameterHelper (mApproximateDelayParameter ps) as v (\<lambda>old new. new);
          Some (ps\<lparr>mApproximateDelayParameter := pc\<rparr>)
        }
      | ApproximateTraversalRate v \<Rightarrow> do {
          pc \<leftarrow> setParameterHelper (mApproximateTraversalRateParameter ps) as v (\<lambda>old new. new);
          Some (ps\<lparr>mApproximateTraversalRateParameter := pc\<rparr>)
        })"

definition getBlockingTLMEnabledParameter :: "BlockingTLMEnabled \<Rightarrow> 'r ParameterSet \<Rightarrow> u64 \<Rightarrow> BlockingTLMEnabled" where
  "getBlockingTLMEnabledParameter dflt ps addr = getParameterValue dflt (mBlockingTLMEnabledParameter ps) addr"

definition getApproximateDelayParameter :: "u64 \<Rightarrow> 'r ParameterSet \<Rightarrow> u64 \<Rightarrow> u64" where
  "getApproximateDelayParameter dflt ps addr = getParameterValue dflt (mApproximateDelayParameter ps) addr"

text \<open>Setting all entries of one container on another, then defragmenting it.\<close>

definition merge_container :: "('v \<Rightarrow> 'v \<Rightarrow> 'v) \<Rightarrow> 'v container \<Rightarrow> 'v container \<Rightarrow> 'v container option" where
  "merge_container pick from to = map_option defrag (set_each pick from to)"

definition mergeImportedParam :: "'r ParameterSet \<Rightarrow> 'r ParameterSet \<Rightarrow> 'r ParameterSet option" where
  "mergeImportedParam importedParam ps =
     do {
       b \<leftarrow> merge_container (max_by bt_less) (mBlockingTLMEnabledParameter importedParam) (mBlockingTLMEnabledParameter ps);
       d \<leftarrow> merge_container (max_by delay_less) (mApproximateDelayParameter importedParam) (mApproximateDelayParameter ps);
       Some (ps\<lparr>mBlockingTLMEnabledParameter := b, mApproximateDelayParameter := d\<rparr>)
     }"

text \<open>The delays multiplied by the traversal rates, range by range; where no rate is known the delay stays.\<close>

partial_function (option) new_delays ::
  "('d \<Rightarrow> 'r \<Rightarrow> 'd) \<Rightarrow> 'r container \<Rightarrow> (AddrSpace \<times> 'd) list \<Rightarrow> 'd container option" where
  "new_delays scale trRates es =
     (case es of
        [] \<Rightarrow> Some []
      | (as, delay) # es' \<Rightarrow> do {
          xs \<leftarrow> (case find (\<lambda>t. intersect as (fst t)) trRates of
                  None \<Rightarrow> Some [(as, delay)]
                | Some (trAs, tr) \<Rightarrow> do {
                    ys \<leftarrow> new_delays scale trRates (map (\<lambda>oas. (oas, delay)) (relativeComplement as trAs));
                    Some ((intersection as trAs, scale delay tr) # ys)
                  });
          ys \<leftarrow> new_delays scale trRates es';
          Some (xs @ ys)
        })"

declare new_delays.simps [code]

definition addExportedParam :: "(u64 \<Rightarrow> 'r \<Rightarrow> u64) \<Rightarrow> 'r ParameterSet \<Rightarrow> 'r ParameterSet \<Rightarrow> 'r ParameterSet option" where
  "addExportedParam scale exportedParam ps =
     do {
       b \<leftarrow> merge_container bt_plus (mBlockingTLMEnabledParameter exportedParam) (mBlockingTLMEnabledParameter ps);
       newDelays \<leftarrow> new_delays scale (mApproximateTraversalRateParameter exportedParam) (mApproximateDelayParameter ps);
       let newDelays = defrag (sort_container newDelays);
       d \<leftarrow> merge_container delay_plus (mApproximateDelayParameter exportedParam) newDelays;
       Some (ps\<lparr>mBlockingTLMEnabledParameter := b, mApproximateDelayParameter := d\<rparr>)
     }"

text \<open>Restriction to an ordered set of ranges.\<close>

fun trim_entry :: "AddrSpace \<times> 'v \<Rightarrow> AddrSpace list \<Rightarrow> 'v container" where
  "trim_entry p [] = []"
| "trim_entry p (as # restriction) =
     (if intersect (fst p) as then (intersection (fst p) as, snd p) # trim_entry p restriction
      else if mBaseAddress as > mEndAddress (fst p) then []
      else trim_entry p restriction)"

definition trim_container :: "AddrSpace list \<Rightarrow> 'v container \<Rightarrow> 'v container" where
  "trim_container restriction pc = defrag (sort_container (concat (map (\<lambda>p. trim_entry p restriction) pc)))"

definition trim :: "AddrSpace list \<Rightarrow> 'r ParameterSet \<Rightarrow> 'r ParameterSet" where
  "trim restriction ps =
     \<lparr>mBlockingTLMEnabledParameter = trim_container restriction (mBlockingTLMEnabledParameter ps),
      mApproximateDelayParameter = trim_container restriction (mApproximateDelayParameter ps),
      mApproximateTraversalRateParameter = trim_container restriction (mApproximateTraversalRateParameter ps)\<rparr>"

definition equalHelper :: "'v container \<Rightarrow> 'v container \<Rightarrow> bool" where
  "equalHelper a b \<longleftrightarrow> length a = length b \<and> list_all (\<lambda>(e, f). fst e = fst f \<and> snd e = snd f) (zip a b)"

definition ParameterSet_equal :: "'r ParameterSet \<Rightarrow> 'r ParameterSet \<Rightarrow> bool" where
  "ParameterSet_equal this that \<longleftrightarrow>
     equalHelper (mBlockingTLMEnabledParameter this) (mBlockingTLMEnabledParameter that) \<and>
     equalHelper (mApproximateDelayParameter this) (mApproximateDelayParameter that) \<and>
     equalHelper (mApproximateTraversalRateParameter this) (mApproximateTraversalRateParameter that)"

text \<open>
  The query for a whole range. The iterator advances before each recursive call, also for the second piece of the
  range, and must not pass the end.
\<close>

fun blocking_in :: "BlockingTLMEnabled \<Rightarrow> BlockingTLMEnabled container \<Rightarrow> AddrSpace \<Rightarrow> BlockingTLMEnabled option" where
  "blocking_in dflt [] as = Some dflt"
| "blocking_in dflt (p # pc) as =
     (if intersect as (fst p) then
        (let acc = bt_plus BT_DISABLED (snd p) in
         if bool_of_bt acc then Some acc
         else (case relativeComplement as (fst p) of
             [] \<Rightarrow> Some acc
           | [a] \<Rightarrow> map_option (bt_plus acc) (blocking_in dflt pc a)
           | a # b # _ \<Rightarrow> do {
               x \<leftarrow> blocking_in dflt pc a;
               _ \<leftarrow> cassert (pc \<noteq> []);
               y \<leftarrow> blocking_in dflt (tl pc) b;
               Some (bt_plus (bt_plus acc x) y)
             }))
      else if mEndAddress as < mBaseAddress (fst p) then Some dflt
      else blocking_in dflt pc as)"

definition getParameterValForAddrSpace :: "BlockingTLMEnabled \<Rightarrow> BlockingTLMEnabled container \<Rightarrow> AddrSpace \<Rightarrow> BlockingTLMEnabled option" where
  "getParameterValForAddrSpace dflt pc addr = blocking_in dflt pc addr"

end
