(* ===== verification/ParamRefine.thy ===== *)
theory ParamRefine
  imports ParamSet
begin

text \<open>
  The containers of parameters as partial functions: what every operation of a parameter set does to the
  value at an address, that the recursion over conflicting ranges ends, and that the defragmented
  containers are canonical.
\<close>

section \<open>Containers as functions\<close>

definition value_at :: "'v container \<Rightarrow> u64 \<Rightarrow> 'v option" where
  "value_at pc a = map_option snd (find (\<lambda>e. a \<in> covers (fst e)) pc)"

text \<open>The ranges of a container are not empty, do not overlap and are in order.\<close>

definition container_ok :: "'v container \<Rightarrow> bool" where
  "container_ok pc \<longleftrightarrow> list_all (\<lambda>e. wf_space (fst e)) pc \<and>
     sorted_wrt (\<lambda>e f. mEndAddress (fst e) < mBaseAddress (fst f)) pc"

text \<open>The same without the order.\<close>

definition scattered :: "'v container \<Rightarrow> bool" where
  "scattered pc \<longleftrightarrow> (\<forall>e \<in> set pc. wf_space (fst e)) \<and> distinct pc \<and>
     (\<forall>e \<in> set pc. \<forall>f \<in> set pc. e \<noteq> f \<longrightarrow> covers (fst e) \<inter> covers (fst f) = {})"

lemma container_ok_simps [simp]:
  "container_ok []"
  "container_ok (e # pc) \<longleftrightarrow>
     wf_space (fst e) \<and> (\<forall>f \<in> set pc. mEndAddress (fst e) < mBaseAddress (fst f)) \<and> container_ok pc"
  by (auto simp: container_ok_def)

lemma value_at_simps [simp]:
  "value_at [] a = None"
  "value_at (e # pc) a = (if a \<in> covers (fst e) then Some (snd e) else value_at pc a)"
  by (auto simp: value_at_def)

lemma value_at_None: "value_at pc a = None \<longleftrightarrow> (\<forall>e \<in> set pc. a \<notin> covers (fst e))"
  by (induction pc) auto

lemma value_at_Some_mem: "value_at pc a = Some v \<Longrightarrow> \<exists>s. (s, v) \<in> set pc \<and> a \<in> covers s"
  by (induction pc) (force split: if_splits)+

lemma getParameterValue_at:
  "getParameterValue dflt pc a = (case value_at pc a of Some v \<Rightarrow> v | None \<Rightarrow> dflt)"
proof -
  have "(\<lambda>p. mEndAddress (fst p) \<ge> a \<and> mBaseAddress (fst p) \<le> a) = (\<lambda>e :: AddrSpace \<times> 'a. a \<in> covers (fst e))"
    by (auto simp: covers_def)
  then show ?thesis by (simp add: getParameterValue_def value_at_def split: option.split)
qed

lemma ok_scattered: "container_ok pc \<Longrightarrow> scattered pc"
proof (induction pc)
  case (Cons e pc)
  then have far: "\<And>f. f \<in> set pc \<Longrightarrow> mEndAddress (fst e) < mBaseAddress (fst f)" and wf: "wf_space (fst e)" by simp_all
  have "covers (fst e) \<inter> covers (fst f) = {}" if "f \<in> set pc" for f
    using far [OF that] by (auto simp: covers_def)
  moreover have "e \<notin> set pc" using far [of e] wf by (auto simp: wf_space_def)
  ultimately show ?case using Cons by (auto simp: scattered_def)
qed (simp add: scattered_def)

lemma scattered_Cons:
  "scattered (e # es) \<longleftrightarrow> wf_space (fst e) \<and> scattered es \<and> (\<forall>f \<in> set es. covers (fst e) \<inter> covers (fst f) = {})"
proof
  assume sc: "scattered (e # es)"
  then have "wf_space (fst e)" "scattered es" "e \<notin> set es" by (simp_all add: scattered_def)
  moreover have "covers (fst e) \<inter> covers (fst f) = {}" if "f \<in> set es" for f
  proof -
    have "e \<noteq> f" using that \<open>e \<notin> set es\<close> by auto
    then show ?thesis using sc that unfolding scattered_def by simp
  qed
  ultimately show "wf_space (fst e) \<and> scattered es \<and> (\<forall>f \<in> set es. covers (fst e) \<inter> covers (fst f) = {})" by simp
next
  assume r: "wf_space (fst e) \<and> scattered es \<and> (\<forall>f \<in> set es. covers (fst e) \<inter> covers (fst f) = {})"
  then have "e \<notin> set es" by (auto simp: covers_nonempty)
  moreover have "covers (fst x) \<inter> covers (fst y) = {}" if "x \<in> set (e # es)" "y \<in> set (e # es)" "x \<noteq> y" for x y
    using r that unfolding scattered_def set_simps insert_iff by (elim disjE) (simp_all add: Int_commute [of _ "covers (fst e)"])
  ultimately show "scattered (e # es)" using r by (simp add: scattered_def)
qed

lemma value_at_scattered:
  assumes "scattered pc" shows "value_at pc a = Some v \<longleftrightarrow> (\<exists>s. (s, v) \<in> set pc \<and> a \<in> covers s)"
proof
  assume "\<exists>s. (s, v) \<in> set pc \<and> a \<in> covers s"
  then obtain s where s: "(s, v) \<in> set pc" "a \<in> covers s" by blast
  then obtain w where w: "value_at pc a = Some w" using value_at_None [of pc a] by force
  from value_at_Some_mem [OF this] obtain t where t: "(t, w) \<in> set pc" "a \<in> covers t" by blast
  have "(s, v) = (t, w)" using assms s t by (fastforce simp: scattered_def)
  then show "value_at pc a = Some v" using w by simp
qed (rule value_at_Some_mem)

lemma value_at_set_eq:
  assumes "scattered pc" "scattered qc" "set pc = set qc" shows "value_at pc = value_at qc"
proof
  fix a show "value_at pc a = value_at qc a"
    using value_at_scattered [OF assms(1), of a] value_at_scattered [OF assms(2), of a] assms(3)
    by (metis option.exhaust)
qed

lemma sorted_key_container: "sorted_wrt (\<lambda>e f. mBaseAddress (fst e) \<le> mBaseAddress (fst f)) (sort_container pc)"
proof -
  have "sorted (map range_key (sort_container pc))" by (simp add: sort_container_def)
  then have "sorted_wrt (\<lambda>e f. range_key e \<le> range_key f) (sort_container pc)" by (simp add: sorted_map)
  then show ?thesis by (rule sorted_wrt_mono_rel [rotated]) (auto simp: range_key_def less_eq_prod_def)
qed

lemma disjoint_after: "wf_space s \<Longrightarrow> wf_space t \<Longrightarrow> covers s \<inter> covers t = {} \<Longrightarrow> mBaseAddress s \<le> mBaseAddress t \<Longrightarrow> mEndAddress s < mBaseAddress t"
  by (force simp: covers_def wf_space_def Int_atLeastAtMost not_less)

lemma sort_container_ok:
  assumes "scattered pc" shows "container_ok (sort_container pc)"
proof -
  let ?ys = "sort_container pc"
  have set: "set ?ys = set pc" and dist: "distinct ?ys" using assms by (simp_all add: sort_container_def scattered_def)
  have "sorted_wrt (\<lambda>e f. mEndAddress (fst e) < mBaseAddress (fst f)) ?ys"
    unfolding sorted_wrt_iff_nth_less
  proof (intro allI impI)
    fix i j assume ij: "i < j" "j < length ?ys"
    then have "?ys ! i \<noteq> ?ys ! j" using dist by (simp add: nth_eq_iff_index_eq)
    moreover have "?ys ! i \<in> set pc" "?ys ! j \<in> set pc" using ij set by (metis nth_mem order_less_trans)+
    moreover have "mBaseAddress (fst (?ys ! i)) \<le> mBaseAddress (fst (?ys ! j))"
      using sorted_key_container [of pc] ij unfolding sorted_wrt_iff_nth_less by blast
    ultimately show "mEndAddress (fst (?ys ! i)) < mBaseAddress (fst (?ys ! j))"
      using assms by (intro disjoint_after) (auto simp: scattered_def)
  qed
  then show ?thesis using assms set by (auto simp: container_ok_def scattered_def list_all_iff)
qed

lemma value_at_sort:
  assumes "scattered pc" shows "value_at (sort_container pc) = value_at pc"
proof (rule value_at_set_eq)
  show "scattered (sort_container pc)" using ok_scattered [OF sort_container_ok [OF assms]] .
qed (use assms in \<open>simp_all add: sort_container_def\<close>)

section \<open>Conflicts\<close>

lemma take_conflict_None:
  assumes "wf_space as" "\<forall>e \<in> set pc. wf_space (fst e)"
  shows "take_conflict as pc = None \<longleftrightarrow> (\<forall>a \<in> covers as. value_at pc a = None)"
  using assms(2) intersect_iff_overlap [OF _ assms(1)] by (induction pc) (auto simp: value_at_None)

lemma take_conflict_Some:
  "take_conflict as pc = Some (p, r) \<Longrightarrow> intersect (fst p) as \<and> (\<exists>us vs. pc = us @ p # vs \<and> r = us @ vs)"
proof (induction pc arbitrary: r)
  case (Cons e pc)
  show ?case
  proof (cases "intersect (fst e) as")
    case False
    then obtain r' where r': "take_conflict as pc = Some (p, r')" "r = e # r'" using Cons.prems by auto
    with Cons.IH obtain us vs where "intersect (fst p) as" "pc = us @ p # vs" "r' = us @ vs" by blast
    then show ?thesis using r'(2) by (metis append_Cons)
  qed (use Cons.prems in \<open>auto intro: exI [of _ "[]"]\<close>)
qed simp

text \<open>One function laid over another, the values of both combined where both are defined.\<close>

definition overlay :: "('v \<Rightarrow> 'v \<Rightarrow> 'v) \<Rightarrow> ('a \<Rightarrow> 'v option) \<Rightarrow> ('a \<Rightarrow> 'v option) \<Rightarrow> 'a \<Rightarrow> 'v option" where
  "overlay pick f g a =
     (case g a of None \<Rightarrow> f a | Some v \<Rightarrow> Some (case f a of None \<Rightarrow> v | Some u \<Rightarrow> pick u v))"

definition sets_to :: "('v \<Rightarrow> 'v \<Rightarrow> 'v) \<Rightarrow> 'v container \<Rightarrow> 'v container \<Rightarrow> bool" where
  "sets_to pick es pc \<longleftrightarrow>
     (\<exists>pc'. set_each pick es pc = Some pc' \<and> container_ok pc' \<and> value_at pc' = overlay pick (value_at pc) (value_at es))"

lemma set_each_Nil [simp]: "set_each pick [] = Some"
  by (rule ext) (simp add: set_each.simps)

lemma set_each_single:
  "set_each pick [(as, v)] pc =
     (case take_conflict as pc of
        None \<Rightarrow> Some (sort_container (pc @ [(as, v)]))
      | Some ((cur, old), pc) \<Rightarrow>
          set_each pick (map (\<lambda>n. (n, v)) (relativeComplement as cur) @ [(intersection cur as, pick old v)] @
            map (\<lambda>n. (n, old)) (relativeComplement cur as)) pc)"
  by (subst set_each.simps) (simp split: option.split prod.split)

lemma set_each_Cons: "set_each pick (e # es) pc = Option.bind (set_each pick [e] pc) (set_each pick es)"
  by (cases e) (subst set_each.simps, simp add: set_each_single split: option.split prod.split)

lemma set_each_append: "set_each pick (xs @ ys) pc = Option.bind (set_each pick xs pc) (set_each pick ys)"
proof (induction xs arbitrary: pc)
  case (Cons x xs)
  have "set_each pick ((x # xs) @ ys) pc = Option.bind (set_each pick [x] pc) (set_each pick (xs @ ys))"
    unfolding append_Cons by (rule set_each_Cons)
  also have "set_each pick (xs @ ys) = (\<lambda>pc. Option.bind (set_each pick xs pc) (set_each pick ys))" using Cons by blast
  also have "Option.bind (set_each pick [x] pc) \<dots> = Option.bind (Option.bind (set_each pick [x] pc) (set_each pick xs)) (set_each pick ys)"
    by (cases "set_each pick [x] pc") simp_all
  finally show ?case by (simp add: set_each_Cons [of pick x xs pc, symmetric])
qed simp

lemma overlay_Cons:
  assumes "value_at es a = None \<or> a \<notin> covers (fst e)"
  shows "overlay pick (overlay pick f (value_at [e])) (value_at es) a = overlay pick f (value_at (e # es)) a"
  using assms by (auto simp: overlay_def split: option.splits)

lemma overlay_outside: "value_at es a = None \<Longrightarrow> overlay pick f (value_at es) a = f a"
  by (simp add: overlay_def)

text \<open>Setting disjoint ranges one after the other: each step sees on its own range what was there at the start.\<close>

lemma sets_to_list:
  assumes "container_ok pc" "scattered es"
    and "\<And>e qc. e \<in> set es \<Longrightarrow> container_ok qc \<Longrightarrow> (\<And>a. a \<in> covers (fst e) \<Longrightarrow> value_at qc a = value_at pc a) \<Longrightarrow> sets_to pick [e] qc"
  shows "sets_to pick es pc"
  using assms
proof (induction es arbitrary: pc)
  case Nil
  then show ?case by (simp add: sets_to_def overlay_def fun_eq_iff)
next
  case (Cons e es)
  have sc: "scattered es" and apart: "\<And>f a. f \<in> set es \<Longrightarrow> a \<in> covers (fst f) \<Longrightarrow> a \<notin> covers (fst e)"
    using Cons.prems(2) by (auto simp: scattered_def)
  have "sets_to pick [e] pc" using Cons.prems(1,3) by simp
  then obtain qc where qc: "set_each pick [e] pc = Some qc" "container_ok qc" and val: "value_at qc = overlay pick (value_at pc) (value_at [e])"
    by (auto simp: sets_to_def)
  have same: "value_at qc a = value_at pc a" if "f \<in> set es" "a \<in> covers (fst f)" for f a
    using apart [OF that] by (simp add: val overlay_outside)
  have "sets_to pick es qc"
  proof (rule Cons.IH [OF qc(2) sc])
    fix f rc assume f: "f \<in> set es" "container_ok rc" "\<And>a. a \<in> covers (fst f) \<Longrightarrow> value_at rc a = value_at qc a"
    show "sets_to pick [f] rc" by (rule Cons.prems(3)) (use f same in auto)
  qed
  then obtain pc' where pc': "set_each pick es qc = Some pc'" "container_ok pc'" "value_at pc' = overlay pick (value_at qc) (value_at es)"
    by (auto simp: sets_to_def)
  have "value_at es a = None \<or> a \<notin> covers (fst e)" for a using apart by (auto simp: value_at_None)
  then have "value_at pc' = overlay pick (value_at pc) (value_at (e # es))"
    unfolding pc'(3) val by (intro ext overlay_Cons) blast
  then show ?case using pc'(1,2) qc(1) set_each_Cons [of pick e es pc] by (auto simp: sets_to_def)
qed

lemma value_at_append: "value_at (xs @ ys) a = (case value_at xs a of None \<Rightarrow> value_at ys a | Some v \<Rightarrow> Some v)"
  by (induction xs) auto

lemma sets_to_free:
  assumes "container_ok pc" "wf_space as" "\<And>a. a \<in> covers as \<Longrightarrow> value_at pc a = None"
  shows "sets_to pick [(as, v)] pc"
proof -
  note sc = ok_scattered [OF assms(1)]
  have none: "take_conflict as pc = None"
    using take_conflict_None [OF assms(2), of pc] sc assms(3) by (auto simp: scattered_def)
  have apart: "covers (fst e) \<inter> covers as = {}" if "e \<in> set pc" for e
    using assms(3) that by (auto simp: value_at_None)
  have "(as, v) \<notin> set pc" using apart [of "(as, v)"] assms(2) by (auto simp: covers_nonempty)
  then have sc': "scattered (pc @ [(as, v)])" using sc assms(2) apart by (auto simp: scattered_def)
  have "value_at (pc @ [(as, v)]) = overlay pick (value_at pc) (value_at [(as, v)])"
    using assms(3) by (auto simp: fun_eq_iff value_at_append overlay_def split: option.splits)
  then show ?thesis
    using sort_container_ok [OF sc'] value_at_sort [OF sc'] none by (simp add: sets_to_def set_each_single)
qed

lemma value_at_const: "value_at (map (\<lambda>n. (n, v)) ns) a = (if \<exists>n \<in> set ns. a \<in> covers n then Some v else None)"
  by (induction ns) auto

lemma complement_pieces:
  assumes "wf_space s" "wf_space t" "intersect s t"
  shows "\<forall>r \<in> set (relativeComplement s t). wf_space r \<and> covers r \<subset> covers s"
    and "scattered (map (\<lambda>n. (n, v)) (relativeComplement s t))"
    and "value_at (map (\<lambda>n. (n, v)) (relativeComplement s t)) a = (if a \<in> covers s - covers t then Some v else None)"
proof -
  note cov = relativeComplement_covers [OF assms]
  show val: "value_at (map (\<lambda>n. (n, v)) (relativeComplement s t)) a = (if a \<in> covers s - covers t then Some v else None)"
    unfolding value_at_const cov [symmetric] by auto
  have wf: "wf_space r" if "r \<in> set (relativeComplement s t)" for r
    using that by (auto simp: relativeComplement_def covers_nonempty covers_below covers_above simp del: covers_of split: if_splits)
  have "covers s \<inter> covers t \<noteq> {}" using intersect_iff_overlap assms by blast
  then show "\<forall>r \<in> set (relativeComplement s t). wf_space r \<and> covers r \<subset> covers s"
    using wf cov by blast
  have two: "relativeComplement s t = [] \<or> (\<exists>r. relativeComplement s t = [r]) \<or>
      (\<exists>r q. relativeComplement s t = [r, q] \<and> covers r \<inter> covers q = {})"
    using assms(2) by (auto simp: relativeComplement_def covers_below covers_above wf_space_def simp del: covers_of)
  show "scattered (map (\<lambda>n. (n, v)) (relativeComplement s t))"
    using two wf by (auto simp: scattered_def covers_nonempty Int_commute)
qed

lemma intersection_swap: "covers (intersection s t) = covers s \<inter> covers t" if "intersect s t"
  using that by (rule intersection_covers)

lemma ok_remove: "container_ok (us @ p # vs) \<Longrightarrow> container_ok (us @ vs)"
  by (auto simp: container_ok_def sorted_wrt_append)

lemma value_at_remove:
  assumes "scattered (us @ (cur, old) # vs)"
  shows "value_at (us @ vs) a = (if a \<in> covers cur then None else value_at (us @ (cur, old) # vs) a)"
    and "a \<in> covers cur \<Longrightarrow> value_at (us @ (cur, old) # vs) a = Some old"
proof -
  have "value_at (us @ vs) a = None" if "a \<in> covers cur"
    using assms that unfolding scattered_def value_at_None by fastforce
  then show "value_at (us @ vs) a = (if a \<in> covers cur then None else value_at (us @ (cur, old) # vs) a)"
    by (auto simp: value_at_append split: option.split)
  show "a \<in> covers cur \<Longrightarrow> value_at (us @ (cur, old) # vs) a = Some old"
    using value_at_scattered [OF assms, of a old] by auto
qed

text \<open>
  Setting one range: the recursion ends because the pieces of the new range are smaller, and the other pieces are
  free once the conflicting entry is gone.
\<close>

lemma sets_to_single:
  fixes pc :: "'v container"
  assumes "container_ok pc" "wf_space as"
  shows "sets_to pick [(as, v)] pc"
  using assms
proof (induction "card (covers as)" arbitrary: as v pc rule: less_induct)
  case less
  show ?case
  proof (cases "take_conflict as pc")
    case None
    then show ?thesis using sets_to_free [OF less.prems] take_conflict_None [OF less.prems(2), of pc] ok_scattered [OF less.prems(1)]
      by (auto simp: scattered_def)
  next
    case (Some x)
    obtain cur old r where x: "x = ((cur, old), r)" by (metis prod.collapse)
    obtain us vs where pc: "pc = us @ (cur, old) # vs" and r: "r = us @ vs" and hit: "intersect cur as"
      using take_conflict_Some [OF Some [unfolded x]] by auto
    note sc = ok_scattered [OF less.prems(1), unfolded pc]
    have wf: "wf_space cur" using sc by (simp add: scattered_def)
    have hit': "intersect as cur" using hit by (auto simp: intersect_def)
    have ok: "container_ok r" using ok_remove less.prems(1) by (auto simp: pc r)
    let ?news = "map (\<lambda>n. (n, v)) (relativeComplement as cur)" and ?olds = "map (\<lambda>n. (n, old)) (relativeComplement cur as)"
    let ?rest = "(intersection cur as, pick old v) # ?olds"
    note new = complement_pieces [OF less.prems(2) wf hit'] and old = complement_pieces [OF wf less.prems(2) hit]
    have "sets_to pick ?news r"
    proof (rule sets_to_list [OF ok new(2)])
      fix e and qc :: "'v container" assume e: "e \<in> set ?news" "container_ok qc"
      then obtain n where n: "e = (n, v)" "wf_space n" "covers n \<subset> covers as" using new(1) by auto
      then show "sets_to pick [e] qc"
        using less.hyps [of n qc v] e(2) by (simp add: psubset_card_mono covers_def)
    qed
    then obtain pc1 where pc1: "set_each pick ?news r = Some pc1" "container_ok pc1"
      and val1: "value_at pc1 = overlay pick (value_at r) (value_at ?news)" by (auto simp: sets_to_def)
    have free: "value_at pc1 a = None" if "a \<in> covers cur" for a
      using value_at_remove(1) [OF sc, of a] that by (simp add: val1 overlay_def new(3) r)
    have sub: "wf_space (fst e) \<and> covers (fst e) \<subseteq> covers cur" if "e \<in> set ?rest" for e
      using that old(1) intersect_iff_overlap [OF wf less.prems(2)] hit
      by (auto simp: intersection_swap [OF hit] covers_nonempty)
    have "covers n \<subseteq> covers cur - covers as" if "n \<in> set (relativeComplement cur as)" for n
      using relativeComplement_covers [OF wf less.prems(2) hit] that by blast
    then have "covers (intersection cur as) \<inter> covers (fst f) = {}" if "f \<in> set ?olds" for f
      using that unfolding intersection_swap [OF hit] by fastforce
    moreover have "wf_space (intersection cur as)" using sub [of "(intersection cur as, pick old v)"] by simp
    ultimately have scr: "scattered ?rest" using old(2) by (simp add: scattered_Cons)
    have "sets_to pick ?rest pc1"
    proof (rule sets_to_list [OF pc1(2) scr])
      fix e qc assume e: "e \<in> set ?rest" "container_ok qc" and same: "\<And>a. a \<in> covers (fst e) \<Longrightarrow> value_at qc a = value_at pc1 a"
      have "value_at qc a = None" if "a \<in> covers (fst e)" for a using same [OF that] free sub [OF e(1)] that by auto
      then show "sets_to pick [e] qc" using sets_to_free [OF e(2), of "fst e" pick "snd e"] sub [OF e(1)] by simp
    qed
    then obtain pc2 where pc2: "set_each pick ?rest pc1 = Some pc2" "container_ok pc2"
      and val2: "value_at pc2 = overlay pick (value_at pc1) (value_at ?rest)" by (auto simp: sets_to_def)
    have "set_each pick [(as, v)] pc = Some pc2"
      using pc1(1) pc2(1) set_each_append [of pick ?news ?rest r] by (simp add: set_each_single Some x)
    moreover have "value_at pc2 = overlay pick (value_at pc) (value_at [(as, v)])"
      using value_at_remove [OF sc]
      by (auto simp: fun_eq_iff val2 val1 overlay_def new(3) old(3) intersection_swap [OF hit] r pc split: option.splits)
    ultimately show ?thesis using pc2(2) by (auto simp: sets_to_def)
  qed
qed

lemma sets_to_scattered: "container_ok pc \<Longrightarrow> scattered es \<Longrightarrow> sets_to pick es pc"
proof (rule sets_to_list)
  fix e and qc :: "'a container" assume "scattered es" "e \<in> set es" "container_ok qc"
  then show "sets_to pick [e] qc" using sets_to_single [of qc "fst e" pick "snd e"] by (simp add: scattered_def)
qed

section \<open>Defragmentation\<close>

lemma covers_joined:
  assumes "wf_space s" "wf_space t" "mEndAddress s < mBaseAddress t" "mEndAddress s + 1 = mBaseAddress t"
  shows "covers (AddrSpace_of (mBaseAddress s) (mEndAddress t)) = covers s \<union> covers t"
proof -
  have above: "mBaseAddress t \<le> x \<longleftrightarrow> mEndAddress s < x" for x
    using word_succ_le_iff [OF assms(3), of x] assms(4) by simp
  show ?thesis
  proof (rule set_eqI)
    fix x
    show "x \<in> covers (AddrSpace_of (mBaseAddress s) (mEndAddress t)) \<longleftrightarrow> x \<in> covers s \<union> covers t"
      using assms(1-3) above [of x] by (cases "mEndAddress s < x") (auto simp: covers_def wf_space_def AddrSpace_of_def)
  qed
qed

lemma merge_first_value:
  assumes "container_ok pc" "merge_first pc = Some pc'"
  shows "container_ok pc' \<and> value_at pc' = value_at pc \<and> (mBaseAddress \<circ> fst) ` set pc' \<subseteq> (mBaseAddress \<circ> fst) ` set pc"
  using assms
proof (induction pc arbitrary: pc' rule: merge_first.induct)
  case (1 e1 e2 pc)
  show ?case
  proof (cases "mEndAddress (fst e1) + 1 = mBaseAddress (fst e2) \<and> snd e1 = snd e2")
    case True
    have lt: "wf_space (fst e1)" "wf_space (fst e2)" "mEndAddress (fst e1) < mBaseAddress (fst e2)" using "1.prems"(1) by simp_all
    define j where "j = (AddrSpace_of (mBaseAddress (fst e1)) (mEndAddress (fst e2)), snd e1)"
    have pc': "pc' = j # pc" using "1.prems"(2) True by (simp add: j_def)
    have ends: "mBaseAddress (fst j) = mBaseAddress (fst e1)" "mEndAddress (fst j) = mEndAddress (fst e2)" "snd j = snd e1"
      by (simp_all add: j_def AddrSpace_of_def)
    have join: "covers (fst j) = covers (fst e1) \<union> covers (fst e2)" using covers_joined [OF lt] True by (simp add: j_def)
    have wf: "wf_space (fst j)" using lt ends by (auto simp: wf_space_def)
    have "container_ok pc'" using wf ends(2) "1.prems"(1) by (simp add: pc')
    moreover have "value_at pc' = value_at (e1 # e2 # pc)" by (rule ext) (use True in \<open>simp add: pc' join ends(3)\<close>)
    moreover have "(mBaseAddress \<circ> fst) ` set pc' \<subseteq> (mBaseAddress \<circ> fst) ` set (e1 # e2 # pc)" using ends(1) by (auto simp: pc')
    ultimately show ?thesis by blast
  next
    case False
    then obtain qc where qc: "merge_first (e2 # pc) = Some qc" "pc' = e1 # qc" using "1.prems"(2) by auto
    have "container_ok (e2 # pc)" using "1.prems"(1) by simp
    from "1.IH" [OF False this qc(1)] have ih: "container_ok qc" "value_at qc = value_at (e2 # pc)"
      "(mBaseAddress \<circ> fst) ` set qc \<subseteq> (mBaseAddress \<circ> fst) ` set (e2 # pc)" by blast+
    have "mEndAddress (fst e1) < mBaseAddress (fst f)" if "f \<in> set qc" for f using ih(3) that "1.prems"(1) by fastforce
    moreover have "value_at pc' = value_at (e1 # e2 # pc)" using ih(2) by (simp add: qc(2) fun_eq_iff del: value_at_simps(2)) (simp add: ih(2))
    ultimately show ?thesis using ih(1,3) "1.prems"(1) by (auto simp: qc(2))
  qed
qed simp_all

lemma defrag_value: "container_ok pc \<Longrightarrow> container_ok (defrag pc) \<and> value_at (defrag pc) = value_at pc \<and> merge_first (defrag pc) = None"
proof (induction pc rule: defrag.induct)
  case (1 pc)
  then show ?case
    by (cases "merge_first pc") (simp_all add: defrag.simps [of pc], metis merge_first_value)
qed

text \<open>A defragmented container is determined by the function it stands for.\<close>

lemma head_value:
  assumes "container_ok (e # pc)"
  shows "value_at (e # pc) (mBaseAddress (fst e)) = Some (snd e)"
    and "x < mBaseAddress (fst e) \<Longrightarrow> value_at (e # pc) x = None"
proof -
  show "value_at (e # pc) (mBaseAddress (fst e)) = Some (snd e)" using assms by (simp add: covers_def wf_space_def)
  assume "x < mBaseAddress (fst e)"
  moreover have "mBaseAddress (fst e) \<le> mBaseAddress (fst f)" if "f \<in> set pc" for f
    using assms that by (force simp: wf_space_def)
  ultimately show "value_at (e # pc) x = None" by (force simp: value_at_None covers_def)
qed

lemma canonical_head_end:
  assumes "container_ok (e # pc)" "container_ok (f # qc)" "merge_first (e # pc) = None"
    and same: "value_at (e # pc) = value_at (f # qc)" "mBaseAddress (fst e) = mBaseAddress (fst f)"
  shows "mEndAddress (fst f) \<le> mEndAddress (fst e)"
proof (rule ccontr)
  assume "\<not> ?thesis"
  then have lt: "mEndAddress (fst e) < mEndAddress (fst f)" by simp
  define x where "x = mEndAddress (fst e) + 1"
  have x: "y < x \<longleftrightarrow> y \<le> mEndAddress (fst e)" for y
    using word_succ_le_iff [OF lt, of y] by (auto simp: x_def not_less [symmetric])
  have xf: "x \<in> covers (fst f)"
    using lt word_succ_le_iff [OF lt, of "mEndAddress (fst f)"] assms(1) same(2) x [of "mBaseAddress (fst f)"]
    by (auto simp: covers_def x_def wf_space_def)
  have "snd e = snd f" using head_value(1) [OF assms(1)] head_value(1) [OF assms(2)] same by simp
  then have val: "value_at (e # pc) x = Some (snd e)" using same(1) xf by simp
  have notin: "x \<notin> covers (fst e)" using x [of x] by (auto simp: covers_def)
  then obtain g gs where pc: "pc = g # gs" using val by (cases pc) auto
  have gx: "x \<le> mBaseAddress (fst g)" using assms(1) x [of "mBaseAddress (fst g)"] by (auto simp: pc not_less [symmetric])
  have okg: "container_ok (g # gs)" using assms(1) by (simp add: pc)
  have "value_at (g # gs) x = Some (snd e)" using val notin by (simp add: pc)
  then have "\<not> x < mBaseAddress (fst g)" using head_value(2) [OF okg, of x] by auto
  then have "mBaseAddress (fst g) = x" using gx by simp
  moreover from this have "snd g = snd e" using head_value(1) [OF okg] \<open>value_at (g # gs) x = Some (snd e)\<close> by simp
  ultimately show False using assms(3) by (simp add: pc x_def)
qed

lemma merge_first_tail: "merge_first (e # pc) = None \<Longrightarrow> merge_first pc = None"
  by (cases pc) (auto split: if_splits)

lemma canonical_eq:
  assumes "container_ok pc" "container_ok qc" "merge_first pc = None" "merge_first qc = None" "value_at pc = value_at qc"
  shows "pc = qc"
  using assms
proof (induction pc arbitrary: qc)
  case Nil
  show ?case
  proof (cases qc)
    case (Cons f rc)
    then show ?thesis using head_value(1) [of f rc] fun_cong [OF Nil.prems(5), of "mBaseAddress (fst f)"] Nil.prems(2) by simp
  qed simp
next
  case (Cons e pc)
  have "value_at qc (mBaseAddress (fst e)) = Some (snd e)" using head_value(1) [OF Cons.prems(1)] by (simp only: Cons.prems(5))
  then obtain f rc where qc: "qc = f # rc" by (cases qc) auto
  note ok = Cons.prems(1) Cons.prems(2) [unfolded qc] and same = Cons.prems(5) [unfolded qc]
  have base: "mBaseAddress (fst e) = mBaseAddress (fst f)"
  proof (rule linorder_cases [of "mBaseAddress (fst e)" "mBaseAddress (fst f)"])
    assume "mBaseAddress (fst e) < mBaseAddress (fst f)"
    from head_value(2) [OF ok(2) this] show ?thesis using head_value(1) [OF ok(1)] same by simp
  next
    assume "mBaseAddress (fst f) < mBaseAddress (fst e)"
    from head_value(2) [OF ok(1) this] show ?thesis using head_value(1) [OF ok(2)] same by simp
  qed
  have "mEndAddress (fst e) = mEndAddress (fst f)"
    using canonical_head_end [OF ok Cons.prems(3) same base] canonical_head_end [OF ok(2,1) _ same [symmetric] base [symmetric]] Cons.prems(4)
    by (simp add: qc order_antisym)
  then have "fst e = fst f" using base by (cases "fst e"; cases "fst f") simp
  moreover have "snd e = snd f" using head_value(1) [OF ok(1)] head_value(1) [OF ok(2)] same base by simp
  ultimately have ef: "e = f" by (simp add: prod_eq_iff)
  have "value_at pc = value_at rc"
  proof
    fix a
    have "value_at pc a = None" "value_at rc a = None" if "a \<in> covers (fst e)"
      using ok that unfolding ef value_at_None container_ok_simps by (fastforce simp: covers_def)+
    then show "value_at pc a = value_at rc a" using fun_cong [OF same, of a] by (cases "a \<in> covers (fst e)") (simp_all add: ef)
  qed
  moreover have "merge_first pc = None" "merge_first rc = None"
    using merge_first_tail [OF Cons.prems(3)] merge_first_tail [OF Cons.prems(4) [unfolded qc]] .
  ultimately have "pc = rc" using Cons.IH [of rc] ok by simp
  then show ?case by (simp add: qc ef)
qed

section \<open>Traversal rates\<close>

lemma scattered_append:
  assumes "scattered xs" "scattered ys" "\<And>a. value_at xs a = None \<or> value_at ys a = None"
  shows "scattered (xs @ ys)"
  using assms(1,3)
proof (induction xs)
  case (Cons e xs)
  have "covers (fst e) \<inter> covers (fst f) = {}" if "f \<in> set ys" for f
    using Cons.prems(2) that by (fastforce simp: value_at_None split: if_splits)
  moreover have "value_at xs a = None \<or> value_at ys a = None" for a
    using Cons.prems(1) Cons.prems(2) [of a] by (fastforce simp: scattered_Cons value_at_None split: if_splits)
  ultimately show ?case using Cons by (auto simp: scattered_Cons)
qed (use assms(2) in simp)

definition scaled :: "('d \<Rightarrow> 'r \<Rightarrow> 'd) \<Rightarrow> (u64 \<Rightarrow> 'r option) \<Rightarrow> (u64 \<Rightarrow> 'd option) \<Rightarrow> u64 \<Rightarrow> 'd option" where
  "scaled scale r f a =
     (case f a of None \<Rightarrow> None | Some d \<Rightarrow> Some (case r a of None \<Rightarrow> d | Some t \<Rightarrow> scale d t))"

definition scales_to :: "('d \<Rightarrow> 'r \<Rightarrow> 'd) \<Rightarrow> 'r container \<Rightarrow> 'd container \<Rightarrow> bool" where
  "scales_to scale rates es \<longleftrightarrow>
     (\<exists>xs. new_delays scale rates es = Some xs \<and> scattered xs \<and> value_at xs = scaled scale (value_at rates) (value_at es))"

lemma new_delays_Nil [simp]: "new_delays scale rates [] = Some []"
  by (simp add: new_delays.simps)

lemma new_delays_single:
  "new_delays scale rates [(as, d)] =
     (case find (\<lambda>t. intersect as (fst t)) rates of
        None \<Rightarrow> Some [(as, d)]
      | Some (t, r) \<Rightarrow> map_option ((#) (intersection as t, scale d r)) (new_delays scale rates (map (\<lambda>n. (n, d)) (relativeComplement as t))))"
  by (subst new_delays.simps) (auto split: option.split prod.split bind_splits)

lemma new_delays_Cons:
  "new_delays scale rates (e # es) =
     Option.bind (new_delays scale rates [e]) (\<lambda>xs. map_option ((@) xs) (new_delays scale rates es))"
  by (cases e) (subst new_delays.simps, simp add: new_delays_single map_conv_bind_option comp_def split: option.split prod.split)

lemma scaled_None: "scaled scale r f a = None \<longleftrightarrow> f a = None"
  by (simp add: scaled_def split: option.split)

lemma scales_to_list:
  assumes "scattered es" and "\<And>e. e \<in> set es \<Longrightarrow> scales_to scale rates [e]"
  shows "scales_to scale rates es"
  using assms
proof (induction es)
  case Nil
  then show ?case by (simp add: scales_to_def scaled_def fun_eq_iff)
next
  case (Cons e es)
  have apart: "value_at es a = None \<or> a \<notin> covers (fst e)" for a
    using Cons.prems(1) by (auto simp: scattered_Cons value_at_None)
  have "scales_to scale rates es" "scales_to scale rates [e]" using Cons by (simp_all add: scattered_Cons)
  then obtain xs ys where xs: "new_delays scale rates [e] = Some xs" "scattered xs" "value_at xs = scaled scale (value_at rates) (value_at [e])"
    and ys: "new_delays scale rates es = Some ys" "scattered ys" "value_at ys = scaled scale (value_at rates) (value_at es)"
    by (auto simp: scales_to_def)
  have "scattered (xs @ ys)"
    using xs(2) ys(2) apart by (intro scattered_append) (auto simp: xs(3) ys(3) scaled_None)
  moreover have "value_at (xs @ ys) = scaled scale (value_at rates) (value_at (e # es))"
    using apart by (auto simp: fun_eq_iff value_at_append xs(3) ys(3) scaled_def split: option.splits)
  moreover have "new_delays scale rates (e # es) = Some (xs @ ys)"
    using new_delays_Cons [of scale rates e es] xs(1) ys(1) by simp
  ultimately show ?case by (auto simp: scales_to_def)
qed

lemma find_conflict:
  assumes "find (\<lambda>t. intersect as (fst t)) rates = Some (t, r)" shows "(t, r) \<in> set rates" "intersect as t"
  using assms by (auto simp: find_Some_iff) (metis fst_conv)

lemma scales_to_single:
  assumes "scattered rates" "wf_space as"
  shows "scales_to scale rates [(as, d)]"
  using assms(2)
proof (induction "card (covers as)" arbitrary: as rule: less_induct)
  case less
  have wfr: "wf_space t" if "(t, r) \<in> set rates" for t r using assms(1) that by (force simp: scattered_def)
  show ?case
  proof (cases "find (\<lambda>t. intersect as (fst t)) rates")
    case None
    then have "value_at rates a = None" if "a \<in> covers as" for a
      using that intersect_iff_overlap [OF less.prems wfr] by (fastforce simp: find_None_iff value_at_None)
    then show ?thesis using less.prems
      by (auto simp: scales_to_def new_delays_single None scattered_def scaled_def fun_eq_iff)
  next
    case (Some x)
    obtain t r where x: "x = (t, r)" by (cases x)
    note hit = find_conflict [OF Some [unfolded x]]
    have wf: "wf_space t" using wfr hit(1) by blast
    note pieces = complement_pieces [OF less.prems wf hit(2)]
    let ?es = "map (\<lambda>n. (n, d)) (relativeComplement as t)"
    have "scales_to scale rates ?es"
    proof (rule scales_to_list [OF pieces(2)])
      fix e assume "e \<in> set ?es"
      then obtain n where "e = (n, d)" "wf_space n" "covers n \<subset> covers as" using pieces(1) by auto
      then show "scales_to scale rates [e]" using less.hyps [of n] by (simp add: psubset_card_mono covers_def)
    qed
    then obtain ys where ys: "new_delays scale rates ?es = Some ys" "scattered ys"
      "value_at ys = scaled scale (value_at rates) (value_at ?es)" by (auto simp: scales_to_def)
    let ?e = "(intersection as t, scale d r)"
    have cov: "covers (fst ?e) = covers as \<inter> covers t" by (simp add: intersection_covers [OF hit(2)])
    have "wf_space (fst ?e)" using intersect_iff_overlap [OF less.prems wf] hit(2) by (simp add: covers_nonempty cov [simplified])
    moreover have "value_at ys a = None" if "a \<in> covers t" for a using that by (simp add: ys(3) scaled_None pieces(3))
    then have "covers (fst ?e) \<inter> covers (fst f) = {}" if "f \<in> set ys" for f using that unfolding cov value_at_None by blast
    ultimately have "scattered (?e # ys)" using ys(2) by (simp add: scattered_Cons)
    moreover have "value_at rates a = Some r" if "a \<in> covers t" for a using value_at_scattered [OF assms(1)] hit(1) that by blast
    then have "value_at (?e # ys) = scaled scale (value_at rates) (value_at [(as, d)])"
      using cov by (auto simp: fun_eq_iff ys(3) scaled_def pieces(3) split: option.splits)
    moreover have "new_delays scale rates [(as, d)] = Some (?e # ys)" by (simp add: new_delays_single Some x ys(1))
    ultimately show ?thesis unfolding scales_to_def by blast
  qed
qed

lemma scales_to_all: "scattered rates \<Longrightarrow> scattered es \<Longrightarrow> scales_to scale rates es"
proof (rule scales_to_list)
  fix e :: "AddrSpace \<times> 'b" assume "scattered rates" "scattered es" "e \<in> set es"
  then show "scales_to scale rates [e]" using scales_to_single [of rates "fst e" scale "snd e"] by (simp add: scattered_def)
qed

section \<open>Restriction\<close>

definition spaces_ok :: "AddrSpace list \<Rightarrow> bool" where
  "spaces_ok rs \<longleftrightarrow> list_all wf_space rs \<and> sorted_wrt (\<lambda>r s. mEndAddress r < mBaseAddress s) rs"

definition allows :: "AddrSpace list \<Rightarrow> u64 \<Rightarrow> bool" where
  "allows rs a \<longleftrightarrow> (\<exists>r \<in> set rs. a \<in> covers r)"

lemma trim_entry_pieces:
  assumes "wf_space (fst p)" "spaces_ok rs"
  shows "scattered (trim_entry p rs) \<and>
    value_at (trim_entry p rs) = (\<lambda>a. if a \<in> covers (fst p) \<and> allows rs a then Some (snd p) else None)"
  using assms(2)
proof (induction rs)
  case Nil
  then show ?case by (simp add: scattered_def allows_def fun_eq_iff)
next
  case (Cons r rs)
  have wf: "wf_space r" and ok: "spaces_ok rs" and later: "\<And>s. s \<in> set rs \<Longrightarrow> mEndAddress r < mBaseAddress s"
    using Cons.prems by (auto simp: spaces_ok_def)
  note ih = Cons.IH [OF ok]
  have apart: "covers r \<inter> covers s = {}" if "s \<in> set rs" for s using later [OF that] by (auto simp: covers_def)
  consider (hit) "intersect (fst p) r" | (past) "\<not> intersect (fst p) r" "mEndAddress (fst p) < mBaseAddress r"
    | (miss) "\<not> intersect (fst p) r" "\<not> mEndAddress (fst p) < mBaseAddress r" by blast
  then show ?case
  proof cases
    case hit
    note cov = intersection_covers [OF hit]
    have "wf_space (intersection (fst p) r)" using intersect_iff_overlap [OF assms(1) wf] hit by (simp add: covers_nonempty cov)
    moreover have "covers (intersection (fst p) r) \<inter> covers (fst f) = {}" if "f \<in> set (trim_entry p rs)" for f
    proof -
      have "value_at (trim_entry p rs) a \<noteq> None" if "a \<in> covers (fst f)" for a
        using \<open>f \<in> set (trim_entry p rs)\<close> that by (auto simp: value_at_None)
      then have "allows rs a" if "a \<in> covers (fst f)" for a using that ih by (metis (mono_tags, lifting))
      then show ?thesis using apart unfolding cov allows_def by blast
    qed
    ultimately have "scattered (trim_entry p (r # rs))" using hit ih by (simp add: scattered_Cons)
    moreover have "value_at (trim_entry p (r # rs)) = (\<lambda>a. if a \<in> covers (fst p) \<and> allows (r # rs) a then Some (snd p) else None)"
      using hit ih cov by (auto simp: fun_eq_iff allows_def)
    ultimately show ?thesis by blast
  next
    case past
    have "\<not> (a \<in> covers (fst p) \<and> allows (r # rs) a)" for a
    proof
      assume a: "a \<in> covers (fst p) \<and> allows (r # rs) a"
      then obtain s where s: "s \<in> set (r # rs)" "a \<in> covers s" by (auto simp: allows_def)
      have "mBaseAddress r \<le> mBaseAddress s" using s(1) later wf by (force simp: wf_space_def)
      then show False using a s(2) past(2) by (auto simp: covers_def)
    qed
    then show ?thesis using past by (simp add: scattered_def fun_eq_iff)
  next
    case miss
    have "covers (fst p) \<inter> covers r = {}" using intersect_iff_overlap [OF assms(1) wf] miss(1) by blast
    then show ?thesis using miss ih by (auto simp: fun_eq_iff allows_def)
  qed
qed

lemma trim_concat:
  assumes "scattered pc" "spaces_ok rs"
  shows "scattered (concat (map (\<lambda>p. trim_entry p rs) pc)) \<and>
    value_at (concat (map (\<lambda>p. trim_entry p rs) pc)) = (\<lambda>a. if allows rs a then value_at pc a else None)"
  using assms(1)
proof (induction pc)
  case Nil
  then show ?case by (simp add: scattered_def fun_eq_iff)
next
  case (Cons p pc)
  have sc: "scattered pc" "wf_space (fst p)" and apart: "value_at pc a = None \<or> a \<notin> covers (fst p)" for a
    using Cons.prems by (auto simp: scattered_Cons value_at_None)
  note ih = Cons.IH [OF sc(1)] and one = trim_entry_pieces [OF sc(2) assms(2)]
  have "scattered (trim_entry p rs @ concat (map (\<lambda>p. trim_entry p rs) pc))"
    using ih one apart by (intro scattered_append) auto
  moreover have "value_at (trim_entry p rs @ concat (map (\<lambda>p. trim_entry p rs) pc)) = (\<lambda>a. if allows rs a then value_at (p # pc) a else None)"
    using apart by (auto simp: fun_eq_iff value_at_append ih one split: option.splits)
  ultimately show ?case by simp
qed

section \<open>Parameter sets\<close>

definition canonical :: "'v container \<Rightarrow> bool" where
  "canonical pc \<longleftrightarrow> container_ok pc \<and> merge_first pc = None"

definition set_ok :: "'r ParameterSet \<Rightarrow> bool" where
  "set_ok ps \<longleftrightarrow> container_ok (mBlockingTLMEnabledParameter ps) \<and> container_ok (mApproximateDelayParameter ps) \<and>
     container_ok (mApproximateTraversalRateParameter ps)"

lemma sort_defrag:
  assumes "scattered pc"
  shows "canonical (defrag (sort_container pc)) \<and> value_at (defrag (sort_container pc)) = value_at pc"
  using defrag_value [OF sort_container_ok [OF assms]] value_at_sort [OF assms] by (simp add: canonical_def)

lemma merge_container_value:
  assumes "container_ok from" "container_ok to"
  shows "\<exists>pc. merge_container pick from to = Some pc \<and> canonical pc \<and> value_at pc = overlay pick (value_at to) (value_at from)"
proof -
  obtain pc where "set_each pick from to = Some pc" "container_ok pc" "value_at pc = overlay pick (value_at to) (value_at from)"
    using sets_to_scattered [OF assms(2) ok_scattered [OF assms(1)], of pick] by (auto simp: sets_to_def)
  then show ?thesis using defrag_value [of pc] by (auto simp: merge_container_def canonical_def)
qed

lemma canonical_ok: "canonical pc \<Longrightarrow> container_ok pc"
  by (simp add: canonical_def)

lemma addExportedParam_value:
  assumes "set_ok own" and "set_ok ps"
  shows "\<exists>r. addExportedParam scale own ps = Some r \<and> set_ok r \<and>
    value_at (mBlockingTLMEnabledParameter r) =
      overlay bt_plus (value_at (mBlockingTLMEnabledParameter ps)) (value_at (mBlockingTLMEnabledParameter own)) \<and>
    value_at (mApproximateDelayParameter r) =
      overlay (+) (scaled scale (value_at (mApproximateTraversalRateParameter own)) (value_at (mApproximateDelayParameter ps)))
        (value_at (mApproximateDelayParameter own))"
proof -
  obtain b where b: "merge_container bt_plus (mBlockingTLMEnabledParameter own) (mBlockingTLMEnabledParameter ps) = Some b" "canonical b"
    "value_at b = overlay bt_plus (value_at (mBlockingTLMEnabledParameter ps)) (value_at (mBlockingTLMEnabledParameter own))"
    using merge_container_value [of "mBlockingTLMEnabledParameter own" "mBlockingTLMEnabledParameter ps" bt_plus] assms by (auto simp: set_ok_def)
  have "scales_to scale (mApproximateTraversalRateParameter own) (mApproximateDelayParameter ps)"
    using assms by (intro scales_to_all ok_scattered) (simp_all add: set_ok_def)
  then obtain xs where xs: "new_delays scale (mApproximateTraversalRateParameter own) (mApproximateDelayParameter ps) = Some xs" "scattered xs"
    "value_at xs = scaled scale (value_at (mApproximateTraversalRateParameter own)) (value_at (mApproximateDelayParameter ps))"
    by (auto simp: scales_to_def)
  note nd = sort_defrag [OF xs(2)]
  have plus: "delay_plus = (+)" by (simp add: fun_eq_iff delay_plus_def)
  obtain d where d: "merge_container delay_plus (mApproximateDelayParameter own) (defrag (sort_container xs)) = Some d" "canonical d"
    "value_at d = overlay delay_plus (value_at xs) (value_at (mApproximateDelayParameter own))"
    using merge_container_value [of "mApproximateDelayParameter own" "defrag (sort_container xs)" delay_plus] nd assms
    by (auto simp: set_ok_def canonical_def)
  have "set_ok (ps\<lparr>mBlockingTLMEnabledParameter := b, mApproximateDelayParameter := d\<rparr>)"
    using b(2) d(2) assms by (simp add: set_ok_def canonical_def)
  then show ?thesis using b d xs by (simp add: addExportedParam_def Let_def plus)
qed

lemma trim_container_value:
  assumes "container_ok pc" and "spaces_ok rs"
  shows "canonical (trim_container rs pc) \<and>
    value_at (trim_container rs pc) = (\<lambda>a. if \<exists>r \<in> set rs. a \<in> covers r then value_at pc a else None)"
  using sort_defrag [of "concat (map (\<lambda>p. trim_entry p rs) pc)"] trim_concat [OF ok_scattered [OF assms(1)] assms(2)]
  by (simp add: trim_container_def allows_def)

lemma mergeImportedParam_value:
  assumes "set_ok a" and "set_ok c"
  shows "\<exists>r. mergeImportedParam a c = Some r \<and> set_ok r \<and>
    value_at (mBlockingTLMEnabledParameter r) =
      overlay (max_by bt_less) (value_at (mBlockingTLMEnabledParameter c)) (value_at (mBlockingTLMEnabledParameter a)) \<and>
    value_at (mApproximateDelayParameter r) =
      overlay (max_by delay_less) (value_at (mApproximateDelayParameter c)) (value_at (mApproximateDelayParameter a)) \<and>
    mApproximateTraversalRateParameter r = mApproximateTraversalRateParameter c"
proof -
  obtain b where b: "merge_container (max_by bt_less) (mBlockingTLMEnabledParameter a) (mBlockingTLMEnabledParameter c) = Some b" "canonical b"
    "value_at b = overlay (max_by bt_less) (value_at (mBlockingTLMEnabledParameter c)) (value_at (mBlockingTLMEnabledParameter a))"
    using merge_container_value assms unfolding set_ok_def by meson
  obtain d where d: "merge_container (max_by delay_less) (mApproximateDelayParameter a) (mApproximateDelayParameter c) = Some d" "canonical d"
    "value_at d = overlay (max_by delay_less) (value_at (mApproximateDelayParameter c)) (value_at (mApproximateDelayParameter a))"
    using merge_container_value assms unfolding set_ok_def by meson
  show ?thesis using b d assms(2) by (simp add: mergeImportedParam_def set_ok_def canonical_ok)
qed

text \<open>Combining values of several sources: the order of the sources does not matter when the choice of a value is symmetric.\<close>

locale symmetric_pick =
  fixes pick :: "'v \<Rightarrow> 'v \<Rightarrow> 'v"
  assumes pick_commute: "pick x y = pick y x"
    and pick_assoc: "pick (pick x y) z = pick x (pick y z)"
begin

lemma overlay_swap: "overlay pick (overlay pick f g) h = overlay pick (overlay pick f h) g"
proof
  fix a show "overlay pick (overlay pick f g) h a = overlay pick (overlay pick f h) g a"
    by (cases "f a"; cases "g a"; cases "h a") (simp_all add: overlay_def pick_commute pick_assoc, metis pick_assoc pick_commute)
qed

lemma merge_swap:
  assumes "container_ok a" "container_ok b" "container_ok c"
  shows "\<exists>r. Option.bind (merge_container pick a c) (merge_container pick b) = Some r \<and>
    Option.bind (merge_container pick b c) (merge_container pick a) = Some r \<and> canonical r \<and>
    value_at r = overlay pick (overlay pick (value_at c) (value_at a)) (value_at b)"
proof -
  obtain ac bc where ac: "merge_container pick a c = Some ac" "canonical ac" "value_at ac = overlay pick (value_at c) (value_at a)"
    and bc: "merge_container pick b c = Some bc" "canonical bc" "value_at bc = overlay pick (value_at c) (value_at b)"
    using merge_container_value [OF assms(1,3), of pick] merge_container_value [OF assms(2,3), of pick] by blast
  obtain r s where r: "merge_container pick b ac = Some r" "canonical r" "value_at r = overlay pick (value_at ac) (value_at b)"
    and s: "merge_container pick a bc = Some s" "canonical s" "value_at s = overlay pick (value_at bc) (value_at a)"
    using merge_container_value [OF assms(2) canonical_ok [OF ac(2)], of pick] merge_container_value [OF assms(1) canonical_ok [OF bc(2)], of pick] by blast
  have "value_at r = value_at s" unfolding r(3) s(3) ac(3) bc(3) by (rule overlay_swap)
  then have "r = s" using r(2) s(2) canonical_eq by (auto simp: canonical_def)
  then show ?thesis using ac(1,3) bc(1) r s by simp
qed

end

interpretation strictest: symmetric_pick "max_by bt_less"
proof
  show "max_by bt_less x y = max_by bt_less y x" for x y by (cases x; cases y) (simp_all add: max_by_def bt_less_def)
  show "max_by bt_less (max_by bt_less x y) z = max_by bt_less x (max_by bt_less y z)" for x y z
    by (cases x; cases y; cases z) (simp_all add: max_by_def bt_less_def)
qed

interpretation shortest: symmetric_pick "max_by delay_less"
  by unfold_locales (auto simp: max_by_def delay_less_def)

section \<open>Properties\<close>

text \<open>A set with blocking accesses on a device and delays on two memories.\<close>

definition demo_set :: "nat ParameterSet" where
  "demo_set =
     \<lparr>mBlockingTLMEnabledParameter = [(AddrSpace_of 0x100 0x1FF, BT_ENABLED)],
      mApproximateDelayParameter = [(AddrSpace_of 0 0xFF, 5), (AddrSpace_of 0x200 0x2FF, 9)],
      mApproximateTraversalRateParameter = [(AddrSpace_of 0x80 0x27F, 2)]\<rparr>"

definition demo_import :: "nat ParameterSet" where
  "demo_import =
     \<lparr>mBlockingTLMEnabledParameter = [(AddrSpace_of 0x180 0x27F, BT_DISABLED)],
      mApproximateDelayParameter = [(AddrSpace_of 0x80 0x2FF, 7)],
      mApproximateTraversalRateParameter = []\<rparr>"

lemma demo_sets_ok: "set_ok demo_set" "set_ok demo_import" "set_ok (ParameterSet_new :: nat ParameterSet)"
  by code_simp+

text \<open>
  C20: setting a parameter on a range always ends, and afterwards the container maps the addresses of the range to the new
  value, combined by the emplacement policy with the value that was there, and every other address to what
  it was mapped to before; its ranges stay ordered and disjoint.
\<close>
theorem set_parameter_refines_update:
  assumes "container_ok pc" and "wf_space as"
  shows "\<exists>pc'. setParameterHelper pc as v pick = Some pc' \<and> container_ok pc' \<and>
    (\<forall>a. value_at pc' a =
       (if a \<in> covers as then Some (case value_at pc a of None \<Rightarrow> v | Some u \<Rightarrow> pick u v) else value_at pc a)) \<and>
    (\<forall>a dflt. getParameterValue dflt pc' a = (case value_at pc' a of None \<Rightarrow> dflt | Some u \<Rightarrow> u))"
proof -
  obtain pc' where "set_each pick [(as, v)] pc = Some pc'" "container_ok pc'" "value_at pc' = overlay pick (value_at pc) (value_at [(as, v)])"
    using sets_to_single [OF assms, of pick v] by (auto simp: sets_to_def)
  then show ?thesis
    by (auto simp: setParameterHelper_def overlay_def getParameterValue_at split: option.split)
qed

theorem set_parameter_refines_update_witness:
  "\<exists>pc'. setParameterHelper (mApproximateDelayParameter demo_set) (AddrSpace_of 0x80 0x27F) 3 (\<lambda>old new. old + new) = Some pc' \<and>
     value_at pc' 0x90 = Some 8 \<and> value_at pc' 0x150 = Some 3 \<and> value_at pc' 0x280 = Some 9"
proof -
  have ok: "container_ok (mApproximateDelayParameter demo_set)" "wf_space (AddrSpace_of 0x80 0x27F)"
    by code_simp+
  have "value_at (mApproximateDelayParameter demo_set) 0x90 = Some 5" "value_at (mApproximateDelayParameter demo_set) 0x150 = None"
    "value_at (mApproximateDelayParameter demo_set) 0x280 = Some 9" by code_simp+
  then show ?thesis using set_parameter_refines_update [OF ok, of 3 "\<lambda>old new. old + new"] by fastforce
qed

text \<open>
  C21: the parameters imported from several successors do not depend on the order of the imports: merging two sets in either order ends with
  the same set, in which blocking accesses are required wherever one of the sources requires them and every
  delay is the shortest of the delays of the sources.
\<close>
theorem merge_imports_commute:
  assumes "set_ok a" and "set_ok b" and "set_ok c"
  shows "\<exists>r. Option.bind (mergeImportedParam a c) (mergeImportedParam b) = Some r \<and>
    Option.bind (mergeImportedParam b c) (mergeImportedParam a) = Some r \<and> set_ok r \<and>
    value_at (mBlockingTLMEnabledParameter r) =
      overlay (max_by bt_less) (overlay (max_by bt_less) (value_at (mBlockingTLMEnabledParameter c)) (value_at (mBlockingTLMEnabledParameter a)))
        (value_at (mBlockingTLMEnabledParameter b)) \<and>
    value_at (mApproximateDelayParameter r) =
      overlay min (overlay min (value_at (mApproximateDelayParameter c)) (value_at (mApproximateDelayParameter a)))
        (value_at (mApproximateDelayParameter b))"
proof -
  have min: "max_by delay_less = min" by (auto simp: fun_eq_iff max_by_def delay_less_def min_def)
  obtain rb where rb: "Option.bind (merge_container (max_by bt_less) (mBlockingTLMEnabledParameter a) (mBlockingTLMEnabledParameter c))
        (merge_container (max_by bt_less) (mBlockingTLMEnabledParameter b)) = Some rb"
      "Option.bind (merge_container (max_by bt_less) (mBlockingTLMEnabledParameter b) (mBlockingTLMEnabledParameter c))
        (merge_container (max_by bt_less) (mBlockingTLMEnabledParameter a)) = Some rb" "canonical rb"
      "value_at rb = overlay (max_by bt_less) (overlay (max_by bt_less) (value_at (mBlockingTLMEnabledParameter c)) (value_at (mBlockingTLMEnabledParameter a)))
        (value_at (mBlockingTLMEnabledParameter b))"
    using strictest.merge_swap assms unfolding set_ok_def by meson
  obtain rd where rd: "Option.bind (merge_container (max_by delay_less) (mApproximateDelayParameter a) (mApproximateDelayParameter c))
        (merge_container (max_by delay_less) (mApproximateDelayParameter b)) = Some rd"
      "Option.bind (merge_container (max_by delay_less) (mApproximateDelayParameter b) (mApproximateDelayParameter c))
        (merge_container (max_by delay_less) (mApproximateDelayParameter a)) = Some rd" "canonical rd"
      "value_at rd = overlay (max_by delay_less) (overlay (max_by delay_less) (value_at (mApproximateDelayParameter c)) (value_at (mApproximateDelayParameter a)))
        (value_at (mApproximateDelayParameter b))"
    using shortest.merge_swap assms unfolding set_ok_def by meson
  define r where "r = c\<lparr>mBlockingTLMEnabledParameter := rb, mApproximateDelayParameter := rd\<rparr>"
  have "Option.bind (mergeImportedParam a c) (mergeImportedParam b) = Some r" "Option.bind (mergeImportedParam b c) (mergeImportedParam a) = Some r"
    using rb(1,2) rd(1,2) by (auto simp: mergeImportedParam_def r_def bind_eq_Some_conv)
  moreover have "set_ok r" using rb(3) rd(3) assms(3) by (simp add: r_def set_ok_def canonical_def)
  ultimately show ?thesis using rb(4) rd(4) [unfolded min] by (simp add: r_def)
qed

theorem merge_imports_commute_witness:
  "\<exists>r. Option.bind (mergeImportedParam demo_set ParameterSet_new) (mergeImportedParam demo_import) = Some r \<and>
     Option.bind (mergeImportedParam demo_import ParameterSet_new) (mergeImportedParam demo_set) = Some r"
  using merge_imports_commute [OF demo_sets_ok] by blast

text \<open>
  on defragmented sets the comparison of parameter sets decides whether the sets give the same value to every address.
\<close>
theorem equal_decides_equivalence:
  assumes "canonical (mBlockingTLMEnabledParameter a)" "canonical (mApproximateDelayParameter a)" "canonical (mApproximateTraversalRateParameter a)"
    and "canonical (mBlockingTLMEnabledParameter b)" "canonical (mApproximateDelayParameter b)" "canonical (mApproximateTraversalRateParameter b)"
  shows "ParameterSet_equal a b \<longleftrightarrow>
    value_at (mBlockingTLMEnabledParameter a) = value_at (mBlockingTLMEnabledParameter b) \<and>
    value_at (mApproximateDelayParameter a) = value_at (mApproximateDelayParameter b) \<and>
    value_at (mApproximateTraversalRateParameter a) = value_at (mApproximateTraversalRateParameter b)"
proof -
  have eq: "equalHelper x y \<longleftrightarrow> x = y" for x y :: "'x container"
    unfolding equalHelper_def list_all_length by (auto simp: list_eq_iff_nth_eq prod_eq_iff)
  have canon: "x = y \<longleftrightarrow> value_at x = value_at y" if "canonical x" "canonical y" for x y :: "'x container"
    using canonical_eq [of x y] that by (auto simp: canonical_def)
  show ?thesis unfolding ParameterSet_equal_def eq
    using canon [OF assms(1,4)] canonical_eq [of "mApproximateDelayParameter a" "mApproximateDelayParameter b"]
      canonical_eq [of "mApproximateTraversalRateParameter a" "mApproximateTraversalRateParameter b"] assms
    by (auto simp: canonical_def)
qed

theorem equal_decides_equivalence_witness:
  "\<not> ParameterSet_equal demo_set demo_import \<and>
   value_at (mApproximateDelayParameter demo_set) \<noteq> value_at (mApproximateDelayParameter demo_import)"
proof -
  have "canonical (mBlockingTLMEnabledParameter demo_set)" "canonical (mApproximateDelayParameter demo_set)"
    "canonical (mApproximateTraversalRateParameter demo_set)" "canonical (mBlockingTLMEnabledParameter demo_import)"
    "canonical (mApproximateDelayParameter demo_import)" "canonical (mApproximateTraversalRateParameter demo_import)" by code_simp+
  note law = equal_decides_equivalence [OF this]
  have "value_at (mApproximateDelayParameter demo_set) 0x200 \<noteq> value_at (mApproximateDelayParameter demo_import) 0x200" by code_simp
  then have "value_at (mApproximateDelayParameter demo_set) \<noteq> value_at (mApproximateDelayParameter demo_import)" by metis
  then show ?thesis using law by blast
qed

text \<open>
  Without defragmentation it does not: setting the value a range already has on a part of the range splits the range, so
  a set that gives the same values compares as different.
\<close>

lemma fragmented_differs:
  assumes "ps = (ParameterSet_new :: nat ParameterSet)\<lparr>mApproximateDelayParameter := [(AddrSpace_of 0 9, 5)]\<rparr>"
    and "setParameter (AddrSpace_of 0 4) (ApproximateDelay 5) ps = Some ps'"
  shows "\<not> ParameterSet_equal ps ps' \<and> value_at (mApproximateDelayParameter ps) = value_at (mApproximateDelayParameter ps')"
proof -
  have "setParameter (AddrSpace_of 0 4) (ApproximateDelay 5) ((ParameterSet_new :: nat ParameterSet)\<lparr>mApproximateDelayParameter := [(AddrSpace_of 0 9, 5)]\<rparr>)
      = Some (ParameterSet_new\<lparr>mApproximateDelayParameter := [(AddrSpace_of 0 4, 5), (AddrSpace_of 5 9, 5)]\<rparr>)"
    by code_simp
  then have ps': "mApproximateDelayParameter ps' = [(AddrSpace_of 0 4, 5), (AddrSpace_of 5 9, 5)]" using assms by auto
  have "x \<le> 9 \<longleftrightarrow> x \<le> 4 \<or> 5 \<le> x \<and> x \<le> 9" for x :: u64
    by (auto simp: word_le_nat_alt)
  then have "value_at [(AddrSpace_of 0 9, 5)] = value_at [(AddrSpace_of 0 4, 5 :: u64), (AddrSpace_of 5 9, 5)]"
    by (auto simp: fun_eq_iff)
  then show ?thesis using ps' assms(1) by (simp add: ParameterSet_equal_def equalHelper_def)
qed

text \<open>
  what a module exports for an address: blocking accesses are required if they are by what it imports or by its own parameters, and the delay
  is the imported one multiplied by the traversal rate of the module where it has one, plus the delay of the module itself where it has one.
\<close>
theorem exported_parameters_pointwise:
  assumes "set_ok own" and "set_ok ps"
  shows "\<exists>r. addExportedParam scale own ps = Some r \<and> set_ok r \<and>
    value_at (mBlockingTLMEnabledParameter r) =
      overlay bt_plus (value_at (mBlockingTLMEnabledParameter ps)) (value_at (mBlockingTLMEnabledParameter own)) \<and>
    value_at (mApproximateDelayParameter r) =
      overlay (+) (scaled scale (value_at (mApproximateTraversalRateParameter own)) (value_at (mApproximateDelayParameter ps)))
        (value_at (mApproximateDelayParameter own))"
  using assms by (rule addExportedParam_value)

theorem exported_parameters_pointwise_witness:
  "\<exists>r. addExportedParam (\<lambda>d n. if n = 2 then d + d else d) demo_set demo_import = Some r \<and>
     value_at (mApproximateDelayParameter r) 0x90 = Some 19 \<and> value_at (mApproximateDelayParameter r) 0x290 = Some 16"
proof -
  obtain r where r: "addExportedParam (\<lambda>d n. if n = 2 then d + d else d) demo_set demo_import = Some r"
    and val: "value_at (mApproximateDelayParameter r) =
      overlay (+) (scaled (\<lambda>d n. if n = 2 then d + d else d) (value_at (mApproximateTraversalRateParameter demo_set)) (value_at (mApproximateDelayParameter demo_import)))
        (value_at (mApproximateDelayParameter demo_set))"
    using exported_parameters_pointwise [OF demo_sets_ok(1,2), of "\<lambda>d n. if n = 2 then d + d else d"] by (elim exE conjE) (rule that)
  have "overlay (+) (scaled (\<lambda>d n. if n = 2 then d + d else d) (value_at (mApproximateTraversalRateParameter demo_set)) (value_at (mApproximateDelayParameter demo_import)))
        (value_at (mApproximateDelayParameter demo_set)) 0x90 = Some 19"
    "overlay (+) (scaled (\<lambda>d n. if n = 2 then d + d else d) (value_at (mApproximateTraversalRateParameter demo_set)) (value_at (mApproximateDelayParameter demo_import)))
        (value_at (mApproximateDelayParameter demo_set)) 0x290 = Some 16" by (simp_all add: overlay_def scaled_def demo_set_def demo_import_def)
  then show ?thesis using r by (simp add: val)
qed

text \<open>
  C22: after a restriction to ordered, disjoint ranges no parameter is specified outside them, and the parameters inside are the same as before.
\<close>
theorem trim_restricts:
  assumes "container_ok pc" and "spaces_ok rs"
  shows "canonical (trim_container rs pc) \<and>
    value_at (trim_container rs pc) = (\<lambda>a. if \<exists>r \<in> set rs. a \<in> covers r then value_at pc a else None)"
  using assms by (rule trim_container_value)

theorem trim_restricts_witness:
  "value_at (trim_container [AddrSpace_of 0x40 0x4F, AddrSpace_of 0xF0 0x20F] (mApproximateDelayParameter demo_set)) 0x205 = Some 9"
proof -
  have "container_ok (mApproximateDelayParameter demo_set)" "spaces_ok [AddrSpace_of 0x40 0x4F, AddrSpace_of 0xF0 0x20F]" by code_simp+
  note law = trim_restricts [OF this]
  have "(\<exists>r \<in> set [AddrSpace_of 0x40 0x4F, AddrSpace_of 0xF0 0x20F]. (0x205 :: u64) \<in> covers r)"
    "value_at (mApproximateDelayParameter demo_set) 0x205 = Some 9" by code_simp+
  then show ?thesis using law by simp
qed

text \<open>With overlapping ranges, which the allowed spaces of several successors may be, the result overlaps itself.\<close>

lemma trim_overlaps:
  "trim_container [AddrSpace_of 0 9, AddrSpace_of 5 14] [(AddrSpace_of 0 20, 5 :: u64)] =
     [(AddrSpace_of 0 9, 5), (AddrSpace_of 5 14, 5)]"
  by code_simp

text \<open>
  the query for a range that reaches beyond an entry on both sides ignores the entry after it: its value has no influence on the answer;
  and when there is no entry after it, the iterator passes the end of the container.
\<close>
theorem range_query_skips_entry:
  assumes "container_ok ((s, BT_DISABLED) # (t, v) # pc)" and "mBaseAddress as < mBaseAddress s" and "mEndAddress s < mEndAddress as"
  shows "getParameterValForAddrSpace dflt ((s, BT_DISABLED) # (t, v) # pc) as = getParameterValForAddrSpace dflt ((s, BT_DISABLED) # (t, w) # pc) as \<and>
    getParameterValForAddrSpace dflt [(s, BT_DISABLED)] as = None"
proof -
  have wf: "wf_space s" and st: "mEndAddress s < mBaseAddress t" using assms(1) by simp_all
  let ?l = "AddrSpace_of (mBaseAddress as) (mBaseAddress s - 1)" and ?r = "AddrSpace_of (mEndAddress s + 1) (mEndAddress as)"
  have pieces: "relativeComplement as s = [?l, ?r]" using assms(2,3) by (simp add: relativeComplement_def)
  have hit: "intersect as s" using assms(2,3) wf by (auto simp: intersect_def wf_space_def)
  have "mBaseAddress s - 1 < mBaseAddress t"
    using st wf word_le_pred_iff [OF assms(2), of "mBaseAddress s - 1"] by (auto simp: wf_space_def)
  then have apart: "mEndAddress ?l < mBaseAddress t" "\<not> intersect ?l t" by (auto simp: intersect_def AddrSpace_of_def)
  then have left: "blocking_in dflt ((t, u) # pc) ?l = Some dflt" for u by simp
  have acc: "bt_plus BT_DISABLED BT_DISABLED = BT_DISABLED" "\<not> bool_of_bt BT_DISABLED" by (simp_all add: bt_plus_def max_by_def bt_less_def bool_of_bt_def)
  have skip: "getParameterValForAddrSpace dflt ((s, BT_DISABLED) # (t, u) # pc) as =
      map_option (bt_plus (bt_plus BT_DISABLED dflt)) (blocking_in dflt pc ?r)" for u
    unfolding getParameterValForAddrSpace_def
    by (subst blocking_in.simps) (simp add: hit pieces acc Let_def map_conv_bind_option comp_def left del: blocking_in.simps(2))
  then show ?thesis
    by (simp add: skip) (simp add: getParameterValForAddrSpace_def hit pieces acc Let_def)
qed

theorem range_query_skips_entry_witness:
  "getParameterValForAddrSpace BT_DISABLED [(AddrSpace_of 10 15, BT_DISABLED), (AddrSpace_of 16 30, BT_ENABLED)] (AddrSpace_of 0 30) \<noteq> Some BT_ENABLED"
proof -
  have "container_ok [(AddrSpace_of 10 15, BT_DISABLED), (AddrSpace_of 16 30, BT_ENABLED)]"
    "mBaseAddress (AddrSpace_of 0 30) < mBaseAddress (AddrSpace_of 10 15)" "mEndAddress (AddrSpace_of 10 15) < mEndAddress (AddrSpace_of 0 30)" by code_simp+
  note law = range_query_skips_entry [OF this, of BT_DISABLED BT_DISABLED]
  have "getParameterValForAddrSpace BT_DISABLED [(AddrSpace_of 10 15, BT_DISABLED), (AddrSpace_of 16 30, BT_DISABLED)] (AddrSpace_of 0 30) = Some BT_DISABLED"
    by code_simp
  then show ?thesis using law by simp
qed

end
