(* ===== verification/ParamModifier.thy ===== *)
theory ParamModifier
  imports ParamRefine
begin

text \<open>
  Modifiers of parameter sets (\<open>core/vpsimModule/parameterSetModifier.cpp\<close>): chains of translations of
  all addresses of a set by an offset. A chain is the list of a modifier and its
  predecessors, newest first; the chains of two modifiers share no element in the model.
  The exception of a translation that overflows is \<open>None\<close>. Ordered sets of ranges are sorted lists.
\<close>

section \<open>Ordered sets of ranges\<close>

fun space_insert :: "AddrSpace \<Rightarrow> AddrSpace list \<Rightarrow> AddrSpace list" where
  "space_insert as [] = [as]"
| "space_insert as (s # ss) =
     (if addr_less as s then as # s # ss else if addr_less s as then s # space_insert as ss else s # ss)"

section \<open>Modifiers\<close>

datatype ParameterSetModifier = Neutral | AddressTranslator (mOffset: u64) (mPositiveOffset: bool)

type_synonym modifiers = "ParameterSetModifier list"

definition translate_space :: "u64 \<Rightarrow> bool \<Rightarrow> AddrSpace \<Rightarrow> AddrSpace option" where
  "translate_space offset positive s =
     do {
       let newBase = (if positive then mBaseAddress s - offset else mBaseAddress s + offset);
       let newEnd = (if positive then mEndAddress s - offset else mEndAddress s + offset);
       if positive \<and> newBase > mBaseAddress s \<or> \<not> positive \<and> newBase < mBaseAddress s \<or>
          positive \<and> newEnd > mEndAddress s \<or> \<not> positive \<and> newEnd < mEndAddress s
       then None
       else Some (AddrSpace_of newBase newEnd)
     }"

fun translate :: "u64 \<Rightarrow> bool \<Rightarrow> 'v container \<Rightarrow> 'v container option" where
  "translate offset positive [] = Some []"
| "translate offset positive (p # ps) =
     do {
       s \<leftarrow> translate_space offset positive (fst p);
       ps \<leftarrow> translate offset positive ps;
       Some ((s, snd p) # ps)
     }"

fun translate_spaces :: "u64 \<Rightarrow> bool \<Rightarrow> AddrSpace list \<Rightarrow> AddrSpace list \<Rightarrow> AddrSpace list option" where
  "translate_spaces offset positive [] newAsSet = Some newAsSet"
| "translate_spaces offset positive (p # asSet) newAsSet =
     do {
       s \<leftarrow> translate_space offset positive p;
       translate_spaces offset positive asSet (space_insert s newAsSet)
     }"

definition applyNonRecursive :: "ParameterSetModifier \<Rightarrow> 'r ParameterSet \<Rightarrow> 'r ParameterSet option" where
  "applyNonRecursive m ps =
     (case m of
        Neutral \<Rightarrow> Some ps
      | AddressTranslator offset positive \<Rightarrow> do {
          b \<leftarrow> translate offset positive (mBlockingTLMEnabledParameter ps);
          d \<leftarrow> translate offset positive (mApproximateDelayParameter ps);
          r \<leftarrow> translate offset positive (mApproximateTraversalRateParameter ps);
          Some \<lparr>mBlockingTLMEnabledParameter = b, mApproximateDelayParameter = d, mApproximateTraversalRateParameter = r\<rparr>
        })"

definition applyNonRecursive_spaces :: "ParameterSetModifier \<Rightarrow> AddrSpace list \<Rightarrow> AddrSpace list option" where
  "applyNonRecursive_spaces m asSet =
     (case m of
        Neutral \<Rightarrow> Some asSet
      | AddressTranslator offset positive \<Rightarrow> translate_spaces offset positive asSet [])"

text \<open>A parameter set passes the previous modifiers first, a set of ranges passes them last.\<close>

fun apply_modifiers :: "modifiers \<Rightarrow> 'r ParameterSet \<Rightarrow> 'r ParameterSet option" where
  "apply_modifiers [] ps = Some ps"
| "apply_modifiers (m # prev) ps = do { ps \<leftarrow> apply_modifiers prev ps; applyNonRecursive m ps }"

fun apply_modifiers_spaces :: "modifiers \<Rightarrow> AddrSpace list \<Rightarrow> AddrSpace list option" where
  "apply_modifiers_spaces [] asSet = Some asSet"
| "apply_modifiers_spaces (m # prev) asSet = do { asSet \<leftarrow> applyNonRecursive_spaces m asSet; apply_modifiers_spaces prev asSet }"

fun attach :: "modifiers \<Rightarrow> modifiers \<Rightarrow> modifiers" where
  "attach [] ps = ps"
| "attach (m # prev) ps = m # attach prev ps"

section \<open>Translation\<close>










section \<open>Properties\<close>



text \<open>Attached modifiers are applied to a parameter set before the ones that were there, against the order in which they are added.\<close>

lemma attach_append: "attach ms ps = ms @ ps"
  by (induction ms) simp_all

lemma apply_attached: "apply_modifiers (attach ms ps) s = Option.bind (apply_modifiers ps s) (apply_modifiers ms)"
proof -
  have "apply_modifiers (ms @ ps) s = Option.bind (apply_modifiers ps s) (apply_modifiers ms)"
  proof (induction ms)
    case Nil
    show ?case by (cases "apply_modifiers ps s") simp_all
  next
    case (Cons m ms)
    then show ?case by (cases "apply_modifiers ps s") simp_all
  qed
  then show ?thesis by (simp add: attach_append)
qed

end
