(* ===== verification/ParamModules.thy ===== *)
theory ParamModules
  imports ParamModifier
begin

text \<open>
  The graph of modules that exchange parameters (\<open>core/vpsimModule/vpsimModule.cpp\<close>,
  \<open>paramManager.cpp\<close>): a module imports the parameters its successors export, adds its own and exports the result
  to its predecessors. The platform is the list of its modules, a pointer to a module is an index
  into it. Exceptions are \<open>None\<close>. The update hooks only serve the sockets of the module (theory \<open>BusForward\<close>) and are left out here, as is
  the destruction of modules. The multiplication of a delay by a rate is the parameter \<open>scale\<close>.
\<close>

section \<open>Modules\<close>

datatype moduleType = memoryMapped | intermediate | dummy

record 'r VpsimModule =
  mName :: string
  mModuleType :: moduleType
  mOwnAddrSpace :: AddrSpace
  mNbOutPorts :: nat
  mPredecessors :: "nat list"
  mSuccessors :: "nat option list"
  mIntrinsecParameters :: "'r ParameterSet"
  mEffectiveParameters :: "'r ParameterSet list"
  mExportedParameters :: "'r ParameterSet"
  mModifier :: modifiers

type_synonym 'r platform = "'r VpsimModule list"

definition VpsimModule_new :: "string \<Rightarrow> moduleType \<Rightarrow> AddrSpace \<Rightarrow> nat \<Rightarrow> 'r VpsimModule" where
  "VpsimModule_new name type as nbPort =
     \<lparr>mName = name, mModuleType = type, mOwnAddrSpace = as, mNbOutPorts = nbPort, mPredecessors = [],
      mSuccessors = replicate nbPort None, mIntrinsecParameters = ParameterSet_new,
      mEffectiveParameters = replicate nbPort ParameterSet_new, mExportedParameters = ParameterSet_new, mModifier = [Neutral]\<rparr>"

text \<open>A module registers under its name, which must be new.\<close>

definition registerModule :: "'r VpsimModule \<Rightarrow> 'r platform \<Rightarrow> 'r platform option" where
  "registerModule m pf = do { _ \<leftarrow> cassert (mName m \<notin> mName ` set pf); Some (pf @ [m]) }"

definition update_module :: "nat \<Rightarrow> ('r VpsimModule \<Rightarrow> 'r VpsimModule) \<Rightarrow> 'r platform \<Rightarrow> 'r platform" where
  "update_module m f pf = pf[m := f (pf ! m)]"

definition addPredecessor :: "nat \<Rightarrow> nat \<Rightarrow> 'r platform \<Rightarrow> 'r platform" where
  "addPredecessor p s pf =
     (if p \<in> set (mPredecessors (pf ! s)) then pf
      else update_module s (\<lambda>m. m\<lparr>mPredecessors := mPredecessors m @ [p]\<rparr>) pf)"

section \<open>Allowed address spaces\<close>

text \<open>
  The ranges the successors allow and, for a memory-mapped module, its own. The list of the modules already
  called is shared by all calls.
\<close>

definition own_spaces :: "'r VpsimModule \<Rightarrow> AddrSpace list \<Rightarrow> AddrSpace list" where
  "own_spaces m allowedSpaces = (if mModuleType m = memoryMapped then space_insert (mOwnAddrSpace m) allowedSpaces else allowedSpaces)"

partial_function (option) allowed_of :: "'r platform \<Rightarrow> nat option list \<Rightarrow> AddrSpace list \<Rightarrow> nat list \<Rightarrow> (AddrSpace list \<times> nat list) option" where
  "allowed_of pf ss allowedSpaces called =
     (case ss of
        [] \<Rightarrow> Some (allowedSpaces, called)
      | s # ss' \<Rightarrow> do {
          (sas, called) \<leftarrow>
            (case s of
               None \<Rightarrow> Some ([], called)
             | Some k \<Rightarrow>
                 if k \<in> set called then Some ([], called)
                 else do {
                   (sub, called) \<leftarrow> allowed_of pf (mSuccessors (pf ! k)) [] (called @ [k]);
                   sas \<leftarrow> apply_modifiers_spaces (mModifier (pf ! k)) (own_spaces (pf ! k) sub);
                   Some (sas, called)
                 });
          allowed_of pf ss' (fold space_insert sas allowedSpaces) called
        })"

declare allowed_of.simps [code]

definition getAllowedSpaces :: "nat \<Rightarrow> 'r platform \<Rightarrow> AddrSpace list option" where
  "getAllowedSpaces m pf =
     do {
       (sub, _) \<leftarrow> allowed_of pf (mSuccessors (pf ! m)) [] [m];
       apply_modifiers_spaces (mModifier (pf ! m)) (own_spaces (pf ! m) sub)
     }"

section \<open>Refreshing the parameters\<close>

text \<open>All modules from which a module can be reached forget what they export.\<close>

partial_function (option) clear_each :: "nat list \<Rightarrow> nat list \<Rightarrow> 'r platform \<Rightarrow> (nat list \<times> 'r platform) option" where
  "clear_each ps called pf =
     (case ps of
        [] \<Rightarrow> Some (called, pf)
      | p # ps' \<Rightarrow>
          if p \<in> set called then clear_each ps' called pf
          else do {
            let pf = update_module p (\<lambda>m. m\<lparr>mExportedParameters := ParameterSet_new\<rparr>) pf;
            (called, pf) \<leftarrow> clear_each (mPredecessors (pf ! p)) (called @ [p]) pf;
            clear_each ps' called pf
          })"

declare clear_each.simps [code]

definition clearPredecessors :: "nat \<Rightarrow> 'r platform \<Rightarrow> 'r platform option" where
  "clearPredecessors m pf = map_option snd (clear_each (mPredecessors (pf ! m)) [m] pf)"

definition import_effective :: "nat \<Rightarrow> 'r platform \<Rightarrow> 'r platform" where
  "import_effective m pf =
     update_module m (\<lambda>v. v\<lparr>mEffectiveParameters :=
       map (\<lambda>i. case mSuccessors v ! i of Some s \<Rightarrow> mExportedParameters (pf ! s) | None \<Rightarrow> mEffectiveParameters v ! i) [0..<mNbOutPorts v]\<rparr>) pf"

fun merge_all :: "'r ParameterSet list \<Rightarrow> 'r ParameterSet \<Rightarrow> 'r ParameterSet option" where
  "merge_all [] ps = Some ps"
| "merge_all (ep # eps) ps = do { ps \<leftarrow> mergeImportedParam ep ps; merge_all eps ps }"

text \<open>What a module is to export, with its own parameters restricted to the allowed spaces.\<close>

definition new_exported :: "(u64 \<Rightarrow> 'r \<Rightarrow> u64) \<Rightarrow> nat \<Rightarrow> 'r platform \<Rightarrow> ('r ParameterSet \<times> 'r platform) option" where
  "new_exported scale m pf =
     do {
       let pf = import_effective m pf;
       newExportedParam \<leftarrow> merge_all (mEffectiveParameters (pf ! m)) ParameterSet_new;
       spaces \<leftarrow> getAllowedSpaces m pf;
       let pf = update_module m (\<lambda>v. v\<lparr>mIntrinsecParameters := trim spaces (mIntrinsecParameters v)\<rparr>) pf;
       newExportedParam \<leftarrow> addExportedParam scale (mIntrinsecParameters (pf ! m)) newExportedParam;
       newExportedParam \<leftarrow> apply_modifiers (mModifier (pf ! m)) newExportedParam;
       Some (newExportedParam, pf)
     }"

text \<open>Only a module whose exported parameters change refreshes its predecessors.\<close>

partial_function (option) refresh_each :: "(u64 \<Rightarrow> 'r \<Rightarrow> u64) \<Rightarrow> nat list \<Rightarrow> 'r platform \<Rightarrow> 'r platform option" where
  "refresh_each scale ms pf =
     (case ms of
        [] \<Rightarrow> Some pf
      | m # ms' \<Rightarrow> do {
          (newExportedParam, pf) \<leftarrow> new_exported scale m pf;
          pf \<leftarrow> (if \<not> ParameterSet_equal newExportedParam (mExportedParameters (pf ! m))
                then do {
                  let pf = update_module m (\<lambda>v. v\<lparr>mExportedParameters := newExportedParam\<rparr>) pf;
                  refresh_each scale (mPredecessors (pf ! m)) pf
                }
                else Some pf);
          refresh_each scale ms' pf
        })"

declare refresh_each.simps [code]

definition refreshParameters :: "(u64 \<Rightarrow> 'r \<Rightarrow> u64) \<Rightarrow> bool \<Rightarrow> nat \<Rightarrow> 'r platform \<Rightarrow> 'r platform option" where
  "refreshParameters scale clear m pf =
     do {
       pf \<leftarrow> (if clear then clearPredecessors m pf else Some pf);
       refresh_each scale [m] pf
     }"

section \<open>Operations on modules\<close>

definition addSuccessor :: "(u64 \<Rightarrow> 'r \<Rightarrow> u64) \<Rightarrow> nat \<Rightarrow> nat \<Rightarrow> nat \<Rightarrow> 'r platform \<Rightarrow> 'r platform option" where
  "addSuccessor scale m s port pf =
     do {
       _ \<leftarrow> cassert (port < mNbOutPorts (pf ! m));
       _ \<leftarrow> cassert (mSuccessors (pf ! m) ! port = None);
       let pf = update_module m (\<lambda>v. v\<lparr>mSuccessors := (mSuccessors v)[port := Some s]\<rparr>) pf;
       refreshParameters scale True m (addPredecessor m s pf)
     }"

definition addParameterSetModifier :: "(u64 \<Rightarrow> 'r \<Rightarrow> u64) \<Rightarrow> nat \<Rightarrow> modifiers \<Rightarrow> 'r platform \<Rightarrow> 'r platform option" where
  "addParameterSetModifier scale m modifier pf =
     refreshParameters scale True m (update_module m (\<lambda>v. v\<lparr>mModifier := attach (mModifier v) modifier\<rparr>) pf)"

definition module_setParameter :: "(u64 \<Rightarrow> 'r \<Rightarrow> u64) \<Rightarrow> nat \<Rightarrow> AddrSpace \<Rightarrow> 'r ModuleParameter \<Rightarrow> 'r platform \<Rightarrow> 'r platform option" where
  "module_setParameter scale m as param pf =
     do {
       ps \<leftarrow> setParameter as param (mIntrinsecParameters (pf ! m));
       refreshParameters scale True m (update_module m (\<lambda>v. v\<lparr>mIntrinsecParameters := ps\<rparr>) pf)
     }"

definition module_setParameter_all :: "(u64 \<Rightarrow> 'r \<Rightarrow> u64) \<Rightarrow> nat \<Rightarrow> 'r ModuleParameter \<Rightarrow> 'r platform \<Rightarrow> 'r platform option" where
  "module_setParameter_all scale m param pf = module_setParameter scale m maxRange param pf"

definition getBlockingTLMEnabled :: "BlockingTLMEnabled \<Rightarrow> nat \<Rightarrow> u64 \<Rightarrow> 'r VpsimModule \<Rightarrow> BlockingTLMEnabled option" where
  "getBlockingTLMEnabled dflt port addr m =
     do { _ \<leftarrow> cassert (port < length (mEffectiveParameters m)); Some (getBlockingTLMEnabledParameter dflt (mEffectiveParameters m ! port) addr) }"

definition getBlockingTLMEnabled_space :: "BlockingTLMEnabled \<Rightarrow> nat \<Rightarrow> AddrSpace \<Rightarrow> 'r VpsimModule \<Rightarrow> BlockingTLMEnabled option" where
  "getBlockingTLMEnabled_space dflt port as m =
     do {
       _ \<leftarrow> cassert (port < length (mEffectiveParameters m));
       getParameterValForAddrSpace dflt (mBlockingTLMEnabledParameter (mEffectiveParameters m ! port)) as
     }"

definition getApproximateDelay :: "u64 \<Rightarrow> nat \<Rightarrow> u64 \<Rightarrow> 'r VpsimModule \<Rightarrow> u64 option" where
  "getApproximateDelay dflt port addr m =
     do { _ \<leftarrow> cassert (port < length (mEffectiveParameters m)); Some (getApproximateDelayParameter dflt (mEffectiveParameters m ! port) addr) }"

text \<open>The manager finds a module by its name.\<close>

definition module_at :: "string \<Rightarrow> 'r platform \<Rightarrow> nat option" where
  "module_at name pf = find (\<lambda>i. mName (pf ! i) = name) [0..<length pf]"

definition manager_setParameter :: "(u64 \<Rightarrow> 'r \<Rightarrow> u64) \<Rightarrow> string \<Rightarrow> AddrSpace \<Rightarrow> 'r ModuleParameter \<Rightarrow> 'r platform \<Rightarrow> 'r platform option" where
  "manager_setParameter scale name as param pf =
     do { m \<leftarrow> module_at name pf; module_setParameter scale m as param pf }"

end
