(* ===== verification/ParamGraph.thy ===== *)
theory ParamGraph
  imports ParamModules
begin

text \<open>
  What the exchange of parameters between modules guarantees: a refresh that returns leaves every module with the
  exported parameters that follow from its successors; and what the initial clearing of the predecessors loses.
\<close>

section \<open>Platforms\<close>

text \<open>Every link is known at both ends.\<close>

definition platform_ok :: "'r platform \<Rightarrow> bool" where
  "platform_ok pf \<longleftrightarrow>
     (\<forall>k < length pf. set (mPredecessors (pf ! k)) \<subseteq> {..<length pf} \<and>
        length (mSuccessors (pf ! k)) = mNbOutPorts (pf ! k) \<and>
        (\<forall>s. Some s \<in> set (mSuccessors (pf ! k)) \<longrightarrow> s < length pf \<and> k \<in> set (mPredecessors (pf ! s))))"

lemma platform_okD:
  assumes "platform_ok pf" "k < length pf"
  shows "set (mPredecessors (pf ! k)) \<subseteq> {..<length pf}" "length (mSuccessors (pf ! k)) = mNbOutPorts (pf ! k)"
    and "Some s \<in> set (mSuccessors (pf ! k)) \<Longrightarrow> s < length pf \<and> k \<in> set (mPredecessors (pf ! s))"
  using assms unfolding platform_ok_def by blast+

text \<open>Two platforms with the same graph: they may differ in parameters only.\<close>

definition same_graph :: "'r platform \<Rightarrow> 'r platform \<Rightarrow> bool" where
  "same_graph pf pf' \<longleftrightarrow> length pf' = length pf \<and>
     (\<forall>k. mSuccessors (pf' ! k) = mSuccessors (pf ! k) \<and> mPredecessors (pf' ! k) = mPredecessors (pf ! k) \<and>
        mModifier (pf' ! k) = mModifier (pf ! k) \<and> mNbOutPorts (pf' ! k) = mNbOutPorts (pf ! k) \<and>
        mModuleType (pf' ! k) = mModuleType (pf ! k) \<and> mOwnAddrSpace (pf' ! k) = mOwnAddrSpace (pf ! k))"

lemma same_graph_refl [simp]: "same_graph pf pf"
  by (simp add: same_graph_def)

lemma same_graph_trans: "same_graph a b \<Longrightarrow> same_graph b c \<Longrightarrow> same_graph a c"
  by (simp add: same_graph_def)

lemma same_graph_sym: "same_graph a b \<Longrightarrow> same_graph b a"
  by (simp add: same_graph_def)

lemma platform_ok_graph: "same_graph pf pf' \<Longrightarrow> platform_ok pf' = platform_ok pf"
  by (simp add: same_graph_def platform_ok_def)

lemma update_module_nth: "update_module m f pf ! k = (if k = m \<and> m < length pf then f (pf ! m) else pf ! k)"
  by (cases "m < length pf") (auto simp: update_module_def nth_list_update list_update_beyond)

lemma length_update_module [simp]: "length (update_module m f pf) = length pf"
  by (simp add: update_module_def)

lemma same_graph_update:
  assumes "\<And>v. mSuccessors (f v) = mSuccessors v \<and> mPredecessors (f v) = mPredecessors v \<and> mModifier (f v) = mModifier v \<and>
    mNbOutPorts (f v) = mNbOutPorts v \<and> mModuleType (f v) = mModuleType v \<and> mOwnAddrSpace (f v) = mOwnAddrSpace v"
  shows "same_graph pf (update_module m f pf)"
  using assms by (simp add: same_graph_def update_module_nth)

section \<open>Clearing\<close>

lemma clear_each_Nil [simp]: "clear_each [] called pf = Some (called, pf)"
  by (simp add: clear_each.simps)

lemma clear_each_Cons:
  "clear_each (p # ps) called pf =
     (if p \<in> set called then clear_each ps called pf
      else do {
        (called, pf) \<leftarrow> clear_each (mPredecessors (pf ! p)) (called @ [p]) (update_module p (\<lambda>m. m\<lparr>mExportedParameters := ParameterSet_new\<rparr>) pf);
        clear_each ps called pf
      })"
  by (subst clear_each.simps) (simp add: update_module_nth split: if_splits)

definition cleared :: "nat list \<Rightarrow> nat list \<Rightarrow> 'r platform \<Rightarrow> 'r platform \<Rightarrow> bool" where
  "cleared called called' pf pf' \<longleftrightarrow> set called \<subseteq> set called' \<and> same_graph pf pf' \<and>
     (\<forall>k < length pf. mExportedParameters (pf' ! k) =
        (if k \<in> set called' - set called then ParameterSet_new else mExportedParameters (pf ! k)))"

text \<open>The clearing ends on every graph, cyclic or not, because every module is visited once.\<close>

lemma clear_each_ends:
  assumes "platform_ok pf" "set ps \<subseteq> {..<length pf}"
  shows "\<exists>called' pf'. clear_each ps called pf = Some (called', pf') \<and> set ps \<subseteq> set called' \<and> cleared called called' pf pf'"
  using assms
proof (induction "(card ({..<length pf} - set called), length ps)" arbitrary: ps called pf rule: less_induct)
  case less
  show ?case
  proof (cases ps)
    case Nil
    then show ?thesis by (simp add: cleared_def)
  next
    case (Cons p qs)
    have qs: "set qs \<subseteq> {..<length pf}" and p: "p < length pf" using less.prems(2) Cons by auto
    show ?thesis
    proof (cases "p \<in> set called")
      case True
      have "(card ({..<length pf} - set called), length qs) < (card ({..<length pf} - set called), length ps)"
        by (simp add: Cons less_prod_def)
      from less.hyps [OF this less.prems(1) qs] obtain called' pf' where rest: "clear_each qs called pf = Some (called', pf')"
        "set qs \<subseteq> set called'" "cleared called called' pf pf'" by blast
      moreover have "clear_each ps called pf = Some (called', pf')" using True rest(1) by (simp add: Cons clear_each_Cons)
      moreover have "set ps \<subseteq> set called'" using True rest(2,3) by (auto simp: Cons cleared_def)
      ultimately show ?thesis by blast
    next
      case False
      define pf0 where "pf0 = update_module p (\<lambda>m. m\<lparr>mExportedParameters := ParameterSet_new\<rparr>) pf"
      have g0: "same_graph pf pf0" unfolding pf0_def by (rule same_graph_update) simp
      have ok0: "platform_ok pf0" "set (mPredecessors (pf ! p)) \<subseteq> {..<length pf0}"
        using less.prems(1) platform_ok_graph [OF g0] platform_okD(1) [OF less.prems(1) p] by (simp_all add: pf0_def)
      have n0: "length pf0 = length pf" using g0 by (simp add: same_graph_def)
      have "card ({..<length pf0} - set (called @ [p])) < card ({..<length pf} - set called)"
        unfolding n0 using False p by (intro psubset_card_mono) auto
      then have "(card ({..<length pf0} - set (called @ [p])), length (mPredecessors (pf ! p))) < (card ({..<length pf} - set called), length ps)"
        by (simp add: less_prod_def)
      from less.hyps [OF this ok0] obtain c1 pf1 where one: "clear_each (mPredecessors (pf ! p)) (called @ [p]) pf0 = Some (c1, pf1)" "cleared (called @ [p]) c1 pf0 pf1"
        by blast
      have g1: "same_graph pf pf1" using one(2) g0 same_graph_trans by (auto simp: cleared_def)
      have n1: "length pf1 = length pf" using g1 by (simp add: same_graph_def)
      have sub: "set (called @ [p]) \<subseteq> set c1" using one(2) by (simp add: cleared_def)
      have "card ({..<length pf1} - set c1) < card ({..<length pf} - set called)"
        using False p sub n1 by (intro psubset_card_mono) auto
      then have "(card ({..<length pf1} - set c1), length qs) < (card ({..<length pf} - set called), length ps)" by (simp add: less_prod_def)
      moreover have "platform_ok pf1" "set qs \<subseteq> {..<length pf1}" using less.prems(1) qs platform_ok_graph [OF g1] n1 by simp_all
      ultimately obtain c2 pf2 where two: "clear_each qs c1 pf1 = Some (c2, pf2)" "set qs \<subseteq> set c2" "cleared c1 c2 pf1 pf2"
        using less.hyps by blast
      have "mExportedParameters (pf2 ! k) = (if k \<in> set c2 - set called then ParameterSet_new else mExportedParameters (pf ! k))" if "k < length pf" for k
      proof -
        have "mExportedParameters (pf0 ! k) = (if k = p then ParameterSet_new else mExportedParameters (pf ! k))"
          using p by (simp add: pf0_def update_module_nth)
        moreover have "mExportedParameters (pf1 ! k) = (if k \<in> set c1 - set (called @ [p]) then ParameterSet_new else mExportedParameters (pf0 ! k))"
          using one(2) that [folded n0] unfolding cleared_def by blast
        moreover have "mExportedParameters (pf2 ! k) = (if k \<in> set c2 - set c1 then ParameterSet_new else mExportedParameters (pf1 ! k))"
          using two(3) that [folded n1] unfolding cleared_def by blast
        moreover have "set c1 \<subseteq> set c2" using two(3) unfolding cleared_def by blast
        ultimately show ?thesis using sub False by auto
      qed
      moreover have "same_graph pf pf2" using g1 two(3) same_graph_trans by (auto simp: cleared_def)
      moreover have "set called \<subseteq> set c2" "set ps \<subseteq> set c2" using sub two by (auto simp: cleared_def Cons)
      moreover have "clear_each ps called pf = Some (c2, pf2)" using False one(1) two(1) by (simp add: Cons clear_each_Cons pf0_def)
      ultimately show ?thesis by (auto simp: cleared_def)
    qed
  qed
qed

section \<open>What a module exports\<close>

lemma allowed_of_Nil [simp]: "allowed_of pf [] sp called = Some (sp, called)"
  by (simp add: allowed_of.simps)

lemma allowed_of_graph_Some:
  assumes "allowed_of pf ss sp called = Some r"
  shows "\<forall>pf'. same_graph pf pf' \<longrightarrow> allowed_of pf' ss sp called = Some r"
proof (rule allowed_of.raw_induct [OF _ assms], intro allI impI)
  fix rec :: "'r platform \<Rightarrow> nat option list \<Rightarrow> AddrSpace list \<Rightarrow> nat list \<Rightarrow> (AddrSpace list \<times> nat list) option"
  fix pf :: "'r platform" and ss sp called r and pf' :: "'r platform"
  assume ih: "\<And>pf ss sp called r. rec pf ss sp called = Some r \<Longrightarrow> \<forall>pf'. same_graph pf pf' \<longrightarrow> allowed_of pf' ss sp called = Some r"
    and g: "same_graph pf pf'"
  assume body: "(case ss of [] \<Rightarrow> Some (sp, called)
      | s # ss' \<Rightarrow> do {
          (sas, called) \<leftarrow>
            (case s of
               None \<Rightarrow> Some ([], called)
             | Some k \<Rightarrow>
                 if k \<in> set called then Some ([], called)
                 else do {
                   (sub, called) \<leftarrow> rec pf (mSuccessors (pf ! k)) [] (called @ [k]);
                   sas \<leftarrow> apply_modifiers_spaces (mModifier (pf ! k)) (own_spaces (pf ! k) sub);
                   Some (sas, called)
                 });
          rec pf ss' (fold space_insert sas sp) called
        }) = Some r"
  have rec: "allowed_of pf' ss sp called = Some r" if "rec pf ss sp called = Some r" for ss sp called r
    using ih [OF that] g by blast
  have eq: "mSuccessors (pf' ! k) = mSuccessors (pf ! k)" "mModifier (pf' ! k) = mModifier (pf ! k)" "own_spaces (pf' ! k) sub = own_spaces (pf ! k) sub" for k sub
    using g by (simp_all add: same_graph_def own_spaces_def)
  show "allowed_of pf' ss sp called = Some r"
  proof (cases ss)
    case Nil
    then show ?thesis using body by simp
  next
    case (Cons s ss')
    obtain sas c1 where step: "(case s of None \<Rightarrow> Some ([], called)
             | Some k \<Rightarrow>
                 if k \<in> set called then Some ([], called)
                 else do {
                   (sub, called) \<leftarrow> rec pf (mSuccessors (pf ! k)) [] (called @ [k]);
                   sas \<leftarrow> apply_modifiers_spaces (mModifier (pf ! k)) (own_spaces (pf ! k) sub);
                   Some (sas, called)
                 }) = Some (sas, c1)" and tail: "rec pf ss' (fold space_insert sas sp) c1 = Some r"
      using body Cons by (simp add: bind_eq_Some_conv split: prod.splits) blast
    have "(case s of None \<Rightarrow> Some ([], called)
             | Some k \<Rightarrow>
                 if k \<in> set called then Some ([], called)
                 else do {
                   (sub, called) \<leftarrow> allowed_of pf' (mSuccessors (pf' ! k)) [] (called @ [k]);
                   sas \<leftarrow> apply_modifiers_spaces (mModifier (pf' ! k)) (own_spaces (pf' ! k) sub);
                   Some (sas, called)
                 }) = Some (sas, c1)"
    proof (cases s)
      case None
      then show ?thesis using step by simp
    next
      case (Some k)
      show ?thesis
      proof (cases "rec pf (mSuccessors (pf ! k)) [] (called @ [k])")
        case None
        then show ?thesis using step Some by (simp split: if_splits)
      next
        case inner: (Some q)
        then show ?thesis using step Some rec [OF inner] by (simp add: eq split: if_splits)
      qed
    qed
    then show ?thesis using rec [OF tail] by (subst allowed_of.simps) (simp add: Cons)
  qed
qed

lemma getAllowedSpaces_graph:
  assumes "same_graph pf pf'" shows "getAllowedSpaces m pf' = getAllowedSpaces m pf"
proof -
  have "allowed_of pf' ss sp called = allowed_of pf ss sp called" for ss sp called
    using allowed_of_graph_Some assms same_graph_sym [OF assms] by (metis option.exhaust)
  moreover have "mSuccessors (pf' ! m) = mSuccessors (pf ! m)" "mModifier (pf' ! m) = mModifier (pf ! m)" "own_spaces (pf' ! m) = own_spaces (pf ! m)"
    using assms unfolding same_graph_def own_spaces_def by (metis, metis, intro ext, metis)
  ultimately show ?thesis by (simp add: getAllowedSpaces_def)
qed

text \<open>The computation of the exported parameters, with its inputs.\<close>

definition effective_of :: "'r platform \<Rightarrow> nat \<Rightarrow> 'r ParameterSet list" where
  "effective_of pf k =
     map (\<lambda>i. case mSuccessors (pf ! k) ! i of Some s \<Rightarrow> mExportedParameters (pf ! s) | None \<Rightarrow> mEffectiveParameters (pf ! k) ! i)
       [0..<mNbOutPorts (pf ! k)]"

definition export_value ::
  "(u64 \<Rightarrow> 'r \<Rightarrow> u64) \<Rightarrow> 'r ParameterSet list \<Rightarrow> AddrSpace list \<Rightarrow> 'r ParameterSet \<Rightarrow> modifiers \<Rightarrow> 'r ParameterSet option" where
  "export_value scale eff spaces own ms =
     do {
       ps \<leftarrow> merge_all eff ParameterSet_new;
       ps \<leftarrow> addExportedParam scale (trim spaces own) ps;
       apply_modifiers ms ps
     }"

lemma import_effective_graph: "same_graph pf (import_effective m pf)"
  unfolding import_effective_def by (rule same_graph_update) simp

lemma new_exported_iff:
  assumes "m < length pf"
  shows "new_exported scale m pf = Some (e, pf2) \<longleftrightarrow>
    (\<exists>sp. getAllowedSpaces m pf = Some sp \<and>
       export_value scale (effective_of pf m) sp (mIntrinsecParameters (pf ! m)) (mModifier (pf ! m)) = Some e \<and>
       pf2 = update_module m (\<lambda>v. v\<lparr>mEffectiveParameters := effective_of pf m, mIntrinsecParameters := trim sp (mIntrinsecParameters v)\<rparr>) pf)"
proof -
  have i: "import_effective m pf ! m = (pf ! m)\<lparr>mEffectiveParameters := effective_of pf m\<rparr>"
    using assms by (simp add: import_effective_def update_module_nth effective_of_def)
  have u: "update_module m (\<lambda>v. v\<lparr>mIntrinsecParameters := trim sp (mIntrinsecParameters v)\<rparr>) (import_effective m pf) =
      update_module m (\<lambda>v. v\<lparr>mEffectiveParameters := effective_of pf m, mIntrinsecParameters := trim sp (mIntrinsecParameters v)\<rparr>) pf" for sp
    using assms by (simp add: update_module_def import_effective_def effective_of_def)
  show ?thesis
    using assms unfolding new_exported_def Let_def getAllowedSpaces_graph [OF import_effective_graph] u i export_value_def
    by (auto simp: osimps update_module_nth)
qed

section \<open>Settled modules\<close>

text \<open>A module is settled when it imports what its successors export and exports what follows from that.\<close>

definition settled :: "(u64 \<Rightarrow> 'r \<Rightarrow> u64) \<Rightarrow> 'r platform \<Rightarrow> nat \<Rightarrow> bool" where
  "settled scale pf k \<longleftrightarrow> mEffectiveParameters (pf ! k) = effective_of pf k \<and>
     do {
       ps \<leftarrow> merge_all (mEffectiveParameters (pf ! k)) ParameterSet_new;
       ps \<leftarrow> addExportedParam scale (mIntrinsecParameters (pf ! k)) ps;
       apply_modifiers (mModifier (pf ! k)) ps
     } = Some (mExportedParameters (pf ! k))"

lemma equalHelper_eq: "equalHelper a b \<longleftrightarrow> a = b"
proof -
  have "(\<lambda>(e, f). fst e = fst f \<and> snd e = snd f) = (\<lambda>(e, f). e = (f :: AddrSpace \<times> 'a))" by (auto simp: prod_eq_iff)
  then show ?thesis using list_all2_iff [of "(=)" a b] by (simp add: equalHelper_def list_all_iff list.rel_eq)
qed

lemma ParameterSet_equal_eq: "ParameterSet_equal a b \<longleftrightarrow> a = b"
  by (cases a; cases b) (simp add: ParameterSet_equal_def equalHelper_eq)

text \<open>One module recomputed.\<close>

definition recomputed :: "nat \<Rightarrow> AddrSpace list \<Rightarrow> 'r ParameterSet \<Rightarrow> 'r platform \<Rightarrow> 'r platform" where
  "recomputed m sp e pf = update_module m (\<lambda>v. v\<lparr>mEffectiveParameters := effective_of pf m,
     mIntrinsecParameters := trim sp (mIntrinsecParameters v), mExportedParameters := e\<rparr>) pf"

lemma recomputed_graph: "same_graph pf (recomputed m sp e pf)"
  unfolding recomputed_def by (rule same_graph_update) simp

lemma refresh_each_Nil [simp]: "refresh_each scale [] pf = Some pf"
  by (simp add: refresh_each.simps)

text \<open>The body of the refresh, for any continuation: a module is recomputed, and its predecessors follow when its exported set changes.\<close>

lemma refresh_body:
  assumes "m < length pf"
  shows "do {
          (newExportedParam, pf) \<leftarrow> new_exported scale m pf;
          pf \<leftarrow> (if \<not> ParameterSet_equal newExportedParam (mExportedParameters (pf ! m))
                then do {
                  let pf = update_module m (\<lambda>v. v\<lparr>mExportedParameters := newExportedParam\<rparr>) pf;
                  f (mPredecessors (pf ! m)) pf
                }
                else Some pf);
          f ms pf
        } = Some pf' \<longleftrightarrow>
    (\<exists>sp e. getAllowedSpaces m pf = Some sp \<and>
       export_value scale (effective_of pf m) sp (mIntrinsecParameters (pf ! m)) (mModifier (pf ! m)) = Some e \<and>
       Option.bind (if e = mExportedParameters (pf ! m) then Some (recomputed m sp e pf)
          else f (mPredecessors (pf ! m)) (recomputed m sp e pf)) (f ms) = Some pf')" (is "?body \<longleftrightarrow> ?steps")
proof -
  let ?two = "\<lambda>sp. update_module m (\<lambda>v. v\<lparr>mEffectiveParameters := effective_of pf m, mIntrinsecParameters := trim sp (mIntrinsecParameters v)\<rparr>) pf"
  have rec: "update_module m (\<lambda>v. v\<lparr>mExportedParameters := e\<rparr>) (?two sp) = recomputed m sp e pf" for sp e
    using assms by (simp add: update_module_def recomputed_def)
  have same: "?two sp = recomputed m sp (mExportedParameters (pf ! m)) pf" for sp
    by (simp add: update_module_def recomputed_def)
  have nth: "mExportedParameters (?two sp ! m) = mExportedParameters (pf ! m)"
    "mPredecessors (recomputed m sp e pf ! m) = mPredecessors (pf ! m)" for sp e
    using assms by (simp_all add: update_module_nth recomputed_def)
  have cont: "Option.bind (if \<not> ParameterSet_equal e (mExportedParameters (?two sp ! m))
       then do { let pf = update_module m (\<lambda>v. v\<lparr>mExportedParameters := e\<rparr>) (?two sp); f (mPredecessors (pf ! m)) pf }
       else Some (?two sp)) (f ms) =
     Option.bind (if e = mExportedParameters (pf ! m) then Some (recomputed m sp e pf)
          else f (mPredecessors (pf ! m)) (recomputed m sp e pf)) (f ms)" for sp e
    unfolding ParameterSet_equal_eq nth Let_def rec by (simp add: same)
  have "?body \<longleftrightarrow> (\<exists>e pf2. new_exported scale m pf = Some (e, pf2) \<and>
      Option.bind (if \<not> ParameterSet_equal e (mExportedParameters (pf2 ! m))
       then do { let pf = update_module m (\<lambda>v. v\<lparr>mExportedParameters := e\<rparr>) pf2; f (mPredecessors (pf ! m)) pf }
       else Some pf2) (f ms) = Some pf')"
    by (simp add: bind_eq_Some_conv split_paired_Ex)
  also have "\<dots> \<longleftrightarrow> (\<exists>sp e. getAllowedSpaces m pf = Some sp \<and>
       export_value scale (effective_of pf m) sp (mIntrinsecParameters (pf ! m)) (mModifier (pf ! m)) = Some e \<and>
       Option.bind (if \<not> ParameterSet_equal e (mExportedParameters (?two sp ! m))
       then do { let pf = update_module m (\<lambda>v. v\<lparr>mExportedParameters := e\<rparr>) (?two sp); f (mPredecessors (pf ! m)) pf }
       else Some (?two sp)) (f ms) = Some pf')"
    unfolding new_exported_iff [OF assms] by blast
  finally show ?thesis unfolding cont .
qed

lemma refresh_each_Cons:
  assumes "m < length pf"
  shows "refresh_each scale (m # ms) pf = Some pf' \<longleftrightarrow>
    (\<exists>sp e. getAllowedSpaces m pf = Some sp \<and>
       export_value scale (effective_of pf m) sp (mIntrinsecParameters (pf ! m)) (mModifier (pf ! m)) = Some e \<and>
       Option.bind (if e = mExportedParameters (pf ! m) then Some (recomputed m sp e pf)
          else refresh_each scale (mPredecessors (pf ! m)) (recomputed m sp e pf)) (refresh_each scale ms) = Some pf')"
  by (subst refresh_each.simps) (simp only: list.case refresh_body [OF assms])

lemma effective_of_recomputed:
  assumes "platform_ok pf" "m < length pf" "k < length pf"
    and "k \<in> set (mPredecessors (pf ! m)) \<Longrightarrow> e = mExportedParameters (pf ! m)"
  shows "effective_of (recomputed m sp e pf) k = effective_of pf k"
proof -
  have exp: "mExportedParameters (recomputed m sp e pf ! s) = mExportedParameters (pf ! s)" if "Some s \<in> set (mSuccessors (pf ! k))" for s
    using platform_okD(3) [OF assms(1,3) that] assms(4) by (auto simp: recomputed_def update_module_nth)
  have len: "length (mSuccessors (pf ! k)) = mNbOutPorts (pf ! k)" by (rule platform_okD(2) [OF assms(1,3)])
  have graph: "mSuccessors (recomputed m sp e pf ! k) = mSuccessors (pf ! k)" "mNbOutPorts (recomputed m sp e pf ! k) = mNbOutPorts (pf ! k)"
    by (simp_all add: recomputed_def update_module_nth)
  have eff: "mEffectiveParameters (recomputed m sp e pf ! k) ! i = mEffectiveParameters (pf ! k) ! i"
    if "mSuccessors (pf ! k) ! i = None" "i < mNbOutPorts (pf ! k)" for i
    using that by (cases "k = m") (simp_all add: recomputed_def update_module_nth effective_of_def)
  show ?thesis
    unfolding effective_of_def [of "recomputed m sp e pf"] effective_of_def [of pf] graph
  proof (rule map_cong [OF refl])
    fix i assume "i \<in> set [0..<mNbOutPorts (pf ! k)]"
    then have i: "i < mNbOutPorts (pf ! k)" by simp
    show "(case mSuccessors (pf ! k) ! i of None \<Rightarrow> mEffectiveParameters (recomputed m sp e pf ! k) ! i | Some s \<Rightarrow> mExportedParameters (recomputed m sp e pf ! s)) =
      (case mSuccessors (pf ! k) ! i of None \<Rightarrow> mEffectiveParameters (pf ! k) ! i | Some s \<Rightarrow> mExportedParameters (pf ! s))"
    proof (cases "mSuccessors (pf ! k) ! i")
      case None
      then show ?thesis using eff [OF _ i] by simp
    next
      case (Some s)
      then have "Some s \<in> set (mSuccessors (pf ! k))" using nth_mem [of i "mSuccessors (pf ! k)"] i len by simp
      then show ?thesis using exp Some by simp
    qed
  qed
qed

lemma settled_recomputed:
  assumes "platform_ok pf" "m < length pf" "k < length pf"
    and "k \<in> set (mPredecessors (pf ! m)) \<Longrightarrow> e = mExportedParameters (pf ! m)"
    and "export_value scale (effective_of pf m) sp (mIntrinsecParameters (pf ! m)) (mModifier (pf ! m)) = Some e"
    and "k = m \<or> settled scale pf k"
  shows "settled scale (recomputed m sp e pf) k"
proof -
  have eff: "effective_of (recomputed m sp e pf) k = effective_of pf k" using effective_of_recomputed assms(1-4) by blast
  show ?thesis
  proof (cases "k = m")
    case True
    then show ?thesis using assms(2,5) eff by (simp add: settled_def export_value_def recomputed_def update_module_nth)
  next
    case False
    then have n: "recomputed m sp e pf ! k = pf ! k" by (simp add: recomputed_def update_module_nth)
    have "settled scale pf k" using False assms(6) by simp
    then show ?thesis unfolding settled_def n eff .
  qed
qed

text \<open>A refresh that returns settles the modules it starts from and keeps every other module settled, on any graph.\<close>

lemma refresh_each_settles:
  assumes "refresh_each scale ms pf = Some pf'"
  shows "platform_ok pf \<and> set ms \<subseteq> {..<length pf} \<longrightarrow>
    same_graph pf pf' \<and> (\<forall>k < length pf. k \<in> set ms \<or> settled scale pf k \<longrightarrow> settled scale pf' k)"
proof (rule refresh_each.raw_induct [OF _ assms], intro impI, elim conjE)
  fix rec :: "(u64 \<Rightarrow> 'r \<Rightarrow> u64) \<Rightarrow> nat list \<Rightarrow> 'r platform \<Rightarrow> 'r platform option"
  fix scale ms and pf pf' :: "'r platform"
  assume ih: "\<And>scale ms pf pf'. rec scale ms pf = Some pf' \<Longrightarrow> platform_ok pf \<and> set ms \<subseteq> {..<length pf} \<longrightarrow>
    same_graph pf pf' \<and> (\<forall>k < length pf. k \<in> set ms \<or> settled scale pf k \<longrightarrow> settled scale pf' k)"
  assume ok: "platform_ok pf" and ms: "set ms \<subseteq> {..<length pf}"
  assume body: "(case ms of [] \<Rightarrow> Some pf
      | m # ms' \<Rightarrow> do {
          (newExportedParam, pf) \<leftarrow> new_exported scale m pf;
          pf \<leftarrow> (if \<not> ParameterSet_equal newExportedParam (mExportedParameters (pf ! m))
                then do {
                  let pf = update_module m (\<lambda>v. v\<lparr>mExportedParameters := newExportedParam\<rparr>) pf;
                  rec scale (mPredecessors (pf ! m)) pf
                }
                else Some pf);
          rec scale ms' pf
        }) = Some pf'"
  show "same_graph pf pf' \<and> (\<forall>k < length pf. k \<in> set ms \<or> settled scale pf k \<longrightarrow> settled scale pf' k)"
  proof (cases ms)
    case Nil
    then show ?thesis using body by simp
  next
    case (Cons m ms')
    have m: "m < length pf" using ms Cons by simp
    from body obtain sp e where e: "export_value scale (effective_of pf m) sp (mIntrinsecParameters (pf ! m)) (mModifier (pf ! m)) = Some e"
      and go: "Option.bind (if e = mExportedParameters (pf ! m) then Some (recomputed m sp e pf)
          else rec scale (mPredecessors (pf ! m)) (recomputed m sp e pf)) (rec scale ms') = Some pf'"
      unfolding Cons list.case refresh_body [OF m] by blast
    let ?r = "recomputed m sp e pf"
    have r: "same_graph pf ?r" "platform_ok ?r" "length ?r = length pf"
      using recomputed_graph ok platform_ok_graph by (blast, blast, simp add: recomputed_def)
    from go obtain q where q: "(if e = mExportedParameters (pf ! m) then Some ?r else rec scale (mPredecessors (pf ! m)) ?r) = Some q"
      and tail: "rec scale ms' q = Some pf'" by (rule bind_eq_Some_conv [THEN iffD1, THEN exE]) blast
    have one: "same_graph ?r q \<and> (\<forall>k < length pf. k = m \<or> settled scale pf k \<longrightarrow> settled scale q k)"
    proof (cases "e = mExportedParameters (pf ! m)")
      case True
      then show ?thesis using q settled_recomputed [OF ok m _ _ e] by simp
    next
      case False
      have "set (mPredecessors (pf ! m)) \<subseteq> {..<length ?r}" using platform_okD(1) [OF ok m] r(3) by simp
      with False q ih r(2) have "same_graph ?r q" and set: "\<And>k. k < length ?r \<Longrightarrow> k \<in> set (mPredecessors (pf ! m)) \<or> settled scale ?r k \<Longrightarrow> settled scale q k"
        by (smt (verit, best))+
      moreover have "settled scale q k" if "k < length pf" "k = m \<or> settled scale pf k" for k
        using set [of k] settled_recomputed [OF ok m that(1) _ e that(2)] that(1) r(3) by (cases "k \<in> set (mPredecessors (pf ! m))") auto
      ultimately show ?thesis by blast
    qed
    then have g: "same_graph pf q" using same_graph_trans r(1) by blast
    then have "platform_ok q" "length q = length pf" using ok platform_ok_graph by (blast, simp add: same_graph_def)
    moreover have "set ms' \<subseteq> {..<length pf}" using ms Cons by simp
    ultimately have two: "same_graph q pf' \<and> (\<forall>k < length pf. k \<in> set ms' \<or> settled scale q k \<longrightarrow> settled scale pf' k)"
      using ih [OF tail] by simp
    then show ?thesis using one same_graph_trans [OF g] by (auto simp: Cons)
  qed
qed

end
