(* ===== verification/ParamRefresh.thy ===== *)
theory ParamRefresh
  imports ParamGraph
begin

text \<open>
  The refresh of parameters on whole platforms: it returns on graphs without cycles and settles every module; the
  initial clearing of the predecessors loses parameters; and a cycle through a module with a delay of its own never settles.
\<close>

section \<open>Allowed spaces\<close>




lemma set_space_insert [simp]: "set (space_insert s ss) = insert s (set ss)"
  using addr_less_linear by (induction ss) auto




lemma neutral_modifiers [simp]: "set ms \<subseteq> {Neutral} \<Longrightarrow> apply_modifiers ms ps = Some ps" "set ms \<subseteq> {Neutral} \<Longrightarrow> apply_modifiers_spaces ms sp = Some sp"
  by (induction ms) (simp_all add: applyNonRecursive_def applyNonRecursive_spaces_def)






section \<open>Sets in order\<close>

definition sets_fine :: "'r platform \<Rightarrow> bool" where
  "sets_fine pf \<longleftrightarrow> (\<forall>k < length pf. set_ok (mIntrinsecParameters (pf ! k)) \<and> set_ok (mExportedParameters (pf ! k)) \<and>
     list_all set_ok (mEffectiveParameters (pf ! k)) \<and> length (mEffectiveParameters (pf ! k)) = mNbOutPorts (pf ! k))"

lemma sets_fineD:
  assumes "sets_fine pf" "k < length pf"
  shows "set_ok (mIntrinsecParameters (pf ! k))" "set_ok (mExportedParameters (pf ! k))"
    "list_all set_ok (mEffectiveParameters (pf ! k))" "length (mEffectiveParameters (pf ! k)) = mNbOutPorts (pf ! k)"
  using assms unfolding sets_fine_def by blast+

lemma set_ok_new [simp]: "set_ok ParameterSet_new"
  by (simp add: set_ok_def ParameterSet_new_def)

lemma trim_ok: "set_ok ps \<Longrightarrow> spaces_ok sp \<Longrightarrow> set_ok (trim sp ps)"
  by (simp add: set_ok_def trim_def canonical_ok [OF trim_container_value [THEN conjunct1]])

lemma merge_all_ok: "list_all set_ok es \<Longrightarrow> set_ok ps \<Longrightarrow> \<exists>r. merge_all es ps = Some r \<and> set_ok r"
proof (induction es arbitrary: ps)
  case (Cons e es)
  then obtain r where "mergeImportedParam e ps = Some r" "set_ok r" using mergeImportedParam_value [of e ps] by auto
  then show ?case using Cons by simp
qed simp

lemma effective_of_ok:
  assumes "platform_ok pf" "sets_fine pf" "k < length pf"
  shows "list_all set_ok (effective_of pf k)" "length (effective_of pf k) = mNbOutPorts (pf ! k)"
proof -
  have "set_ok (case mSuccessors (pf ! k) ! i of Some s \<Rightarrow> mExportedParameters (pf ! s) | None \<Rightarrow> mEffectiveParameters (pf ! k) ! i)"
    if i: "i < mNbOutPorts (pf ! k)" for i
  proof (cases "mSuccessors (pf ! k) ! i")
    case None
    then show ?thesis using i sets_fineD(3,4) [OF assms(2,3)] by (simp add: list_all_length)
  next
    case (Some s)
    then have "Some s \<in> set (mSuccessors (pf ! k))" using i platform_okD(2) [OF assms(1,3)] nth_mem [of i "mSuccessors (pf ! k)"] by simp
    then show ?thesis using Some platform_okD(3) [OF assms(1,3)] sets_fineD(2) [OF assms(2)] by simp
  qed
  then show "list_all set_ok (effective_of pf k)" by (simp add: effective_of_def list_all_iff)
qed (simp add: effective_of_def)

lemma export_value_ok:
  assumes "list_all set_ok eff" "spaces_ok sp" "set_ok own" "set ms \<subseteq> {Neutral}"
  shows "\<exists>e. export_value scale eff sp own ms = Some e \<and> set_ok e"
proof -
  obtain ps where ps: "merge_all eff ParameterSet_new = Some ps" "set_ok ps" using merge_all_ok [OF assms(1) set_ok_new] by blast
  obtain e where "addExportedParam scale (trim sp own) ps = Some e" "set_ok e"
    using addExportedParam_value [OF trim_ok [OF assms(3,2)] ps(2), of scale] by blast
  then show ?thesis using ps(1) assms(4) by (simp add: export_value_def)
qed

lemma recomputed_fine:
  assumes "platform_ok pf" "sets_fine pf" "m < length pf" "spaces_ok sp" "set_ok e"
  shows "sets_fine (recomputed m sp e pf)"
  using assms(2,5) trim_ok [OF sets_fineD(1) [OF assms(2,3)] assms(4)] effective_of_ok [OF assms(1-3)]
  unfolding sets_fine_def by (simp add: recomputed_def update_module_nth)


section \<open>Graphs without cycles\<close>






section \<open>Invariants of a refresh\<close>

lemma refresh_each_invariant:
  fixes sc :: "u64 \<Rightarrow> 'r \<Rightarrow> u64"
  assumes "refresh_each sc ms pf = Some pf'"
    and closed: "\<And>m sp e pf. P pf \<Longrightarrow> m < length pf \<Longrightarrow> getAllowedSpaces m pf = Some sp \<Longrightarrow>
      export_value sc (effective_of pf m) sp (mIntrinsecParameters (pf ! m)) (mModifier (pf ! m)) = Some e \<Longrightarrow> P (recomputed m sp e pf)"
    and ok: "\<And>pf. P pf \<Longrightarrow> platform_ok pf"
  shows "sc = sc \<and> P pf \<and> set ms \<subseteq> {..<length pf} \<longrightarrow> P pf' \<and> length pf' = length pf"
proof (rule refresh_each.raw_induct [OF _ assms(1), of "\<lambda>scale ms pf pf'. sc = scale \<and> P pf \<and> set ms \<subseteq> {..<length pf} \<longrightarrow> P pf' \<and> length pf' = length pf"], intro impI, elim conjE)
  fix rec :: "(u64 \<Rightarrow> 'r \<Rightarrow> u64) \<Rightarrow> nat list \<Rightarrow> 'r platform \<Rightarrow> 'r platform option"
  fix scale ms and pf pf' :: "'r platform"
  assume ih: "\<And>scale ms pf pf'. rec scale ms pf = Some pf' \<Longrightarrow> sc = scale \<and> P pf \<and> set ms \<subseteq> {..<length pf} \<longrightarrow> P pf' \<and> length pf' = length pf"
  assume sc: "sc = scale" and P: "P pf" and ms: "set ms \<subseteq> {..<length pf}"
  assume body: "(case ms of [] \<Rightarrow> Some pf
      | m # ms' \<Rightarrow> do {
          (newExportedParam, pf) \<leftarrow> new_exported scale m pf;
          pf \<leftarrow> (if \<not> ParameterSet_equal newExportedParam (mExportedParameters (pf ! m))
                then do {
                  let pf = update_module m (\<lambda>v. v\<lparr>mExportedParameters := newExportedParam\<rparr>) pf;
                  rec scale (mPredecessors (pf ! m)) pf
                }
                else Some pf);
          rec scale ms' pf
        }) = Some pf'"
  show "P pf' \<and> length pf' = length pf"
  proof (cases ms)
    case Nil
    then show ?thesis using body P by simp
  next
    case (Cons m ms')
    have m: "m < length pf" using ms Cons by simp
    from body obtain sp e where e: "getAllowedSpaces m pf = Some sp"
        "export_value scale (effective_of pf m) sp (mIntrinsecParameters (pf ! m)) (mModifier (pf ! m)) = Some e"
      and go: "Option.bind (if e = mExportedParameters (pf ! m) then Some (recomputed m sp e pf)
          else rec scale (mPredecessors (pf ! m)) (recomputed m sp e pf)) (rec scale ms') = Some pf'"
      unfolding Cons list.case refresh_body [OF m] by blast
    have r: "P (recomputed m sp e pf)" "length (recomputed m sp e pf) = length pf"
      using closed [OF P m e(1)] e(2) sc by (simp_all add: recomputed_def)
    from go obtain q where q: "(if e = mExportedParameters (pf ! m) then Some (recomputed m sp e pf) else rec scale (mPredecessors (pf ! m)) (recomputed m sp e pf)) = Some q"
      and tail: "rec scale ms' q = Some pf'" by (rule bind_eq_Some_conv [THEN iffD1, THEN exE]) blast
    have "P q \<and> length q = length pf"
      using q r ih [of scale "mPredecessors (pf ! m)"] sc platform_okD(1) [OF ok [OF P] m] by (auto split: if_splits)
    then show ?thesis using ih [OF tail] sc ms Cons by simp
  qed
qed

section \<open>Cycles\<close>

text \<open>The delay a settled module with one successor exports.\<close>

lemma settled_delay:
  assumes "settled scale pf k" "sets_fine pf" "k < length pf" "s < length pf" "set (mModifier (pf ! k)) \<subseteq> {Neutral}"
    and "mSuccessors (pf ! k) = [Some s]" "mNbOutPorts (pf ! k) = 1"
  shows "value_at (mApproximateDelayParameter (mExportedParameters (pf ! k))) =
    overlay (+) (scaled scale (value_at (mApproximateTraversalRateParameter (mIntrinsecParameters (pf ! k))))
        (value_at (mApproximateDelayParameter (mExportedParameters (pf ! s)))))
      (value_at (mApproximateDelayParameter (mIntrinsecParameters (pf ! k))))"
proof -
  have eff: "effective_of pf k = [mExportedParameters (pf ! s)]" using assms(6,7) by (simp add: effective_of_def)
  obtain ps where ps: "mergeImportedParam (mExportedParameters (pf ! s)) ParameterSet_new = Some ps" "set_ok ps"
    "value_at (mApproximateDelayParameter ps) = overlay (max_by delay_less) (value_at (mApproximateDelayParameter (ParameterSet_new :: 'a ParameterSet)))
      (value_at (mApproximateDelayParameter (mExportedParameters (pf ! s))))"
    using mergeImportedParam_value [OF sets_fineD(2) [OF assms(2,4)] set_ok_new] by blast
  obtain e where e: "addExportedParam scale (mIntrinsecParameters (pf ! k)) ps = Some e"
    "value_at (mApproximateDelayParameter e) = overlay (+) (scaled scale (value_at (mApproximateTraversalRateParameter (mIntrinsecParameters (pf ! k))))
        (value_at (mApproximateDelayParameter ps))) (value_at (mApproximateDelayParameter (mIntrinsecParameters (pf ! k))))"
    using addExportedParam_value [OF sets_fineD(1) [OF assms(2,3)] ps(2), of scale] by blast
  have "mExportedParameters (pf ! k) = e" using assms(1) unfolding settled_def eff
    using assms(5) ps(1) e(1) by auto
  moreover have "value_at (mApproximateDelayParameter ps) = value_at (mApproximateDelayParameter (mExportedParameters (pf ! s)))"
    unfolding ps(3) by (auto simp: overlay_def ParameterSet_new_def split: option.split)
  ultimately show ?thesis using e(2) by simp
qed

section \<open>Properties\<close>

definition memory_chain :: "nat platform" where
  "memory_chain =
     [VpsimModule_new ''mem'' memoryMapped (AddrSpace_of 0 99) 0, VpsimModule_new ''cache'' intermediate maxRange 1,
      VpsimModule_new ''cpu'' intermediate maxRange 1]"

definition bound_chain :: "nat platform" where
  "bound_chain =
     [(VpsimModule_new ''mem'' memoryMapped (AddrSpace_of 0 99) 0)\<lparr>mPredecessors := [1]\<rparr>,
      (VpsimModule_new ''cache'' intermediate maxRange 1)\<lparr>mPredecessors := [2], mSuccessors := [Some 0]\<rparr>,
      (VpsimModule_new ''cpu'' intermediate maxRange 1)\<lparr>mSuccessors := [Some 1]\<rparr>]"

lemma chain_bound:
  "Option.bind (addSuccessor (\<lambda>d r. d * of_nat r) 1 0 0 memory_chain) (addSuccessor (\<lambda>d r. d * of_nat r) 2 1 0) = Some bound_chain"
  by code_simp


definition delay_set :: "nat ParameterSet" where
  "delay_set = ParameterSet_new\<lparr>mApproximateDelayParameter := [(AddrSpace_of 0 99, 7)]\<rparr>"


lemma chain_cases:
  "(\<forall>k < length bound_chain. Q k) \<longleftrightarrow> Q 0 \<and> Q 1 \<and> Q 2"
  "(\<exists>k. x = f k \<and> k < length bound_chain \<and> Q k) \<longleftrightarrow> x = f 0 \<and> Q 0 \<or> x = f 1 \<and> Q 1 \<or> x = f 2 \<and> Q 2"
proof -
  have "length bound_chain = 3" by (simp add: bound_chain_def)
  then have lt: "k < length bound_chain \<longleftrightarrow> k = 0 \<or> k = 1 \<or> k = 2" for k by presburger
  show "(\<forall>k < length bound_chain. Q k) \<longleftrightarrow> Q 0 \<and> Q 1 \<and> Q 2"
    "(\<exists>k. x = f k \<and> k < length bound_chain \<and> Q k) \<longleftrightarrow> x = f 0 \<and> Q 0 \<or> x = f 1 \<and> Q 1 \<or> x = f 2 \<and> Q 2" unfolding lt by auto
qed



text \<open>
  when the parameters of a module are refreshed and what it exports turns out to be what it exported before, the refresh stops there: its
  predecessors, whose exported parameters were cleared at the start, are left without any.
\<close>
theorem refresh_unchanged_loses:
  assumes "platform_ok pf" and "m < length pf" and "p \<in> set (mPredecessors (pf ! m))" and "p \<noteq> m"
    and "clearPredecessors m pf = Some pf1" and "new_exported scale m pf1 = Some (e, pf2)"
    and "ParameterSet_equal e (mExportedParameters (pf ! m))"
  shows "\<exists>pf'. refreshParameters scale True m pf = Some pf' \<and> mExportedParameters (pf' ! p) = ParameterSet_new"
proof -
  obtain called pf0 where c: "clear_each (mPredecessors (pf ! m)) [m] pf = Some (called, pf0)"
    and visited: "set (mPredecessors (pf ! m)) \<subseteq> set called" and cl: "cleared [m] called pf pf0"
    using clear_each_ends [OF assms(1) platform_okD(1) [OF assms(1,2)], of "[m]"] by blast
  have pf0: "pf0 = pf1" using c assms(5) by (simp add: clearPredecessors_def)
  have p: "p < length pf" using platform_okD(1) [OF assms(1,2)] assms(3) by auto
  have exp: "mExportedParameters (pf1 ! k) = (if k \<in> set called - set [m] then ParameterSet_new else mExportedParameters (pf ! k))"
    if "k < length pf" for k using cl that unfolding cleared_def pf0 by blast
  have "mExportedParameters (pf1 ! m) = mExportedParameters (pf ! m)" "mExportedParameters (pf1 ! p) = ParameterSet_new"
    unfolding exp [OF assms(2)] exp [OF p] using assms(3,4) visited by auto
  moreover have len: "m < length pf1" using cl assms(2) unfolding cleared_def pf0 same_graph_def by simp
  ultimately have two: "mExportedParameters (pf2 ! m) = mExportedParameters (pf ! m)" "mExportedParameters (pf2 ! p) = ParameterSet_new"
    using assms(6) unfolding new_exported_iff [OF len] by (auto simp: update_module_nth)
  have "refresh_each scale [m] pf1 = Some pf2"
    using assms(6,7) two(1) by (subst refresh_each.simps) simp
  then show ?thesis using two(2) assms(5) by (simp add: refreshParameters_def)
qed

definition delayed_chain :: "nat platform" where
  "delayed_chain = map (\<lambda>v. v\<lparr>mExportedParameters := delay_set, mEffectiveParameters := replicate (mNbOutPorts v) delay_set\<rparr>)
     (update_module 0 (\<lambda>v. v\<lparr>mIntrinsecParameters := delay_set\<rparr>) bound_chain)"

lemma chain_delayed:
  "module_setParameter (\<lambda>d r. d * of_nat r) 0 (AddrSpace_of 0 99) (ApproximateDelay 7) bound_chain = Some delayed_chain"
  by code_simp

theorem refresh_unchanged_loses_witness:
  "\<exists>pf'. refreshParameters (\<lambda>d r. d * of_nat r) True 0 delayed_chain = Some pf' \<and>
     mExportedParameters (delayed_chain ! 1) = delay_set \<and> mExportedParameters (pf' ! 1) = ParameterSet_new"
proof -
  obtain pf1 e pf2 where c: "clearPredecessors 0 delayed_chain = Some pf1" "new_exported (\<lambda>d r. d * of_nat r) 0 pf1 = Some (e, pf2)"
    "ParameterSet_equal e (mExportedParameters (delayed_chain ! 0))"
  proof -
    have "\<exists>pf1 r. clearPredecessors 0 delayed_chain = Some pf1 \<and> new_exported (\<lambda>d r. d * of_nat r) 0 pf1 = Some r \<and>
      ParameterSet_equal (fst r) (mExportedParameters (delayed_chain ! 0))"
    proof (intro exI conjI)
      show "clearPredecessors 0 delayed_chain = Some (the (clearPredecessors 0 delayed_chain))" by code_simp
      show "new_exported (\<lambda>d r. d * of_nat r) 0 (the (clearPredecessors 0 delayed_chain)) =
        Some (the (new_exported (\<lambda>d r. d * of_nat r) 0 (the (clearPredecessors 0 delayed_chain))))" by code_simp
      show "ParameterSet_equal (fst (the (new_exported (\<lambda>d r. d * of_nat r) 0 (the (clearPredecessors 0 delayed_chain))))) (mExportedParameters (delayed_chain ! 0))"
        by code_simp
    qed
    then show ?thesis using that by auto
  qed
  have n: "delayed_chain = [(bound_chain ! 0)\<lparr>mIntrinsecParameters := delay_set, mExportedParameters := delay_set\<rparr>,
      (bound_chain ! 1)\<lparr>mExportedParameters := delay_set, mEffectiveParameters := [delay_set]\<rparr>,
      (bound_chain ! 2)\<lparr>mExportedParameters := delay_set, mEffectiveParameters := [delay_set]\<rparr>]"
    by (simp add: delayed_chain_def bound_chain_def update_module_def VpsimModule_new_def)
  have len: "length delayed_chain = length bound_chain" by (simp add: n bound_chain_def)
  have "platform_ok delayed_chain"
    unfolding platform_ok_def len chain_cases(1) by (simp add: n bound_chain_def VpsimModule_new_def)
  then show ?thesis
    using refresh_unchanged_loses [of delayed_chain 0 1, OF _ _ _ _ c] by (simp add: n bound_chain_def)
qed

text \<open>A memory-mapped module and a bus that is its successor and its predecessor.\<close>

definition loop_platform :: "nat platform" where
  "loop_platform =
     [(VpsimModule_new ''mem'' memoryMapped (AddrSpace_of 0 99) 1)\<lparr>mPredecessors := [1], mSuccessors := [Some 1]\<rparr>,
      (VpsimModule_new ''bus'' intermediate maxRange 1)\<lparr>mPredecessors := [0], mSuccessors := [Some 0]\<rparr>]"

lemma loop_built:
  "Option.bind (addSuccessor (\<lambda>d r. d * of_nat r) 0 1 0
       [VpsimModule_new ''mem'' memoryMapped (AddrSpace_of 0 99) 1, VpsimModule_new ''bus'' intermediate maxRange 1])
     (addSuccessor (\<lambda>d r. d * of_nat r) 1 0 0) = Some loop_platform"
  by code_simp

lemma loop_spaces: "getAllowedSpaces 0 loop_platform = Some [AddrSpace_of 0 99]" "getAllowedSpaces 1 loop_platform = Some [AddrSpace_of 0 99]"
  by code_simp+

definition looping :: "u64 \<Rightarrow> nat platform \<Rightarrow> bool" where
  "looping d pf \<longleftrightarrow> same_graph loop_platform pf \<and> platform_ok pf \<and> sets_fine pf \<and>
     value_at (mApproximateDelayParameter (mIntrinsecParameters (pf ! 0))) 0 = Some d \<and>
     value_at (mApproximateTraversalRateParameter (mIntrinsecParameters (pf ! 0))) 0 = None \<and>
     value_at (mApproximateDelayParameter (mIntrinsecParameters (pf ! 1))) 0 = None \<and>
     value_at (mApproximateTraversalRateParameter (mIntrinsecParameters (pf ! 1))) 0 = None"

lemma trim_values:
  assumes "set_ok ps" "spaces_ok sp"
  shows "value_at (mApproximateDelayParameter (trim sp ps)) a = (if allows sp a then value_at (mApproximateDelayParameter ps) a else None)"
    "value_at (mApproximateTraversalRateParameter (trim sp ps)) a = (if allows sp a then value_at (mApproximateTraversalRateParameter ps) a else None)"
  using assms by (simp_all add: trim_def set_ok_def trim_container_value allows_def)

lemma looping_recomputed:
  assumes "looping d pf" "m < length pf" "getAllowedSpaces m pf = Some sp"
    and "export_value scale (effective_of pf m) sp (mIntrinsecParameters (pf ! m)) (mModifier (pf ! m)) = Some e"
  shows "looping d (recomputed m sp e pf)"
proof -
  have pf: "same_graph loop_platform pf" "platform_ok pf" "sets_fine pf" using assms(1) by (simp_all add: looping_def)
  have len: "length pf = 2" using pf(1) by (simp add: same_graph_def loop_platform_def)
  then have m: "m = 0 \<or> m = 1" using assms(2) by auto
  then have sp: "sp = [AddrSpace_of 0 99]" using assms(3) loop_spaces unfolding getAllowedSpaces_graph [OF pf(1)] by auto
  have sok: "spaces_ok sp" and al: "allows sp 0" unfolding sp by code_simp+
  have "mModifier (pf ! m) = mModifier (loop_platform ! m)" using pf(1) unfolding same_graph_def by blast
  then have "set (mModifier (pf ! m)) \<subseteq> {Neutral}" using m by (auto simp: loop_platform_def VpsimModule_new_def)
  from export_value_ok [OF effective_of_ok(1) [OF pf(2,3) assms(2)] sok sets_fineD(1) [OF pf(3) assms(2)] this, of scale]
  have "set_ok e" using assms(4) by simp
  then have fine: "sets_fine (recomputed m sp e pf)" by (rule recomputed_fine [OF pf(2,3) assms(2) sok])
  note g = recomputed_graph [of pf m sp e]
  have "mIntrinsecParameters (recomputed m sp e pf ! k) = (if k = m then trim sp (mIntrinsecParameters (pf ! k)) else mIntrinsecParameters (pf ! k))" for k
    using assms(2) by (simp add: recomputed_def update_module_nth)
  moreover note trim_values [OF sets_fineD(1) [OF pf(3) assms(2)] sok, of 0]
  ultimately show ?thesis
    using assms(1) fine same_graph_trans [OF pf(1) g] pf(2) platform_ok_graph [OF g] al by (auto simp: looping_def)
qed

text \<open>
  a cycle through a module with a delay of its own never settles: once a delay other than zero is set on the memory, every exported delay
  asks for a larger one around the cycle, and setting the parameter has no result, whatever the traversal rates mean.
\<close>
theorem loop_refresh_never_returns:
  assumes "d \<noteq> 0"
  shows "module_setParameter scale 0 (AddrSpace_of 0 99) (ApproximateDelay d) loop_platform = None"
proof (rule ccontr)
  define own where "own = (ParameterSet_new :: nat ParameterSet)\<lparr>mApproximateDelayParameter := [(AddrSpace_of 0 99, d)]\<rparr>"
  define pf where "pf = update_module 0 (\<lambda>v. v\<lparr>mIntrinsecParameters := own\<rparr>) loop_platform"
  assume "module_setParameter scale 0 (AddrSpace_of 0 99) (ApproximateDelay d) loop_platform \<noteq> None"
  moreover have "setParameter (AddrSpace_of 0 99) (ApproximateDelay d) (mIntrinsecParameters (loop_platform ! 0)) = Some own"
    by (simp add: loop_platform_def VpsimModule_new_def setParameter_def setParameterHelper_def set_each.simps sort_container_def own_def ParameterSet_new_def)
  moreover have clear: "clearPredecessors 0 pf = Some pf"
    by (simp add: clearPredecessors_def pf_def loop_platform_def update_module_def VpsimModule_new_def clear_each_Cons)
  ultimately obtain pf' where go: "refresh_each scale [0] pf = Some pf'"
    by (auto simp: module_setParameter_def refreshParameters_def pf_def)
  have len: "length pf = 2" by (simp add: pf_def loop_platform_def)
  have nth: "pf ! 0 = (loop_platform ! 0)\<lparr>mIntrinsecParameters := own\<rparr>" "pf ! 1 = loop_platform ! 1"
    by (simp_all add: pf_def update_module_def loop_platform_def)
  have two: "(\<forall>k < 2. Q k) \<longleftrightarrow> Q 0 \<and> Q 1" for Q :: "nat \<Rightarrow> bool" by (auto simp: less_2_cases_iff)
  have "same_graph loop_platform pf" unfolding pf_def by (rule same_graph_update) simp
  moreover have "platform_ok pf"
    unfolding platform_ok_def len two nth by (simp add: loop_platform_def pf_def update_module_def VpsimModule_new_def)
  moreover have "set_ok own" by (simp add: own_def set_ok_def ParameterSet_new_def wf_space_def AddrSpace_of_def)
  then have "sets_fine pf" unfolding sets_fine_def len two nth by (simp add: loop_platform_def VpsimModule_new_def)
  ultimately have start: "looping d pf"
    unfolding looping_def nth by (simp add: loop_platform_def VpsimModule_new_def own_def ParameterSet_new_def)
  have "settled scale pf 1"
    unfolding settled_def effective_of_def nth
    by (simp add: loop_platform_def VpsimModule_new_def ParameterSet_new_def nth [unfolded loop_platform_def]
      mergeImportedParam_def merge_container_def addExportedParam_def sort_container_def defrag.simps applyNonRecursive_def)
  moreover have all: "settled scale pf' k" if "k < 2" "k = 0 \<or> settled scale pf k" for k
    using refresh_each_settles [OF go] start len that unfolding looping_def by auto
  ultimately have sett: "settled scale pf' 0" "settled scale pf' 1" using all [of 0] all [of 1] by simp_all
  have inv: "looping d pf'" "length pf' = 2"
    using refresh_each_invariant [OF go, of "looping d"] looping_recomputed start len by (auto simp: looping_def)
  then have fine: "sets_fine pf'" and g: "same_graph loop_platform pf'" by (simp_all add: looping_def)
  have links: "mSuccessors (pf' ! k) = mSuccessors (loop_platform ! k)" "mNbOutPorts (pf' ! k) = mNbOutPorts (loop_platform ! k)"
    "mModifier (pf' ! k) = mModifier (loop_platform ! k)" for k using g unfolding same_graph_def by blast+
  let ?x = "\<lambda>k. value_at (mApproximateDelayParameter (mExportedParameters (pf' ! k))) 0"
  have "?x 1 = ?x 0"
    using settled_delay [OF sett(2) fine, of 0] inv unfolding links by (simp add: loop_platform_def VpsimModule_new_def looping_def overlay_def scaled_def split: option.split)
  moreover have "?x 0 = (case ?x 1 of None \<Rightarrow> Some d | Some x \<Rightarrow> Some (x + d))"
    using settled_delay [OF sett(1) fine, of 1] inv unfolding links by (simp add: loop_platform_def VpsimModule_new_def looping_def overlay_def scaled_def split: option.split)
  ultimately have "?x 1 = (case ?x 1 of None \<Rightarrow> Some d | Some x \<Rightarrow> Some (x + d))" by argo
  then show False using assms by (cases "?x 1") simp_all
qed

theorem loop_refresh_never_returns_witness:
  "(5 :: u64) \<noteq> 0 \<and> module_setParameter (\<lambda>d r. d * of_nat r) 0 (AddrSpace_of 0 99) (ApproximateDelay 5) loop_platform = None"
  using loop_refresh_never_returns [of 5] by simp

end
