(* ===== verification/NocDijkstra.thy ===== *)
theory NocDijkstra
  imports VP_Prelude "HOL-Library.Multiset" "HOL-Library.Product_Lexorder"
begin

text \<open>
  The shortest-path search of the detailed networks on chip (\<open>components/connect/dijkstra.cpp\<close>).
  A graph is the list of the outgoing edges of its vertices. The distances, floats in the code, are natural numbers (the only
  caller passes the weight 1, and such sums are exact) and the largest float, which means unknown, is \<open>None\<close>; so is the parent \<open>-1\<close>.
  The priority queue of the C++ library leaves open which of several minimal entries is on top: it
  is a parameter, with the laws of the locale \<open>priority_queue\<close>. An index outside a vector is \<open>None\<close>.
\<close>

section \<open>Priority queues\<close>

type_synonym entry = "nat \<times> nat"

record 'q queue_ops =
  q_new :: 'q
  q_empty :: "'q \<Rightarrow> bool"
  q_push :: "entry \<Rightarrow> 'q \<Rightarrow> 'q"
  q_top :: "'q \<Rightarrow> entry"
  q_pop :: "'q \<Rightarrow> 'q"

locale priority_queue =
  fixes ops :: "'q queue_ops" and entries :: "'q \<Rightarrow> entry multiset"
  assumes new_law: "entries (q_new ops) = {#}"
    and empty_law: "q_empty ops q \<longleftrightarrow> entries q = {#}"
    and push_law: "entries (q_push ops e q) = add_mset e (entries q)"
    and top_law: "entries q \<noteq> {#} \<Longrightarrow> q_top ops q \<in># entries q \<and> (\<forall>e \<in># entries q. snd (q_top ops q) \<le> snd e)"
    and pop_law: "entries q \<noteq> {#} \<Longrightarrow> entries (q_pop ops q) = entries q - {#q_top ops q#}"

text \<open>The queue as a list in ascending order.\<close>

definition sorted_queue :: "entry list queue_ops" where
  "sorted_queue = \<lparr>q_new = [], q_empty = (\<lambda>q. q = []), q_push = (\<lambda>e q. insort_key snd e q), q_top = (\<lambda>q. hd (sort_key snd q)),
     q_pop = (\<lambda>q. tl (sort_key snd q))\<rparr>"

interpretation ascending: priority_queue sorted_queue mset
proof (unfold_locales, unfold sorted_queue_def queue_ops.simps)
  fix q :: "entry list" and e
  show "q = [] \<longleftrightarrow> mset q = {#}" by simp
  show "mset (insort_key snd e q) = add_mset e (mset q)" by simp
  assume "mset q \<noteq> {#}"
  then obtain x xs where x: "sort_key snd q = x # xs" by (metis mset.simps(1) mset_sort list.exhaust)
  have m: "mset q = add_mset x (mset xs)" by (metis x mset.simps(2) mset_sort)
  have "sorted (map snd (sort_key snd q))" by simp
  then have "\<forall>e \<in> set xs. snd x \<le> snd e" by (simp add: x)
  then show "hd (sort_key snd q) \<in># mset q \<and> (\<forall>e \<in># mset q. snd (hd (sort_key snd q)) \<le> snd e)" by (simp add: x m)
  show "mset (tl (sort_key snd q)) = mset q - {#hd (sort_key snd q)#}" by (simp add: x m)
qed simp

section \<open>The search\<close>

type_synonym graph = "(nat \<times> nat) list list"

record 'q search =
  dist_of :: "nat option list"
  parent :: "nat option list"
  queue :: 'q

definition longer :: "nat option \<Rightarrow> nat \<Rightarrow> bool" where
  "longer x y = (case x of None \<Rightarrow> True | Some z \<Rightarrow> z > y)"

text \<open>The loop over the edges of \<open>u\<close>.\<close>

fun relax :: "'q queue_ops \<Rightarrow> nat \<Rightarrow> (nat \<times> nat) list \<Rightarrow> 'q search \<Rightarrow> 'q search option" where
  "relax ops u [] s = Some s"
| "relax ops u ((v, w) # es) s =
     do {
       _ \<leftarrow> cassert (v < length (dist_of s));
       let s = (case dist_of s ! u of
           None \<Rightarrow> s
         | Some du \<Rightarrow>
             if longer (dist_of s ! v) (du + w)
             then s\<lparr>dist_of := (dist_of s)[v := Some (du + w)], parent := (parent s)[v := Some u], queue := q_push ops (v, du + w) (queue s)\<rparr>
             else s);
       relax ops u es s
     }"

partial_function (option) search_loop :: "'q queue_ops \<Rightarrow> graph \<Rightarrow> nat \<Rightarrow> 'q search \<Rightarrow> 'q search option" where
  "search_loop ops G destination s =
     (if q_empty ops (queue s) then Some s
      else
        (let u = fst (q_top ops (queue s)) in
         if u = destination then Some s
         else if u < length G then
           Option.bind (relax ops u (G ! u) (s\<lparr>queue := q_pop ops (queue s)\<rparr>)) (search_loop ops G destination)
         else None))"

declare search_loop.simps [code]

definition search_start :: "'q queue_ops \<Rightarrow> graph \<Rightarrow> nat \<Rightarrow> 'q search" where
  "search_start ops G source =
     \<lparr>dist_of = (replicate (length G) None)[source := Some 0], parent = replicate (length G) None, queue = q_push ops (source, 0) (q_new ops)\<rparr>"

text \<open>The path is read off backwards. A vertex without a parent leads to the index \<open>-1\<close>.\<close>

partial_function (option) back_path :: "nat option list \<Rightarrow> nat \<Rightarrow> nat \<Rightarrow> nat list option" where
  "back_path par source p =
     (if p = source then Some []
      else if p < length par then
        (case par ! p of
           None \<Rightarrow> None
         | Some q \<Rightarrow> do { path \<leftarrow> back_path par source q; Some (q # path) })
      else None)"

declare back_path.simps [code]

definition dijkstra :: "'q queue_ops \<Rightarrow> graph \<Rightarrow> nat \<Rightarrow> nat \<Rightarrow> nat list option" where
  "dijkstra ops G source destination =
     do {
       _ \<leftarrow> cassert (source < length G);
       s \<leftarrow> search_loop ops G destination (search_start ops G source);
       map_option ((#) destination) (back_path (parent s) source destination)
     }"

section \<open>Walks\<close>

inductive walk :: "graph \<Rightarrow> nat \<Rightarrow> nat \<Rightarrow> nat \<Rightarrow> bool" for G s where
  walk_refl: "walk G s s 0"
| walk_step: "walk G s u x \<Longrightarrow> u < length G \<Longrightarrow> (v, w) \<in> set (G ! u) \<Longrightarrow> walk G s v (x + w)"

text \<open>A path as the code returns it, destination first, with its weight.\<close>

fun back_walk :: "graph \<Rightarrow> nat list \<Rightarrow> nat \<Rightarrow> bool" where
  "back_walk G [] x \<longleftrightarrow> False"
| "back_walk G [v] x \<longleftrightarrow> x = 0"
| "back_walk G (v # u # p) x \<longleftrightarrow> u < length G \<and> (\<exists>w. (v, w) \<in> set (G ! u) \<and> w \<le> x \<and> back_walk G (u # p) (x - w))"

lemma back_walk_walk: "back_walk G p x \<Longrightarrow> walk G (last p) (hd p) x"
proof (induction G p x rule: back_walk.induct)
  case (2 G v x)
  then show ?case by (simp add: walk_refl)
next
  case (3 G v u p x)
  then obtain w where w: "u < length G" "(v, w) \<in> set (G ! u)" "w \<le> x" "back_walk G (u # p) (x - w)" by auto
  then have "walk G (last (u # p)) u (x - w)" using "3.IH" by simp
  from walk_step [OF this w(1,2)] show ?case using w(3) by simp
qed simp

definition graph_ok :: "graph \<Rightarrow> bool" where
  "graph_ok G \<longleftrightarrow> (\<forall>u < length G. \<forall>(v, w) \<in> set (G ! u). v < length G \<and> w > 0)"

lemma graph_okD: "graph_ok G \<Longrightarrow> u < length G \<Longrightarrow> (v, w) \<in> set (G ! u) \<Longrightarrow> v < length G \<and> 0 < w"
  by (auto simp: graph_ok_def)

lemma walk_bound: "graph_ok G \<Longrightarrow> s < length G \<Longrightarrow> walk G s v x \<Longrightarrow> v < length G"
  by (erule walk.induct) (auto dest: graph_okD)

section \<open>The invariant of the search\<close>

definition found :: "'q search \<Rightarrow> nat \<Rightarrow> nat \<Rightarrow> bool" where
  "found s v x \<longleftrightarrow> v < length (dist_of s) \<and> dist_of s ! v = Some x"

text \<open>
  The known distances come with a parent that explains them, the queue knows every vertex whose edges are still to be
  relaxed, and its entries are no shorter than the known distances.
\<close>

definition relaxed :: "graph \<Rightarrow> 'q search \<Rightarrow> nat \<Rightarrow> nat \<Rightarrow> bool" where
  "relaxed G s u x \<longleftrightarrow> (\<forall>(v, w) \<in> set (G ! u). \<exists>y \<le> x + w. found s v y)"

definition explained :: "graph \<Rightarrow> nat \<Rightarrow> 'q search \<Rightarrow> bool" where
  "explained G source s \<longleftrightarrow> length (dist_of s) = length G \<and> length (parent s) = length G \<and> found s source 0 \<and>
     (\<forall>v x. found s v x \<longrightarrow> v = source \<or>
        (\<exists>u w y. parent s ! v = Some u \<and> u < length G \<and> (v, w) \<in> set (G ! u) \<and> found s u y \<and> y + w \<le> x)) \<and>
     (\<forall>v < length G. dist_of s ! v = None \<longrightarrow> parent s ! v = None)"

definition queue_fits :: "('q \<Rightarrow> entry multiset) \<Rightarrow> 'q search \<Rightarrow> bool" where
  "queue_fits entries s \<longleftrightarrow> (\<forall>(v, k) \<in># entries (queue s). \<exists>x \<le> k. found s v x)"

definition pending :: "('q \<Rightarrow> entry multiset) \<Rightarrow> graph \<Rightarrow> 'q search \<Rightarrow> nat set \<Rightarrow> bool" where
  "pending entries G s X \<longleftrightarrow> (\<forall>u x. found s u x \<and> u \<notin> X \<longrightarrow> (u, x) \<in># entries (queue s) \<or> relaxed G s u x)"

definition search_inv :: "('q \<Rightarrow> entry multiset) \<Rightarrow> graph \<Rightarrow> nat \<Rightarrow> 'q search \<Rightarrow> nat set \<Rightarrow> bool" where
  "search_inv entries G source s X \<longleftrightarrow> explained G source s \<and> queue_fits entries s \<and> pending entries G s X"

text \<open>Setting a shorter distance.\<close>

definition improve :: "'q queue_ops \<Rightarrow> nat \<Rightarrow> nat \<Rightarrow> nat \<Rightarrow> 'q search \<Rightarrow> 'q search" where
  "improve ops u v x s = s\<lparr>dist_of := (dist_of s)[v := Some x], parent := (parent s)[v := Some u], queue := q_push ops (v, x) (queue s)\<rparr>"

lemma found_improve:
  "v < length (dist_of s) \<Longrightarrow> found (improve ops u v x s) t y \<longleftrightarrow> (if t = v then y = x else found s t y)"
  by (auto simp: found_def improve_def nth_list_update)

lemma found_unique: "found s v x \<Longrightarrow> found s v y \<Longrightarrow> x = y"
  by (simp add: found_def)

lemma improve_shorter:
  assumes "v < length (dist_of s)" "longer (dist_of s ! v) x" "found s t y"
  shows "\<exists>z \<le> y. found (improve ops u v x s) t z"
proof (cases "t = v")
  case True
  then have "x \<le> y" using assms(2,3) by (simp add: found_def longer_def)
  moreover have "found (improve ops u v x s) t x" using True assms(1) by (simp add: found_improve)
  ultimately show ?thesis by blast
next
  case False
  then have "found (improve ops u v x s) t y" using assms(1,3) by (simp add: found_improve)
  then show ?thesis by blast
qed

lemma relaxed_improve:
  assumes "v < length (dist_of s)" "longer (dist_of s ! v) x" "relaxed G s t z"
  shows "relaxed G (improve ops u v x s) t z"
  unfolding relaxed_def
proof (clarify)
  fix a w assume "(a, w) \<in> set (G ! t)"
  then obtain y where "y \<le> z + w" "found s a y" using assms(3) by (auto simp: relaxed_def)
  then show "\<exists>y \<le> z + w. found (improve ops u v x s) a y" using improve_shorter [OF assms(1,2)] by (meson order_trans)
qed

lemma explained_improve:
  assumes "explained G source s" "v < length G" "found s u du" "u < length G" "(v, w) \<in> set (G ! u)" "longer (dist_of s ! v) (du + w)" "0 < w"
  shows "explained G source (improve ops u v (du + w) s)"
proof -
  let ?s = "improve ops u v (du + w) s"
  have len: "length (dist_of s) = length G" "length (parent s) = length G" and src: "found s source 0"
    and old: "\<And>t x. found s t x \<Longrightarrow> t = source \<or>
        (\<exists>u w y. parent s ! t = Some u \<and> u < length G \<and> (t, w) \<in> set (G ! u) \<and> found s u y \<and> y + w \<le> x)"
    and none: "\<And>t. t < length G \<Longrightarrow> dist_of s ! t = None \<Longrightarrow> parent s ! t = None"
    using assms(1) unfolding explained_def by blast+
  have v: "v < length (dist_of s)" using assms(2) len by simp
  have vs: "v \<noteq> source" using assms(6) src by (auto simp: found_def longer_def)
  have uv: "u \<noteq> v" using assms(3,6) by (auto simp: found_def longer_def)
  have "t = source \<or> (\<exists>u w y. parent ?s ! t = Some u \<and> u < length G \<and> (t, w) \<in> set (G ! u) \<and> found ?s u y \<and> y + w \<le> x)"
    if t: "found ?s t x" for t x
  proof (cases "t = v")
    case True
    then have "x = du + w" "parent ?s ! t = Some u" using t v len assms(2) by (simp_all add: found_improve [OF v]) (simp add: improve_def)
    moreover have "found ?s u du" using uv assms(3) by (simp add: found_improve [OF v])
    ultimately show ?thesis using assms(4,5) True by blast
  next
    case False
    then have "found s t x" "parent ?s ! t = parent s ! t" using t by (simp_all add: found_improve [OF v]) (simp add: improve_def)
    moreover have "\<exists>z \<le> y. found ?s a z" if "found s a y" for a y using improve_shorter [OF v assms(6) that] .
    ultimately show ?thesis using old [of t x] by (metis add_le_mono order_refl order_trans)
  qed
  moreover have "parent ?s ! t = None" if "t < length G" "dist_of ?s ! t = None" for t
    using that none v len by (auto simp: improve_def nth_list_update split: if_splits)
  moreover have "found ?s source 0" using vs src by (simp add: found_improve [OF v])
  ultimately show ?thesis using len unfolding explained_def by (simp add: improve_def)
qed

context priority_queue
begin

lemma queue_fits_improve:
  assumes "queue_fits entries s" "v < length (dist_of s)" "longer (dist_of s ! v) x"
  shows "queue_fits entries (improve ops u v x s)"
proof -
  have "\<exists>z \<le> k. found (improve ops u v x s) t z" if "(t, k) \<in># entries (queue s)" for t k
  proof -
    obtain y where "y \<le> k" "found s t y" using assms(1) \<open>(t, k) \<in># entries (queue s)\<close> by (auto simp: queue_fits_def)
    then show ?thesis using improve_shorter [OF assms(2,3)] by (meson order_trans)
  qed
  moreover have "found (improve ops u v x s) v x" using assms(2) by (simp add: found_improve)
  moreover have "entries (queue (improve ops u v x s)) = add_mset (v, x) (entries (queue s))" by (simp add: improve_def push_law)
  ultimately show ?thesis by (auto simp: queue_fits_def)
qed

lemma pending_improve:
  assumes "pending entries G s X" "v < length (dist_of s)" "longer (dist_of s ! v) x"
  shows "pending entries G (improve ops u v x s) X"
proof -
  have q: "entries (queue (improve ops u v x s)) = add_mset (v, x) (entries (queue s))" by (simp add: improve_def push_law)
  show ?thesis
    unfolding pending_def q
  proof (intro allI impI, elim conjE)
    fix t y assume t: "found (improve ops u v x s) t y" "t \<notin> X"
    then show "(t, y) \<in># add_mset (v, x) (entries (queue s)) \<or> relaxed G (improve ops u v x s) t y"
    proof (cases "t = v")
      case True
      then show ?thesis using t(1) assms(2) by (simp add: found_improve)
    next
      case False
      then have "(t, y) \<in># entries (queue s) \<or> relaxed G s t y" using t assms(1,2) unfolding pending_def by (simp add: found_improve)
      then show ?thesis using relaxed_improve [OF assms(2,3)] by auto
    qed
  qed
qed

end

text \<open>Every improvement makes an unknown distance known or a known one shorter.\<close>

definition unknown :: "'q search \<Rightarrow> nat" where
  "unknown s = (\<Sum>i < length (dist_of s). case dist_of s ! i of None \<Rightarrow> 1 | Some _ \<Rightarrow> 0)"

definition total :: "'q search \<Rightarrow> nat" where
  "total s = (\<Sum>i < length (dist_of s). case dist_of s ! i of None \<Rightarrow> 0 | Some x \<Rightarrow> x)"

lemma sum_list_update:
  fixes f :: "'a \<Rightarrow> nat"
  assumes "v < length xs"
  shows "(\<Sum>i < length (xs[v := y]). f (xs[v := y] ! i)) + f (xs ! v) = (\<Sum>i < length xs. f (xs ! i)) + f y"
proof -
  let ?I = "{..<length xs} - {v}"
  have I: "{..<length xs} = insert v ?I" using assms by auto
  have same: "(\<Sum>i \<in> ?I. f (xs[v := y] ! i)) = (\<Sum>i \<in> ?I. f (xs ! i))" by (rule sum.cong) auto
  have "(\<Sum>i < length xs. f (xs ! i)) = f (xs ! v) + (\<Sum>i \<in> ?I. f (xs ! i))" by (subst I, subst sum.insert) auto
  moreover have "(\<Sum>i < length xs. f (xs[v := y] ! i)) = f y + (\<Sum>i \<in> ?I. f (xs[v := y] ! i))" using assms by (subst I, subst sum.insert) auto
  ultimately show ?thesis using same by simp
qed

lemma improve_measure:
  assumes "v < length (dist_of s)" "longer (dist_of s ! v) x"
  shows "(unknown (improve ops u v x s), total (improve ops u v x s)) < (unknown s, total s)"
  using sum_list_update [OF assms(1), of "case_option 1 (\<lambda>_. 0)" "Some x"] sum_list_update [OF assms(1), of "case_option 0 (\<lambda>x. x)" "Some x"] assms(2)
  by (cases "dist_of s ! v") (simp_all add: improve_def unknown_def total_def longer_def less_prod_def)

context priority_queue
begin

lemma relax_keeps:
  assumes "graph_ok G" "u < length G"
  shows "search_inv entries G source s {u} \<Longrightarrow> found s u du \<Longrightarrow> set es \<subseteq> set (G ! u) \<Longrightarrow>
    \<exists>s'. relax ops u es s = Some s' \<and> search_inv entries G source s' {u} \<and> found s' u du \<and> (\<forall>t y. found s t y \<longrightarrow> (\<exists>z \<le> y. found s' t z)) \<and>
      (\<forall>(v, w) \<in> set es. \<exists>y \<le> du + w. found s' v y) \<and>
      (s' = s \<or> (unknown s', total s') < (unknown s, total s))"
proof (induction es arbitrary: s)
  case Nil
  then show ?case by auto
next
  case (Cons e es)
  obtain v w where e: "e = (v, w)" by force
  have edge: "(v, w) \<in> set (G ! u)" "v < length G" "0 < w" using Cons.prems(3) graph_okD [OF assms] e by auto
  have len: "length (dist_of s) = length G" using Cons.prems(1) by (simp add: search_inv_def explained_def)
  then have v: "v < length (dist_of s)" using edge(2) by simp
  have du: "dist_of s ! u = Some du" using Cons.prems(2) by (simp add: found_def)
  define s1 where "s1 = (if longer (dist_of s ! v) (du + w) then improve ops u v (du + w) s else s)"
  have step: "relax ops u (e # es) s = relax ops u es s1"
    using v du by (simp add: e s1_def improve_def)
  have "v \<noteq> u" if "longer (dist_of s ! v) (du + w)" using that du by (auto simp: longer_def)
  then have u1: "found s1 u du" using Cons.prems(2) by (auto simp: s1_def found_improve [OF v])
  have inv1: "search_inv entries G source s1 {u}"
    using Cons.prems(1,2) explained_improve [OF _ edge(2) _ assms(2) edge(1) _ edge(3)] queue_fits_improve [OF _ v] pending_improve [OF _ v]
    by (auto simp: s1_def search_inv_def)
  have closer: "\<exists>z \<le> y. found s1 t z" if "found s t y" for t y
    using improve_shorter [OF v _ that] that by (auto simp: s1_def)
  have reached: "\<exists>y \<le> du + w. found s1 v y"
  proof (cases "longer (dist_of s ! v) (du + w)")
    case True
    then show ?thesis by (auto simp: s1_def found_improve [OF v])
  next
    case False
    then show ?thesis using v by (auto simp: s1_def found_def longer_def not_less split: option.splits)
  qed
  have less: "s1 = s \<or> (unknown s1, total s1) < (unknown s, total s)"
    using improve_measure [OF v] by (simp add: s1_def)
  obtain s' where s': "relax ops u es s1 = Some s'" "search_inv entries G source s' {u}" "found s' u du" "\<forall>t y. found s1 t y \<longrightarrow> (\<exists>z \<le> y. found s' t z)"
    "\<forall>(v, w) \<in> set es. \<exists>y \<le> du + w. found s' v y" "s' = s1 \<or> (unknown s', total s') < (unknown s1, total s1)"
    using Cons.IH [OF inv1 u1] Cons.prems(3) by auto
  have "\<exists>z \<le> y. found s' t z" if "found s t y" for t y using closer [OF that] s'(4) by (meson order_trans)
  moreover have "\<exists>y \<le> du + w. found s' v y" using reached s'(4) by (meson order_trans)
  moreover have "s' = s \<or> (unknown s', total s') < (unknown s, total s)" using less s'(6) by (meson order.strict_trans)
  ultimately show ?case using step s'(1-3,5) by (simp add: e)
qed

lemma search_returns:
  assumes "graph_ok G" "search_inv entries G source s {}"
  shows "\<exists>s'. search_loop ops G dest s = Some s' \<and> search_inv entries G source s' {} \<and>
    (entries (queue s') = {#} \<or> fst (q_top ops (queue s')) = dest \<and> entries (queue s') \<noteq> {#})"
  using assms(2)
proof (induction "((unknown s, total s), size (entries (queue s)))" arbitrary: s rule: less_induct)
  case less
  let ?u = "fst (q_top ops (queue s))" and ?k = "snd (q_top ops (queue s))"
  show ?case
  proof (cases "entries (queue s) = {#} \<or> ?u = dest")
    case True
    then show ?thesis using less.prems by (subst search_loop.simps) (auto simp: empty_law)
  next
    case False
    then have ne: "entries (queue s) \<noteq> {#}" "?u \<noteq> dest" by simp_all
    have top: "(?u, ?k) \<in># entries (queue s)" using top_law [OF ne(1)] by simp
    define s0 where "s0 = s\<lparr>queue := q_pop ops (queue s)\<rparr>"
    have q0: "entries (queue s0) = entries (queue s) - {#(?u, ?k)#}" using pop_law [OF ne(1)] by (simp add: s0_def)
    have f0: "found s0 = found s" by (simp add: fun_eq_iff found_def s0_def)
    obtain du where du: "found s ?u du" "du \<le> ?k" using less.prems top by (auto simp: search_inv_def queue_fits_def)
    have u: "?u < length G" using du(1) less.prems by (simp add: found_def search_inv_def explained_def)
    have rel: "relaxed G s0 = relaxed G s" by (simp add: fun_eq_iff relaxed_def f0)
    have "explained G source s0" using less.prems f0 by (simp add: search_inv_def explained_def s0_def)
    moreover have "queue_fits entries s0" using less.prems unfolding search_inv_def queue_fits_def q0 f0 by (meson in_diffD)
    moreover have "pending entries G s0 {?u}"
      unfolding pending_def f0 rel q0
    proof (intro allI impI, elim conjE)
      fix t x assume "found s t x" "t \<notin> {?u}"
      then show "(t, x) \<in># entries (queue s) - {#(?u, ?k)#} \<or> relaxed G s t x"
        using less.prems by (auto simp: search_inv_def pending_def in_diff_count)
    qed
    ultimately have inv0: "search_inv entries G source s0 {?u}" by (simp add: search_inv_def)
    have fu: "found s0 ?u du" using du(1) by (simp add: f0)
    obtain s1 where s1: "relax ops ?u (G ! ?u) s0 = Some s1" "search_inv entries G source s1 {?u}" "found s1 ?u du"
      "\<forall>(v, w) \<in> set (G ! ?u). \<exists>y \<le> du + w. found s1 v y" "s1 = s0 \<or> (unknown s1, total s1) < (unknown s0, total s0)"
      using relax_keeps [OF assms(1) u inv0 fu subset_refl] by blast
    have "relaxed G s1 ?u du" using s1(4) by (simp add: relaxed_def)
    then have "search_inv entries G source s1 {}"
      using s1(2,3) found_unique unfolding search_inv_def pending_def by (metis empty_iff singletonD)
    moreover have "(unknown s0, total s0) = (unknown s, total s)" by (simp add: s0_def unknown_def total_def)
    then have "((unknown s1, total s1), size (entries (queue s1))) < ((unknown s, total s), size (entries (queue s)))"
      using s1(5) q0 top ne(1) [unfolded nonempty_has_size] by (auto simp: less_prod_def size_Diff_singleton_if)
    ultimately obtain s' where "search_loop ops G dest s1 = Some s'" "search_inv entries G source s' {}"
      "entries (queue s') = {#} \<or> fst (q_top ops (queue s')) = dest \<and> entries (queue s') \<noteq> {#}" using less.hyps by blast
    then show ?thesis using ne u s1(1) by (subst search_loop.simps) (simp add: empty_law s0_def Let_def)
  qed
qed

lemma walk_covered:
  assumes "search_inv entries G source s {}" "walk G source v W"
  shows "(\<exists>x \<le> W. found s v x) \<or> (\<exists>(t, k) \<in># entries (queue s). k \<le> W)"
  using assms(2)
proof induction
  case walk_refl
  then show ?case using assms(1) by (auto simp: search_inv_def explained_def)
next
  case (walk_step u x v w)
  then consider z where "z \<le> x" "found s u z" | "\<exists>(t, k) \<in># entries (queue s). k \<le> x" by blast
  then show ?case
  proof cases
    case 1
    then consider "(u, z) \<in># entries (queue s)" | "relaxed G s u z" using assms(1) by (auto simp: search_inv_def pending_def)
    then show ?thesis
    proof cases
      case 1
      then show ?thesis using \<open>z \<le> x\<close> by (intro disjI2 bexI [of _ "(u, z)"]) auto
    next
      case 2
      then obtain y where "y \<le> z + w" "found s v y" using walk_step.hyps(3) by (auto simp: relaxed_def)
      then show ?thesis using \<open>z \<le> x\<close> by (metis add_le_mono1 order_trans)
    qed
  next
    case 2
    then show ?thesis by (fastforce simp: trans_le_add1)
  qed
qed

lemma search_finds:
  assumes "search_inv entries G source s {}" "walk G source dest W"
    and "entries (queue s) = {#} \<or> fst (q_top ops (queue s)) = dest \<and> entries (queue s) \<noteq> {#}"
  shows "\<exists>x \<le> W. found s dest x"
proof (cases "\<exists>x \<le> W. found s dest x")
  case False
  then obtain t k where k: "(t, k) \<in># entries (queue s)" "k \<le> W" using walk_covered [OF assms(1,2)] by blast
  then have ne: "entries (queue s) \<noteq> {#}" and top: "fst (q_top ops (queue s)) = dest" using assms(3) by auto
  have "(dest, snd (q_top ops (queue s))) \<in># entries (queue s)" using top_law [OF ne] top by (metis prod.collapse)
  then obtain x where "x \<le> snd (q_top ops (queue s))" "found s dest x"
    using assms(1) by (auto simp: search_inv_def queue_fits_def)
  moreover have "snd (q_top ops (queue s)) \<le> k" using top_law [OF ne] k(1) by fastforce
  ultimately show ?thesis using k(2) by (meson order_trans)
qed

lemma start_inv: "source < length G \<Longrightarrow> search_inv entries G source (search_start ops G source) {}"
  by (auto simp: search_inv_def explained_def queue_fits_def pending_def found_def search_start_def push_law new_law nth_list_update split: if_splits)

end

lemma back_path_explained:
  assumes "graph_ok G" "explained G source s" "found s p x"
  shows "\<exists>path y. back_path (parent s) source p = Some path \<and> back_walk G (p # path) y \<and> y \<le> x \<and> last (p # path) = source"
  using assms(3)
proof (induction x arbitrary: p rule: less_induct)
  case (less x)
  show ?case
  proof (cases "p = source")
    case True
    then show ?thesis by (subst back_path.simps) (intro exI [of _ "[]"] exI [of _ 0], simp)
  next
    case False
    then obtain u w y where u: "parent s ! p = Some u" "u < length G" "(p, w) \<in> set (G ! u)" "found s u y" "y + w \<le> x"
      using assms(2) less.prems unfolding explained_def by blast
    have "y < x" using u(5) graph_okD [OF assms(1) u(2,3)] by simp
    from less.IH [OF this u(4)] obtain path z where path: "back_path (parent s) source u = Some path" "back_walk G (u # path) z" "z \<le> y"
      "last (u # path) = source" by blast
    have "p < length (parent s)" using less.prems assms(2) by (simp add: found_def explained_def)
    then have "back_path (parent s) source p = Some (u # path)" using False u(1) path(1) by (subst back_path.simps) simp
    moreover have "back_walk G (p # u # path) (z + w)" using u(2,3) path(2) by (auto intro!: exI [of _ w])
    ultimately show ?thesis using path(3,4) u(5) by (intro exI [of _ "u # path"] exI [of _ "z + w"]) simp
  qed
qed

lemma dijkstra_correct:
  assumes "priority_queue ops entries" and "graph_ok G" and "source < length G" and "dest < length G"
  shows "(\<forall>W. walk G source dest W \<longrightarrow>
      (\<exists>path w. dijkstra ops G source dest = Some path \<and> hd path = dest \<and> last path = source \<and> back_walk G path w \<and>
         (\<forall>W'. walk G source dest W' \<longrightarrow> w \<le> W'))) \<and>
    ((\<nexists>W. walk G source dest W) \<longrightarrow> dijkstra ops G source dest = None)"
proof -
  note laws = assms(1)
  obtain s where s: "search_loop ops G dest (search_start ops G source) = Some s" "search_inv entries G source s {}"
    "entries (queue s) = {#} \<or> fst (q_top ops (queue s)) = dest \<and> entries (queue s) \<noteq> {#}"
    using priority_queue.search_returns [OF laws assms(2) priority_queue.start_inv [OF laws assms(3)]] by blast
  have ex: "explained G source s" using s(2) by (simp add: search_inv_def)
  have start: "dijkstra ops G source dest = map_option ((#) dest) (back_path (parent s) source dest)"
    using s(1) assms(3) by (simp add: dijkstra_def)
  have "\<exists>path w. dijkstra ops G source dest = Some path \<and> hd path = dest \<and> last path = source \<and> back_walk G path w \<and>
         (\<forall>W'. walk G source dest W' \<longrightarrow> w \<le> W')" if some: "walk G source dest W" for W
  proof -
    obtain x where x: "found s dest x" using priority_queue.search_finds [OF laws s(2) some s(3)] by blast
    obtain path y where path: "back_path (parent s) source dest = Some path" "back_walk G (dest # path) y" "y \<le> x" "last (dest # path) = source"
      using back_path_explained [OF assms(2) ex x] by blast
    have "y \<le> W'" if other: "walk G source dest W'" for W'
    proof -
      obtain z where "z \<le> W'" "found s dest z" using priority_queue.search_finds [OF laws s(2) other s(3)] by blast
      then show ?thesis using found_unique [OF x] path(3) by auto
    qed
    then show ?thesis using path start by (intro exI [of _ "dest # path"] exI [of _ y]) simp
  qed
  moreover have "dijkstra ops G source dest = None" if none: "\<nexists>W. walk G source dest W"
  proof -
    have "dist_of s ! dest = None"
    proof (rule ccontr)
      assume "dist_of s ! dest \<noteq> None"
      then obtain x where "found s dest x" using ex assms(4) by (auto simp: found_def explained_def)
      from back_path_explained [OF assms(2) ex this] show False using none back_walk_walk by (metis list.sel(1))
    qed
    moreover have "dest \<noteq> source" using none walk_refl by metis
    ultimately have "back_path (parent s) source dest = None"
      using ex assms(4) by (subst back_path.simps) (simp add: explained_def)
    then show ?thesis using start by simp
  qed
  ultimately show ?thesis by blast
qed

section \<open>Properties\<close>

text \<open>
  C38: the search returns a path from the source to the destination that is as short as any other way to the destination whenever
  there is one, whatever entry the priority queue prefers among equals; when there is none, it runs into the index \<open>-1\<close>.
\<close>
theorem dijkstra_shortest:
  assumes "priority_queue ops entries" and "graph_ok G" and "source < length G" and "dest < length G"
  shows "(\<forall>W. walk G source dest W \<longrightarrow>
      (\<exists>path w. dijkstra ops G source dest = Some path \<and> hd path = dest \<and> last path = source \<and> back_walk G path w \<and>
         (\<forall>W'. walk G source dest W' \<longrightarrow> w \<le> W'))) \<and>
    ((\<nexists>W. walk G source dest W) \<longrightarrow> dijkstra ops G source dest = None)"
  using assms by (rule dijkstra_correct)

definition demo_graph :: graph where
  "demo_graph = [[(1, 7), (2, 9), (5, 14)], [(0, 7), (2, 10), (3, 15)], [(0, 9), (1, 10), (3, 11), (5, 2)], [(1, 15), (2, 11), (4, 6)],
     [(3, 6), (5, 9)], [(0, 14), (2, 2), (4, 9)]]"

lemma demo_search: "dijkstra sorted_queue demo_graph 0 4 = Some [4, 5, 2, 0]"
  by code_simp

theorem dijkstra_shortest_witness:
  "\<exists>w. back_walk demo_graph [4, 5, 2, 0] w \<and> (\<forall>W'. walk demo_graph 0 4 W' \<longrightarrow> w \<le> W')"
proof -
  have ok: "graph_ok demo_graph" "0 < length demo_graph" "4 < length demo_graph"
    by (simp_all add: graph_ok_def demo_graph_def less_Suc_eq numeral_eq_Suc)
  have "back_walk demo_graph [4, 5, 2, 0] 20" by (simp add: demo_graph_def)
  from back_walk_walk [OF this] have "walk demo_graph 0 4 20" by simp
  with dijkstra_shortest [OF ascending.priority_queue_axioms ok] demo_search show ?thesis by auto
qed

end
