(* ===== verification/NocBase.thy ===== *)
theory NocBase
  imports NocDijkstra
begin

text \<open>
  Description and routing of the detailed networks on chip (\<open>components/connect/NoCBase.cpp\<close>, \<open>Mesh.cpp\<close>, \<open>Ring.cpp\<close>, \<open>Bus.cpp\<close>) and the hop
  counts of the model without contention (\<open>NoCNoContention.cpp\<close>). Maps are maps, where \<open>operator[]\<close> reads a missing entry as
  its default and inserts it; the set of routers and the memory map, which are iterated in order, are sorted lists. An error that ends the
  program and an index outside an array are \<open>None\<close>. The ports of the simulation kernel are opaque numbers; the topology file is output.
\<close>

section \<open>State\<close>

type_synonym T_RouterID = nat
type_synonym T_PortID = nat
type_synonym T_TargetID = "T_RouterID \<times> T_PortID"
type_synonym T_MemoryRegion = "u32 \<times> u32"

record BindInfo =
  bi_port :: nat
  bi_in :: T_PortID
  bi_out :: T_PortID

record C_NoCBase =
  SlowRouterIDs :: "T_RouterID list"
  Links :: "T_RouterID \<times> T_PortID \<rightharpoonup> T_RouterID \<times> T_PortID"
  Routers2Port :: "T_RouterID \<times> T_RouterID \<rightharpoonup> T_PortID"
  RoutingTables :: "T_RouterID \<times> T_RouterID \<rightharpoonup> T_PortID"
  RouterInputPortsCount :: "T_RouterID \<rightharpoonup> nat"
  RouterOutputPortsCount :: "T_RouterID \<rightharpoonup> nat"
  TLMMasterBindInfoList :: "(T_RouterID \<times> BindInfo) list"
  TLMSlaveBindInfoList :: "(T_RouterID \<times> BindInfo) list"
  CABABindInfoList :: "(T_RouterID \<times> BindInfo) list"
  MemMap :: "(T_TargetID \<times> T_MemoryRegion) list"
  ValidTargets :: "T_TargetID list"
  TargetToCMUEndPointID :: "T_TargetID \<rightharpoonup> nat"
  NextCMUEndPointID :: nat
  NoCGraph :: graph
  RoutingDone :: bool
  LinkSizeInBytes :: nat
  NoTiming :: bool
  TraceActivation :: bool

definition C_NoCBase_new :: C_NoCBase where
  "C_NoCBase_new =
     \<lparr>SlowRouterIDs = [], Links = Map.empty, Routers2Port = Map.empty, RoutingTables = Map.empty,
      RouterInputPortsCount = Map.empty, RouterOutputPortsCount = Map.empty, TLMMasterBindInfoList = [], TLMSlaveBindInfoList = [],
      CABABindInfoList = [], MemMap = [], ValidTargets = [], TargetToCMUEndPointID = Map.empty, NextCMUEndPointID = 0, NoCGraph = [],
      RoutingDone = False, LinkSizeInBytes = 1, NoTiming = False, TraceActivation = False\<rparr>"

text \<open>\<open>operator[]\<close> of a map of numbers, as a value.\<close>

definition at_key :: "('k \<rightharpoonup> nat) \<Rightarrow> 'k \<Rightarrow> nat" where
  "at_key m k = (case m k of Some n \<Rightarrow> n | None \<Rightarrow> 0)"

section \<open>Topology\<close>

definition AddRouter :: "T_RouterID \<Rightarrow> C_NoCBase \<Rightarrow> C_NoCBase" where
  "AddRouter r noc =
     (if r \<in> set (SlowRouterIDs noc) then noc
      else noc\<lparr>SlowRouterIDs := insort r (SlowRouterIDs noc), RouterInputPortsCount := (RouterInputPortsCount noc)(r \<mapsto> 0),
        RouterOutputPortsCount := (RouterOutputPortsCount noc)(r \<mapsto> 0)\<rparr>)"

text \<open>New ports, numbered in the order of their creation.\<close>

definition new_out_port :: "T_RouterID \<Rightarrow> C_NoCBase \<Rightarrow> T_PortID \<times> C_NoCBase" where
  "new_out_port r noc =
     (let p = at_key (RouterOutputPortsCount noc) r in (p, noc\<lparr>RouterOutputPortsCount := (RouterOutputPortsCount noc)(r \<mapsto> p + 1)\<rparr>))"

definition new_in_port :: "T_RouterID \<Rightarrow> C_NoCBase \<Rightarrow> T_PortID \<times> C_NoCBase" where
  "new_in_port r noc =
     (let p = at_key (RouterInputPortsCount noc) r in (p, noc\<lparr>RouterInputPortsCount := (RouterInputPortsCount noc)(r \<mapsto> p + 1)\<rparr>))"

text \<open>The edge has the constant cost 1; the graph grows to the source of the edge only.\<close>

definition add_edge :: "nat \<Rightarrow> nat \<Rightarrow> graph \<Rightarrow> graph" where
  "add_edge src dest G =
     (let G = (if src \<ge> length G then G @ replicate (src + 1 - length G) [] else G) in G[src := G ! src @ [(dest, 1)]])"

definition AddLink :: "T_RouterID \<Rightarrow> T_RouterID \<Rightarrow> C_NoCBase \<Rightarrow> C_NoCBase" where
  "AddLink src dest noc =
     (let noc = AddRouter dest (AddRouter src noc);
          (out, noc) = new_out_port src noc;
          (inp, noc) = new_in_port dest noc
      in noc\<lparr>Links := (Links noc)((src, out) \<mapsto> (dest, inp)), Routers2Port := (Routers2Port noc)((src, dest) \<mapsto> out),
          NoCGraph := add_edge src dest (NoCGraph noc)\<rparr>)"

section \<open>End points\<close>

definition new_target :: "T_TargetID \<Rightarrow> C_NoCBase \<Rightarrow> C_NoCBase" where
  "new_target t noc =
     noc\<lparr>TargetToCMUEndPointID := (TargetToCMUEndPointID noc)(t \<mapsto> NextCMUEndPointID noc), NextCMUEndPointID := NextCMUEndPointID noc + 1,
       ValidTargets := ValidTargets noc @ [t]\<rparr>"

definition bind_master :: "nat \<Rightarrow> T_RouterID \<Rightarrow> C_NoCBase \<Rightarrow> C_NoCBase" where
  "bind_master port r noc =
     (let (out, noc) = new_out_port r noc;
          (inp, noc) = new_in_port r noc;
          noc = new_target (r, out) noc
      in noc\<lparr>TLMMasterBindInfoList := TLMMasterBindInfoList noc @ [(r, \<lparr>bi_port = port, bi_in = inp, bi_out = out\<rparr>)]\<rparr>)"

fun map_put :: "T_TargetID \<Rightarrow> T_MemoryRegion \<Rightarrow> (T_TargetID \<times> T_MemoryRegion) list \<Rightarrow> (T_TargetID \<times> T_MemoryRegion) list" where
  "map_put t v [] = [(t, v)]"
| "map_put t v ((k, x) # m) = (if t < k then (t, v) # (k, x) # m else if k = t then (t, v) # m else (k, x) # map_put t v m)"

definition AddMemoryMapping :: "T_TargetID \<Rightarrow> T_MemoryRegion \<Rightarrow> C_NoCBase \<Rightarrow> C_NoCBase" where
  "AddMemoryMapping t region noc = noc\<lparr>MemMap := map_put t region (MemMap noc)\<rparr>"

definition bind_slave :: "nat \<Rightarrow> T_RouterID \<Rightarrow> T_MemoryRegion \<Rightarrow> C_NoCBase \<Rightarrow> C_NoCBase" where
  "bind_slave port r region noc =
     (let (out, noc) = new_out_port r noc;
          (inp, noc) = new_in_port r noc;
          noc = noc\<lparr>TLMSlaveBindInfoList := TLMSlaveBindInfoList noc @ [(r, \<lparr>bi_port = port, bi_in = inp, bi_out = out\<rparr>)]\<rparr>
      in AddMemoryMapping (r, out) region (new_target (r, out) noc))"

definition BindBiDir :: "nat \<Rightarrow> T_RouterID \<Rightarrow> C_NoCBase \<Rightarrow> T_TargetID \<times> C_NoCBase" where
  "BindBiDir port r noc =
     (let (inp, noc) = new_in_port r noc;
          (out, noc) = new_out_port r noc;
          noc = new_target (r, out) noc
      in ((r, out), noc\<lparr>CABABindInfoList := CABABindInfoList noc @ [(r, \<lparr>bi_port = port, bi_in = inp, bi_out = out\<rparr>)]\<rparr>))"

section \<open>Memory map\<close>

definition in_region :: "u32 \<Rightarrow> T_MemoryRegion \<Rightarrow> bool" where
  "in_region a r \<longleftrightarrow> fst r \<le> a \<and> snd r \<ge> a"

text \<open>Both addresses the test looks at are the first of the second region.\<close>

definition clash :: "T_MemoryRegion \<Rightarrow> T_MemoryRegion \<Rightarrow> bool" where
  "clash it it2 \<longleftrightarrow>
     (let MemoryAddress1 = fst it2; MemoryAddress2 = fst it2 in
      in_region MemoryAddress1 it \<or> in_region MemoryAddress2 it \<or> MemoryAddress1 \<le> fst it \<and> MemoryAddress2 \<ge> fst it)"

fun clash_free :: "T_MemoryRegion list \<Rightarrow> bool" where
  "clash_free [] \<longleftrightarrow> True"
| "clash_free (it # m) \<longleftrightarrow> list_all (\<lambda>it2. \<not> clash it it2) m \<and> clash_free m"

definition CheckMemoryMap :: "C_NoCBase \<Rightarrow> unit option" where
  "CheckMemoryMap noc = cassert (clash_free (map snd (MemMap noc)))"

definition GetTargetIDFromAddress :: "u32 \<Rightarrow> C_NoCBase \<Rightarrow> T_TargetID option" where
  "GetTargetIDFromAddress a noc = map_option fst (find (\<lambda>(t, r). in_region a r) (MemMap noc))"

definition GetBaseAddressFromTargetID :: "T_TargetID \<Rightarrow> C_NoCBase \<Rightarrow> u32 \<times> C_NoCBase" where
  "GetBaseAddressFromTargetID t noc =
     (case map_of (MemMap noc) t of
        Some r \<Rightarrow> (fst r, noc)
      | None \<Rightarrow> (0, AddMemoryMapping t (0, 0) noc))"

section \<open>Routing\<close>

definition AddRouting :: "T_RouterID \<Rightarrow> T_RouterID \<Rightarrow> T_PortID \<Rightarrow> C_NoCBase \<Rightarrow> bool \<times> C_NoCBase" where
  "AddRouting src target out noc =
     (if RoutingTables noc (src, target) \<noteq> None then (False, noc)
      else (True, noc\<lparr>RoutingTables := (RoutingTables noc)((src, target) \<mapsto> out)\<rparr>))"

text \<open>The table entries along a path, source first; the rest of the path is skipped at a router that knows the way.\<close>

fun route_along :: "T_RouterID \<Rightarrow> T_RouterID list \<Rightarrow> C_NoCBase \<Rightarrow> C_NoCBase" where
  "route_along slave (cur # nxt # path) noc =
     (let port = at_key (Routers2Port noc) (cur, nxt);
          noc = noc\<lparr>Routers2Port := (Routers2Port noc)((cur, nxt) \<mapsto> port)\<rparr>;
          (added, noc) = AddRouting cur slave port noc
      in if added then route_along slave (nxt # path) noc else noc)"
| "route_along slave _ noc = noc"

definition route_pair :: "'q queue_ops \<Rightarrow> T_RouterID \<times> T_RouterID \<Rightarrow> C_NoCBase \<Rightarrow> C_NoCBase option" where
  "route_pair ops = (\<lambda>(master, slave) noc.
     if master = slave then Some noc
     else if RoutingTables noc (master, slave) \<noteq> None then Some noc
     else do {
       path \<leftarrow> dijkstra ops (NoCGraph noc) master slave;
       Some (route_along slave (rev path) noc)
     })"

fun route_pairs :: "'q queue_ops \<Rightarrow> (T_RouterID \<times> T_RouterID) list \<Rightarrow> C_NoCBase \<Rightarrow> C_NoCBase option" where
  "route_pairs ops [] noc = Some noc"
| "route_pairs ops (p # ps) noc = Option.bind (route_pair ops p noc) (route_pairs ops ps)"

definition BuildDefaultRoutingBidirectional :: "'q queue_ops \<Rightarrow> C_NoCBase \<Rightarrow> C_NoCBase option" where
  "BuildDefaultRoutingBidirectional ops noc =
     do {
       noc \<leftarrow> route_pairs ops (List.product (SlowRouterIDs noc) (SlowRouterIDs noc)) noc;
       Some (noc\<lparr>NoCGraph := [], RoutingDone := True\<rparr>)
     }"

definition SetNoCLinkSize :: "nat \<Rightarrow> C_NoCBase \<Rightarrow> C_NoCBase" where
  "SetNoCLinkSize n noc = noc\<lparr>LinkSizeInBytes := n\<rparr>"

definition SetTimingActivation :: "bool \<Rightarrow> C_NoCBase \<Rightarrow> C_NoCBase" where
  "SetTimingActivation b noc = noc\<lparr>NoTiming := \<not> b\<rparr>"

definition SetTraceActivation :: "bool \<Rightarrow> C_NoCBase \<Rightarrow> C_NoCBase" where
  "SetTraceActivation b noc = noc\<lparr>TraceActivation := b\<rparr>"

section \<open>Topologies\<close>

definition C_Bus :: C_NoCBase where
  "C_Bus = AddRouter 0 C_NoCBase_new"

definition ring_links :: "nat \<Rightarrow> bool \<Rightarrow> nat \<Rightarrow> (nat \<times> nat) list" where
  "ring_links Size Bidirectional r =
     (r, (r + 1) mod Size) # (if Bidirectional then [(r, if r = 0 then Size - 1 else r - 1)] else [])"

definition add_links :: "(nat \<times> nat) list \<Rightarrow> C_NoCBase \<Rightarrow> C_NoCBase" where
  "add_links ls noc = fold (\<lambda>(a, b). AddLink a b) ls noc"

definition C_Ring :: "nat \<Rightarrow> bool \<Rightarrow> C_NoCBase" where
  "C_Ring Size Bidirectional =
     (if Size = 1 then AddRouter 0 C_NoCBase_new
      else add_links (concat (map (ring_links Size Bidirectional) [0..<Size])) C_NoCBase_new)"

text \<open>The links of the router at column \<open>i\<close> and row \<open>j\<close>: north, south, east, west.\<close>

definition mesh_links :: "nat \<Rightarrow> nat \<Rightarrow> nat \<times> nat \<Rightarrow> (nat \<times> nat) list" where
  "mesh_links SizeX SizeY = (\<lambda>(i, j). let r = i * SizeY + j in
     (if j + 1 < SizeY then [(r, r + 1)] else []) @ (if j \<ge> 1 then [(r, r - 1)] else []) @
     (if i + 1 < SizeX then [(r, r + SizeY)] else []) @ (if i \<ge> 1 then [(r, r - SizeY)] else []))"

definition C_Mesh :: "nat \<Rightarrow> nat \<Rightarrow> C_NoCBase" where
  "C_Mesh SizeX SizeY =
     (let noc = (if SizeX = 1 \<and> SizeY = 1 then AddRouter 0 C_NoCBase_new else C_NoCBase_new) in
      add_links (concat (map (mesh_links SizeX SizeY) (List.product [0..<SizeX] [0..<SizeY]))) noc)"

text \<open>The fixed port numbers of the XY routing: north 0, east 1, south 2, west 3.\<close>

definition xy_port :: "nat \<times> nat \<Rightarrow> nat \<times> nat \<Rightarrow> T_PortID" where
  "xy_port = (\<lambda>(i, j) (ii, jj). if ii < i then 3 else if ii > i then 1 else if jj < j then 2 else 0)"

definition BuildRoutingXY :: "nat \<Rightarrow> nat \<Rightarrow> C_NoCBase \<Rightarrow> C_NoCBase" where
  "BuildRoutingXY SizeX SizeY noc =
     fold (\<lambda>((i, j), (ii, jj)) noc.
         if ii = i \<and> jj = j then noc else snd (AddRouting (i * SizeY + j) (ii * SizeY + jj) (xy_port (i, j) (ii, jj)) noc))
       (List.product (List.product [0..<SizeX] [0..<SizeY]) (List.product [0..<SizeX] [0..<SizeY])) noc"

definition Mesh_BuildRouting :: "'q queue_ops \<Rightarrow> bool \<Rightarrow> nat \<Rightarrow> nat \<Rightarrow> C_NoCBase \<Rightarrow> C_NoCBase option" where
  "Mesh_BuildRouting ops xy SizeX SizeY noc =
     do {
       noc \<leftarrow> (if xy then Some (BuildRoutingXY SizeX SizeY noc) else BuildDefaultRoutingBidirectional ops noc);
       Some (noc\<lparr>RoutingDone := True\<rparr>)
     }"

section \<open>Hop counts\<close>

text \<open>The table \<open>Next\<close> of the model without contention: a missing link leads to router 0.\<close>

definition next_hop :: "C_NoCBase \<Rightarrow> T_RouterID \<Rightarrow> T_RouterID \<Rightarrow> T_RouterID" where
  "next_hop noc slave r = (case Links noc (r, at_key (RoutingTables noc) (r, slave)) of Some (s, _) \<Rightarrow> s | None \<Rightarrow> 0)"

partial_function (option) hop_loop :: "C_NoCBase \<Rightarrow> T_RouterID \<Rightarrow> T_RouterID \<Rightarrow> nat \<Rightarrow> nat option" where
  "hop_loop noc slave cur n =
     (if cur = slave then Some n
      else if cur < length (SlowRouterIDs noc) then hop_loop noc slave (next_hop noc slave cur) (n + 1)
      else None)"

declare hop_loop.simps [code]

definition HopCount :: "C_NoCBase \<Rightarrow> T_RouterID \<Rightarrow> T_RouterID \<Rightarrow> nat option" where
  "HopCount noc r slave = hop_loop noc slave r 0"

end
