(* ===== verification/NocRouting.thy ===== *)
theory NocRouting
  imports NocBase
begin

text \<open>
  What the networks on chip guarantee: construction keeps the description consistent, the default routing delivers every
  request on a shortest way, and where the check of the memory map and the XY routing fail.
\<close>

section \<open>Consistent descriptions\<close>

definition noc_ok :: "C_NoCBase \<Rightarrow> bool" where
  "noc_ok noc \<longleftrightarrow> sorted (SlowRouterIDs noc) \<and> distinct (SlowRouterIDs noc) \<and>
     (\<forall>r p s q. Links noc (r, p) = Some (s, q) \<longrightarrow>
        r \<in> set (SlowRouterIDs noc) \<and> s \<in> set (SlowRouterIDs noc) \<and> p < at_key (RouterOutputPortsCount noc) r) \<and>
     (\<forall>r s p. Routers2Port noc (r, s) = Some p \<longrightarrow> (\<exists>q. Links noc (r, p) = Some (s, q))) \<and>
     (\<forall>r < length (NoCGraph noc). \<forall>(s, w) \<in> set (NoCGraph noc ! r). w = 1 \<and> Routers2Port noc (r, s) \<noteq> None)"

lemma noc_okD:
  assumes "noc_ok noc"
  shows "sorted (SlowRouterIDs noc)" "distinct (SlowRouterIDs noc)"
    and "Links noc (r, p) = Some (s, q) \<Longrightarrow> r \<in> set (SlowRouterIDs noc) \<and> s \<in> set (SlowRouterIDs noc) \<and> p < at_key (RouterOutputPortsCount noc) r"
    and "Routers2Port noc (r, s) = Some p \<Longrightarrow> \<exists>q. Links noc (r, p) = Some (s, q)"
    and "r < length (NoCGraph noc) \<Longrightarrow> (s, w) \<in> set (NoCGraph noc ! r) \<Longrightarrow> w = 1 \<and> Routers2Port noc (r, s) \<noteq> None"
  using assms unfolding noc_ok_def by (blast, blast, blast, blast, blast)

lemma new_port_fields [simp]:
  "SlowRouterIDs (snd (new_out_port r noc)) = SlowRouterIDs noc" "SlowRouterIDs (snd (new_in_port r noc)) = SlowRouterIDs noc"
  "Links (snd (new_out_port r noc)) = Links noc" "Links (snd (new_in_port r noc)) = Links noc"
  "Routers2Port (snd (new_out_port r noc)) = Routers2Port noc" "Routers2Port (snd (new_in_port r noc)) = Routers2Port noc"
  "NoCGraph (snd (new_out_port r noc)) = NoCGraph noc" "NoCGraph (snd (new_in_port r noc)) = NoCGraph noc"
  "RouterOutputPortsCount (snd (new_in_port r noc)) = RouterOutputPortsCount noc"
  by (simp_all add: new_out_port_def new_in_port_def Let_def)

lemma count_new_out [simp]:
  "at_key (RouterOutputPortsCount (snd (new_out_port r noc))) t = at_key (RouterOutputPortsCount noc) t + (if t = r then 1 else 0)"
  "fst (new_out_port r noc) = at_key (RouterOutputPortsCount noc) r"
  by (simp_all add: new_out_port_def Let_def at_key_def)

text \<open>Changes outside the topology: more ports, and fields the invariant does not read.\<close>

lemma noc_ok_same:
  assumes "noc_ok noc" "SlowRouterIDs noc' = SlowRouterIDs noc" "Links noc' = Links noc" "Routers2Port noc' = Routers2Port noc"
    "NoCGraph noc' = NoCGraph noc" "\<And>r. at_key (RouterOutputPortsCount noc) r \<le> at_key (RouterOutputPortsCount noc') r"
  shows "noc_ok noc'"
proof -
  have "p < at_key (RouterOutputPortsCount noc') r" if "Links noc (r, p) = Some (s, q)" for r p s q
    using noc_okD(3) [OF assms(1) that] assms(6) [of r] by simp
  then show ?thesis using noc_okD [OF assms(1)] unfolding noc_ok_def assms(2-5) by blast
qed

lemma noc_ok_AddRouter: "noc_ok noc \<Longrightarrow> noc_ok (AddRouter r noc)"
proof (cases "r \<in> set (SlowRouterIDs noc)")
  case False
  assume ok: "noc_ok noc"
  have "t \<noteq> r" if "Links noc (t, p) = Some (s, q)" for t p s q using noc_okD(3) [OF ok that] False by auto
  then show ?thesis
    using False noc_okD [OF ok] unfolding noc_ok_def AddRouter_def
    by (auto simp: sorted_insort distinct_insort set_insort_key at_key_def)
qed (simp add: AddRouter_def)

lemma add_edge_length: "length (add_edge a b G) = max (length G) (a + 1)"
  by (simp add: add_edge_def Let_def)

lemma add_edge_nth: "r < length (add_edge a b G) \<Longrightarrow> add_edge a b G ! r = (if r < length G then G ! r else []) @ (if r = a then [(b, 1)] else [])"
  by (auto simp: add_edge_def Let_def nth_list_update nth_append)

lemma noc_ok_AddLink:
  assumes "noc_ok noc" shows "noc_ok (AddLink a b noc)"
proof -
  define n1 where "n1 = AddRouter b (AddRouter a noc)"
  have ok: "noc_ok n1" using assms by (simp add: n1_def noc_ok_AddRouter)
  have mem: "a \<in> set (SlowRouterIDs n1)" "b \<in> set (SlowRouterIDs n1)" by (auto simp: n1_def AddRouter_def set_insort_key)
  define out where "out = at_key (RouterOutputPortsCount n1) a"
  define n2 where "n2 = snd (new_in_port b (snd (new_out_port a n1)))"
  define inp where "inp = fst (new_in_port b (snd (new_out_port a n1)))"
  have new: "AddLink a b noc = n2\<lparr>Links := (Links n1)((a, out) \<mapsto> (b, inp)), Routers2Port := (Routers2Port n1)((a, b) \<mapsto> out),
      NoCGraph := add_edge a b (NoCGraph n1)\<rparr>"
    by (simp add: AddLink_def Let_def n1_def [symmetric] case_prod_unfold n2_def inp_def out_def)
  have fields: "SlowRouterIDs n2 = SlowRouterIDs n1" "at_key (RouterOutputPortsCount n2) t = at_key (RouterOutputPortsCount n1) t + (if t = a then 1 else 0)" for t
    by (simp_all add: n2_def)
  have links: "r \<in> set (SlowRouterIDs n1) \<and> s \<in> set (SlowRouterIDs n1) \<and> p < at_key (RouterOutputPortsCount n2) r"
    if "((Links n1)((a, out) \<mapsto> (b, inp))) (r, p) = Some (s, q)" for r p s q
    using that mem noc_okD(3) [OF ok, of r p s q] by (auto simp: fields(2) out_def split: if_splits)
  have fresh: "Links n1 (a, out) = None" using noc_okD(3) [OF ok, of a out] by (cases "Links n1 (a, out)") (auto simp: out_def)
  have ports: "\<exists>q. ((Links n1)((a, out) \<mapsto> (b, inp))) (r, p) = Some (s, q)" if "((Routers2Port n1)((a, b) \<mapsto> out)) (r, s) = Some p" for r s p
    using that noc_okD(4) [OF ok, of r s p] fresh by (fastforce split: if_splits)
  have edges: "w = 1 \<and> ((Routers2Port n1)((a, b) \<mapsto> out)) (r, s) \<noteq> None"
    if "r < length (add_edge a b (NoCGraph n1))" "(s, w) \<in> set (add_edge a b (NoCGraph n1) ! r)" for r s w
    using that noc_okD(5) [OF ok, of r s w] by (auto simp: add_edge_nth split: if_splits)
  show ?thesis
    using noc_okD(1,2) [OF ok] links ports edges unfolding noc_ok_def new by (auto simp: fields(1))
qed

section \<open>Construction\<close>

inductive built :: "C_NoCBase \<Rightarrow> bool" where
  built_new: "built C_NoCBase_new"
| built_router: "built noc \<Longrightarrow> built (AddRouter r noc)"
| built_link: "built noc \<Longrightarrow> built (AddLink a b noc)"
| built_master: "built noc \<Longrightarrow> built (bind_master port r noc)"
| built_slave: "built noc \<Longrightarrow> built (bind_slave port r region noc)"
| built_bidir: "built noc \<Longrightarrow> built (snd (BindBiDir port r noc))"
| built_link_size: "built noc \<Longrightarrow> built (SetNoCLinkSize n noc)"
| built_timing: "built noc \<Longrightarrow> built (SetTimingActivation b noc)"
| built_trace: "built noc \<Longrightarrow> built (SetTraceActivation b noc)"

lemma noc_ok_settings:
  "noc_ok noc \<Longrightarrow> noc_ok (SetNoCLinkSize n noc)" "noc_ok noc \<Longrightarrow> noc_ok (SetTimingActivation b noc)" "noc_ok noc \<Longrightarrow> noc_ok (SetTraceActivation b noc)"
  by (erule noc_ok_same; simp add: SetNoCLinkSize_def SetTimingActivation_def SetTraceActivation_def)+

lemma built_noc_ok: "built noc \<Longrightarrow> noc_ok noc"
proof (induction rule: built.induct)
  case built_new
  then show ?case by (simp add: noc_ok_def C_NoCBase_new_def)
next
  case (built_master noc port r)
  from built_master.IH show ?case
    by (rule noc_ok_same) (simp_all add: bind_master_def Let_def case_prod_unfold new_target_def)
next
  case (built_slave noc port r region)
  from built_slave.IH show ?case
    by (rule noc_ok_same) (simp_all add: bind_slave_def Let_def case_prod_unfold new_target_def AddMemoryMapping_def)
next
  case (built_bidir noc port r)
  from built_bidir.IH show ?case
    by (rule noc_ok_same) (simp_all add: BindBiDir_def Let_def case_prod_unfold new_target_def at_key_def new_out_port_def new_in_port_def)
qed (simp_all add: noc_ok_AddRouter noc_ok_AddLink noc_ok_settings)

lemma built_links: "built noc \<Longrightarrow> built (add_links ls noc)"
  by (induction ls arbitrary: noc) (auto simp: add_links_def intro: built_link)

lemma built_topologies: "built C_Bus" "built (C_Ring n bidir)" "built (C_Mesh x y)"
  by (auto simp: C_Bus_def C_Ring_def C_Mesh_def Let_def intro!: built_links built_router built_new)

section \<open>Distances\<close>

lemma walk_append: "walk G b c y \<Longrightarrow> walk G a b x \<Longrightarrow> walk G a c (x + y)"
proof (induction rule: walk.induct)
  case (walk_step u y v w)
  then have "walk G a v ((x + y) + w)" using walk.walk_step by blast
  then show ?case by (simp add: add.assoc)
qed simp

lemma walk_leaves: "walk G a b W \<Longrightarrow> a \<noteq> b \<Longrightarrow> a < length G"
  by (induction rule: walk.induct) auto

definition distance :: "graph \<Rightarrow> nat \<Rightarrow> nat \<Rightarrow> nat" where
  "distance G a b = (LEAST W. walk G a b W)"

lemma distance_walk: "walk G a b W \<Longrightarrow> walk G a b (distance G a b)"
  unfolding distance_def by (rule LeastI)

lemma distance_le: "walk G a b W \<Longrightarrow> distance G a b \<le> W"
  unfolding distance_def by (rule Least_le)

lemma distance_self [simp]: "distance G a a = 0"
  using distance_le [OF walk_refl, of G a] by simp

definition unit_graph :: "graph \<Rightarrow> bool" where
  "unit_graph G \<longleftrightarrow> (\<forall>u < length G. \<forall>(v, w) \<in> set (G ! u). w = 1)"

lemma edge_walk: "u < length G \<Longrightarrow> (v, w) \<in> set (G ! u) \<Longrightarrow> walk G u v w"
  using walk_step [OF walk_refl, of u G v w] by simp

text \<open>On a shortest path every edge brings the destination one step closer.\<close>

lemma shortest_edge:
  assumes "unit_graph G" "walk G a u x" "u < length G" "(v, w) \<in> set (G ! u)" "walk G v b y" "x + w + y = distance G a b"
  shows "distance G u b = distance G v b + 1"
proof -
  have w: "w = 1" using assms(1,3,4) unfolding unit_graph_def by fastforce
  have uv: "walk G u v 1" using edge_walk [OF assms(3,4)] w by simp
  have ub: "walk G u b (1 + distance G v b)" using walk_append [OF distance_walk [OF assms(5)] uv] .
  have "distance G u b \<le> 1 + distance G v b" using distance_le [OF ub] .
  moreover have "distance G a b \<le> x + distance G u b"
    using distance_le [OF walk_append [OF distance_walk [OF ub] assms(2)]] .
  moreover have "distance G v b \<le> y" using distance_le [OF assms(5)] .
  ultimately show ?thesis using assms(6) w by simp
qed

text \<open>Consecutive vertices of a path, source first, that approach the target.\<close>

fun approaches :: "graph \<Rightarrow> nat \<Rightarrow> nat list \<Rightarrow> bool" where
  "approaches G t (a # b # p) \<longleftrightarrow> a < length G \<and> (\<exists>w. (b, w) \<in> set (G ! a)) \<and> distance G a t = distance G b t + 1 \<and> approaches G t (b # p)"
| "approaches G t _ \<longleftrightarrow> True"

lemma approaches_snoc:
  "approaches G t (p @ [a, b]) \<longleftrightarrow>
     approaches G t (p @ [a]) \<and> a < length G \<and> (\<exists>w. (b, w) \<in> set (G ! a)) \<and> distance G a t = distance G b t + 1"
proof (induction p)
  case (Cons x p)
  then show ?case by (cases p) auto
qed auto

lemma back_walk_approaches:
  "unit_graph G \<Longrightarrow> back_walk G p x \<Longrightarrow> walk G (hd p) b y \<Longrightarrow> x + y = distance G (last p) b \<Longrightarrow> approaches G b (rev p)"
proof (induction G p x arbitrary: y rule: back_walk.induct)
  case (3 G v u p x)
  then obtain w where w: "u < length G" "(v, w) \<in> set (G ! u)" "w \<le> x" "back_walk G (u # p) (x - w)" by auto
  have "walk G u b (w + y)" using walk_append [OF _ edge_walk [OF w(1,2)]] "3.prems"(3) by simp
  moreover have "x - w + (w + y) = distance G (last (u # p)) b" using "3.prems"(4) w(3) by simp
  ultimately have "approaches G b (rev (u # p))" using "3.IH" [of w "w + y"] "3.prems"(1) w by simp
  moreover have "walk G (last (u # p)) u (x - w)" using back_walk_walk [OF w(4)] by simp
  then have "distance G u b = distance G v b + 1"
    using shortest_edge [OF "3.prems"(1) _ w(1,2), of "last (u # p)" "x - w" b y] "3.prems"(3,4) w(3) by simp
  ultimately show ?case using w(1,2) approaches_snoc [of G b "rev p" u v] by auto
qed simp_all

section \<open>Default routing\<close>

text \<open>Every table entry leads over a link to a router that is closer to the target.\<close>

definition tables_ok :: "graph \<Rightarrow> C_NoCBase \<Rightarrow> bool" where
  "tables_ok G noc \<longleftrightarrow> (\<forall>cur t p. RoutingTables noc (cur, t) = Some p \<longrightarrow>
     (\<exists>nxt q. Links noc (cur, p) = Some (nxt, q) \<and> distance G cur t = distance G nxt t + 1))"

definition same_topology :: "C_NoCBase \<Rightarrow> C_NoCBase \<Rightarrow> bool" where
  "same_topology noc noc' \<longleftrightarrow> SlowRouterIDs noc' = SlowRouterIDs noc \<and> Links noc' = Links noc \<and> Routers2Port noc' = Routers2Port noc \<and>
     NoCGraph noc' = NoCGraph noc \<and> (\<forall>k. RoutingTables noc k \<noteq> None \<longrightarrow> RoutingTables noc' k = RoutingTables noc k)"

lemma same_topology_trans: "same_topology a b \<Longrightarrow> same_topology b c \<Longrightarrow> same_topology a c"
  by (auto simp: same_topology_def)

lemma route_along_ok:
  assumes "noc_ok noc" "G = NoCGraph noc"
  shows "approaches G t path \<Longrightarrow> tables_ok G n \<Longrightarrow> same_topology noc n \<Longrightarrow>
    tables_ok G (route_along t path n) \<and> same_topology n (route_along t path n) \<and>
    (2 \<le> length path \<longrightarrow> RoutingTables (route_along t path n) (hd path, t) \<noteq> None)"
proof (induction path arbitrary: n)
  case (Cons cur rest)
  show ?case
  proof (cases rest)
    case Nil
    then show ?thesis using Cons.prems by (simp add: same_topology_def)
  next
    case rest: (Cons nxt path)
    have edge: "cur < length G" "distance G cur t = distance G nxt t + 1" "\<exists>w. (nxt, w) \<in> set (G ! cur)" using Cons.prems(1) rest by simp_all
    then obtain p where p: "Routers2Port noc (cur, nxt) = Some p" using noc_okD(5) [OF assms(1), of cur nxt] assms(2) by auto
    then obtain q where q: "Links noc (cur, p) = Some (nxt, q)" using noc_okD(4) [OF assms(1)] by blast
    have fields: "Routers2Port n = Routers2Port noc" "Links n = Links noc" using Cons.prems(3) by (simp_all add: same_topology_def)
    have at: "at_key (Routers2Port n) (cur, nxt) = p" "n\<lparr>Routers2Port := (Routers2Port n)((cur, nxt) \<mapsto> p)\<rparr> = n"
      using p by (simp_all add: fields(1) at_key_def fun_upd_idem)
    show ?thesis
    proof (cases "RoutingTables n (cur, t)")
      case (Some r)
      then have "route_along t (cur # rest) n = n" by (simp add: at AddRouting_def Let_def rest)
      then show ?thesis using Cons.prems Some by (simp add: same_topology_def)
    next
      case None
      define n1 where "n1 = n\<lparr>RoutingTables := (RoutingTables n)((cur, t) \<mapsto> p)\<rparr>"
      have step: "route_along t (cur # rest) n = route_along t rest n1"
        using None by (simp add: at AddRouting_def Let_def n1_def rest)
      have t1: "tables_ok G n1" using Cons.prems(2) q edge(2) by (auto simp: tables_ok_def n1_def fields)
      have s1: "same_topology n n1" using None by (auto simp: same_topology_def n1_def)
      have IH: "tables_ok G (route_along t rest n1) \<and> same_topology n1 (route_along t rest n1)"
        using Cons.IH [OF _ t1 same_topology_trans [OF Cons.prems(3) s1]] Cons.prems(1) rest by simp
      then have "RoutingTables (route_along t rest n1) (cur, t) = Some p" by (simp add: same_topology_def n1_def)
      then show ?thesis using IH step same_topology_trans [OF s1] by simp
    qed
  qed
qed (simp add: same_topology_def)

definition connected :: "nat set \<Rightarrow> graph \<Rightarrow> bool" where
  "connected R G \<longleftrightarrow> (\<forall>a \<in> R. \<forall>b \<in> R. \<exists>W. walk G a b W)"

lemma connected_length:
  assumes "connected R G" "a \<in> R" "b \<in> R" "a \<noteq> b" "c \<in> R" shows "c < length G"
  using assms walk_leaves [of G c] unfolding connected_def by metis

lemma noc_graph_ok:
  assumes "noc_ok noc" "\<forall>c \<in> set (SlowRouterIDs noc). c < length (NoCGraph noc)"
  shows "graph_ok (NoCGraph noc)" "unit_graph (NoCGraph noc)"
proof -
  have "s < length (NoCGraph noc) \<and> w = 1" if r: "r < length (NoCGraph noc)" "(s, w) \<in> set (NoCGraph noc ! r)" for r s w
  proof -
    obtain p where "Routers2Port noc (r, s) = Some p" "w = 1" using noc_okD(5) [OF assms(1) r] by auto
    moreover then obtain q where "Links noc (r, p) = Some (s, q)" using noc_okD(4) [OF assms(1)] by blast
    ultimately show ?thesis using noc_okD(3) [OF assms(1)] assms(2) by blast
  qed
  then show "graph_ok (NoCGraph noc)" "unit_graph (NoCGraph noc)" by (fastforce simp: graph_ok_def unit_graph_def)+
qed

lemma route_pair_ok:
  assumes "priority_queue ops entries" "noc_ok noc" "connected (set (SlowRouterIDs noc)) (NoCGraph noc)"
    and "a \<in> set (SlowRouterIDs noc)" "b \<in> set (SlowRouterIDs noc)" "tables_ok (NoCGraph noc) n" "same_topology noc n"
  shows "\<exists>n'. route_pair ops (a, b) n = Some n' \<and> tables_ok (NoCGraph noc) n' \<and> same_topology n n' \<and>
    (a \<noteq> b \<longrightarrow> RoutingTables n' (a, b) \<noteq> None)"
proof (cases "a = b \<or> RoutingTables n (a, b) \<noteq> None")
  case True
  then have "route_pair ops (a, b) n = Some n" by (auto simp: route_pair_def)
  then show ?thesis using True assms(6) by (auto simp: same_topology_def)
next
  case False
  let ?G = "NoCGraph noc"
  have len: "\<forall>c \<in> set (SlowRouterIDs noc). c < length ?G" using connected_length [OF assms(3,4,5)] False by blast
  note G = noc_graph_ok [OF assms(2) len]
  obtain W where W: "walk ?G a b W" using assms(3-5) by (auto simp: connected_def)
  then obtain path w where path: "dijkstra ops ?G a b = Some path" "hd path = b" "last path = a" "back_walk ?G path w"
    and least: "\<And>W'. walk ?G a b W' \<Longrightarrow> w \<le> W'"
    using dijkstra_correct [OF assms(1) G(1), of a b] len assms(4,5) by blast
  have "walk ?G a b w" using back_walk_walk [OF path(4)] path(2,3) by simp
  then have "w = distance ?G a b" using least [OF distance_walk [OF W]] distance_le by (simp add: le_antisym)
  then have "approaches ?G b (rev path)" using back_walk_approaches [OF G(2) path(4), of b 0] path(2,3) walk_refl by simp
  note ok = route_along_ok [OF assms(2) refl this assms(6,7)]
  have "path \<noteq> []" using path(4) by auto
  then have "hd (rev path) = a" using path(3) by (simp add: hd_rev)
  moreover have "2 \<le> length path" using path(2,3) False \<open>path \<noteq> []\<close> by (cases path; cases "tl path") auto
  moreover have "route_pair ops (a, b) n = Some (route_along b (rev path) n)"
    using False path(1) assms(7) by (simp add: route_pair_def same_topology_def)
  ultimately show ?thesis using ok by simp
qed

lemma route_pairs_ok:
  assumes "priority_queue ops entries" "noc_ok noc" "connected (set (SlowRouterIDs noc)) (NoCGraph noc)"
  shows "set ps \<subseteq> set (SlowRouterIDs noc) \<times> set (SlowRouterIDs noc) \<Longrightarrow> tables_ok (NoCGraph noc) n \<Longrightarrow> same_topology noc n \<Longrightarrow>
    \<exists>n'. route_pairs ops ps n = Some n' \<and> tables_ok (NoCGraph noc) n' \<and> same_topology n n' \<and>
      (\<forall>(a, b) \<in> set ps. a \<noteq> b \<longrightarrow> RoutingTables n' (a, b) \<noteq> None)"
proof (induction ps arbitrary: n)
  case Nil
  then show ?case by (simp add: same_topology_def)
next
  case (Cons p ps)
  obtain a b where p: "p = (a, b)" by force
  then obtain n1 where n1: "route_pair ops p n = Some n1" "tables_ok (NoCGraph noc) n1" "same_topology n n1" "a \<noteq> b \<longrightarrow> RoutingTables n1 (a, b) \<noteq> None"
    using route_pair_ok [OF assms, of a b n] Cons.prems by auto
  obtain n' where n': "route_pairs ops ps n1 = Some n'" "tables_ok (NoCGraph noc) n'" "same_topology n1 n'"
    "\<forall>(a, b) \<in> set ps. a \<noteq> b \<longrightarrow> RoutingTables n' (a, b) \<noteq> None"
    using Cons.IH [OF _ n1(2) same_topology_trans [OF Cons.prems(3) n1(3)]] Cons.prems(1) by auto
  have "a \<noteq> b \<longrightarrow> RoutingTables n' (a, b) \<noteq> None" using n1(4) n'(3) by (auto simp: same_topology_def)
  then show ?case using n1(1) n' same_topology_trans [OF n1(3) n'(3)] by (simp add: p)
qed

lemma hop_loop_distance:
  assumes "SlowRouterIDs noc = [0..<n]" "tables_ok G noc" "\<And>a. a < n \<Longrightarrow> a \<noteq> t \<Longrightarrow> RoutingTables noc (a, t) \<noteq> None"
    and "\<And>r p s q. Links noc (r, p) = Some (s, q) \<Longrightarrow> s < n"
  shows "a < n \<Longrightarrow> hop_loop noc t a k = Some (k + distance G a t)"
proof (induction "distance G a t" arbitrary: a k rule: less_induct)
  case less
  show ?case
  proof (cases "a = t")
    case False
    then obtain p where p: "RoutingTables noc (a, t) = Some p" using assms(3) less.prems by blast
    then obtain nxt q where nxt: "Links noc (a, p) = Some (nxt, q)" "distance G a t = distance G nxt t + 1"
      using assms(2) unfolding tables_ok_def by blast
    have "next_hop noc t a = nxt" using p nxt(1) by (simp add: next_hop_def at_key_def)
    then have "hop_loop noc t a k = hop_loop noc t nxt (k + 1)"
      using False less.prems assms(1) by (subst hop_loop.simps) simp
    then show ?thesis using less.hyps [of nxt "k + 1"] nxt assms(4) by simp
  qed (simp add: hop_loop.simps)
qed

section \<open>Rings and meshes\<close>

lemma cycle_connected:
  assumes "n \<le> length G" "\<And>a. a < n \<Longrightarrow> \<exists>w. ((a + 1) mod n, w) \<in> set (G ! a)"
  shows "connected {..<n} G"
  unfolding connected_def
proof (intro ballI)
  fix a b assume ab: "a \<in> {..<n}" "b \<in> {..<n}"
  have "\<exists>W. walk G a ((a + k) mod n) W" for k
  proof (induction k)
    case 0
    then show ?case using ab walk_refl [of G a] by auto
  next
    case (Suc k)
    then obtain W where W: "walk G a ((a + k) mod n) W" by blast
    have lt: "(a + k) mod n < n" using ab by simp
    obtain w where w: "(((a + k) mod n + 1) mod n, w) \<in> set (G ! ((a + k) mod n))" using assms(2) [OF lt] by blast
    have "((a + k) mod n + 1) mod n = (a + Suc k) mod n" by (simp add: mod_Suc_eq)
    then show ?case using walk_step [OF W _ w] lt assms(1) by auto
  qed
  from this [of "b + n - a"] show "\<exists>W. walk G a b W" using ab by simp
qed

text \<open>How many ports the links of a list take.\<close>

lemma AddRouter_count: "(r \<notin> set (SlowRouterIDs noc) \<Longrightarrow> at_key (RouterOutputPortsCount noc) r = 0) \<Longrightarrow>
    at_key (RouterOutputPortsCount (AddRouter r noc)) t = at_key (RouterOutputPortsCount noc) t"
  by (auto simp: AddRouter_def at_key_def)

lemma set_AddRouter [simp]: "set (SlowRouterIDs (AddRouter r noc)) = insert r (set (SlowRouterIDs noc))"
  by (auto simp: AddRouter_def set_insort_key)

lemma AddLink_count:
  assumes "\<And>r. r \<notin> set (SlowRouterIDs noc) \<Longrightarrow> at_key (RouterOutputPortsCount noc) r = 0"
  shows "at_key (RouterOutputPortsCount (AddLink a b noc)) t = at_key (RouterOutputPortsCount noc) t + (if t = a then 1 else 0)"
    and "set (SlowRouterIDs (AddLink a b noc)) = insert a (insert b (set (SlowRouterIDs noc)))"
proof -
  have 1: "at_key (RouterOutputPortsCount (AddRouter a noc)) t = at_key (RouterOutputPortsCount noc) t" for t by (rule AddRouter_count) (rule assms)
  have 2: "at_key (RouterOutputPortsCount (AddRouter b (AddRouter a noc))) t = at_key (RouterOutputPortsCount noc) t" for t
    using AddRouter_count [of b "AddRouter a noc" t] 1 assms by simp
  show "at_key (RouterOutputPortsCount (AddLink a b noc)) t = at_key (RouterOutputPortsCount noc) t + (if t = a then 1 else 0)"
    by (simp add: AddLink_def Let_def case_prod_unfold 2)
  show "set (SlowRouterIDs (AddLink a b noc)) = insert a (insert b (set (SlowRouterIDs noc)))"
    by (auto simp: AddLink_def Let_def case_prod_unfold)
qed

lemma add_links_count:
  "(\<And>r. r \<notin> set (SlowRouterIDs noc) \<Longrightarrow> at_key (RouterOutputPortsCount noc) r = 0) \<Longrightarrow>
    at_key (RouterOutputPortsCount (add_links ls noc)) t = at_key (RouterOutputPortsCount noc) t + length (filter (\<lambda>l. fst l = t) ls)"
proof (induction ls arbitrary: noc)
  case (Cons l ls)
  obtain a b where l: "l = (a, b)" by force
  have "\<And>r. r \<notin> set (SlowRouterIDs (AddLink a b noc)) \<Longrightarrow> at_key (RouterOutputPortsCount (AddLink a b noc)) r = 0"
    using Cons.prems by (simp add: AddLink_count)
  from Cons.IH [OF this] show ?case using AddLink_count(1) [OF Cons.prems] by (simp add: l add_links_def)
qed (simp add: add_links_def)

text \<open>A sequence of route entries in which the entries for one pair agree.\<close>

lemma routes_of_pair:
  assumes "\<And>x. x \<in> set xs \<Longrightarrow> \<not> skip x \<Longrightarrow> key x = k \<Longrightarrow> port x = p" "RoutingTables noc k \<in> {None, Some p}"
    and "RoutingTables noc k = Some p \<or> (\<exists>x \<in> set xs. \<not> skip x \<and> key x = k)"
  shows "RoutingTables (fold (\<lambda>x noc. if skip x then noc else snd (AddRouting (fst (key x)) (snd (key x)) (port x) noc)) xs noc) k = Some p"
  using assms
proof (induction xs arbitrary: noc)
  case (Cons x xs)
  define noc1 where "noc1 = (if skip x then noc else snd (AddRouting (fst (key x)) (snd (key x)) (port x) noc))"
  have "RoutingTables noc1 k \<in> {None, Some p} \<and> (RoutingTables noc k = Some p \<or> (\<not> skip x \<and> key x = k) \<longrightarrow> RoutingTables noc1 k = Some p)"
    using Cons.prems(1) [of x] Cons.prems(2) by (auto simp: noc1_def AddRouting_def)
  then have "RoutingTables (fold (\<lambda>x noc. if skip x then noc else snd (AddRouting (fst (key x)) (snd (key x)) (port x) noc)) xs noc1) k = Some p"
    using Cons.IH [of noc1] Cons.prems by auto
  then show ?case by (simp add: noc1_def)
qed auto

lemma add_links_routes [simp]: "Links (BuildRoutingXY x y noc) = Links noc" "SlowRouterIDs (BuildRoutingXY x y noc) = SlowRouterIDs noc"
proof -
  have "Links (fold f xs noc) = Links noc \<and> SlowRouterIDs (fold f xs noc) = SlowRouterIDs noc"
    if "\<And>z n. Links (f z n) = Links n \<and> SlowRouterIDs (f z n) = SlowRouterIDs n" for f :: "'z \<Rightarrow> C_NoCBase \<Rightarrow> C_NoCBase" and xs noc
    using that by (induction xs arbitrary: noc) auto
  from this [of "\<lambda>((i, j), (ii, jj)) noc. if ii = i \<and> jj = j then noc else snd (AddRouting (i * y + j) (ii * y + jj) (xy_port (i, j) (ii, jj)) noc)"]
  show "Links (BuildRoutingXY x y noc) = Links noc" "SlowRouterIDs (BuildRoutingXY x y noc) = SlowRouterIDs noc"
    by (auto simp: BuildRoutingXY_def AddRouting_def split: prod.splits)
qed

lemma AddLink_no_routes [simp]: "RoutingTables (AddLink a b noc) = RoutingTables noc"
  by (simp add: AddLink_def AddRouter_def new_out_port_def new_in_port_def Let_def)

lemma add_links_no_routes [simp]: "RoutingTables (add_links ls noc) = RoutingTables noc"
  by (induction ls arbitrary: noc) (auto simp: add_links_def)

lemma topology_no_routes: "RoutingTables (C_Ring n bidir) = Map.empty" "RoutingTables (C_Mesh x y) = Map.empty"
  by (simp_all add: C_Ring_def C_Mesh_def AddRouter_def C_NoCBase_new_def Let_def)

lemma xy_table:
  assumes "i < x" "ii < x" "j < y" "jj < y" "(i, j) \<noteq> (ii, jj)"
  shows "RoutingTables (BuildRoutingXY x y (C_Mesh x y)) (i * y + j, ii * y + jj) = Some (xy_port (i, j) (ii, jj))"
proof -
  let ?xs = "List.product (List.product [0..<x] [0..<y]) (List.product [0..<x] [0..<y])"
  define key where "key = (\<lambda>((i, j), (ii, jj)). (i * y + j, ii * y + jj))"
  define skip where "skip = (\<lambda>((i :: nat, j :: nat), (ii, jj)). ii = i \<and> jj = j)"
  have inj: "a = c \<and> b = d" if "a * y + b = c * y + d" "b < y" "d < y" for a b c d :: nat
  proof -
    have "(a * y + b) div y = a" "(c * y + d) div y = c" using that(2,3) by simp_all
    then show ?thesis using that(1) by simp
  qed
  have "BuildRoutingXY x y (C_Mesh x y) =
      fold (\<lambda>z noc. if skip z then noc else snd (AddRouting (fst (key z)) (snd (key z)) (case z of (p, q) \<Rightarrow> xy_port p q) noc)) ?xs (C_Mesh x y)"
    unfolding BuildRoutingXY_def by (rule fold_cong) (auto simp: key_def skip_def split: prod.splits)
  moreover have "RoutingTables (fold (\<lambda>z noc. if skip z then noc else snd (AddRouting (fst (key z)) (snd (key z)) (case z of (p, q) \<Rightarrow> xy_port p q) noc)) ?xs (C_Mesh x y))
      (i * y + j, ii * y + jj) = Some (xy_port (i, j) (ii, jj))"
  proof (rule routes_of_pair)
    fix z assume z: "z \<in> set ?xs" "key z = (i * y + j, ii * y + jj)"
    obtain a b c d where abcd: "z = ((a, b), (c, d))" by (metis prod.exhaust)
    have "b < y" "d < y" "a * y + b = i * y + j" "c * y + d = ii * y + jj" using z by (simp_all add: abcd key_def)
    then have "a = i" "b = j" "c = ii" "d = jj" using inj assms(3,4) by blast+
    then show "(case z of (p, q) \<Rightarrow> xy_port p q) = xy_port (i, j) (ii, jj)" by (simp add: abcd)
  next
    have "((i, j), (ii, jj)) \<in> set ?xs" "\<not> skip ((i, j), (ii, jj))" "key ((i, j), (ii, jj)) = (i * y + j, ii * y + jj)"
      using assms by (auto simp: key_def skip_def)
    then show "RoutingTables (C_Mesh x y) (i * y + j, ii * y + jj) = Some (xy_port (i, j) (ii, jj)) \<or>
        (\<exists>z \<in> set ?xs. \<not> skip z \<and> key z = (i * y + j, ii * y + jj))" by blast
  qed (simp add: topology_no_routes)
  ultimately show ?thesis by simp
qed

lemma hop_stuck:
  assumes "next_hop noc t a = a" "a \<noteq> t" shows "hop_loop noc t a k = None"
proof (rule ccontr)
  assume "hop_loop noc t a k \<noteq> None"
  then obtain r where r: "hop_loop noc t a k = Some r" by blast
  have "\<not> (next_hop noc t a = a \<and> a \<noteq> t)"
    by (rule hop_loop.raw_induct [OF _ r]) (auto split: if_splits)
  then show False using assms by blast
qed

section \<open>Properties\<close>

text \<open>
  C40: whatever routers, links and end points are added in whatever order, the description stays consistent: the routers are a set in order, every link starts at a port its
  router has handed out and ends at a router, the port recorded for two routers is the port of a link between
  them, and every edge of the routing graph has such a port and the cost 1.
\<close>
theorem networks_well_formed:
  assumes "built noc"
  shows "noc_ok noc"
  using assms by (rule built_noc_ok)

theorem networks_well_formed_witness:
  "noc_ok (bind_slave 1 2 (0, 0xFF) (C_Ring 3 True))"
  by (rule networks_well_formed) (intro built_slave built_topologies)

text \<open>
  C39: on a consistent network without routes, whose routers are numbered from 0 and reach each other, the default routing returns, and afterwards a request from any
  router to any router arrives, after as many hops as the shortest way between the two has.
\<close>
theorem default_routing_delivers:
  assumes "priority_queue ops entries" and "noc_ok noc" and "SlowRouterIDs noc = [0..<n]" and "RoutingTables noc = Map.empty"
    and "connected {..<n} (NoCGraph noc)"
  shows "\<exists>noc'. BuildDefaultRoutingBidirectional ops noc = Some noc' \<and>
    (\<forall>a < n. \<forall>b < n. \<exists>h. HopCount noc' a b = Some h \<and> walk (NoCGraph noc) a b h \<and> (\<forall>W. walk (NoCGraph noc) a b W \<longrightarrow> h \<le> W))"
proof -
  have R: "set (SlowRouterIDs noc) = {..<n}" by (simp add: assms(3) atLeast0LessThan)
  have conn: "connected (set (SlowRouterIDs noc)) (NoCGraph noc)" using assms(5) R by simp
  have "tables_ok (NoCGraph noc) noc" "same_topology noc noc" by (simp_all add: tables_ok_def assms(4) same_topology_def)
  then obtain n1 where n1: "route_pairs ops (List.product (SlowRouterIDs noc) (SlowRouterIDs noc)) noc = Some n1" "tables_ok (NoCGraph noc) n1"
    "same_topology noc n1" "\<forall>(a, b) \<in> {..<n} \<times> {..<n}. a \<noteq> b \<longrightarrow> RoutingTables n1 (a, b) \<noteq> None"
    using route_pairs_ok [OF assms(1,2) conn, of "List.product (SlowRouterIDs noc) (SlowRouterIDs noc)" noc] R by auto
  define noc' where "noc' = n1\<lparr>NoCGraph := [], RoutingDone := True\<rparr>"
  have tables: "tables_ok (NoCGraph noc) noc'" using n1(2) by (simp add: tables_ok_def noc'_def)
  have ids: "SlowRouterIDs noc' = [0..<n]" using n1(3) assms(3) by (simp add: same_topology_def noc'_def)
  have routed: "RoutingTables noc' (a, b) \<noteq> None" if "a < n" "b < n" "a \<noteq> b" for a b using n1(4) that by (auto simp: noc'_def)
  have ends: "s < n" if "Links noc' (r, p) = Some (s, q)" for r p s q
    using noc_okD(3) [OF assms(2), of r p s q] that n1(3) R by (auto simp: same_topology_def noc'_def)
  have "HopCount noc' a b = Some (distance (NoCGraph noc) a b)" if "a < n" "b < n" for a b
    using hop_loop_distance [OF ids tables, of b a 0] routed [OF _ that(2)] ends that by (auto simp: HopCount_def)
  moreover have "walk (NoCGraph noc) a b (distance (NoCGraph noc) a b)" if "a < n" "b < n" for a b
    using assms(5) that distance_walk unfolding connected_def by blast
  ultimately show ?thesis using n1(1) distance_le by (intro exI [of _ noc']) (auto simp: BuildDefaultRoutingBidirectional_def noc'_def)
qed

theorem default_routing_delivers_witness:
  "\<exists>noc'. BuildDefaultRoutingBidirectional sorted_queue (C_Ring 3 False) = Some noc' \<and> (\<exists>h. HopCount noc' 2 1 = Some h \<and> walk (NoCGraph (C_Ring 3 False)) 2 1 h)"
proof -
  have ids: "SlowRouterIDs (C_Ring 3 False) = [0..<3]" by code_simp
  have graph: "NoCGraph (C_Ring 3 False) = [[(1, 1)], [(2, 1)], [(0, 1)]]" by code_simp
  have "connected {..<3} (NoCGraph (C_Ring 3 False))"
    unfolding graph
  proof (rule cycle_connected)
    fix a :: nat assume "a < 3"
    then have "a = 0 \<or> a = 1 \<or> a = 2" by presburger
    then show "\<exists>w. ((a + 1) mod 3, w) \<in> set ([[(1, 1)], [(2, 1)], [(0, 1)]] ! a)" by auto
  qed simp
  from default_routing_delivers [OF ascending.priority_queue_axioms built_noc_ok [OF built_topologies(2)] ids topology_no_routes(1) this]
  obtain noc' where "BuildDefaultRoutingBidirectional sorted_queue (C_Ring 3 False) = Some noc'"
    "\<forall>a < 3. \<forall>b < 3. \<exists>h. HopCount noc' a b = Some h \<and> walk (NoCGraph (C_Ring 3 False)) a b h \<and> (\<forall>W. walk (NoCGraph (C_Ring 3 False)) a b W \<longrightarrow> h \<le> W)" by blast
  moreover from this(2) have "\<exists>h. HopCount noc' 2 1 = Some h \<and> walk (NoCGraph (C_Ring 3 False)) 2 1 h" by (elim allE [of _ 2], elim impE allE [of _ 1]) auto
  ultimately show ?thesis by blast
qed

text \<open>
  the check of the memory map accepts exactly the maps in which no region begins inside or where a region of a smaller target begins. A region that begins before
  another one and reaches into it is accepted; the shared addresses go to the smaller target.
\<close>
theorem memory_check_one_sided:
  "CheckMemoryMap noc = Some () \<longleftrightarrow>
     (\<forall>j < length (MemMap noc). \<forall>i < j. \<not> in_region (fst (snd (MemMap noc ! j))) (snd (MemMap noc ! i)) \<and>
        fst (snd (MemMap noc ! j)) \<noteq> fst (snd (MemMap noc ! i)))"
proof -
  have free: "clash_free rs \<longleftrightarrow> sorted_wrt (\<lambda>r s. \<not> in_region (fst s) r \<and> fst s \<noteq> fst r) rs" for rs
    by (induction rs) (auto simp: clash_def Let_def list_all_iff)
  show ?thesis
    unfolding CheckMemoryMap_def free sorted_wrt_map sorted_wrt_iff_nth_less by (auto simp: cassert_def)
qed

theorem memory_check_one_sided_witness:
  "CheckMemoryMap (C_NoCBase_new\<lparr>MemMap := [((0, 0), (0x100, 0x1FF)), ((1, 0), (0x80, 0x17F))]\<rparr>) = Some () \<and>
   in_region 0x120 (0x100, 0x1FF) \<and> in_region 0x120 (0x80, 0x17F)"
proof -
  have "CheckMemoryMap (C_NoCBase_new\<lparr>MemMap := [((0, 0), (0x100, 0x1FF)), ((1, 0), (0x80, 0x17F))]\<rparr>) = Some ()"
    unfolding memory_check_one_sided by (simp add: in_region_def less_Suc_eq)
  then show ?thesis by (simp add: in_region_def)
qed

text \<open>
  the XY routing of a mesh assumes fixed port numbers that the links of border routers do not have: in a mesh with one row no request from the first router ever arrives
  at another router, because its east link has port 0 and the table names port 1.
\<close>
theorem xy_routing_lost:
  assumes "0 < t" and "t < n"
  shows "HopCount (BuildRoutingXY n 1 (C_Mesh n 1)) 0 t = None"
proof -
  let ?ls = "concat (map (mesh_links n 1) (List.product [0..<n] [0..<1]))"
  have n: "2 \<le> n" using assms by simp
  have ls: "?ls = concat (map (\<lambda>i. mesh_links n 1 (i, 0)) [0..<n])" by (simp add: product_concat_map o_def)
  have "[0..<n] = 0 # [1..<n]" using n by (simp add: upt_rec)
  then have "length (filter (\<lambda>l. fst l = 0) ?ls) = 1"
    unfolding ls using n by (simp add: filter_concat mesh_links_def o_def Let_def)
  moreover have "at_key (RouterOutputPortsCount (C_Mesh n 1)) 0 = length (filter (\<lambda>l. fst l = 0) ?ls)"
    using add_links_count [of C_NoCBase_new ?ls 0] n by (simp add: C_Mesh_def C_NoCBase_new_def at_key_def)
  ultimately have "Links (C_Mesh n 1) (0, 1) = None"
    using noc_okD(3) [OF built_noc_ok [OF built_topologies(3)], of n 1 0 1] by (cases "Links (C_Mesh n 1) (0, 1)") auto
  moreover have "RoutingTables (BuildRoutingXY n 1 (C_Mesh n 1)) (0, t) = Some 1"
    using xy_table [of 0 n t 0 1 0] assms by (simp add: xy_port_def)
  ultimately have "next_hop (BuildRoutingXY n 1 (C_Mesh n 1)) t 0 = 0" by (simp add: next_hop_def at_key_def)
  then show ?thesis using hop_stuck assms(1) by (simp add: HopCount_def)
qed

theorem xy_routing_lost_witness: "HopCount (BuildRoutingXY 4 1 (C_Mesh 4 1)) 0 3 = None"
  using xy_routing_lost [of 3 4] by simp

end
