(* ===== verification/BusTarget.thy ===== *)
theory BusTarget
  imports AddrSpace
begin

text \<open>
  The target side of a bus access (\<open>core/TargetIf.cpp\<close>, \<open>LatencyIf.cpp\<close>, \<open>Payload.hpp\<close>): the tests every access passes before it
  reaches the read or write function of a device, the grant of direct memory access and the debug accesses. A device is a record
  that extends the target, its read and write functions are arguments; an exception, a failed assertion and an access outside an array are \<open>None\<close>.
  A null data pointer is \<open>None\<close>, otherwise the data are the bytes of the buffer. The element type of the local memory is a byte, as in the memories.
\<close>

lemma unat_widen [simp]: "unat (ucast n :: u64) = unat n" for n :: u32
  using unat_bound [of n] by (simp add: unsigned_ucast_eq take_bit_nat_eq_self)

section \<open>Payloads\<close>

record generic_payload =
  gp_command :: tlm_command
  gp_address :: u64
  gp_data :: "u8 list option"
  gp_length :: u32
  gp_byte_enable_ptr :: bool
  gp_byte_enable_length :: u32
  gp_response :: tlm_response_status
  gp_dmi_allowed :: bool
  gp_min_payload :: bool
  gp_source :: "u32 option"
  gp_gic :: "u32 option"

record payload_t =
  cmd :: tlm_command
  addr :: u64
  ptr :: "u8 list option"
  len :: u32
  byte_enable_ptr :: bool
  byte_enable_len :: u32
  is_active :: bool
  dmi :: bool

definition payload_of :: "generic_payload \<Rightarrow> payload_t" where
  "payload_of tr =
     \<lparr>cmd = gp_command tr, addr = gp_address tr, ptr = gp_data tr, len = gp_length tr,
      byte_enable_ptr = gp_byte_enable_ptr tr, byte_enable_len = gp_byte_enable_length tr,
      is_active = gp_data tr \<noteq> None, dmi = False\<rparr>"

section \<open>Targets\<close>

record TargetIf =
  mEnableLatency :: bool
  mCyclesPerRead :: int
  mCyclesPerWrite :: int
  mInitialCyclesPerAccess :: int
  mCycleDuration :: u64
  mSpace :: AddrSpace
  mByteEnable :: bool
  mDmiEnable :: bool
  mLocalMem :: "u8 list"
  mReadCount :: u64
  mWriteCount :: u64

type_synonym 'a callback = "payload_t \<Rightarrow> u64 \<Rightarrow> 'a TargetIf_scheme \<Rightarrow> (tlm_response_status \<times> payload_t \<times> u64 \<times> 'a TargetIf_scheme) option"

text \<open>The size of the address space, whose computation throws for the whole 64-bit range.\<close>

definition size_of :: "'a TargetIf_scheme \<Rightarrow> u64 option" where
  "size_of t = (case getSize (mSpace t) of Inl _ \<Rightarrow> None | Inr n \<Rightarrow> Some n)"

text \<open>The code allocates the local memory without initialising it: its first contents are an argument.\<close>

definition TargetIf_new :: "(nat \<Rightarrow> u8) \<Rightarrow> u64 \<Rightarrow> bool \<Rightarrow> bool \<Rightarrow> TargetIf option" where
  "TargetIf_new fresh Size ByteEnable DmiEnable =
     (let t = \<lparr>mEnableLatency = False, mCyclesPerRead = 0, mCyclesPerWrite = 0, mInitialCyclesPerAccess = 0, mCycleDuration = 1,
         mSpace = AddrSpace_of_size Size, mByteEnable = ByteEnable, mDmiEnable = DmiEnable, mLocalMem = [], mReadCount = 0, mWriteCount = 0\<rparr>
      in do { n \<leftarrow> size_of t; Some (t\<lparr>mLocalMem := map fresh [0..<unat n]\<rparr>) })"

definition setByteEnable :: "bool \<Rightarrow> 'a TargetIf_scheme \<Rightarrow> 'a TargetIf_scheme" where
  "setByteEnable val t = t\<lparr>mByteEnable := val\<rparr>"

definition setDmiEnable :: "bool \<Rightarrow> 'a TargetIf_scheme \<Rightarrow> 'a TargetIf_scheme" where
  "setDmiEnable val t = t\<lparr>mDmiEnable := val\<rparr>"

definition setCyclesPerRead :: "int \<Rightarrow> 'a TargetIf_scheme \<Rightarrow> 'a TargetIf_scheme" where
  "setCyclesPerRead n t = t\<lparr>mCyclesPerRead := n\<rparr>"

definition setCyclesPerWrite :: "int \<Rightarrow> 'a TargetIf_scheme \<Rightarrow> 'a TargetIf_scheme" where
  "setCyclesPerWrite n t = t\<lparr>mCyclesPerWrite := n\<rparr>"

definition setInitialCyclesPerAccess :: "int \<Rightarrow> 'a TargetIf_scheme \<Rightarrow> 'a TargetIf_scheme" where
  "setInitialCyclesPerAccess n t = t\<lparr>mInitialCyclesPerAccess := n\<rparr>"

definition setCycleDuration :: "u64 \<Rightarrow> 'a TargetIf_scheme \<Rightarrow> 'a TargetIf_scheme" where
  "setCycleDuration d t = t\<lparr>mCycleDuration := d\<rparr>"

definition setEnableLatency :: "bool \<Rightarrow> 'a TargetIf_scheme \<Rightarrow> 'a TargetIf_scheme" where
  "setEnableLatency b t = t\<lparr>mEnableLatency := b\<rparr>"

definition getReadWordLatency :: "'a TargetIf_scheme \<Rightarrow> u64" where
  "getReadWordLatency t = of_int (mInitialCyclesPerAccess t + mCyclesPerRead t) * mCycleDuration t"

definition getWriteWordLatency :: "'a TargetIf_scheme \<Rightarrow> u64" where
  "getWriteWordLatency t = of_int (mInitialCyclesPerAccess t + mCyclesPerWrite t) * mCycleDuration t"

definition setTargetBaseAddress :: "u64 \<Rightarrow> 'a TargetIf_scheme \<Rightarrow> 'a TargetIf_scheme" where
  "setTargetBaseAddress b t = t\<lparr>mSpace := setBaseAddress b (mSpace t)\<rparr>"

section \<open>Blocking transport\<close>

text \<open>Only one function of each kind can be registered.\<close>

definition RegisterAccess :: "'c option \<Rightarrow> 'c \<Rightarrow> 'c option option" where
  "RegisterAccess old callback = (case old of Some _ \<Rightarrow> None | None \<Rightarrow> Some (Some callback))"

definition AccessFunction :: "'a callback option \<Rightarrow> 'a callback" where
  "AccessFunction callback p delay t = (case callback of None \<Rightarrow> None | Some f \<Rightarrow> f p delay t)"

definition CoreFunction ::
  "'a callback option \<Rightarrow> 'a callback option \<Rightarrow> 'a callback" where
  "CoreFunction rd wr p delay t =
     (if cmd p = TLM_WRITE_COMMAND then do {
        (status, p, delay, t) \<leftarrow> AccessFunction wr p delay t;
        Some (status, p, delay, t\<lparr>mWriteCount := mWriteCount t + ucast (len p)\<rparr>)
      }
      else do {
        (status, p, delay, t) \<leftarrow> AccessFunction rd p delay t;
        Some (status, p, delay, t\<lparr>mReadCount := mReadCount t + ucast (len p)\<rparr>)
      })"

text \<open>The tests, in the order of the code. The sums wrap at 64 bits.\<close>

definition access_error :: "payload_t \<Rightarrow> u64 \<Rightarrow> 'a TargetIf_scheme \<Rightarrow> tlm_response_status option" where
  "access_error p n t =
     (if addr p < mBaseAddress (mSpace t) \<or> addr p + ucast (len p) > mBaseAddress (mSpace t) + n then Some TLM_ADDRESS_ERROR_RESPONSE
      else if ucast (len p) > n \<or> len p = 0 then Some TLM_BURST_ERROR_RESPONSE
      else if \<not> mByteEnable t \<and> (byte_enable_ptr p \<or> byte_enable_len p \<noteq> 0) then Some TLM_BYTE_ENABLE_ERROR_RESPONSE
      else if cmd p \<noteq> TLM_WRITE_COMMAND \<and> cmd p \<noteq> TLM_READ_COMMAND then Some TLM_COMMAND_ERROR_RESPONSE
      else None)"

definition target_b_transport ::
  "'a callback option \<Rightarrow> 'a callback option \<Rightarrow> generic_payload \<Rightarrow> u64 \<Rightarrow> 'a TargetIf_scheme \<Rightarrow>
     (generic_payload \<times> u64 \<times> 'a TargetIf_scheme) option" where
  "target_b_transport rd wr tr delay t =
     do {
       n \<leftarrow> size_of t;
       case access_error (payload_of tr) n t of
         Some e \<Rightarrow> Some (tr\<lparr>gp_response := e\<rparr>, delay, t)
       | None \<Rightarrow> do {
           (rsp, p, delay, t) \<leftarrow> CoreFunction rd wr (payload_of tr) delay t;
           Some (tr\<lparr>gp_data := ptr p, gp_dmi_allowed := dmi p, gp_response := rsp\<rparr>, delay, t)
         }
     }"

section \<open>Direct memory access\<close>

text \<open>The pointer to the local memory is a name of the target: its address in the simulator.\<close>

record tlm_dmi =
  dmi_ptr :: nat
  dmi_read_write :: bool
  dmi_start :: u64
  dmi_end :: u64
  dmi_read_latency :: u64
  dmi_write_latency :: u64

definition target_get_direct_mem_ptr :: "nat \<Rightarrow> generic_payload \<Rightarrow> tlm_dmi \<Rightarrow> 'a TargetIf_scheme \<Rightarrow> bool \<times> generic_payload \<times> tlm_dmi" where
  "target_get_direct_mem_ptr self tr d t =
     (if gp_address tr < mBaseAddress (mSpace t) \<or> gp_address tr + ucast (gp_length tr) - 1 > mEndAddress (mSpace t)
      then (False, tr\<lparr>gp_response := TLM_ADDRESS_ERROR_RESPONSE\<rparr>, d)
      else (mDmiEnable t, tr\<lparr>gp_response := TLM_OK_RESPONSE\<rparr>,
        \<lparr>dmi_ptr = self, dmi_read_write = mDmiEnable t, dmi_start = mBaseAddress (mSpace t), dmi_end = mEndAddress (mSpace t),
         dmi_read_latency = getReadWordLatency t, dmi_write_latency = getWriteWordLatency t\<rparr>))"

section \<open>Bytes of the local memory\<close>

definition load :: "nat \<Rightarrow> nat \<Rightarrow> u8 list \<Rightarrow> u8 list option" where
  "load off n mem = (if off + n \<le> length mem then Some (take n (drop off mem)) else None)"

definition store :: "nat \<Rightarrow> u8 list \<Rightarrow> u8 list \<Rightarrow> u8 list option" where
  "store off bs mem = (if off + length bs \<le> length mem then Some (take off mem @ bs @ drop (off + length bs) mem) else None)"

text \<open>The debug access divides the address by four and ignores the base address.\<close>

definition target_transport_dbg :: "generic_payload \<Rightarrow> 'a TargetIf_scheme \<Rightarrow> (u32 \<times> generic_payload \<times> 'a TargetIf_scheme) option" where
  "target_transport_dbg tr t =
     do {
       _ \<leftarrow> cassert (gp_min_payload tr);
       n \<leftarrow> size_of t;
       let a = gp_address tr div 4;
       if a \<ge> n \<or> a + ucast (gp_length tr) \<ge> n then Some (0, tr\<lparr>gp_response := TLM_ADDRESS_ERROR_RESPONSE\<rparr>, t)
       else do {
         (tr, t) \<leftarrow> (case gp_command tr of
             TLM_READ_COMMAND \<Rightarrow> do {
               data \<leftarrow> gp_data tr;
               _ \<leftarrow> cassert (unat (gp_length tr) \<le> length data);
               bs \<leftarrow> load (unat a) (unat (gp_length tr)) (mLocalMem t);
               Some (tr\<lparr>gp_data := Some (bs @ drop (unat (gp_length tr)) data)\<rparr>, t)
             }
           | TLM_WRITE_COMMAND \<Rightarrow> do {
               data \<leftarrow> gp_data tr;
               _ \<leftarrow> cassert (unat (gp_length tr) \<le> length data);
               mem \<leftarrow> store (unat a) (take (unat (gp_length tr)) data) (mLocalMem t);
               Some (tr, t\<lparr>mLocalMem := mem\<rparr>)
             }
           | TLM_IGNORE_COMMAND \<Rightarrow> Some (tr, t));
         Some (gp_length tr, tr\<lparr>gp_response := TLM_OK_RESPONSE\<rparr>, t)
       }
     }"

end
