(* ===== verification/BusMemory.thy ===== *)
theory BusMemory
  imports BusTarget
begin

text \<open>
  Memories (\<open>components/memory/memory.cpp\<close>): targets whose read and write functions copy bytes between the payload and the local memory
  and add a latency per word. The latency loop is a \<open>partial_function\<close>: with a channel width of zero it does not end. Loading files is left out.
\<close>

record memory = TargetIf +
  mWordLengthInByte :: u32
  ReadLatency :: u64
  WriteLatency :: u64

definition memory_new :: "(nat \<Rightarrow> u8) \<Rightarrow> u64 \<Rightarrow> bool \<Rightarrow> bool \<Rightarrow> memory option" where
  "memory_new fresh Size ByteEnable DmiEnable =
     map_option (\<lambda>t. TargetIf.extend (setDmiEnable True t) (memory.fields 1 0 0)) (TargetIf_new fresh Size ByteEnable DmiEnable)"

definition setChannelWidth :: "u32 \<Rightarrow> memory \<Rightarrow> memory" where
  "setChannelWidth bytes m = m\<lparr>mWordLengthInByte := bytes\<rparr>"

text \<open>One latency per word, at least one.\<close>

partial_function (option) latency_loop :: "u32 \<Rightarrow> u64 \<Rightarrow> u32 \<Rightarrow> u64 \<Rightarrow> u64 \<Rightarrow> u64 option" where
  "latency_loop width latency n accessed delay =
     (let accessed = accessed + ucast width; delay = delay + latency in
      if accessed < ucast n then latency_loop width latency n accessed delay else Some delay)"

declare latency_loop.simps [code]

definition access_delay :: "u64 \<Rightarrow> memory \<Rightarrow> payload_t \<Rightarrow> u64 \<Rightarrow> u64 option" where
  "access_delay latency m p delay =
     (if mEnableLatency m then latency_loop (mWordLengthInByte m) latency (len p) 0 delay else Some delay)"

definition memory_read :: "unit memory_ext callback" where
  "memory_read p delay m =
     do {
       delay \<leftarrow> access_delay (ReadLatency m) m p delay;
       let p = p\<lparr>dmi := True\<rparr>;
       case ptr p of
         None \<Rightarrow> Some (TLM_OK_RESPONSE, p, delay, m)
       | Some data \<Rightarrow> do {
           bs \<leftarrow> load (unat (addr p - mBaseAddress (mSpace m))) (unat (len p)) (mLocalMem m);
           _ \<leftarrow> cassert (unat (len p) \<le> length data);
           Some (TLM_OK_RESPONSE, p\<lparr>ptr := Some (bs @ drop (unat (len p)) data)\<rparr>, delay, m)
         }
     }"

definition memory_write :: "unit memory_ext callback" where
  "memory_write p delay m =
     do {
       delay \<leftarrow> access_delay (WriteLatency m) m p delay;
       let p = p\<lparr>dmi := True\<rparr>;
       case ptr p of
         None \<Rightarrow> Some (TLM_OK_RESPONSE, p, delay, m)
       | Some data \<Rightarrow> do {
           _ \<leftarrow> cassert (unat (len p) \<le> length data);
           mem \<leftarrow> store (unat (addr p - mBaseAddress (mSpace m))) (take (unat (len p)) data) (mLocalMem m);
           Some (TLM_OK_RESPONSE, p, delay, m\<lparr>mLocalMem := mem\<rparr>)
         }
     }"

definition memory_b_transport :: "generic_payload \<Rightarrow> u64 \<Rightarrow> memory \<Rightarrow> (generic_payload \<times> u64 \<times> memory) option" where
  "memory_b_transport tr delay m = target_b_transport (Some memory_read) (Some memory_write) tr delay m"

text \<open>
  The debug output, as the list of the printed words with their addresses. The loop indexes the local memory with the address itself, not with
  its distance from the base address.
\<close>

partial_function (option) dump_loop :: "u8 list \<Rightarrow> u64 \<Rightarrow> u64 \<Rightarrow> (u64 \<times> u8 list) list option" where
  "dump_loop mem i end_addr =
     (if i < end_addr then do {
        let idx = map unat [i + 3, i + 2, i + 1, i];
        _ \<leftarrow> cassert (\<forall>k \<in> set idx. k < length mem);
        rest \<leftarrow> dump_loop mem (i + 4) end_addr;
        Some ((i, map (\<lambda>k. mem ! k) idx) # rest)
      }
      else Some [])"

declare dump_loop.simps [code]

definition Dump :: "u64 \<Rightarrow> u64 \<Rightarrow> memory \<Rightarrow> (u64 \<times> u8 list) list option" where
  "Dump start_addr end_addr m =
     do {
       _ \<leftarrow> cassert (\<not> (start_addr < mBaseAddress (mSpace m) \<or> end_addr > mEndAddress (mSpace m) \<or> end_addr < start_addr));
       dump_loop (mLocalMem m) start_addr end_addr
     }"

section \<open>The latency loop\<close>

text \<open>The number of words of an access, at least one.\<close>

definition words_of :: "nat \<Rightarrow> nat \<Rightarrow> nat" where
  "words_of width n = max 1 ((n + width - 1) div width)"

lemma words_of_step:
  assumes "0 < width" "width < n"
  shows "words_of width n = Suc (words_of width (n - width))"
proof -
  have "n + width - 1 = (n - width + width - 1) + width" using assms by simp
  then have "(n + width - 1) div width = Suc ((n - width + width - 1) div width)"
    using assms(1) by (metis div_add_self2 Suc_eq_plus1 less_not_refl)
  moreover have "1 \<le> (n - width + width - 1) div width"
    using assms by (simp add: Suc_leI div_greater_zero_iff)
  ultimately show ?thesis by (simp add: words_of_def)
qed

lemma words_of_small: "0 < width \<Longrightarrow> n \<le> width \<Longrightarrow> words_of width n = 1"
proof -
  assume w: "0 < width" "n \<le> width"
  then have "n + width - 1 < 2 * width" by linarith
  then have "(n + width - 1) div width < 2" using w by (simp add: less_mult_imp_div_less)
  then show ?thesis by (simp add: words_of_def)
qed

text \<open>The loop counts the words that are left; the counter of bytes does not wrap.\<close>

lemma latency_loop_words:
  assumes "width \<noteq> 0" "unat accessed \<le> unat n"
  shows "latency_loop width latency n accessed delay =
    Some (delay + of_nat (words_of (unat width) (unat n - unat accessed)) * latency)"
  using assms(2)
proof (induction "unat n - unat accessed" arbitrary: accessed delay rule: less_induct)
  case less
  have w: "0 < unat width" "unat width < 2 ^ 32" "unat n < 2 ^ 32"
    using assms(1) unat_bound [of width] unat_bound [of n] by (simp_all add: unat_gt_0)
  have sum: "unat (accessed + ucast width) = unat accessed + unat width"
    using less.prems w by (subst unat_add_nowrap) simp_all
  show ?case
  proof (cases "unat accessed + unat width < unat n")
    case True
    then have "words_of (unat width) (unat n - unat accessed) = Suc (words_of (unat width) (unat n - unat (accessed + ucast width)))"
      using words_of_step [of "unat width" "unat n - unat accessed"] w sum by (simp add: diff_diff_left)
    moreover have "latency_loop width latency n (accessed + ucast width) (delay + latency) =
        Some (delay + latency + of_nat (words_of (unat width) (unat n - unat (accessed + ucast width))) * latency)"
      using True w sum by (intro less.hyps) simp_all
    ultimately show ?thesis using True sum
      by (subst latency_loop.simps) (simp add: Let_def word_less_nat_alt algebra_simps)
  next
    case False
    then have "words_of (unat width) (unat n - unat accessed) = 1" using w by (intro words_of_small) simp_all
    then show ?thesis using False sum
      by (subst latency_loop.simps) (simp add: Let_def word_less_nat_alt)
  qed
qed

text \<open>With a channel width of zero, the loop goes on for ever.\<close>

lemma latency_loop_stuck:
  assumes "n \<noteq> 0"
  shows "latency_loop 0 latency n 0 delay = None"
proof (rule ccontr)
  assume "latency_loop 0 latency n 0 delay \<noteq> None"
  then obtain d where d: "latency_loop 0 latency n 0 delay = Some d" by blast
  have "\<not> ((0 :: u32) = 0 \<and> (0 :: u64) = 0 \<and> n \<noteq> 0)"
    by (rule latency_loop.raw_induct [OF _ d, where P = "\<lambda>width latency n accessed delay d. \<not> (width = 0 \<and> accessed = 0 \<and> n \<noteq> 0)"])
      (auto simp: Let_def word_less_nat_alt unat_gt_0 split: if_splits)
  then show False using assms by blast
qed

section \<open>Bytes\<close>

lemma load_nth: "load off n mem = Some bs \<Longrightarrow> length bs = n \<and> (\<forall>i < n. bs ! i = mem ! (off + i))"
  by (auto simp: load_def split: if_splits)

lemma store_nth:
  assumes "store off bs mem = Some mem'"
  shows "length mem' = length mem"
    "i < length mem \<Longrightarrow> mem' ! i = (if off \<le> i \<and> i < off + length bs then bs ! (i - off) else mem ! i)"
  using assms by (auto simp: store_def nth_append min_def split: if_splits)

section \<open>Memories as stores of bytes\<close>

text \<open>
  A memory that lies below the end of the address space: with its last byte at the very end, the sum of base address and
  size wraps to zero and every access is refused.
\<close>

definition mem_ok :: "memory \<Rightarrow> bool" where
  "mem_ok m \<longleftrightarrow> size_of m = Some (of_nat (length (mLocalMem m))) \<and>
     unat (mBaseAddress (mSpace m)) + length (mLocalMem m) < 2 ^ 64 \<and>
     (mEnableLatency m \<longrightarrow> mWordLengthInByte m \<noteq> 0)"

definition mem_accepts :: "memory \<Rightarrow> u64 \<Rightarrow> nat \<Rightarrow> bool" where
  "mem_accepts m a n \<longleftrightarrow> mBaseAddress (mSpace m) \<le> a \<and> unat a + n \<le> unat (mBaseAddress (mSpace m)) + length (mLocalMem m)"

definition mem_bytes :: "memory \<Rightarrow> u64 \<Rightarrow> u8" where
  "mem_bytes m x = (if mem_accepts m x 1 then mLocalMem m ! (unat x - unat (mBaseAddress (mSpace m))) else 0)"

lemma access_delay_returns: "mem_ok m \<Longrightarrow> \<exists>d. access_delay latency m p delay = Some d"
  by (auto simp: mem_ok_def access_delay_def latency_loop_words)

lemma access_error_None:
  assumes "mem_ok m" "mem_accepts m (gp_address tr) (unat (gp_length tr))" "gp_length tr \<noteq> 0"
    "\<not> gp_byte_enable_ptr tr" "gp_byte_enable_length tr = 0" "gp_command tr \<in> {TLM_READ_COMMAND, TLM_WRITE_COMMAND}"
  shows "access_error (payload_of tr) (of_nat (length (mLocalMem m))) m = None"
proof -
  let ?b = "mBaseAddress (mSpace m)" and ?n = "length (mLocalMem m)"
  have n: "unat (of_nat ?n :: u64) = ?n" using assms(1) by (simp add: mem_ok_def unat_of_nat)
  have top: "unat (?b + of_nat ?n) = unat ?b + ?n"
    using assms(1) n by (subst unat_add_nowrap) (simp_all add: mem_ok_def)
  have last: "unat (gp_address tr + ucast (gp_length tr)) = unat (gp_address tr) + unat (gp_length tr)"
    using assms(1,2) by (subst unat_add_nowrap) (simp_all add: mem_ok_def mem_accepts_def)
  show ?thesis using assms top last n
    by (auto simp: access_error_def payload_of_def mem_accepts_def wsimps)
qed

text \<open>What the constructor and the base address give.\<close>

lemma memory_new_ok:
  assumes "memory_new fresh Size ByteEnable DmiEnable = Some m" "unat b + unat Size + 1 < 2 ^ 64"
  shows "mem_ok (setTargetBaseAddress b m)" "mBaseAddress (mSpace (setTargetBaseAddress b m)) = b"
    "length (mLocalMem (setTargetBaseAddress b m)) = Suc (unat Size)"
proof -
  have size: "Size \<noteq> 0xffffffffffffffff" using assms(2) by auto
  have n: "unat (Size + 1) = Suc (unat Size)" using assms(2) by (subst unat_add_nowrap) simp_all
  have no_top: "\<not> (b = 0 \<and> Size + b = 0xffffffffffffffff)" using size by auto
  from assms(1) size have m: "mSpace m = \<lparr>mBaseAddress = 0, mEndAddress = Size\<rparr>" "length (mLocalMem m) = Suc (unat Size)"
    "\<not> mEnableLatency m"
    by (auto simp: memory_new_def TargetIf_new_def size_of_def getSize_def AddrSpace_of_size_def setDmiEnable_def
        TargetIf.defs memory.defs n)
  have "size_of (setTargetBaseAddress b m) = Some (Size + 1)"
    using m(1) no_top by (simp add: size_of_def setTargetBaseAddress_def setBaseAddress_def getSize_def)
  moreover have "(of_nat (Suc (unat Size)) :: u64) = Size + 1" by simp
  ultimately show "mem_ok (setTargetBaseAddress b m)"
    using m assms(2) by (simp add: mem_ok_def setTargetBaseAddress_def setBaseAddress_def)
  show "mBaseAddress (mSpace (setTargetBaseAddress b m)) = b" "length (mLocalMem (setTargetBaseAddress b m)) = Suc (unat Size)"
    using m by (simp_all add: setTargetBaseAddress_def setBaseAddress_def)
qed

text \<open>A memory that lies above its own size cannot be dumped.\<close>

lemma Dump_above_size:
  assumes "unat start_addr \<ge> length (mLocalMem m)" "start_addr < end_addr"
  shows "Dump start_addr end_addr m = None"
  using assms by (auto simp: Dump_def dump_loop.simps Let_def)

section \<open>Refused and escaping accesses\<close>

lemma memory_outside:
  assumes "mem_ok m" "\<not> gp_byte_enable_ptr tr" "gp_byte_enable_length tr = 0"
    "gp_command tr \<in> {TLM_READ_COMMAND, TLM_WRITE_COMMAND}" "gp_data tr = Some d" "length d = unat (gp_length tr)"
  shows "unat (gp_address tr) + unat (gp_length tr) < 2 ^ 64 \<Longrightarrow> \<not> mem_accepts m (gp_address tr) (unat (gp_length tr)) \<Longrightarrow>
      memory_b_transport tr delay m = Some (tr\<lparr>gp_response := TLM_ADDRESS_ERROR_RESPONSE\<rparr>, delay, m)"
    and "2 ^ 64 \<le> unat (gp_address tr) + unat (gp_length tr) \<Longrightarrow> unat (gp_length tr) \<le> length (mLocalMem m) \<Longrightarrow>
      access_error (payload_of tr) (of_nat (length (mLocalMem m))) m = None \<and> memory_b_transport tr delay m = None"
proof -
  let ?a = "gp_address tr" and ?b = "mBaseAddress (mSpace m)" and ?n = "unat (gp_length tr)" and ?L = "length (mLocalMem m)"
  have L: "unat (of_nat ?L :: u64) = ?L" and size: "size_of m = Some (of_nat ?L)" using assms(1) by (simp_all add: mem_ok_def unat_of_nat)
  have top: "unat (?b + of_nat ?L) = unat ?b + ?L"
    using assms(1) L by (subst unat_add_nowrap) (simp_all add: mem_ok_def)
  show "memory_b_transport tr delay m = Some (tr\<lparr>gp_response := TLM_ADDRESS_ERROR_RESPONSE\<rparr>, delay, m)"
    if "unat ?a + ?n < 2 ^ 64" "\<not> mem_accepts m ?a ?n"
  proof -
    have "unat (?a + ucast (gp_length tr)) = unat ?a + ?n" using that(1) by (subst unat_add_nowrap) simp_all
    then have "access_error (payload_of tr) (of_nat ?L) m = Some TLM_ADDRESS_ERROR_RESPONSE"
      using that(2) top by (auto simp: access_error_def payload_of_def mem_accepts_def wsimps)
    then show ?thesis using size by (simp add: memory_b_transport_def target_b_transport_def)
  qed
  assume wrap: "2 ^ 64 \<le> unat ?a + ?n" and n: "?n \<le> ?L"
  have bound: "unat ?b + ?L < 2 ^ 64" using assms(1) by (simp add: mem_ok_def)
  then have above: "unat ?b < unat ?a" "?L \<le> unat ?a - unat ?b + ?n - 1" "0 < ?n" using wrap n unat_bound [of ?a] by auto
  have "unat (?a + ucast (gp_length tr)) = unat ?a + ?n - 2 ^ 64"
    using wrap unat_bound [of ?a] n bound by (simp add: unat_word_ariths mod_if)
  then have err: "access_error (payload_of tr) (of_nat ?L) m = None"
    using assms(2-4) top L n above unat_bound [of ?a] by (auto simp: access_error_def payload_of_def wsimps unat_gt_0)
  have off: "\<not> unat (?a - ?b) + ?n \<le> ?L" using above wrap bound by (simp add: unat_sub_le wsimps)
  then have "memory_b_transport tr delay m = None"
    using err size assms(4,5,6)
    by (auto simp: memory_b_transport_def target_b_transport_def CoreFunction_def AccessFunction_def memory_read_def memory_write_def
        payload_of_def load_def store_def Option.bind_eq_None_conv split: option.splits)
  with err show "access_error (payload_of tr) (of_nat ?L) m = None \<and> memory_b_transport tr delay m = None" by blast
qed

text \<open>
  C37: An access to a memory that does not wrap around the end of the address space and does not lie inside the memory is answered with an address error,
  and nothing changes. An access that wraps around and is not longer than the memory passes every test, and its bytes are
  read or written outside the memory.
\<close>
theorem memory_refuses_or_escapes:
  assumes "mem_ok m" "\<not> gp_byte_enable_ptr tr" "gp_byte_enable_length tr = 0"
    "gp_command tr \<in> {TLM_READ_COMMAND, TLM_WRITE_COMMAND}" "gp_data tr = Some d" "length d = unat (gp_length tr)"
  shows "(unat (gp_address tr) + unat (gp_length tr) < 2 ^ 64 \<and> \<not> mem_accepts m (gp_address tr) (unat (gp_length tr)) \<longrightarrow>
        memory_b_transport tr delay m = Some (tr\<lparr>gp_response := TLM_ADDRESS_ERROR_RESPONSE\<rparr>, delay, m)) \<and>
    (2 ^ 64 \<le> unat (gp_address tr) + unat (gp_length tr) \<and> unat (gp_length tr) \<le> length (mLocalMem m) \<longrightarrow>
        access_error (payload_of tr) (of_nat (length (mLocalMem m))) m = None \<and> memory_b_transport tr delay m = None)"
  using memory_outside [OF assms] by blast

text \<open>A memory of four bytes at \<open>0x1000\<close>, and a read of four bytes.\<close>

definition sample_memory :: memory where
  "sample_memory = setTargetBaseAddress 0x1000 (the (memory_new (\<lambda>_. 0) 3 False False))"

definition sample_read :: "u64 \<Rightarrow> generic_payload" where
  "sample_read a = \<lparr>gp_command = TLM_READ_COMMAND, gp_address = a, gp_data = Some [0, 0, 0, 0], gp_length = 4,
     gp_byte_enable_ptr = False, gp_byte_enable_length = 0, gp_response = TLM_INCOMPLETE_RESPONSE, gp_dmi_allowed = False,
     gp_min_payload = False, gp_source = None, gp_gic = None\<rparr>"

lemma sample_memory_ok:
  "mem_ok sample_memory" "mBaseAddress (mSpace sample_memory) = 0x1000" "length (mLocalMem sample_memory) = 4"
proof -
  have "memory_new (\<lambda>_. 0) 3 False False \<noteq> None"
    by (simp add: memory_new_def TargetIf_new_def size_of_def getSize_def AddrSpace_of_size_def)
  then have "memory_new (\<lambda>_. 0) 3 False False = Some (the (memory_new (\<lambda>_. 0) 3 False False))" by simp
  from memory_new_ok [where b = "0x1000", OF this]
  show "mem_ok sample_memory" "mBaseAddress (mSpace sample_memory) = 0x1000" "length (mLocalMem sample_memory) = 4"
    by (simp_all add: sample_memory_def)
qed

theorem memory_refuses_or_escapes_witness:
  "memory_b_transport (sample_read 0x2000) 0 sample_memory = Some ((sample_read 0x2000)\<lparr>gp_response := TLM_ADDRESS_ERROR_RESPONSE\<rparr>, 0, sample_memory) \<and>
   memory_b_transport (sample_read 0xfffffffffffffffe) 0 sample_memory = None"
  using memory_refuses_or_escapes [of sample_memory "sample_read 0x2000" "[0, 0, 0, 0]" 0]
    memory_refuses_or_escapes [of sample_memory "sample_read 0xfffffffffffffffe" "[0, 0, 0, 0]" 0] sample_memory_ok
  by (simp add: sample_read_def mem_accepts_def)

section \<open>The latency of an access\<close>

text \<open>
  With latencies enabled, an access adds the latency of a word once per channel width begun, and at least once; the computation ends.
  With a channel width of zero, an access of at least one byte never ends.
\<close>
theorem memory_latency_words:
  assumes "mEnableLatency m"
  shows "(mWordLengthInByte m \<noteq> 0 \<longrightarrow> access_delay latency m p delay =
        Some (delay + of_nat (words_of (unat (mWordLengthInByte m)) (unat (len p))) * latency)) \<and>
    (mWordLengthInByte m = 0 \<and> len p \<noteq> 0 \<longrightarrow> access_delay latency m p delay = None)"
  using assms by (simp add: access_delay_def latency_loop_words latency_loop_stuck)

theorem memory_latency_words_witness:
  "access_delay 5 (setChannelWidth 4 (setEnableLatency True sample_memory)) (payload_of ((sample_read 0)\<lparr>gp_length := 10\<rparr>)) 100 = Some 115 \<and>
   access_delay 5 (setChannelWidth 0 (setEnableLatency True sample_memory)) (payload_of (sample_read 0)) 100 = None"
  using memory_latency_words [of "setChannelWidth 4 (setEnableLatency True sample_memory)" 5 "payload_of ((sample_read 0)\<lparr>gp_length := 10\<rparr>)" 100]
    memory_latency_words [of "setChannelWidth 0 (setEnableLatency True sample_memory)" 5 "payload_of (sample_read 0)" 100]
  by (simp add: setChannelWidth_def setEnableLatency_def payload_of_def sample_read_def words_of_def)

end
