(* ===== verification/BusInterconnect.thy ===== *)
theory BusInterconnect
  imports BusMemory "HOL-Library.Signed_Division"
begin

text \<open>
  The initiator side of a bus access (\<open>core/InitiatorIf.cpp\<close>) and the non-coherent interconnect
  (\<open>components/connect/interconnect.cpp\<close>, \<open>interconnect.hpp\<close>), which forwards an access to the output port whose
  address range holds it. What is bound to the sockets is an argument: for a port, a function on the state of what lies behind it.
\<close>

type_synonym 's transport = "generic_payload \<Rightarrow> u64 \<Rightarrow> 's \<Rightarrow> (generic_payload \<times> u64 \<times> 's) option"

section \<open>Initiators\<close>

datatype ACCESS_TYPE = READ | WRITE | READ_ATOMIC | WRITE_ATOMIC

record InitiatorIf =
  ini_mDmiEnable :: bool
  mForceLt :: bool
  mTlmActive :: bool
  mNbPort :: u32
  ini_trans :: generic_payload
  dbg_trans :: generic_payload

definition InitiatorIf_new :: "generic_payload \<Rightarrow> bool \<Rightarrow> u32 \<Rightarrow> InitiatorIf" where
  "InitiatorIf_new tr Active NbPort =
     \<lparr>ini_mDmiEnable = False, mForceLt = False, mTlmActive = Active, mNbPort = NbPort, ini_trans = tr, dbg_trans = tr\<rparr>"

definition setForceLt :: "bool \<Rightarrow> InitiatorIf \<Rightarrow> InitiatorIf" where
  "setForceLt b i = i\<lparr>mForceLt := b\<rparr>"

definition ini_setDmiEnable :: "bool \<Rightarrow> InitiatorIf \<Rightarrow> InitiatorIf" where
  "ini_setDmiEnable b i = i\<lparr>ini_mDmiEnable := b\<rparr>"

definition ini_invalidate_direct_mem_ptr :: "u64 \<Rightarrow> u64 \<Rightarrow> InitiatorIf \<Rightarrow> InitiatorIf" where
  "ini_invalidate_direct_mem_ptr start_addr end_addr i = ini_setDmiEnable False i"

text \<open>Every response but the positive one throws.\<close>

definition tlm_error_checking :: "tlm_response_status \<Rightarrow> unit option" where
  "tlm_error_checking status =
     (case status of TLM_OK_RESPONSE \<Rightarrow> Some () | _ \<Rightarrow> None)"

text \<open>The payload is a member that every access fills again; only \<open>READ\<close> reads, the other access types write.\<close>

definition fill_payload :: "u64 \<Rightarrow> u32 \<Rightarrow> u8 list option \<Rightarrow> ACCESS_TYPE \<Rightarrow> u32 \<Rightarrow> InitiatorIf \<Rightarrow> generic_payload" where
  "fill_payload a n data rw ident i =
     (ini_trans i)\<lparr>gp_address := a, gp_command := (if rw = READ then TLM_READ_COMMAND else TLM_WRITE_COMMAND),
        gp_length := n, gp_data := data, gp_byte_enable_ptr := False, gp_byte_enable_length := 0,
        gp_min_payload := \<not> (mTlmActive i \<or> mForceLt i), gp_response := TLM_INCOMPLETE_RESPONSE,
        gp_gic := Some ident\<rparr>"

definition target_mem_access ::
  "(nat \<Rightarrow> 's transport) \<Rightarrow> u32 \<Rightarrow> u64 \<Rightarrow> u32 \<Rightarrow> u8 list option \<Rightarrow> ACCESS_TYPE \<Rightarrow> u32 \<Rightarrow> u64 \<Rightarrow> InitiatorIf \<times> 's \<Rightarrow>
     (tlm_response_status \<times> u8 list option \<times> u64 \<times> (InitiatorIf \<times> 's)) option" where
  "target_mem_access sock num_port a n data rw ident delay s =
     do {
       let (i, env) = s;
       _ \<leftarrow> cassert (num_port < mNbPort i);
       (tr, delay, env) \<leftarrow> sock (unat num_port) (fill_payload a n data rw ident i) delay env;
       let tr = tr\<lparr>gp_gic := None\<rparr>;
       Some (gp_response tr, gp_data tr, delay, (i\<lparr>ini_trans := tr\<rparr>, env))
     }"

text \<open>A debug access is made only when direct access is enabled; the payload is a static variable whose other fields are kept.\<close>

definition target_dbg_access ::
  "(nat \<Rightarrow> generic_payload \<Rightarrow> 's \<Rightarrow> (u32 \<times> generic_payload \<times> 's) option) \<Rightarrow>
     u32 \<Rightarrow> u64 \<Rightarrow> u32 \<Rightarrow> u8 list option \<Rightarrow> ACCESS_TYPE \<Rightarrow> InitiatorIf \<times> 's \<Rightarrow>
     (u32 \<times> u8 list option \<times> (InitiatorIf \<times> 's)) option" where
  "target_dbg_access sock num_port a n data rw s =
     do {
       let (i, env) = s;
       _ \<leftarrow> cassert (mTlmActive i);
       if ini_mDmiEnable i then do {
         let tr = (dbg_trans i)\<lparr>gp_min_payload := True, gp_address := a, gp_length := n, gp_data := data,
                     gp_command := (if rw = READ then TLM_READ_COMMAND else TLM_WRITE_COMMAND)\<rparr>;
         _ \<leftarrow> cassert (num_port < mNbPort i);
         (nb_bytes, tr, env) \<leftarrow> sock (unat num_port) tr env;
         _ \<leftarrow> tlm_error_checking (gp_response tr);
         Some (nb_bytes, gp_data tr, (i\<lparr>dbg_trans := tr\<rparr>, env))
       }
       else Some (0, data, s)
     }"

section \<open>The interconnect\<close>

record addr_space_type =
  as_base_addr :: u64
  as_end_addr :: u64
  as_offset :: u64
  as_port :: u32

record interconnect =
  output_ports_t :: "addr_space_type list"
  ACCESS_LATENCY :: u64
  ENABLE_LATENCY :: bool
  write_count_out :: "u64 list"
  read_count_out :: "u64 list"
  mDefaultRoute :: int
  NUM_PORT_IN :: u32
  NUM_PORT_OUT :: u32
  ic_mIsMesh :: bool
  ic_mX :: int
  ic_mY :: int
  ic_mRouterLatency :: u64
  ic_mAddressIDs :: "(u64 \<times> u64 \<times> u64) list"
  ic_mIdIDs :: "(u64 \<times> u64) list"
  ic_mHnIDs :: "(u64 \<times> u64 \<times> u64) list"

text \<open>The constructor leaves the mesh flag and the mesh coordinates uninitialised: they are arguments.\<close>

definition interconnect_new :: "bool \<Rightarrow> int \<Rightarrow> int \<Rightarrow> u32 \<Rightarrow> u32 \<Rightarrow> interconnect" where
  "interconnect_new is_mesh x y nin nout =
     \<lparr>output_ports_t = [], ACCESS_LATENCY = 0, ENABLE_LATENCY = False,
      write_count_out = replicate (unat nout) 0, read_count_out = replicate (unat nout) 0,
      mDefaultRoute = -1, NUM_PORT_IN = nin, NUM_PORT_OUT = nout,
      ic_mIsMesh = is_mesh, ic_mX = x, ic_mY = y, ic_mRouterLatency = 0,
      ic_mAddressIDs = [], ic_mIdIDs = [], ic_mHnIDs = []\<rparr>"

definition ic_set_latency :: "u64 \<Rightarrow> interconnect \<Rightarrow> interconnect" where
  "ic_set_latency v ic = ic\<lparr>ACCESS_LATENCY := v\<rparr>"

definition ic_set_enable_latency :: "bool \<Rightarrow> interconnect \<Rightarrow> interconnect" where
  "ic_set_enable_latency v ic = ic\<lparr>ENABLE_LATENCY := v\<rparr>"

definition setDefaultRoute :: "int \<Rightarrow> interconnect \<Rightarrow> interconnect" where
  "setDefaultRoute p ic = ic\<lparr>mDefaultRoute := p\<rparr>"

definition set_socket_out_addr :: "u32 \<Rightarrow> u64 \<Rightarrow> u64 \<Rightarrow> interconnect \<Rightarrow> interconnect" where
  "set_socket_out_addr num_port base offset ic =
     ic\<lparr>output_ports_t := output_ports_t ic @
       [\<lparr>as_base_addr = base, as_end_addr = base + offset - 1, as_offset = offset, as_port = num_port\<rparr>]\<rparr>"

definition ic_set_is_mesh :: "bool \<Rightarrow> interconnect \<Rightarrow> interconnect" where
  "ic_set_is_mesh b ic = ic\<lparr>ic_mIsMesh := b\<rparr>"

definition ic_set_mesh_coord :: "int \<Rightarrow> int \<Rightarrow> interconnect \<Rightarrow> interconnect" where
  "ic_set_mesh_coord x y ic = ic\<lparr>ic_mX := x, ic_mY := y\<rparr>"

definition ic_set_router_latency :: "u64 \<Rightarrow> interconnect \<Rightarrow> interconnect" where
  "ic_set_router_latency ns ic = ic\<lparr>ic_mRouterLatency := ns\<rparr>"

definition ic_register_mem_ctrl :: "u64 \<Rightarrow> u64 \<Rightarrow> u64 \<Rightarrow> interconnect \<Rightarrow> interconnect" where
  "ic_register_mem_ctrl base sz ident ic = ic\<lparr>ic_mAddressIDs := ic_mAddressIDs ic @ [(base, sz, ident)]\<rparr>"

definition ic_register_source :: "u64 \<Rightarrow> u64 \<Rightarrow> interconnect \<Rightarrow> interconnect" where
  "ic_register_source src ident ic = ic\<lparr>ic_mIdIDs := ic_mIdIDs ic @ [(src, ident)]\<rparr>"

definition ic_register_hn_input :: "u64 \<Rightarrow> u64 \<Rightarrow> u64 \<Rightarrow> interconnect \<Rightarrow> interconnect" where
  "ic_register_hn_input base sz ident ic = ic\<lparr>ic_mHnIDs := ic_mHnIDs ic @ [(base, sz, ident)]\<rparr>"

text \<open>The first registered range that holds the address; the end of a range wraps at 64 bits.\<close>

fun find_range :: "u64 \<Rightarrow> (u64 \<times> u64 \<times> u64) list \<Rightarrow> u64 option" where
  "find_range a [] = None"
| "find_range a ((base, sz, ident) # ms) =
     (if base \<le> a \<and> a < sz + base then Some ident else find_range a ms)"

definition ic_get_hn_id_by_address :: "u64 \<Rightarrow> interconnect \<Rightarrow> u64 option" where
  "ic_get_hn_id_by_address a ic = find_range a (ic_mHnIDs ic)"

definition ic_get_id_by_address :: "u64 \<Rightarrow> interconnect \<Rightarrow> u64 option" where
  "ic_get_id_by_address a ic = find_range a (ic_mAddressIDs ic)"

definition ic_get_id_by_id :: "u64 \<Rightarrow> interconnect \<Rightarrow> u64 option" where
  "ic_get_id_by_id ident ic = map_of (ic_mIdIDs ic) ident"

text \<open>The first range that holds the first and the last address of the access, then the default route. Ports are read as signed numbers.\<close>

definition in_range :: "u64 \<Rightarrow> u64 \<Rightarrow> addr_space_type \<Rightarrow> bool" where
  "in_range a n e \<longleftrightarrow> as_base_addr e \<le> a \<and> a + n - 1 \<le> as_end_addr e"

definition get_port :: "u64 \<Rightarrow> u64 \<Rightarrow> interconnect \<Rightarrow> int" where
  "get_port a n ic =
     (if NUM_PORT_OUT ic > 1
      then (case find (in_range a n) (output_ports_t ic) of
              Some e \<Rightarrow> sint (as_port e)
            | None \<Rightarrow> mDefaultRoute ic)
      else 0)"

text \<open>An index into the vectors of the output ports.\<close>

definition port_index :: "int \<Rightarrow> interconnect \<Rightarrow> nat option" where
  "port_index p ic = (if 0 \<le> p \<and> nat p < unat (NUM_PORT_OUT ic) then Some (nat p) else None)"

definition count_access :: "generic_payload \<Rightarrow> nat \<Rightarrow> interconnect \<Rightarrow> interconnect" where
  "count_access tr p ic =
     (if gp_command tr = TLM_WRITE_COMMAND
      then ic\<lparr>write_count_out := (write_count_out ic)[p := write_count_out ic ! p + ucast (gp_length tr)]\<rparr>
      else ic\<lparr>read_count_out := (read_count_out ic)[p := read_count_out ic ! p + ucast (gp_length tr)]\<rparr>)"

text \<open>
  The delay of the mesh: the number of hops between the node of the initiator and the node of the address. The source identifier is divided as
  an unsigned number and the destination identifier, an \<open>int\<close>, as a signed one.
\<close>

definition as_int :: "u64 \<Rightarrow> int" where
  "as_int w = sint (ucast w :: u32)"

definition mesh_delay :: "generic_payload \<Rightarrow> interconnect \<Rightarrow> u64 option" where
  "mesh_delay tr ic =
     do {
       noc_id \<leftarrow> (case gp_source tr of
           None \<Rightarrow> ic_get_hn_id_by_address (gp_address tr) ic
         | Some c \<Rightarrow> ic_get_id_by_id (ucast c) ic);
       _ \<leftarrow> cassert (ic_mX ic \<noteq> 0);
       let src_x = as_int (noc_id mod of_int (ic_mX ic));
       let src_y = as_int (noc_id div of_int (ic_mX ic));
       ident \<leftarrow> map_option as_int (ic_get_id_by_address (gp_address tr) ic);
       let dst_x = ident smod ic_mX ic;
       let dst_y = ident sdiv ic_mX ic;
       Some (ic_mRouterLatency ic * of_int (\<bar>src_x - dst_x\<bar> + \<bar>src_y - dst_y\<bar>))
     }"

definition ic_b_transport :: "(nat \<Rightarrow> 's transport) \<Rightarrow> (interconnect \<times> 's) transport" where
  "ic_b_transport sock tr delay s =
     do {
       let (ic, env) = s;
       let num_port = get_port (gp_address tr) (ucast (gp_length tr)) ic;
       _ \<leftarrow> cassert (num_port \<noteq> -1);
       p \<leftarrow> port_index num_port ic;
       let ic = count_access tr p ic;
       let delay = (if ENABLE_LATENCY ic then delay + ACCESS_LATENCY ic else delay);
       delay \<leftarrow> (if ic_mIsMesh ic then map_option (\<lambda>d. delay + d) (mesh_delay tr ic) else Some delay);
       (tr, delay, env) \<leftarrow> sock p tr delay env;
       Some (tr, delay, (ic, env))
     }"

definition ic_get_direct_mem_ptr ::
  "(nat \<Rightarrow> generic_payload \<Rightarrow> tlm_dmi \<Rightarrow> 's \<Rightarrow> bool \<times> generic_payload \<times> tlm_dmi) \<Rightarrow>
     generic_payload \<Rightarrow> tlm_dmi \<Rightarrow> interconnect \<times> 's \<Rightarrow> (bool \<times> generic_payload \<times> tlm_dmi) option" where
  "ic_get_direct_mem_ptr sock tr d s =
     do {
       let (ic, env) = s;
       let tr = (if gp_length tr = 0 then tr\<lparr>gp_length := 1\<rparr> else tr);
       let num_port = get_port (gp_address tr) (ucast (gp_length tr)) ic;
       _ \<leftarrow> cassert (\<not> num_port < 0);
       p \<leftarrow> port_index num_port ic;
       Some (sock p tr d env)
     }"

definition ic_transport_dbg :: "generic_payload \<Rightarrow> u32 \<times> generic_payload" where
  "ic_transport_dbg tr = (0, tr\<lparr>gp_response := TLM_OK_RESPONSE\<rparr>)"

text \<open>The ranges are passed on to every input port.\<close>

definition ic_invalidate_direct_mem_ptr :: "(nat \<Rightarrow> u64 \<Rightarrow> u64 \<Rightarrow> 's \<Rightarrow> 's) \<Rightarrow> u64 \<Rightarrow> u64 \<Rightarrow> interconnect \<times> 's \<Rightarrow> interconnect \<times> 's" where
  "ic_invalidate_direct_mem_ptr sock start_range end_range s =
     (fst s, fold (\<lambda>k. sock k start_range end_range) [0..<unat (NUM_PORT_IN (fst s))] (snd s))"

end
