(* ===== verification/BusPath.thy ===== *)
theory BusPath
  imports BusInterconnect
begin

text \<open>
  Accesses of an initiator through the interconnect to memories. The locale \<open>byte_store\<close> is what an initiator expects of what is bound to its
  socket: inside the accepted ranges, it stores bytes. A memory is a byte store, and so is an interconnect whose output ports lead to
  byte stores; runs of accesses then refine a map from addresses to bytes.
\<close>

section \<open>The byte map\<close>

definition patch :: "u64 \<Rightarrow> u8 list \<Rightarrow> (u64 \<Rightarrow> u8) \<Rightarrow> u64 \<Rightarrow> u8" where
  "patch a d m x = (if a \<le> x \<and> unat x - unat a < length d then d ! (unat x - unat a) else m x)"

definition slice :: "u64 \<Rightarrow> nat \<Rightarrow> (u64 \<Rightarrow> u8) \<Rightarrow> u8 list" where
  "slice a n m = map (\<lambda>i. m (a + of_nat i)) [0..<n]"

definition plain :: "generic_payload \<Rightarrow> bool" where
  "plain tr \<longleftrightarrow> \<not> gp_byte_enable_ptr tr \<and> gp_byte_enable_length tr = 0"

lemma slice_eqI:
  assumes "length bs = n" "\<And>i. i < n \<Longrightarrow> bs ! i = m (a + of_nat i)"
  shows "slice a n m = bs"
  using assms by (auto simp: slice_def intro: nth_equalityI)

lemma unat_offset:
  fixes a :: u64
  assumes "unat a + n \<le> 2 ^ 64" "i < n"
  shows "unat (a + of_nat i) = unat a + i"
proof -
  have "unat (of_nat i :: u64) = i" using assms by (simp add: unat_of_nat)
  then show ?thesis using assms by (simp add: unat_add_nowrap)
qed

text \<open>A read of what was written, and of bytes that were not.\<close>

lemma slice_patch_same: "unat a + length d \<le> 2 ^ 64 \<Longrightarrow> slice a (length d) (patch a d m) = d"
  by (rule slice_eqI) (simp_all add: patch_def unat_offset wsimps)

lemma slice_patch_other:
  assumes "unat b + n \<le> 2 ^ 64" "unat b + n \<le> unat a \<or> unat a + length d \<le> unat b"
  shows "slice b n (patch a d m) = slice b n m"
  unfolding slice_def using assms by (auto simp: patch_def unat_offset wsimps)

section \<open>Runs of accesses\<close>

datatype bus_op = Put u64 "u8 list" | Get u64 nat

text \<open>The specification: answers and final bytes.\<close>

fun spec_ops :: "bus_op list \<Rightarrow> (u64 \<Rightarrow> u8) \<Rightarrow> u8 list list \<times> (u64 \<Rightarrow> u8)" where
  "spec_ops [] m = ([], m)"
| "spec_ops (Put a d # ops) m = (let (outs, m') = spec_ops ops (patch a d m) in (d # outs, m'))"
| "spec_ops (Get a n # ops) m = (let (outs, m') = spec_ops ops m in (slice a n m # outs, m'))"

fun op_address :: "bus_op \<Rightarrow> u64" where
  "op_address (Put a d) = a" | "op_address (Get a n) = a"

fun op_length :: "bus_op \<Rightarrow> nat" where
  "op_length (Put a d) = length d" | "op_length (Get a n) = n"

text \<open>One call of the initiator on its first port: a write, or a read into a fresh buffer.\<close>

definition issue ::
  "'s transport \<Rightarrow> u32 \<Rightarrow> bus_op \<Rightarrow> u64 \<Rightarrow> InitiatorIf \<times> 's \<Rightarrow>
     (tlm_response_status \<times> u8 list option \<times> u64 \<times> (InitiatorIf \<times> 's)) option" where
  "issue transport ident oper delay s =
     target_mem_access (\<lambda>_. transport) 0 (op_address oper) (of_nat (op_length oper))
       (Some (case oper of Put a d \<Rightarrow> d | Get a n \<Rightarrow> replicate n 0))
       (case oper of Put a d \<Rightarrow> WRITE | Get a n \<Rightarrow> READ) ident delay s"

fun run_ops ::
  "'s transport \<Rightarrow> u32 \<Rightarrow> bus_op list \<Rightarrow> u64 \<Rightarrow> InitiatorIf \<times> 's \<Rightarrow>
     ((tlm_response_status \<times> u8 list option) list \<times> u64 \<times> (InitiatorIf \<times> 's)) option" where
  "run_ops transport ident [] delay s = Some ([], delay, s)"
| "run_ops transport ident (oper # ops) delay s =
     do {
       (status, data, delay, s) \<leftarrow> issue transport ident oper delay s;
       (outs, delay, s) \<leftarrow> run_ops transport ident ops delay s;
       Some ((status, data) # outs, delay, s)
     }"

section \<open>Byte stores\<close>

text \<open>A run stays inside the accepted ranges.\<close>

definition serves :: "('s \<Rightarrow> u64 \<Rightarrow> nat \<Rightarrow> bool) \<Rightarrow> 's \<Rightarrow> bus_op \<Rightarrow> bool" where
  "serves accepts s oper \<longleftrightarrow>
     0 < op_length oper \<and> op_length oper < 2 ^ 32 \<and> accepts s (op_address oper) (op_length oper)"

text \<open>What an access of the accepted kind gives: the answer, and the state after it.\<close>

definition answers ::
  "('s \<Rightarrow> bool) \<Rightarrow> ('s \<Rightarrow> u64 \<Rightarrow> nat \<Rightarrow> bool) \<Rightarrow> ('s \<Rightarrow> u64 \<Rightarrow> u8) \<Rightarrow> u8 list \<Rightarrow> (u64 \<Rightarrow> u8) \<Rightarrow> 's \<Rightarrow>
     (generic_payload \<times> u64 \<times> 's) option \<Rightarrow> bool" where
  "answers ok accepts bytes out m s r \<longleftrightarrow>
     (\<exists>tr delay s'. r = Some (tr, delay, s') \<and> gp_response tr = TLM_OK_RESPONSE \<and> gp_data tr = Some out \<and>
        ok s' \<and> accepts s' = accepts s \<and> bytes s' = m)"

locale byte_store =
  fixes transport :: "'s transport"
    and ok :: "'s \<Rightarrow> bool"
    and accepts :: "'s \<Rightarrow> u64 \<Rightarrow> nat \<Rightarrow> bool"
    and bytes :: "'s \<Rightarrow> u64 \<Rightarrow> u8"
  assumes accepts_nowrap: "ok s \<Longrightarrow> accepts s a n \<Longrightarrow> unat a + n < 2 ^ 64"
    and put: "\<lbrakk>ok s; accepts s (gp_address tr) (unat (gp_length tr)); gp_length tr \<noteq> 0; plain tr;
        gp_command tr = TLM_WRITE_COMMAND; gp_data tr = Some d; length d = unat (gp_length tr)\<rbrakk>
      \<Longrightarrow> answers ok accepts bytes d (patch (gp_address tr) d (bytes s)) s (transport tr delay s)"
    and get: "\<lbrakk>ok s; accepts s (gp_address tr) (unat (gp_length tr)); gp_length tr \<noteq> 0; plain tr;
        gp_command tr = TLM_READ_COMMAND; gp_data tr = Some d; length d = unat (gp_length tr)\<rbrakk>
      \<Longrightarrow> answers ok accepts bytes (slice (gp_address tr) (unat (gp_length tr)) (bytes s)) (bytes s) s (transport tr delay s)"
begin

lemma issue_store:
  assumes "ok env" "serves accepts env oper" "mNbPort i \<noteq> 0"
  shows "\<exists>delay' i' env'. issue transport ident oper delay (i, env) =
      Some (TLM_OK_RESPONSE, Some (hd (fst (spec_ops [oper] (bytes env)))), delay', (i', env')) \<and>
      mNbPort i' = mNbPort i \<and> ok env' \<and> accepts env' = accepts env \<and> bytes env' = snd (spec_ops [oper] (bytes env))"
proof -
  have n: "unat (of_nat (op_length oper) :: u32) = op_length oper" "(of_nat (op_length oper) :: u32) \<noteq> 0"
    using assms(2) by (auto simp: serves_def unat_of_nat word_unat_eq_iff)
  have port: "0 < mNbPort i" using assms(3) by (simp add: word_gt_0)
  show ?thesis
  proof (cases oper)
    case (Put a d)
    then have "answers ok accepts bytes d (patch a d (bytes env)) env
        (transport (fill_payload a (of_nat (length d)) (Some d) WRITE ident i) delay env)"
      using put [of env "fill_payload a (of_nat (length d)) (Some d) WRITE ident i" d delay] n assms
      by (simp add: fill_payload_def plain_def serves_def)
    then show ?thesis using Put port
      by (auto simp: answers_def issue_def target_mem_access_def)
  next
    case (Get a k)
    then have "answers ok accepts bytes (slice a k (bytes env)) (bytes env) env
        (transport (fill_payload a (of_nat k) (Some (replicate k 0)) READ ident i) delay env)"
      using get [of env "fill_payload a (of_nat k) (Some (replicate k 0)) READ ident i" "replicate k 0" delay] n assms
      by (simp add: fill_payload_def plain_def serves_def)
    then show ?thesis using Get port
      by (auto simp: answers_def issue_def target_mem_access_def)
  qed
qed

lemma spec_ops_Cons:
  "spec_ops (oper # ops) m =
     (hd (fst (spec_ops [oper] m)) # fst (spec_ops ops (snd (spec_ops [oper] m))), snd (spec_ops ops (snd (spec_ops [oper] m))))"
  by (cases oper) (simp_all add: case_prod_beta)

lemma run_refines:
  assumes "ok env" "\<forall>oper \<in> set ops. serves accepts env oper" "mNbPort i \<noteq> 0"
  shows "\<exists>delay' i' env'. run_ops transport ident ops delay (i, env) =
      Some (map (\<lambda>d. (TLM_OK_RESPONSE, Some d)) (fst (spec_ops ops (bytes env))), delay', (i', env')) \<and>
      ok env' \<and> bytes env' = snd (spec_ops ops (bytes env))"
  using assms
proof (induction ops arbitrary: delay i env)
  case (Cons oper ops)
  obtain delay' i' env' where step: "issue transport ident oper delay (i, env) =
      Some (TLM_OK_RESPONSE, Some (hd (fst (spec_ops [oper] (bytes env)))), delay', (i', env'))"
    and i': "mNbPort i' = mNbPort i" and env': "ok env'" "accepts env' = accepts env"
    and m: "bytes env' = snd (spec_ops [oper] (bytes env))"
    using issue_store [of env oper i ident delay] Cons.prems by auto
  have "\<forall>oper \<in> set ops. serves accepts env' oper" "mNbPort i' \<noteq> 0"
    using Cons.prems i' env' by (auto simp: serves_def)
  from Cons.IH [OF env'(1) this, of delay'] obtain d2 i2 e2 where
    "run_ops transport ident ops delay' (i', env') =
       Some (map (\<lambda>d. (TLM_OK_RESPONSE, Some d)) (fst (spec_ops ops (bytes env'))), d2, (i2, e2))"
    "ok e2" "bytes e2 = snd (spec_ops ops (bytes env'))" by blast
  with step m show ?case unfolding spec_ops_Cons [of oper ops "bytes env"] by simp
qed simp

end

section \<open>An interconnect over byte stores\<close>

text \<open>Output port \<open>k\<close> is bound to component \<open>k\<close> of a list.\<close>

definition port_socket :: "'s transport \<Rightarrow> nat \<Rightarrow> 's list transport" where
  "port_socket transport k tr delay ss =
     (if k < length ss then map_option (\<lambda>(tr, delay, s). (tr, delay, ss[k := s])) (transport tr delay (ss ! k)) else None)"

definition holds :: "u64 \<Rightarrow> addr_space_type \<Rightarrow> bool" where
  "holds x e \<longleftrightarrow> as_base_addr e \<le> x \<and> x \<le> as_end_addr e"

text \<open>The ranges do not overlap and lead to existing ports. Routing on a mesh needs the registered nodes and is left out here.\<close>

definition ic_ok :: "interconnect \<Rightarrow> bool" where
  "ic_ok ic \<longleftrightarrow> 0 < NUM_PORT_OUT ic \<and> \<not> ic_mIsMesh ic \<and>
     length (write_count_out ic) = unat (NUM_PORT_OUT ic) \<and> length (read_count_out ic) = unat (NUM_PORT_OUT ic) \<and>
     (\<forall>e \<in> set (output_ports_t ic). 0 \<le> sint (as_port e) \<and> as_port e < NUM_PORT_OUT ic \<and>
        (\<forall>e' \<in> set (output_ports_t ic). e = e' \<or> as_end_addr e < as_base_addr e' \<or> as_end_addr e' < as_base_addr e))"

definition bus_ok :: "('s \<Rightarrow> bool) \<Rightarrow> interconnect \<times> 's list \<Rightarrow> bool" where
  "bus_ok ok s \<longleftrightarrow> ic_ok (fst s) \<and> length (snd s) = unat (NUM_PORT_OUT (fst s)) \<and> list_all ok (snd s)"

definition bus_accepts :: "('s \<Rightarrow> u64 \<Rightarrow> nat \<Rightarrow> bool) \<Rightarrow> interconnect \<times> 's list \<Rightarrow> u64 \<Rightarrow> nat \<Rightarrow> bool" where
  "bus_accepts accepts s a n \<longleftrightarrow>
     (if NUM_PORT_OUT (fst s) > 1
      then \<exists>e \<in> set (output_ports_t (fst s)).
        as_base_addr e \<le> a \<and> unat a + n \<le> Suc (unat (as_end_addr e)) \<and> accepts (snd s ! unat (as_port e)) a n
      else accepts (snd s ! 0) a n)"

definition bus_bytes :: "('s \<Rightarrow> u64 \<Rightarrow> u8) \<Rightarrow> interconnect \<times> 's list \<Rightarrow> u64 \<Rightarrow> u8" where
  "bus_bytes bytes s x =
     (if NUM_PORT_OUT (fst s) > 1
      then (case find (holds x) (output_ports_t (fst s)) of Some e \<Rightarrow> bytes (snd s ! unat (as_port e)) x | None \<Rightarrow> 0)
      else bytes (snd s ! 0) x)"

lemma find_unique:
  assumes "e \<in> set es" "P e" "\<And>e'. e' \<in> set es \<Longrightarrow> P e' \<Longrightarrow> e' = e"
  shows "find P es = Some e"
proof (cases "find P es")
  case None
  then show ?thesis using assms(1,2) by (simp add: find_None_iff)
next
  case (Some e')
  then have "e' \<in> set es" "P e'" by (auto simp: find_Some_iff)
  then show ?thesis using Some assms(3) by blast
qed

lemma ic_ok_overlap:
  assumes "ic_ok ic" "e \<in> set (output_ports_t ic)" "e' \<in> set (output_ports_t ic)" "holds x e" "holds x e'"
  shows "e' = e"
proof -
  have "e = e' \<or> as_end_addr e < as_base_addr e' \<or> as_end_addr e' < as_base_addr e"
    using assms(1-3) unfolding ic_ok_def by blast
  then show ?thesis using assms(4,5) by (auto simp: holds_def)
qed

lemma find_holds: "ic_ok ic \<Longrightarrow> e \<in> set (output_ports_t ic) \<Longrightarrow> holds x e \<Longrightarrow> find (holds x) (output_ports_t ic) = Some e"
  using ic_ok_overlap by (intro find_unique) blast+

lemma last_of_range:
  fixes a :: u64
  assumes "n \<noteq> 0" "unat a + unat n \<le> 2 ^ 64"
  shows "unat (a + n - 1) = unat a + unat n - 1"
proof -
  have "unat (n - 1) = unat n - 1" "0 < unat n" using assms by (simp_all add: unat_minus_one_word unat_gt_0)
  then have "unat (a + (n - 1)) = unat a + (unat n - 1)" using assms by (subst unat_add_nowrap) simp_all
  then show ?thesis using \<open>0 < unat n\<close> by (simp add: add_diff_eq)
qed

text \<open>The port an access inside a range is sent to.\<close>

lemma find_in_range:
  assumes "ic_ok ic" "e \<in> set (output_ports_t ic)" "n \<noteq> 0" "as_base_addr e \<le> a" "unat a + unat n \<le> Suc (unat (as_end_addr e))"
  shows "find (in_range a n) (output_ports_t ic) = Some e"
proof (rule find_unique [OF assms(2)])
  have top: "unat a + unat n \<le> 2 ^ 64" using assms(5) unat_bound [of "as_end_addr e"] by simp
  note last = last_of_range [OF assms(3) top]
  have n: "0 < unat n" using assms(3) by (simp add: unat_gt_0)
  show "in_range a n e" using assms n last by (simp add: in_range_def wsimps)
  have "a \<le> a + n - 1" using last n by (simp add: wsimps)
  then have "in_range a n e' \<Longrightarrow> holds a e'" for e' by (auto simp: in_range_def holds_def)
  moreover have "holds a e" using assms n by (simp add: holds_def wsimps)
  ultimately show "e' \<in> set (output_ports_t ic) \<Longrightarrow> in_range a n e' \<Longrightarrow> e' = e" for e'
    using ic_ok_overlap [OF assms(1,2)] by blast
qed

text \<open>The port and the component an accepted access reaches.\<close>

definition leads_to :: "interconnect \<Rightarrow> u64 \<Rightarrow> nat \<Rightarrow> nat \<Rightarrow> bool" where
  "leads_to ic a n k \<longleftrightarrow> k < unat (NUM_PORT_OUT ic) \<and>
     (if NUM_PORT_OUT ic > 1
      then \<exists>e \<in> set (output_ports_t ic). unat (as_port e) = k \<and> as_base_addr e \<le> a \<and> unat a + n \<le> Suc (unat (as_end_addr e))
      else k = 0)"

lemma bus_accepts_port:
  assumes "bus_ok ok (ic, ss)"
  shows "bus_accepts accepts (ic, ss) a n \<longleftrightarrow> (\<exists>k. leads_to ic a n k \<and> accepts (ss ! k) a n)"
  using assms by (auto simp: bus_ok_def ic_ok_def bus_accepts_def leads_to_def word_less_nat_alt)

lemma sint_nonneg:
  fixes w :: u32
  assumes "0 \<le> sint w"
  shows "sint w = int (unat w)"
proof -
  have eq: "sint w = uint w - 2 ^ 32 * of_bool (bit (uint w) 31)"
    using uint_lt2p [of w] by (simp add: sint_uint signed_take_bit_eq_take_bit_minus take_bit_int_eq_self)
  then have "\<not> bit (uint w) 31" using assms uint_lt2p [of w] by (auto simp: of_bool_def split: if_splits)
  then show ?thesis using eq by simp
qed

lemma get_port_leads:
  fixes n :: u32
  assumes "ic_ok ic" "leads_to ic a (unat n) k" "n \<noteq> 0"
  shows "get_port a (ucast n) ic = int k"
proof (cases "NUM_PORT_OUT ic > 1")
  case True
  with assms(2) obtain e where e: "e \<in> set (output_ports_t ic)" "unat (as_port e) = k"
    "as_base_addr e \<le> a" "unat a + unat (ucast n :: u64) \<le> Suc (unat (as_end_addr e))"
    by (auto simp: leads_to_def)
  have "(ucast n :: u64) \<noteq> 0" using assms(3) by (metis unat_widen unat_eq_0)
  then have "find (in_range a (ucast n)) (output_ports_t ic) = Some e" using find_in_range assms(1) e by blast
  moreover have "0 \<le> sint (as_port e)" using assms(1) e(1) by (auto simp: ic_ok_def)
  then have "sint (as_port e) = int k" using e(2) sint_nonneg [of "as_port e"] by (simp only:)
  ultimately show ?thesis using True by (simp add: get_port_def)
qed (use assms in \<open>simp add: get_port_def leads_to_def\<close>)

text \<open>The bytes an accepted access can touch are those of the component it reaches.\<close>

lemma bus_bytes_inside:
  assumes "ic_ok ic" "leads_to ic a n k" "a \<le> x" "unat x < unat a + n"
  shows "bus_bytes bytes (ic, ss) x = bytes (ss ! k) x"
proof (cases "NUM_PORT_OUT ic > 1")
  case True
  with assms(2) obtain e where e: "e \<in> set (output_ports_t ic)" "unat (as_port e) = k"
    "as_base_addr e \<le> a" "unat a + n \<le> Suc (unat (as_end_addr e))"
    by (auto simp: leads_to_def)
  then have "holds x e" using assms(3,4) by (simp add: holds_def wsimps)
  then show ?thesis using find_holds [OF assms(1) e(1)] e(2) True by (simp add: bus_bytes_def)
qed (use assms in \<open>simp add: bus_bytes_def leads_to_def\<close>)

lemma bus_bytes_patch:
  assumes "ic_ok ic" "leads_to ic a (length d) k" "k < length ss"
    "bytes s = patch a d (bytes (ss ! k))" "output_ports_t ic' = output_ports_t ic" "NUM_PORT_OUT ic' = NUM_PORT_OUT ic"
  shows "bus_bytes bytes (ic', ss[k := s]) = patch a d (bus_bytes bytes (ic, ss))"
proof
  fix x
  have same: "bus_bytes bytes (ic', ss[k := s]) x = bus_bytes bytes (ic, ss[k := s]) x"
    using assms(5,6) by (simp add: bus_bytes_def split: option.split)
  show "bus_bytes bytes (ic', ss[k := s]) x = patch a d (bus_bytes bytes (ic, ss)) x"
  proof (cases "a \<le> x \<and> unat x - unat a < length d")
    case True
    then have "unat x < unat a + length d" by (auto simp: wsimps)
    with True have "bus_bytes bytes (ic, ss[k := s]) x = bytes (ss[k := s] ! k) x"
      by (intro bus_bytes_inside [OF assms(1,2)]) simp_all
    then show ?thesis using True same assms(3,4) by (simp add: patch_def)
  next
    case False
    then have "bytes (ss[k := s] ! j) x = bytes (ss ! j) x" for j
      using assms(3,4) by (cases "j = k") (auto simp: patch_def)
    then have "bus_bytes bytes (ic, ss[k := s]) x = bus_bytes bytes (ic, ss) x"
      by (simp add: bus_bytes_def split: option.split)
    then show ?thesis using False same unfolding patch_def by presburger
  qed
qed

lemma bus_slice:
  assumes "ic_ok ic" "leads_to ic a n k" "unat a + n \<le> 2 ^ 64"
  shows "slice a n (bus_bytes bytes (ic, ss)) = slice a n (bytes (ss ! k))"
proof -
  have "bus_bytes bytes (ic, ss) (a + of_nat i) = bytes (ss ! k) (a + of_nat i)" if "i < n" for i
    using unat_offset [OF assms(3) that] that by (intro bus_bytes_inside [OF assms(1,2)]) (simp_all add: wsimps)
  then show ?thesis by (simp add: slice_def)
qed

lemma count_access_keeps [simp]:
  "output_ports_t (count_access tr k ic) = output_ports_t ic" "NUM_PORT_OUT (count_access tr k ic) = NUM_PORT_OUT ic"
  "ENABLE_LATENCY (count_access tr k ic) = ENABLE_LATENCY ic" "ACCESS_LATENCY (count_access tr k ic) = ACCESS_LATENCY ic"
  "ic_mIsMesh (count_access tr k ic) = ic_mIsMesh ic" "ic_ok (count_access tr k ic) = ic_ok ic"
  by (simp_all add: count_access_def ic_ok_def)

lemma ic_forward:
  assumes "ic_ok ic" "leads_to ic (gp_address tr) (unat (gp_length tr)) k" "gp_length tr \<noteq> 0" "k < length ss"
    "transport tr (if ENABLE_LATENCY ic then delay + ACCESS_LATENCY ic else delay) (ss ! k) = Some (tr', delay', s')"
  shows "ic_b_transport (port_socket transport) tr delay (ic, ss) = Some (tr', delay', (count_access tr k ic, ss[k := s']))"
proof -
  have "port_index (int k) ic = Some k" using assms(2) by (simp add: port_index_def leads_to_def)
  moreover have "\<not> ic_mIsMesh ic" using assms(1) by (simp add: ic_ok_def)
  ultimately show ?thesis using get_port_leads [OF assms(1-3)] assms(4,5)
    by (cases "ENABLE_LATENCY ic") (simp_all add: ic_b_transport_def port_socket_def Let_def)
qed

lemma bus_accepts_keeps:
  "k < length ss \<Longrightarrow> accepts s = accepts (ss ! k) \<Longrightarrow> bus_accepts accepts (count_access tr k ic, ss[k := s]) = bus_accepts accepts (ic, ss)"
  by (auto simp: bus_accepts_def fun_eq_iff nth_list_update)

lemma bus_ok_keeps: "bus_ok ok (ic, ss) \<Longrightarrow> ok s \<Longrightarrow> bus_ok ok (count_access tr k ic, ss[k := s])"
  by (auto simp: bus_ok_def list_all_iff dest: set_update_subset_insert [THEN subsetD])

context byte_store
begin

lemma bus_step:
  assumes "bus_ok ok (ic, ss)" "leads_to ic (gp_address tr) (unat (gp_length tr)) k" "gp_length tr \<noteq> 0"
    "answers ok accepts bytes out m (ss ! k)
       (transport tr (if ENABLE_LATENCY ic then delay + ACCESS_LATENCY ic else delay) (ss ! k))"
    "\<And>s. bytes s = m \<Longrightarrow> bus_bytes bytes (count_access tr k ic, ss[k := s]) = m'"
  shows "answers (bus_ok ok) (bus_accepts accepts) (bus_bytes bytes) out m' (ic, ss)
    (ic_b_transport (port_socket transport) tr delay (ic, ss))"
proof -
  have ic: "ic_ok ic" and k: "k < length ss" using assms(1,2) by (auto simp: bus_ok_def leads_to_def)
  from assms(4) obtain tr' delay' s' where
    step: "transport tr (if ENABLE_LATENCY ic then delay + ACCESS_LATENCY ic else delay) (ss ! k) = Some (tr', delay', s')"
    and tr': "gp_response tr' = TLM_OK_RESPONSE" "gp_data tr' = Some out"
    and s': "ok s'" "accepts s' = accepts (ss ! k)" "bytes s' = m"
    unfolding answers_def by blast
  from ic_forward [where transport = transport, OF ic assms(2,3) k step] show ?thesis
    using tr' assms(5) [OF s'(3)] bus_ok_keeps [OF assms(1) s'(1)] bus_accepts_keeps [of k ss accepts s', OF k s'(2)]
    by (simp add: answers_def)
qed

lemma bus_laws:
  assumes "bus_ok ok (ic, ss)" "bus_accepts accepts (ic, ss) a n"
  shows "\<exists>k. leads_to ic a n k \<and> k < length ss \<and> ok (ss ! k) \<and> accepts (ss ! k) a n \<and> unat a + n < 2 ^ 64"
proof -
  from assms obtain k where k: "leads_to ic a n k" "accepts (ss ! k) a n"
    using bus_accepts_port by blast
  then have "k < length ss" "ok (ss ! k)" using assms(1) by (auto simp: bus_ok_def leads_to_def list_all_length)
  with k accepts_nowrap show ?thesis by blast
qed

lemma bus_put:
  assumes "bus_ok ok s" "bus_accepts accepts s (gp_address tr) (unat (gp_length tr))" "gp_length tr \<noteq> 0" "plain tr"
    "gp_command tr = TLM_WRITE_COMMAND" "gp_data tr = Some d" "length d = unat (gp_length tr)"
  shows "answers (bus_ok ok) (bus_accepts accepts) (bus_bytes bytes) d (patch (gp_address tr) d (bus_bytes bytes s)) s
    (ic_b_transport (port_socket transport) tr delay s)"
proof -
  obtain ic ss where s: "s = (ic, ss)" by (cases s)
  from bus_laws [OF assms(1,2) [unfolded s]] obtain k where
    k: "leads_to ic (gp_address tr) (unat (gp_length tr)) k" "k < length ss" "ok (ss ! k)" "accepts (ss ! k) (gp_address tr) (unat (gp_length tr))"
    by blast
  have ic: "ic_ok ic" using assms(1) s by (simp add: bus_ok_def)
  show ?thesis unfolding s
  proof (rule bus_step [OF assms(1) [unfolded s] k(1) assms(3) put [OF k(3,4) assms(3-7)]])
    show "bytes t = patch (gp_address tr) d (bytes (ss ! k)) \<Longrightarrow>
        bus_bytes bytes (count_access tr k ic, ss[k := t]) = patch (gp_address tr) d (bus_bytes bytes (ic, ss))" for t
      using ic k(1,2) assms(7) by (intro bus_bytes_patch) simp_all
  qed
qed

lemma bus_get:
  assumes "bus_ok ok s" "bus_accepts accepts s (gp_address tr) (unat (gp_length tr))" "gp_length tr \<noteq> 0" "plain tr"
    "gp_command tr = TLM_READ_COMMAND" "gp_data tr = Some d" "length d = unat (gp_length tr)"
  shows "answers (bus_ok ok) (bus_accepts accepts) (bus_bytes bytes)
    (slice (gp_address tr) (unat (gp_length tr)) (bus_bytes bytes s)) (bus_bytes bytes s) s
    (ic_b_transport (port_socket transport) tr delay s)"
proof -
  obtain ic ss where s: "s = (ic, ss)" by (cases s)
  from bus_laws [OF assms(1,2) [unfolded s]] obtain k where
    k: "leads_to ic (gp_address tr) (unat (gp_length tr)) k" "k < length ss" "ok (ss ! k)" "accepts (ss ! k) (gp_address tr) (unat (gp_length tr))"
    "unat (gp_address tr) + unat (gp_length tr) < 2 ^ 64"
    by blast
  have ic: "ic_ok ic" using assms(1) s by (simp add: bus_ok_def)
  have eq: "slice (gp_address tr) (unat (gp_length tr)) (bus_bytes bytes (ic, ss)) =
      slice (gp_address tr) (unat (gp_length tr)) (bytes (ss ! k))"
    using bus_slice [OF ic k(1)] k(5) by simp
  show ?thesis unfolding s eq
  proof (rule bus_step [OF assms(1) [unfolded s] k(1) assms(3) get [OF k(3,4) assms(3-7)]])
    fix t assume t: "bytes t = bytes (ss ! k)"
    then have "bytes (ss[k := t] ! j) = bytes (ss ! j)" for j
      using k(2) by (cases "j = k") auto
    then show "bus_bytes bytes (count_access tr k ic, ss[k := t]) = bus_bytes bytes (ic, ss)"
      by (simp add: bus_bytes_def fun_eq_iff split: option.split)
  qed
qed

end

section \<open>A memory is a byte store\<close>

lemma mem_offset:
  assumes "mem_accepts m a n"
  shows "unat (a - mBaseAddress (mSpace m)) = unat a - unat (mBaseAddress (mSpace m))"
    "unat a - unat (mBaseAddress (mSpace m)) + n \<le> length (mLocalMem m)"
  using assms by (auto simp: mem_accepts_def unat_sub_le wsimps)

lemma mem_load:
  assumes "mem_ok m" "mem_accepts m a n"
  shows "load (unat (a - mBaseAddress (mSpace m))) n (mLocalMem m) = Some (slice a n (mem_bytes m))"
proof -
  note off = mem_offset [OF assms(2)]
  obtain bs where ld: "load (unat (a - mBaseAddress (mSpace m))) n (mLocalMem m) = Some bs"
    using off by (simp add: load_def)
  have top: "unat a + n \<le> 2 ^ 64" using assms by (simp add: mem_ok_def mem_accepts_def)
  have "slice a n (mem_bytes m) = bs"
    using load_nth [OF ld] off(1) assms(2) unat_offset [OF top]
    by (intro slice_eqI) (auto simp: mem_bytes_def mem_accepts_def wsimps)
  with ld show ?thesis by simp
qed

lemma mem_store:
  assumes "mem_accepts m a (length d)"
  shows "\<exists>mem'. store (unat (a - mBaseAddress (mSpace m))) d (mLocalMem m) = Some mem' \<and> length mem' = length (mLocalMem m) \<and>
    (\<forall>w. mem_bytes (m\<lparr>mLocalMem := mem', mWriteCount := w\<rparr>) = patch a d (mem_bytes m))"
proof -
  let ?b = "mBaseAddress (mSpace m)"
  note off = mem_offset [OF assms]
  obtain mem' where st: "store (unat (a - ?b)) d (mLocalMem m) = Some mem'" using off by (simp add: store_def)
  note mem' = store_nth [OF st [unfolded off(1)]]
  have "mem_bytes (m\<lparr>mLocalMem := mem', mWriteCount := w\<rparr>) x = patch a d (mem_bytes m) x" for x w
    using assms mem'(1) mem'(2) [of "unat x - unat ?b"]
    by (auto simp: mem_bytes_def mem_accepts_def patch_def wsimps)
  with st mem'(1) show ?thesis by blast
qed

lemma mem_put:
  assumes "mem_ok m" "mem_accepts m (gp_address tr) (unat (gp_length tr))" "gp_length tr \<noteq> 0" "plain tr"
    "gp_command tr = TLM_WRITE_COMMAND" "gp_data tr = Some d" "length d = unat (gp_length tr)"
  shows "answers mem_ok mem_accepts mem_bytes d (patch (gp_address tr) d (mem_bytes m)) m (memory_b_transport tr delay m)"
proof -
  have err: "access_error (payload_of tr) (of_nat (length (mLocalMem m))) m = None"
    using assms by (intro access_error_None) (simp_all add: plain_def)
  obtain delay' where dl: "access_delay (WriteLatency m) m (payload_of tr) delay = Some delay'"
    using access_delay_returns [OF assms(1)] by blast
  obtain mem' where mem': "store (unat (gp_address tr - mBaseAddress (mSpace m))) d (mLocalMem m) = Some mem'"
    "length mem' = length (mLocalMem m)" "\<And>w. mem_bytes (m\<lparr>mLocalMem := mem', mWriteCount := w\<rparr>) = patch (gp_address tr) d (mem_bytes m)"
    using mem_store assms(2,7) by metis
  have "memory_b_transport tr delay m = Some (tr\<lparr>gp_dmi_allowed := True, gp_response := TLM_OK_RESPONSE\<rparr>, delay',
      m\<lparr>mLocalMem := mem', mWriteCount := mWriteCount m + ucast (gp_length tr)\<rparr>)"
    using assms(1,5,6,7) err dl mem'(1)
    by (simp add: memory_b_transport_def target_b_transport_def mem_ok_def CoreFunction_def AccessFunction_def memory_write_def payload_of_def)
  then show ?thesis using assms(1,6) mem'(2,3)
    by (simp add: answers_def mem_ok_def size_of_def mem_accepts_def fun_eq_iff)
qed

lemma mem_get:
  assumes "mem_ok m" "mem_accepts m (gp_address tr) (unat (gp_length tr))" "gp_length tr \<noteq> 0" "plain tr"
    "gp_command tr = TLM_READ_COMMAND" "gp_data tr = Some d" "length d = unat (gp_length tr)"
  shows "answers mem_ok mem_accepts mem_bytes (slice (gp_address tr) (unat (gp_length tr)) (mem_bytes m)) (mem_bytes m) m
    (memory_b_transport tr delay m)"
proof -
  have err: "access_error (payload_of tr) (of_nat (length (mLocalMem m))) m = None"
    using assms by (intro access_error_None) (simp_all add: plain_def)
  obtain delay' where dl: "access_delay (ReadLatency m) m (payload_of tr) delay = Some delay'"
    using access_delay_returns [OF assms(1)] by blast
  have "memory_b_transport tr delay m = Some (tr\<lparr>gp_data := Some (slice (gp_address tr) (unat (gp_length tr)) (mem_bytes m)),
      gp_dmi_allowed := True, gp_response := TLM_OK_RESPONSE\<rparr>, delay', m\<lparr>mReadCount := mReadCount m + ucast (gp_length tr)\<rparr>)"
    using assms(1,5,6,7) err dl mem_load [OF assms(1,2)]
    by (simp add: memory_b_transport_def target_b_transport_def mem_ok_def CoreFunction_def AccessFunction_def memory_read_def payload_of_def)
  then show ?thesis using assms(1)
    by (simp add: answers_def mem_ok_def size_of_def mem_accepts_def mem_bytes_def fun_eq_iff)
qed

interpretation mem: byte_store memory_b_transport mem_ok mem_accepts mem_bytes
proof unfold_locales
  show "mem_ok m \<Longrightarrow> mem_accepts m a n \<Longrightarrow> unat a + n < 2 ^ 64" for m a n
    by (simp add: mem_ok_def mem_accepts_def)
qed (fact mem_put mem_get)+

interpretation bus: byte_store "ic_b_transport (port_socket memory_b_transport)"
  "bus_ok mem_ok" "bus_accepts mem_accepts" "bus_bytes mem_bytes"
proof unfold_locales
  show "bus_ok mem_ok s \<Longrightarrow> bus_accepts mem_accepts s a n \<Longrightarrow> unat a + n < 2 ^ 64" for s a n
    using mem.bus_laws [of "fst s" "snd s"] by auto
qed (fact mem.bus_put mem.bus_get)+

section \<open>Runs through the interconnect\<close>

text \<open>
  A run of reads and writes that an initiator makes through the interconnect, each inside one range that the addressed memory accepts, ends with a
  positive response to every access; the answers and the bytes of all memories afterwards are those of one map from addresses to bytes, in
  which a write replaces the bytes of its range and a read returns them.
\<close>
theorem bus_run_refines_bytes:
  assumes "bus_ok mem_ok (ic, ms)" "mNbPort i \<noteq> 0"
    "\<forall>oper \<in> set ops. serves (bus_accepts mem_accepts) (ic, ms) oper"
  shows "\<exists>delay' i' ic' ms'. run_ops (ic_b_transport (port_socket memory_b_transport)) ident ops delay (i, (ic, ms)) =
      Some (map (\<lambda>d. (TLM_OK_RESPONSE, Some d)) (fst (spec_ops ops (bus_bytes mem_bytes (ic, ms)))), delay', (i', (ic', ms'))) \<and>
      bus_ok mem_ok (ic', ms') \<and> bus_bytes mem_bytes (ic', ms') = snd (spec_ops ops (bus_bytes mem_bytes (ic, ms)))"
  using bus.run_refines [OF assms(1,3,2), of ident delay] by (metis surj_pair)

text \<open>Two memories behind an interconnect.\<close>

definition sample_bus :: "interconnect \<times> memory list" where
  "sample_bus = (set_socket_out_addr 1 0x2000 4 (set_socket_out_addr 0 0x1000 4 (interconnect_new False 0 0 1 2)),
     [sample_memory, setTargetBaseAddress 0x2000 sample_memory])"

lemma sample_memory_moved:
  "mem_ok (setTargetBaseAddress 0x2000 sample_memory)" "mBaseAddress (mSpace (setTargetBaseAddress 0x2000 sample_memory)) = 0x2000"
  "length (mLocalMem (setTargetBaseAddress 0x2000 sample_memory)) = 4"
  by (simp_all add: sample_memory_def memory_new_def TargetIf_new_def size_of_def getSize_def AddrSpace_of_size_def
      setTargetBaseAddress_def setBaseAddress_def setDmiEnable_def TargetIf.defs memory.defs mem_ok_def)

lemma sample_bus_ok: "bus_ok mem_ok sample_bus"
  by (simp add: bus_ok_def ic_ok_def sample_bus_def set_socket_out_addr_def interconnect_new_def sample_memory_ok sample_memory_moved)

lemma sample_bus_accepts:
  "bus_accepts mem_accepts sample_bus a n \<longleftrightarrow>
     (0x1000 \<le> a \<and> unat a + n \<le> 0x1004) \<or> (0x2000 \<le> a \<and> unat a + n \<le> 0x2004)"
  by (auto simp: bus_accepts_def sample_bus_def set_socket_out_addr_def interconnect_new_def mem_accepts_def sample_memory_ok sample_memory_moved)

definition sample_ops :: "bus_op list" where
  "sample_ops = [Put 0x1002 [1, 2], Put 0x2000 [7], Get 0x1002 2, Put 0x1003 [9], Get 0x1002 2, Get 0x2000 1]"

lemma sample_ops_spec: "fst (spec_ops sample_ops m) = [[1, 2], [7], [1, 2], [9], [1, 9], [7]]"
proof -
  have two: "[0..<2] = [0, Suc 0]" by (simp add: upt_rec)
  show ?thesis by (simp add: sample_ops_def slice_def patch_def two)
qed

theorem bus_run_refines_bytes_witness:
  "\<exists>delay s. run_ops (ic_b_transport (port_socket memory_b_transport)) 0 sample_ops 0 (InitiatorIf_new (sample_read 0) True 1, sample_bus) =
    Some (map (\<lambda>d. (TLM_OK_RESPONSE, Some d)) [[1, 2], [7], [1, 2], [9], [1, 9], [7]], delay, s)"
proof -
  have "\<forall>oper \<in> set sample_ops. serves (bus_accepts mem_accepts) sample_bus oper"
    by (simp add: sample_ops_def serves_def sample_bus_accepts)
  then show ?thesis
    using bus_run_refines_bytes [of "fst sample_bus" "snd sample_bus" "InitiatorIf_new (sample_read 0) True 1" sample_ops 0 0]
      sample_bus_ok unfolding sample_ops_spec by (auto simp: InitiatorIf_new_def)
qed

end
