(* ===== verification/BusForward.thy ===== *)
theory BusForward
  imports BusPath ParamModules
begin

text \<open>
  The forwarding sockets between the modules of a platform (\<open>core/vpsimModule/ForwardSimpleSocket.cpp\<close>). A forwarder keeps the regions for which it was
  granted direct memory access, serves accesses from them while the parameters of its module do not ask for blocking accesses, and gives regions up when the
  parameters change. What lies behind the socket is an argument: its blocking transport, the grant of direct access, and the memory a granted pointer leads to.
\<close>

section \<open>The forwarder\<close>

record 's downstream =
  ds_transport :: "'s transport"
  ds_direct :: "generic_payload \<Rightarrow> tlm_dmi \<Rightarrow> 's \<Rightarrow> (bool \<times> generic_payload \<times> tlm_dmi) option"
  ds_peek :: "nat \<Rightarrow> nat \<Rightarrow> nat \<Rightarrow> 's \<Rightarrow> u8 list option"
  ds_poke :: "nat \<Rightarrow> nat \<Rightarrow> u8 list \<Rightarrow> 's \<Rightarrow> 's option"

record ForwardSimpleSocket =
  mDmiData :: "tlm_dmi list"
  mDmiTrans :: tlm_dmi
  mPortNum :: nat

definition ForwardSimpleSocket_new :: "tlm_dmi \<Rightarrow> nat \<Rightarrow> ForwardSimpleSocket" where
  "ForwardSimpleSocket_new d portNum = \<lparr>mDmiData = [], mDmiTrans = d, mPortNum = portNum\<rparr>"

text \<open>A region that can serve an access. Read and write access are granted together.\<close>

definition usable :: "generic_payload \<Rightarrow> tlm_dmi \<Rightarrow> bool" where
  "usable tr d \<longleftrightarrow>
     dmi_start d \<le> gp_address tr \<and> gp_address tr + ucast (gp_length tr) - 1 \<le> dmi_end d \<and>
     (gp_command tr = TLM_READ_COMMAND \<and> dmi_read_write d \<or> gp_command tr = TLM_WRITE_COMMAND \<and> dmi_read_write d)"

definition direct_access :: "'s downstream \<Rightarrow> generic_payload \<Rightarrow> tlm_dmi \<Rightarrow> 's \<Rightarrow> (generic_payload \<times> 's) option" where
  "direct_access ds tr d env =
     do {
       (tr, env) \<leftarrow> (case gp_data tr of
           None \<Rightarrow> Some (tr, env)
         | Some data \<Rightarrow> do {
             let off = unat (gp_address tr - dmi_start d);
             let n = unat (gp_length tr);
             _ \<leftarrow> cassert (n \<le> length data);
             if gp_command tr = TLM_READ_COMMAND then do {
               bs \<leftarrow> ds_peek ds (dmi_ptr d) off n env;
               Some (tr\<lparr>gp_data := Some (bs @ drop n data)\<rparr>, env)
             }
             else if gp_command tr = TLM_WRITE_COMMAND then do {
               env \<leftarrow> ds_poke ds (dmi_ptr d) off (take n data) env;
               Some (tr, env)
             }
             else Some (tr, env)
           });
       Some (tr\<lparr>gp_response := TLM_OK_RESPONSE\<rparr>, env)
     }"

definition fw_get_direct_mem_ptr ::
  "'s downstream \<Rightarrow> BlockingTLMEnabled \<Rightarrow> 'r VpsimModule \<Rightarrow> generic_payload \<Rightarrow> tlm_dmi \<Rightarrow> ForwardSimpleSocket \<times> 's \<Rightarrow>
     (bool \<times> generic_payload \<times> tlm_dmi) option" where
  "fw_get_direct_mem_ptr ds dflt m tr d s =
     do {
       let (fw, env) = s;
       let start_addr = gp_address tr;
       let end_addr = start_addr + ucast (gp_length tr) - 1;
       blocking \<leftarrow> getBlockingTLMEnabled_space dflt (mPortNum fw) (AddrSpace_of start_addr end_addr) m;
       if bool_of_bt blocking then Some (False, tr, d\<lparr>dmi_read_write := False\<rparr>)
       else ds_direct ds tr d env
     }"

text \<open>
  An access that no region serves is passed on; when the target allows direct access, the forwarder asks for it with a copy of the transaction, whose
  data pointer stays null.
\<close>

definition fw_b_transport ::
  "'s downstream \<Rightarrow> BlockingTLMEnabled \<Rightarrow> 'r VpsimModule \<Rightarrow> (ForwardSimpleSocket \<times> 's) transport" where
  "fw_b_transport ds dflt m tr delay s =
     do {
       let (fw, env) = s;
       blocking \<leftarrow> map_option bool_of_bt (getBlockingTLMEnabled dflt (mPortNum fw) (gp_address tr) m);
       case (if blocking then None else find (usable tr) (mDmiData fw)) of
         Some d \<Rightarrow> do {
           (tr, env) \<leftarrow> direct_access ds tr d env;
           Some (tr, delay, (fw, env))
         }
       | None \<Rightarrow> do {
           (tr, delay, env) \<leftarrow> ds_transport ds tr delay env;
           fw \<leftarrow> (if gp_dmi_allowed tr \<and> \<not> blocking
                  then do {
                    (ret, _, d) \<leftarrow> fw_get_direct_mem_ptr ds dflt m (tr\<lparr>gp_data := None, gp_byte_enable_ptr := False\<rparr>) (mDmiTrans fw) (fw, env);
                    let fw = fw\<lparr>mDmiTrans := d\<rparr>;
                    Some (if ret then fw\<lparr>mDmiData := mDmiData fw @ [d]\<rparr> else fw)
                  }
                  else Some fw);
           Some (tr\<lparr>gp_dmi_allowed := gp_dmi_allowed tr \<and> \<not> blocking\<rparr>, delay, (fw, env))
         }
     }"

text \<open>Every region that meets the range is given up; the range is passed on to the input socket.\<close>

definition fw_invalidate_direct_mem_ptr :: "u64 \<Rightarrow> u64 \<Rightarrow> ForwardSimpleSocket \<Rightarrow> ForwardSimpleSocket \<times> (u64 \<times> u64)" where
  "fw_invalidate_direct_mem_ptr start_addr end_addr fw =
     (fw\<lparr>mDmiData := filter (\<lambda>d. \<not> (dmi_start d \<le> end_addr \<and> dmi_end d \<ge> start_addr)) (mDmiData fw)\<rparr>, (start_addr, end_addr))"

fun invalidate_all :: "AddrSpace list \<Rightarrow> ForwardSimpleSocket \<Rightarrow> ForwardSimpleSocket \<times> (u64 \<times> u64) list" where
  "invalidate_all [] fw = (fw, [])"
| "invalidate_all (as # ass) fw =
     (let (fw, call) = fw_invalidate_direct_mem_ptr (mBaseAddress as) (mEndAddress as) fw;
          (fw, calls) = invalidate_all ass fw
      in (fw, call # calls))"

text \<open>The hook that runs when the parameters of the module are recomputed.\<close>

fun to_invalidate :: "BlockingTLMEnabled \<Rightarrow> 'r VpsimModule \<Rightarrow> nat \<Rightarrow> tlm_dmi list \<Rightarrow> AddrSpace list option" where
  "to_invalidate dflt m port [] = Some []"
| "to_invalidate dflt m port (d # ds) =
     do {
       drop_it \<leftarrow> (if dmi_read_write d
                  then map_option bool_of_bt (getBlockingTLMEnabled_space dflt port (AddrSpace_of (dmi_start d) (dmi_end d)) m)
                  else Some False);
       rest \<leftarrow> to_invalidate dflt m port ds;
       Some (if drop_it then AddrSpace_of (dmi_start d) (dmi_end d) # rest else rest)
     }"

definition update_hook :: "BlockingTLMEnabled \<Rightarrow> 'r VpsimModule \<Rightarrow> ForwardSimpleSocket \<Rightarrow> (ForwardSimpleSocket \<times> (u64 \<times> u64) list) option" where
  "update_hook dflt m fw = map_option (\<lambda>ass. invalidate_all ass fw) (to_invalidate dflt m (mPortNum fw) (mDmiData fw))"

section \<open>What a forwarder relies on\<close>

text \<open>
  A byte store that grants direct access: a granted region leads to the bytes the store returns, for every access inside the region that the store accepts, and
  stays valid. Access by access, the region is as good as the transport.
\<close>

locale direct_store = byte_store transport ok accepts bytes
  for transport :: "'s transport" and ok accepts bytes +
  fixes direct :: "generic_payload \<Rightarrow> tlm_dmi \<Rightarrow> 's \<Rightarrow> (bool \<times> generic_payload \<times> tlm_dmi) option"
    and peek :: "nat \<Rightarrow> nat \<Rightarrow> nat \<Rightarrow> 's \<Rightarrow> u8 list option"
    and poke :: "nat \<Rightarrow> nat \<Rightarrow> u8 list \<Rightarrow> 's \<Rightarrow> 's option"
    and valid :: "'s \<Rightarrow> tlm_dmi \<Rightarrow> bool"
  assumes direct_returns: "\<lbrakk>ok s; accepts s (gp_address tr) (unat (gp_length tr)); gp_length tr \<noteq> 0\<rbrakk> \<Longrightarrow> direct tr d s \<noteq> None"
    and direct_grants: "\<lbrakk>ok s; direct tr d s = Some (True, tr', d')\<rbrakk> \<Longrightarrow> valid s d'"
    and transport_echo: "transport tr delay s = Some (tr', delay', s') \<Longrightarrow> gp_address tr' = gp_address tr \<and> gp_length tr' = gp_length tr"
    and transport_keeps: "\<lbrakk>ok s; valid s d; transport tr delay s = Some (tr', delay', s')\<rbrakk> \<Longrightarrow> valid s' d"
    and poke_keeps: "\<lbrakk>ok s; valid s d; poke p off bs s = Some s'\<rbrakk> \<Longrightarrow> valid s' d"
    and peek_bytes: "\<lbrakk>ok s; valid s d; accepts s a n; 0 < n; dmi_start d \<le> a; unat a + n \<le> Suc (unat (dmi_end d))\<rbrakk>
      \<Longrightarrow> peek (dmi_ptr d) (unat (a - dmi_start d)) n s = Some (slice a n (bytes s))"
    and poke_bytes: "\<lbrakk>ok s; valid s d; accepts s a (length bs); bs \<noteq> []; dmi_start d \<le> a; unat a + length bs \<le> Suc (unat (dmi_end d))\<rbrakk>
      \<Longrightarrow> \<exists>s'. poke (dmi_ptr d) (unat (a - dmi_start d)) bs s = Some s' \<and> ok s' \<and> accepts s' = accepts s \<and> bytes s' = patch a bs (bytes s)"

text \<open>The state of a forwarder in front of such a store, and the queries of the parameters that must not leave the container.\<close>

definition fw_ok :: "('s \<Rightarrow> bool) \<Rightarrow> ('s \<Rightarrow> tlm_dmi \<Rightarrow> bool) \<Rightarrow> nat \<Rightarrow> ForwardSimpleSocket \<times> 's \<Rightarrow> bool" where
  "fw_ok ok valid port s \<longleftrightarrow> ok (snd s) \<and> mPortNum (fst s) = port \<and> list_all (valid (snd s)) (mDmiData (fst s))"

definition fw_accepts :: "('s \<Rightarrow> u64 \<Rightarrow> nat \<Rightarrow> bool) \<Rightarrow> ForwardSimpleSocket \<times> 's \<Rightarrow> u64 \<Rightarrow> nat \<Rightarrow> bool" where
  "fw_accepts accepts s = accepts (snd s)"

definition fw_bytes :: "('s \<Rightarrow> u64 \<Rightarrow> u8) \<Rightarrow> ForwardSimpleSocket \<times> 's \<Rightarrow> u64 \<Rightarrow> u8" where
  "fw_bytes bytes s = bytes (snd s)"

definition queries_return :: "BlockingTLMEnabled \<Rightarrow> nat \<Rightarrow> 'r VpsimModule \<Rightarrow> bool" where
  "queries_return dflt port m \<longleftrightarrow> (\<forall>as. getBlockingTLMEnabled_space dflt port as m \<noteq> None)"

lemma queries_return_point: "queries_return dflt port m \<Longrightarrow> getBlockingTLMEnabled dflt port a m \<noteq> None"
  by (cases "port < length (mEffectiveParameters m)")
    (auto simp: queries_return_def getBlockingTLMEnabled_def getBlockingTLMEnabled_space_def)

context direct_store
begin

abbreviation downstream :: "'s downstream" where
  "downstream \<equiv> \<lparr>ds_transport = transport, ds_direct = direct, ds_peek = peek, ds_poke = poke\<rparr>"

lemma usable_inside:
  assumes "ok s" "accepts s (gp_address tr) (unat (gp_length tr))" "gp_length tr \<noteq> 0" "usable tr d"
  shows "dmi_start d \<le> gp_address tr" "unat (gp_address tr) + unat (gp_length tr) \<le> Suc (unat (dmi_end d))" "dmi_read_write d"
proof -
  have nz: "(ucast (gp_length tr) :: u64) \<noteq> 0" "0 < unat (gp_length tr)" using assms(3) by (metis unat_widen unat_eq_0, simp add: unat_gt_0)
  have "unat (gp_address tr) + unat (ucast (gp_length tr) :: u64) \<le> 2 ^ 64" using accepts_nowrap [OF assms(1,2)] by simp
  from last_of_range [OF nz(1) this] show "unat (gp_address tr) + unat (gp_length tr) \<le> Suc (unat (dmi_end d))"
    using assms(4) nz(2) by (auto simp: usable_def wsimps)
  show "dmi_start d \<le> gp_address tr" "dmi_read_write d" using assms(4) by (auto simp: usable_def)
qed

text \<open>The access passed on, with or without a new region.\<close>

lemma fw_passed_on:
  assumes "queries_return dflt (mPortNum fw) m" "ok s" "list_all (valid s) (mDmiData fw)"
    "accepts s (gp_address tr) (unat (gp_length tr))" "gp_length tr \<noteq> 0"
    "answers ok accepts bytes out mm s (transport tr delay s)"
    "getBlockingTLMEnabled dflt (mPortNum fw) (gp_address tr) m = Some blk"
    "(if bool_of_bt blk then None else find (usable tr) (mDmiData fw)) = None"
  shows "answers (fw_ok ok valid (mPortNum fw)) (fw_accepts accepts) (fw_bytes bytes) out mm (fw, s) (fw_b_transport downstream dflt m tr delay (fw, s))"
proof -
  obtain tr' delay' s' where t: "transport tr delay s = Some (tr', delay', s')" "gp_response tr' = TLM_OK_RESPONSE" "gp_data tr' = Some out"
    and s': "ok s'" "accepts s' = accepts s" "bytes s' = mm"
    using assms(6) unfolding answers_def by blast
  have echo: "gp_address tr' = gp_address tr" "gp_length tr' = gp_length tr" using transport_echo [OF t(1)] by auto
  have vs: "list_all (valid s') (mDmiData fw)" using assms(2,3) t(1) transport_keeps by (auto simp: list_all_iff)
  let ?tr = "tr'\<lparr>gp_data := None, gp_byte_enable_ptr := False\<rparr>"
  have "\<exists>ret tr'' d. fw_get_direct_mem_ptr downstream dflt m ?tr (mDmiTrans fw) (fw, s') = Some (ret, tr'', d) \<and> (ret \<longrightarrow> valid s' d)"
  proof -
    obtain v where v: "getBlockingTLMEnabled_space dflt (mPortNum fw) (AddrSpace_of (gp_address ?tr) (gp_address ?tr + ucast (gp_length ?tr) - 1)) m = Some v"
      using assms(1) by (auto simp: queries_return_def)
    have "direct ?tr (mDmiTrans fw) s' \<noteq> None"
      using s' assms(4,5) echo by (intro direct_returns) simp_all
    then obtain ret tr'' d where d: "direct ?tr (mDmiTrans fw) s' = Some (ret, tr'', d)" by (metis not_Some_eq prod_cases3)
    show ?thesis using v d direct_grants [OF s'(1)]
      by (cases "bool_of_bt v") (auto simp: fw_get_direct_mem_ptr_def Let_def)
  qed
  then show ?thesis using assms(7,8) t s' vs
    by (auto simp: answers_def fw_b_transport_def Let_def fw_ok_def fw_accepts_def fw_bytes_def)
qed

text \<open>The access served from a region.\<close>

lemma fw_served_read:
  assumes "ok s" "list_all (valid s) (mDmiData fw)" "accepts s (gp_address tr) (unat (gp_length tr))" "gp_length tr \<noteq> 0"
    "gp_command tr = TLM_READ_COMMAND" "gp_data tr = Some data" "length data = unat (gp_length tr)"
    "getBlockingTLMEnabled dflt (mPortNum fw) (gp_address tr) m = Some blk" "\<not> bool_of_bt blk" "find (usable tr) (mDmiData fw) = Some d"
  shows "answers (fw_ok ok valid (mPortNum fw)) (fw_accepts accepts) (fw_bytes bytes)
    (slice (gp_address tr) (unat (gp_length tr)) (bytes s)) (bytes s) (fw, s) (fw_b_transport downstream dflt m tr delay (fw, s))"
proof -
  have d: "d \<in> set (mDmiData fw)" "usable tr d" using assms(10) by (auto simp: find_Some_iff)
  note inside = usable_inside [OF assms(1,3,4) d(2)]
  have "peek (dmi_ptr d) (unat (gp_address tr - dmi_start d)) (unat (gp_length tr)) s = Some (slice (gp_address tr) (unat (gp_length tr)) (bytes s))"
    using assms(1-4) d(1) inside by (intro peek_bytes) (auto simp: list_all_iff unat_gt_0)
  then show ?thesis using assms
    by (simp add: answers_def fw_b_transport_def direct_access_def Let_def fw_ok_def fw_accepts_def fw_bytes_def)
qed

lemma fw_served_write:
  assumes "ok s" "list_all (valid s) (mDmiData fw)" "accepts s (gp_address tr) (unat (gp_length tr))" "gp_length tr \<noteq> 0"
    "gp_command tr = TLM_WRITE_COMMAND" "gp_data tr = Some data" "length data = unat (gp_length tr)"
    "getBlockingTLMEnabled dflt (mPortNum fw) (gp_address tr) m = Some blk" "\<not> bool_of_bt blk" "find (usable tr) (mDmiData fw) = Some d"
  shows "answers (fw_ok ok valid (mPortNum fw)) (fw_accepts accepts) (fw_bytes bytes)
    data (patch (gp_address tr) data (bytes s)) (fw, s) (fw_b_transport downstream dflt m tr delay (fw, s))"
proof -
  have d: "d \<in> set (mDmiData fw)" "usable tr d" using assms(10) by (auto simp: find_Some_iff)
  note inside = usable_inside [OF assms(1,3,4) d(2)]
  have "data \<noteq> []" using assms(4,7) by (auto simp: unat_eq_0)
  with assms(1-4,7) d(1) inside obtain s' where
    s': "poke (dmi_ptr d) (unat (gp_address tr - dmi_start d)) data s = Some s'" "ok s'" "accepts s' = accepts s"
      "bytes s' = patch (gp_address tr) data (bytes s)"
    using poke_bytes [of s d "gp_address tr" data] by (auto simp: list_all_iff)
  moreover have "list_all (valid s') (mDmiData fw)"
    using assms(1,2) poke_keeps [OF _ _ s'(1)] by (auto simp: list_all_iff)
  ultimately show ?thesis using assms
    by (simp add: answers_def fw_b_transport_def direct_access_def Let_def fw_ok_def fw_accepts_def fw_bytes_def)
qed

lemma fw_get:
  assumes "queries_return dflt port m" "fw_ok ok valid port s" "fw_accepts accepts s (gp_address tr) (unat (gp_length tr))" "gp_length tr \<noteq> 0" "plain tr"
    "gp_command tr = TLM_READ_COMMAND" "gp_data tr = Some d" "length d = unat (gp_length tr)"
  shows "answers (fw_ok ok valid port) (fw_accepts accepts) (fw_bytes bytes) (slice (gp_address tr) (unat (gp_length tr)) (fw_bytes bytes s)) (fw_bytes bytes s) s
    (fw_b_transport downstream dflt m tr delay s)"
proof -
  obtain fw env where s: "s = (fw, env)" by (cases s)
  have env: "ok env" "list_all (valid env) (mDmiData fw)" "accepts env (gp_address tr) (unat (gp_length tr))" "port = mPortNum fw"
    using assms(2,3) s by (auto simp: fw_ok_def fw_accepts_def)
  obtain blk where blk: "getBlockingTLMEnabled dflt (mPortNum fw) (gp_address tr) m = Some blk"
    using queries_return_point [OF assms(1)] env(4) by blast
  show ?thesis
  proof (cases "if bool_of_bt blk then None else find (usable tr) (mDmiData fw)")
    case None
    from fw_passed_on [OF assms(1) [unfolded env(4)] env(1-3) assms(4) get [OF env(1,3) assms(4-8)] blk None]
    show ?thesis by (simp add: s env(4) fw_bytes_def)
  next
    case (Some r)
    then have "\<not> bool_of_bt blk" "find (usable tr) (mDmiData fw) = Some r" by (auto split: if_splits)
    from fw_served_read [OF env(1-3) assms(4,6-8) blk this] show ?thesis by (simp add: s env(4) fw_bytes_def)
  qed
qed

lemma fw_put:
  assumes "queries_return dflt port m" "fw_ok ok valid port s" "fw_accepts accepts s (gp_address tr) (unat (gp_length tr))" "gp_length tr \<noteq> 0" "plain tr"
    "gp_command tr = TLM_WRITE_COMMAND" "gp_data tr = Some d" "length d = unat (gp_length tr)"
  shows "answers (fw_ok ok valid port) (fw_accepts accepts) (fw_bytes bytes) d (patch (gp_address tr) d (fw_bytes bytes s)) s
    (fw_b_transport downstream dflt m tr delay s)"
proof -
  obtain fw env where s: "s = (fw, env)" by (cases s)
  have env: "ok env" "list_all (valid env) (mDmiData fw)" "accepts env (gp_address tr) (unat (gp_length tr))" "port = mPortNum fw"
    using assms(2,3) s by (auto simp: fw_ok_def fw_accepts_def)
  obtain blk where blk: "getBlockingTLMEnabled dflt (mPortNum fw) (gp_address tr) m = Some blk"
    using queries_return_point [OF assms(1)] env(4) by blast
  show ?thesis
  proof (cases "if bool_of_bt blk then None else find (usable tr) (mDmiData fw)")
    case None
    from fw_passed_on [OF assms(1) [unfolded env(4)] env(1-3) assms(4) put [OF env(1,3) assms(4-8)] blk None]
    show ?thesis by (simp add: s env(4) fw_bytes_def)
  next
    case (Some r)
    then have "\<not> bool_of_bt blk" "find (usable tr) (mDmiData fw) = Some r" by (auto split: if_splits)
    from fw_served_write [OF env(1-3) assms(4,6-8) blk this] show ?thesis by (simp add: s env(4) fw_bytes_def)
  qed
qed

text \<open>In front of a direct store, a forwarder is a byte store, whatever the parameters of its module are.\<close>

lemma forward_store:
  assumes "queries_return dflt port m"
  shows "byte_store (fw_b_transport downstream dflt m) (fw_ok ok valid port) (fw_accepts accepts) (fw_bytes bytes)"
proof
  show "fw_ok ok valid port s \<Longrightarrow> fw_accepts accepts s a n \<Longrightarrow> unat a + n < 2 ^ 64" for s a n
    using accepts_nowrap by (auto simp: fw_ok_def fw_accepts_def)
qed (use fw_get fw_put assms in blast)+

end

section \<open>Memories behind an interconnect grant direct access\<close>

definition bus_direct :: "generic_payload \<Rightarrow> tlm_dmi \<Rightarrow> interconnect \<times> memory list \<Rightarrow> (bool \<times> generic_payload \<times> tlm_dmi) option" where
  "bus_direct = ic_get_direct_mem_ptr (\<lambda>k tr d ms. target_get_direct_mem_ptr k tr d (ms ! k))"

definition bus_peek :: "nat \<Rightarrow> nat \<Rightarrow> nat \<Rightarrow> interconnect \<times> memory list \<Rightarrow> u8 list option" where
  "bus_peek p off n s = (if p < length (snd s) then load off n (mLocalMem (snd s ! p)) else None)"

definition bus_poke :: "nat \<Rightarrow> nat \<Rightarrow> u8 list \<Rightarrow> interconnect \<times> memory list \<Rightarrow> (interconnect \<times> memory list) option" where
  "bus_poke p off bs s =
     (if p < length (snd s)
      then map_option (\<lambda>mem. (fst s, (snd s)[p := (snd s ! p)\<lparr>mLocalMem := mem\<rparr>])) (store off bs (mLocalMem (snd s ! p)))
      else None)"

text \<open>The ranges the memories themselves claim do not overlap.\<close>

definition windows_apart :: "memory list \<Rightarrow> bool" where
  "windows_apart ms \<longleftrightarrow> (\<forall>i < length ms. \<forall>j < length ms. i \<noteq> j \<longrightarrow> \<not> intersect (mSpace (ms ! i)) (mSpace (ms ! j)))"

definition apart_ok :: "interconnect \<times> memory list \<Rightarrow> bool" where
  "apart_ok s \<longleftrightarrow> bus_ok mem_ok s \<and> windows_apart (snd s)"

definition bus_valid :: "interconnect \<times> memory list \<Rightarrow> tlm_dmi \<Rightarrow> bool" where
  "bus_valid s d \<longleftrightarrow> dmi_ptr d < length (snd s) \<and> dmi_start d = mBaseAddress (mSpace (snd s ! dmi_ptr d)) \<and>
     dmi_end d = mEndAddress (mSpace (snd s ! dmi_ptr d))"

lemma apart_okD: "apart_ok s \<Longrightarrow> bus_ok mem_ok s"
  by (simp add: apart_ok_def)

lemma same_spaces:
  assumes "map mSpace ms' = map mSpace ms"
  shows "windows_apart ms' = windows_apart ms" "bus_valid (ic', ms') d = bus_valid (ic, ms) d"
proof -
  have n: "length ms' = length ms" using assms by (rule map_eq_imp_length_eq)
  have "mSpace (ms' ! k) = mSpace (ms ! k)" if "k < length ms" for k
    using assms n that by (metis nth_map)
  then show "windows_apart ms' = windows_apart ms" "bus_valid (ic', ms') d = bus_valid (ic, ms) d"
    using n by (auto simp: windows_apart_def bus_valid_def)
qed

text \<open>No access moves a memory.\<close>

lemma memory_transport_keeps:
  assumes "memory_b_transport tr delay m = Some (tr', delay', m')"
  shows "mSpace m' = mSpace m \<and> gp_address tr' = gp_address tr \<and> gp_length tr' = gp_length tr"
  using assms
  by (auto simp: memory_b_transport_def target_b_transport_def CoreFunction_def AccessFunction_def memory_read_def memory_write_def Let_def osimps
      split: option.splits if_splits)

lemma bus_transport_keeps:
  assumes "ic_b_transport (port_socket memory_b_transport) tr delay (ic, ms) = Some (tr', delay', (ic', ms'))"
  shows "map mSpace ms' = map mSpace ms \<and> gp_address tr' = gp_address tr \<and> gp_length tr' = gp_length tr"
proof -
  obtain k delay1 m' where "k < length ms" "memory_b_transport tr delay1 (ms ! k) = Some (tr', delay', m')" "ms' = ms[k := m']"
    using assms by (auto simp: ic_b_transport_def port_socket_def Let_def osimps split: if_splits)
  then show ?thesis using memory_transport_keeps [of tr delay1 "ms ! k" tr' delay' m']
    by (simp add: map_update) (metis list_update_id nth_map)
qed

lemma answers_apart:
  assumes "answers (bus_ok mem_ok) (bus_accepts mem_accepts) (bus_bytes mem_bytes) out m s (ic_b_transport (port_socket memory_b_transport) tr delay s)" "apart_ok s"
  shows "answers apart_ok (bus_accepts mem_accepts) (bus_bytes mem_bytes) out m s (ic_b_transport (port_socket memory_b_transport) tr delay s)"
proof -
  obtain tr' delay' s' where r: "ic_b_transport (port_socket memory_b_transport) tr delay s = Some (tr', delay', s')"
    "gp_response tr' = TLM_OK_RESPONSE" "gp_data tr' = Some out" "bus_ok mem_ok s'" "bus_accepts mem_accepts s' = bus_accepts mem_accepts s" "bus_bytes mem_bytes s' = m"
    using assms(1) unfolding answers_def by blast
  obtain ic ms ic' ms' where s: "s = (ic, ms)" "s' = (ic', ms')" by (cases s, cases s') blast
  have "map mSpace ms' = map mSpace ms" using bus_transport_keeps r(1) s by blast
  from same_spaces(1) [OF this] have "apart_ok s'" using assms(2) r(4) s by (simp add: apart_ok_def)
  with r show ?thesis by (simp add: answers_def)
qed

text \<open>An accepted access inside the window of a memory goes to that memory.\<close>

lemma window_routes:
  assumes "apart_ok (ic, ms)" "bus_valid (ic, ms) d" "bus_accepts mem_accepts (ic, ms) a n" "0 < n"
    "dmi_start d \<le> a" "unat a + n \<le> Suc (unat (dmi_end d))"
  shows "leads_to ic a n (dmi_ptr d) \<and> mem_ok (ms ! dmi_ptr d) \<and> mem_accepts (ms ! dmi_ptr d) a n"
proof -
  have ok: "bus_ok mem_ok (ic, ms)" using assms(1) by (simp add: apart_ok_def)
  from mem.bus_laws [OF ok assms(3)] obtain k where
    k: "leads_to ic a n k" "k < length ms" "mem_ok (ms ! k)" "mem_accepts (ms ! k) a n" by blast
  let ?m = "ms ! k"
  have "unat (mEndAddress (mSpace ?m)) + 1 = unat (mBaseAddress (mSpace ?m)) + length (mLocalMem ?m)"
  proof -
    have L: "0 < length (mLocalMem ?m)" using k(4) assms(4) by (auto simp: mem_accepts_def wsimps)
    have "mEndAddress (mSpace ?m) - mBaseAddress (mSpace ?m) + 1 = of_nat (length (mLocalMem ?m))"
      using k(3) by (auto simp: mem_ok_def size_of_def getSize_def split: if_splits)
    then have "mEndAddress (mSpace ?m) = mBaseAddress (mSpace ?m) + of_nat (length (mLocalMem ?m)) - 1" by (simp add: algebra_simps)
    moreover have "unat (of_nat (length (mLocalMem ?m)) :: u64) = length (mLocalMem ?m)" using k(3) by (simp add: mem_ok_def unat_of_nat)
    ultimately show ?thesis
      using last_of_range [of "of_nat (length (mLocalMem ?m))" "mBaseAddress (mSpace ?m)"] k(3) L
      by (auto simp: mem_ok_def word_unat_eq_iff)
  qed
  then have "mBaseAddress (mSpace ?m) \<le> a" "a \<le> mEndAddress (mSpace ?m)" using k(4) assms(4) by (auto simp: mem_accepts_def wsimps)
  moreover have "mBaseAddress (mSpace (ms ! dmi_ptr d)) \<le> a" "a \<le> mEndAddress (mSpace (ms ! dmi_ptr d))"
    using assms(2,4,5,6) by (auto simp: bus_valid_def wsimps)
  ultimately have "intersect (mSpace ?m) (mSpace (ms ! dmi_ptr d))" by (auto simp: intersect_def)
  then have "k = dmi_ptr d" using assms(1,2) k(2) by (auto simp: apart_ok_def windows_apart_def bus_valid_def)
  with k show ?thesis by simp
qed

lemma bus_poke_result:
  assumes "bus_poke p off bs (ic, ms) = Some s'"
  shows "\<exists>ms'. s' = (ic, ms') \<and> map mSpace ms' = map mSpace ms"
proof -
  obtain mem where "p < length ms" "s' = (ic, ms[p := (ms ! p)\<lparr>mLocalMem := mem\<rparr>])"
    using assms by (auto simp: bus_poke_def split: if_splits)
  then show ?thesis by (simp add: map_update) (metis list_update_id nth_map)
qed

lemma bus_direct_returns:
  assumes "bus_ok mem_ok s" "bus_accepts mem_accepts s (gp_address tr) (unat (gp_length tr))" "gp_length tr \<noteq> 0"
  shows "bus_direct tr d s \<noteq> None"
proof -
  obtain ic ms where s: "s = (ic, ms)" by (cases s)
  from mem.bus_laws [OF assms(1,2) [unfolded s]] obtain k where k: "leads_to ic (gp_address tr) (unat (gp_length tr)) k" by blast
  have "ic_ok ic" using assms(1) s by (simp add: bus_ok_def)
  from get_port_leads [OF this k assms(3)] show ?thesis using k assms(3)
    by (simp add: s bus_direct_def ic_get_direct_mem_ptr_def port_index_def leads_to_def)
qed

lemma bus_direct_grants:
  assumes "bus_ok mem_ok s" "bus_direct tr d s = Some (True, tr', d')"
  shows "bus_valid s d'"
proof -
  obtain ic ms where s: "s = (ic, ms)" by (cases s)
  define tr1 where "tr1 = (if gp_length tr = 0 then tr\<lparr>gp_length := 1\<rparr> else tr)"
  obtain p where p: "p < unat (NUM_PORT_OUT ic)" "target_get_direct_mem_ptr p tr1 d (ms ! p) = (True, tr', d')"
    using assms(2) by (auto simp: s bus_direct_def ic_get_direct_mem_ptr_def port_index_def tr1_def Let_def osimps split: if_splits)
  then show ?thesis using assms(1) by (auto simp: s bus_valid_def bus_ok_def target_get_direct_mem_ptr_def split: if_splits)
qed

lemma bus_peek_bytes:
  assumes "apart_ok s" "bus_valid s d" "bus_accepts mem_accepts s a n" "0 < n" "dmi_start d \<le> a" "unat a + n \<le> Suc (unat (dmi_end d))"
  shows "bus_peek (dmi_ptr d) (unat (a - dmi_start d)) n s = Some (slice a n (bus_bytes mem_bytes s))"
proof -
  obtain ic ms where s: "s = (ic, ms)" by (cases s)
  note route = window_routes [OF assms [unfolded s]]
  have "unat a + n \<le> 2 ^ 64" using assms(6) unat_bound [of "dmi_end d"] by simp
  moreover have "ic_ok ic" using assms(1) s by (simp add: apart_ok_def bus_ok_def)
  ultimately have "slice a n (bus_bytes mem_bytes s) = slice a n (mem_bytes (ms ! dmi_ptr d))"
    using bus_slice route s by blast
  then show ?thesis using assms(2) mem_load route by (simp add: s bus_peek_def bus_valid_def)
qed

lemma bus_poke_bytes:
  assumes "apart_ok s" "bus_valid s d" "bus_accepts mem_accepts s a (length bs)" "bs \<noteq> []" "dmi_start d \<le> a" "unat a + length bs \<le> Suc (unat (dmi_end d))"
  shows "\<exists>s'. bus_poke (dmi_ptr d) (unat (a - dmi_start d)) bs s = Some s' \<and> apart_ok s' \<and>
    bus_accepts mem_accepts s' = bus_accepts mem_accepts s \<and> bus_bytes mem_bytes s' = patch a bs (bus_bytes mem_bytes s)"
proof -
  obtain ic ms where s: "s = (ic, ms)" by (cases s)
  let ?k = "dmi_ptr d" and ?m = "ms ! dmi_ptr d"
  have route: "leads_to ic a (length bs) ?k" "mem_ok ?m" "mem_accepts ?m a (length bs)"
    using window_routes [OF assms(1-3) [unfolded s]] assms(4-6) by auto
  have k: "?k < length ms" "dmi_start d = mBaseAddress (mSpace ?m)" using assms(2) s by (auto simp: bus_valid_def)
  obtain mem' where mem': "store (unat (a - dmi_start d)) bs (mLocalMem ?m) = Some mem'" "length mem' = length (mLocalMem ?m)"
    "\<And>w. mem_bytes (?m\<lparr>mLocalMem := mem', mWriteCount := w\<rparr>) = patch a bs (mem_bytes ?m)"
    using mem_store [OF route(3)] k(2) by metis
  let ?m' = "?m\<lparr>mLocalMem := mem'\<rparr>"
  have m': "mem_ok ?m'" "mem_accepts ?m' = mem_accepts ?m" "mem_bytes ?m' = patch a bs (mem_bytes ?m)"
    using route(2) mem'(2) mem'(3) [of "mWriteCount ?m"] by (simp_all add: mem_ok_def size_of_def mem_accepts_def fun_eq_iff)
  have poke: "bus_poke ?k (unat (a - dmi_start d)) bs s = Some (ic, ms[?k := ?m'])" using mem'(1) k(1) by (simp add: s bus_poke_def)
  have ic: "ic_ok ic" and ok: "list_all mem_ok ms" using assms(1) s by (simp_all add: apart_ok_def bus_ok_def)
  have "map mSpace (ms[?k := ?m']) = map mSpace ms" using bus_poke_result poke s by blast
  from same_spaces(1) [OF this] have "apart_ok (ic, ms[?k := ?m'])" using assms(1) m'(1) ok
    by (auto simp: s apart_ok_def bus_ok_def list_all_iff dest: set_update_subset_insert [THEN subsetD])
  moreover have "bus_accepts mem_accepts (ic, ms[?k := ?m']) = bus_accepts mem_accepts s"
    using k(1) m'(2) by (auto simp: s bus_accepts_def fun_eq_iff nth_list_update)
  moreover have "bus_bytes mem_bytes (ic, ms[?k := ?m']) = patch a bs (bus_bytes mem_bytes s)"
    using bus_bytes_patch [OF ic route(1) k(1) m'(3) refl refl] s by simp
  ultimately show ?thesis using poke by blast
qed

interpretation dmi: direct_store "ic_b_transport (port_socket memory_b_transport)" apart_ok "bus_accepts mem_accepts" "bus_bytes mem_bytes"
  bus_direct bus_peek bus_poke bus_valid
proof unfold_locales
  fix s s' :: "interconnect \<times> memory list" and tr tr' d d' delay delay' p off bs a n
  show "apart_ok s \<Longrightarrow> bus_accepts mem_accepts s a n \<Longrightarrow> unat a + n < 2 ^ 64"
    using bus.accepts_nowrap apart_okD by blast
  show "apart_ok s \<Longrightarrow> bus_accepts mem_accepts s (gp_address tr) (unat (gp_length tr)) \<Longrightarrow> gp_length tr \<noteq> 0 \<Longrightarrow> bus_direct tr d s \<noteq> None"
    using bus_direct_returns apart_okD by blast
  show "apart_ok s \<Longrightarrow> bus_direct tr d s = Some (True, tr', d') \<Longrightarrow> bus_valid s d'"
    using bus_direct_grants apart_okD by blast
  show "ic_b_transport (port_socket memory_b_transport) tr delay s = Some (tr', delay', s') \<Longrightarrow> gp_address tr' = gp_address tr \<and> gp_length tr' = gp_length tr"
    using bus_transport_keeps by (cases s; cases s') blast
  show "apart_ok s \<Longrightarrow> bus_valid s d \<Longrightarrow> ic_b_transport (port_socket memory_b_transport) tr delay s = Some (tr', delay', s') \<Longrightarrow> bus_valid s' d"
    using bus_transport_keeps same_spaces(2) by (cases s; cases s') blast
  show "apart_ok s \<Longrightarrow> bus_valid s d \<Longrightarrow> bus_poke p off bs s = Some s' \<Longrightarrow> bus_valid s' d"
    using bus_poke_result same_spaces(2) by (cases s; cases s') blast
qed (fact answers_apart [OF bus.put [OF apart_okD]] answers_apart [OF bus.get [OF apart_okD]] bus_peek_bytes bus_poke_bytes | blast intro: answers_apart bus.put bus.get apart_okD)+

section \<open>Runs with changing parameters\<close>

text \<open>
  Before each access the parameters of the module may have been recomputed: its hook runs, the ranges it gives up reach the initiator, and the access is made under
  the new parameters.
\<close>

fun session ::
  "'s downstream \<Rightarrow> BlockingTLMEnabled \<Rightarrow> u32 \<Rightarrow> ('r VpsimModule \<times> bus_op) list \<Rightarrow> u64 \<Rightarrow> InitiatorIf \<times> (ForwardSimpleSocket \<times> 's) \<Rightarrow>
     ((tlm_response_status \<times> u8 list option) list \<times> u64 \<times> (InitiatorIf \<times> (ForwardSimpleSocket \<times> 's))) option" where
  "session ds dflt ident [] delay s = Some ([], delay, s)"
| "session ds dflt ident ((m, oper) # ops) delay (i, (fw, env)) =
     do {
       (fw, calls) \<leftarrow> update_hook dflt m fw;
       let i = fold (\<lambda>(a, b). ini_invalidate_direct_mem_ptr a b) calls i;
       (status, data, delay, s) \<leftarrow> issue (fw_b_transport ds dflt m) ident oper delay (i, (fw, env));
       (outs, delay, s) \<leftarrow> session ds dflt ident ops delay s;
       Some ((status, data) # outs, delay, s)
     }"

text \<open>The regions the new parameters forbid.\<close>

definition blocked :: "BlockingTLMEnabled \<Rightarrow> 'r VpsimModule \<Rightarrow> nat \<Rightarrow> tlm_dmi \<Rightarrow> bool" where
  "blocked dflt m port d \<longleftrightarrow> dmi_read_write d \<and>
     (case getBlockingTLMEnabled_space dflt port (AddrSpace_of (dmi_start d) (dmi_end d)) m of Some v \<Rightarrow> bool_of_bt v | None \<Rightarrow> False)"

lemma to_invalidate_blocked:
  "to_invalidate dflt m port ds = Some ass \<Longrightarrow> ass = map (\<lambda>d. AddrSpace_of (dmi_start d) (dmi_end d)) (filter (blocked dflt m port) ds)"
  by (induction ds arbitrary: ass) (auto simp: osimps blocked_def split: if_splits)

lemma to_invalidate_returns: "queries_return dflt port m \<Longrightarrow> \<exists>ass. to_invalidate dflt m port ds = Some ass"
proof (induction ds)
  case (Cons d ds)
  then obtain v where "getBlockingTLMEnabled_space dflt port (AddrSpace_of (dmi_start d) (dmi_end d)) m = Some v"
    by (auto simp: queries_return_def)
  with Cons show ?case by auto
qed simp

lemma invalidate_all_result:
  "invalidate_all ass fw = (fw\<lparr>mDmiData := filter (\<lambda>d. \<forall>as \<in> set ass. \<not> (dmi_start d \<le> mEndAddress as \<and> dmi_end d \<ge> mBaseAddress as)) (mDmiData fw)\<rparr>,
     map (\<lambda>as. (mBaseAddress as, mEndAddress as)) ass)"
  by (induction ass arbitrary: fw) (auto simp: fw_invalidate_direct_mem_ptr_def conj_commute)

lemma fold_invalidate_port: "mNbPort (fold (\<lambda>(a, b). ini_invalidate_direct_mem_ptr a b) calls i) = mNbPort i"
  by (induction calls arbitrary: i) (auto simp: ini_invalidate_direct_mem_ptr_def ini_setDmiEnable_def)

lemma update_hook_keeps:
  assumes "queries_return dflt port m" "fw_ok ok valid port (fw, env)"
  shows "\<exists>fw' calls. update_hook dflt m fw = Some (fw', calls) \<and> fw_ok ok valid port (fw', env)"
proof -
  obtain ass where "to_invalidate dflt m port (mDmiData fw) = Some ass" using to_invalidate_returns assms(1) by blast
  then show ?thesis using assms(2) by (auto simp: update_hook_def invalidate_all_result fw_ok_def list_all_iff)
qed

context direct_store
begin

lemma session_refines:
  assumes "fw_ok ok valid port (fw, env)" "mNbPort i \<noteq> 0"
    "\<forall>(m, oper) \<in> set ops. queries_return dflt port m \<and> serves accepts env oper"
  shows "\<exists>delay' i' fw' env'. session downstream dflt ident ops delay (i, (fw, env)) =
      Some (map (\<lambda>d. (TLM_OK_RESPONSE, Some d)) (fst (spec_ops (map snd ops) (bytes env))), delay', (i', (fw', env'))) \<and>
      fw_ok ok valid port (fw', env') \<and> bytes env' = snd (spec_ops (map snd ops) (bytes env))"
  using assms
proof (induction ops arbitrary: delay i fw env)
  case (Cons mo ops)
  obtain m oper where mo: "mo = (m, oper)" by (cases mo)
  have m: "queries_return dflt port m" and oper: "serves accepts env oper" using Cons.prems(3) mo by auto
  obtain fw1 calls where hook: "update_hook dflt m fw = Some (fw1, calls)" "fw_ok ok valid port (fw1, env)"
    using update_hook_keeps [OF m Cons.prems(1)] by blast
  define i1 where "i1 = fold (\<lambda>(a, b). ini_invalidate_direct_mem_ptr a b) calls i"
  have i1: "mNbPort i1 \<noteq> 0" using Cons.prems(2) by (simp add: i1_def fold_invalidate_port)
  have "serves (fw_accepts accepts) (fw1, env) oper" using oper by (simp add: serves_def fw_accepts_def)
  from byte_store.issue_store [OF forward_store [OF m] hook(2) this i1, of ident delay] obtain delay2 i2 fw2 env2 where
    step: "issue (fw_b_transport downstream dflt m) ident oper delay (i1, (fw1, env)) =
      Some (TLM_OK_RESPONSE, Some (hd (fst (spec_ops [oper] (bytes env)))), delay2, (i2, (fw2, env2)))"
    and s2: "mNbPort i2 = mNbPort i1" "fw_ok ok valid port (fw2, env2)" "accepts env2 = accepts env" "bytes env2 = snd (spec_ops [oper] (bytes env))"
    by (auto simp: fw_bytes_def fw_accepts_def)
  have "\<forall>(m, oper) \<in> set ops. queries_return dflt port m \<and> serves accepts env2 oper"
    using Cons.prems(3) s2(3) by (auto simp: serves_def)
  from Cons.IH [OF s2(2) _ this, of i2 delay2] i1 s2(1) obtain d3 i3 fw3 e3 where
    "session downstream dflt ident ops delay2 (i2, (fw2, env2)) =
       Some (map (\<lambda>d. (TLM_OK_RESPONSE, Some d)) (fst (spec_ops (map snd ops) (bytes env2))), d3, (i3, (fw3, e3)))"
    "fw_ok ok valid port (fw3, e3)" "bytes e3 = snd (spec_ops (map snd ops) (bytes env2))" by auto
  with step hook(1) s2(4) show ?case unfolding list.map mo snd_conv spec_ops_Cons [of oper "map snd ops" "bytes env"]
    by (simp add: i1_def)
qed simp

end

section \<open>Properties\<close>

text \<open>
  A run of accesses that an initiator makes through a forwarding socket and an interconnect to memories, while the parameters of the
  forwarding module change between the accesses, returns the bytes of one map from addresses to bytes: whether an access is passed on or served from a region of
  direct access makes no difference. The memories must claim disjoint ranges, and the parameter queries must return.
\<close>
lemma forwarded_session_refines:
  assumes "apart_ok (ic, ms)" "mNbPort i \<noteq> 0"
    "\<forall>(m, oper) \<in> set ops. queries_return dflt port m \<and> serves (bus_accepts mem_accepts) (ic, ms) oper"
  shows "\<exists>delay' i' fw' ic' ms'. session dmi.downstream dflt ident ops delay (i, (ForwardSimpleSocket_new d0 port, (ic, ms))) =
      Some (map (\<lambda>d. (TLM_OK_RESPONSE, Some d)) (fst (spec_ops (map snd ops) (bus_bytes mem_bytes (ic, ms)))), delay', (i', (fw', (ic', ms')))) \<and>
      apart_ok (ic', ms') \<and> bus_bytes mem_bytes (ic', ms') = snd (spec_ops (map snd ops) (bus_bytes mem_bytes (ic, ms)))"
proof -
  have "fw_ok apart_ok bus_valid port (ForwardSimpleSocket_new d0 port, (ic, ms))"
    using assms(1) by (simp add: fw_ok_def ForwardSimpleSocket_new_def)
  from dmi.session_refines [OF this assms(2,3), of ident delay] show ?thesis
    by (auto simp: fw_ok_def)
qed

text \<open>Parameters without an entry, and parameters that ask for blocking accesses to the first memory.\<close>

definition sample_module :: "BlockingTLMEnabled container \<Rightarrow> nat VpsimModule" where
  "sample_module pc = (VpsimModule_new ''cpu'' intermediate maxRange 1)\<lparr>mEffectiveParameters := [ParameterSet_new\<lparr>mBlockingTLMEnabledParameter := pc\<rparr>]\<rparr>"

definition sample_session :: "(nat VpsimModule \<times> bus_op) list" where
  "sample_session = zip (map sample_module [[], [], [], [(AddrSpace_of 0x1000 0x1fff, BT_ENABLED)], [], []]) sample_ops"

lemma sample_module_queries: "list_all (\<lambda>p. snd p = BT_ENABLED) pc \<Longrightarrow> queries_return BT_DISABLED 0 (sample_module pc)"
proof -
  assume pc: "list_all (\<lambda>p. snd p = BT_ENABLED) pc"
  have plus: "bool_of_bt (bt_plus BT_DISABLED BT_ENABLED)" by (simp add: bt_plus_def max_by_def bt_less_def bool_of_bt_def)
  have "blocking_in BT_DISABLED pc as \<noteq> None" for as
    using pc by (induction pc arbitrary: as) (auto simp: Let_def plus)
  then show ?thesis by (simp add: queries_return_def getBlockingTLMEnabled_space_def getParameterValForAddrSpace_def sample_module_def)
qed

lemma sample_bus_apart: "apart_ok sample_bus"
proof -
  have "mSpace sample_memory = \<lparr>mBaseAddress = 0x1000, mEndAddress = 0x1003\<rparr>"
    "mSpace (setTargetBaseAddress 0x2000 sample_memory) = \<lparr>mBaseAddress = 0x2000, mEndAddress = 0x2003\<rparr>"
    by (simp_all add: sample_memory_def memory_new_def TargetIf_new_def size_of_def getSize_def AddrSpace_of_size_def
        setTargetBaseAddress_def setBaseAddress_def setDmiEnable_def TargetIf.defs memory.defs)
  then show ?thesis using sample_bus_ok
    by (auto simp: apart_ok_def windows_apart_def sample_bus_def intersect_def less_Suc_eq)
qed

definition no_dmi :: tlm_dmi where
  "no_dmi = \<lparr>dmi_ptr = 0, dmi_read_write = False, dmi_start = 0, dmi_end = 0, dmi_read_latency = 0, dmi_write_latency = 0\<rparr>"

text \<open>
  When the parameters of a module change, its forwarder gives up every region in which they ask for blocking accesses, and with it every region that overlaps
  one of these; the other regions stay, and exactly the forbidden ranges are passed on to the initiator.
\<close>
theorem hook_gives_up_blocked:
  assumes "update_hook dflt m fw = Some (fw', calls)" "\<forall>d \<in> set (mDmiData fw). dmi_start d \<le> dmi_end d"
  shows "(\<forall>d \<in> set (mDmiData fw'). \<not> blocked dflt m (mPortNum fw) d) \<and>
    mDmiData fw' = filter (\<lambda>d. \<forall>e \<in> set (mDmiData fw). blocked dflt m (mPortNum fw) e \<longrightarrow>
      {dmi_start d .. dmi_end d} \<inter> {dmi_start e .. dmi_end e} = {}) (mDmiData fw) \<and>
    calls = map (\<lambda>d. (dmi_start d, dmi_end d)) (filter (blocked dflt m (mPortNum fw)) (mDmiData fw))"
proof -
  obtain ass where ass: "to_invalidate dflt m (mPortNum fw) (mDmiData fw) = Some ass" "(fw', calls) = invalidate_all ass fw"
    using assms(1) by (auto simp: update_hook_def)
  note blocked = to_invalidate_blocked [OF ass(1)]
  have meet: "(dmi_start d \<le> dmi_end e \<and> dmi_start e \<le> dmi_end d) \<longleftrightarrow> {dmi_start d .. dmi_end d} \<inter> {dmi_start e .. dmi_end e} \<noteq> {}"
    if "d \<in> set (mDmiData fw)" "e \<in> set (mDmiData fw)" for d e
    using assms(2) that by (auto simp: Int_atLeastAtMost max_def min_def)
  have data: "mDmiData fw' = filter (\<lambda>d. \<forall>e \<in> set (mDmiData fw). blocked dflt m (mPortNum fw) e \<longrightarrow>
      {dmi_start d .. dmi_end d} \<inter> {dmi_start e .. dmi_end e} = {}) (mDmiData fw)"
  proof -
    have "mDmiData fw' = filter (\<lambda>d. \<forall>e \<in> set (mDmiData fw). blocked dflt m (mPortNum fw) e \<longrightarrow>
        \<not> (dmi_start d \<le> dmi_end e \<and> dmi_start e \<le> dmi_end d)) (mDmiData fw)"
      using ass(2) by (auto simp: invalidate_all_result blocked AddrSpace_of_def intro: filter_cong)
    also have "\<dots> = filter (\<lambda>d. \<forall>e \<in> set (mDmiData fw). blocked dflt m (mPortNum fw) e \<longrightarrow>
        {dmi_start d .. dmi_end d} \<inter> {dmi_start e .. dmi_end e} = {}) (mDmiData fw)"
      using meet by (intro filter_cong) (auto simp del: Int_atLeastAtMost)
    finally show ?thesis .
  qed
  moreover have "calls = map (\<lambda>d. (dmi_start d, dmi_end d)) (filter (blocked dflt m (mPortNum fw)) (mDmiData fw))"
    using ass(2) by (simp add: invalidate_all_result blocked AddrSpace_of_def)
  moreover have "\<not> blocked dflt m (mPortNum fw) d" if "d \<in> set (mDmiData fw')" for d
    using that assms(2) unfolding data by auto
  ultimately show ?thesis by blast
qed

theorem hook_gives_up_blocked_witness:
  "\<exists>fw' calls. update_hook BT_DISABLED (sample_module [(AddrSpace_of 0x1000 0x1fff, BT_ENABLED)])
      \<lparr>mDmiData = [no_dmi\<lparr>dmi_read_write := True, dmi_start := 0x1000, dmi_end := 0x1003\<rparr>, no_dmi\<lparr>dmi_read_write := True, dmi_start := 0x2000, dmi_end := 0x2003\<rparr>],
       mDmiTrans = no_dmi, mPortNum = 0\<rparr> = Some (fw', calls) \<and> calls = [(0x1000, 0x1003)] \<and> map dmi_start (mDmiData fw') = [0x2000]"
proof -
  define fw where "fw = \<lparr>mDmiData = [no_dmi\<lparr>dmi_read_write := True, dmi_start := 0x1000, dmi_end := 0x1003\<rparr>,
    no_dmi\<lparr>dmi_read_write := True, dmi_start := 0x2000, dmi_end := 0x2003\<rparr>], mDmiTrans = no_dmi, mPortNum = 0\<rparr>"
  let ?m = "sample_module [(AddrSpace_of 0x1000 0x1fff, BT_ENABLED)]"
  have b: "blocked BT_DISABLED ?m 0 (no_dmi\<lparr>dmi_read_write := True, dmi_start := 0x1000, dmi_end := 0x1003\<rparr>)"
    "\<not> blocked BT_DISABLED ?m 0 (no_dmi\<lparr>dmi_read_write := True, dmi_start := 0x2000, dmi_end := 0x2003\<rparr>)"
    by (simp_all add: blocked_def getBlockingTLMEnabled_space_def getParameterValForAddrSpace_def sample_module_def intersect_def AddrSpace_of_def
        bt_plus_def max_by_def bt_less_def bool_of_bt_def Let_def)
  have "queries_return BT_DISABLED 0 ?m" by (rule sample_module_queries) simp
  then obtain ass where "to_invalidate BT_DISABLED ?m 0 (mDmiData fw) = Some ass" using to_invalidate_returns by blast
  then obtain fw' calls where hook: "update_hook BT_DISABLED ?m fw = Some (fw', calls)"
    by (cases "invalidate_all ass fw") (simp add: update_hook_def fw_def)
  have "\<forall>d \<in> set (mDmiData fw). dmi_start d \<le> dmi_end d" by (simp add: fw_def)
  from hook_gives_up_blocked [OF hook this] b show ?thesis using hook
    by (auto simp: fw_def)
qed

end
