(* ===== verification/BusPlatform.thy ===== *)
theory BusPlatform
  imports BusForward
begin

text \<open>
  How the component library builds memories and interconnects (\<open>DynamicMemory\<close> and \<open>DynamicInterconnect\<close> of
  \<open>components/include/components/DynamicComponents.hpp\<close>), with the values of the attributes as arguments, and what direct memory access
  does on the platforms it builds. Forwarding sockets stand between the components when the constant \<open>useDmiSettings\<close> of \<open>VpsimIp.hpp\<close> is set; by default it is not,
  and initiators are bound to the interconnect directly.
\<close>

record memory_attributes =
  at_size :: u64
  at_base_address :: u64
  at_cycle_duration :: u64
  at_write_cycles :: u64
  at_read_cycles :: u64
  at_channel_width :: u64
  at_latency_enable :: u64
  at_dmi_enable :: u64

definition DynamicMemory_make :: "(nat \<Rightarrow> u8) \<Rightarrow> memory_attributes \<Rightarrow> memory option" where
  "DynamicMemory_make fresh at =
     do {
       m \<leftarrow> memory_new fresh (at_size at) False False;
       let m = setTargetBaseAddress (at_base_address at) m;
       let m = setCycleDuration (at_cycle_duration at) m;
       let m = setCyclesPerRead (sint (ucast (at_read_cycles at) :: u32)) m;
       let m = setCyclesPerWrite (sint (ucast (at_write_cycles at) :: u32)) m;
       let m = setChannelWidth (ucast (at_channel_width at)) m;
       let m = m\<lparr>ReadLatency := at_read_cycles at, WriteLatency := at_write_cycles at\<rparr>;
       let m = setEnableLatency (at_latency_enable at \<noteq> 0) m;
       Some (setDmiEnable (at_dmi_enable at \<noteq> 0) m)
     }"

text \<open>The mesh coordinates are both read from \<open>mesh_x\<close>.\<close>

definition DynamicInterconnect_make :: "u64 \<Rightarrow> u64 \<Rightarrow> bool \<Rightarrow> u64 \<Rightarrow> u64 \<Rightarrow> u64 \<Rightarrow> interconnect" where
  "DynamicInterconnect_make n_in_ports n_out_ports is_mesh latency mesh_x router_latency =
     (let ic = interconnect_new False 0 0 (ucast n_in_ports) (ucast n_out_ports)
      in if \<not> is_mesh then ic_set_enable_latency True (ic_set_latency latency (ic_set_is_mesh False ic))
         else ic_set_enable_latency False (ic_set_router_latency router_latency
           (ic_set_mesh_coord (as_int mesh_x) (as_int mesh_x) (ic_set_is_mesh True ic))))"

text \<open>A memory-mapped component gets its range, any other becomes the default route; the ports are counted.\<close>

definition DynamicInterconnect_connect :: "(u64 \<times> u64) option \<Rightarrow> interconnect \<times> u32 \<Rightarrow> interconnect \<times> u32" where
  "DynamicInterconnect_connect mapped = (\<lambda>(ic, counter).
     (case mapped of
        Some (base, sz) \<Rightarrow> set_socket_out_addr counter base sz ic
      | None \<Rightarrow> setDefaultRoute (sint counter) ic, counter + 1))"

fun connect_all :: "memory_attributes list \<Rightarrow> interconnect \<times> u32 \<Rightarrow> interconnect \<times> u32" where
  "connect_all [] s = s"
| "connect_all (at # ats) s = connect_all ats (DynamicInterconnect_connect (Some (at_base_address at, at_size at)) s)"

section \<open>What a built memory claims\<close>

lemma DynamicMemory_make_space:
  assumes "DynamicMemory_make fresh at = Some m" "unat (at_base_address at) + unat (at_size at) + 1 < 2 ^ 64"
    "at_latency_enable at = 0 \<or> (ucast (at_channel_width at) :: u32) \<noteq> 0"
  shows "mem_ok m" "mSpace m = AddrSpace_of (at_base_address at) (at_base_address at + at_size at)"
    "length (mLocalMem m) = Suc (unat (at_size at))"
proof -
  obtain m0 where m0: "memory_new fresh (at_size at) False False = Some m0" using assms(1) by (auto simp: DynamicMemory_make_def osimps)
  note built = memory_new_ok [OF m0 assms(2)]
  have space: "mSpace m = mSpace (setTargetBaseAddress (at_base_address at) m0)" "mLocalMem m = mLocalMem (setTargetBaseAddress (at_base_address at) m0)"
    "mEnableLatency m = (at_latency_enable at \<noteq> 0)" "mWordLengthInByte m = ucast (at_channel_width at)"
    using assms(1) m0
    by (auto simp: DynamicMemory_make_def setCycleDuration_def setCyclesPerRead_def setCyclesPerWrite_def setChannelWidth_def setEnableLatency_def setDmiEnable_def)
  then show "length (mLocalMem m) = Suc (unat (at_size at))" using built(3) by simp
  from space show "mem_ok m" using built(1) assms(3) by (auto simp: mem_ok_def size_of_def)
  have "mSpace m0 = \<lparr>mBaseAddress = 0, mEndAddress = at_size at\<rparr>"
    using m0 by (auto simp: memory_new_def TargetIf_new_def AddrSpace_of_size_def setDmiEnable_def TargetIf.defs osimps)
  then show "mSpace m = AddrSpace_of (at_base_address at) (at_base_address at + at_size at)"
    using space(1) by (simp add: setTargetBaseAddress_def setBaseAddress_def AddrSpace_of_def add.commute)
qed

section \<open>The platforms it builds\<close>

text \<open>A port of the interconnect per memory, in the order of the connections.\<close>

lemma connect_all_result:
  "connect_all ats (ic, c) =
     (ic\<lparr>output_ports_t := output_ports_t ic @ map (\<lambda>k. \<lparr>as_base_addr = at_base_address (ats ! k),
        as_end_addr = at_base_address (ats ! k) + at_size (ats ! k) - 1, as_offset = at_size (ats ! k), as_port = c + of_nat k\<rparr>) [0..<length ats]\<rparr>,
      c + of_nat (length ats))"
proof (induction ats arbitrary: ic c)
  case (Cons at ats)
  have "[0..<length (at # ats)] = 0 # map Suc [0..<length ats]" by (simp add: upt_conv_Cons map_Suc_upt del: upt_Suc)
  then show ?case
    by (simp add: Cons.IH DynamicInterconnect_connect_def set_socket_out_addr_def comp_def algebra_simps del: upt_Suc)
qed simp

definition platform_ats :: "memory_attributes list \<Rightarrow> bool" where
  "platform_ats ats \<longleftrightarrow> ats \<noteq> [] \<and> length ats < 2 ^ 31 \<and>
     (\<forall>at \<in> set ats. at_size at \<noteq> 0 \<and> unat (at_base_address at) + unat (at_size at) + 1 < 2 ^ 64 \<and>
        (at_latency_enable at = 0 \<or> (ucast (at_channel_width at) :: u32) \<noteq> 0)) \<and>
     (\<forall>i < length ats. \<forall>j < length ats. i \<noteq> j \<longrightarrow>
        unat (at_base_address (ats ! i)) + unat (at_size (ats ! i)) < unat (at_base_address (ats ! j)) \<or>
        unat (at_base_address (ats ! j)) + unat (at_size (ats ! j)) < unat (at_base_address (ats ! i)))"

definition built :: "memory_attributes list \<Rightarrow> memory list \<Rightarrow> bool" where
  "built ats ms \<longleftrightarrow> list_all2 (\<lambda>at m. \<exists>fresh. DynamicMemory_make fresh at = Some m) ats ms"

definition platform :: "u64 \<Rightarrow> u64 \<Rightarrow> memory_attributes list \<Rightarrow> interconnect" where
  "platform n_in_ports latency ats =
     fst (connect_all ats (DynamicInterconnect_make n_in_ports (of_nat (length ats)) False latency 0 0, 0))"

lemma platform_fields:
  assumes "length ats < 2 ^ 31"
  shows "output_ports_t (platform nin lat ats) = map (\<lambda>k. \<lparr>as_base_addr = at_base_address (ats ! k),
      as_end_addr = at_base_address (ats ! k) + at_size (ats ! k) - 1, as_offset = at_size (ats ! k), as_port = of_nat k\<rparr>) [0..<length ats]"
    "NUM_PORT_OUT (platform nin lat ats) = of_nat (length ats)" "\<not> ic_mIsMesh (platform nin lat ats)"
    "length (write_count_out (platform nin lat ats)) = length ats" "length (read_count_out (platform nin lat ats)) = length ats"
proof -
  have "ucast (of_nat (length ats) :: u64) = (of_nat (length ats) :: u32)" using assms
    by (simp add: word_unat_eq_iff unat_of_nat unsigned_ucast_eq take_bit_nat_eq_self)
  moreover have "unat (of_nat (length ats) :: u32) = length ats" using assms by (simp add: unat_of_nat)
  ultimately show "output_ports_t (platform nin lat ats) = map (\<lambda>k. \<lparr>as_base_addr = at_base_address (ats ! k),
      as_end_addr = at_base_address (ats ! k) + at_size (ats ! k) - 1, as_offset = at_size (ats ! k), as_port = of_nat k\<rparr>) [0..<length ats]"
    "NUM_PORT_OUT (platform nin lat ats) = of_nat (length ats)" "\<not> ic_mIsMesh (platform nin lat ats)"
    "length (write_count_out (platform nin lat ats)) = length ats" "length (read_count_out (platform nin lat ats)) = length ats"
    by (simp_all add: platform_def connect_all_result DynamicInterconnect_make_def interconnect_new_def ic_set_is_mesh_def ic_set_latency_def ic_set_enable_latency_def)
qed

lemma platform_window:
  assumes "platform_ats ats" "k < length ats"
  shows "unat (at_base_address (ats ! k) + at_size (ats ! k) - 1) = unat (at_base_address (ats ! k)) + unat (at_size (ats ! k)) - 1"
    "unat (at_base_address (ats ! k) + at_size (ats ! k)) = unat (at_base_address (ats ! k)) + unat (at_size (ats ! k))"
    "0 < unat (at_size (ats ! k))"
    "j < length ats \<Longrightarrow> k \<noteq> j \<Longrightarrow>
       unat (at_base_address (ats ! k)) + unat (at_size (ats ! k)) < unat (at_base_address (ats ! j)) \<or>
       unat (at_base_address (ats ! j)) + unat (at_size (ats ! j)) < unat (at_base_address (ats ! k))"
proof -
  show "j < length ats \<Longrightarrow> k \<noteq> j \<Longrightarrow>
       unat (at_base_address (ats ! k)) + unat (at_size (ats ! k)) < unat (at_base_address (ats ! j)) \<or>
       unat (at_base_address (ats ! j)) + unat (at_size (ats ! j)) < unat (at_base_address (ats ! k))"
    using assms unfolding platform_ats_def by blast
  have at: "at_size (ats ! k) \<noteq> 0" "unat (at_base_address (ats ! k)) + unat (at_size (ats ! k)) + 1 < 2 ^ 64"
    using assms by (auto simp: platform_ats_def)
  then show "unat (at_base_address (ats ! k) + at_size (ats ! k)) = unat (at_base_address (ats ! k)) + unat (at_size (ats ! k))"
    by (subst unat_add_nowrap) simp_all
  show "unat (at_base_address (ats ! k) + at_size (ats ! k) - 1) = unat (at_base_address (ats ! k)) + unat (at_size (ats ! k)) - 1"
    using at by (intro last_of_range) simp_all
  show "0 < unat (at_size (ats ! k))" using at(1) by (simp add: unat_gt_0)
qed

lemma platform_ic_ok:
  assumes "platform_ats ats"
  shows "ic_ok (platform nin lat ats)"
proof -
  have n: "0 < length ats" "length ats < 2 ^ 31" using assms by (auto simp: platform_ats_def)
  note fields = platform_fields [OF n(2), of nin lat]
  have nat32: "unat (of_nat k :: u32) = k" if "k \<le> length ats" for k using that n(2) by (simp add: unat_of_nat)
  have port: "0 \<le> sint (of_nat k :: u32)" "(of_nat k :: u32) < of_nat (length ats)" if "k < length ats" for k
    using that n(2) nat32 by (simp_all add: word_less_nat_alt signed_of_nat signed_take_bit_int_eq_self)
  have "k = j \<or> at_base_address (ats ! k) + at_size (ats ! k) - 1 < at_base_address (ats ! j) \<or>
      at_base_address (ats ! j) + at_size (ats ! j) - 1 < at_base_address (ats ! k)" if "k < length ats" "j < length ats" for k j
    using platform_window(4) [OF assms that] platform_window(1,3) [OF assms that(1)] platform_window(1,3) [OF assms that(2)]
    by (cases "k = j") (simp_all add: wsimps, linarith)
  then show ?thesis using fields port n(1) nat32 [of "length ats"]
    by (fastforce simp: ic_ok_def word_less_nat_alt)
qed

lemma built_memory:
  assumes "platform_ats ats" "built ats ms" "k < length ats"
  shows "mem_ok (ms ! k)" "mSpace (ms ! k) = AddrSpace_of (at_base_address (ats ! k)) (at_base_address (ats ! k) + at_size (ats ! k))"
    "length (mLocalMem (ms ! k)) = Suc (unat (at_size (ats ! k)))"
proof -
  obtain fresh where "DynamicMemory_make fresh (ats ! k) = Some (ms ! k)" using assms(2,3) by (auto simp: built_def list_all2_conv_all_nth)
  from DynamicMemory_make_space [OF this] show "mem_ok (ms ! k)"
    "mSpace (ms ! k) = AddrSpace_of (at_base_address (ats ! k)) (at_base_address (ats ! k) + at_size (ats ! k))"
    "length (mLocalMem (ms ! k)) = Suc (unat (at_size (ats ! k)))"
    using assms(1,3) by (auto simp: platform_ats_def)
qed

lemma platform_apart:
  assumes "platform_ats ats" "built ats ms"
  shows "apart_ok (platform nin lat ats, ms)"
proof -
  have n: "length ats < 2 ^ 31" "length ms = length ats"
    using assms by (auto simp: platform_ats_def built_def list_all2_lengthD)
  have "\<not> intersect (mSpace (ms ! i)) (mSpace (ms ! j))" if "i < length ats" "j < length ats" "i \<noteq> j" for i j
    using platform_window(4) [OF assms(1) that] platform_window(2) [OF assms(1) that(1)] platform_window(2) [OF assms(1) that(2)]
      built_memory(2) [OF assms that(1)] built_memory(2) [OF assms that(2)]
    by (auto simp: intersect_def AddrSpace_of_def wsimps)
  then have "windows_apart ms" using n(2) by (simp add: windows_apart_def)
  moreover have "list_all mem_ok ms" using built_memory(1) [OF assms] n(2) by (simp add: list_all_length)
  moreover have "unat (of_nat (length ats) :: u32) = length ats" using n(1) by (simp add: unat_of_nat)
  ultimately show ?thesis using platform_ic_ok [OF assms(1)] platform_fields(2) [OF n(1)] n(2)
    by (simp add: apart_ok_def bus_ok_def)
qed

lemma platform_accepts:
  assumes "platform_ats ats" "built ats ms" "k < length ats"
    "at_base_address (ats ! k) \<le> a" "unat a + n \<le> unat (at_base_address (ats ! k)) + unat (at_size (ats ! k))"
  shows "bus_accepts mem_accepts (platform nin lat ats, ms) a n"
proof -
  have len: "length ats < 2 ^ 31" using assms(1) by (simp add: platform_ats_def)
  note window = platform_window [OF assms(1,3)] and mem = built_memory [OF assms(1-3)]
  have acc: "mem_accepts (ms ! k) a n" using mem(2,3) assms(4,5) by (simp add: mem_accepts_def AddrSpace_of_def)
  have nat32: "unat (of_nat j :: u32) = j" if "j \<le> length ats" for j using len that by (simp add: unat_of_nat)
  show ?thesis
  proof (cases "length ats = 1")
    case False
    then have "NUM_PORT_OUT (platform nin lat ats) > 1" using assms(3) nat32 [of "length ats"] platform_fields(2) [OF len] by (simp add: word_less_nat_alt)
    then show ?thesis using acc assms(3-5) window(1,3) nat32 [of k] platform_fields(1) [OF len]
      by (auto simp: bus_accepts_def intro!: bexI [of _ k])
  qed (use acc assms(3) platform_fields(2) [OF len] in \<open>simp add: bus_accepts_def\<close>)
qed

section \<open>Properties\<close>

text \<open>
  C35: On a platform of memories that the component library builds and connects to an interconnect, with at least one unused address
  between two memories, a run of accesses through a forwarding socket, while the parameters of the forwarding module change between the accesses, returns the
  bytes of one map from addresses to bytes: whether an access is passed on or served from a region of direct access makes no difference.
\<close>
theorem built_platform_refines:
  assumes "platform_ats ats" "built ats ms" "mNbPort i \<noteq> 0"
    "\<forall>(m, oper) \<in> set ops. queries_return dflt port m \<and> 0 < op_length oper \<and> op_length oper < 2 ^ 32 \<and>
       (\<exists>k < length ats. at_base_address (ats ! k) \<le> op_address oper \<and>
          unat (op_address oper) + op_length oper \<le> unat (at_base_address (ats ! k)) + unat (at_size (ats ! k)))"
  shows "\<exists>delay' i' fw' ic' ms'.
      session dmi.downstream dflt ident ops delay (i, (ForwardSimpleSocket_new d0 port, (platform nin lat ats, ms))) =
      Some (map (\<lambda>d. (TLM_OK_RESPONSE, Some d)) (fst (spec_ops (map snd ops) (bus_bytes mem_bytes (platform nin lat ats, ms)))),
        delay', (i', (fw', (ic', ms')))) \<and>
      bus_bytes mem_bytes (ic', ms') = snd (spec_ops (map snd ops) (bus_bytes mem_bytes (platform nin lat ats, ms)))"
proof -
  have "\<forall>(m, oper) \<in> set ops. queries_return dflt port m \<and> serves (bus_accepts mem_accepts) (platform nin lat ats, ms) oper"
    using assms(4) platform_accepts [OF assms(1,2)] unfolding serves_def by blast
  from forwarded_session_refines [OF platform_apart [OF assms(1,2)] assms(3) this] show ?thesis by blast
qed

text \<open>Four bytes at an address, without latency and with direct access.\<close>

definition four_bytes :: "u64 \<Rightarrow> memory_attributes" where
  "four_bytes base = \<lparr>at_size = 4, at_base_address = base, at_cycle_duration = 1, at_write_cycles = 1, at_read_cycles = 1, at_channel_width = 8,
     at_latency_enable = 0, at_dmi_enable = 1\<rparr>"

definition four_memory :: "(nat \<Rightarrow> u8) \<Rightarrow> u64 \<Rightarrow> memory" where
  "four_memory fresh base =
     \<lparr>mEnableLatency = False, mCyclesPerRead = 1, mCyclesPerWrite = 1, mInitialCyclesPerAccess = 0, mCycleDuration = 1,
      mSpace = \<lparr>mBaseAddress = base, mEndAddress = 4 + base\<rparr>, mByteEnable = False, mDmiEnable = True,
      mLocalMem = [fresh 0, fresh 1, fresh 2, fresh 3, fresh 4], mReadCount = 0, mWriteCount = 0,
      mWordLengthInByte = 8, ReadLatency = 1, WriteLatency = 1\<rparr>"

lemma four_bytes_made: "DynamicMemory_make fresh (four_bytes base) = Some (four_memory fresh base)"
proof -
  have five: "[0..<5] = [0, 1, 2, 3, 4 :: nat]" by (simp add: upt_rec)
  show ?thesis
    by (simp add: DynamicMemory_make_def four_bytes_def four_memory_def memory_new_def TargetIf_new_def size_of_def getSize_def AddrSpace_of_size_def
        setTargetBaseAddress_def setBaseAddress_def setDmiEnable_def setCycleDuration_def setCyclesPerRead_def setCyclesPerWrite_def setChannelWidth_def
        setEnableLatency_def TargetIf.defs memory.defs five)
qed

theorem built_platform_refines_witness:
  "\<exists>delay s. session dmi.downstream BT_DISABLED 0 sample_session 0
      (InitiatorIf_new (sample_read 0) True 1, (ForwardSimpleSocket_new no_dmi 0,
        (platform 1 0 [four_bytes 0x1000, four_bytes 0x2000], [four_memory (\<lambda>_. 0) 0x1000, four_memory (\<lambda>_. 0) 0x2000]))) =
    Some (map (\<lambda>d. (TLM_OK_RESPONSE, Some d)) [[1, 2], [7], [1, 2], [9], [1, 9], [7]], delay, s)"
proof -
  let ?ats = "[four_bytes 0x1000, four_bytes 0x2000]" and ?ms = "[four_memory (\<lambda>_. 0) 0x1000, four_memory (\<lambda>_. 0) 0x2000]"
  have ops: "map snd sample_session = sample_ops" by (simp add: sample_session_def sample_ops_def)
  have ats: "platform_ats ?ats" by (auto simp: platform_ats_def four_bytes_def less_Suc_eq)
  have ms: "built ?ats ?ms" by (auto simp: built_def intro: four_bytes_made)
  have two: "(\<exists>k < length ?ats. P k) \<longleftrightarrow> P 0 \<or> P (Suc 0)" for P by (auto simp: less_Suc_eq)
  have "\<forall>(m, oper) \<in> set sample_session. queries_return BT_DISABLED 0 m \<and> 0 < op_length oper \<and> op_length oper < 2 ^ 32 \<and>
       (\<exists>k < length ?ats. at_base_address (?ats ! k) \<le> op_address oper \<and>
          unat (op_address oper) + op_length oper \<le> unat (at_base_address (?ats ! k)) + unat (at_size (?ats ! k)))"
    unfolding two by (simp add: sample_session_def sample_ops_def sample_module_queries four_bytes_def)
  from built_platform_refines [OF ats ms _ this, of "InitiatorIf_new (sample_read 0) True 1" 0 0 no_dmi 1 0] show ?thesis
    unfolding ops sample_ops_spec by (auto simp: InitiatorIf_new_def)
qed


end
