(* ===== verification/Schedule.thy ===== *)
theory Schedule
  imports VP_Prelude "HOL-Library.Multiset"
begin

text \<open>
  Appointments on the simulated time line. The schedulers of the parameters (\<open>core/vpsimModule/paramScheduler.cpp\<close>) and of the debug levels
  (\<open>core/logger/loggerScheduler.cpp\<close>) run the same thread and differ in how they insert an appointment. The thread is a process of the simulation kernel: it
  sleeps until a date or until it is notified; other processes add appointments at any time, and time moves on only when no process is due. A run is a sequence of such
  steps in any order the kernel may choose. The locale \<open>appointment_order\<close> says what an insertion must do for every appointment to be applied once and on its date.
\<close>

section \<open>Appointments and the thread\<close>

record 'a appointment =
  mDate :: u64
  mAction :: 'a

definition isPassed :: "u64 \<Rightarrow> 'a appointment \<Rightarrow> bool" where
  "isPassed stamp a \<longleftrightarrow> mDate a < stamp"

definition isNow :: "u64 \<Rightarrow> 'a appointment \<Rightarrow> bool" where
  "isNow stamp a \<longleftrightarrow> mDate a = stamp"

definition timeTo :: "u64 \<Rightarrow> 'a appointment \<Rightarrow> u64" where
  "timeTo stamp a = mDate a - stamp"

text \<open>Where the thread is: not started, waiting for the event alone, or for the event with a timeout; then it holds the appointment at the front when it went to sleep.\<close>

datatype 'a waits = Starting | For_event | Until nat "'a appointment"

record ('a, 'w) scheduler =
  time_stamp :: u64
  mSchedule :: "'a appointment list"
  mNewAppointmentEvent :: bool
  waits :: "'a waits"
  world :: 'w

definition scheduler_new :: "'w \<Rightarrow> ('a, 'w) scheduler" where
  "scheduler_new w = \<lparr>time_stamp = 0, mSchedule = [], mNewAppointmentEvent = False, waits = Starting, world = w\<rparr>"

datatype 'a happening = Accepted u64 "'a appointment" | Ignored u64 "'a appointment" | Applied u64 "'a appointment"

text \<open>From a test of the loop condition to the next wait, and from a wait to the end of the loop body.\<close>

definition go_to_sleep :: "('a, 'w) scheduler \<Rightarrow> ('a, 'w) scheduler" where
  "go_to_sleep s = s\<lparr>waits := (case mSchedule s of [] \<Rightarrow> For_event | a # _ \<Rightarrow> Until (unat (time_stamp s) + unat (timeTo (time_stamp s) a)) a)\<rparr>"

definition loop_body :: "('a \<Rightarrow> 'w \<Rightarrow> 'w option) \<Rightarrow> ('a, 'w) scheduler \<Rightarrow> ('a happening list \<times> ('a, 'w) scheduler) option" where
  "loop_body apply_action s =
     (case waits s of
        Until _ a \<Rightarrow>
          if isNow (time_stamp s) a then do {
            w \<leftarrow> apply_action (mAction a) (world s);
            _ \<leftarrow> cassert (mSchedule s \<noteq> []);
            Some ([Applied (time_stamp s) a], s\<lparr>world := w, mSchedule := tl (mSchedule s)\<rparr>)
          }
          else Some ([], s)
      | _ \<Rightarrow> Some ([], s))"

definition wake_up :: "('a \<Rightarrow> 'w \<Rightarrow> 'w option) \<Rightarrow> ('a, 'w) scheduler \<Rightarrow> ('a happening list \<times> ('a, 'w) scheduler) option" where
  "wake_up apply_action s = map_option (\<lambda>(hs, s). (hs, go_to_sleep s)) (loop_body apply_action s)"

definition addAppointment :: "(u64 \<Rightarrow> 'a appointment \<Rightarrow> 'a appointment list \<Rightarrow> 'a appointment list) \<Rightarrow> 'a appointment \<Rightarrow>
    ('a, 'w) scheduler \<Rightarrow> 'a happening list \<times> ('a, 'w) scheduler" where
  "addAppointment ins a s =
     (if isPassed (time_stamp s) a then ([Ignored (time_stamp s) a], s)
      else ([Accepted (time_stamp s) a], s\<lparr>mSchedule := ins (time_stamp s) a (mSchedule s), mNewAppointmentEvent := True\<rparr>))"

section \<open>Runs\<close>

text \<open>
  The steps of the kernel. A notification is delivered in a later delta cycle at the same time: until then time does not move. A thread whose timeout has come is
  resumed before time moves.
\<close>

datatype 'a act = Add "'a appointment" | Start | Notification | Timeout | Advance u64

fun sched_step :: "(u64 \<Rightarrow> 'a appointment \<Rightarrow> 'a appointment list \<Rightarrow> 'a appointment list) \<Rightarrow> ('a \<Rightarrow> 'w \<Rightarrow> 'w option) \<Rightarrow> 'a act \<Rightarrow> ('a, 'w) scheduler \<Rightarrow>
    ('a happening list \<times> ('a, 'w) scheduler) option" where
  "sched_step ins apply_action (Add a) s = Some (addAppointment ins a s)"
| "sched_step ins apply_action Start s = (if waits s = Starting then Some ([], go_to_sleep s) else None)"
| "sched_step ins apply_action Notification s =
     (if mNewAppointmentEvent s \<and> waits s \<noteq> Starting then wake_up apply_action (s\<lparr>mNewAppointmentEvent := False\<rparr>) else None)"
| "sched_step ins apply_action Timeout s =
     (case waits s of Until d _ \<Rightarrow> if unat (time_stamp s) = d then wake_up apply_action s else None | _ \<Rightarrow> None)"
| "sched_step ins apply_action (Advance t) s =
     (if waits s \<noteq> Starting \<and> \<not> mNewAppointmentEvent s \<and> time_stamp s < t \<and> (case waits s of Until d _ \<Rightarrow> unat t \<le> d | _ \<Rightarrow> True)
      then Some ([], s\<lparr>time_stamp := t\<rparr>) else None)"

inductive sched_run :: "(u64 \<Rightarrow> 'a appointment \<Rightarrow> 'a appointment list \<Rightarrow> 'a appointment list) \<Rightarrow> ('a \<Rightarrow> 'w \<Rightarrow> 'w option) \<Rightarrow>
    ('a, 'w) scheduler \<Rightarrow> 'a happening list \<Rightarrow> ('a, 'w) scheduler \<Rightarrow> bool"
  for ins apply_action s where
  run_none: "sched_run ins apply_action s [] s"
| run_step: "sched_run ins apply_action s hs s' \<Longrightarrow> sched_step ins apply_action act s' = Some (hs', s'') \<Longrightarrow> sched_run ins apply_action s (hs @ hs') s''"

lemma run_two: "sched_run ins apl s' hs' s'' \<Longrightarrow> sched_run ins apl s hs s' \<Longrightarrow> sched_run ins apl s (hs @ hs') s''"
proof (induction rule: sched_run.induct)
  case (run_step hs1 s1 act hs2 s2)
  then show ?case using sched_run.run_step [of ins apl s "hs @ hs1" s1 act hs2 s2] by simp
qed simp

fun sched_exec :: "(u64 \<Rightarrow> 'a appointment \<Rightarrow> 'a appointment list \<Rightarrow> 'a appointment list) \<Rightarrow> ('a \<Rightarrow> 'w \<Rightarrow> 'w option) \<Rightarrow> 'a act list \<Rightarrow> ('a, 'w) scheduler \<Rightarrow>
    ('a happening list \<times> ('a, 'w) scheduler) option" where
  "sched_exec ins apply_action [] s = Some ([], s)"
| "sched_exec ins apply_action (act # acts) s =
     do {
       (hs, s) \<leftarrow> sched_step ins apply_action act s;
       (hs', s) \<leftarrow> sched_exec ins apply_action acts s;
       Some (hs @ hs', s)
     }"

lemma sched_exec_run: "sched_exec ins apl acts s = Some (hs, s') \<Longrightarrow> sched_run ins apl s hs s'"
proof (induction acts arbitrary: s hs)
  case (Cons act acts)
  then obtain hs1 s1 hs2 where "sched_step ins apl act s = Some (hs1, s1)" "sched_run ins apl s1 hs2 s'" "hs = hs1 @ hs2"
    by (auto simp: osimps)
  then show ?case using run_two [of ins apl s1 hs2 s' s hs1] run_step [OF run_none, of ins apl act s hs1 s1] by simp
qed (auto intro: run_none)

lemma accepted_in_time:
  assumes "sched_step ins apl act s = Some (hs, s')" "Accepted t a \<in> set hs"
  shows "t \<le> mDate a"
  using assms
  by (cases act) (auto simp: addAppointment_def isPassed_def wake_up_def loop_body_def osimps split: if_splits waits.splits)

text \<open>What a run shows: the accepted appointments in the order of their addition, and those applied with the time.\<close>

definition accepted :: "'a happening list \<Rightarrow> 'a appointment list" where
  "accepted hs = List.map_filter (\<lambda>h. case h of Accepted _ a \<Rightarrow> Some a | _ \<Rightarrow> None) hs"

definition applied :: "'a happening list \<Rightarrow> (u64 \<times> 'a appointment) list" where
  "applied hs = List.map_filter (\<lambda>h. case h of Applied t a \<Rightarrow> Some (t, a) | _ \<Rightarrow> None) hs"

lemma happening_simps [simp]:
  "accepted [] = []" "accepted (xs @ ys) = accepted xs @ accepted ys" "accepted (Accepted t a # hs) = a # accepted hs"
  "accepted (Ignored t a # hs) = accepted hs" "accepted (Applied t a # hs) = accepted hs"
  "applied [] = []" "applied (xs @ ys) = applied xs @ applied ys" "applied (Accepted t a # hs) = applied hs"
  "applied (Ignored t a # hs) = applied hs" "applied (Applied t a # hs) = (t, a) # applied hs"
  by (simp_all add: accepted_def applied_def map_filter_def)

fun apply_all :: "('a \<Rightarrow> 'w \<Rightarrow> 'w option) \<Rightarrow> (u64 \<times> 'a appointment) list \<Rightarrow> 'w \<Rightarrow> 'w option" where
  "apply_all apply_action [] w = Some w"
| "apply_all apply_action ((t, a) # as) w = do { w \<leftarrow> apply_action (mAction a) w; apply_all apply_action as w }"

lemma apply_all_append [simp]: "apply_all apl (xs @ ys) w = Option.bind (apply_all apl xs w) (apply_all apl ys)"
  by (induction apl xs w rule: apply_all.induct) (auto split: bind_split)

section \<open>What an insertion must do\<close>

text \<open>
  \<open>order\<close> gives the order of the applications for the appointments added so far. An insertion is only relied on for appointments that \<open>fits\<close> admits:
  it must extend the part of the order that is still to come, and leave an appointment that is due at the front.
\<close>

locale appointment_order =
  fixes ins :: "u64 \<Rightarrow> 'a appointment \<Rightarrow> 'a appointment list \<Rightarrow> 'a appointment list"
    and order :: "'a appointment list \<Rightarrow> 'a appointment list"
    and fits :: "u64 \<Rightarrow> 'a appointment \<Rightarrow> bool"
  assumes order_none: "order [] = []"
    and order_sorted: "sorted (map mDate (order as))"
    and order_members: "mset (order as) = mset as"
    and order_add: "\<lbrakk>order as = past @ sch; \<forall>x \<in> set past. mDate x \<le> t; \<forall>x \<in> set sch. t \<le> mDate x; fits t a; t \<le> mDate a\<rbrakk>
      \<Longrightarrow> order (as @ [a]) = past @ ins t a sch"
    and due_stays: "\<lbrakk>sorted (map mDate sch); sch \<noteq> []; mDate (hd sch) = t; fits t a\<rbrakk> \<Longrightarrow> ins t a sch \<noteq> [] \<and> hd (ins t a sch) = hd sch"
begin

definition all_fit :: "'a happening list \<Rightarrow> bool" where
  "all_fit hs \<longleftrightarrow> (\<forall>t a. Accepted t a \<in> set hs \<longrightarrow> fits t a)"

text \<open>The thread sleeps on the front of the schedule, unless a notification is on its way; an appointment that is due is at the front in any case.\<close>

definition asleep :: "('a, 'w) scheduler \<Rightarrow> bool" where
  "asleep s \<longleftrightarrow> (case waits s of
     Starting \<Rightarrow> True
   | For_event \<Rightarrow> mNewAppointmentEvent s \<or> mSchedule s = []
   | Until d a \<Rightarrow> d = unat (mDate a) \<and> time_stamp s \<le> mDate a \<and>
       ((mNewAppointmentEvent s \<and> mDate a \<noteq> time_stamp s) \<or> (mSchedule s \<noteq> [] \<and> hd (mSchedule s) = a)))"

definition due_front :: "('a, 'w) scheduler \<Rightarrow> bool" where
  "due_front s \<longleftrightarrow> (\<forall>d a. waits s = Until d a \<and> mDate a = time_stamp s \<longrightarrow> mSchedule s \<noteq> [] \<and> hd (mSchedule s) = a)"

lemma asleep_due_front: "asleep s \<Longrightarrow> due_front (s\<lparr>mNewAppointmentEvent := e\<rparr>)" "asleep s \<Longrightarrow> due_front s"
  by (auto simp: asleep_def due_front_def)

definition on_time :: "('a \<Rightarrow> 'w \<Rightarrow> 'w option) \<Rightarrow> 'w \<Rightarrow> 'a happening list \<Rightarrow> ('a, 'w) scheduler \<Rightarrow> bool" where
  "on_time apl w hs s \<longleftrightarrow>
     order (accepted hs) = map snd (applied hs) @ mSchedule s \<and>
     (\<forall>(t, a) \<in> set (applied hs). t = mDate a \<and> t \<le> time_stamp s) \<and>
     (\<forall>x \<in> set (mSchedule s). time_stamp s \<le> mDate x) \<and>
     apply_all apl (applied hs) w = Some (world s)"

lemma schedule_sorted: "on_time apl w hs s \<Longrightarrow> sorted (map mDate (mSchedule s))"
  using order_sorted [of "accepted hs"] by (simp add: on_time_def sorted_append)

lemma go_to_sleep_asleep:
  assumes "on_time apl w hs s"
  shows "asleep (go_to_sleep s)" "on_time apl w hs (go_to_sleep s)"
proof -
  have "unat (time_stamp s) + unat (timeTo (time_stamp s) a) = unat (mDate a)" if "time_stamp s \<le> mDate a" for a
    using that by (simp add: timeTo_def unat_sub_le wsimps)
  then show "asleep (go_to_sleep s)" using assms
    by (cases "mSchedule s") (auto simp: go_to_sleep_def asleep_def on_time_def)
  show "on_time apl w hs (go_to_sleep s)" using assms by (simp add: go_to_sleep_def on_time_def)
qed

lemma wake_up_on_time:
  assumes "on_time apl w hs s" "due_front s" "wake_up apl s = Some (hs', s')"
  shows "on_time apl w (hs @ hs') s' \<and> asleep s'"
proof -
  obtain s1 where s1: "loop_body apl s = Some (hs', s1)" "s' = go_to_sleep s1" using assms(3) by (auto simp: wake_up_def)
  have "on_time apl w (hs @ hs') s1"
  proof (cases "\<exists>d a. waits s = Until d a \<and> isNow (time_stamp s) a")
    case True
    then obtain d a where a: "waits s = Until d a" "mDate a = time_stamp s" by (auto simp: isNow_def)
    then have "mSchedule s = a # tl (mSchedule s)" using assms(2) by (auto simp: due_front_def)
    then show ?thesis using s1(1) a assms(1)
      by (auto simp: loop_body_def isNow_def on_time_def osimps dest: list.set_sel(2))
  next
    case False
    then have "hs' = []" "s1 = s" using s1(1) by (auto simp: loop_body_def split: waits.splits if_splits)
    then show ?thesis using assms(1) by simp
  qed
  from go_to_sleep_asleep [OF this] show ?thesis using s1(2) by simp
qed

lemma add_on_time:
  assumes "on_time apl w hs s" "asleep s" "addAppointment ins a s = (hs', s')" "all_fit hs'"
  shows "on_time apl w (hs @ hs') s' \<and> asleep s'"
proof (cases "isPassed (time_stamp s) a")
  case True
  then show ?thesis using assms by (auto simp: addAppointment_def on_time_def)
next
  case False
  let ?t = "time_stamp s" and ?sch = "ins (time_stamp s) a (mSchedule s)"
  from False have s': "hs' = [Accepted ?t a]" "s' = s\<lparr>mSchedule := ?sch, mNewAppointmentEvent := True\<rparr>"
    using assms(3) by (auto simp: addAppointment_def)
  have fit: "fits ?t a" "?t \<le> mDate a" using assms(4) s'(1) False by (auto simp: all_fit_def isPassed_def)
  have "order (accepted hs @ [a]) = map snd (applied hs) @ ?sch"
    using assms(1) fit by (intro order_add) (auto simp: on_time_def)
  moreover have "set ?sch \<subseteq> insert a (set (mSchedule s))"
  proof -
    have "mset (map snd (applied hs)) + mset ?sch = add_mset a (mset (map snd (applied hs)) + mset (mSchedule s))"
      using calculation order_members [of "accepted hs @ [a]"] order_members [of "accepted hs"] assms(1)
      by (simp add: on_time_def del: mset_map)
    then have "mset ?sch = add_mset a (mset (mSchedule s))" by simp
    then show ?thesis by (metis set_mset_add_mset_insert set_mset_mset subset_refl)
  qed
  ultimately have "on_time apl w (hs @ hs') s'" using assms(1) s' fit(2) by (auto simp: on_time_def)
  moreover have "asleep s'"
    using assms(2) due_stays [OF schedule_sorted [OF assms(1)] _ _ fit(1)] s'(2)
    by (auto simp: asleep_def split: waits.splits)
  ultimately show ?thesis ..
qed

lemma advance_on_time:
  assumes "on_time apl w hs s" "asleep s" "sched_step ins apl (Advance t) s = Some (hs', s')"
  shows "on_time apl w (hs @ hs') s' \<and> asleep s'"
proof -
  have s': "hs' = []" "s' = s\<lparr>time_stamp := t\<rparr>" "waits s \<noteq> Starting" "\<not> mNewAppointmentEvent s" "time_stamp s < t"
    "\<And>d a. waits s = Until d a \<Longrightarrow> unat t \<le> d"
    using assms(3) by (auto split: if_splits waits.splits)
  have "t \<le> mDate x" if "x \<in> set (mSchedule s)" for x
  proof -
    have "waits s \<noteq> For_event" using s'(4) assms(2) that by (auto simp: asleep_def)
    then obtain d a where a: "waits s = Until d a" using s'(3) by (cases "waits s") auto
    then have "unat t \<le> unat (mDate a)" "hd (mSchedule s) = a" using s'(4) s'(6) [OF a] assms(2) by (auto simp: asleep_def)
    moreover have "mDate (hd (mSchedule s)) \<le> mDate x"
      using schedule_sorted [OF assms(1)] that by (cases "mSchedule s") auto
    ultimately show ?thesis by (simp add: wsimps)
  qed
  moreover have "asleep s'" using assms(2) s' by (auto simp: asleep_def wsimps split: waits.splits)
  moreover have "\<forall>(t', a) \<in> set (applied hs). t' = mDate a \<and> t' \<le> t" using assms(1) s'(5) by (auto simp: on_time_def)
  ultimately show ?thesis using assms(1) s'(1,2) by (auto simp: on_time_def)
qed

lemma step_on_time:
  assumes "on_time apl w hs s" "asleep s" "sched_step ins apl act s = Some (hs', s')" "all_fit hs'"
  shows "on_time apl w (hs @ hs') s' \<and> asleep s'"
proof (cases act)
  case (Add a)
  then show ?thesis using add_on_time [OF assms(1,2) _ assms(4)] assms(3) by simp
next
  case Start
  then show ?thesis using go_to_sleep_asleep [OF assms(1)] assms(3) by (auto split: if_splits)
next
  case Notification
  then have "wake_up apl (s\<lparr>mNewAppointmentEvent := False\<rparr>) = Some (hs', s')" using assms(3) by (auto split: if_splits)
  moreover have "on_time apl w hs (s\<lparr>mNewAppointmentEvent := False\<rparr>)" using assms(1) by (simp add: on_time_def)
  ultimately show ?thesis by (rule wake_up_on_time [OF _ asleep_due_front(1) [OF assms(2)], rotated])
next
  case Timeout
  then show ?thesis using wake_up_on_time [OF assms(1) asleep_due_front(2) [OF assms(2)]] assms(3) by (auto split: if_splits waits.splits)
next
  case (Advance t)
  then show ?thesis using advance_on_time [OF assms(1,2)] assms(3) by blast
qed

lemma run_on_time:
  assumes "sched_run ins apl (scheduler_new w) hs s" "all_fit hs"
  shows "on_time apl w hs s \<and> asleep s"
  using assms
proof (induction rule: sched_run.induct)
  case run_none
  then show ?case by (simp add: on_time_def asleep_def scheduler_new_def order_none)
next
  case (run_step hs s act hs' s')
  then show ?case using step_on_time [of apl w hs s act hs' s'] by (auto simp: all_fit_def)
qed

text \<open>Every appointment is applied once, at its date, in the order; what is past has been applied.\<close>

lemma run_exact:
  assumes "sched_run ins apl (scheduler_new w) hs s" "all_fit hs"
  shows "map snd (applied hs) @ mSchedule s = order (accepted hs) \<and> (\<forall>(t, a) \<in> set (applied hs). t = mDate a) \<and>
    (\<forall>a \<in> set (accepted hs). mDate a < time_stamp s \<longrightarrow> (mDate a, a) \<in> set (applied hs)) \<and> apply_all apl (applied hs) w = Some (world s)"
proof -
  have ok: "on_time apl w hs s" using run_on_time [OF assms] by simp
  have "(mDate a, a) \<in> set (applied hs)" if "a \<in> set (accepted hs)" "mDate a < time_stamp s" for a
  proof -
    have "a \<in> set (map snd (applied hs) @ mSchedule s)"
      using ok that(1) order_members [of "accepted hs"] by (metis on_time_def set_mset_mset)
    then show ?thesis using ok that(2) by (auto simp: on_time_def)
  qed
  then show ?thesis using ok by (auto simp: on_time_def)
qed

text \<open>Without further additions the schedule is worked off: some step is always possible and brings its end nearer.\<close>

definition to_do :: "('a, 'w) scheduler \<Rightarrow> nat" where
  "to_do s = 4 * length (mSchedule s) + (if mNewAppointmentEvent s then 2 else 0) +
     (case waits s of Starting \<Rightarrow> 2 | For_event \<Rightarrow> 0 | Until _ a \<Rightarrow> if mDate a = time_stamp s then 0 else 1)"

lemma sleep_to_do:
  "to_do (go_to_sleep s) \<le> 4 * length (mSchedule s) + (if mNewAppointmentEvent s then 2 else 0) + 1"
  by (auto simp: to_do_def go_to_sleep_def split: list.split)

definition due :: "('a, 'w) scheduler \<Rightarrow> bool" where
  "due s \<longleftrightarrow> (\<exists>d a. waits s = Until d a \<and> mDate a = time_stamp s)"

lemma wake_up_possible:
  assumes "due_front s" "\<forall>x v. P v \<longrightarrow> (\<exists>v'. apl x v = Some v' \<and> P v')" "P (world s)"
  shows "\<exists>hs' s'. wake_up apl s = Some (hs', s') \<and> accepted hs' = [] \<and> (\<forall>t a. Accepted t a \<notin> set hs') \<and> P (world s') \<and>
    to_do s' \<le> (if due s then 4 * length (mSchedule s) - 4 else 4 * length (mSchedule s)) +
      (if mNewAppointmentEvent s then 2 else 0) + 1"
proof (cases "due s")
  case True
  then obtain d a where a: "waits s = Until d a" "mDate a = time_stamp s" by (auto simp: due_def)
  then have sch: "mSchedule s \<noteq> []" using assms(1) by (auto simp: due_front_def)
  obtain v where v: "apl (mAction a) (world s) = Some v" "P v" using assms(2,3) by blast
  let ?s = "s\<lparr>world := v, mSchedule := tl (mSchedule s)\<rparr>"
  have "wake_up apl s = Some ([Applied (time_stamp s) a], go_to_sleep ?s)"
    using a sch v(1) by (simp add: wake_up_def loop_body_def isNow_def)
  moreover have "to_do (go_to_sleep ?s) \<le> 4 * (length (mSchedule s) - 1) + (if mNewAppointmentEvent s then 2 else 0) + 1"
    using sleep_to_do [of ?s] by simp
  ultimately show ?thesis using True v(2) by (simp add: diff_mult_distrib2 go_to_sleep_def)
next
  case False
  then have "loop_body apl s = Some ([], s)" by (auto simp: due_def loop_body_def isNow_def split: waits.split)
  then show ?thesis using False sleep_to_do [of s] assms(3) by (simp add: wake_up_def go_to_sleep_def)
qed

lemma progress:
  assumes "asleep s" "mSchedule s \<noteq> [] \<or> mNewAppointmentEvent s" "\<forall>x v. P v \<longrightarrow> (\<exists>v'. apl x v = Some v' \<and> P v')" "P (world s)"
  shows "\<exists>act hs' s'. sched_step ins apl act s = Some (hs', s') \<and> accepted hs' = [] \<and> (\<forall>t a. Accepted t a \<notin> set hs') \<and> P (world s') \<and> to_do s' < to_do s"
proof -
  consider (start) "waits s = Starting" | (event) "waits s \<noteq> Starting" "mNewAppointmentEvent s" | (quiet) "waits s \<noteq> Starting" "\<not> mNewAppointmentEvent s"
    by blast
  then show ?thesis
  proof cases
    case start
    then have "to_do (go_to_sleep s) < to_do s" using sleep_to_do [of s] by (simp add: to_do_def)
    then show ?thesis using start assms(4) by (intro exI [of _ Start]) (simp add: go_to_sleep_def)
  next
    case event
    let ?s = "s\<lparr>mNewAppointmentEvent := False\<rparr>"
    obtain hs' s' where w: "wake_up apl ?s = Some (hs', s')" "accepted hs' = []" "\<forall>t a. Accepted t a \<notin> set hs'" "P (world s')"
      "to_do s' \<le> 4 * length (mSchedule s) + 1"
      using wake_up_possible [OF asleep_due_front(1) [OF assms(1), of False] assms(3)] assms(4) by (fastforce split: if_splits)
    moreover have "4 * length (mSchedule s) + 2 \<le> to_do s" using event by (simp add: to_do_def)
    ultimately show ?thesis using event by (intro exI [of _ Notification]) simp
  next
    case quiet
    then have "waits s \<noteq> For_event" using assms(1,2) by (auto simp: asleep_def)
    then obtain d a where a: "waits s = Until d a" using quiet(1) by (cases "waits s") auto
    then have d: "d = unat (mDate a)" "time_stamp s \<le> mDate a" "mSchedule s \<noteq> []" using assms(1) quiet(2) by (auto simp: asleep_def)
    show ?thesis
    proof (cases "mDate a = time_stamp s")
      case True
      then have "due s" using a by (simp add: due_def)
      then obtain hs' s' where "wake_up apl s = Some (hs', s')" "accepted hs' = []" "\<forall>t a. Accepted t a \<notin> set hs'"
        "P (world s')" "to_do s' \<le> 4 * length (mSchedule s) - 4 + 1"
        using wake_up_possible [OF asleep_due_front(2) [OF assms(1)] assms(3,4)] quiet(2) by fastforce
      moreover have "4 * length (mSchedule s) - 4 + 1 < to_do s" using d(3) by (cases "mSchedule s") (simp_all add: to_do_def)
      ultimately show ?thesis using a d(1) True by (intro exI [of _ Timeout]) simp
    next
      case False
      then show ?thesis using a d quiet assms(4) by (intro exI [of _ "Advance (mDate a)"]) (simp add: to_do_def)
    qed
  qed
qed

lemma drains:
  assumes "on_time apl w hs s" "asleep s" "\<forall>x v. P v \<longrightarrow> (\<exists>v'. apl x v = Some v' \<and> P v')" "P (world s)"
  shows "\<exists>hs' s'. sched_run ins apl s hs' s' \<and> accepted hs' = [] \<and> mSchedule s' = []"
  using assms(1,2,4)
proof (induction "to_do s" arbitrary: s hs rule: less_induct)
  case less
  show ?case
  proof (cases "mSchedule s = []")
    case True
    then show ?thesis using run_none [of ins apl s] by (intro exI [of _ "[]"]) auto
  next
    case False
    then obtain act hs1 s1 where step: "sched_step ins apl act s = Some (hs1, s1)" "accepted hs1 = []" "\<forall>t a. Accepted t a \<notin> set hs1" "P (world s1)"
      "to_do s1 < to_do s"
      using progress [OF less.prems(2) _ assms(3) less.prems(3)] by blast
    have "on_time apl w (hs @ hs1) s1" "asleep s1"
      using step_on_time [OF less.prems(1,2) step(1)] step(3) by (auto simp: all_fit_def)
    from less.hyps [OF step(5) this step(4)] obtain hs' s' where
      "sched_run ins apl s1 hs' s'" "accepted hs' = []" "mSchedule s' = []" by blast
    moreover have "sched_run ins apl s hs1 s1" using run_step [OF run_none step(1)] by simp
    ultimately show ?thesis using run_two [of ins apl s1 hs' s' s hs1] step(2) by (intro exI [of _ "hs1 @ hs'"]) auto
  qed
qed

end

end
