(* ===== verification/ParamSchedule.thy ===== *)
theory ParamSchedule
  imports Schedule ParamModules
begin

text \<open>
  Changes of module parameters at given dates (\<open>core/vpsimModule/paramScheduler.cpp\<close>, \<open>paramAppointment.cpp\<close>, \<open>paramManager.cpp\<close>): the scheduler keeps its
  appointments in a multiset ordered by their dates, which inserts an element after those with the same date.
\<close>

record 'r ParamAppointment =
  mModule :: string
  mAddrSpace :: AddrSpace
  mParam :: "'r ModuleParameter"
  mUseDefaultAs :: bool

text \<open>The two constructors; the first address range is the default one, which is not used.\<close>

definition ParamAppointment_in :: "string \<Rightarrow> AddrSpace \<Rightarrow> u64 \<Rightarrow> 'r ModuleParameter \<Rightarrow> 'r ParamAppointment appointment" where
  "ParamAppointment_in module as date param = \<lparr>mDate = date, mAction = \<lparr>mModule = module, mAddrSpace = as, mParam = param, mUseDefaultAs = False\<rparr>\<rparr>"

definition ParamAppointment_all :: "string \<Rightarrow> u64 \<Rightarrow> 'r ModuleParameter \<Rightarrow> 'r ParamAppointment appointment" where
  "ParamAppointment_all module date param = \<lparr>mDate = date, mAction = \<lparr>mModule = module, mAddrSpace = maxRange, mParam = param, mUseDefaultAs = True\<rparr>\<rparr>"

definition appointment_less :: "'a appointment \<Rightarrow> 'a appointment \<Rightarrow> bool" where
  "appointment_less this that \<longleftrightarrow> mDate this < mDate that"

definition manager_setParameter_all :: "(u64 \<Rightarrow> 'r \<Rightarrow> u64) \<Rightarrow> string \<Rightarrow> 'r ModuleParameter \<Rightarrow> 'r platform \<Rightarrow> 'r platform option" where
  "manager_setParameter_all scale name param pf =
     do { m \<leftarrow> module_at name pf; module_setParameter_all scale m param pf }"

definition ParamAppointment_apply :: "(u64 \<Rightarrow> 'r \<Rightarrow> u64) \<Rightarrow> 'r ParamAppointment \<Rightarrow> 'r platform \<Rightarrow> 'r platform option" where
  "ParamAppointment_apply scale p pf =
     (if mUseDefaultAs p then manager_setParameter_all scale (mModule p) (mParam p) pf
      else manager_setParameter scale (mModule p) (mAddrSpace p) (mParam p) pf)"

definition multiset_insert :: "u64 \<Rightarrow> 'a appointment \<Rightarrow> 'a appointment list \<Rightarrow> 'a appointment list" where
  "multiset_insert stamp a sch = takeWhile (\<lambda>x. \<not> appointment_less a x) sch @ a # dropWhile (\<lambda>x. \<not> appointment_less a x) sch"

definition ParamScheduler_addAppointment ::
  "'r ParamAppointment appointment \<Rightarrow> ('r ParamAppointment, 'r platform) scheduler \<Rightarrow>
     'r ParamAppointment happening list \<times> ('r ParamAppointment, 'r platform) scheduler" where
  "ParamScheduler_addAppointment = addAppointment multiset_insert"

definition ParamScheduler_schedule ::
  "(u64 \<Rightarrow> 'r \<Rightarrow> u64) \<Rightarrow> ('r ParamAppointment, 'r platform) scheduler \<Rightarrow>
     ('r ParamAppointment happening list \<times> ('r ParamAppointment, 'r platform) scheduler) option" where
  "ParamScheduler_schedule scale = wake_up (ParamAppointment_apply scale)"

definition manager_addAppointment :: "string \<Rightarrow> AddrSpace \<Rightarrow> u64 \<Rightarrow> 'r ModuleParameter \<Rightarrow> ('r ParamAppointment, 'r platform) scheduler \<Rightarrow>
     'r ParamAppointment happening list \<times> ('r ParamAppointment, 'r platform) scheduler" where
  "manager_addAppointment module as date param = ParamScheduler_addAppointment (ParamAppointment_in module as date param)"

definition manager_addAppointment_all :: "string \<Rightarrow> u64 \<Rightarrow> 'r ModuleParameter \<Rightarrow> ('r ParamAppointment, 'r platform) scheduler \<Rightarrow>
     'r ParamAppointment happening list \<times> ('r ParamAppointment, 'r platform) scheduler" where
  "manager_addAppointment_all module date param = ParamScheduler_addAppointment (ParamAppointment_all module date param)"

section \<open>The order of the multiset\<close>

lemma takeWhile_le_sorted:
  assumes "sorted (map f xs)"
  shows "x \<in> set (takeWhile (\<lambda>x. \<not> k < f x) xs) \<Longrightarrow> f x \<le> k" "x \<in> set (dropWhile (\<lambda>x. \<not> k < f x) xs) \<Longrightarrow> (k :: 'b :: linorder) < f x"
  using assms by (induction xs) (auto dest: set_takeWhileD split: if_splits)

lemma multiset_insert_snoc: "sort_key mDate (as @ [a]) = multiset_insert t a (sort_key mDate as)"
proof (rule properties_for_sort_key)
  let ?s = "sort_key mDate as" and ?P = "\<lambda>x. \<not> mDate a < mDate x"
  have parts: "?s = takeWhile ?P ?s @ dropWhile ?P ?s" by simp
  have ins: "multiset_insert t a ?s = takeWhile ?P ?s @ a # dropWhile ?P ?s" by (simp add: multiset_insert_def appointment_less_def)
  have low: "x \<in> set (takeWhile ?P ?s) \<Longrightarrow> mDate x \<le> mDate a" and high: "x \<in> set (dropWhile ?P ?s) \<Longrightarrow> mDate a < mDate x" for x
    by (rule takeWhile_le_sorted [OF sorted_sort_key]; assumption)+
  have "mset (takeWhile ?P ?s) + mset (dropWhile ?P ?s) = mset as"
    using arg_cong [OF parts, of mset] by (metis mset_append mset_sort)
  then show "mset (multiset_insert t a ?s) = mset (as @ [a])" unfolding ins by simp
  have "sorted (map mDate (takeWhile ?P ?s @ dropWhile ?P ?s))" by simp
  then have "sorted (map mDate (takeWhile ?P ?s))" "sorted (map mDate (dropWhile ?P ?s))"
    "\<forall>x \<in> set (takeWhile ?P ?s). \<forall>y \<in> set (dropWhile ?P ?s). mDate x \<le> mDate y"
    unfolding map_append sorted_append by simp_all
  then show "sorted (map mDate (multiset_insert t a ?s))" unfolding ins
    by (auto simp add: sorted_append less_imp_le dest: low high)
  show "filter (\<lambda>y. mDate k = mDate y) (multiset_insert t a ?s) = filter (\<lambda>y. mDate k = mDate y) (as @ [a])" if "k \<in> set (multiset_insert t a ?s)" for k
  proof -
    have stable: "filter (\<lambda>y. mDate k = mDate y) ?s = filter (\<lambda>y. mDate k = mDate y) as"
      using sort_key_stable [of mDate "mDate k" as] by (simp add: eq_commute [of "mDate k"])
    then have split: "filter (\<lambda>y. mDate k = mDate y) (takeWhile ?P ?s) @ filter (\<lambda>y. mDate k = mDate y) (dropWhile ?P ?s) = filter (\<lambda>y. mDate k = mDate y) as"
      by (metis filter_append takeWhile_dropWhile_id)
    show ?thesis
    proof (cases "mDate k = mDate a")
      case True
      then have "filter (\<lambda>y. mDate k = mDate y) (dropWhile ?P ?s) = []" unfolding filter_empty_conv by (auto dest: high)
      then show ?thesis using True split unfolding ins by simp
    qed (use split in \<open>simp add: ins\<close>)
  qed
qed

interpretation param: appointment_order multiset_insert "sort_key mDate" "\<lambda>t a. t \<le> mDate a"
proof
  fix as past sch :: "'a appointment list" and t :: u64 and a :: "'a appointment"
  show "sorted (map mDate (sort_key mDate as))" "mset (sort_key mDate as) = mset as" by simp_all
  assume past: "sort_key mDate as = past @ sch" "\<forall>x \<in> set past. mDate x \<le> t" and a: "t \<le> mDate a"
  then have "\<forall>x \<in> set past. \<not> appointment_less a x" by (force simp: appointment_less_def)
  then show "sort_key mDate (as @ [a]) = past @ multiset_insert t a sch"
    using past(1) by (simp add: multiset_insert_snoc [of as a t] multiset_insert_def takeWhile_append dropWhile_append)
next
  fix sch :: "'a appointment list" and t :: u64 and a :: "'a appointment"
  assume "sch \<noteq> []" "mDate (hd sch) = t" "t \<le> mDate a"
  then show "multiset_insert t a sch \<noteq> [] \<and> hd (multiset_insert t a sch) = hd sch"
    by (cases sch) (auto simp: multiset_insert_def appointment_less_def)
qed simp

section \<open>Properties\<close>

text \<open>
  C25: In every run of the parameter scheduler, whatever the other processes add and however the kernel orders the steps, the appointments accepted so far, sorted by
  their dates and, for the same date, by the order of their addition, are the ones applied followed by the ones still scheduled: none is lost or applied
  twice. Each is applied at its date, none that is past is missing, and the platform is the result of setting these parameters in this order.
\<close>
theorem parameter_appointments_exact:
  assumes "sched_run multiset_insert (ParamAppointment_apply scale) (scheduler_new pf) hs s"
  shows "map snd (applied hs) @ mSchedule s = sort_key mDate (accepted hs) \<and> (\<forall>(t, a) \<in> set (applied hs). t = mDate a) \<and>
    (\<forall>a \<in> set (accepted hs). mDate a < time_stamp s \<longrightarrow> (mDate a, a) \<in> set (applied hs)) \<and>
    apply_all (ParamAppointment_apply scale) (applied hs) pf = Some (world s)"
proof -
  have "param.all_fit hs"
    using assms by (induction rule: sched_run.induct) (auto simp: param.all_fit_def accepted_in_time)
  from param.run_exact [OF assms this] show ?thesis .
qed

text \<open>Three changes of one module, the last one added when it is due.\<close>

definition one_module :: "nat platform" where
  "one_module = [VpsimModule_new ''cpu'' memoryMapped maxRange 0]"

definition some_changes :: "nat ParamAppointment act list" where
  "some_changes = [Start, Add (ParamAppointment_all ''cpu'' 5 (Blocking BT_ENABLED)), Add (ParamAppointment_all ''cpu'' 3 (Blocking BT_DISABLED)),
     Notification, Advance 3, Timeout, Advance 5, Add (ParamAppointment_in ''cpu'' (AddrSpace_of 0 9) 5 (Blocking BT_DISABLED)), Timeout, Timeout]"

theorem parameter_appointments_exact_witness:
  "\<exists>hs s. sched_exec multiset_insert (ParamAppointment_apply (\<lambda>d r. d * of_nat r)) some_changes (scheduler_new one_module) = Some (hs, s) \<and>
    map snd (applied hs) @ mSchedule s = sort_key mDate (accepted hs) \<and> map fst (applied hs) = [3, 5, 5] \<and> mSchedule s = []"
proof -
  let ?run = "sched_exec multiset_insert (ParamAppointment_apply (\<lambda>d r. d * of_nat r)) some_changes (scheduler_new one_module)"
  have "map_option (\<lambda>(hs, s). (map fst (applied hs), mSchedule s)) ?run = Some ([3, 5, 5], [])" by code_simp
  then obtain hs s where run: "?run = Some (hs, s)" "map fst (applied hs) = [3, 5, 5]" "mSchedule s = []" by auto
  from parameter_appointments_exact [OF sched_exec_run [OF run(1)]] show ?thesis
    using run by (intro exI [of _ hs] exI [of _ s]) simp
qed

end
