(* ===== verification/LoggerCore.thy ===== *)
theory LoggerCore
  imports Schedule
begin

text \<open>
  The loggers and their debug levels (\<open>core/logger/logger.cpp\<close>, \<open>loggerCore.cpp\<close>), and the changes of debug levels at given dates
  (\<open>appointment.cpp\<close>, \<open>loggerScheduler.cpp\<close>). Loggers are objects at addresses; the core knows the registered ones by their names. What is written to the streams
  is left out: whether a message is written is what a logger decides.
\<close>

section \<open>Loggers\<close>

datatype DebugLvl = dbg0 | dbg1 | dbg2 | dbg3 | dbg4 | dbg5 | dbg6

instantiation DebugLvl :: linorder
begin

fun level_number :: "DebugLvl \<Rightarrow> nat" where
  "level_number dbg0 = 0" | "level_number dbg1 = 1" | "level_number dbg2 = 2" | "level_number dbg3 = 3"
| "level_number dbg4 = 4" | "level_number dbg5 = 5" | "level_number dbg6 = 6"

definition less_eq_DebugLvl :: "DebugLvl \<Rightarrow> DebugLvl \<Rightarrow> bool" where
  "less_eq_DebugLvl a b \<longleftrightarrow> level_number a \<le> level_number b"

definition less_DebugLvl :: "DebugLvl \<Rightarrow> DebugLvl \<Rightarrow> bool" where
  "less_DebugLvl a b \<longleftrightarrow> level_number a < level_number b"

instance
proof
  fix a b c :: DebugLvl
  show "(a < b) = (a \<le> b \<and> \<not> b \<le> a)" "a \<le> a" "a \<le> b \<Longrightarrow> b \<le> c \<Longrightarrow> a \<le> c" "a \<le> b \<or> b \<le> a"
    by (auto simp: less_eq_DebugLvl_def less_DebugLvl_def)
  show "a \<le> b \<Longrightarrow> b \<le> a \<Longrightarrow> a = b" by (cases a; cases b) (simp_all add: less_eq_DebugLvl_def)
qed

end

record Logger =
  log_mName :: string
  mDebugLvl :: DebugLvl
  mEnabled :: bool

definition canLogInfo :: "Logger \<Rightarrow> bool" where
  "canLogInfo l = mEnabled l"

definition canLogDebug :: "DebugLvl \<Rightarrow> Logger \<Rightarrow> bool" where
  "canLogDebug lvl l \<longleftrightarrow> mEnabled l \<and> lvl \<le> mDebugLvl l"

section \<open>The core\<close>

text \<open>The memory of the simulator holds the loggers that exist; the registered ones are an association list.\<close>

record LoggerCore =
  mLoggers :: "(string \<times> nat) list"
  mLoggingEnabled :: bool
  mLoggingImpossible :: bool
  mGlobalDebugLvl :: DebugLvl
  memory_of :: "nat \<rightharpoonup> Logger"

definition LoggerCore_new :: LoggerCore where
  "LoggerCore_new = \<lparr>mLoggers = [], mLoggingEnabled = False, mLoggingImpossible = False, mGlobalDebugLvl = dbg0, memory_of = Map.empty\<rparr>"

definition loggingEnabled :: "LoggerCore \<Rightarrow> bool" where
  "loggingEnabled c \<longleftrightarrow> mLoggingEnabled c \<and> \<not> mLoggingImpossible c"

definition update_logger :: "nat \<Rightarrow> (Logger \<Rightarrow> Logger) \<Rightarrow> LoggerCore \<Rightarrow> LoggerCore" where
  "update_logger a f c = c\<lparr>memory_of := (memory_of c)(a := map_option f (memory_of c a))\<rparr>"

definition isRegistered :: "nat \<Rightarrow> LoggerCore \<Rightarrow> bool" where
  "isRegistered a c \<longleftrightarrow> a \<in> snd ` set (mLoggers c)"

definition enableLogging :: "bool \<Rightarrow> LoggerCore \<Rightarrow> LoggerCore" where
  "enableLogging enable c =
     (let c = c\<lparr>mLoggingEnabled := (if enable \<and> mLoggingImpossible c then False else enable)\<rparr>
      in fold (\<lambda>p. update_logger (snd p) (mEnabled_update (\<lambda>_. loggingEnabled c))) (mLoggers c) c)"

definition registerLogger :: "nat \<Rightarrow> LoggerCore \<Rightarrow> LoggerCore option" where
  "registerLogger a c =
     do {
       l \<leftarrow> memory_of c a;
       let name = log_mName l;
       if map_of (mLoggers c) name \<noteq> None then Some (enableLogging False c)
       else Some (update_logger a (\<lambda>l. l\<lparr>mEnabled := loggingEnabled c, mDebugLvl := mGlobalDebugLvl c\<rparr>) (c\<lparr>mLoggers := (name, a) # mLoggers c\<rparr>))
     }"

definition unregisterLogger :: "nat \<Rightarrow> LoggerCore \<Rightarrow> LoggerCore option" where
  "unregisterLogger a c =
     (if isRegistered a c
      then do { l \<leftarrow> memory_of c a; Some (c\<lparr>mLoggers := filter (\<lambda>p. fst p \<noteq> log_mName l) (mLoggers c)\<rparr>) }
      else Some c)"

definition setDebugLvl_name :: "string \<Rightarrow> DebugLvl \<Rightarrow> LoggerCore \<Rightarrow> LoggerCore" where
  "setDebugLvl_name name lvl c =
     (case map_of (mLoggers c) name of None \<Rightarrow> c | Some a \<Rightarrow> update_logger a (mDebugLvl_update (\<lambda>_. lvl)) c)"

definition setDebugLvl_logger :: "nat \<Rightarrow> DebugLvl \<Rightarrow> LoggerCore \<Rightarrow> LoggerCore option" where
  "setDebugLvl_logger a lvl c =
     (if isRegistered a c then do { l \<leftarrow> memory_of c a; Some (setDebugLvl_name (log_mName l) lvl c) } else Some c)"

fun setDebugLvl_each :: "(string \<times> nat) list \<Rightarrow> DebugLvl \<Rightarrow> LoggerCore \<Rightarrow> LoggerCore option" where
  "setDebugLvl_each [] lvl c = Some c"
| "setDebugLvl_each (p # ps) lvl c = do { c \<leftarrow> setDebugLvl_logger (snd p) lvl c; setDebugLvl_each ps lvl c }"

definition setDebugLvl_all :: "DebugLvl \<Rightarrow> LoggerCore \<Rightarrow> LoggerCore option" where
  "setDebugLvl_all lvl c = setDebugLvl_each (mLoggers c) lvl (c\<lparr>mGlobalDebugLvl := lvl\<rparr>)"

text \<open>A logger is constructed at an unused address and registers; it unregisters before its memory is given up.\<close>

definition Logger_new :: "nat \<Rightarrow> string \<Rightarrow> LoggerCore \<Rightarrow> LoggerCore option" where
  "Logger_new a name c =
     do {
       _ \<leftarrow> cassert (memory_of c a = None);
       registerLogger a (c\<lparr>memory_of := (memory_of c)(a \<mapsto> \<lparr>log_mName = name, mDebugLvl = dbg0, mEnabled = False\<rparr>)\<rparr>)
     }"

definition Logger_delete :: "nat \<Rightarrow> LoggerCore \<Rightarrow> LoggerCore option" where
  "Logger_delete a c =
     do {
       _ \<leftarrow> cassert (memory_of c a \<noteq> None);
       c \<leftarrow> unregisterLogger a c;
       Some (c\<lparr>memory_of := (memory_of c)(a := None)\<rparr>)
     }"

section \<open>Debug levels at given dates\<close>

record log_change =
  mLogger :: nat
  change_lvl :: DebugLvl

definition Appointment_new :: "nat \<Rightarrow> u64 \<Rightarrow> DebugLvl \<Rightarrow> log_change appointment" where
  "Appointment_new logger date lvl = \<lparr>mDate = date, mAction = \<lparr>mLogger = logger, change_lvl = lvl\<rparr>\<rparr>"

definition Appointment_apply :: "log_change \<Rightarrow> LoggerCore \<Rightarrow> LoggerCore option" where
  "Appointment_apply ch c =
     (if isRegistered (mLogger ch) c
      then do { l \<leftarrow> memory_of c (mLogger ch); Some (setDebugLvl_name (log_mName l) (change_lvl ch) c) }
      else Some c)"

text \<open>The search stops at the first appointment that is not earlier: a new one goes before those with the same date.\<close>

definition list_insert :: "u64 \<Rightarrow> 'a appointment \<Rightarrow> 'a appointment list \<Rightarrow> 'a appointment list" where
  "list_insert stamp a sch =
     (if sch = [] then [a]
      else takeWhile (\<lambda>x. timeTo stamp x < timeTo stamp a) sch @ a # dropWhile (\<lambda>x. timeTo stamp x < timeTo stamp a) sch)"

definition LoggerScheduler_addAppointment ::
  "log_change appointment \<Rightarrow> (log_change, LoggerCore) scheduler \<Rightarrow> log_change happening list \<times> (log_change, LoggerCore) scheduler" where
  "LoggerScheduler_addAppointment = addAppointment list_insert"

definition LoggerScheduler_schedule ::
  "(log_change, LoggerCore) scheduler \<Rightarrow> (log_change happening list \<times> (log_change, LoggerCore) scheduler) option" where
  "LoggerScheduler_schedule = wake_up Appointment_apply"

definition core_addAppointment_name :: "string \<Rightarrow> u64 \<Rightarrow> DebugLvl \<Rightarrow> (log_change, LoggerCore) scheduler \<Rightarrow>
    log_change happening list \<times> (log_change, LoggerCore) scheduler" where
  "core_addAppointment_name name date lvl s =
     (case map_of (mLoggers (world s)) name of
        None \<Rightarrow> ([], s)
      | Some a \<Rightarrow> LoggerScheduler_addAppointment (Appointment_new a date lvl) s)"

definition core_addAppointment_logger :: "nat \<Rightarrow> u64 \<Rightarrow> DebugLvl \<Rightarrow> (log_change, LoggerCore) scheduler \<Rightarrow>
    (log_change happening list \<times> (log_change, LoggerCore) scheduler) option" where
  "core_addAppointment_logger a date lvl s =
     (if isRegistered a (world s)
      then do { l \<leftarrow> memory_of (world s) a; Some (core_addAppointment_name (log_mName l) date lvl s) }
      else Some ([], s))"

section \<open>The registry\<close>

text \<open>A name leads to an existing logger of that name, whose flag is the one of the core; a logger that is not registered is switched off.\<close>

definition core_ok :: "LoggerCore \<Rightarrow> bool" where
  "core_ok c \<longleftrightarrow> distinct (map fst (mLoggers c)) \<and>
     (\<forall>(n, a) \<in> set (mLoggers c). \<exists>l. memory_of c a = Some l \<and> log_mName l = n \<and> mEnabled l = loggingEnabled c) \<and>
     (\<forall>a l. memory_of c a = Some l \<and> \<not> isRegistered a c \<longrightarrow> \<not> mEnabled l)"

lemma core_okI:
  assumes "distinct (map fst (mLoggers c))"
    "\<And>n a. (n, a) \<in> set (mLoggers c) \<Longrightarrow> \<exists>l. memory_of c a = Some l \<and> log_mName l = n \<and> mEnabled l = loggingEnabled c"
    "\<And>a l. memory_of c a = Some l \<Longrightarrow> \<not> isRegistered a c \<Longrightarrow> \<not> mEnabled l"
  shows "core_ok c"
  using assms unfolding core_ok_def by blast

lemma core_ok_off: "core_ok c \<Longrightarrow> memory_of c a = Some l \<Longrightarrow> \<not> isRegistered a c \<Longrightarrow> \<not> mEnabled l"
  unfolding core_ok_def by blast

lemma core_okD:
  assumes "core_ok c" "(n, a) \<in> set (mLoggers c)"
  shows "\<exists>l. memory_of c a = Some l \<and> log_mName l = n \<and> mEnabled l = loggingEnabled c" "map_of (mLoggers c) n = Some a"
  using assms by (auto simp: core_ok_def)

lemma registered_name:
  assumes "core_ok c" "isRegistered a c"
  shows "\<exists>l. memory_of c a = Some l \<and> (log_mName l, a) \<in> set (mLoggers c)"
  using assms core_okD(1) by (force simp: isRegistered_def)

lemma update_logger_simps [simp]:
  "mLoggers (update_logger a f c) = mLoggers c" "loggingEnabled (update_logger a f c) = loggingEnabled c"
  "mGlobalDebugLvl (update_logger a f c) = mGlobalDebugLvl c" "isRegistered b (update_logger a f c) = isRegistered b c"
  "memory_of (update_logger a f c) b = (if b = a then map_option f (memory_of c a) else memory_of c b)"
  by (auto simp: update_logger_def loggingEnabled_def isRegistered_def)

lemma loggingEnabled_keeps [simp]:
  "loggingEnabled (c\<lparr>memory_of := m\<rparr>) = loggingEnabled c" "loggingEnabled (c\<lparr>mLoggers := ps\<rparr>) = loggingEnabled c"
  by (simp_all add: loggingEnabled_def)

lemma setDebugLvl_name_ok: "core_ok c \<Longrightarrow> core_ok (setDebugLvl_name name lvl c)"
  by (auto simp: core_ok_def setDebugLvl_name_def split: option.split)

lemma setDebugLvl_name_keeps:
  "mLoggers (setDebugLvl_name name lvl c) = mLoggers c" "mGlobalDebugLvl (setDebugLvl_name name lvl c) = mGlobalDebugLvl c"
  by (simp_all add: setDebugLvl_name_def split: option.split)

lemma setDebugLvl_logger_ok:
  assumes "core_ok c"
  shows "\<exists>c'. setDebugLvl_logger a lvl c = Some c' \<and> core_ok c'"
proof (cases "isRegistered a c")
  case True
  then obtain l where "memory_of c a = Some l" using registered_name [OF assms] by blast
  then show ?thesis using True setDebugLvl_name_ok [OF assms] by (simp add: setDebugLvl_logger_def)
qed (use assms in \<open>simp add: setDebugLvl_logger_def\<close>)

lemma setDebugLvl_each_ok: "core_ok c \<Longrightarrow> \<exists>c'. setDebugLvl_each ps lvl c = Some c' \<and> core_ok c'"
proof (induction ps arbitrary: c)
  case (Cons p ps)
  then obtain c1 where "setDebugLvl_logger (snd p) lvl c = Some c1" "core_ok c1" using setDebugLvl_logger_ok by blast
  then show ?case using Cons.IH [of c1] by simp
qed simp

lemma setDebugLvl_all_ok: "core_ok c \<Longrightarrow> \<exists>c'. setDebugLvl_all lvl c = Some c' \<and> core_ok c'"
  unfolding setDebugLvl_all_def by (rule setDebugLvl_each_ok) (simp add: core_ok_def loggingEnabled_def isRegistered_def)

lemma fold_enable:
  "mLoggers (fold (\<lambda>p. update_logger (snd p) f) ps c) = mLoggers c"
  "loggingEnabled (fold (\<lambda>p. update_logger (snd p) f) ps c) = loggingEnabled c"
  "isRegistered b (fold (\<lambda>p. update_logger (snd p) f) ps c) = isRegistered b c"
  "(\<And>l. f (f l) = f l) \<Longrightarrow> memory_of (fold (\<lambda>p. update_logger (snd p) f) ps c) b = (if b \<in> snd ` set ps then map_option f (memory_of c b) else memory_of c b)"
  by (induction ps arbitrary: c) (auto simp: option.map_comp comp_def)

lemma enableLogging_ok:
  assumes "core_ok c"
  shows "core_ok (enableLogging enable c)" "mLoggers (enableLogging enable c) = mLoggers c"
    "dom (memory_of (enableLogging enable c)) = dom (memory_of c)"
proof -
  let ?c = "c\<lparr>mLoggingEnabled := (if enable \<and> mLoggingImpossible c then False else enable)\<rparr>"
  let ?f = "mEnabled_update (\<lambda>_. loggingEnabled ?c)"
  have e: "enableLogging enable c = fold (\<lambda>p. update_logger (snd p) ?f) (mLoggers c) ?c"
    by (simp add: enableLogging_def Let_def)
  have mem: "memory_of (enableLogging enable c) b = (if isRegistered b c then map_option ?f (memory_of c b) else memory_of c b)" for b
    unfolding e by (subst fold_enable(4)) (simp_all add: isRegistered_def)
  have reg: "isRegistered b (enableLogging enable c) = isRegistered b c" for b
    unfolding e fold_enable(3) by (simp add: isRegistered_def)
  show same: "mLoggers (enableLogging enable c) = mLoggers c" unfolding e fold_enable(1) by simp
  have flag: "loggingEnabled (enableLogging enable c) = loggingEnabled ?c" unfolding e fold_enable(2) by simp
  have named: "\<exists>l. memory_of (enableLogging enable c) a = Some l \<and> log_mName l = n \<and> mEnabled l = loggingEnabled ?c" if "(n, a) \<in> set (mLoggers c)" for n a
  proof -
    have "isRegistered a c" using that by (force simp: isRegistered_def)
    then show ?thesis using core_okD(1) [OF assms that] mem [of a] by auto
  qed
  show "core_ok (enableLogging enable c)"
  proof (rule core_okI)
    show "distinct (map fst (mLoggers (enableLogging enable c)))" using assms by (simp add: same core_ok_def)
    show "\<not> mEnabled l" if "memory_of (enableLogging enable c) a = Some l" "\<not> isRegistered a (enableLogging enable c)" for a l
      using that core_ok_off [OF assms] by (simp add: mem reg)
  qed (simp add: named same flag)
  show "dom (memory_of (enableLogging enable c)) = dom (memory_of c)" by (auto simp: mem dom_def split: if_splits)
qed

lemma Logger_new_ok:
  assumes "core_ok c" "memory_of c a = None"
  shows "\<exists>c'. Logger_new a name c = Some c' \<and> core_ok c'"
proof -
  let ?l = "\<lparr>log_mName = name, mDebugLvl = dbg0, mEnabled = False\<rparr>"
  let ?c = "c\<lparr>memory_of := (memory_of c)(a \<mapsto> ?l)\<rparr>"
  have unreg: "\<not> isRegistered a c" using assms registered_name by force
  have others: "b \<noteq> a" if "(n, b) \<in> set (mLoggers c)" for n b using that unreg by (force simp: isRegistered_def)
  have dist: "distinct (map fst (mLoggers c))" using assms(1) by (simp add: core_ok_def)
  show ?thesis
  proof (cases "map_of (mLoggers c) name")
    case None
    let ?c' = "update_logger a (\<lambda>l. l\<lparr>mEnabled := loggingEnabled ?c, mDebugLvl := mGlobalDebugLvl ?c\<rparr>) (?c\<lparr>mLoggers := (name, a) # mLoggers c\<rparr>)"
    have flag: "loggingEnabled ?c' = loggingEnabled c" "loggingEnabled ?c = loggingEnabled c" by (simp_all add: loggingEnabled_def update_logger_def)
    have "Logger_new a name c = Some ?c'" using None assms(2) by (simp add: Logger_new_def registerLogger_def)
    moreover have "core_ok ?c'"
    proof (rule core_okI)
      show "distinct (map fst (mLoggers ?c'))" using dist None by (force simp: map_of_eq_None_iff)
      show "\<exists>l. memory_of ?c' b = Some l \<and> log_mName l = n \<and> mEnabled l = loggingEnabled ?c'" if "(n, b) \<in> set (mLoggers ?c')" for n b
        using that core_okD(1) [OF assms(1), of n b] others [of n b] unfolding flag by auto
      show "\<not> mEnabled l" if "memory_of ?c' b = Some l" "\<not> isRegistered b ?c'" for b l
        using that core_ok_off [OF assms(1), of b l] by (auto simp: isRegistered_def split: if_splits)
    qed
    ultimately show ?thesis by blast
  next
    case (Some b)
    have flag: "loggingEnabled ?c = loggingEnabled c" "isRegistered b ?c = isRegistered b c" for b by (simp_all add: loggingEnabled_def isRegistered_def)
    have "core_ok ?c"
    proof (rule core_okI)
      show "\<exists>l. memory_of ?c b = Some l \<and> log_mName l = n \<and> mEnabled l = loggingEnabled ?c" if "(n, b) \<in> set (mLoggers ?c)" for n b
        using that core_okD(1) [OF assms(1), of n b] others [of n b] unfolding flag by auto
      show "\<not> mEnabled l" if "memory_of ?c b = Some l" "\<not> isRegistered b ?c" for b l
        using that core_ok_off [OF assms(1), of b l] by (auto simp: flag split: if_splits)
    qed (use dist in simp)
    moreover have "Logger_new a name c = Some (enableLogging False ?c)" using Some assms(2) by (simp add: Logger_new_def registerLogger_def)
    ultimately show ?thesis using enableLogging_ok(1) by simp
  qed
qed

lemma Logger_delete_ok:
  assumes "core_ok c" "memory_of c a \<noteq> None"
  shows "\<exists>c'. Logger_delete a c = Some c' \<and> core_ok c'"
proof -
  obtain l where l: "memory_of c a = Some l" using assms(2) by blast
  let ?ps = "if isRegistered a c then filter (\<lambda>p. fst p \<noteq> log_mName l) (mLoggers c) else mLoggers c"
  let ?c = "c\<lparr>mLoggers := ?ps, memory_of := (memory_of c)(a := None)\<rparr>"
  have flag: "loggingEnabled ?c = loggingEnabled c" by (simp add: loggingEnabled_def)
  have kept: "(n, b) \<in> set ?ps \<longleftrightarrow> (n, b) \<in> set (mLoggers c) \<and> b \<noteq> a" for n b
  proof (cases "isRegistered a c")
    case True
    then have a: "map_of (mLoggers c) (log_mName l) = Some a" using registered_name [OF assms(1) True] core_okD(2) [OF assms(1)] l by auto
    have "n = log_mName l \<longleftrightarrow> b = a" if "(n, b) \<in> set (mLoggers c)"
      using a core_okD [OF assms(1) that] l by auto
    then show ?thesis using True by auto
  qed (force simp: isRegistered_def)
  have "Logger_delete a c = Some ?c" using l by (simp add: Logger_delete_def unregisterLogger_def)
  moreover have "core_ok ?c"
  proof (rule core_okI)
    show "distinct (map fst (mLoggers ?c))" using assms(1) by (auto simp: core_ok_def distinct_map_filter)
    show "\<exists>l. memory_of ?c b = Some l \<and> log_mName l = n \<and> mEnabled l = loggingEnabled ?c" if "(n, b) \<in> set (mLoggers ?c)" for n b
      using that core_okD(1) [OF assms(1), of n b] kept [of n b] unfolding flag by simp
    show "\<not> mEnabled m" if "memory_of ?c b = Some m" "\<not> isRegistered b ?c" for b m
    proof -
      have "b \<noteq> a" "memory_of c b = Some m" using that(1) by (auto split: if_splits)
      moreover have "\<not> isRegistered b c" using that(2) calculation(1) kept by (force simp: isRegistered_def)
      ultimately show ?thesis using core_ok_off [OF assms(1)] by blast
    qed
  qed
  ultimately show ?thesis by blast
qed

section \<open>The order of the list\<close>

lemma insort_split:
  "sorted (map f xs) \<Longrightarrow> insort_key f x xs = takeWhile (\<lambda>y. f y < f x) xs @ x # dropWhile (\<lambda>y. f y < f x) xs"
  by (induction xs) (auto simp: not_le)

lemma list_insert_later:
  assumes "\<forall>x \<in> set sch. t \<le> mDate x" "t \<le> mDate a"
  shows "list_insert t a sch = takeWhile (\<lambda>x. mDate x < mDate a) sch @ a # dropWhile (\<lambda>x. mDate x < mDate a) sch"
proof -
  have "timeTo t x < timeTo t a \<longleftrightarrow> mDate x < mDate a" if "x \<in> set sch" for x
    using assms that unat_sub_le [of t "mDate x"] unat_sub_le [of t "mDate a"] by (auto simp: timeTo_def wsimps)
  then show ?thesis
    by (simp add: list_insert_def cong: takeWhile_cong dropWhile_cong)
qed

text \<open>Appointments for a later date go in front of those with the same date; for these the list is good enough.\<close>

interpretation levels: appointment_order list_insert "\<lambda>as. sort_key mDate (rev as)" "\<lambda>t a. t < mDate a"
proof
  fix as past sch :: "'a appointment list" and t :: u64 and a :: "'a appointment"
  show "sorted (map mDate (sort_key mDate (rev as)))" "mset (sort_key mDate (rev as)) = mset as" by simp_all
  assume past: "sort_key mDate (rev as) = past @ sch" "\<forall>x \<in> set past. mDate x \<le> t" "\<forall>x \<in> set sch. t \<le> mDate x" and a: "t < mDate a" "t \<le> mDate a"
  have "sort_key mDate (rev (as @ [a])) = insort_key mDate a (past @ sch)" using past(1) by simp
  also have "\<dots> = takeWhile (\<lambda>x. mDate x < mDate a) (past @ sch) @ a # dropWhile (\<lambda>x. mDate x < mDate a) (past @ sch)"
    by (rule insort_split) (metis past(1) sorted_sort_key)
  also have "\<dots> = past @ list_insert t a sch"
    using past(2,3) a by (subst list_insert_later) (auto simp: takeWhile_append dropWhile_append)
  finally show "sort_key mDate (rev (as @ [a])) = past @ list_insert t a sch" .
next
  fix sch :: "'a appointment list" and t :: u64 and a :: "'a appointment"
  assume "sch \<noteq> []" "mDate (hd sch) = t" "t < mDate a"
  then show "list_insert t a sch \<noteq> [] \<and> hd (list_insert t a sch) = hd sch"
    by (cases sch) (auto simp: list_insert_def timeTo_def word_gt_0)
qed simp

lemma Appointment_apply_ok: "core_ok c \<Longrightarrow> \<exists>c'. Appointment_apply ch c = Some c' \<and> core_ok c'"
  using setDebugLvl_logger_ok [of c "mLogger ch" "change_lvl ch"] by (simp add: Appointment_apply_def setDebugLvl_logger_def)

lemma apply_all_ok: "core_ok c \<Longrightarrow> apply_all Appointment_apply as c = Some c' \<Longrightarrow> core_ok c'"
proof (induction Appointment_apply as c rule: apply_all.induct)
  case (2 t a as c)
  then show ?case using Appointment_apply_ok [of c "mAction a"] by (auto simp: osimps)
qed simp

section \<open>Properties\<close>

datatype core_op = New_logger nat string | Delete_logger nat | Enable bool | Level_of_name string DebugLvl | Level_of_logger nat DebugLvl | Level_of_all DebugLvl

fun core_step :: "core_op \<Rightarrow> LoggerCore \<Rightarrow> LoggerCore option" where
  "core_step (New_logger a name) c = Logger_new a name c"
| "core_step (Delete_logger a) c = Logger_delete a c"
| "core_step (Enable e) c = Some (enableLogging e c)"
| "core_step (Level_of_name name lvl) c = Some (setDebugLvl_name name lvl c)"
| "core_step (Level_of_logger a lvl) c = setDebugLvl_logger a lvl c"
| "core_step (Level_of_all lvl) c = setDebugLvl_all lvl c"

text \<open>A logger is made where none exists and deleted where one exists.\<close>

fun core_enabled :: "core_op \<Rightarrow> LoggerCore \<Rightarrow> bool" where
  "core_enabled (New_logger a name) c = (memory_of c a = None)"
| "core_enabled (Delete_logger a) c = (memory_of c a \<noteq> None)"
| "core_enabled _ c = True"

fun core_run :: "core_op list \<Rightarrow> LoggerCore \<Rightarrow> LoggerCore option" where
  "core_run [] c = Some c"
| "core_run (oper # ops) c = do { _ \<leftarrow> cassert (core_enabled oper c); c \<leftarrow> core_step oper c; core_run ops c }"

lemma core_step_ok: "core_ok c \<Longrightarrow> core_enabled oper c \<Longrightarrow> \<exists>c'. core_step oper c = Some c' \<and> core_ok c'"
  by (cases oper) (simp_all add: Logger_new_ok Logger_delete_ok enableLogging_ok setDebugLvl_name_ok setDebugLvl_logger_ok setDebugLvl_all_ok)

lemma core_run_ok: "core_ok c \<Longrightarrow> core_run ops c = Some c' \<Longrightarrow> core_ok c'"
proof (induction ops arbitrary: c)
  case (Cons oper ops)
  then obtain c1 where "core_enabled oper c" "core_step oper c = Some c1" "core_run ops c1 = Some c'" by (auto simp: osimps split: if_splits)
  then show ?case using Cons.IH [of c1] core_step_ok [OF Cons.prems(1)] by fastforce
qed simp

text \<open>
  C27: After any sequence of constructions and deletions of loggers, changes of the global switch and of debug levels, every registered name leads to an existing
  logger of that name, a logger writes exactly if it is registered and logging is on, and the next operation succeeds (the core never follows a name to a
  deleted logger).
\<close>
theorem logger_registry_consistent:
  assumes "core_run ops LoggerCore_new = Some c"
  shows "(\<forall>(n, a) \<in> set (mLoggers c). \<exists>l. memory_of c a = Some l \<and> log_mName l = n) \<and>
    (\<forall>a l. memory_of c a = Some l \<longrightarrow> (canLogInfo l \<longleftrightarrow> isRegistered a c \<and> loggingEnabled c)) \<and>
    (\<forall>oper. core_enabled oper c \<longrightarrow> core_step oper c \<noteq> None)"
proof -
  have "core_ok LoggerCore_new" by (simp add: core_ok_def LoggerCore_new_def)
  from core_run_ok [OF this assms] have ok: "core_ok c" .
  have "\<exists>l. memory_of c a = Some l \<and> log_mName l = n" if "(n, a) \<in> set (mLoggers c)" for n a
    using core_okD(1) [OF ok that] by blast
  moreover have "canLogInfo l \<longleftrightarrow> isRegistered a c \<and> loggingEnabled c" if l: "memory_of c a = Some l" for a l
  proof (cases "isRegistered a c")
    case True
    then obtain n where "(n, a) \<in> set (mLoggers c)" by (auto simp: isRegistered_def)
    from core_okD(1) [OF ok this] l True show ?thesis by (auto simp: canLogInfo_def)
  qed (use core_ok_off [OF ok l] in \<open>simp add: canLogInfo_def\<close>)
  moreover have "core_step oper c \<noteq> None" if "core_enabled oper c" for oper using core_step_ok [OF ok that] by auto
  ultimately show ?thesis by blast
qed

definition two_loggers :: "core_op list" where
  "two_loggers = [New_logger 1 ''noc'', Enable True, New_logger 2 ''cpu'', Level_of_all dbg3, New_logger 3 ''cpu'', Enable True, Delete_logger 3, Level_of_logger 2 dbg5]"

lemma two_loggers_run:
  "\<exists>c. core_run two_loggers LoggerCore_new = Some c \<and> memory_of c 2 = Some \<lparr>log_mName = ''cpu'', mDebugLvl = dbg5, mEnabled = True\<rparr> \<and> memory_of c 3 = None \<and>
    mLoggers c = [(''cpu'', 2), (''noc'', 1)]"
  by (simp add: two_loggers_def LoggerCore_new_def Logger_new_def registerLogger_def enableLogging_def Let_def update_logger_def loggingEnabled_def
      setDebugLvl_all_def setDebugLvl_logger_def setDebugLvl_name_def isRegistered_def Logger_delete_def unregisterLogger_def)

theorem logger_registry_consistent_witness:
  "\<exists>c. core_run two_loggers LoggerCore_new = Some c \<and> isRegistered 2 c \<and> canLogDebug dbg4 (the (memory_of c 2)) \<and> core_step (Delete_logger 2) c \<noteq> None"
proof -
  obtain c where c: "core_run two_loggers LoggerCore_new = Some c" "memory_of c 2 = Some \<lparr>log_mName = ''cpu'', mDebugLvl = dbg5, mEnabled = True\<rparr>"
    "mLoggers c = [(''cpu'', 2), (''noc'', 1)]" using two_loggers_run by blast
  from logger_registry_consistent [OF c(1)] have "core_enabled (Delete_logger 2) c \<longrightarrow> core_step (Delete_logger 2) c \<noteq> None" by blast
  then show ?thesis using c by (auto simp: isRegistered_def canLogDebug_def less_eq_DebugLvl_def)
qed

text \<open>
  C26: As long as every change of a debug level is scheduled for a later date, the scheduler of the loggers applies each change once and at its date, the
  changes for the same date in the reverse order of their scheduling; from every state it reaches, the remaining changes are worked off.
\<close>
theorem debug_levels_on_time:
  assumes "sched_run list_insert Appointment_apply (scheduler_new c) hs s" "core_run ops LoggerCore_new = Some c" "\<forall>t a. Accepted t a \<in> set hs \<longrightarrow> t < mDate a"
  shows "map snd (applied hs) @ mSchedule s = sort_key mDate (rev (accepted hs)) \<and> (\<forall>(t, a) \<in> set (applied hs). t = mDate a) \<and>
    (\<forall>a \<in> set (accepted hs). mDate a < time_stamp s \<longrightarrow> (mDate a, a) \<in> set (applied hs)) \<and>
    (\<exists>hs' s'. sched_run list_insert Appointment_apply s hs' s' \<and> accepted hs' = [] \<and> mSchedule s' = [])"
proof -
  have fit: "levels.all_fit hs" using assms(3) by (simp add: levels.all_fit_def)
  note exact = levels.run_exact [OF assms(1) fit] and state = levels.run_on_time [OF assms(1) fit]
  have "core_ok c" using core_run_ok [OF _ assms(2)] by (simp add: core_ok_def LoggerCore_new_def)
  then have "core_ok (world s)" using exact apply_all_ok by blast
  then show ?thesis using exact levels.drains [of Appointment_apply c hs s core_ok] state Appointment_apply_ok by blast
qed

theorem debug_levels_on_time_witness:
  "\<exists>c hs s. core_run two_loggers LoggerCore_new = Some c \<and>
    sched_exec list_insert Appointment_apply [Start, Add (Appointment_new 2 7 dbg1), Notification, Add (Appointment_new 1 4 dbg6), Notification, Advance 4, Timeout]
      (scheduler_new c) = Some (hs, s) \<and>
    map snd (applied hs) @ mSchedule s = [Appointment_new 1 4 dbg6, Appointment_new 2 7 dbg1] \<and> map fst (applied hs) = [4]"
proof -
  let ?acts = "[Start, Add (Appointment_new 2 7 dbg1), Notification, Add (Appointment_new 1 4 dbg6), Notification, Advance 4, Timeout]"
  obtain c where c: "core_run two_loggers LoggerCore_new = Some c" using two_loggers_run by blast
  have "core_ok c" using core_run_ok [OF _ c] by (simp add: core_ok_def LoggerCore_new_def)
  then obtain c1 where "Appointment_apply \<lparr>mLogger = 1, change_lvl = dbg6\<rparr> c = Some c1" using Appointment_apply_ok by blast
  then obtain hs s where run: "sched_exec list_insert Appointment_apply ?acts (scheduler_new c) = Some (hs, s)"
    and hs: "hs = [Accepted 0 (Appointment_new 2 7 dbg1), Accepted 0 (Appointment_new 1 4 dbg6), Applied 4 (Appointment_new 1 4 dbg6)]"
    by (simp add: scheduler_new_def addAppointment_def isPassed_def go_to_sleep_def wake_up_def loop_body_def isNow_def timeTo_def list_insert_def Appointment_new_def)
  have "\<forall>t a. Accepted t a \<in> set hs \<longrightarrow> t < mDate a" by (simp add: hs Appointment_new_def)
  from debug_levels_on_time [OF sched_exec_run [OF run] c this] have "map snd (applied hs) @ mSchedule s = sort_key mDate (rev (accepted hs))" by blast
  then show ?thesis using c run by (intro exI [of _ c] exI [of _ hs] exI [of _ s]) (simp add: hs Appointment_new_def)
qed

text \<open>
  A change that is scheduled for the current time, when another one is due, is lost: it goes to the front of the list, the thread applies the
  change it was waiting for and removes the new one, and then applies the old one a second time.
\<close>
theorem due_level_change_lost:
  assumes "core_run ops LoggerCore_new = Some c" "mDate a = d" "mDate b = d" "0 < d"
  shows "\<exists>s. sched_exec list_insert Appointment_apply [Start, Add a, Notification, Advance d, Add b, Timeout, Timeout] (scheduler_new c) =
    Some ([Accepted 0 a, Accepted d b, Applied d a, Applied d a], s) \<and> mSchedule s = []"
proof -
  have "core_ok c" using core_run_ok [OF _ assms(1)] by (simp add: core_ok_def LoggerCore_new_def)
  then obtain c1 c2 where "Appointment_apply (mAction a) c = Some c1" "Appointment_apply (mAction a) c1 = Some c2"
    using Appointment_apply_ok by metis
  then show ?thesis using assms(2-4)
    by (simp add: scheduler_new_def addAppointment_def isPassed_def go_to_sleep_def wake_up_def loop_body_def isNow_def timeTo_def list_insert_def)
qed

theorem due_level_change_lost_witness:
  "\<exists>c s. core_run two_loggers LoggerCore_new = Some c \<and>
    sched_exec list_insert Appointment_apply [Start, Add (Appointment_new 2 7 dbg1), Notification, Advance 7, Add (Appointment_new 1 7 dbg6), Timeout, Timeout]
      (scheduler_new c) =
    Some ([Accepted 0 (Appointment_new 2 7 dbg1), Accepted 7 (Appointment_new 1 7 dbg6), Applied 7 (Appointment_new 2 7 dbg1), Applied 7 (Appointment_new 2 7 dbg1)], s)"
proof -
  obtain c where c: "core_run two_loggers LoggerCore_new = Some c" using two_loggers_run by blast
  have "mDate (Appointment_new 2 7 dbg1) = 7" "mDate (Appointment_new 1 7 dbg6) = 7" "(0 :: u64) < 7" by (simp_all add: Appointment_new_def)
  from due_level_change_lost [OF c this] c show ?thesis by blast
qed

end
