(* ===== verification/RtcWatchdogs.thy ===== *)
theory RtcWatchdogs
  imports VP_Prelude
begin

text \<open>
  The real-time clock and its watchdogs (\<open>components/peripherals/rtc.cpp\<close>, \<open>rtc.hpp\<close>): pending watchdogs by number, and a thread that sleeps until the next
  deadline and then calls the interrupt interface of the watchdog. The interrupt interfaces are an argument, acting on the state behind them; the conversion of
  counter values to times, done in floating point, is an argument too. The kernel is modelled by steps in any order, as for the schedulers.
\<close>

section \<open>The clock\<close>

record 'i IrqWatchdog =
  watchdogIdx :: u32
  deadline :: u64
  irqIf :: 'i
  wd_value :: u64
  irqIdx :: u32

definition wd_isPassed :: "u64 \<Rightarrow> 'i IrqWatchdog \<Rightarrow> bool" where
  "wd_isPassed stamp w \<longleftrightarrow> deadline w \<le> stamp"

datatype rtc_waits = Rtc_starting | Rtc_idle | Rtc_until nat

text \<open>The map of the watchdogs is a list sorted by the numbers.\<close>

record ('i, 'w) Rtc =
  rtc_stamp :: u64
  mWatchdogs :: "(u32 \<times> 'i IrqWatchdog) list"
  mFrequency :: u64
  mNewWatchdogEvent :: bool
  rtc_invoked :: bool
  rtc_waits :: rtc_waits
  irq_world :: 'w

definition Rtc_new :: "u64 \<Rightarrow> 'w \<Rightarrow> ('i, 'w) Rtc" where
  "Rtc_new frequency w = \<lparr>rtc_stamp = 0, mWatchdogs = [], mFrequency = frequency, mNewWatchdogEvent = False, rtc_invoked = False,
     rtc_waits = Rtc_starting, irq_world = w\<rparr>"

datatype 'i rtc_event = Set_at u64 "'i IrqWatchdog" | Cancelled u32 | Raised u64 "'i IrqWatchdog"

definition getNextWatchdog :: "(u32 \<times> 'i IrqWatchdog) list \<Rightarrow> 'i IrqWatchdog option" where
  "getNextWatchdog ws =
     (case ws of
        [] \<Rightarrow> None
      | p # _ \<Rightarrow> Some (fold (\<lambda>p nextWatchdog. if deadline nextWatchdog > deadline (snd p) then snd p else nextWatchdog) ws (snd p)))"

definition cancelWatchdog :: "u32 \<Rightarrow> ('i, 'w) Rtc \<Rightarrow> bool \<times> ('i, 'w) Rtc" where
  "cancelWatchdog idx s =
     (if map_of (mWatchdogs s) idx \<noteq> None
      then (True, s\<lparr>mWatchdogs := filter (\<lambda>p. fst p \<noteq> idx) (mWatchdogs s), mNewWatchdogEvent := True\<rparr>)
      else (False, s))"

definition setWatchdog :: "'i IrqWatchdog \<Rightarrow> ('i, 'w) Rtc \<Rightarrow> ('i, 'w) Rtc" where
  "setWatchdog w s =
     (let (_, s) = cancelWatchdog (watchdogIdx w) s;
          s = s\<lparr>mWatchdogs := insort_key fst (watchdogIdx w, w) (mWatchdogs s)\<rparr>
      in if rtc_invoked s then s\<lparr>mNewWatchdogEvent := True\<rparr> else s)"

text \<open>The deadline is given as a counter value and passes through the type of the counter.\<close>

definition setWatchdog_counter :: "('r::len word \<Rightarrow> u64) \<Rightarrow> u32 \<Rightarrow> u64 \<Rightarrow> 'i \<Rightarrow> u64 \<Rightarrow> u32 \<Rightarrow> ('i, 'w) Rtc \<Rightarrow> ('i, 'w) Rtc" where
  "setWatchdog_counter counterToTime idx counter irq val irq_idx =
     setWatchdog \<lparr>watchdogIdx = idx, deadline = counterToTime (ucast (counter + 300000)), irqIf = irq, wd_value = val, irqIdx = irq_idx\<rparr>"

lemma fold_next:
  "fold (\<lambda>p nxt. if deadline nxt > deadline (snd p) then snd p else nxt) ws w \<in> insert w (snd ` set ws) \<and>
   (\<forall>v \<in> insert w (snd ` set ws). deadline (fold (\<lambda>p nxt. if deadline nxt > deadline (snd p) then snd p else nxt) ws w) \<le> deadline v)"
proof (induction ws arbitrary: w)
  case (Cons p ws)
  from Cons.IH [of "if deadline w > deadline (snd p) then snd p else w"] show ?case by (auto split: if_splits)
qed simp

lemma getNextWatchdog_least:
  assumes "getNextWatchdog ws = Some w"
  shows "w \<in> snd ` set ws" "v \<in> snd ` set ws \<Longrightarrow> deadline w \<le> deadline v"
  using assms fold_next [of ws "snd (hd ws)"] by (auto simp: getNextWatchdog_def split: list.splits)

lemma getNextWatchdog_None: "getNextWatchdog ws = None \<longleftrightarrow> ws = []"
  by (simp add: getNextWatchdog_def split: list.split)

text \<open>The numbers of the watchdogs are their keys.\<close>

definition wd_map :: "(u32 \<times> 'i IrqWatchdog) list \<Rightarrow> bool" where
  "wd_map ws \<longleftrightarrow> sorted_wrt (<) (map fst ws) \<and> (\<forall>p \<in> set ws. watchdogIdx (snd p) = fst p)"

text \<open>
  The loop of the thread, from the test that watchdogs are pending to the next wait: passed watchdogs are removed and raised one after the other. A removal
  notifies the event the thread itself waits for.
\<close>

partial_function (option) watch_loop :: "('i \<Rightarrow> u64 \<Rightarrow> u32 \<Rightarrow> 'w \<Rightarrow> 'w option) \<Rightarrow> ('i, 'w) Rtc \<Rightarrow> ('i rtc_event list \<times> ('i, 'w) Rtc) option" where
  "watch_loop update_irq s =
     (case getNextWatchdog (mWatchdogs s) of
        None \<Rightarrow> Some ([], s\<lparr>rtc_waits := Rtc_idle\<rparr>)
      | Some w \<Rightarrow>
          if \<not> wd_isPassed (rtc_stamp s) w
          then Some ([], s\<lparr>rtc_waits := Rtc_until (unat (rtc_stamp s) + unat (deadline w - rtc_stamp s))\<rparr>)
          else do {
            let s1 = snd (cancelWatchdog (watchdogIdx w) s);
            world \<leftarrow> update_irq (irqIf w) (wd_value w) (irqIdx w) (irq_world s1);
            (es, s') \<leftarrow> watch_loop update_irq (s1\<lparr>irq_world := world\<rparr>);
            Some (Raised (rtc_stamp s) w # es, s')
          })"

declare watch_loop.simps [code]

section \<open>Runs\<close>

text \<open>After a wait with a timeout the next watchdog is fetched from a map that may have become empty: the code then reads past its end.\<close>

definition watch_resume :: "('i \<Rightarrow> u64 \<Rightarrow> u32 \<Rightarrow> 'w \<Rightarrow> 'w option) \<Rightarrow> ('i, 'w) Rtc \<Rightarrow> ('i rtc_event list \<times> ('i, 'w) Rtc) option" where
  "watch_resume update_irq s =
     (case rtc_waits s of
        Rtc_until _ \<Rightarrow> do { _ \<leftarrow> getNextWatchdog (mWatchdogs s); watch_loop update_irq s }
      | _ \<Rightarrow> watch_loop update_irq s)"

datatype 'i rtc_act = Rtc_set "'i IrqWatchdog" | Rtc_cancel u32 | Rtc_begin | Rtc_start | Rtc_notification | Rtc_timeout | Rtc_advance u64

fun rtc_enabled :: "'i rtc_act \<Rightarrow> ('i, 'w) Rtc \<Rightarrow> bool" where
  "rtc_enabled (Rtc_set w) s = True"
| "rtc_enabled (Rtc_cancel idx) s = True"
| "rtc_enabled Rtc_begin s = (\<not> rtc_invoked s)"
| "rtc_enabled Rtc_start s = (rtc_invoked s \<and> rtc_waits s = Rtc_starting)"
| "rtc_enabled Rtc_notification s = (mNewWatchdogEvent s \<and> rtc_waits s \<noteq> Rtc_starting)"
| "rtc_enabled Rtc_timeout s = (rtc_waits s = Rtc_until (unat (rtc_stamp s)))"
| "rtc_enabled (Rtc_advance t) s =
     (rtc_waits s \<noteq> Rtc_starting \<and> \<not> mNewWatchdogEvent s \<and> rtc_stamp s < t \<and> (case rtc_waits s of Rtc_until d \<Rightarrow> unat t \<le> d | _ \<Rightarrow> True))"

fun rtc_step :: "('i \<Rightarrow> u64 \<Rightarrow> u32 \<Rightarrow> 'w \<Rightarrow> 'w option) \<Rightarrow> 'i rtc_act \<Rightarrow> ('i, 'w) Rtc \<Rightarrow> ('i rtc_event list \<times> ('i, 'w) Rtc) option" where
  "rtc_step update_irq (Rtc_set w) s = Some ([Set_at (rtc_stamp s) w], setWatchdog w s)"
| "rtc_step update_irq (Rtc_cancel idx) s = Some ([Cancelled idx], snd (cancelWatchdog idx s))"
| "rtc_step update_irq Rtc_begin s = Some ([], s\<lparr>rtc_invoked := True\<rparr>)"
| "rtc_step update_irq Rtc_start s = watch_resume update_irq s"
| "rtc_step update_irq Rtc_notification s = watch_resume update_irq (s\<lparr>mNewWatchdogEvent := False\<rparr>)"
| "rtc_step update_irq Rtc_timeout s = watch_resume update_irq s"
| "rtc_step update_irq (Rtc_advance t) s = Some ([], s\<lparr>rtc_stamp := t\<rparr>)"

inductive rtc_run :: "('i \<Rightarrow> u64 \<Rightarrow> u32 \<Rightarrow> 'w \<Rightarrow> 'w option) \<Rightarrow> ('i, 'w) Rtc \<Rightarrow> 'i rtc_event list \<Rightarrow> ('i, 'w) Rtc \<Rightarrow> bool"
  for update_irq s where
  rtc_none: "rtc_run update_irq s [] s"
| rtc_more: "rtc_run update_irq s es s' \<Longrightarrow> rtc_enabled act s' \<Longrightarrow> rtc_step update_irq act s' = Some (es', s'') \<Longrightarrow> rtc_run update_irq s (es @ es') s''"

section \<open>An alarm clock\<close>

text \<open>The specification: a table of alarms that are set, cancelled, and go off at or after their deadline.\<close>

fun alarm_step :: "'i rtc_event \<Rightarrow> (u32 \<rightharpoonup> 'i IrqWatchdog) \<Rightarrow> (u32 \<rightharpoonup> 'i IrqWatchdog) option" where
  "alarm_step (Set_at t w) m = Some (m(watchdogIdx w \<mapsto> w))"
| "alarm_step (Cancelled idx) m = Some (m(idx := None))"
| "alarm_step (Raised t w) m = (if m (watchdogIdx w) = Some w \<and> deadline w \<le> t then Some (m(watchdogIdx w := None)) else None)"

fun alarm_run :: "'i rtc_event list \<Rightarrow> (u32 \<rightharpoonup> 'i IrqWatchdog) \<Rightarrow> (u32 \<rightharpoonup> 'i IrqWatchdog) option" where
  "alarm_run [] m = Some m"
| "alarm_run (e # es) m = Option.bind (alarm_step e m) (alarm_run es)"

lemma alarm_run_append [simp]: "alarm_run (es @ es') m = Option.bind (alarm_run es m) (alarm_run es')"
  by (induction es arbitrary: m) (auto split: bind_split)

section \<open>The clock refines the alarm clock\<close>

lemma wd_map_distinct: "wd_map ws \<Longrightarrow> distinct (map fst ws)"
  by (simp add: wd_map_def strict_sorted_iff)

lemma map_of_filter_key: "map_of (filter (\<lambda>p. fst p \<noteq> k) ws) = (map_of ws)(k := None)"
  by (induction ws) (auto simp: fun_eq_iff)

lemma wd_map_cancel:
  assumes "wd_map (mWatchdogs s)" "cancelWatchdog idx s = (r, s')"
  shows "wd_map (mWatchdogs s') \<and> map_of (mWatchdogs s') = (map_of (mWatchdogs s))(idx := None) \<and> set (mWatchdogs s') \<subseteq> set (mWatchdogs s)"
proof (cases "map_of (mWatchdogs s) idx")
  case None
  then show ?thesis using assms by (auto simp: cancelWatchdog_def)
next
  case (Some w)
  then have "mWatchdogs s' = filter (\<lambda>p. fst p \<noteq> idx) (mWatchdogs s)" using assms(2) by (auto simp: cancelWatchdog_def)
  then show ?thesis using assms(1)
    by (simp add: wd_map_def map_of_filter_key sorted_wrt_map sorted_wrt_filter)
qed

lemma map_of_insort: "k \<notin> fst ` set ws \<Longrightarrow> map_of (insort_key fst (k, w) ws) = (map_of ws)(k \<mapsto> w)"
  by (induction ws) (auto simp: fun_eq_iff)

lemma wd_map_insort: "wd_map ws \<Longrightarrow> k \<notin> fst ` set ws \<Longrightarrow> watchdogIdx w = k \<Longrightarrow> wd_map (insort_key fst (k, w) ws)"
  unfolding wd_map_def strict_sorted_iff
  by (auto simp: set_insort_key distinct_insort_key sorted_insort_key)

lemma setWatchdog_result:
  assumes "wd_map (mWatchdogs s)"
  shows "wd_map (mWatchdogs (setWatchdog w s))" "map_of (mWatchdogs (setWatchdog w s)) = (map_of (mWatchdogs s))(watchdogIdx w \<mapsto> w)"
    "set (mWatchdogs (setWatchdog w s)) \<subseteq> insert (watchdogIdx w, w) (set (mWatchdogs s))"
    "rtc_stamp (setWatchdog w s) = rtc_stamp s" "rtc_waits (setWatchdog w s) = rtc_waits s" "rtc_invoked (setWatchdog w s) = rtc_invoked s"
    "mNewWatchdogEvent (setWatchdog w s) \<longleftrightarrow> mNewWatchdogEvent s \<or> rtc_invoked s \<or> map_of (mWatchdogs s) (watchdogIdx w) \<noteq> None"
proof -
  obtain r s1 where s1: "cancelWatchdog (watchdogIdx w) s = (r, s1)" by fastforce
  note c = wd_map_cancel [OF assms s1]
  have out: "watchdogIdx w \<notin> fst ` set (mWatchdogs s1)" using c by (metis fun_upd_same map_of_eq_None_iff)
  have ws: "mWatchdogs (setWatchdog w s) = insort_key fst (watchdogIdx w, w) (mWatchdogs s1)" using s1 by (simp add: setWatchdog_def Let_def)
  show "wd_map (mWatchdogs (setWatchdog w s))" unfolding ws using c out by (intro wd_map_insort) simp_all
  show "map_of (mWatchdogs (setWatchdog w s)) = (map_of (mWatchdogs s))(watchdogIdx w \<mapsto> w)" unfolding ws map_of_insort [OF out] using c by simp
  show "set (mWatchdogs (setWatchdog w s)) \<subseteq> insert (watchdogIdx w, w) (set (mWatchdogs s))" unfolding ws using c by (auto simp: set_insort_key)
  show "rtc_stamp (setWatchdog w s) = rtc_stamp s" "rtc_waits (setWatchdog w s) = rtc_waits s" "rtc_invoked (setWatchdog w s) = rtc_invoked s"
    "mNewWatchdogEvent (setWatchdog w s) \<longleftrightarrow> mNewWatchdogEvent s \<or> rtc_invoked s \<or> map_of (mWatchdogs s) (watchdogIdx w) \<noteq> None"
    by (auto simp: setWatchdog_def Let_def cancelWatchdog_def)
qed

text \<open>The thread sleeps until the next deadline, or has nothing to wait for.\<close>

definition sleeping :: "('i, 'w) Rtc \<Rightarrow> bool" where
  "sleeping s \<longleftrightarrow> (case rtc_waits s of
     Rtc_starting \<Rightarrow> False
   | Rtc_idle \<Rightarrow> mWatchdogs s = []
   | Rtc_until d \<Rightarrow> (\<exists>w. getNextWatchdog (mWatchdogs s) = Some w \<and> d = unat (deadline w) \<and> rtc_stamp s \<le> deadline w))"

lemma cancel_next:
  assumes "wd_map (mWatchdogs s)" "getNextWatchdog (mWatchdogs s) = Some w"
  shows "map_of (mWatchdogs s) (watchdogIdx w) = Some w"
    "cancelWatchdog (watchdogIdx w) s = (True, s\<lparr>mWatchdogs := filter (\<lambda>p. fst p \<noteq> watchdogIdx w) (mWatchdogs s), mNewWatchdogEvent := True\<rparr>)"
    "length (filter (\<lambda>p. fst p \<noteq> watchdogIdx w) (mWatchdogs s)) < length (mWatchdogs s)"
proof -
  from getNextWatchdog_least(1) [OF assms(2)] obtain p where p: "p \<in> set (mWatchdogs s)" "w = snd p" by blast
  then have "(watchdogIdx w, w) \<in> set (mWatchdogs s)" using assms(1) by (cases p) (auto simp: wd_map_def)
  then show m: "map_of (mWatchdogs s) (watchdogIdx w) = Some w" using wd_map_distinct [OF assms(1)] by simp
  then show "cancelWatchdog (watchdogIdx w) s = (True, s\<lparr>mWatchdogs := filter (\<lambda>p. fst p \<noteq> watchdogIdx w) (mWatchdogs s), mNewWatchdogEvent := True\<rparr>)"
    by (simp add: cancelWatchdog_def)
  show "length (filter (\<lambda>p. fst p \<noteq> watchdogIdx w) (mWatchdogs s)) < length (mWatchdogs s)"
    using map_of_SomeD [OF m] by (intro length_filter_less) auto
qed

lemma watch_loop_result:
  assumes "wd_map (mWatchdogs s)"
    "\<forall>i v k x. update_irq i v k x \<noteq> None"
  shows "\<exists>es s'. watch_loop update_irq s = Some (es, s') \<and> wd_map (mWatchdogs s') \<and> alarm_run es (map_of (mWatchdogs s)) = Some (map_of (mWatchdogs s')) \<and>
    set es \<subseteq> Raised (rtc_stamp s) ` snd ` set (mWatchdogs s) \<and> set (mWatchdogs s') \<subseteq> set (mWatchdogs s) \<and>
    rtc_stamp s' = rtc_stamp s \<and> rtc_invoked s' = rtc_invoked s \<and> sleeping s'"
  using assms(1)
proof (induction "length (mWatchdogs s)" arbitrary: s rule: less_induct)
  case less
  show ?case
  proof (cases "getNextWatchdog (mWatchdogs s)")
    case None
    then have "watch_loop update_irq s = Some ([], s\<lparr>rtc_waits := Rtc_idle\<rparr>)" by (subst watch_loop.simps) simp
    then show ?thesis using less.prems None by (simp add: sleeping_def getNextWatchdog_None)
  next
    case (Some w)
    note next_w = cancel_next [OF less.prems Some]
    show ?thesis
    proof (cases "wd_isPassed (rtc_stamp s) w")
      case False
      then have later: "rtc_stamp s \<le> deadline w" by (simp add: wd_isPassed_def)
      have "watch_loop update_irq s = Some ([], s\<lparr>rtc_waits := Rtc_until (unat (rtc_stamp s) + unat (deadline w - rtc_stamp s))\<rparr>)"
        using Some False by (subst watch_loop.simps) simp
      then show ?thesis using less.prems Some later by (simp add: sleeping_def unat_sub_le wsimps)
    next
      case True
      obtain x where x: "update_irq (irqIf w) (wd_value w) (irqIdx w) (irq_world s) = Some x" using assms(2) by blast
      let ?s = "s\<lparr>mWatchdogs := filter (\<lambda>p. fst p \<noteq> watchdogIdx w) (mWatchdogs s), mNewWatchdogEvent := True, irq_world := x\<rparr>"
      have "wd_map (mWatchdogs ?s)" using wd_map_cancel [OF less.prems next_w(2)] by simp
      from less.hyps [OF _ this] next_w(3) obtain es s' where IH:
        "watch_loop update_irq ?s = Some (es, s')" "wd_map (mWatchdogs s')" "alarm_run es (map_of (mWatchdogs ?s)) = Some (map_of (mWatchdogs s'))"
        "set es \<subseteq> Raised (rtc_stamp s) ` snd ` set (mWatchdogs ?s)" "set (mWatchdogs s') \<subseteq> set (mWatchdogs ?s)"
        "rtc_stamp s' = rtc_stamp s" "rtc_invoked s' = rtc_invoked s" "sleeping s'" by auto
      have "watch_loop update_irq s = Some (Raised (rtc_stamp s) w # es, s')"
        using Some True x IH(1) next_w(2) by (subst watch_loop.simps) simp
      moreover have "alarm_run (Raised (rtc_stamp s) w # es) (map_of (mWatchdogs s)) = Some (map_of (mWatchdogs s'))"
        using IH(3) next_w(1) True by (simp add: map_of_filter_key wd_isPassed_def)
      moreover have "set (Raised (rtc_stamp s) w # es) \<subseteq> Raised (rtc_stamp s) ` snd ` set (mWatchdogs s)"
        using IH(4) getNextWatchdog_least(1) [OF Some] by auto
      moreover have "set (mWatchdogs s') \<subseteq> set (mWatchdogs s)" using IH(5) by auto
      ultimately show ?thesis using IH by blast
    qed
  qed
qed

lemma alarm_raised: "alarm_run es m = Some m' \<Longrightarrow> Raised t w \<in> set es \<Longrightarrow> deadline w \<le> t"
  by (induction es arbitrary: m) (auto simp: osimps split: if_splits)

definition rtc_ok :: "'i rtc_event list \<Rightarrow> ('i, 'w) Rtc \<Rightarrow> bool" where
  "rtc_ok es s \<longleftrightarrow> wd_map (mWatchdogs s) \<and> alarm_run es Map.empty = Some (map_of (mWatchdogs s)) \<and>
     (\<forall>t w. Raised t w \<in> set es \<longrightarrow> t = deadline w \<or> Set_at t w \<in> set es) \<and>
     (\<forall>w \<in> snd ` set (mWatchdogs s). rtc_stamp s \<le> deadline w \<or> Set_at (rtc_stamp s) w \<in> set es) \<and>
     (rtc_waits s \<noteq> Rtc_starting \<longrightarrow> rtc_invoked s \<and> (mNewWatchdogEvent s \<or> sleeping s))"

lemma rtc_ok_loop:
  assumes "rtc_ok es s" "watch_loop update_irq (s\<lparr>mNewWatchdogEvent := e\<rparr>) = Some (es', s')" "rtc_invoked s" "\<forall>i v k x. update_irq i v k x \<noteq> None"
  shows "rtc_ok (es @ es') s'"
proof -
  let ?s = "s\<lparr>mNewWatchdogEvent := e\<rparr>"
  have "wd_map (mWatchdogs ?s)" using assms(1) by (simp add: rtc_ok_def)
  from watch_loop_result [OF this assms(4)] assms(2) have r:
    "wd_map (mWatchdogs s')" "alarm_run es' (map_of (mWatchdogs s)) = Some (map_of (mWatchdogs s'))"
    "set es' \<subseteq> Raised (rtc_stamp s) ` snd ` set (mWatchdogs s)" "set (mWatchdogs s') \<subseteq> set (mWatchdogs s)"
    "rtc_stamp s' = rtc_stamp s" "rtc_invoked s' = rtc_invoked s" "sleeping s'" by auto
  have "t = deadline w \<or> Set_at t w \<in> set es" if "Raised t w \<in> set es'" for t w
  proof -
    have "t = rtc_stamp s" "w \<in> snd ` set (mWatchdogs s)" using that r(3) by auto
    then have "t \<le> deadline w \<or> Set_at t w \<in> set es" using assms(1) unfolding rtc_ok_def by blast
    moreover have "deadline w \<le> t" using alarm_raised [OF r(2) that] .
    ultimately show ?thesis by auto
  qed
  then show ?thesis using assms(1,3) r unfolding rtc_ok_def by (auto simp: image_subset_iff)
qed

lemma rtc_ok_step:
  assumes "rtc_ok es s" "rtc_enabled act s" "rtc_step update_irq act s = Some (es', s')" "\<forall>i v k x. update_irq i v k x \<noteq> None"
  shows "rtc_ok (es @ es') s'"
proof (cases act)
  case (Rtc_set w)
  have ws: "wd_map (mWatchdogs s)" using assms(1) by (simp add: rtc_ok_def)
  note r = setWatchdog_result [OF ws, of w]
  have "es' = [Set_at (rtc_stamp s) w]" "s' = setWatchdog w s" using assms(3) Rtc_set by auto
  then show ?thesis using assms(1) r unfolding rtc_ok_def by (auto simp: fun_upd_def)
next
  case (Rtc_cancel idx)
  have ws: "wd_map (mWatchdogs s)" using assms(1) by (simp add: rtc_ok_def)
  obtain b where c: "cancelWatchdog idx s = (b, s')" "es' = [Cancelled idx]" using assms(3) Rtc_cancel by (cases "cancelWatchdog idx s") auto
  have same: "rtc_stamp s' = rtc_stamp s" "rtc_waits s' = rtc_waits s" "rtc_invoked s' = rtc_invoked s" "s' = s \<or> mNewWatchdogEvent s'"
    using c(1) by (auto simp: cancelWatchdog_def split: if_splits)
  show ?thesis using assms(1) wd_map_cancel [OF ws c(1)] same c(2) unfolding rtc_ok_def by auto
next
  case Rtc_begin
  then have s': "es' = []" "s' = s\<lparr>rtc_invoked := True\<rparr>" "rtc_waits s = Rtc_starting" using assms(1-3) by (auto simp: rtc_ok_def)
  then show ?thesis using assms(1) by (simp add: rtc_ok_def)
next
  case Rtc_start
  then have "watch_loop update_irq (s\<lparr>mNewWatchdogEvent := mNewWatchdogEvent s\<rparr>) = Some (es', s')" "rtc_invoked s"
    using assms(2,3) by (auto simp: watch_resume_def)
  then show ?thesis using rtc_ok_loop [OF assms(1)] assms(4) by blast
next
  case Rtc_notification
  then have "watch_loop update_irq (s\<lparr>mNewWatchdogEvent := False\<rparr>) = Some (es', s')" "rtc_invoked s"
    using assms(1-3) by (auto simp: watch_resume_def rtc_ok_def osimps split: rtc_waits.splits)
  then show ?thesis using rtc_ok_loop [OF assms(1)] assms(4) by blast
next
  case Rtc_timeout
  then have "watch_loop update_irq (s\<lparr>mNewWatchdogEvent := mNewWatchdogEvent s\<rparr>) = Some (es', s')" "rtc_invoked s"
    using assms(1-3) by (auto simp: watch_resume_def rtc_ok_def osimps)
  then show ?thesis using rtc_ok_loop [OF assms(1)] assms(4) by blast
next
  case (Rtc_advance t)
  then have s': "es' = []" "s' = s\<lparr>rtc_stamp := t\<rparr>" "rtc_waits s \<noteq> Rtc_starting" "\<not> mNewWatchdogEvent s" "\<And>d. rtc_waits s = Rtc_until d \<Longrightarrow> unat t \<le> d"
    using assms(2,3) by auto
  then have sl: "sleeping s" using assms(1) by (simp add: rtc_ok_def)
  have "t \<le> deadline v" if "v \<in> snd ` set (mWatchdogs s)" for v
    using sl s'(3,5) that getNextWatchdog_least(2) [of "mWatchdogs s" _ v]
    by (cases "rtc_waits s") (auto simp: sleeping_def wsimps intro: order_trans)
  moreover have "sleeping s'" using sl s'(2,3,5) by (cases "rtc_waits s") (auto simp: sleeping_def wsimps)
  ultimately show ?thesis using assms(1) s'(1,2,3) by (auto simp: rtc_ok_def)
qed

lemma rtc_run_ok:
  assumes "rtc_run update_irq (Rtc_new f x) es s" "\<forall>i v k x. update_irq i v k x \<noteq> None"
  shows "rtc_ok es s"
  using assms(1)
proof (induction rule: rtc_run.induct)
  case rtc_none
  then show ?case by (simp add: rtc_ok_def Rtc_new_def wd_map_def)
next
  case (rtc_more es s act es' s')
  then show ?case using rtc_ok_step assms(2) by blast
qed

fun rtc_exec :: "('i \<Rightarrow> u64 \<Rightarrow> u32 \<Rightarrow> 'w \<Rightarrow> 'w option) \<Rightarrow> 'i rtc_act list \<Rightarrow> ('i, 'w) Rtc \<Rightarrow> ('i rtc_event list \<times> ('i, 'w) Rtc) option" where
  "rtc_exec update_irq [] s = Some ([], s)"
| "rtc_exec update_irq (act # acts) s =
     do {
       _ \<leftarrow> cassert (rtc_enabled act s);
       (es, s) \<leftarrow> rtc_step update_irq act s;
       (es', s) \<leftarrow> rtc_exec update_irq acts s;
       Some (es @ es', s)
     }"

lemma rtc_exec_run: "rtc_exec update_irq acts s = Some (es, s') \<Longrightarrow> rtc_run update_irq s0 es0 s \<Longrightarrow> rtc_run update_irq s0 (es0 @ es) s'"
proof (induction acts arbitrary: s es es0)
  case (Cons act acts)
  then obtain es1 s1 es2 where step: "rtc_enabled act s" "rtc_step update_irq act s = Some (es1, s1)" "rtc_exec update_irq acts s1 = Some (es2, s')" "es = es1 @ es2"
    by (auto simp: osimps split: if_splits)
  from Cons.IH [OF step(3) rtc_more [OF Cons.prems(2) step(1,2)]] step(4) show ?case by simp
qed auto

section \<open>Properties\<close>


definition one_watchdog :: "nat IrqWatchdog" where
  "one_watchdog = \<lparr>watchdogIdx = 3, deadline = 10, irqIf = 0, wd_value = 1, irqIdx = 29\<rparr>"

definition raise_line :: "nat \<Rightarrow> u64 \<Rightarrow> u32 \<Rightarrow> (u32 \<times> u64) list \<Rightarrow> (u32 \<times> u64) list option" where
  "raise_line i v k x = Some (x @ [(k, v)])"


text \<open>
  When the thread of the clock is woken by the event, it runs into undefined behaviour (it reads the first element of an empty map) exactly if it was waiting for
  a deadline and the last watchdog has been cancelled in the meantime.
\<close>
theorem cancelling_last_watchdog_crashes:
  assumes "rtc_run update_irq (Rtc_new f x) es s" "\<forall>i v k x. update_irq i v k x \<noteq> None"
  shows "rtc_step update_irq Rtc_notification s = None \<longleftrightarrow> (\<exists>d. rtc_waits s = Rtc_until d) \<and> mWatchdogs s = []"
proof -
  have "wd_map (mWatchdogs (s\<lparr>mNewWatchdogEvent := False\<rparr>))" using rtc_run_ok [OF assms] by (simp add: rtc_ok_def)
  from watch_loop_result [OF this assms(2)] show ?thesis
    by (cases "rtc_waits s"; cases "mWatchdogs s") (auto simp: watch_resume_def getNextWatchdog_def)
qed

theorem cancelling_last_watchdog_crashes_witness:
  "\<exists>es s. rtc_exec raise_line [Rtc_begin, Rtc_start, Rtc_set one_watchdog, Rtc_notification, Rtc_cancel 3] (Rtc_new 1 []) = Some (es, s) \<and>
    rtc_enabled Rtc_notification s \<and> rtc_step raise_line Rtc_notification s = None"
proof -
  let ?run = "rtc_exec raise_line [Rtc_begin, Rtc_start, Rtc_set one_watchdog, Rtc_notification, Rtc_cancel 3] (Rtc_new 1 [])"
  have "map_option (\<lambda>(es, s). (rtc_waits s, mWatchdogs s, mNewWatchdogEvent s)) ?run = Some (Rtc_until 10, [], True)" by code_simp
  then obtain es s where run: "?run = Some (es, s)" "rtc_waits s = Rtc_until 10" "mWatchdogs s = []" "mNewWatchdogEvent s" by auto
  have total: "\<forall>i v k x. raise_line i v k x \<noteq> None" by (simp add: raise_line_def)
  from cancelling_last_watchdog_crashes [OF rtc_exec_run [OF run(1) rtc_none, simplified] total] run show ?thesis by auto
qed

end
