(* ===== verification/HybridList.thy ===== *)
theory HybridList
  imports VP_Prelude
begin

text \<open>
  The container that grows by blocks and never moves its elements (\<open>core/include/core/HybridList.hpp\<close>), and the iteration over it. The block size is an
  argument \<open>n\<close>, as is the value a fresh block is filled with. An iterator is a block and a position in the block.
\<close>

record 'a HybridList =
  mContainer :: "'a list list"
  mCurrentIdx :: nat

definition HybridList_new :: "nat \<Rightarrow> 'a \<Rightarrow> 'a HybridList" where
  "HybridList_new n v0 = \<lparr>mContainer = [replicate n v0], mCurrentIdx = 0\<rparr>"

definition emplace_back :: "nat \<Rightarrow> 'a \<Rightarrow> 'a \<Rightarrow> 'a HybridList \<Rightarrow> 'a HybridList" where
  "emplace_back n v0 val hl =
     (let hl = (if mCurrentIdx hl \<ge> n then hl\<lparr>mContainer := mContainer hl @ [replicate n v0], mCurrentIdx := 0\<rparr> else hl)
      in hl\<lparr>mContainer := butlast (mContainer hl) @ [(last (mContainer hl))[mCurrentIdx hl := val]], mCurrentIdx := mCurrentIdx hl + 1\<rparr>)"

type_synonym hl_iterator = "nat \<times> nat"

definition hl_begin :: "'a HybridList \<Rightarrow> hl_iterator" where
  "hl_begin hl = (0, 0)"

definition hl_end :: "'a HybridList \<Rightarrow> hl_iterator" where
  "hl_end hl = (length (mContainer hl) - 1, mCurrentIdx hl)"

text \<open>Dereferencing and advancing outside the container is undefined.\<close>

definition hl_deref :: "'a HybridList \<Rightarrow> hl_iterator \<Rightarrow> 'a option" where
  "hl_deref hl = (\<lambda>(b, k). if b < length (mContainer hl) \<and> k < length (mContainer hl ! b) then Some (mContainer hl ! b ! k) else None)"

definition hl_advance :: "'a HybridList \<Rightarrow> hl_iterator \<Rightarrow> hl_iterator option" where
  "hl_advance hl = (\<lambda>(b, k).
     if b \<ge> length (mContainer hl) \<or> k \<ge> length (mContainer hl ! b) then None
     else if k + 1 = length (mContainer hl ! b)
     then (if b + 1 < length (mContainer hl) then Some (b + 1, 0) else None)
     else Some (b, k + 1))"

text \<open>The prefix operator returns the old iterator and the postfix operator the new one: the other way round than usual. Both advance.\<close>

definition hl_prefix :: "'a HybridList \<Rightarrow> hl_iterator \<Rightarrow> (hl_iterator \<times> hl_iterator) option" where
  "hl_prefix hl i = do { j \<leftarrow> hl_advance hl i; Some (i, j) }"

definition hl_postfix :: "'a HybridList \<Rightarrow> hl_iterator \<Rightarrow> (hl_iterator \<times> hl_iterator) option" where
  "hl_postfix hl i = do { j \<leftarrow> hl_advance hl i; Some (j, j) }"

text \<open>A loop over the container.\<close>

partial_function (option) hl_collect :: "'a HybridList \<Rightarrow> hl_iterator \<Rightarrow> 'a list option" where
  "hl_collect hl i =
     (if i = hl_end hl then Some []
      else do {
        v \<leftarrow> hl_deref hl i;
        (_, i) \<leftarrow> hl_prefix hl i;
        vs \<leftarrow> hl_collect hl i;
        Some (v # vs)
      })"

declare hl_collect.simps [code]

section \<open>The list a container stands for\<close>

definition hl_ok :: "nat \<Rightarrow> 'a HybridList \<Rightarrow> bool" where
  "hl_ok n hl \<longleftrightarrow> 0 < n \<and> mContainer hl \<noteq> [] \<and> (\<forall>b \<in> set (mContainer hl). length b = n) \<and> mCurrentIdx hl \<le> n \<and>
     (mCurrentIdx hl = 0 \<longrightarrow> length (mContainer hl) = 1)"

definition hl_size :: "nat \<Rightarrow> 'a HybridList \<Rightarrow> nat" where
  "hl_size n hl = (length (mContainer hl) - 1) * n + mCurrentIdx hl"

definition hl_abs :: "nat \<Rightarrow> 'a HybridList \<Rightarrow> 'a list" where
  "hl_abs n hl = concat (butlast (mContainer hl)) @ take (mCurrentIdx hl) (last (mContainer hl))"

lemma concat_blocks:
  assumes "\<forall>b \<in> set bs. length b = n"
  shows "length (concat bs) = length bs * n" "i < length bs \<Longrightarrow> k < n \<Longrightarrow> concat bs ! (i * n + k) = bs ! i ! k"
proof -
  show "length (concat bs) = length bs * n" using assms by (induction bs) auto
  show "i < length bs \<Longrightarrow> k < n \<Longrightarrow> concat bs ! (i * n + k) = bs ! i ! k" using assms
  proof (induction bs arbitrary: i)
    case (Cons b bs)
    then show ?case by (cases i) (auto simp: nth_append)
  qed simp
qed

lemma hl_abs_length: "hl_ok n hl \<Longrightarrow> length (hl_abs n hl) = hl_size n hl"
  using concat_blocks(1) [of "butlast (mContainer hl)" n]
  by (auto simp: hl_ok_def hl_abs_def hl_size_def in_set_butlastD)

lemma hl_abs_nth:
  assumes "hl_ok n hl" "i < length (mContainer hl)" "k < n" "i * n + k < hl_size n hl"
  shows "hl_abs n hl ! (i * n + k) = mContainer hl ! i ! k"
proof -
  let ?bs = "mContainer hl"
  have ne: "?bs \<noteq> []" and blocks: "\<forall>b \<in> set ?bs. length b = n" using assms(1) by (auto simp: hl_ok_def)
  have "hl_abs n hl = take (hl_size n hl) (concat ?bs)"
  proof -
    have "length (concat (butlast ?bs)) = (length ?bs - 1) * n"
      using concat_blocks(1) [of "butlast ?bs" n] blocks by (auto dest: in_set_butlastD)
    moreover have "concat ?bs = concat (butlast ?bs) @ last ?bs" using ne by (metis append_butlast_last_id concat_append concat.simps append_Nil2)
    ultimately show ?thesis by (simp add: hl_abs_def hl_size_def)
  qed
  then show ?thesis using concat_blocks(2) [OF blocks assms(2,3)] assms(4) by simp
qed

lemma emplace_back_refines:
  assumes "hl_ok n hl"
  shows "hl_ok n (emplace_back n v0 v hl) \<and> hl_abs n (emplace_back n v0 v hl) = hl_abs n hl @ [v]"
proof (cases "mCurrentIdx hl \<ge> n")
  case True
  then have "mCurrentIdx hl = n" using assms by (simp add: hl_ok_def)
  moreover have "concat (mContainer hl) = concat (butlast (mContainer hl)) @ last (mContainer hl)"
    using assms unfolding hl_ok_def by (metis append_butlast_last_id concat_append concat.simps append_Nil2)
  moreover have "take (Suc 0) ((replicate n v0)[0 := v]) = [v]" using assms by (cases n) (auto simp: hl_ok_def)
  ultimately show ?thesis using assms by (auto simp: emplace_back_def hl_ok_def hl_abs_def Let_def)
next
  case False
  then have idx: "mCurrentIdx hl < length (last (mContainer hl))" using assms by (auto simp: hl_ok_def)
  then show ?thesis using assms False
    by (auto simp: emplace_back_def hl_ok_def hl_abs_def Let_def take_Suc_conv_app_nth dest: in_set_butlastD)
qed

section \<open>Iteration\<close>

text \<open>Positions before the end, and what follows one of them.\<close>

lemma collect_from:
  assumes "hl_ok n hl" "i < length (mContainer hl)" "k \<le> n" "k < n \<or> (i, k) = hl_end hl" "i * n + k \<le> hl_size n hl"
  shows "hl_collect hl (i, k) = (if mCurrentIdx hl < n \<or> (i, k) = hl_end hl then Some (drop (i * n + k) (hl_abs n hl)) else None)"
  using assms(2-)
proof (induction "hl_size n hl - (i * n + k)" arbitrary: i k rule: less_induct)
  case less
  note ok = assms(1)
  have n: "0 < n" "mCurrentIdx hl \<le> n" "length (mContainer hl ! i) = n" "length (mContainer hl) \<noteq> 0" using ok less.prems(1) by (auto simp: hl_ok_def)
  show ?case
  proof (cases "(i, k) = hl_end hl")
    case True
    then have "i * n + k = hl_size n hl" by (auto simp: hl_end_def hl_size_def)
    then show ?thesis using True hl_abs_length [OF ok] by (subst hl_collect.simps) simp
  next
    case False
    then have k: "k < n" using less.prems(3) by blast
    have before: "i * n + k < hl_size n hl"
    proof (rule ccontr)
      assume "\<not> i * n + k < hl_size n hl"
      then have eq: "i * n + k = (length (mContainer hl) - 1) * n + mCurrentIdx hl" using less.prems(4) by (simp add: hl_size_def)
      show False
      proof (cases "i = length (mContainer hl) - 1")
        case True
        then show False using eq False by (simp add: hl_end_def)
      next
        case False
        then have "i + 1 \<le> length (mContainer hl) - 1" using less.prems(1) by simp
        then have "(i + 1) * n \<le> (length (mContainer hl) - 1) * n" by (rule mult_le_mono1)
        then show False using eq k by simp
      qed
    qed
    have deref: "hl_deref hl (i, k) = Some (hl_abs n hl ! (i * n + k))"
      using hl_abs_nth [OF ok less.prems(1) k before] less.prems(1) n(3) k by (simp add: hl_deref_def)
    have drop: "drop (i * n + k) (hl_abs n hl) = hl_abs n hl ! (i * n + k) # drop (i * n + Suc k) (hl_abs n hl)"
      using before hl_abs_length [OF ok] by (simp add: Cons_nth_drop_Suc)
    have go: "hl_collect hl (i, k) = Option.bind (hl_advance hl (i, k)) (\<lambda>j. map_option ((#) (hl_abs n hl ! (i * n + k))) (hl_collect hl j))"
      using False deref by (subst hl_collect.simps) (simp add: hl_prefix_def map_option_bind bind_map_option comp_def split: bind_split option.split)
    consider (inside) "k + 1 < n" | (edge) "k + 1 = n" "i + 1 < length (mContainer hl)" | (last) "k + 1 = n" "i + 1 = length (mContainer hl)"
      using k less.prems(1) by linarith
    then show ?thesis
    proof cases
      case inside
      then have "hl_advance hl (i, k) = Some (i, k + 1)" using less.prems(1) n(3) k by (simp add: hl_advance_def)
      moreover have "hl_collect hl (i, k + 1) = (if mCurrentIdx hl < n \<or> (i, k + 1) = hl_end hl then Some (drop (i * n + (k + 1)) (hl_abs n hl)) else None)"
        using inside before less.prems(1) by (intro less.hyps) simp_all
      moreover have "(i, k + 1) = hl_end hl \<Longrightarrow> mCurrentIdx hl < n" using inside by (simp add: hl_end_def)
      ultimately show ?thesis using go drop False by auto
    next
      case edge
      then have "hl_advance hl (i, k) = Some (i + 1, 0)" using less.prems(1) n(3) k by (simp add: hl_advance_def)
      moreover have "hl_collect hl (i + 1, 0) = (if mCurrentIdx hl < n \<or> (i + 1, 0) = hl_end hl then Some (drop ((i + 1) * n + 0) (hl_abs n hl)) else None)"
        using edge before n(1) by (intro less.hyps) (simp_all add: algebra_simps)
      moreover have "(i + 1, 0) \<noteq> hl_end hl" using edge ok by (auto simp: hl_end_def hl_ok_def)
      moreover have "(i + 1) * n + 0 = i * n + Suc k" using edge(1) by (simp add: algebra_simps)
      ultimately show ?thesis using go False unfolding drop by (auto simp: ac_simps)
    next
      case last
      then have "hl_advance hl (i, k) = None" using n(3) k by (simp add: hl_advance_def)
      moreover have "length (mContainer hl) - 1 = i" using last by simp
      then have "\<not> mCurrentIdx hl < n" using before last(1) unfolding hl_size_def by simp
      ultimately show ?thesis using go False by simp
    qed
  qed
qed

fun emplace_all :: "nat \<Rightarrow> 'a \<Rightarrow> 'a list \<Rightarrow> 'a HybridList \<Rightarrow> 'a HybridList" where
  "emplace_all n v0 [] hl = hl"
| "emplace_all n v0 (v # vs) hl = emplace_all n v0 vs (emplace_back n v0 v hl)"

lemma emplace_all_refines: "hl_ok n hl \<Longrightarrow> hl_ok n (emplace_all n v0 vs hl) \<and> hl_abs n (emplace_all n v0 vs hl) = hl_abs n hl @ vs"
  by (induction vs arbitrary: hl) (auto simp: emplace_back_refines)

text \<open>
  A container to which elements are appended holds them in order; a loop over it returns exactly these elements, unless the last block is completely
  full (their number is a positive multiple of the block size): then advancing past the last element leaves the container.
\<close>
theorem hybrid_list_iteration:
  assumes "0 < n"
  shows "hl_collect (emplace_all n v0 vs (HybridList_new n v0)) (hl_begin (emplace_all n v0 vs (HybridList_new n v0))) =
    (if vs = [] \<or> length vs mod n \<noteq> 0 then Some vs else None)"
proof -
  let ?hl = "emplace_all n v0 vs (HybridList_new n v0)"
  have "hl_ok n (HybridList_new n v0)" "hl_abs n (HybridList_new n v0) = []" using assms by (auto simp: hl_ok_def HybridList_new_def hl_abs_def)
  from emplace_all_refines [OF this(1), of v0 vs] this(2) have ok: "hl_ok n ?hl" and abs: "hl_abs n ?hl = vs" by simp_all
  have size: "length vs = (length (mContainer ?hl) - 1) * n + mCurrentIdx ?hl" using hl_abs_length [OF ok] abs by (simp add: hl_size_def)
  have idx: "mCurrentIdx ?hl \<le> n" "mCurrentIdx ?hl = 0 \<Longrightarrow> length (mContainer ?hl) = 1" "mContainer ?hl \<noteq> []" using ok by (auto simp: hl_ok_def)
  have "(mCurrentIdx ?hl < n \<or> (0, 0) = hl_end ?hl) \<longleftrightarrow> vs = [] \<or> length vs mod n \<noteq> 0"
  proof (cases "mCurrentIdx ?hl = n")
    case True
    then show ?thesis using size assms by (auto simp: hl_end_def)
  next
    case False
    then have "length vs mod n = mCurrentIdx ?hl" using size idx(1) by simp
    then show ?thesis using False idx size by auto
  qed
  moreover have "hl_collect ?hl (0, 0) = (if mCurrentIdx ?hl < n \<or> (0, 0) = hl_end ?hl then Some (drop (0 * n + 0) (hl_abs n ?hl)) else None)"
    using assms idx(3) by (intro collect_from [OF ok]) simp_all
  ultimately show ?thesis by (simp add: abs hl_begin_def)
qed

theorem hybrid_list_iteration_witness:
  "hl_collect (emplace_all 2 0 [1, 2, 3 :: nat] (HybridList_new 2 0)) (0, 0) = Some [1, 2, 3] \<and>
   hl_collect (emplace_all 2 0 [1, 2, 3, 4 :: nat] (HybridList_new 2 0)) (0, 0) = None"
  using hybrid_list_iteration [of 2 "0 :: nat" "[1, 2, 3]"] hybrid_list_iteration [of 2 "0 :: nat" "[1, 2, 3, 4]"] by (simp add: hl_begin_def)

end
