(* ===== verification/Endian.thy ===== *)
theory Endian
  imports VP_Prelude
begin

text \<open>
  Values as bytes: the helpers of \<open>core/include/core/EndianHelper.hpp\<close>. The code reads and writes values through pointers to bytes, on a host that stores the
  least significant byte first; that the host is such a machine is fixed here. Template parameters are arguments; a type \<open>T\<close> is given by its size \<open>k\<close>, its
  values by 64-bit words below \<open>2 ^ (8 * k)\<close>.
\<close>

section \<open>Bytes in memory\<close>

definition le_bytes :: "nat \<Rightarrow> u64 \<Rightarrow> u8 list" where
  "le_bytes k v = map (\<lambda>i. ucast (drop_bit (8 * i) v)) [0..<k]"

fun le_word :: "u8 list \<Rightarrow> u64" where
  "le_word [] = 0"
| "le_word (b # bs) = ucast b OR push_bit 8 (le_word bs)"

section \<open>The helpers\<close>

definition IssValToByteArray :: "bool \<Rightarrow> u64 \<Rightarrow> nat \<Rightarrow> u64 option" where
  "IssValToByteArray IsIssBigEndian Val NumBytes =
     (if IsIssBigEndian
      then do { _ \<leftarrow> cassert (NumBytes \<le> 8); Some (le_word (take NumBytes (drop (8 - NumBytes) (le_bytes 8 Val)) @ replicate (8 - NumBytes) 0)) }
      else Some Val)"

definition ByteArrayToIssVal :: "bool \<Rightarrow> u8 list \<Rightarrow> nat \<Rightarrow> u64 option" where
  "ByteArrayToIssVal IsIssBigEndian TabVal NumBytes =
     do {
       _ \<leftarrow> cassert (NumBytes \<le> 8 \<and> NumBytes \<le> length TabVal);
       Some (if IsIssBigEndian then le_word (replicate (8 - NumBytes) 0 @ take NumBytes TabVal)
             else le_word (take NumBytes TabVal @ replicate (8 - NumBytes) 0))
     }"

text \<open>The byte swaps of the C library.\<close>

definition bswap :: "nat \<Rightarrow> u64 \<Rightarrow> u64" where
  "bswap k v = le_word (rev (le_bytes k v))"

text \<open>A size without a swap that is not above eight leaves the function without a result.\<close>

definition swapped :: "nat \<Rightarrow> u64 \<Rightarrow> u64 option" where
  "swapped k v = (if k = 1 then Some v else if k = 2 \<or> k = 4 \<or> k = 8 then Some (bswap k v) else None)"

definition GuestToHost :: "nat \<Rightarrow> bool \<Rightarrow> bool \<Rightarrow> u8 list \<Rightarrow> nat \<Rightarrow> u64 option" where
  "GuestToHost k IsGuestBigEndian IsHostBigEndian TabVal NumBytes =
     do {
       _ \<leftarrow> cassert (NumBytes = k \<and> k \<le> 8 \<and> k \<le> length TabVal);
       let tmpVal = le_word (take k TabVal);
       if IsGuestBigEndian = IsHostBigEndian then Some tmpVal else swapped k tmpVal
     }"

definition HostToGuest :: "nat \<Rightarrow> bool \<Rightarrow> bool \<Rightarrow> u64 \<Rightarrow> nat \<Rightarrow> u8 list option" where
  "HostToGuest k IsGuestBigEndian IsHostBigEndian Val NumBytes =
     do {
       _ \<leftarrow> cassert (NumBytes = k \<and> k \<le> 8);
       TmpVal \<leftarrow> (if IsGuestBigEndian = IsHostBigEndian then Some Val else swapped k Val);
       Some (le_bytes k TmpVal)
     }"

section \<open>Bytes and words\<close>

lemma le_bytes_length [simp]: "length (le_bytes k v) = k"
  by (simp add: le_bytes_def)

lemma le_bytes_Suc: "le_bytes (Suc k) v = ucast v # le_bytes k (drop_bit 8 v)"
proof -
  have "[0..<Suc k] = 0 # map Suc [0..<k]" by (simp add: upt_conv_Cons map_Suc_upt del: upt_Suc)
  then show ?thesis by (simp add: le_bytes_def comp_def drop_bit_drop_bit add.commute del: upt_Suc)
qed

lemma bit_le_word: "bit (le_word bs) i \<longleftrightarrow> i < 64 \<and> i div 8 < length bs \<and> bit (bs ! (i div 8)) (i mod 8)"
proof (induction bs arbitrary: i)
  case (Cons b bs)
  show ?case
  proof (cases "i < 8")
    case True
    then show ?thesis by (auto simp: bit_or_iff bit_push_bit_iff bit_ucast_iff)
  next
    case False
    then obtain j where j: "i = j + 8" using le_Suc_ex by (metis add.commute not_less)
    have "bit (ucast b :: u64) i = False" using False by (auto simp: bit_ucast_iff dest: bit_imp_le_length)
    moreover have "(j + 8) div 8 = Suc (j div 8)" "(j + 8) mod 8 = j mod 8" by simp_all
    ultimately show ?thesis using j Cons.IH [of j] by (auto simp: bit_or_iff bit_push_bit_iff)
  qed
qed simp

lemma le_word_bytes: "k \<le> 8 \<Longrightarrow> le_word (le_bytes k v) = take_bit (8 * k) v"
proof (rule bit_word_eqI)
  fix i assume k: "k \<le> 8" and i: "i < LENGTH(64)"
  show "bit (le_word (le_bytes k v)) i \<longleftrightarrow> bit (take_bit (8 * k) v) i"
  proof (cases "i div 8 < k")
    case True
    then have "i < 8 * k" by (simp add: less_mult_imp_div_less mult.commute div_less_iff_less_mult)
    then show ?thesis using True i
      by (simp add: bit_le_word le_bytes_def bit_ucast_iff bit_drop_bit_eq bit_take_bit_iff)
  next
    case False
    then have "\<not> i < 8 * k" by (metis less_mult_imp_div_less mult.commute)
    then show ?thesis using False by (simp add: bit_le_word bit_take_bit_iff)
  qed
qed

lemma le_bytes_word: "length bs \<le> 8 \<Longrightarrow> le_bytes (length bs) (le_word bs) = bs"
proof (rule nth_equalityI)
  fix i assume bs: "length bs \<le> 8" and i: "i < length (le_bytes (length bs) (le_word bs))"
  then have i: "i < length bs" by simp
  have "ucast (drop_bit (8 * i) (le_word bs)) = bs ! i"
  proof (rule bit_word_eqI)
    fix j assume j: "j < LENGTH(8)"
    have "(8 * i + j) div 8 = i" "(8 * i + j) mod 8 = j" "8 * i + j < 64" using j i bs by auto
    then show "bit (ucast (drop_bit (8 * i) (le_word bs)) :: u8) j = bit (bs ! i) j"
      using i j by (simp add: bit_ucast_iff bit_drop_bit_eq bit_le_word)
  qed
  then show "le_bytes (length bs) (le_word bs) ! i = bs ! i" using i by (simp add: le_bytes_def)
qed simp

lemma bswap_twice: "k \<le> 8 \<Longrightarrow> bswap k (bswap k v) = take_bit (8 * k) v"
  using le_bytes_word [of "rev (le_bytes k v)"] le_word_bytes [of k v] by (simp add: bswap_def)

lemma le_bytes_bswap: "k \<le> 8 \<Longrightarrow> le_bytes k (bswap k v) = rev (le_bytes k v)"
  using le_bytes_word [of "rev (le_bytes k v)"] by (simp add: bswap_def)

section \<open>Properties\<close>

text \<open>
  C34: For values of one, two, four and eight bytes, and for every combination of the byte orders of guest and host, reading a value from guest memory and
  writing it back gives the same bytes; the value read is the number the bytes stand for in the order of the guest, as far as the flags name the host rightly: equal flags
  read the bytes in the order of the host, different ones in the reverse order.
\<close>
theorem guest_host_round_trip:
  assumes "length bs = k" "k \<in> {1, 2, 4, 8}"
  shows "\<exists>v. GuestToHost k g h bs k = Some v \<and> v = le_word (if g = h then bs else rev bs) \<and> HostToGuest k g h v k = Some bs"
proof (cases "g = h \<or> k = 1")
  case True
  have "le_bytes k (le_word bs) = bs" using le_bytes_word [of bs] assms by auto
  moreover have "rev bs = bs" if "k = 1" using assms(1) that by (cases bs) auto
  ultimately show ?thesis using True assms by (auto simp: GuestToHost_def HostToGuest_def swapped_def Let_def)
next
  case False
  then have sizes: "k = 2 \<or> k = 4 \<or> k = 8" using assms(2) by auto
  have bytes: "le_bytes k (le_word bs) = bs" "le_bytes k (le_word (rev bs)) = rev bs"
    using le_bytes_word [of bs] le_bytes_word [of "rev bs"] assms by auto
  then have swap: "bswap k (le_word bs) = le_word (rev bs)" "le_bytes k (bswap k (le_word (rev bs))) = bs"
    using le_bytes_bswap [of k "le_word (rev bs)"] sizes by (auto simp: bswap_def)
  then have "swapped k (le_word bs) = Some (le_word (rev bs))" "swapped k (le_word (rev bs)) = Some (bswap k (le_word (rev bs)))"
    using sizes False by (auto simp: swapped_def)
  then show ?thesis using False sizes assms(1) swap(2) by (auto simp: GuestToHost_def HostToGuest_def Let_def)
qed

theorem guest_host_round_trip_witness:
  "\<exists>v. GuestToHost 4 True False [0x12, 0x34, 0x56, 0x78] 4 = Some v \<and> v = 0x12345678 \<and> HostToGuest 4 True False v 4 = Some [0x12, 0x34, 0x56, 0x78]"
proof -
  have "le_word (rev [0x12, 0x34, 0x56, 0x78]) = 0x12345678" by simp
  then show ?thesis using guest_host_round_trip [of "[0x12, 0x34, 0x56, 0x78]" 4 True False] by simp
qed

text \<open>
  Passing a value of an instruction-set simulator through a byte array keeps the least significant bytes of the access for a little-endian
  simulator. For a big-endian one it keeps the most significant bytes of the 64-bit word instead.
\<close>
theorem iss_value_round_trip:
  assumes "n \<le> 8"
  shows "\<exists>t. IssValToByteArray big v n = Some t \<and>
    ByteArrayToIssVal big (le_bytes 8 t) n = Some (if big then push_bit (64 - 8 * n) (drop_bit (64 - 8 * n) v) else take_bit (8 * n) v)"
proof -
  have take: "le_word (take n (le_bytes 8 w) @ replicate (8 - n) 0) = take_bit (8 * n) w" for w
  proof (rule bit_word_eqI)
    fix i assume i: "i < LENGTH(64)"
    then have "i div 8 < 8" by (simp add: less_mult_imp_div_less)
    moreover have "i div 8 < n \<longleftrightarrow> i < 8 * n" by (auto simp: div_less_iff_less_mult mult.commute)
    ultimately show "bit (le_word (take n (le_bytes 8 w) @ replicate (8 - n) 0)) i = bit (take_bit (8 * n) w) i" using i assms
      by (auto simp: bit_le_word nth_append le_bytes_def bit_ucast_iff bit_drop_bit_eq bit_take_bit_iff)
  qed
  show ?thesis
  proof (cases big)
    case False
    then show ?thesis using assms take by (simp add: IssValToByteArray_def ByteArrayToIssVal_def)
  next
    case True
    let ?top = "take n (drop (8 - n) (le_bytes 8 v))" and ?t = "le_word (take n (drop (8 - n) (le_bytes 8 v)) @ replicate (8 - n) 0)"
    have len: "length ?top = n" using assms by simp
    have "take n (le_bytes 8 ?t) = ?top" using le_bytes_word [of "?top @ replicate (8 - n) 0"] len assms by simp
    moreover have "le_word (replicate (8 - n) 0 @ ?top) = push_bit (64 - 8 * n) (drop_bit (64 - 8 * n) v)"
    proof (rule bit_word_eqI)
      fix i assume i: "i < LENGTH(64)"
      then have "i div 8 < 8" by (simp add: less_mult_imp_div_less)
      moreover have "8 - n \<le> i div 8 \<longleftrightarrow> 64 - 8 * n \<le> i" using assms by linarith
      ultimately show "bit (le_word (replicate (8 - n) 0 @ ?top)) i = bit (push_bit (64 - 8 * n) (drop_bit (64 - 8 * n) v)) i" using i assms
        by (auto simp: bit_le_word nth_append le_bytes_def bit_ucast_iff bit_drop_bit_eq bit_push_bit_iff)
    qed
    ultimately show ?thesis using True assms by (simp add: IssValToByteArray_def ByteArrayToIssVal_def)
  qed
qed

theorem iss_value_round_trip_witness:
  "(2 :: nat) \<le> 8 \<and> (\<exists>t. IssValToByteArray False 0x1122334455667788 2 = Some t \<and> ByteArrayToIssVal False (le_bytes 8 t) 2 = Some 0x7788) \<and>
   (\<exists>t. IssValToByteArray True 0x1122334455667788 2 = Some t \<and> ByteArrayToIssVal True (le_bytes 8 t) 2 = Some 0x1122000000000000)"
  using iss_value_round_trip [of 2 False "0x1122334455667788"] iss_value_round_trip [of 2 True "0x1122334455667788"] by simp

end
