(* ===== verification/InterruptLines.thy ===== *)
theory InterruptLines
  imports Endian BusTarget
begin

text \<open>
  Interrupt lines outside the interrupt controller: sources that raise and lower a line of their parent (\<open>components/peripherals/InterruptSource.cpp\<close>), and the
  memory-mapped controller that maps ranges of addresses to lines of modules (\<open>ItCtrl.cpp\<close>). The modules behind the lines are an argument: what
  \<open>update_irq\<close> of module \<open>i\<close> does to the state behind all of them.
\<close>

section \<open>Interrupt sources\<close>

record 'i InterruptSource =
  mInterruptParent :: "'i option"
  mInterruptLine :: u32

definition InterruptSource_new :: "'i InterruptSource" where
  "InterruptSource_new = \<lparr>mInterruptParent = None, mInterruptLine = 0\<rparr>"

definition setInterruptParent :: "'i \<Rightarrow> 'i InterruptSource \<Rightarrow> 'i InterruptSource" where
  "setInterruptParent parent s = s\<lparr>mInterruptParent := Some parent\<rparr>"

definition setInterruptLine :: "u32 \<Rightarrow> 'i InterruptSource \<Rightarrow> 'i InterruptSource" where
  "setInterruptLine index s = s\<lparr>mInterruptLine := index\<rparr>"

definition raiseInterrupt :: "('i \<Rightarrow> u64 \<Rightarrow> u32 \<Rightarrow> 'w \<Rightarrow> 'w option) \<Rightarrow> 'i InterruptSource \<Rightarrow> 'w \<Rightarrow> 'w option" where
  "raiseInterrupt update_irq s w = (case mInterruptParent s of None \<Rightarrow> Some w | Some p \<Rightarrow> update_irq p 1 (mInterruptLine s) w)"

definition lowerInterrupt :: "('i \<Rightarrow> u64 \<Rightarrow> u32 \<Rightarrow> 'w \<Rightarrow> 'w option) \<Rightarrow> 'i InterruptSource \<Rightarrow> 'w \<Rightarrow> 'w option" where
  "lowerInterrupt update_irq s w = (case mInterruptParent s of None \<Rightarrow> Some w | Some p \<Rightarrow> update_irq p 0 (mInterruptLine s) w)"

section \<open>The memory-mapped controller\<close>

record ('i, 'w) ItCtrl = TargetIf +
  mLineCount :: u32
  mLineSize :: u32
  mLines :: "u32 list"
  mModules :: "'i option list"
  it_world :: 'w

text \<open>The product of the constructor is taken in 32 bits.\<close>

definition ItCtrl_new :: "(nat \<Rightarrow> u8) \<Rightarrow> 'w \<Rightarrow> u32 \<Rightarrow> u32 \<Rightarrow> ('i, 'w) ItCtrl option" where
  "ItCtrl_new fresh w LineCount LineSize =
     map_option (\<lambda>t. TargetIf.extend (setDmiEnable False t)
         (ItCtrl.fields LineCount LineSize (replicate (unat LineCount) 0) (replicate (unat LineCount) None) w))
       (TargetIf_new fresh (ucast (LineCount * LineSize)) False False)"

text \<open>A line beyond the last one is reported, and then written all the same.\<close>

definition it_Map :: "u32 \<Rightarrow> 'i \<Rightarrow> u32 \<Rightarrow> ('i, 'w) ItCtrl \<Rightarrow> ('i, 'w) ItCtrl option" where
  "it_Map LineIdx Module LineNumber c =
     do {
       _ \<leftarrow> cassert (unat LineIdx < length (mModules c) \<and> unat LineIdx < length (mLines c));
       Some (c\<lparr>mLines := (mLines c)[unat LineIdx := LineNumber], mModules := (mModules c)[unat LineIdx := Some Module]\<rparr>)
     }"

definition it_delay :: "int \<Rightarrow> payload_t \<Rightarrow> ('i, 'w) ItCtrl \<Rightarrow> u64 \<Rightarrow> u64" where
  "it_delay cycles p c delay =
     (if mEnableLatency c
      then delay + ucast (of_int (mInitialCyclesPerAccess c + cycles) * (len p div 4)) * mCycleDuration c
      else delay)"

text \<open>Reading throws.\<close>

definition it_read :: "('i, 'w, unit) ItCtrl_ext callback" where
  "it_read p delay c = None"

definition it_write :: "('i \<Rightarrow> u64 \<Rightarrow> u32 \<Rightarrow> 'w \<Rightarrow> 'w option) \<Rightarrow> ('i, 'w, unit) ItCtrl_ext callback" where
  "it_write update_irq p delay c =
     do {
       let delay = it_delay (mCyclesPerWrite c) p c delay;
       _ \<leftarrow> cassert (mLineSize c \<noteq> 0);
       let TargetLine = unat (ucast ((addr p - mBaseAddress (mSpace c)) div ucast (mLineSize c)) :: u32);
       data \<leftarrow> ptr p;
       v \<leftarrow> GuestToHost 4 True True data (unat (len p));
       _ \<leftarrow> cassert (TargetLine < length (mModules c) \<and> TargetLine < length (mLines c));
       m \<leftarrow> mModules c ! TargetLine;
       w \<leftarrow> update_irq m v (mLines c ! TargetLine) (it_world c);
       Some (TLM_OK_RESPONSE, p, delay, c\<lparr>it_world := w\<rparr>)
     }"

definition it_b_transport ::
  "('i \<Rightarrow> u64 \<Rightarrow> u32 \<Rightarrow> 'w \<Rightarrow> 'w option) \<Rightarrow> generic_payload \<Rightarrow> u64 \<Rightarrow> ('i, 'w) ItCtrl \<Rightarrow> (generic_payload \<times> u64 \<times> ('i, 'w) ItCtrl) option" where
  "it_b_transport update_irq tr delay c = target_b_transport (Some it_read) (Some (it_write update_irq)) tr delay c"

section \<open>Properties\<close>

text \<open>A controller at a base address: the ranges of its lines fit below the end of the address space.\<close>

definition it_ok :: "('i, 'w) ItCtrl \<Rightarrow> bool" where
  "it_ok c \<longleftrightarrow> mLineSize c \<noteq> 0 \<and> length (mModules c) = unat (mLineCount c) \<and> length (mLines c) = unat (mLineCount c) \<and>
     size_of c = Some (ucast (mLineCount c * mLineSize c) + 1) \<and> unat (mLineCount c) * unat (mLineSize c) < 2 ^ 32 \<and>
     unat (mBaseAddress (mSpace c)) + unat (mLineCount c) * unat (mLineSize c) + 1 < 2 ^ 64"

lemma ItCtrl_new_ok:
  assumes "ItCtrl_new fresh w LineCount LineSize = Some c" "LineSize \<noteq> 0" "unat LineCount * unat LineSize < 2 ^ 32"
    "unat b + unat LineCount * unat LineSize + 1 < 2 ^ 64"
  shows "it_ok (setTargetBaseAddress b c)" "it_world (setTargetBaseAddress b c) = w" "mBaseAddress (mSpace (setTargetBaseAddress b c)) = b"
    "mLineCount (setTargetBaseAddress b c) = LineCount" "mLineSize (setTargetBaseAddress b c) = LineSize" "\<not> mByteEnable (setTargetBaseAddress b c)"
proof -
  let ?n = "ucast (LineCount * LineSize) :: u64"
  have n: "unat ?n = unat LineCount * unat LineSize" using assms(3) by (simp add: unat_word_ariths)
  have f: "mSpace c = \<lparr>mBaseAddress = 0, mEndAddress = ?n\<rparr>" "mLineCount c = LineCount" "mLineSize c = LineSize" "\<not> mByteEnable c" "it_world c = w"
    "mModules c = replicate (unat LineCount) None" "mLines c = replicate (unat LineCount) 0"
    using assms(1) by (auto simp: ItCtrl_new_def TargetIf_new_def AddrSpace_of_size_def setDmiEnable_def TargetIf.defs ItCtrl.defs osimps)
  have "?n \<noteq> 0xffffffffffffffff" using n assms(3) by (auto simp: word_unat_eq_iff)
  then have "\<not> (b = 0 \<and> ?n + b = 0xffffffffffffffff)" by auto
  then have "size_of (setTargetBaseAddress b c) = Some (?n + 1)"
    using f(1) by (simp add: size_of_def setTargetBaseAddress_def setBaseAddress_def getSize_def)
  then show "it_ok (setTargetBaseAddress b c)" using f assms
    by (simp add: it_ok_def setTargetBaseAddress_def setBaseAddress_def)
  show "it_world (setTargetBaseAddress b c) = w" "mBaseAddress (mSpace (setTargetBaseAddress b c)) = b"
    "mLineCount (setTargetBaseAddress b c) = LineCount" "mLineSize (setTargetBaseAddress b c) = LineSize" "\<not> mByteEnable (setTargetBaseAddress b c)"
    using f by (simp_all add: setTargetBaseAddress_def setBaseAddress_def)
qed

text \<open>
  A write of four bytes to an address of the range of line \<open>i\<close> calls the module mapped to that line, with the value of the bytes and the line number the
  mapping gives, and nothing else; the access is answered positively. A line without a module is a null pointer.
\<close>
theorem line_write_reaches_module:
  assumes "it_ok c" "i < mLineCount c" "off < mLineSize c" "unat off + 4 \<le> unat (mLineSize c)"
    "gp_command tr = TLM_WRITE_COMMAND" "gp_address tr = mBaseAddress (mSpace c) + ucast i * ucast (mLineSize c) + ucast off"
    "gp_length tr = 4" "gp_data tr = Some bs" "length bs = 4" "\<not> gp_byte_enable_ptr tr" "gp_byte_enable_length tr = 0"
  shows "map_option (\<lambda>(tr', delay', c'). (gp_response tr', it_world c')) (it_b_transport update_irq tr delay c) =
    do { m \<leftarrow> mModules c ! unat i; w \<leftarrow> update_irq m (le_word bs) (mLines c ! unat i) (it_world c); Some (TLM_OK_RESPONSE, w) }"
proof -
  let ?b = "mBaseAddress (mSpace c)" and ?S = "unat (mLineSize c)" and ?N = "unat (mLineCount c)"
  have "Suc (unat i) * ?S \<le> ?N * ?S" using assms(2) by (intro mult_le_mono1) (simp add: wsimps)
  then have top: "unat i * ?S + unat off + 4 \<le> ?N * ?S" using assms(4) by simp
  have fit: "?N * ?S < 2 ^ 32" "unat ?b + ?N * ?S + 1 < 2 ^ 64" "size_of c = Some (ucast (mLineCount c * mLineSize c) + 1)" "mLineSize c \<noteq> 0"
    "length (mModules c) = ?N" "length (mLines c) = ?N" using assms(1) by (auto simp: it_ok_def)
  let ?d = "ucast i * ucast (mLineSize c) + ucast off :: u64" and ?n = "ucast (mLineCount c * mLineSize c) + 1 :: u64"
  have prod: "unat (ucast i * ucast (mLineSize c) :: u64) = unat i * ?S" using top fit(1) by (subst unat_mult_lem [THEN iffD1]) simp_all
  then have d: "unat ?d = unat i * ?S + unat off" using top fit(1) by (subst unat_add_nowrap) simp_all
  have n: "unat ?n = ?N * ?S + 1" using fit(1) by (subst unat_add_nowrap) (simp_all add: unat_word_ariths)
  have a: "gp_address tr = ?b + ?d" using assms(6) by (simp add: add.assoc)
  then have ua: "unat (gp_address tr) = unat ?b + (unat i * ?S + unat off)" using d top fit(2) by (subst a, subst unat_add_nowrap) simp_all
  have "unat (gp_address tr + 4) = unat (gp_address tr) + 4" using ua top fit(2) by (subst unat_add_nowrap) simp_all
  moreover have "unat (?b + ?n) = unat ?b + (?N * ?S + 1)" using n fit(2) by (subst unat_add_nowrap) simp_all
  ultimately have err: "access_error (payload_of tr) ?n c = None" using ua n top assms(5,7,10,11)
    by (simp add: access_error_def payload_of_def wsimps)
  have "unat (?d div ucast (mLineSize c)) = unat i" using d assms(3) by (simp add: unat_div wsimps)
  then have line: "unat (ucast (?d div ucast (mLineSize c)) :: u32) = unat i"
    using unat_bound [of i] by (simp add: unsigned_ucast_eq take_bit_nat_eq_self)
  have i: "unat i < ?N" using assms(2) by (simp add: wsimps)
  have v: "GuestToHost 4 True True bs 4 = Some (le_word bs)" using assms(9) by (simp add: GuestToHost_def)
  show ?thesis using fit(3-6) err line i v a assms(5,7,8)
    by (cases "mModules c ! unat i"; cases "update_irq (the (mModules c ! unat i)) (le_word bs) (mLines c ! unat i) (it_world c)")
      (simp_all add: it_b_transport_def target_b_transport_def CoreFunction_def AccessFunction_def it_write_def payload_of_def Let_def)
qed

definition sample_lines :: "(nat, (nat \<times> u32 \<times> u64) list) ItCtrl option" where
  "sample_lines = do { c \<leftarrow> ItCtrl_new (\<lambda>_. 0) [] 4 16; it_Map 2 7 33 (setTargetBaseAddress 0x100 c) }"

definition line_write :: "u64 \<Rightarrow> u8 list \<Rightarrow> generic_payload" where
  "line_write a bs = \<lparr>gp_command = TLM_WRITE_COMMAND, gp_address = a, gp_data = Some bs, gp_length = of_nat (length bs), gp_byte_enable_ptr = False,
     gp_byte_enable_length = 0, gp_response = TLM_INCOMPLETE_RESPONSE, gp_dmi_allowed = False, gp_min_payload = False, gp_source = None, gp_gic = None\<rparr>"

theorem line_write_reaches_module_witness:
  "\<exists>c. sample_lines = Some c \<and>
    map_option (\<lambda>(tr', delay', c'). (gp_response tr', it_world c')) (it_b_transport (\<lambda>m v k w. Some (w @ [(m, k, v)])) (line_write 0x124 [1, 0, 0, 0]) 0 c) =
    Some (TLM_OK_RESPONSE, [(7, 33, 1)])"
proof -
  obtain c0 :: "(nat, (nat \<times> u32 \<times> u64) list) ItCtrl" where c0: "ItCtrl_new (\<lambda>_. 0) [] 4 16 = Some c0"
    by (simp add: ItCtrl_new_def TargetIf_new_def size_of_def getSize_def AddrSpace_of_size_def)
  note ok = ItCtrl_new_ok [where b = "0x100", OF c0, simplified]
  define c1 where "c1 = setTargetBaseAddress 0x100 c0"
  define c where "c = c1\<lparr>mLines := (mLines c1)[2 := 33], mModules := (mModules c1)[2 := Some 7]\<rparr>"
  have len: "length (mModules c1) = 4" "length (mLines c1) = 4" using ok(1,4) by (auto simp: it_ok_def c1_def)
  then have c: "sample_lines = Some c" by (simp add: sample_lines_def c0 it_Map_def c_def c1_def [symmetric])
  have "it_ok c" "mLineCount c = 4" "mLineSize c = 16" "mBaseAddress (mSpace c) = 0x100" "it_world c = []" "mModules c ! 2 = Some 7" "mLines c ! 2 = 33"
    using ok len by (auto simp: it_ok_def size_of_def c_def c1_def)
  then show ?thesis using c line_write_reaches_module [of c 2 4 "line_write 0x124 [1, 0, 0, 0]" "[1, 0, 0, 0]" "\<lambda>m v k w. Some (w @ [(m, k, v)])" 0]
    by (intro exI [of _ c]) (simp add: line_write_def wsimps)
qed

end
