(* ===== verification/SerialPorts.thy ===== *)
theory SerialPorts
  imports InterruptLines
begin

text \<open>
  The serial ports (\<open>components/peripherals/CommonUartInterface.cpp\<close>, \<open>xuartps.cpp\<close>, \<open>xuartps.hpp\<close> with the register macros of \<open>reg\<close>, \<open>PL011Uart.cpp\<close>,
  \<open>uart.cpp\<close>). The channel of a port is a pair of byte streams: what has arrived and not been read, and what has been written. The interrupt parent is a function on the
  state behind it. Reading an empty stream blocks and is \<open>None\<close>, as is an exception.
\<close>

section \<open>What the ports share\<close>

record ('i, 'w) CommonUart =
  mIntEnable :: bool
  mOutIntEnable :: bool
  mInterrupting :: bool
  mOutInt :: bool
  mHasTimeout :: bool
  mTimeoutCounter :: u32
  mToIntEnable :: bool
  mSource :: "'i InterruptSource"
  chan_in :: "u8 list"
  chan_out :: "u8 list"
  uart_world :: 'w

definition CommonUart_new :: "'w \<Rightarrow> ('i, 'w) CommonUart" where
  "CommonUart_new w = \<lparr>mIntEnable = False, mOutIntEnable = False, mInterrupting = False, mOutInt = True, mHasTimeout = False, mTimeoutCounter = 0,
     mToIntEnable = False, mSource = InterruptSource_new, chan_in = [], chan_out = [], uart_world = w\<rparr>"

definition common_writeByte :: "u8 \<Rightarrow> ('i, 'w) CommonUart \<Rightarrow> ('i, 'w) CommonUart" where
  "common_writeByte c u = u\<lparr>chan_out := chan_out u @ [c]\<rparr>"

definition common_readByte :: "('i, 'w) CommonUart \<Rightarrow> (u8 \<times> ('i, 'w) CommonUart) option" where
  "common_readByte u = (case chan_in u of [] \<Rightarrow> None | c # cs \<Rightarrow> Some (c, u\<lparr>chan_in := cs\<rparr>))"

definition common_inputReady :: "('i, 'w) CommonUart \<Rightarrow> bool" where
  "common_inputReady u \<longleftrightarrow> chan_in u \<noteq> []"

definition uart_raise :: "('i \<Rightarrow> u64 \<Rightarrow> u32 \<Rightarrow> 'w \<Rightarrow> 'w option) \<Rightarrow> ('i, 'w) CommonUart \<Rightarrow> ('i, 'w) CommonUart option" where
  "uart_raise update_irq u = map_option (\<lambda>w. u\<lparr>uart_world := w\<rparr>) (raiseInterrupt update_irq (mSource u) (uart_world u))"

definition uart_lower :: "('i \<Rightarrow> u64 \<Rightarrow> u32 \<Rightarrow> 'w \<Rightarrow> 'w option) \<Rightarrow> ('i, 'w) CommonUart \<Rightarrow> ('i, 'w) CommonUart option" where
  "uart_lower update_irq u = map_option (\<lambda>w. u\<lparr>uart_world := w\<rparr>) (lowerInterrupt update_irq (mSource u) (uart_world u))"

text \<open>
  One round of the thread that polls, after its wait. Whether input is ready is a virtual function that may change the port; it is called only where the
  condition needs it. Without a parent the thread ends, which the flag says.
\<close>

definition interruptLoop ::
  "('i \<Rightarrow> u64 \<Rightarrow> u32 \<Rightarrow> 'w \<Rightarrow> 'w option) \<Rightarrow> ('s \<Rightarrow> bool \<times> 's) \<Rightarrow> ('s \<Rightarrow> ('i, 'w) CommonUart) \<Rightarrow> (('i, 'w) CommonUart \<Rightarrow> 's \<Rightarrow> 's) \<Rightarrow> 's \<Rightarrow> (bool \<times> 's) option" where
  "interruptLoop update_irq inputReady get put s =
     (if mInterruptParent (mSource (get s)) = None then Some (False, s)
      else do {
        let (fire, s) = (if mOutIntEnable (get s) \<and> mOutInt (get s) then (True, s)
                         else if mIntEnable (get s) then inputReady s else (False, s));
        if fire then do {
          u \<leftarrow> uart_raise update_irq (get s);
          Some (True, put (u\<lparr>mInterrupting := True\<rparr>) s)
        }
        else do {
          let (late, s) = (if mHasTimeout (get s) then (let (r, s) = inputReady s in (\<not> r, s)) else (False, s));
          if late then do {
            let u = (get s)\<lparr>mTimeoutCounter := (if mTimeoutCounter (get s) \<noteq> 0 then mTimeoutCounter (get s) - 1 else 0)\<rparr>;
            u \<leftarrow> (if mTimeoutCounter u = 0 \<and> mToIntEnable u then uart_raise update_irq u else Some u);
            Some (True, put u s)
          }
          else do {
            u \<leftarrow> uart_lower update_irq (get s);
            Some (True, put (u\<lparr>mInterrupting := False\<rparr>) s)
          }
        }
      })"

section \<open>Registers in bytes\<close>

definition get64 :: "nat \<Rightarrow> u8 list \<Rightarrow> u64 option" where
  "get64 a mem = map_option le_word (load a 8 mem)"

definition set64 :: "nat \<Rightarrow> u64 \<Rightarrow> u8 list \<Rightarrow> u8 list option" where
  "set64 a v mem = store a (le_bytes 8 v) mem"

definition get32 :: "nat \<Rightarrow> u8 list \<Rightarrow> u32 option" where
  "get32 a mem = map_option (\<lambda>bs. ucast (le_word bs)) (load a 4 mem)"

definition set32 :: "nat \<Rightarrow> u32 \<Rightarrow> u8 list \<Rightarrow> u8 list option" where
  "set32 a v mem = store a (le_bytes 4 (ucast v)) mem"

definition GET_BIT :: "nat \<Rightarrow> nat \<Rightarrow> u8 list \<Rightarrow> bool option" where
  "GET_BIT reg off mem = map_option (\<lambda>w. bit w off) (get64 reg mem)"

definition SET_BIT :: "nat \<Rightarrow> nat \<Rightarrow> bool \<Rightarrow> u8 list \<Rightarrow> u8 list option" where
  "SET_BIT reg off v mem =
     do { w \<leftarrow> get64 reg mem; set64 reg ((w AND NOT (push_bit off 1)) OR push_bit off (of_bool v)) mem }"

section \<open>The Cadence port\<close>

record ('i, 'w) xuartps = TargetIf +
  xu_common :: "('i, 'w) CommonUart"
  mInFifo :: "u8 list"
  mRxEnable :: bool
  mTxEnable :: bool

text \<open>The receive and transmit flags are not initialised.\<close>

definition xuartps_new :: "(nat \<Rightarrow> u8) \<Rightarrow> bool \<Rightarrow> bool \<Rightarrow> 'w \<Rightarrow> ('i, 'w) xuartps option" where
  "xuartps_new fresh rx tx w =
     do {
       t \<leftarrow> TargetIf_new fresh 0x1000 False False;
       mem \<leftarrow> set32 0x18 0x28B (mLocalMem t);
       mem \<leftarrow> set32 0x34 0xF mem;
       Some (TargetIf.extend (t\<lparr>mLocalMem := mem\<rparr>) (xuartps.fields (CommonUart_new w) [] rx tx))
     }"

definition xu_inputReady :: "('i, 'w) xuartps \<Rightarrow> bool \<times> ('i, 'w) xuartps" where
  "xu_inputReady x =
     (let x = x\<lparr>mInFifo := mInFifo x @ chan_in (xu_common x), xu_common := (xu_common x)\<lparr>chan_in := []\<rparr>\<rparr>
      in (mInFifo x \<noteq> [], x))"

definition xu_readByte :: "('i, 'w) xuartps \<Rightarrow> (u8 \<times> ('i, 'w) xuartps) option" where
  "xu_readByte x =
     (let (ready, x) = xu_inputReady x
      in if \<not> ready then None else Some (hd (mInFifo x), x\<lparr>mInFifo := tl (mInFifo x)\<rparr>))"

definition isFifoFull :: "('i, 'w) xuartps \<Rightarrow> bool \<times> ('i, 'w) xuartps" where
  "isFifoFull x = (let (ready, x) = xu_inputReady x in (ready \<and> length (mInFifo x) \<ge> 64, x))"

definition isFifoEmpty :: "('i, 'w) xuartps \<Rightarrow> bool \<times> ('i, 'w) xuartps" where
  "isFifoEmpty x = (let (ready, x) = xu_inputReady x in (\<not> ready, x))"

definition isFifoOver :: "('i, 'w) xuartps \<Rightarrow> (bool \<times> ('i, 'w) xuartps) option" where
  "isFifoOver x =
     do { trigger \<leftarrow> get32 0x20 (mLocalMem x); let (ready, x) = xu_inputReady x; Some (ready \<and> length (mInFifo x) \<ge> unat trigger, x) }"

type_synonym ('i, 'w) reg_section = "payload_t \<times> ('i, 'w) xuartps \<Rightarrow> (payload_t \<times> ('i, 'w) xuartps) option"

definition REG :: "nat \<Rightarrow> u64 \<Rightarrow> ('i, 'w) reg_section \<Rightarrow> ('i, 'w) reg_section" where
  "REG reg offs f s = (if of_nat reg \<le> offs \<and> offs < of_nat reg + 4 then f s else Some s)"

definition REG_READ :: "u64 \<Rightarrow> ('i, 'w) reg_section" where
  "REG_READ offs = (\<lambda>(p, x).
     do {
       data \<leftarrow> ptr p;
       bs \<leftarrow> load (unat offs) (unat (len p)) (mLocalMem x);
       _ \<leftarrow> cassert (unat (len p) \<le> length data);
       Some (p\<lparr>ptr := Some (bs @ drop (unat (len p)) data)\<rparr>, x)
     })"

definition REG_WRITE :: "u64 \<Rightarrow> ('i, 'w) reg_section" where
  "REG_WRITE offs = (\<lambda>(p, x).
     do {
       data \<leftarrow> ptr p;
       _ \<leftarrow> cassert (unat (len p) \<le> length data);
       mem \<leftarrow> store (unat offs) (take (unat (len p)) data) (mLocalMem x);
       Some (p, x\<lparr>mLocalMem := mem\<rparr>)
     })"

definition set_bit_of :: "nat \<Rightarrow> nat \<Rightarrow> bool \<Rightarrow> ('i, 'w) xuartps \<Rightarrow> ('i, 'w) xuartps option" where
  "set_bit_of reg off v x = do { mem \<leftarrow> SET_BIT reg off v (mLocalMem x); Some (x\<lparr>mLocalMem := mem\<rparr>) }"

definition read_CR :: "u64 \<Rightarrow> ('i, 'w) reg_section" where
  "read_CR offs = (\<lambda>(p, x). do { x \<leftarrow> set_bit_of 0x00 0 False x; x \<leftarrow> set_bit_of 0x00 1 False x; REG_READ offs (p, x) })"

definition read_IMR :: "u64 \<Rightarrow> ('i, 'w) reg_section" where
  "read_IMR offs = (\<lambda>(p, x).
     do {
       a \<leftarrow> get32 0x8 (mLocalMem x);
       b \<leftarrow> get32 0xC (mLocalMem x);
       mem \<leftarrow> set32 0x10 (a AND NOT b) (mLocalMem x);
       REG_READ offs (p, x\<lparr>mLocalMem := mem\<rparr>)
     })"

definition read_ISR :: "u64 \<Rightarrow> ('i, 'w) reg_section" where
  "read_ISR offs = (\<lambda>(p, x).
     do {
       x \<leftarrow> set_bit_of 0x14 3 True x;
       let (full, x) = isFifoFull x;
       x \<leftarrow> set_bit_of 0x14 2 full x;
       let (empty, x) = isFifoEmpty x;
       x \<leftarrow> set_bit_of 0x14 0 (\<not> empty) x;
       x \<leftarrow> set_bit_of 0x14 8 (mHasTimeout (xu_common x) \<and> mTimeoutCounter (xu_common x) = 0) x;
       (p, x) \<leftarrow> REG_READ offs (p, x);
       Some (p, x\<lparr>xu_common := (xu_common x)\<lparr>mOutInt := False\<rparr>\<rparr>)
     })"

definition read_FIFO :: "('i, 'w) reg_section" where
  "read_FIFO = (\<lambda>(p, x).
     do {
       (b, x) \<leftarrow> xu_readByte x;
       data \<leftarrow> ptr p;
       _ \<leftarrow> cassert (data \<noteq> []);
       Some (p\<lparr>ptr := Some (data[0 := b])\<rparr>, x)
     })"

definition read_SR :: "u64 \<Rightarrow> ('i, 'w) reg_section" where
  "read_SR offs = (\<lambda>(p, x).
     do {
       x \<leftarrow> set_bit_of 0x2C 3 True x;
       let (full, x) = isFifoFull x;
       x \<leftarrow> set_bit_of 0x2C 2 full x;
       let (empty, x) = isFifoEmpty x;
       x \<leftarrow> set_bit_of 0x2C 1 empty x;
       (over, x) \<leftarrow> isFifoOver x;
       x \<leftarrow> set_bit_of 0x2C 0 over x;
       REG_READ offs (p, x)
     })"

definition xu_read :: "('i, 'w, unit) xuartps_ext callback" where
  "xu_read p delay x =
     do {
       let offs = addr p - mBaseAddress (mSpace x);
       s \<leftarrow> REG 0x00 offs (read_CR offs) (p, x);
       s \<leftarrow> REG 0x04 offs (REG_READ offs) s;
       s \<leftarrow> REG 0x10 offs (read_IMR offs) s;
       s \<leftarrow> REG 0x14 offs (read_ISR offs) s;
       s \<leftarrow> REG 0x30 offs read_FIFO s;
       s \<leftarrow> REG 0x2C offs (read_SR offs) s;
       s \<leftarrow> REG 0x18 offs (REG_READ offs) s;
       (p, x) \<leftarrow> REG 0x34 offs (REG_READ offs) s;
       Some (TLM_OK_RESPONSE, p, delay, x)
     }"

definition when_bit :: "nat \<Rightarrow> nat \<Rightarrow> (('i, 'w) xuartps \<Rightarrow> ('i, 'w) xuartps) \<Rightarrow> ('i, 'w) xuartps \<Rightarrow> ('i, 'w) xuartps option" where
  "when_bit reg off f x = do { b \<leftarrow> GET_BIT reg off (mLocalMem x); Some (if b then f x else x) }"

definition write_CR :: "u64 \<Rightarrow> ('i, 'w) reg_section" where
  "write_CR offs s =
     do {
       (p, x) \<leftarrow> REG_WRITE offs s;
       x \<leftarrow> when_bit 0x00 4 (mTxEnable_update (\<lambda>_. True)) x;
       x \<leftarrow> when_bit 0x00 5 (mTxEnable_update (\<lambda>_. False)) x;
       x \<leftarrow> when_bit 0x00 2 (mRxEnable_update (\<lambda>_. True)) x;
       x \<leftarrow> when_bit 0x00 3 (mRxEnable_update (\<lambda>_. False)) x;
       Some (p, x)
     }"

definition write_RXTOUT :: "u64 \<Rightarrow> ('i, 'w) reg_section" where
  "write_RXTOUT offs s =
     do {
       (p, x) \<leftarrow> REG_WRITE offs s;
       data \<leftarrow> ptr p;
       _ \<leftarrow> cassert (data \<noteq> []);
       let counter = ucast (hd data);
       Some (p, x\<lparr>xu_common := (xu_common x)\<lparr>mTimeoutCounter := counter, mHasTimeout := counter \<noteq> 0\<rparr>\<rparr>)
     }"

definition write_IER :: "u64 \<Rightarrow> ('i, 'w) reg_section" where
  "write_IER offs s =
     do {
       (p, x) \<leftarrow> REG_WRITE offs s;
       x \<leftarrow> when_bit 0x08 3 (\<lambda>x. x\<lparr>xu_common := (xu_common x)\<lparr>mOutIntEnable := True\<rparr>\<rparr>) x;
       x \<leftarrow> when_bit 0x08 0 (\<lambda>x. x\<lparr>xu_common := (xu_common x)\<lparr>mIntEnable := True\<rparr>\<rparr>) x;
       x \<leftarrow> when_bit 0x08 2 (\<lambda>x. x\<lparr>xu_common := (xu_common x)\<lparr>mIntEnable := True\<rparr>\<rparr>) x;
       x \<leftarrow> when_bit 0x08 8 (\<lambda>x. x\<lparr>xu_common := (xu_common x)\<lparr>mToIntEnable := True, mHasTimeout := True\<rparr>\<rparr>) x;
       Some (p, x)
     }"

text \<open>The last test looks at the enable register.\<close>

definition write_IDR :: "u64 \<Rightarrow> ('i, 'w) reg_section" where
  "write_IDR offs s =
     do {
       (p, x) \<leftarrow> REG_WRITE offs s;
       x \<leftarrow> when_bit 0x0C 3 (\<lambda>x. x\<lparr>xu_common := (xu_common x)\<lparr>mOutIntEnable := False\<rparr>\<rparr>) x;
       x \<leftarrow> when_bit 0x0C 0 (\<lambda>x. x\<lparr>xu_common := (xu_common x)\<lparr>mIntEnable := False\<rparr>\<rparr>) x;
       x \<leftarrow> when_bit 0x0C 2 (\<lambda>x. x\<lparr>xu_common := (xu_common x)\<lparr>mIntEnable := False\<rparr>\<rparr>) x;
       x \<leftarrow> when_bit 0x08 8 (\<lambda>x. x\<lparr>xu_common := (xu_common x)\<lparr>mToIntEnable := False, mHasTimeout := False\<rparr>\<rparr>) x;
       Some (p, x)
     }"

definition write_FIFO :: "('i, 'w) reg_section" where
  "write_FIFO = (\<lambda>(p, x).
     do {
       data \<leftarrow> ptr p;
       _ \<leftarrow> cassert (data \<noteq> []);
       Some (p, x\<lparr>xu_common := (common_writeByte (hd data) (xu_common x))\<lparr>mOutInt := True\<rparr>\<rparr>)
     })"

definition xu_write :: "('i, 'w, unit) xuartps_ext callback" where
  "xu_write p delay x =
     do {
       let offs = addr p - mBaseAddress (mSpace x);
       s \<leftarrow> REG 0x00 offs (write_CR offs) (p, x);
       s \<leftarrow> REG 0x04 offs (REG_WRITE offs) s;
       s \<leftarrow> REG 0x20 offs (write_RXTOUT offs) s;
       s \<leftarrow> REG 0x08 offs (write_IER offs) s;
       s \<leftarrow> REG 0x0C offs (write_IDR offs) s;
       s \<leftarrow> REG 0x20 offs (REG_WRITE offs) s;
       s \<leftarrow> REG 0x30 offs write_FIFO s;
       s \<leftarrow> REG 0x18 offs (REG_WRITE offs) s;
       (p, x) \<leftarrow> REG 0x34 offs (REG_WRITE offs) s;
       Some (TLM_OK_RESPONSE, p, delay, x)
     }"

definition xu_b_transport :: "generic_payload \<Rightarrow> u64 \<Rightarrow> ('i, 'w) xuartps \<Rightarrow> (generic_payload \<times> u64 \<times> ('i, 'w) xuartps) option" where
  "xu_b_transport tr delay x = target_b_transport (Some xu_read) (Some xu_write) tr delay x"

definition xu_poll :: "('i \<Rightarrow> u64 \<Rightarrow> u32 \<Rightarrow> 'w \<Rightarrow> 'w option) \<Rightarrow> ('i, 'w) xuartps \<Rightarrow> (bool \<times> ('i, 'w) xuartps) option" where
  "xu_poll update_irq = interruptLoop update_irq xu_inputReady xu_common (\<lambda>u x. x\<lparr>xu_common := u\<rparr>)"

section \<open>The PrimeCell port\<close>

record ('i, 'w) PL011Uart = TargetIf +
  pl_common :: "('i, 'w) CommonUart"
  mRxReady :: u32
  mLocalWords :: "u32 list"

text \<open>The local memory has elements of four bytes, as many as the size of the address space; it is not initialised.\<close>

definition PL011Uart_new :: "(nat \<Rightarrow> u32) \<Rightarrow> 'w \<Rightarrow> ('i, 'w) PL011Uart option" where
  "PL011Uart_new fresh w =
     map_option (\<lambda>t. TargetIf.extend (t\<lparr>mLocalMem := []\<rparr>) (PL011Uart.fields (CommonUart_new w) 0 (map fresh [0..<length (mLocalMem t)])))
       (TargetIf_new (\<lambda>_. 0) 0x1000 False False)"

definition put_word :: "u32 \<Rightarrow> payload_t \<Rightarrow> payload_t option" where
  "put_word v p = do { data \<leftarrow> ptr p; _ \<leftarrow> cassert (4 \<le> length data); Some (p\<lparr>ptr := Some (le_bytes 4 (ucast v) @ drop 4 data)\<rparr>) }"

definition get_word :: "payload_t \<Rightarrow> u32 option" where
  "get_word p = do { data \<leftarrow> ptr p; _ \<leftarrow> cassert (4 \<le> length data); Some (ucast (le_word (take 4 data))) }"

definition note_input :: "('i, 'w) PL011Uart \<Rightarrow> ('i, 'w) PL011Uart" where
  "note_input x = (if common_inputReady (pl_common x) then x\<lparr>mLocalWords := (mLocalWords x)[15 := (mLocalWords x ! 15) OR push_bit 4 1]\<rparr> else x)"

definition pl_read :: "('i, 'w, unit) PL011Uart_ext callback" where
  "pl_read p delay x =
     do {
       let offs = addr p - mBaseAddress (mSpace x);
       (p, x) \<leftarrow>
         (if offs = 0 then do {
            p \<leftarrow> put_word 0 p;
            (c, u) \<leftarrow> common_readByte (pl_common x);
            data \<leftarrow> ptr p;
            Some (p\<lparr>ptr := Some (data[0 := c])\<rparr>, x\<lparr>pl_common := u\<rparr>)
          }
          else if offs = 0x4 then do { p \<leftarrow> put_word 0 p; Some (p, x) }
          else if offs = 0x18 then do {
            let x = x\<lparr>mRxReady := (if \<not> common_inputReady (pl_common x) then push_bit 4 1 else push_bit 6 1)\<rparr>;
            p \<leftarrow> put_word (0x80 OR mRxReady x) p;
            Some (p, x)
          }
          else if offs = 0x3C then Some (p, note_input x)
          else if offs = 0x40 then do {
            let x = note_input x;
            p \<leftarrow> put_word (mLocalWords x ! 15 AND mLocalWords x ! 14) p;
            Some (p, x)
          }
          else do { p \<leftarrow> put_word 0 p; Some (p, x) });
       Some (TLM_OK_RESPONSE, p, delay, x)
     }"

definition pl_write :: "('i, 'w, unit) PL011Uart_ext callback" where
  "pl_write p delay x =
     do {
       let offs = addr p - mBaseAddress (mSpace x);
       x \<leftarrow>
         (if offs = 0 then do {
            data \<leftarrow> ptr p;
            _ \<leftarrow> cassert (data \<noteq> []);
            let u = common_writeByte (hd data) (pl_common x);
            Some (x\<lparr>mLocalWords := (mLocalWords x)[15 := (mLocalWords x ! 15) OR push_bit 5 1],
                    pl_common := (if mOutIntEnable u then u\<lparr>mOutInt := True\<rparr> else u)\<rparr>)
          }
          else if offs = 0x38 then do {
            v \<leftarrow> get_word p;
            let u = (pl_common x)\<lparr>mOutIntEnable := bit v 5, mOutInt := mOutInt (pl_common x) \<or> bit v 5, mIntEnable := bit v 4\<rparr>;
            Some (x\<lparr>mLocalWords := (mLocalWords x)[14 := v], pl_common := u\<rparr>)
          }
          else if offs = 0x44 then do {
            v \<leftarrow> get_word p;
            let raw = (mLocalWords x ! 15) AND NOT v;
            let u = (if \<not> bit raw 5 then (pl_common x)\<lparr>mOutInt := False\<rparr> else pl_common x);
            Some (x\<lparr>mLocalWords := (mLocalWords x)[15 := raw], pl_common := u\<rparr>)
          }
          else Some x);
       Some (TLM_OK_RESPONSE, p, delay, x)
     }"

definition pl_poll :: "('i \<Rightarrow> u64 \<Rightarrow> u32 \<Rightarrow> 'w \<Rightarrow> 'w option) \<Rightarrow> ('i, 'w) PL011Uart \<Rightarrow> (bool \<times> ('i, 'w) PL011Uart) option" where
  "pl_poll update_irq = interruptLoop update_irq (\<lambda>x. (common_inputReady (pl_common x), x)) pl_common (\<lambda>u x. x\<lparr>pl_common := u\<rparr>)"

section \<open>The simple port\<close>

record uart = TargetIf +
  console :: "u8 list"

definition uart_new :: "(nat \<Rightarrow> u8) \<Rightarrow> uart option" where
  "uart_new fresh =
     map_option (\<lambda>t. TargetIf.extend (setDmiEnable False (t\<lparr>mLocalMem := replicate (length (mLocalMem t)) 0\<rparr>)) (uart.fields []))
       (TargetIf_new fresh 0xfff False False)"

text \<open>A read stores the next character, an argument, in the local memory and leaves the payload as it is; a write prints the first byte of the local memory.\<close>

definition uart_read :: "u32 \<Rightarrow> unit uart_ext callback" where
  "uart_read getchar p delay t = do { mem \<leftarrow> set32 4 getchar (mLocalMem t); Some (TLM_OK_RESPONSE, p, delay, t\<lparr>mLocalMem := mem\<rparr>) }"

definition uart_write :: "unit uart_ext callback" where
  "uart_write p delay t =
     do {
       _ \<leftarrow> cassert (ptr p \<noteq> None);
       let delay = (if mEnableLatency t then delay + of_int (mInitialCyclesPerAccess t + mCyclesPerWrite t) * mCycleDuration t else delay);
       _ \<leftarrow> cassert (mLocalMem t \<noteq> []);
       Some (TLM_OK_RESPONSE, p, delay, t\<lparr>console := console t @ [hd (mLocalMem t)]\<rparr>)
     }"

definition uart_b_transport :: "u32 \<Rightarrow> generic_payload \<Rightarrow> u64 \<Rightarrow> uart \<Rightarrow> (generic_payload \<times> u64 \<times> uart) option" where
  "uart_b_transport getchar tr delay t = target_b_transport (Some (uart_read getchar)) (Some uart_write) tr delay t"

section \<open>The streams of the Cadence port\<close>

text \<open>The bytes on their way in, and the bytes written.\<close>

definition stream :: "('i, 'w) xuartps \<Rightarrow> u8 list \<times> u8 list" where
  "stream x = (mInFifo x @ chan_in (xu_common x), chan_out (xu_common x))"

definition keeps :: "('i, 'w) reg_section \<Rightarrow> bool" where
  "keeps f \<longleftrightarrow> (\<forall>p x p' x'. f (p, x) = Some (p', x') \<longrightarrow> stream x' = stream x)"

lemma keepsI: "(\<And>p x p' x'. f (p, x) = Some (p', x') \<Longrightarrow> stream x' = stream x) \<Longrightarrow> keeps f"
  by (simp add: keeps_def)

lemma keeps_stream: "keeps f \<Longrightarrow> f s = Some s' \<Longrightarrow> stream (snd s') = stream (snd s)"
  unfolding keeps_def by (metis prod.collapse)

lemma keeps_REG: "keeps f \<Longrightarrow> keeps (REG r offs f)"
  by (auto simp: keeps_def REG_def split: if_splits)

lemma inputReady_stream: "stream (snd (xu_inputReady x)) = stream x" "fst (xu_inputReady x) \<longleftrightarrow> fst (stream x) \<noteq> []"
  "chan_in (xu_common (snd (xu_inputReady x))) = []" "xu_common (snd (xu_inputReady x)) = (xu_common x)\<lparr>chan_in := []\<rparr>"
  by (auto simp: xu_inputReady_def stream_def Let_def)

lemma fifo_tests_stream [simp]:
  "stream (snd (isFifoFull x)) = stream x" "stream (snd (isFifoEmpty x)) = stream x"
  by (simp_all add: isFifoFull_def isFifoEmpty_def Let_def split_beta inputReady_stream)

lemma isFifoOver_stream: "isFifoOver x = Some (r, x') \<Longrightarrow> stream x' = stream x"
  by (auto simp: isFifoOver_def Let_def split_beta inputReady_stream osimps)

lemma set_bit_of_stream: "set_bit_of reg off v x = Some x' \<Longrightarrow> stream x' = stream x"
  by (auto simp: set_bit_of_def stream_def osimps)

lemma when_bit_stream: "(\<And>x. stream (f x) = stream x) \<Longrightarrow> when_bit reg off f x = Some x' \<Longrightarrow> stream x' = stream x"
  by (auto simp: when_bit_def osimps)

lemma keeps_plain: "keeps (REG_READ offs)" "keeps (REG_WRITE offs)"
  by (auto intro!: keepsI simp: REG_READ_def REG_WRITE_def stream_def osimps)

lemmas stream_facts = isFifoOver_stream set_bit_of_stream keeps_plain [THEN keeps_stream]

lemma keeps_reads: "keeps (read_CR offs)" "keeps (read_IMR offs)" "keeps (read_SR offs)"
proof -
  show "keeps (read_CR offs)" "keeps (read_SR offs)"
    by (auto intro!: keepsI simp: read_CR_def read_SR_def osimps Let_def split_beta dest!: stream_facts)
  show "keeps (read_IMR offs)"
    by (auto intro!: keepsI simp: read_IMR_def osimps dest!: stream_facts) (simp_all add: stream_def)
qed

lemma keeps_read_ISR: "keeps (read_ISR offs)"
proof (rule keepsI)
  fix p x p' x' assume "read_ISR offs (p, x) = Some (p', x')"
  then obtain x1 where "stream x1 = stream x" "x' = x1\<lparr>xu_common := (xu_common x1)\<lparr>mOutInt := False\<rparr>\<rparr>"
    by (auto simp: read_ISR_def osimps Let_def split_beta dest!: stream_facts)
  then show "stream x' = stream x" by (simp add: stream_def)
qed

lemma when_bit_common:
  assumes "when_bit reg off (\<lambda>x. x\<lparr>xu_common := f (xu_common x)\<rparr>) x = Some x'" "\<And>u. chan_in (f u) = chan_in u \<and> chan_out (f u) = chan_out u"
  shows "stream x' = stream x"
  using assms(1) by (rule when_bit_stream [rotated]) (simp add: stream_def assms(2))

lemma keeps_write_CR: "keeps (write_CR offs)"
  by (auto intro!: keepsI simp: write_CR_def osimps dest!: stream_facts when_bit_stream [rotated]) (simp_all add: stream_def)

lemma keeps_write_RXTOUT: "keeps (write_RXTOUT offs)"
  by (auto intro!: keepsI simp: write_RXTOUT_def osimps Let_def dest!: stream_facts) (simp_all add: stream_def)

lemma keeps_write_IER: "keeps (write_IER offs)"
  by (auto intro!: keepsI simp: write_IER_def osimps dest!: stream_facts when_bit_common)

lemma keeps_write_IDR: "keeps (write_IDR offs)"
  by (auto intro!: keepsI simp: write_IDR_def osimps dest!: stream_facts when_bit_common)

definition fifo_access :: "payload_t \<Rightarrow> ('i, 'w) xuartps \<Rightarrow> bool" where
  "fifo_access p x \<longleftrightarrow> 0x30 \<le> addr p - mBaseAddress (mSpace x) \<and> addr p - mBaseAddress (mSpace x) < 0x34"

lemma xu_read_other:
  fixes x :: "('i, 'w) xuartps"
  assumes "xu_read p delay x = Some (rsp, p', delay', x')" "\<not> fifo_access p x"
  shows "stream x' = stream x"
proof -
  let ?o = "addr p - mBaseAddress (mSpace x)"
  have "REG 0x30 ?o read_FIFO s = Some s" for s :: "payload_t \<times> ('i, 'w) xuartps" using assms(2) by (auto simp: REG_def fifo_access_def)
  with assms(1) obtain s1 s2 s3 s4 s5 s6 where
    "REG 0x00 ?o (read_CR ?o) (p, x) = Some s1" "REG 0x04 ?o (REG_READ ?o) s1 = Some s2" "REG 0x10 ?o (read_IMR ?o) s2 = Some s3"
    "REG 0x14 ?o (read_ISR ?o) s3 = Some s4" "REG 0x2C ?o (read_SR ?o) s4 = Some s5" "REG 0x18 ?o (REG_READ ?o) s5 = Some s6"
    "REG 0x34 ?o (REG_READ ?o) s6 = Some (p', x')"
    by (auto simp: xu_read_def Let_def osimps)
  from this [THEN keeps_stream [OF keeps_REG, rotated]] show ?thesis by (simp add: keeps_reads keeps_read_ISR keeps_plain)
qed

lemma REG_elsewhere:
  "fifo_access p x \<Longrightarrow> r \<in> {0x00, 0x04, 0x08, 0x0C, 0x10, 0x14, 0x18, 0x20, 0x2C, 0x34} \<Longrightarrow> REG r (addr p - mBaseAddress (mSpace x)) f s = Some s"
  by (auto simp: REG_def fifo_access_def word_le_nat_alt word_less_nat_alt)

lemma xu_at_fifo:
  assumes "fifo_access p x"
  shows "xu_read p delay x = map_option (\<lambda>(p, x). (TLM_OK_RESPONSE, p, delay, x)) (read_FIFO (p, x))"
    "xu_write p delay x = map_option (\<lambda>(p, x). (TLM_OK_RESPONSE, p, delay, x)) (write_FIFO (p, x))"
proof -
  have o: "0x30 \<le> addr p - mBaseAddress (mSpace x)" "addr p - mBaseAddress (mSpace x) < 0x34" using assms by (auto simp: fifo_access_def)
  show "xu_read p delay x = map_option (\<lambda>(p, x). (TLM_OK_RESPONSE, p, delay, x)) (read_FIFO (p, x))"
    using o by (cases "read_FIFO (p, x)") (simp_all add: xu_read_def Let_def REG_elsewhere [OF assms] REG_def [of "0x30"] split_beta)
  show "xu_write p delay x = map_option (\<lambda>(p, x). (TLM_OK_RESPONSE, p, delay, x)) (write_FIFO (p, x))"
    using o by (cases "write_FIFO (p, x)") (simp_all add: xu_write_def Let_def REG_elsewhere [OF assms] REG_def [of "0x30"] split_beta)
qed

lemma xu_read_fifo:
  assumes "xu_read p delay x = Some (rsp, p', delay', x')" "fifo_access p x"
  shows "\<exists>data. ptr p' = Some data \<and> data \<noteq> [] \<and> fst (stream x) = hd data # fst (stream x') \<and> snd (stream x') = snd (stream x)"
proof -
  have read: "read_FIFO (p, x) = Some (p', x')" using assms(1) by (auto simp: xu_at_fifo [OF assms(2)])
  let ?x = "snd (xu_inputReady x)"
  from read obtain data where r: "fst (xu_inputReady x)" "x' = ?x\<lparr>mInFifo := tl (mInFifo ?x)\<rparr>" "ptr p' = Some (data[0 := hd (mInFifo ?x)])" "data \<noteq> []"
    by (auto simp: read_FIFO_def xu_readByte_def Let_def split_beta osimps split: if_splits)
  have "mInFifo ?x = fst (stream x)" "xu_common ?x = (xu_common x)\<lparr>chan_in := []\<rparr>" by (auto simp: xu_inputReady_def stream_def Let_def)
  moreover have "fst (stream x) \<noteq> []" using r(1) by (simp add: inputReady_stream)
  ultimately show ?thesis using r(2-4) by (cases data) (auto simp: stream_def)
qed

lemma xu_write_other:
  fixes x :: "('i, 'w) xuartps"
  assumes "xu_write p delay x = Some (rsp, p', delay', x')" "\<not> fifo_access p x"
  shows "stream x' = stream x"
proof -
  let ?o = "addr p - mBaseAddress (mSpace x)"
  have "REG 0x30 ?o write_FIFO s = Some s" for s :: "payload_t \<times> ('i, 'w) xuartps" using assms(2) by (auto simp: REG_def fifo_access_def)
  with assms(1) obtain s1 s2 s3 s4 s5 s6 s7 where
    "REG 0x00 ?o (write_CR ?o) (p, x) = Some s1" "REG 0x04 ?o (REG_WRITE ?o) s1 = Some s2" "REG 0x20 ?o (write_RXTOUT ?o) s2 = Some s3"
    "REG 0x08 ?o (write_IER ?o) s3 = Some s4" "REG 0x0C ?o (write_IDR ?o) s4 = Some s5" "REG 0x20 ?o (REG_WRITE ?o) s5 = Some s6"
    "REG 0x18 ?o (REG_WRITE ?o) s6 = Some s7" "REG 0x34 ?o (REG_WRITE ?o) s7 = Some (p', x')"
    by (auto simp: xu_write_def Let_def osimps)
  from this [THEN keeps_stream [OF keeps_REG, rotated]] show ?thesis
    by (simp add: keeps_write_CR keeps_write_RXTOUT keeps_write_IER keeps_write_IDR keeps_plain)
qed

lemma xu_write_fifo:
  assumes "xu_write p delay x = Some (rsp, p', delay', x')" "fifo_access p x"
  shows "\<exists>data. ptr p = Some data \<and> data \<noteq> [] \<and> fst (stream x') = fst (stream x) \<and> snd (stream x') = snd (stream x) @ [hd data]"
  using assms(1) by (auto simp: xu_at_fifo [OF assms(2)] write_FIFO_def osimps common_writeByte_def stream_def)

section \<open>Every access returns\<close>

definition good :: "AddrSpace \<Rightarrow> bool \<Rightarrow> u64 \<Rightarrow> payload_t \<times> ('i, 'w) xuartps \<Rightarrow> bool" where
  "good sp be offs = (\<lambda>(p, x). (\<exists>data. ptr p = Some data \<and> data \<noteq> [] \<and> unat (len p) \<le> length data) \<and> unat offs + unat (len p) \<le> 0x1000 \<and>
     0x1000 \<le> length (mLocalMem x) \<and> mSpace x = sp \<and> mByteEnable x = be)"

definition goes :: "u64 \<Rightarrow> ('i, 'w) reg_section \<Rightarrow> bool" where
  "goes offs f \<longleftrightarrow> (\<forall>sp be s. good sp be offs s \<longrightarrow> (\<exists>s'. f s = Some s' \<and> good sp be offs s'))"

lemma goes_REG: "goes offs f \<Longrightarrow> goes offs (REG r o' f)"
  by (auto simp: goes_def REG_def)

lemma goesD: "goes offs f \<Longrightarrow> good sp be offs s \<Longrightarrow> \<exists>s'. f s = Some s' \<and> good sp be offs s'"
  unfolding goes_def by blast

lemma set_bit_of_total:
  "0x1000 \<le> length (mLocalMem x) \<Longrightarrow> reg \<le> 0xF00 \<Longrightarrow>
   \<exists>mem. set_bit_of reg off v x = Some (x\<lparr>mLocalMem := mem\<rparr>) \<and> length mem = length (mLocalMem x)"
  by (auto simp: set_bit_of_def SET_BIT_def get64_def set64_def load_def store_def)

lemma set_bit_of_good:
  "good sp be offs (p, x) \<Longrightarrow> reg \<le> 0xF00 \<Longrightarrow> \<exists>x'. set_bit_of reg off v x = Some x' \<and> good sp be offs (p, x')"
  using set_bit_of_total [of x reg off v] by (auto simp: good_def)

lemma REG_READ_goes: "goes offs (REG_READ offs)"
  by (auto simp: goes_def good_def REG_READ_def load_def length_greater_0_conv [symmetric] simp del: length_greater_0_conv)

lemma REG_WRITE_goes: "goes offs (REG_WRITE offs)"
  by (auto simp: goes_def good_def REG_WRITE_def store_def)

lemma fifo_tests_good:
  "good sp be offs (p, x) \<Longrightarrow> good sp be offs (p, snd (isFifoFull x))" "good sp be offs (p, x) \<Longrightarrow> good sp be offs (p, snd (isFifoEmpty x))"
  by (auto simp: good_def isFifoFull_def isFifoEmpty_def xu_inputReady_def Let_def)

lemma isFifoOver_good: "good sp be offs (p, x) \<Longrightarrow> \<exists>r x'. isFifoOver x = Some (r, x') \<and> good sp be offs (p, x')"
  by (auto simp: good_def isFifoOver_def get32_def load_def xu_inputReady_def Let_def)

lemma when_bit_good:
  assumes "good sp be offs (p, x)" "reg \<le> 0xF00" "\<And>x. good sp be offs (p, x) \<Longrightarrow> good sp be offs (p, f x)"
  shows "\<exists>x'. when_bit reg off f x = Some x' \<and> good sp be offs (p, x')"
proof -
  have "0x1000 \<le> length (mLocalMem x)" using assms(1) by (simp add: good_def)
  then obtain b where "when_bit reg off f x = Some (if b then f x else x)" using assms(2) by (auto simp: when_bit_def GET_BIT_def get64_def load_def)
  then show ?thesis using assms(1,3) by auto
qed

text \<open>Taking the steps of a section one at a time.\<close>

lemma goes_setbit:
  assumes "good sp be offs (p, x)" "reg \<le> 0xF00" "\<And>x'. good sp be offs (p, x') \<Longrightarrow> \<exists>s'. f x' = Some s' \<and> good sp be offs s'"
  shows "\<exists>s'. Option.bind (set_bit_of reg off v x) f = Some s' \<and> good sp be offs s'"
  using set_bit_of_good [OF assms(1,2), of off v] assms(3) by auto

lemma goes_over:
  assumes "good sp be offs (p, x)" "\<And>r x'. good sp be offs (p, x') \<Longrightarrow> \<exists>s'. f (r, x') = Some s' \<and> good sp be offs s'"
  shows "\<exists>s'. Option.bind (isFifoOver x) f = Some s' \<and> good sp be offs s'"
  using isFifoOver_good [OF assms(1)] assms(2) by auto

lemma goes_whenbit:
  assumes "good sp be offs (p, x)" "reg \<le> 0xF00" "\<And>x. good sp be offs (p, x) \<Longrightarrow> good sp be offs (p, g x)"
    "\<And>x'. good sp be offs (p, x') \<Longrightarrow> \<exists>s'. f x' = Some s' \<and> good sp be offs s'"
  shows "\<exists>s'. Option.bind (when_bit reg off g x) f = Some s' \<and> good sp be offs s'"
  proof -
  obtain x' where "when_bit reg off g x = Some x'" "good sp be offs (p, x')" using when_bit_good [of sp be offs p x reg g off] assms(1-3) by blast
  then show ?thesis using assms(4) [of x'] by simp
qed

lemma goes_bind:
  assumes "goes offs g" "good sp be offs s" "\<And>p x. good sp be offs (p, x) \<Longrightarrow> \<exists>s'. f (p, x) = Some s' \<and> good sp be offs s'"
  shows "\<exists>s'. Option.bind (g s) f = Some s' \<and> good sp be offs s'"
  using goesD [OF assms(1,2)] assms(3) by auto

lemma goesI: "(\<And>sp be p x. good sp be offs (p, x) \<Longrightarrow> \<exists>s'. f (p, x) = Some s' \<and> good sp be offs s') \<Longrightarrow> goes offs f"
  by (auto simp: goes_def)

lemma read_CR_goes: "goes offs (read_CR offs)"
  by (rule goesI, unfold read_CR_def prod.case) (rule goes_setbit goesD [OF REG_READ_goes] | assumption | (simp; fail))+

lemma read_IMR_goes: "goes offs (read_IMR offs)"
proof (rule goesI)
  fix sp be p x assume g: "good sp be offs (p, x)"
  then have m: "0x1000 \<le> length (mLocalMem x)" by (simp add: good_def)
  then obtain a b mem where r: "get32 0x8 (mLocalMem x) = Some a" "get32 0xC (mLocalMem x) = Some b" "set32 0x10 (a AND NOT b) (mLocalMem x) = Some mem"
    "length mem = length (mLocalMem x)" by (auto simp: get32_def set32_def load_def store_def)
  have "good sp be offs (p, x\<lparr>mLocalMem := mem\<rparr>)" using g r(4) by (auto simp: good_def)
  then show "\<exists>s'. read_IMR offs (p, x) = Some s' \<and> good sp be offs s'" using goesD [OF REG_READ_goes] by (simp add: read_IMR_def r)
qed

lemma read_ISR_goes: "goes offs (read_ISR offs)"
  apply (rule goesI, unfold read_ISR_def prod.case Let_def split_beta)
  apply (rule goes_setbit goes_bind [OF REG_READ_goes] fifo_tests_good | assumption | (simp; fail))+
  apply (simp add: good_def)
  done

lemma read_SR_goes: "goes offs (read_SR offs)"
  by (rule goesI, unfold read_SR_def prod.case Let_def split_beta)
    (rule goes_setbit goes_over fifo_tests_good goesD [OF REG_READ_goes] | assumption | (simp; fail))+

lemma write_CR_goes: "goes offs (write_CR offs)"
  by (rule goesI, unfold write_CR_def prod.case, rule goes_bind [OF REG_WRITE_goes])
    (rule goes_whenbit | assumption | (unfold prod.case) | (simp add: good_def; fail))+

lemma write_IER_goes: "goes offs (write_IER offs)"
  by (rule goesI, unfold write_IER_def prod.case, rule goes_bind [OF REG_WRITE_goes])
    (rule goes_whenbit | assumption | (unfold prod.case) | (simp add: good_def; fail))+

lemma write_IDR_goes: "goes offs (write_IDR offs)"
  by (rule goesI, unfold write_IDR_def prod.case, rule goes_bind [OF REG_WRITE_goes])
    (rule goes_whenbit | assumption | (unfold prod.case) | (simp add: good_def; fail))+

lemma write_RXTOUT_goes: "goes offs (write_RXTOUT offs)"
  by (rule goesI, unfold write_RXTOUT_def prod.case, rule goes_bind [OF REG_WRITE_goes]) (auto simp: good_def Let_def)

lemma write_FIFO_goes: "goes offs write_FIFO"
  by (auto simp: goes_def good_def write_FIFO_def)

lemma read_FIFO_good:
  "good sp be offs (p, x) \<Longrightarrow> fst (stream x) \<noteq> [] \<Longrightarrow> \<exists>s'. read_FIFO (p, x) = Some s' \<and> good sp be offs s'"
  by (auto simp: good_def read_FIFO_def xu_readByte_def xu_inputReady_def stream_def Let_def)

lemmas sections_go = REG_READ_goes REG_WRITE_goes read_CR_goes read_IMR_goes read_ISR_goes read_SR_goes write_CR_goes write_IER_goes write_IDR_goes
  write_RXTOUT_goes write_FIFO_goes

lemma xu_read_total:
  assumes "good sp be (addr p - mBaseAddress (mSpace x)) (p, x)" "fifo_access p x \<Longrightarrow> fst (stream x) \<noteq> []"
  shows "\<exists>p' x'. xu_read p delay x = Some (TLM_OK_RESPONSE, p', delay, x') \<and> good sp be (addr p - mBaseAddress (mSpace x)) (p', x')"
proof (cases "fifo_access p x")
  case True
  then show ?thesis using read_FIFO_good [OF assms(1)] assms(2) by (auto simp: xu_at_fifo)
next
  case False
  let ?o = "addr p - mBaseAddress (mSpace x)"
  have "goes ?o (REG 0x30 ?o read_FIFO)" using False by (auto simp: goes_def REG_def fifo_access_def)
  then have "\<exists>s'. (do { s \<leftarrow> REG 0x00 ?o (read_CR ?o) (p, x); s \<leftarrow> REG 0x04 ?o (REG_READ ?o) s; s \<leftarrow> REG 0x10 ?o (read_IMR ?o) s;
      s \<leftarrow> REG 0x14 ?o (read_ISR ?o) s; s \<leftarrow> REG 0x30 ?o read_FIFO s; s \<leftarrow> REG 0x2C ?o (read_SR ?o) s; s \<leftarrow> REG 0x18 ?o (REG_READ ?o) s;
      REG 0x34 ?o (REG_READ ?o) s }) = Some s' \<and> good sp be ?o s'"
    using assms(1) by (intro goes_bind goesD [OF goes_REG]) (auto intro: goes_REG sections_go)
  then show ?thesis by (auto simp: xu_read_def Let_def osimps)
qed

lemma xu_write_total:
  assumes "good sp be (addr p - mBaseAddress (mSpace x)) (p, x)"
  shows "\<exists>p' x'. xu_write p delay x = Some (TLM_OK_RESPONSE, p', delay, x') \<and> good sp be (addr p - mBaseAddress (mSpace x)) (p', x')"
proof -
  let ?o = "addr p - mBaseAddress (mSpace x)"
  have "\<exists>s'. (do { s \<leftarrow> REG 0x00 ?o (write_CR ?o) (p, x); s \<leftarrow> REG 0x04 ?o (REG_WRITE ?o) s; s \<leftarrow> REG 0x20 ?o (write_RXTOUT ?o) s;
      s \<leftarrow> REG 0x08 ?o (write_IER ?o) s; s \<leftarrow> REG 0x0C ?o (write_IDR ?o) s; s \<leftarrow> REG 0x20 ?o (REG_WRITE ?o) s; s \<leftarrow> REG 0x30 ?o write_FIFO s;
      s \<leftarrow> REG 0x18 ?o (REG_WRITE ?o) s; REG 0x34 ?o (REG_WRITE ?o) s }) = Some s' \<and> good sp be ?o s'"
    using assms(1) by (intro goes_bind goesD [OF goes_REG]) (auto intro: goes_REG sections_go)
  then show ?thesis by (auto simp: xu_write_def Let_def osimps)
qed

text \<open>The port with what has arrived moved to its FIFO.\<close>

definition drained :: "('i, 'w) xuartps \<Rightarrow> ('i, 'w) xuartps" where
  "drained x = snd (xu_inputReady x)"

lemma xu_inputReady_drained: "xu_inputReady x = (fst (stream x) \<noteq> [], drained x)"
  by (simp add: drained_def prod_eq_iff inputReady_stream(2))

lemma drained_simps [simp]:
  "stream (drained x) = stream x" "drained (drained x) = drained x" "xu_common (drained x) = (xu_common x)\<lparr>chan_in := []\<rparr>"
  "mLocalMem (drained x) = mLocalMem x" "mSpace (drained x) = mSpace x" "mByteEnable (drained x) = mByteEnable x"
  by (auto simp: drained_def xu_inputReady_def stream_def Let_def)

lemma counter_down: "(if c \<noteq> 0 then c - 1 else 0) = 0 \<longleftrightarrow> c \<le> 1" for c :: u32
proof -
  have "c \<le> 1 \<longleftrightarrow> unat c = 0 \<or> unat c = 1" by (auto simp: word_le_nat_alt)
  moreover have "unat c = 1 \<longleftrightarrow> c = 1" by (metis unat_1 word_unat_eq_iff)
  ultimately show ?thesis by (auto simp: unat_eq_0)
qed

lemma line_calls [simp]:
  "mInterruptParent (mSource u) = Some i \<Longrightarrow> uart_raise irq u = map_option (\<lambda>w. u\<lparr>uart_world := w\<rparr>) (irq i 1 (mInterruptLine (mSource u)) (uart_world u))"
  "mInterruptParent (mSource u) = Some i \<Longrightarrow> uart_lower irq u = map_option (\<lambda>w. u\<lparr>uart_world := w\<rparr>) (irq i 0 (mInterruptLine (mSource u)) (uart_world u))"
  by (simp_all add: uart_raise_def uart_lower_def raiseInterrupt_def lowerInterrupt_def)

lemma poll_round:
  assumes "mInterruptParent (mSource (xu_common x)) = Some i"
  shows "map_option (\<lambda>(go, x'). (go, uart_world (xu_common x'), stream x', mLocalMem x', mSpace x', mByteEnable x')) (xu_poll irq x) =
    (let u = xu_common x; pending = fst (stream x) \<noteq> []; line = mInterruptLine (mSource u); w = uart_world u
     in map_option (\<lambda>w. (True, w, stream x, mLocalMem x, mSpace x, mByteEnable x))
          (if mOutIntEnable u \<and> mOutInt u \<or> mIntEnable u \<and> pending then irq i 1 line w
           else if mHasTimeout u \<and> \<not> pending then (if mTimeoutCounter u \<le> 1 \<and> mToIntEnable u then irq i 1 line w else Some w)
           else irq i 0 line w))"
proof -
  have z: "(if mTimeoutCounter u \<noteq> 0 then mTimeoutCounter u - 1 else 0) = 0 \<longleftrightarrow> mTimeoutCounter u \<le> 1" for u :: "('a, 'b) CommonUart"
    using counter_down [of "mTimeoutCounter u"] by simp
  have st: "stream (y\<lparr>xu_common := u\<rparr>) = stream y" if "chan_in u = chan_in (xu_common y)" "chan_out u = chan_out (xu_common y)"
    for y :: "('a, 'b) xuartps" and u using that by (simp add: stream_def)
  let ?u = "xu_common x"
  consider (out) "mOutIntEnable ?u \<and> mOutInt ?u" | (recv) "\<not> (mOutIntEnable ?u \<and> mOutInt ?u)" "mIntEnable ?u" "fst (stream x) \<noteq> []"
    | (late) "\<not> (mOutIntEnable ?u \<and> mOutInt ?u)" "\<not> (mIntEnable ?u \<and> fst (stream x) \<noteq> [])" "mHasTimeout ?u" "fst (stream x) = []"
    | (low) "\<not> (mOutIntEnable ?u \<and> mOutInt ?u)" "\<not> (mIntEnable ?u \<and> fst (stream x) \<noteq> [])" "\<not> (mHasTimeout ?u \<and> fst (stream x) = [])"
    by blast
  then show ?thesis
  proof cases
    case out
    then show ?thesis using assms
      by (cases "irq i 1 (mInterruptLine (mSource ?u)) (uart_world ?u)") (simp_all add: xu_poll_def interruptLoop_def st)
  next
    case recv
    then show ?thesis using assms
      by (cases "irq i 1 (mInterruptLine (mSource ?u)) (uart_world ?u)") (auto simp: xu_poll_def interruptLoop_def xu_inputReady_drained st)
  next
    case late
    then show ?thesis using assms
      by (cases "irq i 1 (mInterruptLine (mSource ?u)) (uart_world ?u)"; cases "mIntEnable ?u"; cases "mTimeoutCounter ?u \<le> 1 \<and> mToIntEnable ?u")
        (auto simp: xu_poll_def interruptLoop_def xu_inputReady_drained Let_def z st)
  next
    case low
    then show ?thesis using assms
      by (cases "irq i 0 (mInterruptLine (mSource ?u)) (uart_world ?u)"; cases "mIntEnable ?u"; cases "mHasTimeout ?u")
        (auto simp: xu_poll_def interruptLoop_def xu_inputReady_drained Let_def st)
  qed
qed


section \<open>Ports as pairs of byte streams\<close>

text \<open>A port changes by events, each of which may give bytes to the processor.\<close>

fun byte_run :: "('e \<Rightarrow> 's \<Rightarrow> (u8 list \<times> 's) option) \<Rightarrow> 'e list \<Rightarrow> 's \<Rightarrow> (u8 list \<times> 's) option" where
  "byte_run step [] x = Some ([], x)"
| "byte_run step (e # es) x = do { (got, x) \<leftarrow> step e x; (more, x) \<leftarrow> byte_run step es x; Some (got @ more, x) }"

text \<open>Bytes are taken no more often than they have arrived: with \<open>n\<close> bytes there at first.\<close>

fun covered :: "('e \<Rightarrow> bool) \<Rightarrow> ('e \<Rightarrow> u8 list) \<Rightarrow> nat \<Rightarrow> 'e list \<Rightarrow> bool" where
  "covered takes arrives n [] \<longleftrightarrow> True"
| "covered takes arrives n (e # es) \<longleftrightarrow> (takes e \<longrightarrow> 0 < n) \<and> covered takes arrives (n + length (arrives e) - (if takes e then 1 else 0)) es"

locale byte_port =
  fixes step :: "'e \<Rightarrow> 's \<Rightarrow> (u8 list \<times> 's) option" and ok :: "'s \<Rightarrow> bool" and legal :: "'e \<Rightarrow> bool" and takes :: "'e \<Rightarrow> bool"
    and arrives :: "'e \<Rightarrow> u8 list" and departs :: "'e \<Rightarrow> u8 list" and pending :: "'s \<Rightarrow> u8 list" and sent :: "'s \<Rightarrow> u8 list"
  assumes step_streams: "\<lbrakk>ok x; legal e; takes e \<Longrightarrow> pending x \<noteq> []\<rbrakk> \<Longrightarrow>
    \<exists>got x'. step e x = Some (got, x') \<and> ok x' \<and> got @ pending x' = pending x @ arrives e \<and> sent x' = sent x @ departs e \<and> length got = of_bool (takes e)"
begin

lemma run_streams:
  assumes "ok x" "\<forall>e\<in>set es. legal e" "covered takes arrives (length (pending x)) es"
  shows "\<exists>got x'. byte_run step es x = Some (got, x') \<and> ok x' \<and> got @ pending x' = pending x @ concat (map arrives es) \<and>
    sent x' = sent x @ concat (map departs es) \<and> length got = length (filter takes es)"
  using assms
proof (induction es arbitrary: x)
  case Nil
  then show ?case by simp
next
  case (Cons e es)
  obtain got x' where s: "step e x = Some (got, x')" "ok x'" "got @ pending x' = pending x @ arrives e"
    "sent x' = sent x @ departs e" "length got = of_bool (takes e)"
    using step_streams [OF Cons.prems(1), of e] Cons.prems(2,3) by (metis length_greater_0_conv list.set_intros(1) covered.simps(2))
  have "length got + length (pending x') = length (pending x) + length (arrives e)" using arg_cong [OF s(3), of length] by simp
  then have "length (pending x') = length (pending x) + length (arrives e) - (if takes e then 1 else 0)" using s(5) by (auto split: if_splits)
  then have "covered takes arrives (length (pending x')) es" using Cons.prems(3) by simp
  then obtain more x'' where r: "byte_run step es x' = Some (more, x'')" "ok x''" "more @ pending x'' = pending x' @ concat (map arrives es)"
    "sent x'' = sent x' @ concat (map departs es)" "length more = length (filter takes es)"
    using Cons.IH [OF s(2)] Cons.prems(2) by auto
  have "(got @ more) @ pending x'' = pending x @ concat (map arrives (e # es))"
    using r(3) s(3) by (metis (no_types, lifting) append.assoc concat.simps(2) list.simps(9))
  then show ?case using s r by (intro exI [of _ "got @ more"] exI [of _ x'']) auto
qed

end

section \<open>Sequences of accesses\<close>

text \<open>What happens to a port: bytes arrive on its channel, a processor reads or writes a register through the bus, and the thread takes a turn.\<close>

datatype serial_event = Arrive "u8 list" | RegRead u64 nat | RegWrite u64 "u8 list" | Poll

definition register_access :: "tlm_command \<Rightarrow> u64 \<Rightarrow> u8 list \<Rightarrow> generic_payload" where
  "register_access c a bs = \<lparr>gp_command = c, gp_address = a, gp_data = Some bs, gp_length = of_nat (length bs), gp_byte_enable_ptr = False,
     gp_byte_enable_length = 0, gp_response = TLM_INCOMPLETE_RESPONSE, gp_dmi_allowed = False, gp_min_payload = False, gp_source = None, gp_gic = None\<rparr>"

definition at_fifo :: "u64 \<Rightarrow> bool" where
  "at_fifo off \<longleftrightarrow> 0x30 \<le> off \<and> off < 0x34"

fun serial_step :: "('i \<Rightarrow> u64 \<Rightarrow> u32 \<Rightarrow> 'w \<Rightarrow> 'w option) \<Rightarrow> serial_event \<Rightarrow> ('i, 'w) xuartps \<Rightarrow> (u8 list \<times> ('i, 'w) xuartps) option" where
  "serial_step irq (Arrive bs) x = Some ([], x\<lparr>xu_common := (xu_common x)\<lparr>chan_in := chan_in (xu_common x) @ bs\<rparr>\<rparr>)"
| "serial_step irq (RegRead off n) x =
     do {
       (tr, d, x) \<leftarrow> xu_b_transport (register_access TLM_READ_COMMAND (mBaseAddress (mSpace x) + off) (replicate n 0)) 0 x;
       data \<leftarrow> gp_data tr;
       Some (if at_fifo off then take 1 data else [], x)
     }"
| "serial_step irq (RegWrite off bs) x =
     do { (tr, d, x) \<leftarrow> xu_b_transport (register_access TLM_WRITE_COMMAND (mBaseAddress (mSpace x) + off) bs) 0 x; Some ([], x) }"
| "serial_step irq Poll x = map_option (\<lambda>(_, x). ([], x)) (xu_poll irq x)"

fun arrivals :: "serial_event \<Rightarrow> u8 list" where
  "arrivals (Arrive bs) = bs"
| "arrivals _ = []"

fun departures :: "serial_event \<Rightarrow> u8 list" where
  "departures (RegWrite off bs) = (if at_fifo off then take 1 bs else [])"
| "departures _ = []"

fun fifo_read :: "serial_event \<Rightarrow> bool" where
  "fifo_read (RegRead off n) \<longleftrightarrow> at_fifo off"
| "fifo_read _ \<longleftrightarrow> False"

text \<open>The accesses stay inside the registers.\<close>

fun event_ok :: "serial_event \<Rightarrow> bool" where
  "event_ok (RegRead off n) \<longleftrightarrow> 0 < n \<and> unat off + n \<le> 0x1000"
| "event_ok (RegWrite off bs) \<longleftrightarrow> bs \<noteq> [] \<and> unat off + length bs \<le> 0x1000"
| "event_ok _ \<longleftrightarrow> True"

text \<open>The interrupt parent of a port takes every call.\<close>

definition takes_calls :: "('i \<Rightarrow> u64 \<Rightarrow> u32 \<Rightarrow> 'w \<Rightarrow> 'w option) \<Rightarrow> bool" where
  "takes_calls irq \<longleftrightarrow> (\<forall>i v l w. irq i v l w \<noteq> None)"

definition port_ok :: "('i, 'w) xuartps \<Rightarrow> bool" where
  "port_ok x \<longleftrightarrow> 0x1000 \<le> length (mLocalMem x) \<and> \<not> mByteEnable x \<and> size_of x = Some 0x1001 \<and> unat (mBaseAddress (mSpace x)) + 0x1001 < 2 ^ 64"

lemma register_access_fits:
  assumes "size_of t = Some 0x1001" "unat (mBaseAddress (mSpace t)) + 0x1001 < 2 ^ 64" "\<not> mByteEnable t" "c = TLM_READ_COMMAND \<or> c = TLM_WRITE_COMMAND"
    "bs \<noteq> []" "unat off + length bs \<le> 0x1000"
  shows "access_error (payload_of (register_access c (mBaseAddress (mSpace t) + off) bs)) 0x1001 t = None"
proof -
  let ?b = "mBaseAddress (mSpace t)" and ?n = "of_nat (length bs) :: u32"
  have n: "unat ?n = length bs" using assms(6) by (simp add: unat_of_nat)
  have a: "unat (?b + off) = unat ?b + unat off" using assms(2,6) by (subst unat_add_nowrap) simp_all
  have "unat (?b + off + ucast ?n) = unat ?b + unat off + length bs" using a n assms(2,6) by (subst unat_add_nowrap) simp_all
  moreover have "unat (?b + 0x1001) = unat ?b + 0x1001" using assms(2) by (subst unat_add_nowrap) simp_all
  ultimately show ?thesis using a n assms by (auto simp: register_access_def access_error_def payload_of_def wsimps word_unat_eq_iff)
qed

lemma register_access_reaches:
  assumes "port_ok x" "c = TLM_READ_COMMAND \<or> c = TLM_WRITE_COMMAND" "bs \<noteq> []" "unat off + length bs \<le> 0x1000"
  defines "tr \<equiv> register_access c (mBaseAddress (mSpace x) + off) bs"
  shows "access_error (payload_of tr) 0x1001 x = None" "good (mSpace x) (mByteEnable x) off (payload_of tr, x)" "addr (payload_of tr) - mBaseAddress (mSpace x) = off"
    "fifo_access (payload_of tr) x \<longleftrightarrow> at_fifo off"
proof -
  have "unat (of_nat (length bs) :: u32) = length bs" using assms(4) by (simp add: unat_of_nat)
  then show "good (mSpace x) (mByteEnable x) off (payload_of tr, x)" using assms(1,3,4) by (simp add: tr_def register_access_def payload_of_def good_def port_ok_def)
  show "access_error (payload_of tr) 0x1001 x = None" using assms(1-4) register_access_fits [of x c bs off] by (simp add: tr_def port_ok_def)
  show "addr (payload_of tr) - mBaseAddress (mSpace x) = off" by (simp add: tr_def register_access_def payload_of_def)
  then show "fifo_access (payload_of tr) x \<longleftrightarrow> at_fifo off" by (simp add: fifo_access_def at_fifo_def)
qed

lemma size_of_space: "mSpace x' = mSpace x \<Longrightarrow> size_of x' = size_of x"
  by (simp add: size_of_def)

lemma good_port_ok: "port_ok x \<Longrightarrow> good (mSpace x) (mByteEnable x) off (p, x') \<Longrightarrow> port_ok x'"
  using size_of_space [of x' x] by (simp add: good_def port_ok_def)

lemma port_ok_counts [simp]:
  "port_ok (x\<lparr>mReadCount := n\<rparr>) \<longleftrightarrow> port_ok x" "port_ok (x\<lparr>mWriteCount := n\<rparr>) \<longleftrightarrow> port_ok x"
  "stream (x\<lparr>mReadCount := n\<rparr>) = stream x" "stream (x\<lparr>mWriteCount := n\<rparr>) = stream x"
  by (simp_all add: port_ok_def stream_def size_of_def)

lemma register_read:
  assumes "port_ok x" "0 < n" "unat off + n \<le> 0x1000" "at_fifo off \<Longrightarrow> fst (stream x) \<noteq> []"
  shows "\<exists>got x'. serial_step irq (RegRead off n) x = Some (got, x') \<and> port_ok x' \<and> fst (stream x) = got @ fst (stream x') \<and>
    snd (stream x') = snd (stream x) \<and> length got = of_bool (at_fifo off)"
proof -
  let ?tr = "register_access TLM_READ_COMMAND (mBaseAddress (mSpace x) + off) (replicate n 0)"
  note r = register_access_reaches [of x TLM_READ_COMMAND "replicate n 0" off, simplified, OF assms(1) assms(2) assms(3)]
  from xu_read_total [of "mSpace x" "mByteEnable x" "payload_of ?tr" x 0] obtain p' x' where x':
    "xu_read (payload_of ?tr) 0 x = Some (TLM_OK_RESPONSE, p', 0, x')" "good (mSpace x) (mByteEnable x) off (p', x')"
    using r(2-4) assms(4) by auto
  have ok: "port_ok x'" using good_port_ok [OF assms(1) x'(2)] .
  obtain data where data: "ptr p' = Some data" using x'(2) by (auto simp: good_def)
  have "size_of x = Some 0x1001" using assms(1) by (simp add: port_ok_def)
  moreover have "cmd (payload_of ?tr) = TLM_READ_COMMAND" by (simp add: register_access_def payload_of_def)
  ultimately have "serial_step irq (RegRead off n) x = Some (if at_fifo off then take 1 data else [], x'\<lparr>mReadCount := mReadCount x' + ucast (len p')\<rparr>)"
    using r(1) x'(1) data by (simp add: xu_b_transport_def target_b_transport_def CoreFunction_def AccessFunction_def)
  moreover have "at_fifo off \<Longrightarrow> data \<noteq> [] \<and> fst (stream x) = hd data # fst (stream x') \<and> snd (stream x') = snd (stream x)"
    using xu_read_fifo [OF x'(1)] r(4) data by simp
  moreover have "\<not> at_fifo off \<Longrightarrow> stream x' = stream x" using xu_read_other [OF x'(1)] r(4) by simp
  ultimately show ?thesis using ok
    by (intro exI [of _ "if at_fifo off then take 1 data else []"] exI [of _ "x'\<lparr>mReadCount := mReadCount x' + ucast (len p')\<rparr>"])
      (cases "at_fifo off"; cases data; auto)
qed

lemma register_write:
  assumes "port_ok x" "bs \<noteq> []" "unat off + length bs \<le> 0x1000"
  shows "\<exists>x'. serial_step irq (RegWrite off bs) x = Some ([], x') \<and> port_ok x' \<and> fst (stream x') = fst (stream x) \<and>
    snd (stream x') = snd (stream x) @ (if at_fifo off then take 1 bs else [])"
proof -
  let ?tr = "register_access TLM_WRITE_COMMAND (mBaseAddress (mSpace x) + off) bs"
  note r = register_access_reaches [of x TLM_WRITE_COMMAND bs off, simplified, OF assms]
  from xu_write_total [of "mSpace x" "mByteEnable x" "payload_of ?tr" x 0] obtain p' x' where x':
    "xu_write (payload_of ?tr) 0 x = Some (TLM_OK_RESPONSE, p', 0, x')" "good (mSpace x) (mByteEnable x) off (p', x')"
    using r(2,3) by auto
  have ok: "port_ok x'" using good_port_ok [OF assms(1) x'(2)] .
  have "size_of x = Some 0x1001" using assms(1) by (simp add: port_ok_def)
  moreover have "cmd (payload_of ?tr) = TLM_WRITE_COMMAND" by (simp add: register_access_def payload_of_def)
  ultimately have "serial_step irq (RegWrite off bs) x = Some ([], x'\<lparr>mWriteCount := mWriteCount x' + ucast (len p')\<rparr>)"
    using r(1) x'(1) by (simp add: xu_b_transport_def target_b_transport_def CoreFunction_def AccessFunction_def)
  moreover have "at_fifo off \<Longrightarrow> fst (stream x') = fst (stream x) \<and> snd (stream x') = snd (stream x) @ [hd bs]"
    using xu_write_fifo [OF x'(1)] r(4) by (auto simp: register_access_def payload_of_def)
  moreover have "\<not> at_fifo off \<Longrightarrow> stream x' = stream x" using xu_write_other [OF x'(1)] r(4) by simp
  ultimately show ?thesis using ok assms(2) by (cases "at_fifo off"; cases bs) simp_all
qed

lemma poll_step:
  assumes "port_ok x" "takes_calls irq"
  shows "\<exists>x'. serial_step irq Poll x = Some ([], x') \<and> port_ok x' \<and> stream x' = stream x"
proof (cases "mInterruptParent (mSource (xu_common x))")
  case None
  then show ?thesis using assms(1) by (simp add: xu_poll_def interruptLoop_def)
next
  case (Some i)
  have irq: "\<exists>w'. irq i v l w = Some w'" for i v l w using assms(2) by (simp add: takes_calls_def)
  let ?u = "xu_common x"
  let ?line = "mInterruptLine (mSource ?u)" and ?w = "uart_world ?u" and ?pending = "fst (stream x) \<noteq> []"
  have "\<exists>r. (if mOutIntEnable ?u \<and> mOutInt ?u \<or> mIntEnable ?u \<and> ?pending then irq i 1 ?line ?w
      else if mHasTimeout ?u \<and> \<not> ?pending then (if mTimeoutCounter ?u \<le> 1 \<and> mToIntEnable ?u then irq i 1 ?line ?w else Some ?w)
      else irq i 0 ?line ?w) = Some r" using irq by simp
  then obtain r where "map_option (\<lambda>(go, x'). (go, uart_world (xu_common x'), stream x', mLocalMem x', mSpace x', mByteEnable x')) (xu_poll irq x) =
      Some (True, r, stream x, mLocalMem x, mSpace x, mByteEnable x)"
    unfolding poll_round [OF Some] Let_def by fastforce
  then obtain x' where "xu_poll irq x = Some (True, x')" "stream x' = stream x" "mLocalMem x' = mLocalMem x" "mSpace x' = mSpace x" "mByteEnable x' = mByteEnable x"
    by auto
  then show ?thesis using assms(1) size_of_space [of x' x] by (simp add: port_ok_def)
qed

lemma arrive_step:
  "port_ok x \<Longrightarrow> \<exists>x'. serial_step irq (Arrive bs) x = Some ([], x') \<and> port_ok x' \<and> fst (stream x') = fst (stream x) @ bs \<and> snd (stream x') = snd (stream x)"
  by (simp add: port_ok_def size_of_def stream_def)

lemma serial_step_streams:
  assumes "port_ok x \<and> takes_calls irq" "event_ok e" "fifo_read e \<Longrightarrow> fst (stream x) \<noteq> []"
  shows "\<exists>got x'. serial_step irq e x = Some (got, x') \<and> (port_ok x' \<and> takes_calls irq) \<and> got @ fst (stream x') = fst (stream x) @ arrivals e \<and>
    snd (stream x') = snd (stream x) @ departures e \<and> length got = of_bool (fifo_read e)"
proof -
  have x: "port_ok x" "takes_calls irq" using assms(1) by auto
  show ?thesis
  proof (cases e)
    case (Arrive bs)
    then show ?thesis using arrive_step [OF x(1), of irq bs] x(2) by fastforce
  next
    case (RegRead off n)
    then show ?thesis using register_read [OF x(1), of n off irq] assms(2,3) x(2) by fastforce
  next
    case (RegWrite off bs)
    then show ?thesis using register_write [OF x(1), of bs off irq] assms(2) x(2) by fastforce
  next
    case Poll
    then show ?thesis using poll_step [OF x] x(2) by fastforce
  qed
qed

interpretation cadence: byte_port "serial_step irq" "\<lambda>x. port_ok x \<and> takes_calls irq" event_ok fifo_read arrivals departures
  "\<lambda>x. fst (stream x)" "\<lambda>x. snd (stream x)" for irq
  by unfold_locales (rule serial_step_streams)

text \<open>
  C30: The two byte streams of a Cadence port. Whatever bytes arrive and however the processor reads and writes the registers and the thread polls, as long as the
  accesses stay inside the registers and the FIFO is not read when nothing has arrived: every access returns, the bytes the processor gets from the FIFO
  followed by those still pending are exactly the bytes that arrived, in order, one byte per read of the FIFO, and the channel gets exactly the bytes written to
  the FIFO, in order.
\<close>
theorem serial_streams_in_order:
  assumes "port_ok x" "takes_calls irq" "\<forall>e\<in>set es. event_ok e" "covered fifo_read arrivals (length (fst (stream x))) es"
  shows "\<exists>got x'. byte_run (serial_step irq) es x = Some (got, x') \<and> got @ fst (stream x') = fst (stream x) @ concat (map arrivals es) \<and>
    snd (stream x') = snd (stream x) @ concat (map departures es) \<and> length got = length (filter fifo_read es)"
  using cadence.run_streams [of x irq es] assms by blast

definition sample_port :: "(nat, (u64 \<times> u32) list) xuartps" where
  "sample_port = (case xuartps_new (\<lambda>_. 0) False False [] of Some x \<Rightarrow>
     (setTargetBaseAddress 0xE0000000 x)\<lparr>xu_common := (xu_common x)\<lparr>mSource := setInterruptLine 82 (setInterruptParent 0 (mSource (xu_common x)))\<rparr>\<rparr>)"

lemma sample_port_simps:
  "mInterruptParent (mSource (xu_common sample_port)) = Some 0" "mInterruptLine (mSource (xu_common sample_port)) = 82" "uart_world (xu_common sample_port) = []"
  "stream sample_port = ([], [])" "port_ok sample_port" "\<not> mOutIntEnable (xu_common sample_port)" "\<not> mIntEnable (xu_common sample_port)"
  "\<not> mHasTimeout (xu_common sample_port)"
  by (simp_all add: sample_port_def xuartps_new_def TargetIf_new_def size_of_def getSize_def AddrSpace_of_size_def set32_def store_def TargetIf.defs xuartps.defs
      setTargetBaseAddress_def setBaseAddress_def CommonUart_new_def InterruptSource_new_def setInterruptLine_def setInterruptParent_def stream_def port_ok_def)

text \<open>A recorder of the calls.\<close>

definition record_line :: "nat \<Rightarrow> u64 \<Rightarrow> u32 \<Rightarrow> (u64 \<times> u32) list \<Rightarrow> (u64 \<times> u32) list option" where
  "record_line i v l w = Some (w @ [(v, l)])"


theorem serial_streams_in_order_witness:
  "\<exists>got x'. byte_run (serial_step record_line) [Arrive [65, 66], Poll, RegRead 0x2C 4, RegRead 0x30 1, RegWrite 0x30 [67], Arrive [68], RegRead 0x30 4] sample_port =
     Some (got, x') \<and> got @ fst (stream x') = [65, 66, 68] \<and> snd (stream x') = [67] \<and> length got = Suc (Suc 0)"
  using serial_streams_in_order [of sample_port record_line "[Arrive [65, 66], Poll, RegRead 0x2C 4, RegRead 0x30 1, RegWrite 0x30 [67], Arrive [68], RegRead 0x30 4]"]
  by (simp add: sample_port_simps record_line_def takes_calls_def at_fifo_def word_le_nat_alt word_less_nat_alt del: byte_run.simps)

text \<open>
  C32: What a write of four bytes to the interrupt disable register does. The transmit and receive interrupts are disabled as the bits of the value say. Whether the
  timeout interrupt is disabled does not depend on the value: it is, exactly if its bit is set in the enable register.
\<close>
theorem disable_register_effect:
  assumes "port_ok x" "length bs = 4"
  shows "\<exists>x'. serial_step irq (RegWrite 0x0C bs) x = Some ([], x') \<and>
    mOutIntEnable (xu_common x') = (mOutIntEnable (xu_common x) \<and> \<not> bit (bs ! 0) 3) \<and>
    mIntEnable (xu_common x') = (mIntEnable (xu_common x) \<and> \<not> bit (bs ! 0) 0 \<and> \<not> bit (bs ! 0) 2) \<and>
    mToIntEnable (xu_common x') = (mToIntEnable (xu_common x) \<and> \<not> bit (mLocalMem x ! 9) 0)"
proof -
  let ?tr = "register_access TLM_WRITE_COMMAND (mBaseAddress (mSpace x) + 0x0C) bs"
  note r = register_access_reaches [of x TLM_WRITE_COMMAND bs "0x0C", simplified]
  have bs: "bs \<noteq> []" using assms(2) by auto
  have m: "0x1000 \<le> length (mLocalMem x)" "size_of x = Some 0x1001" using assms(1) by (simp_all add: port_ok_def)
  define mem where "mem = take 12 (mLocalMem x) @ bs @ drop 16 (mLocalMem x)"
  have len: "length mem = length (mLocalMem x)" using m(1) assms(2) by (simp add: mem_def)
  have bits: "GET_BIT a i mem = Some (bit (mem ! (a + i div 8)) (i mod 8))" if "a + 8 \<le> 0x1000" "i < 64" for a i
    using that len m(1) by (auto simp: GET_BIT_def get64_def load_def bit_le_word)
  have nth: "mem ! 12 = bs ! 0" "mem ! 9 = mLocalMem x ! 9" using m(1) assms(2) by (simp_all add: mem_def nth_append)
  have "REG_WRITE 12 (payload_of ?tr, x) = Some (payload_of ?tr, x\<lparr>mLocalMem := mem\<rparr>)"
    using m(1) assms(2) by (simp add: REG_WRITE_def register_access_def payload_of_def store_def mem_def)
  then obtain p' x' where w: "write_IDR 12 (payload_of ?tr, x) = Some (p', x')"
    "mOutIntEnable (xu_common x') = (mOutIntEnable (xu_common x) \<and> \<not> bit (bs ! 0) 3)"
    "mIntEnable (xu_common x') = (mIntEnable (xu_common x) \<and> \<not> bit (bs ! 0) 0 \<and> \<not> bit (bs ! 0) 2)"
    "mToIntEnable (xu_common x') = (mToIntEnable (xu_common x) \<and> \<not> bit (mLocalMem x ! 9) 0)"
    by (cases "bit (bs ! 0) 3"; cases "bit (bs ! 0) 0"; cases "bit (bs ! 0) 2"; cases "bit (mLocalMem x ! 9) 0")
      (simp_all add: write_IDR_def when_bit_def bits nth)
  have "xu_write (payload_of ?tr) 0 x = Some (TLM_OK_RESPONSE, p', 0, x')"
    using r(3) assms bs w(1) by (simp add: xu_write_def Let_def REG_def)
  moreover have "cmd (payload_of ?tr) = TLM_WRITE_COMMAND" by (simp add: register_access_def payload_of_def)
  ultimately have "serial_step irq (RegWrite 0x0C bs) x = Some ([], x'\<lparr>mWriteCount := mWriteCount x' + ucast (len p')\<rparr>)"
    using r(1) assms bs m(2) by (simp add: xu_b_transport_def target_b_transport_def CoreFunction_def AccessFunction_def)
  then show ?thesis using w(2-4) by simp
qed

theorem disable_register_effect_witness:
  "\<exists>x'. serial_step record_line (RegWrite 0x0C [0, 1, 0, 0]) sample_port = Some ([], x') \<and> \<not> mIntEnable (xu_common x')"
  using disable_register_effect [of sample_port "[0, 1, 0, 0]" record_line] by (auto simp: sample_port_simps)

section \<open>The streams of the PrimeCell port\<close>

definition pl_b_transport :: "generic_payload \<Rightarrow> u64 \<Rightarrow> ('i, 'w) PL011Uart \<Rightarrow> (generic_payload \<times> u64 \<times> ('i, 'w) PL011Uart) option" where
  "pl_b_transport tr delay x = target_b_transport (Some pl_read) (Some pl_write) tr delay x"

fun pl_step :: "('i \<Rightarrow> u64 \<Rightarrow> u32 \<Rightarrow> 'w \<Rightarrow> 'w option) \<Rightarrow> serial_event \<Rightarrow> ('i, 'w) PL011Uart \<Rightarrow> (u8 list \<times> ('i, 'w) PL011Uart) option" where
  "pl_step irq (Arrive bs) x = Some ([], x\<lparr>pl_common := (pl_common x)\<lparr>chan_in := chan_in (pl_common x) @ bs\<rparr>\<rparr>)"
| "pl_step irq (RegRead off n) x =
     do {
       (tr, d, x) \<leftarrow> pl_b_transport (register_access TLM_READ_COMMAND (mBaseAddress (mSpace x) + off) (replicate n 0)) 0 x;
       data \<leftarrow> gp_data tr;
       Some (if off = 0 then take 1 data else [], x)
     }"
| "pl_step irq (RegWrite off bs) x =
     do { (tr, d, x) \<leftarrow> pl_b_transport (register_access TLM_WRITE_COMMAND (mBaseAddress (mSpace x) + off) bs) 0 x; Some ([], x) }"
| "pl_step irq Poll x = map_option (\<lambda>(_, x). ([], x)) (pl_poll irq x)"

fun pl_event_ok :: "serial_event \<Rightarrow> bool" where
  "pl_event_ok (RegRead off n) \<longleftrightarrow> 4 \<le> n \<and> unat off + n \<le> 0x1000"
| "pl_event_ok (RegWrite off bs) \<longleftrightarrow> 4 \<le> length bs \<and> unat off + length bs \<le> 0x1000"
| "pl_event_ok _ \<longleftrightarrow> True"

fun pl_takes :: "serial_event \<Rightarrow> bool" where
  "pl_takes (RegRead off n) \<longleftrightarrow> off = 0"
| "pl_takes _ \<longleftrightarrow> False"

fun pl_departures :: "serial_event \<Rightarrow> u8 list" where
  "pl_departures (RegWrite off bs) = (if off = 0 then take 1 bs else [])"
| "pl_departures _ = []"

definition pl_ok :: "('i, 'w) PL011Uart \<Rightarrow> bool" where
  "pl_ok x \<longleftrightarrow> size_of x = Some 0x1001 \<and> unat (mBaseAddress (mSpace x)) + 0x1001 < 2 ^ 64 \<and> \<not> mByteEnable x"

lemma pl_ok_simps [simp]:
  "pl_ok (x\<lparr>mReadCount := k\<rparr>) \<longleftrightarrow> pl_ok x" "pl_ok (x\<lparr>mWriteCount := k\<rparr>) \<longleftrightarrow> pl_ok x" "pl_ok (x\<lparr>pl_common := u\<rparr>) \<longleftrightarrow> pl_ok x"
  "pl_ok (x\<lparr>mRxReady := r\<rparr>) \<longleftrightarrow> pl_ok x" "pl_ok (x\<lparr>mLocalWords := ws\<rparr>) \<longleftrightarrow> pl_ok x"
  by (simp_all add: pl_ok_def size_of_def)

lemma note_input_simps [simp]: "pl_common (note_input x) = pl_common x" "pl_ok (note_input x) \<longleftrightarrow> pl_ok x"
  by (simp_all add: note_input_def)

lemma pl_read_streams:
  assumes "ptr p = Some data" "4 \<le> length data" "pl_ok x" "addr p = mBaseAddress (mSpace x) \<Longrightarrow> chan_in (pl_common x) \<noteq> []"
  shows "\<exists>p' x' data'. pl_read p 0 x = Some (TLM_OK_RESPONSE, p', 0, x') \<and> pl_ok x' \<and> ptr p' = Some data' \<and> chan_out (pl_common x') = chan_out (pl_common x) \<and>
    (if addr p = mBaseAddress (mSpace x) then data' \<noteq> [] \<and> chan_in (pl_common x) = hd data' # chan_in (pl_common x') else chan_in (pl_common x') = chan_in (pl_common x))"
  using assms by (cases "chan_in (pl_common x)"; cases data)
    (auto simp: pl_read_def put_word_def common_readByte_def Let_def right_minus_eq le_bytes_def upt_conv_Cons)

lemma pl_write_streams:
  assumes "ptr p = Some data" "4 \<le> length data" "pl_ok x"
  shows "\<exists>x'. pl_write p 0 x = Some (TLM_OK_RESPONSE, p, 0, x') \<and> pl_ok x' \<and> chan_in (pl_common x') = chan_in (pl_common x) \<and>
    chan_out (pl_common x') = chan_out (pl_common x) @ (if addr p = mBaseAddress (mSpace x) then take 1 data else [])"
  using assms by (cases data) (auto simp: pl_write_def get_word_def common_writeByte_def Let_def right_minus_eq)

lemma pl_access_reaches:
  assumes "pl_ok x" "c = TLM_READ_COMMAND \<or> c = TLM_WRITE_COMMAND" "4 \<le> length bs" "unat off + length bs \<le> 0x1000"
  shows "access_error (payload_of (register_access c (mBaseAddress (mSpace x) + off) bs)) 0x1001 x = None" "size_of x = Some 0x1001"
    "addr (payload_of (register_access c (mBaseAddress (mSpace x) + off) bs)) = mBaseAddress (mSpace x) \<longleftrightarrow> off = 0"
    "ptr (payload_of (register_access c (mBaseAddress (mSpace x) + off) bs)) = Some bs"
    "cmd (payload_of (register_access c (mBaseAddress (mSpace x) + off) bs)) = c"
proof -
  have "bs \<noteq> []" using assms(3) by auto
  then show "access_error (payload_of (register_access c (mBaseAddress (mSpace x) + off) bs)) 0x1001 x = None" "size_of x = Some 0x1001"
    using register_access_fits [of x c bs off] assms by (auto simp: pl_ok_def)
qed (auto simp: register_access_def payload_of_def)

lemma pl_poll_streams:
  assumes "pl_ok x" "takes_calls irq"
  shows "\<exists>x'. pl_step irq Poll x = Some ([], x') \<and> pl_ok x' \<and> chan_in (pl_common x') = chan_in (pl_common x) \<and> chan_out (pl_common x') = chan_out (pl_common x)"
proof (cases "mInterruptParent (mSource (pl_common x))")
  case None
  then show ?thesis using assms(1) by (simp add: pl_poll_def interruptLoop_def)
next
  case (Some i)
  have irq: "\<exists>w'. irq i v l w = Some w'" for i v l w using assms(2) by (simp add: takes_calls_def)
  obtain w0 w1 where "irq i 0 (mInterruptLine (mSource (pl_common x))) (uart_world (pl_common x)) = Some w0"
    "irq i 1 (mInterruptLine (mSource (pl_common x))) (uart_world (pl_common x)) = Some w1" using irq by blast
  then show ?thesis using assms(1) Some by (auto simp: pl_poll_def interruptLoop_def Let_def)
qed

lemma pl_step_streams:
  assumes "pl_ok x \<and> takes_calls irq" "pl_event_ok e" "pl_takes e \<Longrightarrow> chan_in (pl_common x) \<noteq> []"
  shows "\<exists>got x'. pl_step irq e x = Some (got, x') \<and> (pl_ok x' \<and> takes_calls irq) \<and> got @ chan_in (pl_common x') = chan_in (pl_common x) @ arrivals e \<and>
    chan_out (pl_common x') = chan_out (pl_common x) @ pl_departures e \<and> length got = of_bool (pl_takes e)"
proof -
  have x: "pl_ok x" "takes_calls irq" using assms(1) by auto
  show ?thesis
  proof (cases e)
    case (Arrive bs)
    then show ?thesis using x by simp
  next
    case (RegRead off n)
    let ?tr = "register_access TLM_READ_COMMAND (mBaseAddress (mSpace x) + off) (replicate n 0)"
    have n: "4 \<le> n" "unat off + n \<le> 0x1000" using assms(2) RegRead by auto
    note r = pl_access_reaches [of x TLM_READ_COMMAND "replicate n 0" off, simplified, OF x(1) n]
    obtain p' x' data' where x': "pl_read (payload_of ?tr) 0 x = Some (TLM_OK_RESPONSE, p', 0, x')" "pl_ok x'" "ptr p' = Some data'"
      "chan_out (pl_common x') = chan_out (pl_common x)"
      "if off = 0 then data' \<noteq> [] \<and> chan_in (pl_common x) = hd data' # chan_in (pl_common x') else chan_in (pl_common x') = chan_in (pl_common x)"
      using pl_read_streams [OF r(4) _ x(1)] n r(3) assms(3) RegRead by auto
    have "pl_step irq e x = Some (if off = 0 then take 1 data' else [], x'\<lparr>mReadCount := mReadCount x' + ucast (len p')\<rparr>)"
      using r(1,2,5) x'(1,3) RegRead by (simp add: pl_b_transport_def target_b_transport_def CoreFunction_def AccessFunction_def)
    then show ?thesis using x'(2,4,5) x(2) RegRead by (cases data') (auto split: if_splits)
  next
    case (RegWrite off bs)
    let ?tr = "register_access TLM_WRITE_COMMAND (mBaseAddress (mSpace x) + off) bs"
    have n: "4 \<le> length bs" "unat off + length bs \<le> 0x1000" using assms(2) RegWrite by auto
    note r = pl_access_reaches [of x TLM_WRITE_COMMAND bs off, simplified, OF x(1) n]
    obtain x' where x': "pl_write (payload_of ?tr) 0 x = Some (TLM_OK_RESPONSE, payload_of ?tr, 0, x')" "pl_ok x'" "chan_in (pl_common x') = chan_in (pl_common x)"
      "chan_out (pl_common x') = chan_out (pl_common x) @ (if off = 0 then take 1 bs else [])"
      using pl_write_streams [OF r(4) n(1) x(1)] r(3) by auto
    have "pl_step irq e x = Some ([], x'\<lparr>mWriteCount := mWriteCount x' + ucast (len (payload_of ?tr))\<rparr>)"
      using r(1,2,5) x'(1) RegWrite by (simp add: pl_b_transport_def target_b_transport_def CoreFunction_def AccessFunction_def)
    then show ?thesis using x'(2-4) x(2) RegWrite by simp
  next
    case Poll
    then show ?thesis using pl_poll_streams [OF x] x(2) by fastforce
  qed
qed

interpretation primecell: byte_port "pl_step irq" "\<lambda>x. pl_ok x \<and> takes_calls irq" pl_event_ok pl_takes arrivals pl_departures
  "\<lambda>x. chan_in (pl_common x)" "\<lambda>x. chan_out (pl_common x)" for irq
  by unfold_locales (rule pl_step_streams)

lemma primecell_streams_in_order:
  assumes "pl_ok x" "takes_calls irq" "\<forall>e\<in>set es. pl_event_ok e" "covered pl_takes arrivals (length (chan_in (pl_common x))) es"
  shows "\<exists>got x'. byte_run (pl_step irq) es x = Some (got, x') \<and> got @ chan_in (pl_common x') = chan_in (pl_common x) @ concat (map arrivals es) \<and>
    chan_out (pl_common x') = chan_out (pl_common x) @ concat (map pl_departures es) \<and> length got = length (filter pl_takes es)"
  using primecell.run_streams [of x irq es] assms by blast

section \<open>What the simple port prints\<close>

text \<open>The first byte of the local memory stays zero, so a write prints a zero whatever it writes.\<close>

lemma simple_port_prints_zero:
  assumes "uart_b_transport ch tr delay t = Some (tr', delay', t')" "8 \<le> length (mLocalMem t)" "mLocalMem t ! 0 = 0" "set (console t) \<subseteq> {0}"
  shows "8 \<le> length (mLocalMem t') \<and> mLocalMem t' ! 0 = 0 \<and> set (console t') \<subseteq> {0}"
  using assms
  by (auto simp: uart_b_transport_def target_b_transport_def CoreFunction_def AccessFunction_def uart_read_def uart_write_def set32_def store_def Let_def nth_append
      hd_conv_nth osimps split: option.splits if_splits)

end
