(* ===== verification/CosimThreads.thy ===== *)
theory CosimThreads
  imports VP_Prelude "HOL-Library.Multiset" "HOL-Library.Product_Lexorder"
begin

text \<open>
  The decoupling of the instruction-set simulator from the memory simulation (\<open>components/include/components/MainMemCosim.hpp\<close>). The thread of the simulator
  pushes requests marked with an epoch and a time into a concurrent priority queue and asks, at the start of every epoch, for the delays of its requests; a
  second thread takes the requests out of the queue and hands them to the memory simulators. The threads share the queue, two epoch counters and two locks.
  A schedule says which thread takes the next step; a step reads or writes the shared state once, or holds a lock. The accesses to the counters,
  no_roi variables in the code, are taken as atomic. The queue (of a third-party library) and the memory simulators are arguments, with the laws of the locales
  \<open>request_queue\<close> and \<open>epoch_store\<close>.
\<close>

section \<open>Requests\<close>

datatype NotifyType = CPU | DEVICE | SESAMCOMMAND

record Req =
  rq_type :: NotifyType
  rq_phys :: u64
  rq_size :: u32
  rq_id :: u32
  rq_time_stamp :: u64
  rq_write :: u8
  rq_tag :: u64
  rq_epoch :: u64
  rq_fetch :: u8

definition compare_Req :: "Req \<Rightarrow> Req \<Rightarrow> bool" where
  "compare_Req u v \<longleftrightarrow> rq_epoch u > rq_epoch v \<or> rq_epoch u = rq_epoch v \<and> rq_time_stamp u > rq_time_stamp v"

text \<open>The queue: what is popped is not below any other entry.\<close>

record 'q pq_ops =
  pq_push :: "Req \<Rightarrow> 'q \<Rightarrow> 'q"
  pq_try_pop :: "'q \<Rightarrow> (Req \<times> 'q) option"

locale request_queue =
  fixes ops :: "'q pq_ops" and entries :: "'q \<Rightarrow> Req multiset"
  assumes push_entries: "entries (pq_push ops k q) = add_mset k (entries q)"
    and pop_empty: "pq_try_pop ops q = None \<longleftrightarrow> entries q = {#}"
    and pop_entries: "pq_try_pop ops q = Some (k, q') \<Longrightarrow> entries q = add_mset k (entries q')"
    and pop_first: "\<lbrakk>pq_try_pop ops q = Some (k, q'); k' \<in># entries q'\<rbrakk> \<Longrightarrow> \<not> compare_Req k k'"

section \<open>The thread of the instruction-set simulator\<close>

text \<open>What only this thread writes. The three notification functions are switched together: \<open>Notify_on\<close> tells which ones are set.\<close>

record cosim_cpu =
  Notify_on :: bool
  focusOnROI :: bool
  Buffer :: Req
  CpuEpoch :: u64
  epoch_sc_time :: u64
  current_time_stamp :: u64
  nMainMemCb :: nat
  cb_calls :: "(nat \<times> bool) list"

datatype cpu_act =
    Notify u32 u64 u8 u64 u32
  | NotifyFetchMiss u32 u64 u32
  | NotifyIO u32 u64 u8 u64 u32 u64
  | NotifySesamCommand u64 bool
  | setFocusOnROI bool
  | FillBiases nat u64

definition MAX_QUANTUM :: u64 where
  "MAX_QUANTUM = 0xFFFF"

definition proceedNotify :: "u32 \<Rightarrow> u64 \<Rightarrow> u8 \<Rightarrow> u64 \<Rightarrow> u32 \<Rightarrow> cosim_cpu \<Rightarrow> cosim_cpu" where
  "proceedNotify cpu exec write phys sz c =
     (let now = exec + epoch_sc_time c
      in c\<lparr>current_time_stamp := now,
           Buffer := (Buffer c)\<lparr>rq_type := CPU, rq_id := cpu, rq_write := write, rq_phys := phys, rq_size := sz, rq_fetch := 0, rq_epoch := CpuEpoch c,
             rq_time_stamp := now\<rparr>\<rparr>)"

definition haltNotify :: "u64 \<Rightarrow> cosim_cpu \<Rightarrow> cosim_cpu" where
  "haltNotify exec c = c\<lparr>current_time_stamp := exec + epoch_sc_time c\<rparr>"

definition proceedNotifyFetchMiss :: "u32 \<Rightarrow> u64 \<Rightarrow> u32 \<Rightarrow> cosim_cpu \<Rightarrow> cosim_cpu" where
  "proceedNotifyFetchMiss cpu phys sz c =
     c\<lparr>Buffer := (Buffer c)\<lparr>rq_type := CPU, rq_id := cpu, rq_write := 0, rq_fetch := 1, rq_phys := phys, rq_size := sz, rq_epoch := CpuEpoch c,
       rq_time_stamp := current_time_stamp c\<rparr>\<rparr>"

definition proceedNotifyIO :: "u32 \<Rightarrow> u64 \<Rightarrow> u8 \<Rightarrow> u64 \<Rightarrow> u32 \<Rightarrow> u64 \<Rightarrow> cosim_cpu \<Rightarrow> cosim_cpu" where
  "proceedNotifyIO device exec write phys sz tag c =
     c\<lparr>Buffer := (Buffer c)\<lparr>rq_type := DEVICE, rq_id := device, rq_write := write, rq_phys := phys, rq_size := sz, rq_epoch := CpuEpoch c,
       rq_time_stamp := exec + epoch_sc_time c, rq_tag := tag\<rparr>\<rparr>"

definition set_focus :: "bool \<Rightarrow> cosim_cpu \<Rightarrow> cosim_cpu" where
  "set_focus focus c = c\<lparr>focusOnROI := focus, Notify_on := \<not> focus\<rparr>"

definition sesam_command :: "u64 \<Rightarrow> bool \<Rightarrow> cosim_cpu \<Rightarrow> cosim_cpu" where
  "sesam_command counter start c =
     (let c = c\<lparr>Buffer := (Buffer c)\<lparr>rq_type := SESAMCOMMAND, rq_tag := counter, rq_write := (if start then 1 else 0), rq_epoch := CpuEpoch c\<rparr>\<rparr>;
          c = (if focusOnROI c then c\<lparr>Notify_on := start, cb_calls := cb_calls c @ map (\<lambda>i. (i, start)) [0..<nMainMemCb c]\<rparr> else c)
      in c\<lparr>Buffer := (Buffer c)\<lparr>rq_time_stamp := (if start then epoch_sc_time c - 1 else epoch_sc_time c + MAX_QUANTUM + 1)\<rparr>\<rparr>)"

text \<open>A notification: whether the buffer is pushed, and the state after it.\<close>

fun cpu_notify :: "cpu_act \<Rightarrow> cosim_cpu \<Rightarrow> bool \<times> cosim_cpu" where
  "cpu_notify (Notify cpu exec write phys sz) c =
     (if Notify_on c then (True, proceedNotify cpu exec write phys sz c) else (False, haltNotify exec c))"
| "cpu_notify (NotifyFetchMiss cpu phys sz) c = (if Notify_on c then (True, proceedNotifyFetchMiss cpu phys sz c) else (False, c))"
| "cpu_notify (NotifyIO device exec write phys sz tag) c =
     (if Notify_on c then (True, proceedNotifyIO device exec write phys sz tag c) else (False, c))"
| "cpu_notify (NotifySesamCommand counter start) c = (True, sesam_command counter start c)"
| "cpu_notify (setFocusOnROI focus) c = (False, set_focus focus c)"
| "cpu_notify (FillBiases n now) c = (False, c\<lparr>CpuEpoch := CpuEpoch c + 1\<rparr>)"

text \<open>A command that starts a capture in the first nanosecond is dated to the end of time, so it follows every request of its epoch.\<close>

lemma start_command_last: "epoch_sc_time c = 0 \<Longrightarrow> rq_time_stamp (Buffer (sesam_command counter True c)) = - 1"
  by (simp add: sesam_command_def Let_def)

section \<open>The two threads\<close>

text \<open>Where the threads are. The call of \<open>FillBiases\<close> has been counted when its thread waits, then takes the lock and collects the delays.\<close>

datatype cpu_pc = Running | Waiting nat u64 | Locking nat u64 | Filling nat u64

datatype mem_pc = Top | Spin u64 | Pop u64 | Popped u64 Req | Body u64 Req | More u64 | Unlock u64 bool | Ended

record ('q, 'c) cosim_env =
  cs_queue :: "'q pq_ops"
  cs_insert :: "u64 \<Rightarrow> Req \<Rightarrow> 'c \<Rightarrow> 'c option"
  cs_fill :: "nat \<Rightarrow> u64 \<Rightarrow> 'c \<Rightarrow> (u64 list \<times> 'c) option"

record ('q, 'c) cosim =
  cpu :: cosim_cpu
  todo :: "cpu_act list"
  cpu_at :: cpu_pc
  biases :: "u64 list list"
  MemEpoch :: u64
  mem_at :: mem_pc
  PQ :: 'q
  Mut :: "bool list"
  Stopped :: bool
  simulators :: 'c

definition EPOCHS :: u64 where
  "EPOCHS = 2"

definition lock_of :: "u64 \<Rightarrow> nat" where
  "lock_of e = unat (e mod EPOCHS)"

text \<open>A step of the simulator thread: the next call of its program, or the next part of \<open>FillBiases\<close>. While the notifications are off, \<open>FillBiases\<close> reports zero.\<close>

definition iss_step :: "('q, 'c) cosim_env \<Rightarrow> ('q, 'c) cosim \<Rightarrow> ('q, 'c) cosim option" where
  "iss_step env s =
     (case cpu_at s of
        Running \<Rightarrow>
          (case todo s of
             [] \<Rightarrow> Some s
           | a # as \<Rightarrow>
               let (push, c) = cpu_notify a (cpu s);
                   s = s\<lparr>todo := as, cpu := c, PQ := (if push then pq_push (cs_queue env) (Buffer c) (PQ s) else PQ s)\<rparr>
               in case a of
                    FillBiases n now \<Rightarrow>
                      if Notify_on c then Some (s\<lparr>cpu_at := Waiting n now\<rparr>)
                      else Some (s\<lparr>cpu := c\<lparr>epoch_sc_time := now\<rparr>, biases := biases s @ [replicate n 0]\<rparr>)
                  | _ \<Rightarrow> Some s)
      | Waiting n now \<Rightarrow> Some (if MemEpoch s + EPOCHS \<le> CpuEpoch (cpu s) then s else s\<lparr>cpu_at := Locking n now\<rparr>)
      | Locking n now \<Rightarrow>
          let i = lock_of (CpuEpoch (cpu s))
          in Some (if Mut s ! i then s else s\<lparr>Mut := (Mut s)[i := True], cpu_at := Filling n now\<rparr>)
      | Filling n now \<Rightarrow>
          do {
            (ts, c) \<leftarrow> cs_fill env n (CpuEpoch (cpu s)) (simulators s);
            Some (s\<lparr>simulators := c, Mut := (Mut s)[lock_of (CpuEpoch (cpu s)) := False], cpu := (cpu s)\<lparr>epoch_sc_time := now\<rparr>,
                    biases := biases s @ [ts], cpu_at := Running\<rparr>)
          })"

definition put_back :: "('q, 'c) cosim_env \<Rightarrow> Req \<Rightarrow> ('q, 'c) cosim \<Rightarrow> ('q, 'c) cosim" where
  "put_back env k s = s\<lparr>PQ := pq_push (cs_queue env) k (PQ s), MemEpoch := rq_epoch k\<rparr>"

text \<open>A step of the memory thread. Once the simulation is stopped, the waiting loop is left and one more round is made.\<close>

definition mem_step :: "('q, 'c) cosim_env \<Rightarrow> ('q, 'c) cosim \<Rightarrow> ('q, 'c) cosim option" where
  "mem_step env s =
     (case mem_at s of
        Top \<Rightarrow> Some (s\<lparr>mem_at := (if Stopped s then Ended else Spin (MemEpoch s))\<rparr>)
      | Spin tmp \<Rightarrow> Some (if tmp \<ge> CpuEpoch (cpu s) \<and> \<not> Stopped s then s else s\<lparr>mem_at := Pop tmp\<rparr>)
      | Pop tmp \<Rightarrow>
          (case pq_try_pop (cs_queue env) (PQ s) of
             None \<Rightarrow> Some (s\<lparr>MemEpoch := MemEpoch s + 1, mem_at := Top\<rparr>)
           | Some (k, q) \<Rightarrow> Some (s\<lparr>PQ := q, mem_at := Popped tmp k\<rparr>))
      | Popped tmp k \<Rightarrow>
          if tmp \<noteq> rq_epoch k then Some ((put_back env k s)\<lparr>mem_at := Top\<rparr>)
          else Some (if Mut s ! lock_of tmp then s else s\<lparr>Mut := (Mut s)[lock_of tmp := True], mem_at := Body tmp k\<rparr>)
      | Body tmp k \<Rightarrow>
          if tmp \<noteq> rq_epoch k then Some ((put_back env k s)\<lparr>mem_at := Unlock tmp True\<rparr>)
          else do {
            c \<leftarrow> cs_insert env (MemEpoch s) k (simulators s);
            Some (s\<lparr>simulators := c, mem_at := (if rq_type k = SESAMCOMMAND then Unlock tmp True else More tmp)\<rparr>)
          }
      | More tmp \<Rightarrow>
          (case pq_try_pop (cs_queue env) (PQ s) of
             None \<Rightarrow> Some (s\<lparr>mem_at := Unlock tmp False\<rparr>)
           | Some (k, q) \<Rightarrow> Some (s\<lparr>PQ := q, mem_at := Body tmp k\<rparr>))
      | Unlock tmp exitLoop \<Rightarrow>
          Some (s\<lparr>Mut := (Mut s)[lock_of tmp := False], MemEpoch := (if exitLoop then MemEpoch s else MemEpoch s + 1), mem_at := Top\<rparr>)
      | Ended \<Rightarrow> Some s)"

text \<open>A schedule: who takes the next step.\<close>

datatype turn = Cpu_turn | Mem_turn

fun cosim_run :: "('q, 'c) cosim_env \<Rightarrow> turn list \<Rightarrow> ('q, 'c) cosim \<Rightarrow> ('q, 'c) cosim option" where
  "cosim_run env [] s = Some s"
| "cosim_run env (Cpu_turn # sch) s = Option.bind (iss_step env s) (cosim_run env sch)"
| "cosim_run env (Mem_turn # sch) s = Option.bind (mem_step env s) (cosim_run env sch)"

definition cosim_start :: "cosim_cpu \<Rightarrow> cpu_act list \<Rightarrow> 'q \<Rightarrow> 'c \<Rightarrow> ('q, 'c) cosim" where
  "cosim_start c prog q sims = \<lparr>cpu = c, todo = prog, cpu_at = Running, biases = [], MemEpoch = 0, mem_at = Top, PQ = q, Mut = [False, False], Stopped = False,
     simulators = sims\<rparr>"

lemma lock_of_bound: "lock_of e < 2"
  by (simp add: lock_of_def EPOCHS_def unat_mod_distrib)

section \<open>The order of the requests\<close>

definition in_order :: "Req \<Rightarrow> Req \<Rightarrow> bool" where
  "in_order a b \<longleftrightarrow> \<not> compare_Req a b"

definition ep :: "Req \<Rightarrow> nat" where
  "ep k = unat (rq_epoch k)"

lemma in_order_alt: "in_order a b \<longleftrightarrow> ep a < ep b \<or> ep a = ep b \<and> rq_time_stamp a \<le> rq_time_stamp b"
  by (auto simp: in_order_def compare_Req_def ep_def word_less_nat_alt word_le_nat_alt word_unat_eq_iff)

lemma in_order_ep: "in_order a b \<Longrightarrow> ep a \<le> ep b"
  by (auto simp: in_order_alt)

text \<open>The requests a program of the simulator thread issues.\<close>

fun after_act :: "cpu_act \<Rightarrow> cosim_cpu \<Rightarrow> cosim_cpu" where
  "after_act (FillBiases n now) c = c\<lparr>epoch_sc_time := now\<rparr>"
| "after_act a c = c"

fun issues :: "cosim_cpu \<Rightarrow> cpu_act list \<Rightarrow> Req list" where
  "issues c [] = []"
| "issues c (a # as) = (if fst (cpu_notify a c) then [Buffer (snd (cpu_notify a c))] else []) @ issues (after_act a (snd (cpu_notify a c))) as"

fun fill_args :: "cpu_act list \<Rightarrow> nat list" where
  "fill_args [] = []"
| "fill_args (FillBiases n now # as) = n # fill_args as"
| "fill_args (a # as) = fill_args as"

text \<open>The program never restricts the simulation to a region of interest.\<close>

definition no_roi :: "cpu_act list \<Rightarrow> bool" where
  "no_roi prog \<longleftrightarrow> setFocusOnROI True \<notin> set prog"

text \<open>The same work in one thread: before the delays of epoch \<open>e\<close> are collected, the requests of epoch \<open>e - 2\<close> are handed over, in order.\<close>

fun insert_all :: "('q, 'c) cosim_env \<Rightarrow> Req list \<Rightarrow> 'c \<Rightarrow> 'c option" where
  "insert_all env [] c = Some c"
| "insert_all env (k # ks) c = Option.bind (cs_insert env (rq_epoch k) k c) (insert_all env ks)"

fun sequential :: "('q, 'c) cosim_env \<Rightarrow> Req list \<Rightarrow> nat \<Rightarrow> nat list \<Rightarrow> 'c \<Rightarrow> (u64 list list \<times> 'c) option" where
  "sequential env log e [] c = Some ([], c)"
| "sequential env log e (n # ns) c =
     do {
       c \<leftarrow> insert_all env [k \<leftarrow> log. ep k + 2 = e] c;
       (ts, c) \<leftarrow> cs_fill env n (of_nat e) c;
       (tss, c) \<leftarrow> sequential env log (Suc e) ns c;
       Some (ts # tss, c)
     }"

lemma insert_all_append: "insert_all env (ks @ ls) c = Option.bind (insert_all env ks c) (insert_all env ls)"
  by (induction ks arbitrary: c) (simp_all split: Option.bind_splits)

lemma sequential_append:
  "sequential env log e (ns @ [n]) c =
     do {
       (tss, c) \<leftarrow> sequential env log e ns c;
       c \<leftarrow> insert_all env [k \<leftarrow> log. ep k + 2 = e + length ns] c;
       (ts, c) \<leftarrow> cs_fill env n (of_nat (e + length ns)) c;
       Some (tss @ [ts], c)
     }"
proof (induction ns arbitrary: e c)
  case Nil
  then show ?case by (cases "insert_all env [k \<leftarrow> log. ep k + 2 = e] c") (auto simp: case_prod_unfold)
next
  case (Cons m ns)
  have "e + length (m # ns) = Suc e + length ns" by simp
  then show ?case unfolding append_Cons sequential.simps Cons.IH
    by (auto simp: split_beta Option.bind_assoc intro!: Option.bind_cong)
qed

lemma sequential_later:
  "(\<And>k. k \<in> set ks \<Longrightarrow> e + length ns < ep k + 3) \<Longrightarrow> sequential env (log @ ks) e ns c = sequential env log e ns c"
proof (induction ns arbitrary: e c)
  case (Cons n ns)
  have "[k \<leftarrow> ks. ep k + 2 = e] = []" using Cons.prems by (fastforce simp: filter_empty_conv)
  then show ?case using Cons.IH [of "Suc e"] Cons.prems by simp
qed simp

section \<open>What the threads rely on\<close>

locale epoch_store =
  fixes env :: "('q, 'c) cosim_env" and ok :: "'c \<Rightarrow> bool" and legal :: "Req \<Rightarrow> bool" and max_cpus :: nat
  assumes insert_total: "\<lbrakk>ok c; legal k\<rbrakk> \<Longrightarrow> \<exists>c'. cs_insert env e k c = Some c' \<and> ok c'"
    and fill_total: "\<lbrakk>ok c; n \<le> max_cpus\<rbrakk> \<Longrightarrow> \<exists>ts c'. cs_fill env n e c = Some (ts, c') \<and> ok c'"
    and slots_apart: "\<lbrakk>ok c; legal k; n \<le> max_cpus; lock_of e \<noteq> lock_of f; cs_insert env e k c = Some c1; cs_fill env n f c = Some (ts, c2)\<rbrakk> \<Longrightarrow>
      \<exists>c3. cs_fill env n f c1 = Some (ts, c3) \<and> cs_insert env e k c2 = Some c3"
begin

lemma insert_all_total: "ok c \<Longrightarrow> \<forall>k\<in>set ks. legal k \<Longrightarrow> \<exists>c'. insert_all env ks c = Some c' \<and> ok c'"
proof (induction ks arbitrary: c)
  case (Cons k ks)
  obtain c1 where "cs_insert env (rq_epoch k) k c = Some c1" "ok c1" using insert_total [OF Cons.prems(1), of k "rq_epoch k"] Cons.prems(2) by auto
  then show ?case using Cons.IH [of c1] Cons.prems(2) by auto
qed simp

lemma fill_swap:
  assumes "ok c" "\<forall>k\<in>set ks. legal k \<and> lock_of (rq_epoch k) \<noteq> lock_of f" "n \<le> max_cpus" "insert_all env ks c = Some c1" "cs_fill env n f c = Some (ts, c2)"
  shows "\<exists>c3. cs_fill env n f c1 = Some (ts, c3) \<and> insert_all env ks c2 = Some c3"
  using assms
proof (induction ks arbitrary: c c2)
  case (Cons k ks)
  obtain d where d: "cs_insert env (rq_epoch k) k c = Some d" "insert_all env ks d = Some c1" using Cons.prems(4) by (auto simp: osimps)
  have "ok d" using insert_total [OF Cons.prems(1)] Cons.prems(2) d(1) by (metis list.set_intros(1) option.inject)
  moreover obtain d2 where d2: "cs_fill env n f d = Some (ts, d2)" "cs_insert env (rq_epoch k) k c2 = Some d2"
    using slots_apart [OF Cons.prems(1) _ Cons.prems(3) _ d(1) Cons.prems(5)] Cons.prems(2) by auto
  ultimately show ?case using Cons.IH [of d d2] Cons.prems(2,3) d(2) by simp
qed simp

end

section \<open>The state of the threads\<close>

fun in_hand :: "mem_pc \<Rightarrow> Req multiset" where
  "in_hand (Popped tmp k) = {#k#}"
| "in_hand (Body tmp k) = {#k#}"
| "in_hand _ = {#}"

fun resumed :: "cpu_pc \<Rightarrow> cosim_cpu \<Rightarrow> cosim_cpu" where
  "resumed Running c = c"
| "resumed (Waiting n now) c = c\<lparr>epoch_sc_time := now\<rparr>"
| "resumed (Locking n now) c = c\<lparr>epoch_sc_time := now\<rparr>"
| "resumed (Filling n now) c = c\<lparr>epoch_sc_time := now\<rparr>"

fun filling_arg :: "cpu_pc \<Rightarrow> nat list" where
  "filling_arg Running = []"
| "filling_arg (Waiting n now) = [n]"
| "filling_arg (Locking n now) = [n]"
| "filling_arg (Filling n now) = [n]"

text \<open>What holds of the memory thread at each of its places: its local copy of the epoch, and the requests left for that epoch.\<close>

definition firsts :: "u64 \<Rightarrow> Req \<Rightarrow> Req multiset \<Rightarrow> bool" where
  "firsts me k q \<longleftrightarrow> (\<forall>k'\<in>#q. ep k \<le> ep k' \<and> (rq_epoch k = me \<longrightarrow> in_order k k'))"

fun place_ok :: "u64 \<Rightarrow> u64 \<Rightarrow> Req multiset \<Rightarrow> mem_pc \<Rightarrow> bool" where
  "place_ok ce me q Top \<longleftrightarrow> True"
| "place_ok ce me q (Spin tmp) \<longleftrightarrow> tmp = me"
| "place_ok ce me q (Pop tmp) \<longleftrightarrow> tmp = me \<and> me < ce"
| "place_ok ce me q (Popped tmp k) \<longleftrightarrow> tmp = me \<and> me < ce \<and> firsts me k q"
| "place_ok ce me q (Body tmp k) \<longleftrightarrow> tmp = me \<and> me < ce \<and> firsts me k q"
| "place_ok ce me q (More tmp) \<longleftrightarrow> tmp = me \<and> me < ce"
| "place_ok ce me q (Unlock tmp exitLoop) \<longleftrightarrow> (\<not> exitLoop \<longrightarrow> tmp = me \<and> me < ce \<and> (\<forall>k\<in>#q. me < rq_epoch k))"
| "place_ok ce me q Ended \<longleftrightarrow> False"

text \<open>Which locks are held.\<close>

fun mem_locks :: "mem_pc \<Rightarrow> nat set" where
  "mem_locks (Body tmp k) = {lock_of tmp}"
| "mem_locks (More tmp) = {lock_of tmp}"
| "mem_locks (Unlock tmp exitLoop) = {lock_of tmp}"
| "mem_locks _ = {}"

fun cpu_locks :: "u64 \<Rightarrow> cpu_pc \<Rightarrow> nat set" where
  "cpu_locks ce (Filling n now) = {lock_of ce}"
| "cpu_locks ce _ = {}"

definition cpu_ok :: "cpu_act list \<Rightarrow> ('q, 'c) cosim \<Rightarrow> bool" where
  "cpu_ok prog s \<longleftrightarrow> Notify_on (cpu s) \<and> \<not> focusOnROI (cpu s) \<and> \<not> Stopped s \<and> no_roi (todo s) \<and>
     unat (CpuEpoch (cpu s)) + length (todo s) \<le> length prog \<and>
     unat (CpuEpoch (cpu s)) = length (biases s) + length (filling_arg (cpu_at s)) \<and>
     take (length (biases s)) (fill_args prog) @ filling_arg (cpu_at s) @ fill_args (todo s) = fill_args prog"

definition outstanding :: "('q \<Rightarrow> Req multiset) \<Rightarrow> ('q, 'c) cosim \<Rightarrow> Req multiset" where
  "outstanding entries s = entries (PQ s) + in_hand (mem_at s)"

definition order_ok :: "('q \<Rightarrow> Req multiset) \<Rightarrow> Req list \<Rightarrow> ('q, 'c) cosim \<Rightarrow> bool" where
  "order_ok entries log s \<longleftrightarrow> sorted_wrt in_order log \<and> (\<forall>k\<in>set log. ep k < unat (CpuEpoch (cpu s)) \<and> (\<forall>k'\<in>#outstanding entries s. in_order k k')) \<and>
     (\<forall>k\<in>#outstanding entries s. unat (MemEpoch s) \<le> ep k \<and> ep k \<le> unat (CpuEpoch (cpu s))) \<and>
     MemEpoch s \<le> CpuEpoch (cpu s) \<and> place_ok (CpuEpoch (cpu s)) (MemEpoch s) (entries (PQ s)) (mem_at s)"

definition issued_ok :: "('q \<Rightarrow> Req multiset) \<Rightarrow> cosim_cpu \<Rightarrow> cpu_act list \<Rightarrow> Req list \<Rightarrow> ('q, 'c) cosim \<Rightarrow> bool" where
  "issued_ok entries start prog log s \<longleftrightarrow>
     (\<exists>pushed. mset log + outstanding entries s = mset pushed \<and> pushed @ issues (resumed (cpu_at s) (cpu s)) (todo s) = issues start prog)"

definition locks_ok :: "('q, 'c) cosim \<Rightarrow> bool" where
  "locks_ok s \<longleftrightarrow> length (Mut s) = 2 \<and> mem_locks (mem_at s) \<inter> cpu_locks (CpuEpoch (cpu s)) (cpu_at s) = {} \<and>
     (\<forall>i < 2. Mut s ! i \<longleftrightarrow> i \<in> mem_locks (mem_at s) \<union> cpu_locks (CpuEpoch (cpu s)) (cpu_at s))"

text \<open>The simulators are where the single thread would be after as many calls of \<open>FillBiases\<close>, up to requests of the epochs it has not handed over.\<close>

definition slots_ok :: "('q, 'c) cosim_env \<Rightarrow> ('c \<Rightarrow> bool) \<Rightarrow> cpu_act list \<Rightarrow> 'c \<Rightarrow> Req list \<Rightarrow> ('q, 'c) cosim \<Rightarrow> bool" where
  "slots_ok env ok prog sims log s \<longleftrightarrow> length (biases s) \<le> unat (MemEpoch s) + 1 \<and>
     (case cpu_at s of Locking n now \<Rightarrow> unat (CpuEpoch (cpu s)) \<le> unat (MemEpoch s) + 1 | Filling n now \<Rightarrow> unat (CpuEpoch (cpu s)) \<le> unat (MemEpoch s) + 1 | _ \<Rightarrow> True) \<and>
     ok (simulators s) \<and>
     (\<exists>c. sequential env log 1 (take (length (biases s)) (fill_args prog)) sims = Some (biases s, c) \<and> ok c \<and>
        insert_all env [k \<leftarrow> log. length (biases s) \<le> ep k + 1] c = Some (simulators s))"

definition set_up :: "(Req \<Rightarrow> bool) \<Rightarrow> nat \<Rightarrow> ('c \<Rightarrow> bool) \<Rightarrow> cosim_cpu \<Rightarrow> cpu_act list \<Rightarrow> 'c \<Rightarrow> bool" where
  "set_up legal max_cpus ok start prog sims \<longleftrightarrow> Notify_on start \<and> \<not> focusOnROI start \<and> CpuEpoch start = 0 \<and> no_roi prog \<and> length prog + 2 < 2 ^ 64 \<and>
     (\<forall>k\<in>set (issues start prog). legal k) \<and> (\<forall>n\<in>set (fill_args prog). n \<le> max_cpus) \<and> ok sims"

section \<open>The simulator thread keeps the state\<close>

definition is_fill :: "cpu_act \<Rightarrow> bool" where
  "is_fill a \<longleftrightarrow> (\<exists>n now. a = FillBiases n now)"

lemma cpu_notify_keeps:
  assumes "Notify_on c" "\<not> focusOnROI c" "a \<noteq> setFocusOnROI True"
  shows "Notify_on (snd (cpu_notify a c))" "\<not> focusOnROI (snd (cpu_notify a c))"
    "CpuEpoch (snd (cpu_notify a c)) = CpuEpoch c + of_bool (is_fill a)"
    "fst (cpu_notify a c) \<Longrightarrow> rq_epoch (Buffer (snd (cpu_notify a c))) = CpuEpoch c \<and> \<not> is_fill a"
  using assms
  by (cases a; simp add: is_fill_def proceedNotify_def proceedNotifyFetchMiss_def proceedNotifyIO_def sesam_command_def set_focus_def Let_def)+

lemma fill_args_Cons: "fill_args (a # as) = (case a of FillBiases n now \<Rightarrow> n # fill_args as | _ \<Rightarrow> fill_args as)"
  by (cases a) simp_all

lemma issue_epochs:
  assumes "Notify_on c" "\<not> focusOnROI c" "no_roi as" "unat (CpuEpoch c) + length as < 2 ^ 64" "k \<in> set (issues c as)"
  shows "unat (CpuEpoch c) \<le> ep k"
  using assms
proof (induction as arbitrary: c)
  case (Cons a as)
  let ?c = "snd (cpu_notify a c)"
  have a: "a \<noteq> setFocusOnROI True" "no_roi as" using Cons.prems(3) by (auto simp: no_roi_def)
  note keep = cpu_notify_keeps [OF Cons.prems(1,2) a(1)]
  have "after_act a ?c = ?c \<or> (\<exists>t. after_act a ?c = ?c\<lparr>epoch_sc_time := t\<rparr>)" by (cases a) auto
  then have aft: "Notify_on (after_act a ?c)" "\<not> focusOnROI (after_act a ?c)" "CpuEpoch (after_act a ?c) = CpuEpoch c + of_bool (is_fill a)" using keep by auto
  have u: "unat (CpuEpoch c + of_bool (is_fill a)) = unat (CpuEpoch c) + of_bool (is_fill a)" using Cons.prems(4) by (cases "is_fill a") (simp_all add: unat_add_nowrap)
  from Cons.prems(5) consider "fst (cpu_notify a c)" "k = Buffer ?c" | "k \<in> set (issues (after_act a ?c) as)" by (auto split: if_splits)
  then show ?case
  proof cases
    case 1
    then show ?thesis using keep(4) by (simp add: ep_def)
  next
    case 2
    have "unat (CpuEpoch (after_act a ?c)) \<le> ep k" using Cons.IH [OF aft(1,2) a(2) _ 2] Cons.prems(4) aft(3) u by (cases "is_fill a") auto
    then show ?thesis using aft(3) u by simp
  qed
qed simp

text \<open>How far the memory thread is from the epoch the simulator thread waits for.\<close>

fun mem_rank :: "mem_pc \<Rightarrow> nat" where
  "mem_rank (Popped tmp k) = 6"
| "mem_rank (Body tmp k) = 5"
| "mem_rank (More tmp) = 4"
| "mem_rank (Unlock tmp exitLoop) = 3"
| "mem_rank Top = 2"
| "mem_rank (Spin tmp) = 1"
| "mem_rank (Pop tmp) = 0"
| "mem_rank Ended = 0"

definition gap :: "('q \<Rightarrow> Req multiset) \<Rightarrow> ('q, 'c) cosim \<Rightarrow> nat \<times> nat \<times> nat" where
  "gap entries s = (unat (CpuEpoch (cpu s)) - unat (MemEpoch s), size (entries (PQ s)), mem_rank (mem_at s))"

abbreviation nearer :: "((nat \<times> nat \<times> nat) \<times> (nat \<times> nat \<times> nat)) set" where
  "nearer \<equiv> less_than <*lex*> less_than <*lex*> less_than"

definition unblocked :: "('q, 'c) cosim \<Rightarrow> bool" where
  "unblocked s \<longleftrightarrow> \<not> MemEpoch s + EPOCHS \<le> CpuEpoch (cpu s) \<and> (mem_at s = Top \<or> (\<exists>tmp. mem_at s = Spin tmp))"

locale cosimulation = request_queue "cs_queue env" entries + epoch_store env ok legal max_cpus
  for env :: "('q, 'c) cosim_env" and entries :: "'q \<Rightarrow> Req multiset" and ok legal max_cpus
begin

definition state_ok :: "cosim_cpu \<Rightarrow> cpu_act list \<Rightarrow> 'c \<Rightarrow> Req list \<Rightarrow> ('q, 'c) cosim \<Rightarrow> bool" where
  "state_ok start prog sims log s \<longleftrightarrow> cpu_ok prog s \<and> order_ok entries log s \<and> issued_ok entries start prog log s \<and> locks_ok s \<and> slots_ok env ok prog sims log s"

lemma notify_step:
  assumes ok: "state_ok start prog sims log s" and up: "set_up legal max_cpus ok start prog sims"
    and at: "cpu_at s = Running" "todo s = a # as" "\<not> is_fill a"
  shows "\<exists>s'. iss_step env s = Some s' \<and> state_ok start prog sims log s'"
proof -
  let ?c = "snd (cpu_notify a (cpu s))" and ?push = "fst (cpu_notify a (cpu s))"
  let ?s = "s\<lparr>todo := as, cpu := ?c, PQ := (if ?push then pq_push (cs_queue env) (Buffer ?c) (PQ s) else PQ s)\<rparr>"
  have step: "iss_step env s = Some ?s" using at(3) by (cases a) (simp_all add: iss_step_def at split_beta Let_def is_fill_def)
  have c: "Notify_on (cpu s)" "\<not> focusOnROI (cpu s)" "a \<noteq> setFocusOnROI True" "no_roi as" using ok at(2) by (auto simp: state_ok_def cpu_ok_def no_roi_def)
  note keep = cpu_notify_keeps [OF c(1-3)]
  have ce: "CpuEpoch ?c = CpuEpoch (cpu s)" using keep(3) at(3) by simp
  have aft: "after_act a ?c = ?c" using at(3) by (cases a) (auto simp: is_fill_def)
  have "fill_args (todo s) = fill_args as" using at(2,3) by (cases a) (auto simp: is_fill_def)
  then have "cpu_ok prog ?s" using ok at(1,2) keep(1,2) c(4) ce by (simp add: state_ok_def cpu_ok_def)
  moreover have pend: "outstanding entries ?s = (if ?push then {#Buffer ?c#} else {#}) + outstanding entries s" by (simp add: outstanding_def push_entries)
  have ord: "order_ok entries log ?s"
  proof (cases ?push)
    case False
    then show ?thesis using ok ce pend by (simp add: state_ok_def order_ok_def)
  next
    case True
    let ?k = "Buffer ?c"
    have k: "ep ?k = unat (CpuEpoch (cpu s))" "rq_epoch ?k = CpuEpoch (cpu s)" using keep(4) [OF True] by (simp_all add: ep_def)
    have o: "order_ok entries log s" using ok by (simp add: state_ok_def)
    have "place_ok (CpuEpoch (cpu s)) (MemEpoch s) (add_mset ?k (entries (PQ s))) (mem_at s)"
      using o k by (cases "mem_at s") (auto simp: order_ok_def firsts_def outstanding_def in_order_alt ep_def word_less_nat_alt)
    then show ?thesis using o k ce pend True by (auto simp: order_ok_def push_entries in_order_alt word_le_nat_alt)
  qed
  moreover have "issued_ok entries start prog log ?s"
  proof -
    obtain pushed where p: "mset log + outstanding entries s = mset pushed" "pushed @ issues (cpu s) (todo s) = issues start prog"
      using ok at(1) by (auto simp: state_ok_def issued_ok_def)
    then show ?thesis unfolding issued_ok_def using at(1,2) aft pend
      by (intro exI [of _ "pushed @ (if ?push then [Buffer ?c] else [])"]) (auto simp: outstanding_def push_entries)
  qed
  moreover have "locks_ok ?s" "slots_ok env ok prog sims log ?s" using ok ce at(1) by (simp_all add: state_ok_def locks_ok_def slots_ok_def)
  ultimately show ?thesis using step by (auto simp: state_ok_def)
qed

lemma set_up_bound: "set_up legal max_cpus ok start prog sims \<Longrightarrow> cpu_ok prog s \<Longrightarrow> unat (CpuEpoch (cpu s)) + length (todo s) + 2 < 2 ^ 64"
  by (simp add: set_up_def cpu_ok_def)

lemma fill_begins:
  assumes ok: "state_ok start prog sims log s" and up: "set_up legal max_cpus ok start prog sims"
    and at: "cpu_at s = Running" "todo s = FillBiases n now # as"
  shows "\<exists>s'. iss_step env s = Some s' \<and> state_ok start prog sims log s'"
proof -
  let ?s = "s\<lparr>todo := as, cpu := (cpu s)\<lparr>CpuEpoch := CpuEpoch (cpu s) + 1\<rparr>, cpu_at := Waiting n now\<rparr>"
  have c: "cpu_ok prog s" "order_ok entries log s" "issued_ok entries start prog log s" "locks_ok s" "slots_ok env ok prog sims log s" using ok by (auto simp: state_ok_def)
  have step: "iss_step env s = Some ?s" using c(1) at by (simp add: iss_step_def cpu_ok_def)
  have u: "unat (CpuEpoch (cpu s) + 1) = unat (CpuEpoch (cpu s)) + 1" using set_up_bound [OF up c(1)] by (simp add: unat_add_nowrap)
  have cok: "cpu_ok prog ?s" using c(1) at u by (auto simp: cpu_ok_def no_roi_def)
  have "place_ok (CpuEpoch (cpu s) + 1) (MemEpoch s) (entries (PQ s)) (mem_at s)"
    using c(2) u by (cases "mem_at s") (auto simp: order_ok_def word_less_nat_alt)
  moreover have "\<forall>k\<in>set log. ep k < unat (CpuEpoch (cpu s) + 1)" "\<forall>k\<in>#outstanding entries s. ep k \<le> unat (CpuEpoch (cpu s) + 1)"
    using c(2) u by (auto simp: order_ok_def less_Suc_eq le_Suc_eq)
  ultimately have "order_ok entries log ?s" using c(2) u by (auto simp: order_ok_def outstanding_def word_le_nat_alt)
  moreover have "issued_ok entries start prog log ?s" using c(3) at by (simp add: issued_ok_def outstanding_def)
  moreover have "locks_ok ?s" using c(4) at(1) by (simp add: locks_ok_def)
  moreover have "slots_ok env ok prog sims log ?s" using c(5) at(1) by (simp add: slots_ok_def)
  ultimately show ?thesis using step cok by (auto simp: state_ok_def)
qed

lemma waiting_step:
  assumes ok: "state_ok start prog sims log s" and up: "set_up legal max_cpus ok start prog sims" and at: "cpu_at s = Waiting n now"
  shows "\<exists>s'. iss_step env s = Some s' \<and> state_ok start prog sims log s'"
proof (cases "MemEpoch s + EPOCHS \<le> CpuEpoch (cpu s)")
  case True
  then show ?thesis using ok at by (simp add: iss_step_def)
next
  case False
  let ?s = "s\<lparr>cpu_at := Locking n now\<rparr>"
  have c: "cpu_ok prog s" "order_ok entries log s" "issued_ok entries start prog log s" "locks_ok s" "slots_ok env ok prog sims log s" using ok by (auto simp: state_ok_def)
  have "unat (MemEpoch s) \<le> unat (CpuEpoch (cpu s))" using c(2) by (simp add: order_ok_def word_le_nat_alt)
  then have "unat (MemEpoch s + EPOCHS) = unat (MemEpoch s) + 2" using set_up_bound [OF up c(1)] by (subst unat_add_nowrap) (simp_all add: EPOCHS_def)
  then have "unat (CpuEpoch (cpu s)) \<le> unat (MemEpoch s) + 1" using False by (simp add: word_le_nat_alt)
  then have "slots_ok env ok prog sims log ?s" using c(5) at by (simp add: slots_ok_def)
  moreover have "cpu_ok prog ?s" "order_ok entries log ?s" "issued_ok entries start prog log ?s" "locks_ok ?s"
    using c(1-4) at by (simp_all add: cpu_ok_def order_ok_def issued_ok_def outstanding_def locks_ok_def)
  ultimately show ?thesis using False at by (simp add: iss_step_def state_ok_def)
qed

lemma locking_step:
  assumes ok: "state_ok start prog sims log s" and at: "cpu_at s = Locking n now"
  shows "\<exists>s'. iss_step env s = Some s' \<and> state_ok start prog sims log s'"
proof (cases "Mut s ! lock_of (CpuEpoch (cpu s))")
  case True
  then show ?thesis using ok at by (simp add: iss_step_def)
next
  case False
  let ?i = "lock_of (CpuEpoch (cpu s))"
  let ?s = "s\<lparr>Mut := (Mut s)[?i := True], cpu_at := Filling n now\<rparr>"
  have "locks_ok ?s" using ok at False lock_of_bound [of "CpuEpoch (cpu s)"] by (auto simp: state_ok_def locks_ok_def nth_list_update)
  moreover have "cpu_ok prog s" "order_ok entries log s" "issued_ok entries start prog log s" "slots_ok env ok prog sims log s" using ok by (auto simp: state_ok_def)
  then have "cpu_ok prog ?s" "order_ok entries log ?s" "issued_ok entries start prog log ?s" "slots_ok env ok prog sims log ?s"
    using at by (simp_all add: cpu_ok_def) (simp_all add: order_ok_def issued_ok_def outstanding_def slots_ok_def)
  ultimately show ?thesis using False at by (simp add: iss_step_def state_ok_def)
qed

lemma epochs_apart: "unat e + 1 = unat f \<Longrightarrow> lock_of e \<noteq> lock_of f"
  by (simp add: lock_of_def EPOCHS_def unat_mod_distrib) presburger

lemma filling_step:
  assumes ok: "state_ok start prog sims log s" and up: "set_up legal max_cpus ok start prog sims" and at: "cpu_at s = Filling n now"
  shows "\<exists>s'. iss_step env s = Some s' \<and> state_ok start prog sims log s'"
proof -
  let ?ce = "CpuEpoch (cpu s)" and ?m = "length (biases s)"
  have c: "cpu_ok prog s" "order_ok entries log s" "issued_ok entries start prog log s" "locks_ok s" "slots_ok env ok prog sims log s" using ok by (auto simp: state_ok_def)
  have ce: "unat ?ce = Suc ?m" "take ?m (fill_args prog) @ n # fill_args (todo s) = fill_args prog" using c(1) at by (auto simp: cpu_ok_def)
  have m: "?m < length (fill_args prog)" "fill_args prog ! ?m = n" "length (take ?m (fill_args prog)) = ?m"
  proof -
    have "length (take ?m (fill_args prog)) + Suc (length (fill_args (todo s))) = length (fill_args prog)" using arg_cong [OF ce(2), of length] by simp
    then show "?m < length (fill_args prog)" "length (take ?m (fill_args prog)) = ?m" by (simp_all add: min_def split: if_splits)
    then show "fill_args prog ! ?m = n" using ce(2) by (metis nth_append_length)
  qed
  have n: "n \<le> max_cpus" using up m(1,2) by (metis nth_mem set_up_def)
  have me: "?m \<le> unat (MemEpoch s)" using c(5) at ce(1) by (simp add: slots_ok_def)
  have log: "\<forall>k\<in>set log. ep k \<le> ?m" "sorted_wrt in_order log" using c(2) ce(1) by (auto simp: order_ok_def)
  obtain d where d: "sequential env log 1 (take ?m (fill_args prog)) sims = Some (biases s, d)" "ok d"
    "insert_all env [k \<leftarrow> log. ?m \<le> ep k + 1] d = Some (simulators s)" using c(5) by (auto simp: slots_ok_def)
  have split: "[k \<leftarrow> log. ?m \<le> ep k + 1] = [k \<leftarrow> log. ep k + 2 = Suc ?m] @ [k \<leftarrow> log. Suc ?m \<le> ep k + 1]"
    using log
  proof (induction log)
    case (Cons k ks)
    then have IH: "[k \<leftarrow> ks. ?m \<le> ep k + 1] = [k \<leftarrow> ks. ep k + 2 = Suc ?m] @ [k \<leftarrow> ks. Suc ?m \<le> ep k + 1]" by simp
    show ?case
    proof (cases "ep k = ?m")
      case True
      have "ep k' = ?m" if "k' \<in> set ks" for k' using Cons.prems True that in_order_ep [of k k'] by (intro antisym) auto
      then show ?thesis using True by (auto simp: filter_empty_conv intro!: filter_cong)
    next
      case False
      then show ?thesis using IH Cons.prems(1) by auto
    qed
  qed simp
  have legal: "\<forall>k\<in>set log. legal k"
  proof -
    obtain pushed where p: "mset log + outstanding entries s = mset pushed" "pushed @ issues (resumed (cpu_at s) (cpu s)) (todo s) = issues start prog"
      using c(3) by (auto simp: issued_ok_def)
    have "set log \<subseteq> set pushed" using arg_cong [OF p(1), of set_mset] by auto
    then have "set log \<subseteq> set (issues start prog)" using p(2) by (metis set_append le_supI1)
    then show ?thesis using up by (auto simp: set_up_def)
  qed
  obtain e where e: "insert_all env [k \<leftarrow> log. ep k + 2 = Suc ?m] d = Some e" "insert_all env [k \<leftarrow> log. Suc ?m \<le> ep k + 1] e = Some (simulators s)"
    using d(3) unfolding split insert_all_append by (auto simp: osimps)
  have "ok e" using insert_all_total [OF d(2), of "[k \<leftarrow> log. ep k + 2 = Suc ?m]"] e(1) legal by auto
  then obtain ts e2 where e2: "cs_fill env n ?ce e = Some (ts, e2)" "ok e2" using fill_total n by blast
  have "\<forall>k\<in>set [k \<leftarrow> log. Suc ?m \<le> ep k + 1]. legal k \<and> lock_of (rq_epoch k) \<noteq> lock_of ?ce"
    using log(1) legal ce(1) by (auto intro!: epochs_apart simp: ep_def)
  from fill_swap [OF \<open>ok e\<close> this n e(2) e2(1)] obtain c3 where c3: "cs_fill env n ?ce (simulators s) = Some (ts, c3)" "insert_all env [k \<leftarrow> log. Suc ?m \<le> ep k + 1] e2 = Some c3"
    by auto
  have "ok c3" using insert_all_total [OF e2(2), of "[k \<leftarrow> log. Suc ?m \<le> ep k + 1]"] c3(2) legal by auto
  let ?s = "s\<lparr>simulators := c3, Mut := (Mut s)[lock_of ?ce := False], cpu := (cpu s)\<lparr>epoch_sc_time := now\<rparr>, biases := biases s @ [ts], cpu_at := Running\<rparr>"
  have step: "iss_step env s = Some ?s" using at c3(1) by (simp add: iss_step_def)
  have tk: "take (Suc ?m) (fill_args prog) = take ?m (fill_args prog) @ [n]" using m by (simp add: take_Suc_conv_app_nth)
  have "of_nat (unat ?ce) = ?ce" by simp
  then have "of_nat (Suc ?m) = ?ce" using ce(1) by simp
  then have seq: "sequential env log 1 (take (Suc ?m) (fill_args prog)) sims = Some (biases s @ [ts], e2)"
    using d(1) e(1) e2(1) m(3) by (simp add: tk sequential_append)
  have "slots_ok env ok prog sims log ?s" using seq e2(2) c3(2) \<open>ok c3\<close> me by (simp add: slots_ok_def)
  moreover have "cpu_ok prog ?s" using c(1) at ce tk by (simp add: cpu_ok_def)
  moreover have "order_ok entries log ?s" "issued_ok entries start prog log ?s" using c(2,3) at by (simp_all add: order_ok_def issued_ok_def outstanding_def)
  moreover have "locks_ok ?s" using c(4) at lock_of_bound [of ?ce] by (auto simp: locks_ok_def nth_list_update)
  ultimately show ?thesis using step by (auto simp: state_ok_def)
qed

lemma iss_step_keeps:
  assumes "state_ok start prog sims log s" "set_up legal max_cpus ok start prog sims"
  shows "\<exists>s'. iss_step env s = Some s' \<and> state_ok start prog sims log s'"
proof (cases "cpu_at s")
  case Running
  show ?thesis
  proof (cases "todo s")
    case Nil
    then show ?thesis using assms(1) Running by (simp add: iss_step_def)
  next
    case (Cons a as)
    then show ?thesis using notify_step [OF assms Running Cons] fill_begins [OF assms Running] by (auto simp: is_fill_def)
  qed
next
  case (Waiting n now)
  then show ?thesis using waiting_step [OF assms] by blast
next
  case (Locking n now)
  then show ?thesis using locking_step [OF assms(1)] by blast
next
  case (Filling n now)
  then show ?thesis using filling_step [OF assms] by blast
qed

lemma slots_ok_later:
  assumes "slots_ok env ok prog sims log s" "biases s' = biases s" "cpu_at s' = cpu_at s" "cpu s' = cpu s" "simulators s' = simulators s" "unat (MemEpoch s) \<le> unat (MemEpoch s')"
  shows "slots_ok env ok prog sims log s'"
  using assms by (cases "cpu_at s") (auto simp: slots_ok_def)

lemma mem_frame:
  assumes "state_ok start prog sims log s" "cpu s' = cpu s" "todo s' = todo s" "cpu_at s' = cpu_at s" "biases s' = biases s" "Stopped s' = Stopped s" "simulators s' = simulators s"
    "outstanding entries s' = outstanding entries s" "\<forall>k\<in>#outstanding entries s. unat (MemEpoch s') \<le> ep k" "unat (MemEpoch s) \<le> unat (MemEpoch s')"
    "MemEpoch s' \<le> CpuEpoch (cpu s)" "place_ok (CpuEpoch (cpu s)) (MemEpoch s') (entries (PQ s')) (mem_at s')" "locks_ok s'"
  shows "state_ok start prog sims log s'"
proof -
  have "slots_ok env ok prog sims log s'" using assms by (intro slots_ok_later [of prog sims log s s']) (auto simp: state_ok_def)
  moreover have "cpu_ok prog s'" using assms by (simp add: state_ok_def cpu_ok_def)
  moreover have "order_ok entries log s'" using assms(1,2,8,9,11,12) by (simp add: state_ok_def order_ok_def)
  moreover have "issued_ok entries start prog log s'" using assms(1-4,8) by (simp add: state_ok_def issued_ok_def)
  ultimately show ?thesis using assms(13) by (simp add: state_ok_def)
qed

lemma pop_step:
  assumes "state_ok start prog sims log s" "pq_try_pop (cs_queue env) (PQ s) = Some (k, q)" "place_ok (CpuEpoch (cpu s)) (MemEpoch s) (entries (PQ s)) (Pop (MemEpoch s))"
    "mem_at s = Pop (MemEpoch s) \<and> pc = Popped (MemEpoch s) k \<or> mem_at s = More (MemEpoch s) \<and> pc = Body (MemEpoch s) k"
  shows "state_ok start prog sims log (s\<lparr>PQ := q, mem_at := pc\<rparr>)"
proof (rule mem_frame [OF assms(1)])
  have f: "firsts (MemEpoch s) k (entries q)" using pop_first [OF assms(2)] by (auto simp: firsts_def in_order_def [symmetric] dest: in_order_ep)
  show "place_ok (CpuEpoch (cpu (s))) (MemEpoch (s\<lparr>PQ := q, mem_at := pc\<rparr>)) (entries (PQ (s\<lparr>PQ := q, mem_at := pc\<rparr>))) (mem_at (s\<lparr>PQ := q, mem_at := pc\<rparr>))"
    using f assms(3,4) by auto
  show "outstanding entries (s\<lparr>PQ := q, mem_at := pc\<rparr>) = outstanding entries s" using assms(4) pop_entries [OF assms(2)] by (auto simp: outstanding_def)
  show "locks_ok (s\<lparr>PQ := q, mem_at := pc\<rparr>)" using assms(1,4) by (auto simp: state_ok_def locks_ok_def)
qed (use assms(1) in \<open>auto simp: state_ok_def order_ok_def\<close>)

lemma put_back_ok:
  assumes "state_ok start prog sims log s" "mem_at s = Popped (MemEpoch s) k \<or> mem_at s = Body (MemEpoch s) k" "in_hand pc = {#}"
    "place_ok (CpuEpoch (cpu s)) (rq_epoch k) (entries (PQ s)) pc" "mem_locks pc = mem_locks (mem_at s)" "pc = Top \<or> (\<exists>t. pc = Unlock t True)"
  shows "state_ok start prog sims log ((put_back env k s)\<lparr>mem_at := pc\<rparr>)"
proof -
  let ?s = "(put_back env k s)\<lparr>mem_at := pc\<rparr>"
  have f: "firsts (MemEpoch s) k (entries (PQ s))" "k \<in># outstanding entries s" "outstanding entries s = add_mset k (entries (PQ s))"
    using assms(1,2) by (auto simp: state_ok_def order_ok_def outstanding_def)
  have o: "order_ok entries log s" using assms(1) by (simp add: state_ok_def)
  have k: "unat (MemEpoch s) \<le> ep k" "ep k \<le> unat (CpuEpoch (cpu s))" using o f(2) by (auto simp: order_ok_def)
  show ?thesis
  proof (rule mem_frame [OF assms(1)])
    show "\<forall>k'\<in>#outstanding entries s. unat (MemEpoch ?s) \<le> ep k'" using f(1,3) by (auto simp: put_back_def firsts_def ep_def)
    show "unat (MemEpoch s) \<le> unat (MemEpoch ?s)" using k by (simp add: put_back_def ep_def)
    show "MemEpoch ?s \<le> CpuEpoch (cpu s)" using k by (simp add: put_back_def ep_def word_le_nat_alt)
    show "outstanding entries ?s = outstanding entries s" using f(3) assms(3) by (simp add: put_back_def outstanding_def push_entries)
    show "place_ok (CpuEpoch (cpu s)) (MemEpoch ?s) (entries (PQ ?s)) (mem_at ?s)" using assms(6) by (auto simp: put_back_def)
    show "locks_ok ?s" using assms(1,5) by (simp add: state_ok_def locks_ok_def put_back_def)
  qed (simp_all add: put_back_def)
qed

lemma insert_step:
  assumes ok: "state_ok start prog sims log s" and up: "set_up legal max_cpus ok start prog sims" and at: "mem_at s = Body tmp k" "tmp = rq_epoch k"
  shows "\<exists>s' log'. mem_step env s = Some s' \<and> state_ok start prog sims log' s'"
proof -
  have c: "cpu_ok prog s" "order_ok entries log s" "issued_ok entries start prog log s" "locks_ok s" "slots_ok env ok prog sims log s" using ok by (auto simp: state_ok_def)
  have m: "rq_epoch k = MemEpoch s" "MemEpoch s < CpuEpoch (cpu s)" "firsts (MemEpoch s) k (entries (PQ s))" using c(2) at by (auto simp: order_ok_def)
  have pend: "outstanding entries s = add_mset k (entries (PQ s))" using at by (simp add: outstanding_def)
  obtain pushed where p: "mset log + outstanding entries s = mset pushed" "pushed @ issues (resumed (cpu_at s) (cpu s)) (todo s) = issues start prog"
    using c(3) by (auto simp: issued_ok_def)
  have "k \<in> set pushed" using arg_cong [OF p(1), of set_mset] pend by auto
  then have "k \<in> set (issues start prog)" using p(2) by (metis UnI1 set_append)
  then have "legal k" using up by (auto simp: set_up_def)
  moreover have "ok (simulators s)" using c(5) by (simp add: slots_ok_def)
  ultimately obtain d where d: "cs_insert env (MemEpoch s) k (simulators s) = Some d" "ok d" using insert_total by blast
  let ?s = "s\<lparr>simulators := d, mem_at := (if rq_type k = SESAMCOMMAND then Unlock tmp True else More tmp)\<rparr>"
  have step: "mem_step env s = Some ?s" using at d(1) by (simp add: mem_step_def)
  have pend': "outstanding entries ?s = entries (PQ s)" by (simp add: outstanding_def)
  have "order_ok entries (log @ [k]) ?s"
    using c(2) m at pend by (auto simp: order_ok_def pend' sorted_wrt_append ep_def firsts_def word_less_nat_alt)
  moreover have "issued_ok entries start prog (log @ [k]) ?s" unfolding issued_ok_def using p pend pend' by (intro exI [of _ pushed]) simp
  moreover have "locks_ok ?s" using c(4) at by (auto simp: locks_ok_def)
  moreover have "cpu_ok prog ?s" using c(1) by (simp add: cpu_ok_def)
  moreover have "slots_ok env ok prog sims (log @ [k]) ?s"
  proof -
    let ?m = "length (biases s)"
    have mk: "?m \<le> ep k + 1" using c(5) m(1) by (simp add: slots_ok_def ep_def)
    obtain e where e: "sequential env log 1 (take ?m (fill_args prog)) sims = Some (biases s, e)" "ok e" "insert_all env [k \<leftarrow> log. ?m \<le> ep k + 1] e = Some (simulators s)"
      using c(5) by (auto simp: slots_ok_def)
    have "sequential env (log @ [k]) 1 (take ?m (fill_args prog)) sims = Some (biases s, e)" using e(1) mk by (subst sequential_later) auto
    moreover have "insert_all env [k \<leftarrow> log @ [k]. ?m \<le> ep k + 1] e = Some d" using e(3) mk d(1) m(1) by (simp add: insert_all_append)
    ultimately show ?thesis using c(5) e(2) d(2) by (cases "cpu_at s") (auto simp: slots_ok_def)
  qed
  ultimately show ?thesis using step by (auto simp: state_ok_def)
qed

lemma next_epoch:
  assumes "state_ok start prog sims log s" "MemEpoch s < CpuEpoch (cpu s)" "\<forall>k\<in>#outstanding entries s. MemEpoch s < rq_epoch k" "in_hand (mem_at s) = {#}"
    "locks_ok (s\<lparr>Mut := mut, MemEpoch := MemEpoch s + 1, mem_at := Top\<rparr>)"
  shows "state_ok start prog sims log (s\<lparr>Mut := mut, MemEpoch := MemEpoch s + 1, mem_at := Top\<rparr>)"
proof (rule mem_frame [OF assms(1)])
  have u: "unat (MemEpoch s + 1) = unat (MemEpoch s) + 1" using assms(2) unat_bound [of "CpuEpoch (cpu s)"] by (subst unat_add_nowrap) (simp_all add: word_less_nat_alt)
  show "MemEpoch (s\<lparr>Mut := mut, MemEpoch := MemEpoch s + 1, mem_at := Top\<rparr>) \<le> CpuEpoch (cpu s)" using u assms(2) by (simp add: word_le_nat_alt word_less_nat_alt)
  show "\<forall>k\<in>#outstanding entries s. unat (MemEpoch (s\<lparr>Mut := mut, MemEpoch := MemEpoch s + 1, mem_at := Top\<rparr>)) \<le> ep k"
    using u assms(3) by (auto simp: ep_def word_less_nat_alt)
  show "unat (MemEpoch s) \<le> unat (MemEpoch (s\<lparr>Mut := mut, MemEpoch := MemEpoch s + 1, mem_at := Top\<rparr>))" using u by simp
qed (use assms(4,5) in \<open>simp_all add: outstanding_def\<close>)

lemma mem_step_keeps:
  assumes ok: "state_ok start prog sims log s" and up: "set_up legal max_cpus ok start prog sims"
  shows "\<exists>s' log'. mem_step env s = Some s' \<and> state_ok start prog sims log' s'"
proof -
  have c: "cpu_ok prog s" "order_ok entries log s" "locks_ok s" using ok by (auto simp: state_ok_def)
  have nst: "\<not> Stopped s" using c(1) by (simp add: cpu_ok_def)
  note frame = mem_frame [OF ok]
  have mok: "place_ok (CpuEpoch (cpu s)) (MemEpoch s) (entries (PQ s)) (mem_at s)" "\<forall>k\<in>#outstanding entries s. unat (MemEpoch s) \<le> ep k" "MemEpoch s \<le> CpuEpoch (cpu s)"
    using c(2) by (auto simp: order_ok_def)
  show ?thesis
  proof (cases "mem_at s")
    case Top
    have "state_ok start prog sims log (s\<lparr>mem_at := Spin (MemEpoch s)\<rparr>)"
      by (rule frame) (use Top mok c(3) in \<open>simp_all add: outstanding_def locks_ok_def\<close>)
    then show ?thesis using Top nst by (auto simp: mem_step_def)
  next
    case (Spin tmp)
    have "state_ok start prog sims log (s\<lparr>mem_at := Pop tmp\<rparr>)" if "\<not> tmp \<ge> CpuEpoch (cpu s)"
      by (rule frame) (use Spin mok c(3) that in \<open>simp_all add: outstanding_def locks_ok_def\<close>)
    then show ?thesis using Spin nst ok by (auto simp: mem_step_def)
  next
    case (Pop tmp)
    show ?thesis
    proof (cases "pq_try_pop (cs_queue env) (PQ s)")
      case None
      then have "outstanding entries s = {#}" using pop_empty Pop by (simp add: outstanding_def)
      moreover have "locks_ok (s\<lparr>Mut := Mut s, MemEpoch := MemEpoch s + 1, mem_at := Top\<rparr>)" using c(3) Pop by (simp add: locks_ok_def)
      ultimately have "state_ok start prog sims log (s\<lparr>Mut := Mut s, MemEpoch := MemEpoch s + 1, mem_at := Top\<rparr>)"
        using mok Pop by (intro next_epoch [OF ok]) auto
      then show ?thesis using Pop None by (auto simp: mem_step_def)
    next
      case (Some kq)
      obtain k q where kq: "kq = (k, q)" by (cases kq)
      have "state_ok start prog sims log (s\<lparr>PQ := q, mem_at := Popped tmp k\<rparr>)" by (rule pop_step [OF ok]) (use Some kq Pop mok in auto)
      then show ?thesis using Pop Some kq by (auto simp: mem_step_def)
    qed
  next
    case (Popped tmp k)
    have "state_ok start prog sims log ((put_back env k s)\<lparr>mem_at := Top\<rparr>)" by (rule put_back_ok [OF ok]) (use Popped mok in auto)
    moreover have "state_ok start prog sims log (s\<lparr>Mut := (Mut s)[lock_of tmp := True], mem_at := Body tmp k\<rparr>)" if "\<not> Mut s ! lock_of tmp"
      by (rule frame) (use Popped mok c(3) that lock_of_bound [of tmp] in \<open>auto simp: outstanding_def locks_ok_def nth_list_update\<close>)
    ultimately show ?thesis using Popped ok by (auto simp: mem_step_def)
  next
    case (Body tmp k)
    have "state_ok start prog sims log ((put_back env k s)\<lparr>mem_at := Unlock tmp True\<rparr>)" by (rule put_back_ok [OF ok]) (use Body mok in auto)
    then show ?thesis using Body insert_step [OF ok up Body] by (cases "tmp = rq_epoch k") (auto simp: mem_step_def)
  next
    case (More tmp)
    show ?thesis
    proof (cases "pq_try_pop (cs_queue env) (PQ s)")
      case None
      have "state_ok start prog sims log (s\<lparr>mem_at := Unlock tmp False\<rparr>)"
        by (rule frame) (use More mok c(3) None pop_empty [of "PQ s"] in \<open>simp_all add: outstanding_def locks_ok_def\<close>)
      then show ?thesis using More None by (auto simp: mem_step_def)
    next
      case (Some kq)
      obtain k q where kq: "kq = (k, q)" by (cases kq)
      have "state_ok start prog sims log (s\<lparr>PQ := q, mem_at := Body tmp k\<rparr>)" by (rule pop_step [OF ok]) (use Some kq More mok in auto)
      then show ?thesis using More Some kq by (auto simp: mem_step_def)
    qed
  next
    case (Unlock tmp exitLoop)
    let ?mut = "(Mut s)[lock_of tmp := False]"
    have l: "locks_ok (s\<lparr>Mut := ?mut, MemEpoch := e, mem_at := Top\<rparr>)" for e
      using c(3) Unlock lock_of_bound [of tmp] by (auto simp: locks_ok_def nth_list_update)
    show ?thesis
    proof (cases exitLoop)
      case True
      have "state_ok start prog sims log (s\<lparr>Mut := ?mut, MemEpoch := MemEpoch s, mem_at := Top\<rparr>)"
        by (rule frame) (use Unlock mok l [of "MemEpoch s"] in \<open>simp_all add: outstanding_def\<close>)
      then show ?thesis using Unlock True by (auto simp: mem_step_def)
    next
      case False
      then have "state_ok start prog sims log (s\<lparr>Mut := ?mut, MemEpoch := MemEpoch s + 1, mem_at := Top\<rparr>)"
        using mok Unlock l by (intro next_epoch [OF ok]) (auto simp: outstanding_def)
      then show ?thesis using Unlock False by (auto simp: mem_step_def)
    qed
  next
    case Ended
    then show ?thesis using mok by simp
  qed
qed

lemma start_ok:
  assumes "set_up legal max_cpus ok start prog sims" "entries q = {#}"
  shows "state_ok start prog sims [] (cosim_start start prog q sims)"
  using assms by (auto simp: set_up_def state_ok_def cosim_start_def cpu_ok_def order_ok_def issued_ok_def outstanding_def locks_ok_def slots_ok_def less_2_cases_iff)

lemma run_keeps:
  assumes "state_ok start prog sims log s" "set_up legal max_cpus ok start prog sims"
  shows "\<exists>s' log'. cosim_run env sch s = Some s' \<and> state_ok start prog sims log' s'"
  using assms(1)
proof (induction sch arbitrary: s log)
  case Nil
  then show ?case by auto
next
  case (Cons t sch)
  obtain s1 log1 where "(case t of Cpu_turn \<Rightarrow> iss_step env s | Mem_turn \<Rightarrow> mem_step env s) = Some s1" "state_ok start prog sims log1 s1"
    using iss_step_keeps [OF Cons.prems assms(2)] mem_step_keeps [OF Cons.prems assms(2)] by (cases t) auto
  then show ?case using Cons.IH [of log1 s1] by (cases t) auto
qed

lemma threads_sequential:
  assumes up: "set_up legal max_cpus ok start prog sims" and "entries q = {#}"
  shows "\<exists>s log rest. cosim_run env sch (cosim_start start prog q sims) = Some s \<and> sorted_wrt in_order log \<and>
    mset log + rest = mset (issues start prog) \<and> (\<forall>k\<in>#rest. length (biases s) < ep k + 2) \<and>
    map_option fst (sequential env log 1 (take (length (biases s)) (fill_args prog)) sims) = Some (biases s)"
proof -
  obtain s log where s: "cosim_run env sch (cosim_start start prog q sims) = Some s" "state_ok start prog sims log s"
    using run_keeps [OF start_ok [OF assms] up] by blast
  have c: "cpu_ok prog s" "order_ok entries log s" "issued_ok entries start prog log s" "slots_ok env ok prog sims log s" using s(2) by (auto simp: state_ok_def)
  let ?c = "resumed (cpu_at s) (cpu s)"
  have m: "length (biases s) \<le> unat (MemEpoch s) + 1" "length (biases s) \<le> unat (CpuEpoch (cpu s))" using c(1,4) by (auto simp: slots_ok_def cpu_ok_def)
  obtain pushed where p: "mset log + outstanding entries s = mset pushed" "pushed @ issues ?c (todo s) = issues start prog"
    using c(3) by (auto simp: issued_ok_def)
  have "\<forall>k\<in>#outstanding entries s. length (biases s) < ep k + 2" using c(2) m(1) by (fastforce simp: order_ok_def)
  moreover have "length (biases s) < ep k + 2" if "k \<in> set (issues ?c (todo s))" for k
  proof -
    have r: "Notify_on ?c" "\<not> focusOnROI ?c" "CpuEpoch ?c = CpuEpoch (cpu s)" "no_roi (todo s)" using c(1) by (cases "cpu_at s"; simp add: cpu_ok_def)+
    show ?thesis using issue_epochs [OF r(1,2,4) _ that] set_up_bound [OF up c(1)] r(3) m(2) by simp
  qed
  moreover have "mset log + (outstanding entries s + mset (issues ?c (todo s))) = mset (issues start prog)"
    using p by (metis add.assoc mset_append)
  moreover have "sorted_wrt in_order log" using c(2) by (simp add: order_ok_def)
  moreover have "map_option fst (sequential env log 1 (take (length (biases s)) (fill_args prog)) sims) = Some (biases s)" using c(4) by (auto simp: slots_ok_def)
  ultimately show ?thesis using s(1)
    by (intro exI [of _ s] exI [of _ log] exI [of _ "outstanding entries s + mset (issues ?c (todo s))"]) auto
qed

lemma epoch_grows: "MemEpoch s < CpuEpoch (cpu s) \<Longrightarrow> unat (CpuEpoch (cpu s)) - unat (MemEpoch s + 1) < unat (CpuEpoch (cpu s)) - unat (MemEpoch s)"
  using unat_bound [of "CpuEpoch (cpu s)"] by (subst unat_add_nowrap) (simp_all add: word_less_nat_alt)

lemma mem_progress:
  assumes ok: "state_ok start prog sims log s" and up: "set_up legal max_cpus ok start prog sims" and at: "cpu_at s = Waiting n now" and blocked: "\<not> unblocked s"
  shows "\<exists>s' log'. mem_step env s = Some s' \<and> state_ok start prog sims log' s' \<and> cpu s' = cpu s \<and> cpu_at s' = cpu_at s \<and> biases s' = biases s \<and>
    (gap entries s', gap entries s) \<in> nearer"
proof -
  obtain s' log' where s': "mem_step env s = Some s'" "state_ok start prog sims log' s'" using mem_step_keeps [OF ok up] by blast
  have c: "cpu_ok prog s" "order_ok entries log s" "locks_ok s" using ok by (auto simp: state_ok_def)
  have mok: "place_ok (CpuEpoch (cpu s)) (MemEpoch s) (entries (PQ s)) (mem_at s)" "MemEpoch s \<le> CpuEpoch (cpu s)" using c(2) by (auto simp: order_ok_def)
  have nst: "\<not> Stopped s" using c(1) by (simp add: cpu_ok_def)
  have same: "cpu s' = cpu s \<and> cpu_at s' = cpu_at s \<and> biases s' = biases s"
    using s'(1) by (cases "mem_at s") (auto simp: mem_step_def put_back_def osimps split: if_splits option.splits)
  have ahead: "unat (CpuEpoch (cpu s)) - unat (rq_epoch k) < unat (CpuEpoch (cpu s)) - unat (MemEpoch s)"
    if "mem_at s = Popped (MemEpoch s) k \<or> mem_at s = Body (MemEpoch s) k" "MemEpoch s \<noteq> rq_epoch k" for k
  proof -
    have "k \<in># outstanding entries s" using that(1) by (auto simp: outstanding_def)
    then have "unat (MemEpoch s) \<le> unat (rq_epoch k)" using c(2) by (auto simp: order_ok_def ep_def)
    moreover have "MemEpoch s < CpuEpoch (cpu s)" using mok(1) that(1) by auto
    ultimately show ?thesis using that(2) by (auto simp: word_less_nat_alt word_unat_eq_iff)
  qed
  have "(gap entries s', gap entries s) \<in> nearer"
  proof (cases "mem_at s")
    case Top
    then show ?thesis using s'(1) nst by (auto simp: mem_step_def gap_def)
  next
    case (Spin tmp)
    have "MemEpoch s + EPOCHS \<le> CpuEpoch (cpu s)" using blocked Spin by (auto simp: unblocked_def)
    then have "\<not> tmp \<ge> CpuEpoch (cpu s)" using Spin mok set_up_bound [OF up c(1)]
      by (auto simp: EPOCHS_def word_le_nat_alt unat_add_nowrap)
    then show ?thesis using s'(1) nst Spin by (auto simp: mem_step_def gap_def)
  next
    case (Pop tmp)
    then show ?thesis using s'(1) mok epoch_grows [of s] pop_entries [of "PQ s"] by (auto simp: mem_step_def gap_def split: option.splits)
  next
    case (Popped tmp k)
    have "\<not> Mut s ! lock_of tmp" using c(3) Popped at lock_of_bound [of tmp] by (auto simp: locks_ok_def)
    then show ?thesis using s'(1) Popped mok ahead [of k] by (auto simp: mem_step_def gap_def put_back_def split: if_splits)
  next
    case (Body tmp k)
    then show ?thesis using s'(1) mok ahead [of k] by (auto simp: mem_step_def gap_def put_back_def osimps split: if_splits)
  next
    case (More tmp)
    then show ?thesis using s'(1) pop_entries [of "PQ s"] by (auto simp: mem_step_def gap_def split: option.splits)
  next
    case (Unlock tmp exitLoop)
    then show ?thesis using s'(1) mok epoch_grows [of s] by (auto simp: mem_step_def gap_def split: if_splits)
  next
    case Ended
    then show ?thesis using mok by simp
  qed
  then show ?thesis using s' same by blast
qed

lemma mem_unblocks:
  assumes "state_ok start prog sims log s" "set_up legal max_cpus ok start prog sims" "cpu_at s = Waiting n now"
  shows "\<exists>N s' log'. cosim_run env (replicate N Mem_turn) s = Some s' \<and> state_ok start prog sims log' s' \<and> cpu s' = cpu s \<and> cpu_at s' = Waiting n now \<and>
    biases s' = biases s \<and> unblocked s'"
proof -
  have "wf nearer" by (intro wf_lex_prod wf_less_than)
  then show ?thesis using assms(1,3)
  proof (induction "gap entries s" arbitrary: s log rule: wf_induct_rule)
    case less
    show ?case
    proof (cases "unblocked s")
      case True
      then show ?thesis using less.prems by (intro exI [of _ 0] exI [of _ s] exI [of _ log]) simp
    next
      case False
      obtain s1 log1 where s1: "mem_step env s = Some s1" "state_ok start prog sims log1 s1" "cpu s1 = cpu s" "cpu_at s1 = Waiting n now" "biases s1 = biases s"
        "(gap entries s1, gap entries s) \<in> nearer" using mem_progress [OF less.prems(1) assms(2) less.prems(2) False] less.prems(2) by auto
      then obtain N s' log' where "cosim_run env (replicate N Mem_turn) s1 = Some s'" "state_ok start prog sims log' s'" "cpu s' = cpu s1" "cpu_at s' = Waiting n now"
        "biases s' = biases s1" "unblocked s'" using less.hyps [OF s1(6,2,4)] by auto
      then show ?thesis using s1 by (intro exI [of _ "Suc N"] exI [of _ s'] exI [of _ log']) simp
    qed
  qed
qed

lemma cosim_run_append: "cosim_run env (xs @ ys) s = Option.bind (cosim_run env xs s) (cosim_run env ys)"
  by (induction env xs s rule: cosim_run.induct) (simp_all split: Option.bind_splits)

lemma collecting_ends:
  assumes up: "set_up legal max_cpus ok start prog sims" and "entries q = {#}" and run: "cosim_run env sch (cosim_start start prog q sims) = Some s" and at: "cpu_at s = Waiting n now"
  shows "\<exists>N s'. cosim_run env (replicate N Mem_turn @ [Cpu_turn, Cpu_turn, Cpu_turn]) s = Some s' \<and> cpu_at s' = Running \<and> length (biases s') = Suc (length (biases s))"
proof -
  obtain log where ok: "state_ok start prog sims log s" using run_keeps [OF start_ok [OF assms(1,2)] up, of sch] run by auto
  obtain N s1 log1 where s1: "cosim_run env (replicate N Mem_turn) s = Some s1" "state_ok start prog sims log1 s1" "cpu_at s1 = Waiting n now" "biases s1 = biases s" "unblocked s1"
    using mem_unblocks [OF ok up at] by blast
  let ?s2 = "s1\<lparr>cpu_at := Locking n now\<rparr>"
  have step2: "iss_step env s1 = Some ?s2" using s1(3,5) by (simp add: iss_step_def unblocked_def)
  then have ok2: "state_ok start prog sims log1 ?s2" using iss_step_keeps [OF s1(2) up] by auto
  let ?i = "lock_of (CpuEpoch (cpu s1))"
  have "\<not> Mut s1 ! ?i" using ok2 s1(5) lock_of_bound [of "CpuEpoch (cpu s1)"] by (auto simp: state_ok_def locks_ok_def unblocked_def)
  then have step3: "iss_step env ?s2 = Some (?s2\<lparr>Mut := (Mut s1)[?i := True], cpu_at := Filling n now\<rparr>)" by (simp add: iss_step_def)
  then have ok3: "state_ok start prog sims log1 (?s2\<lparr>Mut := (Mut s1)[?i := True], cpu_at := Filling n now\<rparr>)" (is "state_ok _ _ _ _ ?s3") using iss_step_keeps [OF ok2 up] by auto
  obtain s4 where step4: "iss_step env ?s3 = Some s4" using iss_step_keeps [OF ok3 up] by auto
  then have "cpu_at s4 = Running" "length (biases s4) = Suc (length (biases s1))" by (auto simp: iss_step_def osimps)
  then show ?thesis using s1(1,4) step2 step3 step4 by (intro exI [of _ N] exI [of _ s4]) (simp add: cosim_run_append)
qed

end

end
