(* ===== verification/CosimMemory.thy ===== *)
theory CosimMemory
  imports CosimThreads BusTarget
begin

text \<open>
  The memory simulators behind the threads (\<open>SystemCCosimulator\<close> of \<open>components/include/components/MainMemCosim.hpp\<close>, \<open>IOAccessCosimulator\<close> of
  \<open>IOAccessCosim.hpp\<close>): translation of addresses, the accesses they send, the delays they collect in a slot per processor and parity of
  the epoch. What is bound to their sockets, the controller that takes the commands, the conversion of nanoseconds to the time of the simulation and the sum
  of a bias and a time (a floating-point product in the code) are arguments. An index outside an array is \<open>None\<close>. The queue of finished device accesses is
  unbounded: the code creates it for sixteen million entries.
\<close>

section \<open>Addresses\<close>

text \<open>Ranges of host addresses, with the guest address they stand for and their size. The sum wraps.\<close>

type_synonym host_range = "u64 \<times> u64 \<times> u64"

fun convertAddr :: "host_range list \<Rightarrow> u64 \<Rightarrow> u64 option" where
  "convertAddr [] H = None"
| "convertAddr ((Hp, base, sz) # ms) H = (if H \<ge> Hp \<and> H < Hp + sz then Some (base + (H - Hp)) else convertAddr ms H)"

text \<open>For devices, a range without a host address stands for guest addresses.\<close>

fun io_convertAddr :: "host_range list \<Rightarrow> u64 \<Rightarrow> u64 option" where
  "io_convertAddr [] H = None"
| "io_convertAddr ((Hp, base, sz) # ms) H =
     (if Hp = 0 then (if H \<ge> base \<and> H < base + sz then Some H else io_convertAddr ms H)
      else if H \<ge> Hp \<and> H < Hp + sz then Some (base + (H - Hp)) else io_convertAddr ms H)"

section \<open>Simulators\<close>

record cosim_payload =
  cp_address :: u64
  cp_length :: u32
  cp_command :: tlm_command
  cp_type :: u8
  cp_source :: u32
  cp_time_stamp :: u64

text \<open>The sockets: of simulator \<open>i\<close>, for fetches or data, of a processor; and the ports of the devices.\<close>

record 'w cosim_ops =
  cw_port :: "nat \<Rightarrow> bool \<Rightarrow> u32 \<Rightarrow> cosim_payload \<Rightarrow> u64 \<Rightarrow> 'w \<Rightarrow> u64 \<times> 'w"
  cw_dma :: "nat \<Rightarrow> u32 \<Rightarrow> cosim_payload \<Rightarrow> u64 \<Rightarrow> 'w \<Rightarrow> u64 \<times> 'w"
  cw_command :: "nat \<Rightarrow> bool \<Rightarrow> u64 \<Rightarrow> 'w \<Rightarrow> 'w"
  cw_ns :: "u64 \<Rightarrow> u64"
  cw_bias :: "u64 \<Rightarrow> u64 \<Rightarrow> u64"

definition MAX_CPUS :: nat where
  "MAX_CPUS = 256"

record SystemCCosimulator =
  mOutPorts :: nat
  sc_mMaps :: "host_range list"
  mTimes :: "u64 list list"
  io_mOutPorts :: nat
  io_mMaps :: "host_range list"

text \<open>The slots of the processors without a port are not initialised.\<close>

definition SystemCCosimulator_new :: "(nat \<Rightarrow> u64) \<Rightarrow> nat \<Rightarrow> host_range list \<Rightarrow> nat \<Rightarrow> host_range list \<Rightarrow> SystemCCosimulator option" where
  "SystemCCosimulator_new fresh outPorts maps io_ports io_maps =
     do {
       _ \<leftarrow> cassert (outPorts \<le> MAX_CPUS);
       Some \<lparr>mOutPorts = outPorts, sc_mMaps = maps,
         mTimes = map (\<lambda>i. if i < outPorts then [0, 0] else [fresh (2 * i), fresh (2 * i + 1)]) [0..<MAX_CPUS], io_mOutPorts = io_ports, io_mMaps = io_maps\<rparr>
     }"

definition sc_payload :: "'w cosim_ops \<Rightarrow> Req \<Rightarrow> SystemCCosimulator \<Rightarrow> cosim_payload" where
  "sc_payload ops k x =
     \<lparr>cp_address = (if rq_fetch k \<noteq> 0 then rq_phys k else case convertAddr (sc_mMaps x) (rq_phys k) of Some a \<Rightarrow> a | None \<Rightarrow> 0), cp_length = rq_size k,
      cp_command = (if rq_write k \<noteq> 0 then TLM_WRITE_COMMAND else TLM_READ_COMMAND), cp_type = 0, cp_source = rq_id k,
      cp_time_stamp = cw_ns ops (rq_time_stamp k)\<rparr>"

definition sc_insert :: "'w cosim_ops \<Rightarrow> u64 \<Rightarrow> Req \<Rightarrow> nat \<Rightarrow> SystemCCosimulator \<Rightarrow> 'w \<Rightarrow> (SystemCCosimulator \<times> 'w) option" where
  "sc_insert ops e k i x w =
     (let c = unat (rq_id k)
      in do {
        _ \<leftarrow> cassert (c < mOutPorts x \<and> c < length (mTimes x));
        let (t, w) = cw_port ops i (rq_fetch k \<noteq> 0) (rq_id k) (sc_payload ops k x) (mTimes x ! c ! lock_of e) w;
        Some (x\<lparr>mTimes := (mTimes x)[c := (mTimes x ! c)[lock_of e := t]]\<rparr>, w)
      })"

definition fillBiases :: "'w cosim_ops \<Rightarrow> nat \<Rightarrow> u64 \<Rightarrow> u64 list \<Rightarrow> SystemCCosimulator \<Rightarrow> (u64 list \<times> SystemCCosimulator) option" where
  "fillBiases ops n e ts x =
     do {
       _ \<leftarrow> cassert (n \<le> length (mTimes x));
       Some (map (\<lambda>i. cw_bias ops (ts ! i) (mTimes x ! i ! lock_of e)) [0..<n],
             x\<lparr>mTimes := map (\<lambda>i. if i < n then (mTimes x ! i)[lock_of e := 0] else mTimes x ! i) [0..<length (mTimes x)]\<rparr>)
     }"

section \<open>All simulators\<close>

record 'w memory_side =
  Simulators :: "SystemCCosimulator list"
  Q_Accomplished :: "(u64 \<times> u64 \<times> u64) list list"
  mem_world :: 'w

fun insert_each :: "'w cosim_ops \<Rightarrow> u64 \<Rightarrow> Req \<Rightarrow> nat \<Rightarrow> SystemCCosimulator list \<Rightarrow> 'w \<Rightarrow> (SystemCCosimulator list \<times> 'w) option" where
  "insert_each ops e k i [] w = Some ([], w)"
| "insert_each ops e k i (x # xs) w = do { (x, w) \<leftarrow> sc_insert ops e k i x w; (xs, w) \<leftarrow> insert_each ops e k (Suc i) xs w; Some (x # xs, w) }"

definition io_insert :: "'w cosim_ops \<Rightarrow> Req \<Rightarrow> nat \<Rightarrow> SystemCCosimulator \<Rightarrow> 'w memory_side \<Rightarrow> 'w memory_side option" where
  "io_insert ops k i x m =
     (let a = (case io_convertAddr (io_mMaps x) (rq_phys k) of Some a \<Rightarrow> a | None \<Rightarrow> 0);
          pld = \<lparr>cp_address = a, cp_length = rq_size k, cp_command = (if rq_write k \<noteq> 0 then TLM_WRITE_COMMAND else TLM_READ_COMMAND), cp_type = 1,
            cp_source = rq_id k, cp_time_stamp = cw_ns ops (rq_time_stamp k)\<rparr>;
          d = unat (rq_id k)
      in do {
        _ \<leftarrow> cassert (d < io_mOutPorts x \<and> d < length (Q_Accomplished m));
        let (delay, w) = cw_dma ops i (rq_id k) pld 0 (mem_world m);
        Some (m\<lparr>mem_world := w, Q_Accomplished := (Q_Accomplished m)[d := Q_Accomplished m ! d @ [(cp_time_stamp pld, delay, rq_tag k)]]\<rparr>)
      })"

fun io_each :: "'w cosim_ops \<Rightarrow> Req \<Rightarrow> nat \<Rightarrow> SystemCCosimulator list \<Rightarrow> 'w memory_side \<Rightarrow> 'w memory_side option" where
  "io_each ops k i [] m = Some m"
| "io_each ops k i (x # xs) m = Option.bind (io_insert ops k i x m) (io_each ops k (Suc i) xs)"

fun command_each :: "'w cosim_ops \<Rightarrow> Req \<Rightarrow> nat \<Rightarrow> SystemCCosimulator list \<Rightarrow> 'w \<Rightarrow> 'w" where
  "command_each ops k i [] w = w"
| "command_each ops k i (x # xs) w = command_each ops k (Suc i) xs (cw_command ops i (rq_write k \<noteq> 0) (rq_tag k) w)"

definition hand_over :: "'w cosim_ops \<Rightarrow> u64 \<Rightarrow> Req \<Rightarrow> 'w memory_side \<Rightarrow> 'w memory_side option" where
  "hand_over ops e k m =
     (case rq_type k of
        DEVICE \<Rightarrow> io_each ops k 0 (Simulators m) m
      | CPU \<Rightarrow> map_option (\<lambda>(xs, w). m\<lparr>Simulators := xs, mem_world := w\<rparr>) (insert_each ops e k 0 (Simulators m) (mem_world m))
      | SESAMCOMMAND \<Rightarrow> Some (m\<lparr>mem_world := command_each ops k 0 (Simulators m) (mem_world m)\<rparr>))"

fun fill_each :: "'w cosim_ops \<Rightarrow> nat \<Rightarrow> u64 \<Rightarrow> u64 list \<Rightarrow> SystemCCosimulator list \<Rightarrow> (u64 list \<times> SystemCCosimulator list) option" where
  "fill_each ops n e ts [] = Some (ts, [])"
| "fill_each ops n e ts (x # xs) = do { (ts, x) \<leftarrow> fillBiases ops n e ts x; (ts, xs) \<leftarrow> fill_each ops n e ts xs; Some (ts, x # xs) }"

definition collect :: "'w cosim_ops \<Rightarrow> nat \<Rightarrow> u64 \<Rightarrow> 'w memory_side \<Rightarrow> (u64 list \<times> 'w memory_side) option" where
  "collect ops n e m = map_option (\<lambda>(ts, xs). (ts, m\<lparr>Simulators := xs\<rparr>)) (fill_each ops n e (replicate n 0) (Simulators m))"

definition systemc_env :: "'q pq_ops \<Rightarrow> 'w cosim_ops \<Rightarrow> ('q, 'w memory_side) cosim_env" where
  "systemc_env pq ops = \<lparr>cs_queue = pq, cs_insert = hand_over ops, cs_fill = collect ops\<rparr>"

text \<open>A device takes the oldest finished access.\<close>

definition GetDelay :: "nat \<Rightarrow> 'w memory_side \<Rightarrow> ((u64 \<times> u64 \<times> u64) option \<times> 'w memory_side) option" where
  "GetDelay device m =
     do {
       _ \<leftarrow> cassert (device < length (Q_Accomplished m));
       case Q_Accomplished m ! device of
         [] \<Rightarrow> Some (None, m)
       | k # ks \<Rightarrow> Some (Some k, m\<lparr>Q_Accomplished := (Q_Accomplished m)[device := ks]\<rparr>)
     }"

section \<open>The slots do not interfere\<close>

text \<open>Enough ports for processors below \<open>P\<close> and devices below \<open>D\<close>.\<close>

definition sim_ok :: "nat \<Rightarrow> nat \<Rightarrow> SystemCCosimulator \<Rightarrow> bool" where
  "sim_ok P D x \<longleftrightarrow> P \<le> mOutPorts x \<and> D \<le> io_mOutPorts x \<and> P \<le> MAX_CPUS \<and> length (mTimes x) = MAX_CPUS \<and> (\<forall>row\<in>set (mTimes x). length row = 2)"

definition sims_ok :: "nat \<Rightarrow> nat \<Rightarrow> 'w memory_side \<Rightarrow> bool" where
  "sims_ok P D m \<longleftrightarrow> (\<forall>x\<in>set (Simulators m). sim_ok P D x) \<and> D \<le> length (Q_Accomplished m)"

definition req_ok :: "nat \<Rightarrow> nat \<Rightarrow> Req \<Rightarrow> bool" where
  "req_ok P D k \<longleftrightarrow> (rq_type k = CPU \<longrightarrow> unat (rq_id k) < P) \<and> (rq_type k = DEVICE \<longrightarrow> unat (rq_id k) < D)"

lemma sc_insert_total:
  assumes "sim_ok P D x" "unat (rq_id k) < P"
  shows "\<exists>x' w'. sc_insert ops e k i x w = Some (x', w') \<and> sim_ok P D x'"
  using assms lock_of_bound by (auto simp: sc_insert_def sim_ok_def Let_def split_beta dest!: set_update_subset_insert [THEN subsetD])

lemma fillBiases_total:
  assumes "sim_ok P D x" "n \<le> MAX_CPUS"
  shows "\<exists>ts' x'. fillBiases ops n e ts x = Some (ts', x') \<and> sim_ok P D x'"
  using assms by (auto simp: fillBiases_def sim_ok_def)

lemma sc_insert_fill:
  assumes "sim_ok P D x" "lock_of e \<noteq> lock_of f" "sc_insert ops e k i x w = Some (x1, w1)" "fillBiases ops n f ts x = Some (ts', x2)"
  shows "\<exists>x3. fillBiases ops n f ts x1 = Some (ts', x3) \<and> sc_insert ops e k i x2 w = Some (x3, w1)"
proof -
  let ?c = "unat (rq_id k)"
  have len: "length (mTimes x) = MAX_CPUS" "\<And>j. j < MAX_CPUS \<Longrightarrow> length (mTimes x ! j) = 2" using assms(1) by (auto simp: sim_ok_def)
  have c: "?c < mOutPorts x" "?c < MAX_CPUS" "n \<le> MAX_CPUS" using assms(3,4) len(1) by (auto simp: sc_insert_def fillBiases_def Let_def osimps)
  define tw where "tw = cw_port ops i (rq_fetch k \<noteq> 0) (rq_id k) (sc_payload ops k x) (mTimes x ! ?c ! lock_of e) w"
  define t where "t = fst tw"
  have t: "x1 = x\<lparr>mTimes := (mTimes x)[?c := (mTimes x ! ?c)[lock_of e := t]]\<rparr>" "w1 = snd tw"
    using assms(3) by (auto simp: sc_insert_def Let_def split_beta osimps t_def tw_def)
  have x2: "x2 = x\<lparr>mTimes := map (\<lambda>i. if i < n then (mTimes x ! i)[lock_of f := 0] else mTimes x ! i) [0..<length (mTimes x)]\<rparr>"
    "ts' = map (\<lambda>i. cw_bias ops (ts ! i) (mTimes x ! i ! lock_of f)) [0..<n]" using assms(4) by (auto simp: fillBiases_def osimps)
  have slot: "mTimes x2 ! ?c ! lock_of e = mTimes x ! ?c ! lock_of e" "length (mTimes x2) = MAX_CPUS" using x2(1) c len assms(2) by auto
  have ins: "sc_insert ops e k i x2 w = Some (x2\<lparr>mTimes := (mTimes x2)[?c := (mTimes x2 ! ?c)[lock_of e := t]]\<rparr>, w1)"
  proof -
    have "sc_payload ops k x2 = sc_payload ops k x" "mOutPorts x2 = mOutPorts x" using x2(1) by (simp_all add: sc_payload_def)
    then show ?thesis using slot c t(2) by (simp add: sc_insert_def Let_def split_beta t_def tw_def)
  qed
  have eq: "map (\<lambda>i. if i < n then (mTimes x1 ! i)[lock_of f := 0] else mTimes x1 ! i) [0..<length (mTimes x1)] = (mTimes x2)[?c := (mTimes x2 ! ?c)[lock_of e := t]]"
    using t(1) x2(1) c len assms(2) by (intro nth_equalityI) (auto simp: nth_list_update list_update_swap)
  have len1: "length (mTimes x1) = MAX_CPUS" using t(1) len(1) by simp
  have "mTimes x1 ! i ! lock_of f = mTimes x ! i ! lock_of f" for i using t(1) c len assms(2) by (cases "i = ?c") auto
  then have "fillBiases ops n f ts x1 = Some (ts', x1\<lparr>mTimes := (mTimes x2)[?c := (mTimes x2 ! ?c)[lock_of e := t]]\<rparr>)"
    using c(3) len1 x2(2) eq by (simp add: fillBiases_def)
  then show ?thesis using ins t(1) x2(1) by simp
qed

lemma insert_each_total:
  assumes "\<forall>x\<in>set xs. sim_ok P D x" "unat (rq_id k) < P"
  shows "\<exists>xs' w'. insert_each ops e k i xs w = Some (xs', w') \<and> (\<forall>x\<in>set xs'. sim_ok P D x)"
  using assms
proof (induction xs arbitrary: i w)
  case (Cons x xs)
  obtain x1 w1 where "sc_insert ops e k i x w = Some (x1, w1)" "sim_ok P D x1" using sc_insert_total [of P D x k ops e i w] Cons.prems by auto
  moreover obtain xs' w' where "insert_each ops e k (Suc i) xs w1 = Some (xs', w')" "\<forall>x\<in>set xs'. sim_ok P D x" using Cons.IH [of "Suc i" w1] Cons.prems by auto
  ultimately show ?case by simp
qed simp

lemma fill_each_total:
  assumes "\<forall>x\<in>set xs. sim_ok P D x" "n \<le> MAX_CPUS"
  shows "\<exists>ts' xs'. fill_each ops n e ts xs = Some (ts', xs') \<and> (\<forall>x\<in>set xs'. sim_ok P D x)"
  using assms
proof (induction xs arbitrary: ts)
  case (Cons x xs)
  obtain ts1 x1 where "fillBiases ops n e ts x = Some (ts1, x1)" "sim_ok P D x1" using fillBiases_total [of P D x n ops e ts] Cons.prems by auto
  moreover obtain ts' xs' where "fill_each ops n e ts1 xs = Some (ts', xs')" "\<forall>x\<in>set xs'. sim_ok P D x" using Cons.IH [of ts1] Cons.prems by auto
  ultimately show ?case by simp
qed simp

lemma insert_fill_each:
  assumes "\<forall>x\<in>set xs. sim_ok P D x" "lock_of e \<noteq> lock_of f" "insert_each ops e k i xs w = Some (xs1, w1)" "fill_each ops n f ts xs = Some (ts', xs2)"
  shows "\<exists>xs3. fill_each ops n f ts xs1 = Some (ts', xs3) \<and> insert_each ops e k i xs2 w = Some (xs3, w1)"
  using assms
proof (induction xs arbitrary: i w ts xs1 xs2)
  case (Cons x xs)
  obtain x1 v ys1 where a: "sc_insert ops e k i x w = Some (x1, v)" "insert_each ops e k (Suc i) xs v = Some (ys1, w1)" "xs1 = x1 # ys1"
    using Cons.prems(3) by (auto simp: osimps)
  obtain us x2 ys2 where b: "fillBiases ops n f ts x = Some (us, x2)" "fill_each ops n f us xs = Some (ts', ys2)" "xs2 = x2 # ys2"
    using Cons.prems(4) by (auto simp: osimps)
  obtain x3 where "fillBiases ops n f ts x1 = Some (us, x3)" "sc_insert ops e k i x2 w = Some (x3, v)"
    using sc_insert_fill [where P = P and D = D, OF _ Cons.prems(2) a(1) b(1)] Cons.prems(1) by auto
  moreover obtain ys3 where "fill_each ops n f us ys1 = Some (ts', ys3)" "insert_each ops e k (Suc i) ys2 v = Some (ys3, w1)"
    using Cons.IH [OF _ Cons.prems(2) a(2) b(2)] Cons.prems(1) by auto
  ultimately show ?case using a(3) b(3) by simp
qed simp

lemma fill_each_maps: "fill_each ops n f ts xs = Some (ts', xs') \<Longrightarrow> map io_mMaps xs' = map io_mMaps xs \<and> map io_mOutPorts xs' = map io_mOutPorts xs"
  by (induction xs arbitrary: ts xs') (auto simp: fillBiases_def osimps)

lemma io_each_keeps:
  assumes "\<forall>x\<in>set xs. sim_ok P D x" "D \<le> length (Q_Accomplished m)" "unat (rq_id k) < D"
  shows "\<exists>q w. io_each ops k i xs m = Some (m\<lparr>Q_Accomplished := q, mem_world := w\<rparr>) \<and> length q = length (Q_Accomplished m) \<and>
    (\<forall>ys zs. map io_mMaps ys = map io_mMaps xs \<longrightarrow> map io_mOutPorts ys = map io_mOutPorts xs \<longrightarrow>
       io_each ops k i ys (m\<lparr>Simulators := zs\<rparr>) = Some (m\<lparr>Simulators := zs, Q_Accomplished := q, mem_world := w\<rparr>))"
  using assms
proof (induction xs arbitrary: i m)
  case Nil
  show ?case by (intro exI [of _ "Q_Accomplished m"] exI [of _ "mem_world m"]) simp
next
  case (Cons x xs)
  let ?d = "unat (rq_id k)"
  define pld where "pld = \<lparr>cp_address = (case io_convertAddr (io_mMaps x) (rq_phys k) of Some a \<Rightarrow> a | None \<Rightarrow> 0), cp_length = rq_size k,
    cp_command = (if rq_write k \<noteq> 0 then TLM_WRITE_COMMAND else TLM_READ_COMMAND), cp_type = 1, cp_source = rq_id k, cp_time_stamp = cw_ns ops (rq_time_stamp k)\<rparr>"
  define dw where "dw = cw_dma ops i (rq_id k) pld 0 (mem_world m)"
  define q1 where "q1 = (Q_Accomplished m)[?d := Q_Accomplished m ! ?d @ [(cw_ns ops (rq_time_stamp k), fst dw, rq_tag k)]]"
  let ?m1 = "m\<lparr>Q_Accomplished := q1, mem_world := snd dw\<rparr>"
  have "?d < io_mOutPorts x" using Cons.prems by (auto simp: sim_ok_def)
  then have ins: "io_insert ops k i y (m\<lparr>Simulators := zs\<rparr>) = Some (?m1\<lparr>Simulators := zs\<rparr>)" "io_insert ops k i x m = Some ?m1"
    if "io_mMaps y = io_mMaps x" "io_mOutPorts y = io_mOutPorts x" for y zs
    using Cons.prems(2,3) that by (simp_all add: io_insert_def Let_def split_beta pld_def [symmetric] dw_def [symmetric] q1_def)
  have q1: "length q1 = length (Q_Accomplished m)" by (simp add: q1_def)
  obtain q w where r: "io_each ops k (Suc i) xs ?m1 = Some (?m1\<lparr>Q_Accomplished := q, mem_world := w\<rparr>)" "length q = length q1"
    "\<And>ys zs. map io_mMaps ys = map io_mMaps xs \<Longrightarrow> map io_mOutPorts ys = map io_mOutPorts xs \<Longrightarrow>
       io_each ops k (Suc i) ys (?m1\<lparr>Simulators := zs\<rparr>) = Some (?m1\<lparr>Simulators := zs, Q_Accomplished := q, mem_world := w\<rparr>)"
    using Cons.IH [of ?m1 "Suc i"] Cons.prems q1 by auto
  have "io_each ops k i ys (m\<lparr>Simulators := zs\<rparr>) = Some (m\<lparr>Simulators := zs, Q_Accomplished := q, mem_world := w\<rparr>)"
    if ys: "map io_mMaps ys = map io_mMaps (x # xs)" "map io_mOutPorts ys = map io_mOutPorts (x # xs)" for ys zs
  proof -
    obtain y ys' where y: "ys = y # ys'" "io_mMaps y = io_mMaps x" "io_mOutPorts y = io_mOutPorts x" "map io_mMaps ys' = map io_mMaps xs" "map io_mOutPorts ys' = map io_mOutPorts xs"
      using ys by (cases ys) auto
    show ?thesis using ins(1) [OF y(2,3)] r(3) [OF y(4,5)] by (simp add: y(1))
  qed
  then show ?case using ins(2) [of x] r(1,2) q1 by (intro exI [of _ q] exI [of _ w]) simp
qed

section \<open>The threads with these simulators\<close>

lemma hand_over_total:
  assumes "sims_ok P D m" "req_ok P D k"
  shows "\<exists>m'. hand_over ops e k m = Some m' \<and> sims_ok P D m'"
proof (cases "rq_type k")
  case CPU
  then show ?thesis using insert_each_total [of "Simulators m" P D k ops e 0 "mem_world m"] assms by (auto simp: hand_over_def sims_ok_def req_ok_def)
next
  case DEVICE
  then show ?thesis using io_each_keeps [of "Simulators m" P D m k ops 0] assms by (auto simp: hand_over_def sims_ok_def req_ok_def)
next
  case SESAMCOMMAND
  then show ?thesis using assms by (simp add: hand_over_def sims_ok_def)
qed

lemma command_each_length: "length xs = length ys \<Longrightarrow> command_each ops k i xs w = command_each ops k i ys w"
  by (induction xs ys arbitrary: i w rule: list_induct2) simp_all

lemma hand_over_collect:
  assumes "sims_ok P D m" "req_ok P D k" "lock_of e \<noteq> lock_of f" "hand_over ops e k m = Some m1" "collect ops n f m = Some (ts, m2)"
  shows "\<exists>m3. collect ops n f m1 = Some (ts, m3) \<and> hand_over ops e k m2 = Some m3"
proof -
  obtain xs2 where x2: "fill_each ops n f (replicate n 0) (Simulators m) = Some (ts, xs2)" "m2 = m\<lparr>Simulators := xs2\<rparr>"
    using assms(5) by (auto simp: collect_def)
  show ?thesis
  proof (cases "rq_type k")
    case CPU
    then obtain xs1 w1 where x1: "insert_each ops e k 0 (Simulators m) (mem_world m) = Some (xs1, w1)" "m1 = m\<lparr>Simulators := xs1, mem_world := w1\<rparr>"
      using assms(4) by (auto simp: hand_over_def)
    obtain xs3 where "fill_each ops n f (replicate n 0) xs1 = Some (ts, xs3)" "insert_each ops e k 0 xs2 (mem_world m) = Some (xs3, w1)"
      using insert_fill_each [where P = P and D = D, OF _ assms(3) x1(1) x2(1)] assms(1) by (auto simp: sims_ok_def)
    then show ?thesis using x1(2) x2(2) CPU by (simp add: collect_def hand_over_def)
  next
    case DEVICE
    obtain q w where q: "io_each ops k 0 (Simulators m) m = Some (m\<lparr>Q_Accomplished := q, mem_world := w\<rparr>)"
      "\<And>ys zs. map io_mMaps ys = map io_mMaps (Simulators m) \<Longrightarrow> map io_mOutPorts ys = map io_mOutPorts (Simulators m) \<Longrightarrow>
         io_each ops k 0 ys (m\<lparr>Simulators := zs\<rparr>) = Some (m\<lparr>Simulators := zs, Q_Accomplished := q, mem_world := w\<rparr>)"
      using io_each_keeps [of "Simulators m" P D m k ops 0] assms(1,2) DEVICE by (auto simp: sims_ok_def req_ok_def)
    have "m1 = m\<lparr>Q_Accomplished := q, mem_world := w\<rparr>" using assms(4) q(1) DEVICE by (simp add: hand_over_def)
    moreover have "hand_over ops e k m2 = Some (m2\<lparr>Q_Accomplished := q, mem_world := w\<rparr>)"
      using q(2) [of xs2 xs2] fill_each_maps [OF x2(1)] x2(2) DEVICE by (simp add: hand_over_def)
    ultimately show ?thesis using x2 by (simp add: collect_def)
  next
    case SESAMCOMMAND
    have "length xs2 = length (Simulators m)" using fill_each_maps [OF x2(1)] by (metis length_map)
    moreover have "m1 = m\<lparr>mem_world := command_each ops k 0 (Simulators m) (mem_world m)\<rparr>" using assms(4) SESAMCOMMAND by (simp add: hand_over_def)
    ultimately show ?thesis using x2 SESAMCOMMAND command_each_length [of xs2 "Simulators m" ops k 0 "mem_world m"] by (simp add: collect_def hand_over_def)
  qed
qed

lemma collect_total: "sims_ok P D m \<Longrightarrow> n \<le> MAX_CPUS \<Longrightarrow> \<exists>ts m'. collect ops n e m = Some (ts, m') \<and> sims_ok P D m'"
  using fill_each_total [of "Simulators m" P D n ops e "replicate n 0"] by (auto simp: collect_def sims_ok_def)

interpretation systemc: epoch_store "systemc_env pq ops" "sims_ok P D" "req_ok P D" MAX_CPUS for pq ops P D
proof
  fix c k e n f c1 ts c2
  show "sims_ok P D c \<Longrightarrow> req_ok P D k \<Longrightarrow> \<exists>c'. cs_insert (systemc_env pq ops) e k c = Some c' \<and> sims_ok P D c'"
    using hand_over_total [of P D c k ops e] by (simp add: systemc_env_def)
  show "sims_ok P D c \<Longrightarrow> n \<le> MAX_CPUS \<Longrightarrow> \<exists>ts c'. cs_fill (systemc_env pq ops) n e c = Some (ts, c') \<and> sims_ok P D c'"
    using collect_total [of P D c n ops e] by (simp add: systemc_env_def)
  show "sims_ok P D c \<Longrightarrow> req_ok P D k \<Longrightarrow> n \<le> MAX_CPUS \<Longrightarrow> lock_of e \<noteq> lock_of f \<Longrightarrow> cs_insert (systemc_env pq ops) e k c = Some c1 \<Longrightarrow>
      cs_fill (systemc_env pq ops) n f c = Some (ts, c2) \<Longrightarrow> \<exists>c3. cs_fill (systemc_env pq ops) n f c1 = Some (ts, c3) \<and> cs_insert (systemc_env pq ops) e k c2 = Some c3"
    using hand_over_collect [of P D c k e f ops c1 n ts c2] by (simp add: systemc_env_def)
qed

lemma systemc_cosimulation: "request_queue pq entries \<Longrightarrow> cosimulation (systemc_env pq ops) entries (sims_ok P D) (req_ok P D) MAX_CPUS"
  by (intro cosimulation.intro systemc.epoch_store_axioms) (simp add: systemc_env_def)

text \<open>The queue as a list.\<close>

definition rq_key :: "Req \<Rightarrow> nat \<times> nat" where
  "rq_key k = (unat (rq_epoch k), unat (rq_time_stamp k))"

definition list_pq :: "Req list pq_ops" where
  "list_pq = \<lparr>pq_push = (\<lambda>k q. k # q), pq_try_pop = (\<lambda>q. case sort_key rq_key q of [] \<Rightarrow> None | k # ks \<Rightarrow> Some (k, ks))\<rparr>"

lemma list_pq_pop: "pq_try_pop list_pq q = Some (k, q') \<longleftrightarrow> sort_key rq_key q = k # q'"
  by (auto simp: list_pq_def split: list.splits)

interpretation list_queue: request_queue list_pq mset
proof
  fix k k' :: Req and q q' :: "Req list"
  show "mset (pq_push list_pq k q) = add_mset k (mset q)" by (simp add: list_pq_def)
  have s: "mset (sort_key rq_key q) = mset q" by simp
  have "sort_key rq_key q = [] \<longleftrightarrow> q = []" using s by (metis mset_zero_iff)
  then show "pq_try_pop list_pq q = None \<longleftrightarrow> mset q = {#}" by (auto simp: list_pq_def split: list.splits)
  show "pq_try_pop list_pq q = Some (k, q') \<Longrightarrow> mset q = add_mset k (mset q')" using s by (simp add: list_pq_pop)
  show "pq_try_pop list_pq q = Some (k, q') \<Longrightarrow> k' \<in># mset q' \<Longrightarrow> \<not> compare_Req k k'"
    using sorted_sort_key [of rq_key q]
    by (auto simp: list_pq_pop compare_Req_def rq_key_def less_eq_prod_def word_less_nat_alt word_unat_eq_iff)
qed

interpretation systemc_list: cosimulation "systemc_env list_pq ops" mset "sims_ok P D" "req_ok P D" MAX_CPUS for ops P D
  by (rule systemc_cosimulation) (rule list_queue.request_queue_axioms)

section \<open>Properties\<close>

text \<open>
  C28: The two threads work as one. Whatever the schedule of the threads is and however the queue orders equal requests, for a program of the simulator thread whose requests
  name existing ports: every step of the schedule can be taken; there is an order of the requests, by epoch and time, such that the delays returned by the first \<open>m\<close> calls of
  \<open>FillBiases\<close> are those of a single thread that, before the delays of epoch \<open>e\<close> are collected, hands over the requests of epoch \<open>e - 2\<close> in that
  order; and the requests that are not yet in that order (still queued, or not yet issued) belong to later epochs, so none that the returned delays should
  contain is missing.
\<close>
theorem threads_like_one:
  assumes "request_queue pq entries" "entries q = {#}" "set_up (req_ok P D) MAX_CPUS (sims_ok P D) start prog m"
  shows "\<exists>s log rest. cosim_run (systemc_env pq ops) sch (cosim_start start prog q m) = Some s \<and> sorted_wrt in_order log \<and>
    mset log + rest = mset (issues start prog) \<and> (\<forall>k\<in>#rest. length (biases s) < unat (rq_epoch k) + 2) \<and>
    map_option fst (sequential (systemc_env pq ops) log 1 (take (length (biases s)) (fill_args prog)) m) = Some (biases s)"
  using cosimulation.threads_sequential [OF systemc_cosimulation [OF assms(1)] assms(3,2), of ops sch] by (simp only: ep_def)

text \<open>
  C29: A call of \<open>FillBiases\<close> that waits for the memory thread is always answered: from every state that any schedule reaches, finitely many steps of the
  memory thread let it take the lock, collect the delays and return.
\<close>
theorem collecting_answered:
  assumes "request_queue pq entries" "entries q = {#}" "set_up (req_ok P D) MAX_CPUS (sims_ok P D) start prog m"
    "cosim_run (systemc_env pq ops) sch (cosim_start start prog q m) = Some s" "cpu_at s = Waiting n now"
  shows "\<exists>N s'. cosim_run (systemc_env pq ops) (replicate N Mem_turn @ [Cpu_turn, Cpu_turn, Cpu_turn]) s = Some s' \<and> cpu_at s' = Running \<and>
    length (biases s') = Suc (length (biases s))"
  using cosimulation.collecting_ends [OF systemc_cosimulation [OF assms(1)] assms(3,2,4,5)] .

text \<open>A platform with one simulator and one processor; every access takes ten units and is recorded.\<close>

definition cosim_sample_ops :: "(u64 \<times> u64) list cosim_ops" where
  "cosim_sample_ops = \<lparr>cw_port = (\<lambda>i fetch cpu p t w. (t + 10, w @ [(cp_address p, cp_time_stamp p)])), cw_dma = (\<lambda>i d p t w. (t + 5, w)), cw_command = (\<lambda>i b t w. w),
     cw_ns = (\<lambda>t. t), cw_bias = (\<lambda>ts t. ts + t)\<rparr>"

definition cosim_sample_memory :: "(u64 \<times> u64) list memory_side" where
  "cosim_sample_memory = \<lparr>Simulators = [the (SystemCCosimulator_new (\<lambda>_. 0) 1 [(0x1000, 0x80000000, 0x1000)] 1 [])], Q_Accomplished = replicate 32 [], mem_world = []\<rparr>"

definition sample_start :: cosim_cpu where
  "sample_start = \<lparr>Notify_on = True, focusOnROI = False,
     Buffer = \<lparr>rq_type = CPU, rq_phys = 0, rq_size = 0, rq_id = 0, rq_time_stamp = 0, rq_write = 0, rq_tag = 0, rq_epoch = 0, rq_fetch = 0\<rparr>,
     CpuEpoch = 0, epoch_sc_time = 0, current_time_stamp = 0, nMainMemCb = 0, cb_calls = []\<rparr>"

definition sample_prog :: "cpu_act list" where
  "sample_prog = [Notify 0 20 0 0x1004 4, Notify 0 10 1 0x1008 4, FillBiases 1 100, FillBiases 1 200]"

lemma sample_set_up: "set_up (req_ok 1 1) MAX_CPUS (sims_ok 1 1) sample_start sample_prog cosim_sample_memory"
  by (auto simp: set_up_def sample_start_def sample_prog_def cosim_sample_memory_def SystemCCosimulator_new_def no_roi_def sims_ok_def sim_ok_def req_ok_def MAX_CPUS_def
      proceedNotify_def Let_def)

theorem threads_like_one_witness:
  "\<exists>s log rest. cosim_run (systemc_env list_pq cosim_sample_ops) (replicate 4 Cpu_turn @ replicate 12 Mem_turn @ replicate 6 Cpu_turn)
      (cosim_start sample_start sample_prog [] cosim_sample_memory) = Some s \<and> sorted_wrt in_order log \<and>
    mset log + rest = mset (issues sample_start sample_prog) \<and> (\<forall>k\<in>#rest. length (biases s) < unat (rq_epoch k) + 2) \<and>
    map_option fst (sequential (systemc_env list_pq cosim_sample_ops) log 1 (take (length (biases s)) (fill_args sample_prog)) cosim_sample_memory) = Some (biases s)"
  by (rule threads_like_one [OF list_queue.request_queue_axioms _ sample_set_up]) simp

lemma sample_waits: "map_option cpu_at (cosim_run (systemc_env list_pq cosim_sample_ops) (replicate 7 Cpu_turn) (cosim_start sample_start sample_prog [] cosim_sample_memory)) = Some (Waiting 1 200)"
  by code_simp

lemma sample_delays:
  "map_option (\<lambda>s. (biases s, mem_world (simulators s)))
     (cosim_run (systemc_env list_pq cosim_sample_ops) (replicate 7 Cpu_turn @ replicate 20 Mem_turn @ replicate 3 Cpu_turn) (cosim_start sample_start sample_prog [] cosim_sample_memory)) =
   Some ([[0], [20]], [(0x80000008, 10), (0x80000004, 20)])"
  by code_simp

theorem collecting_answered_witness:
  "\<exists>s N s'. cosim_run (systemc_env list_pq cosim_sample_ops) (replicate 7 Cpu_turn) (cosim_start sample_start sample_prog [] cosim_sample_memory) = Some s \<and>
    cosim_run (systemc_env list_pq cosim_sample_ops) (replicate N Mem_turn @ [Cpu_turn, Cpu_turn, Cpu_turn]) s = Some s' \<and> length (biases s') = Suc (length (biases s))"
proof -
  obtain s where s: "cosim_run (systemc_env list_pq cosim_sample_ops) (replicate 7 Cpu_turn) (cosim_start sample_start sample_prog [] cosim_sample_memory) = Some s" "cpu_at s = Waiting 1 200"
    using sample_waits by (auto simp del: replicate.simps)
  then show ?thesis using collecting_answered [OF list_queue.request_queue_axioms _ sample_set_up s] by auto
qed

end
