(* ===== verification/Spec2Isabelle.thy ===== *)
theory Spec2Isabelle
  imports AddrSpace MeshTransport GicProtocol ParamRefresh NocRouting BusPlatform ParamSchedule LoggerCore RtcWatchdogs HybridList SerialPorts CosimMemory
begin

text \<open>
  VPSim is a simulator of many-core platforms on SystemC: processors (instruction-set simulators behind
  a wrapper) access a hierarchy of caches, a coherent interconnect (a mesh with a timing model) carries the
  messages between caches, homes, memories and devices, and peripherals such as the interrupt controller answer
  the accesses that reach them. This development models the parts that decide what the simulated
  machine does, and proves what makes them correct.

  \<^bold>\<open>Theories and sources\<close>

  \<^item> \<open>VP_Prelude\<close>: machine integers, the TLM response and command codes, the C assertion, and the generic lemmas on words,
    lists and options. Its collections \<open>wsimps\<close> and \<open>osimps\<close> carry the automation.
  \<^item> \<open>AddrSpace\<close> (\<open>core/AddrSpace.cpp\<close>): address ranges with inclusive ends, on 64-bit words. The relative complement is
    shown to be the set difference, and what \<open>setSize\<close> and \<open>getSize\<close> do at the ends of the address space is stated exactly.
  \<^item> \<open>CacheLine\<close>, \<open>CacheSet\<close> (\<open>CacheLine.hpp\<close>, \<open>CacheSet.hpp\<close>, \<open>CoherenceExtension.hpp\<close>): lines, sets and replacement. The locale
    \<open>repl_policy\<close> states what a policy promises and is interpreted for LRU and MRU; LRU refines a list with
    move-to-front.
  \<^item> \<open>CacheBase\<close>: the state of a cache, the split of an address, the lookup, and the messages a cache
    sends. The environment of a cache is the parameter \<open>send\<close>; the locales \<open>quiet\<close> (a message changes nothing in the
    cache itself) and \<open>responsive\<close> (every message is answered) say what a cache relies on. They are interpreted on the default
    sends of \<open>CacheBase.hpp\<close> and on the timed sends of \<open>Cache.hpp\<close> (\<open>CacheTlm\<close>).
  \<^item> \<open>CacheNonCoherent\<close>, \<open>CacheCpu\<close>, \<open>CacheL2\<close>, \<open>CacheHome\<close>: the four access functions of \<open>CacheBase.hpp\<close>, request by request.
    \<open>CpuProtocol\<close>, \<open>CacheL2\<close> and \<open>HomeProtocol\<close> refine the access functions to one-step protocol tables (the state of the line and of the
    directory before and after, the messages sent, the line given up). The directory invariant, progress, and the termination of
    the recursion over the lines of a request follow.
  \<^item> \<open>CacheTlm\<close> (\<open>Cache.hpp\<close>): the transactions a cache sends and receives, and that they carry the request unchanged.
  \<^item> \<open>MeshNoC\<close>, \<open>MeshContention\<close>, \<open>MeshTransport\<close> (\<open>CoherenceInterconnect.cpp\<close> and its header): configuration and address maps, XY routes,
    the counters of the routers, the contention model, and the dispatch of a transaction to homes, caches, memories and devices.
  \<^item> \<open>Gic\<close>, \<open>GicProtocol\<close> (\<open>gic.cpp\<close>, \<open>gic.hpp\<close>): the interrupt controller on the bytes of its registers. Every operation keeps the controller
    well-formed (by rule induction over its steps); which interrupts an access concerns, how the queue of a processor is filled and
    emptied, and what the lines show are stated exactly.
  \<^item> \<open>ParamSet\<close>, \<open>ParamRefine\<close> (\<open>moduleParameters.cpp\<close>, \<open>parameterSet.cpp\<close>): the parameters of a module (blocking accesses, delays, traversal rates)
    on ranges of addresses. A container stands for a partial function on addresses; setting, merging, adding, trimming and comparing are refined to
    operations on these functions, and the recursive splitting of overlapping ranges is shown to end. The locale \<open>symmetric_pick\<close> gives the
    independence of the order of merges and is interpreted for both orders the code uses.
  \<^item> \<open>ParamModifier\<close> (\<open>parameterSetModifier.cpp\<close>): translation of addresses, with its overflow check.
  \<^item> \<open>ParamModules\<close>, \<open>ParamGraph\<close>, \<open>ParamRefresh\<close> (\<open>vpsimModule.cpp\<close>, \<open>paramManager.cpp\<close>): the graph of modules that import the parameters of their successors and export
    their own. A refresh that returns settles every module; on graphs without cycles it returns; where it loses parameters or never returns is stated.
  \<^item> \<open>BusTarget\<close>, \<open>BusMemory\<close>, \<open>BusInterconnect\<close>, \<open>BusPath\<close> (\<open>TargetIf.cpp\<close>, \<open>LatencyIf.cpp\<close>, \<open>memory.cpp\<close>, \<open>InitiatorIf.cpp\<close>, \<open>interconnect.cpp\<close>): an access from an
    initiator through the non-coherent interconnect to a target. The locale \<open>byte_store\<close> is the contract of a target that stores bytes; it is interpreted for memories and for
    an interconnect over memories, and runs of accesses refine one map from addresses to bytes. Refused accesses, the accesses that escape the address test and the
    latency loop are stated exactly.
  \<^item> \<open>BusForward\<close>, \<open>BusPlatform\<close> (\<open>ForwardSimpleSocket.cpp\<close>, the memories and interconnects of \<open>DynamicComponents.hpp\<close>): the forwarding sockets that serve accesses from regions of
    direct access and give them up when the parameters of their module change. The locale \<open>direct_store\<close> extends \<open>byte_store\<close>; in front of such a store a
    forwarder is again a byte store, so runs through it on a platform the library builds refine the same map, except at the border of adjacent memories.
  \<^item> \<open>NocDijkstra\<close>, \<open>NocBase\<close>, \<open>NocRouting\<close> (\<open>dijkstra.cpp\<close>, \<open>NoCBase.cpp\<close>, \<open>Mesh.cpp\<close>, \<open>Ring.cpp\<close>, \<open>Bus.cpp\<close>, \<open>NoCNoContention.cpp\<close>): description and routing of the detailed networks on
    chip, which the build leaves out. The search is generic in a priority queue (the locale \<open>priority_queue\<close>, interpreted on sorted lists), returns a shortest path, and the
    default routing delivers along shortest paths; the XY routing does not.

  \<^item> \<open>Schedule\<close>, \<open>ParamSchedule\<close>, \<open>LoggerCore\<close> (\<open>paramScheduler.cpp\<close>, \<open>paramAppointment.cpp\<close>, \<open>loggerScheduler.cpp\<close>, \<open>loggerCore.cpp\<close>, \<open>logger.cpp\<close>): threads that keep appointments, as steps of the
    simulation kernel (notification, timeout, passing time). The locale \<open>appointment_order\<close> is interpreted for the ordered container of the parameters and for the list of the
    loggers: changes are applied at their dates, in order. The registry of the loggers is kept consistent.
  \<^item> \<open>RtcWatchdogs\<close> (\<open>rtc.cpp\<close>): the watchdogs of the clock behave as a table of alarms.
  \<^item> \<open>Endian\<close> (\<open>EndianHelper.hpp\<close>), \<open>HybridList\<close> (\<open>HybridList.hpp\<close>): byte orders and round trips; the list of blocks and when a loop over it is safe.
  \<^item> \<open>InterruptLines\<close>, \<open>SerialPorts\<close> (\<open>InterruptSource.cpp\<close>, \<open>ItCtrl.cpp\<close>, \<open>CommonUartInterface.cpp\<close>, \<open>xuartps.cpp\<close>, \<open>PL011Uart.cpp\<close>, \<open>uart.cpp\<close>): interrupt sources, the memory-mapped
    controller of lines, and the serial ports on the bytes of their registers. The locale \<open>byte_port\<close> says what one access does to the two byte streams of a port; it is
    interpreted for the Cadence and the PrimeCell port, and gives that no byte is lost, repeated or reordered by any sequence of accesses. When the polling thread
    raises and lowers its line is stated exactly.
  \<^item> \<open>CosimThreads\<close>, \<open>CosimMemory\<close> (\<open>MainMemCosim.hpp\<close>, \<open>IOAccessCosim.hpp\<close>): the two threads that decouple the instruction-set simulator from the memory simulation. A schedule
    chooses which thread takes the next step. The locales \<open>request_queue\<close> (the concurrent queue, interpreted on lists) and \<open>epoch_store\<close> (the simulators, interpreted on those
    of the code) are joined in \<open>cosimulation\<close>: every schedule gives the delays of one thread, and a waiting call is always answered.

  \<^bold>\<open>How the models correspond to the code\<close>

  A class is a record, an enumeration a datatype, a template instance a case of an explicit mode. Integers keep their width. A failing
  assertion, a thrown exception and an access outside an array or a container are \<open>None\<close>, so that every theorem about a result
  says that none of them happened. The recursion of the access functions over the lines of a request is a \<open>partial_function\<close>
  in the option monad; that it ends is a theorem and not built into the definition. So are the splitting of ranges, the walks over the graph
  of modules, the shortest-path search, the walk along a route, the latency and dump loops of the memories, the loop over the watchdogs that are due and the
  iteration over a hybrid list. No other loop needs fuel: all are bounded by a list.

  \<^bold>\<open>Idealisations\<close>

  \<^item> The data bytes of cache lines are not kept: the line constructor of the code never allocates them, and no decision reads them.
  \<^item> The waiting time of a queue in the contention model is computed exactly where the code uses double arithmetic.
  \<^item> The interrupt controller runs one operation at a time: its mutex is not modelled, nor are the fields nothing reads.
  \<^item> A delay is a 64-bit count; its product with a traversal rate, a double in the code, is the parameter \<open>scale\<close>. Chains of modifiers share no element,
    and of the hooks that modules call after an update only the one of the forwarding sockets is modelled, as an operation of its own.
  \<^item> A thread of the simulation kernel is a sequence of steps between its waits; the two threads of the co-simulation interleave at each access to what they share,
    and these accesses are atomic. Sequential equivalence and progress are proved for programs that do not restrict the simulation to a region of interest.
  \<^item> Memories hold bytes; what a socket is bound to is an argument of the operation that calls it, and what the code leaves uninitialised is an argument of the
    constructor. Identifiers of routers and ports are natural numbers, and so are the weights of links (the code only uses the cost 1, as a float).
  \<^item> Output, logging and statistics printing are left out.

  \<^bold>\<open>Not modelled\<close>

  SystemC and TLM themselves; the processors (external shared libraries behind \<open>issWrapper\<close>); the cycle-accurate network on chip (its interface is not in the
  repository); loading of files into memories; the channels of the serial ports, terminals, sockets and remote simulators (input and output); the timer (its functions are empty);
  the platform builder and the rest of the component library, which read attributes and instantiate components; the vendored lock-free queue. \<open>CacheBase::Flush\<close> and
  the transport of the network without contention do not compile.
\<close>

end
